(* ===== verification/Prelude.thy ===== *)
theory Prelude
  imports Main "HOL-Library.Sublist"
begin

text \<open>
  Shared vocabulary of the development: Python dictionaries as insertion-ordered association
  lists, the few string methods the modelled code uses, and the fact collections the component
  proofs draw on.

  A Python \<open>str\<close> is a list of Isabelle characters, that is of code points below 256.  The code
  modelled here only ever inspects ASCII characters of a string (separators, digits, white space,
  path dots) and otherwise compares, cuts and joins, so nothing it decides depends on the code
  points this leaves out.
\<close>

named_theorems dict_simps \<open>equations of the dictionary operations\<close>
named_theorems str_defs \<open>definitions of the string helpers, for evaluation\<close>

section \<open>Dictionaries\<close>

type_synonym ('k, 'v) dict = "('k \<times> 'v) list"

text \<open>\<open>d[k] = v\<close> replaces in place or appends; \<open>d.get(k)\<close> is \<open>map_of\<close>; \<open>d.pop(k, None)\<close> removes.\<close>

fun dset :: "'k \<Rightarrow> 'v \<Rightarrow> ('k, 'v) dict \<Rightarrow> ('k, 'v) dict" where
  "dset k v [] = [(k, v)]"
| "dset k v ((k', v') # d) = (if k' = k then (k, v) # d else (k', v') # dset k v d)"

definition dget :: "('k, 'v) dict \<Rightarrow> 'k \<Rightarrow> 'v option" where
  "dget d k = map_of d k"

definition ddel :: "'k \<Rightarrow> ('k, 'v) dict \<Rightarrow> ('k, 'v) dict" where
  "ddel k d = filter (\<lambda>p. fst p \<noteq> k) d"

definition dkeys :: "('k, 'v) dict \<Rightarrow> 'k list" where
  "dkeys d = map fst d"

definition dict_ok :: "('k, 'v) dict \<Rightarrow> bool" where
  "dict_ok d = distinct (dkeys d)"

lemma dget_Nil [simp, dict_simps]: "dget [] k = None"
  by (simp add: dget_def)

lemma dget_Cons [dict_simps]: "dget ((a, b) # d) k = (if a = k then Some b else dget d k)"
  by (simp add: dget_def)

lemma dget_dset [simp, dict_simps]: "dget (dset k v d) k' = (if k' = k then Some v else dget d k')"
  by (induction d) (auto simp: dget_def)

lemma dget_ddel [simp, dict_simps]: "dget (ddel k d) k' = (if k' = k then None else dget d k')"
  by (induction d) (auto simp: dget_def ddel_def)

lemma dkeys_dset: "dkeys (dset k v d) = (if k \<in> set (dkeys d) then dkeys d else dkeys d @ [k])"
  by (induction d) (auto simp: dkeys_def image_iff split: if_splits)

lemma set_dkeys_dset [simp]: "set (dkeys (dset k v d)) = insert k (set (dkeys d))"
  by (auto simp: dkeys_dset)

lemma dget_None_iff: "dget d k = None \<longleftrightarrow> k \<notin> set (dkeys d)"
  by (induction d) (auto simp: dget_def dkeys_def)

lemma dget_Some_key: "dget d k = Some v \<Longrightarrow> k \<in> set (dkeys d)"
  by (metis dget_None_iff option.distinct(1))

lemma dict_ok_Nil [simp]: "dict_ok []"
  by (simp add: dict_ok_def dkeys_def)

lemma dict_ok_dset [simp]: "dict_ok (dset k v d) = dict_ok d"
  by (auto simp: dict_ok_def dkeys_dset)

lemma dict_ok_ddel [simp]: "dict_ok d \<Longrightarrow> dict_ok (ddel k d)"
  by (induction d) (auto simp: dict_ok_def dkeys_def ddel_def)

lemma length_dset: "length (dset k v d) = (if dget d k = None then Suc (length d) else length d)"
  by (induction d) (auto simp: dget_def)

lemma insort_key_map: "insort_key f (g x) (map g xs) = map g (insort_key (\<lambda>x. f (g x)) x xs)"
  by (induction xs) simp_all

lemma sort_key_map: "sort_key f (map g xs) = map g (sort_key (\<lambda>x. f (g x)) xs)"
  by (induction xs) (simp_all add: insort_key_map)

lemma dget_map_snd: "dget (map (\<lambda>(k, v). (k, f v)) m) k = map_option f (dget m k)"
  by (induction m) (auto simp: dget_Cons)

lemma dget_append: "dget (xs @ ys) k = (case dget xs k of None \<Rightarrow> dget ys k | Some v \<Rightarrow> Some v)"
  by (induction xs) (auto simp: dget_Cons)

lemma dget_in_set: "dget d k = Some v \<Longrightarrow> (k, v) \<in> set d"
  by (simp add: dget_def map_of_SomeD)

lemma dget_of_member: "dict_ok d \<Longrightarrow> (k, v) \<in> set d \<Longrightarrow> dget d k = Some v"
  by (simp add: dget_def dict_ok_def dkeys_def)

text \<open>What a keyed store promises its clients, whatever it is built from.\<close>

locale keyed_store =
  fixes lookup :: "'s \<Rightarrow> 'k \<Rightarrow> 'v option"
    and put :: "'k \<Rightarrow> 'v \<Rightarrow> 's \<Rightarrow> 's"
    and del :: "'k \<Rightarrow> 's \<Rightarrow> 's"
    and ok :: "'s \<Rightarrow> bool"
  assumes lookup_put: "lookup (put k v s) k' = (if k' = k then Some v else lookup s k')"
    and lookup_del: "lookup (del k s) k' = (if k' = k then None else lookup s k')"
    and ok_put: "ok s \<Longrightarrow> ok (put k v s)"
    and ok_del: "ok s \<Longrightarrow> ok (del k s)"
begin

lemma put_put_same: "lookup (put k v (put k w s)) = lookup (put k v s)"
  by (auto simp: lookup_put)

lemma del_put_same: "lookup (del k (put k v s)) = lookup (del k s)"
  by (auto simp: lookup_put lookup_del)

lemma put_swap: "k \<noteq> k' \<Longrightarrow> lookup (put k v (put k' v' s)) = lookup (put k' v' (put k v s))"
  by (auto simp: lookup_put)

lemma fold_put_other:
  "k \<notin> fst ` set kvs \<Longrightarrow> lookup (fold (\<lambda>(a, b). put a b) kvs s) k = lookup s k"
  by (induction kvs arbitrary: s) (auto simp: lookup_put)

lemma fold_del: "lookup (fold del ks s) k = (if k \<in> set ks then None else lookup s k)"
  by (induction ks arbitrary: s) (auto simp: lookup_del)

end

interpretation dict: keyed_store dget dset ddel dict_ok
  by unfold_locales simp_all

section \<open>Histories\<close>

text \<open>
  Contracts of a component driven by a sequence of events: an invariant every event keeps, a plain
  state that the detailed one refines, and events that only touch the part of the state they name.
\<close>

locale preserved =
  fixes step :: "'e \<Rightarrow> 's \<Rightarrow> 's"
    and inv :: "'s \<Rightarrow> bool"
  assumes step_kept: "inv s \<Longrightarrow> inv (step e s)"
begin

lemma history_kept: "inv s \<Longrightarrow> inv (fold step es s)"
  by (induction es arbitrary: s) (simp_all add: step_kept)

end

locale refined = preserved +
  fixes abs :: "'s \<Rightarrow> 'a"
    and astep :: "'e \<Rightarrow> 'a \<Rightarrow> 'a"
  assumes step_refined: "inv s \<Longrightarrow> abs (step e s) = astep e (abs s)"
begin

lemma history_refined: "inv s \<Longrightarrow> abs (fold step es s) = fold astep es (abs s)"
  by (induction es arbitrary: s) (simp_all add: step_kept step_refined)

end

locale local_effects =
  fixes step :: "'e \<Rightarrow> 's \<Rightarrow> 's"
    and key :: "'e \<Rightarrow> 'k"
    and view :: "'k \<Rightarrow> 's \<Rightarrow> 'v"
  assumes step_local: "key e \<noteq> k \<Longrightarrow> view k (step e s) = view k s"
begin

lemma history_local: "\<forall>e \<in> set es. key e \<noteq> k \<Longrightarrow> view k (fold step es s) = view k s"
  by (induction es arbitrary: s) (simp_all add: step_local)

end

section \<open>Strings\<close>

definition is_space :: "char \<Rightarrow> bool" where
  "is_space c = (let n = (of_char c :: nat) in
     (9 \<le> n \<and> n \<le> 13) \<or> (28 \<le> n \<and> n \<le> 32) \<or> n = 133 \<or> n = 160)"

definition lower_char :: "char \<Rightarrow> char" where
  "lower_char c = (let n = (of_char c :: nat) in
     if (65 \<le> n \<and> n \<le> 90) \<or> (192 \<le> n \<and> n \<le> 222 \<and> n \<noteq> 215) then char_of (n + 32) else c)"

definition is_digit :: "char \<Rightarrow> bool" where
  "is_digit c = (let n = (of_char c :: nat) in 48 \<le> n \<and> n \<le> 57)"

definition digit_val :: "char \<Rightarrow> int" where
  "digit_val c = int (of_char c :: nat) - 48"

definition lstrip :: "string \<Rightarrow> string" where
  "lstrip s = dropWhile is_space s"

definition rstrip :: "string \<Rightarrow> string" where
  "rstrip s = rev (dropWhile is_space (rev s))"

definition strip :: "string \<Rightarrow> string" where
  "strip s = rstrip (lstrip s)"

definition lower :: "string \<Rightarrow> string" where
  "lower s = map lower_char s"

text \<open>\<open>s.split(c)\<close> for a one-character separator: never empty.\<close>

fun split_on :: "'c \<Rightarrow> 'c list \<Rightarrow> 'c list list" where
  "split_on c [] = [[]]"
| "split_on c (x # xs) =
     (if x = c then [] # split_on c xs
      else case split_on c xs of [] \<Rightarrow> [[x]] | y # ys \<Rightarrow> (x # y) # ys)"

text \<open>\<open>sep.join(xs)\<close>.\<close>

fun join :: "'c list \<Rightarrow> 'c list list \<Rightarrow> 'c list" where
  "join sep [] = []"
| "join sep [x] = x"
| "join sep (x # y # ys) = x @ sep @ join sep (y # ys)"

lemma split_on_nonempty [simp]: "split_on c s \<noteq> []"
  by (cases s) (auto split: list.splits)

lemma join_split_on: "join [c] (split_on c s) = s"
proof (induction s)
  case (Cons x s)
  show ?case
  proof (cases "split_on c s")
    case Nil
    then show ?thesis by simp
  next
    case (Cons y ys)
    with Cons.IH show ?thesis by (cases ys) auto
  qed
qed simp

lemma split_on_no_sep: "p \<in> set (split_on c s) \<Longrightarrow> c \<notin> set p"
  by (induction s arbitrary: p) (auto split: list.splits if_splits)

lemma set_strip_subset: "set (strip s) \<subseteq> set s"
  by (auto simp: strip_def rstrip_def lstrip_def dest!: set_dropWhileD)

lemmas strip_defs [str_defs] = strip_def rstrip_def lstrip_def is_space_def

text \<open>\<open>str.splitlines\<close>: the line boundaries below code point 256, with \<open>\r\n\<close> as one.\<close>

definition line_end :: "char \<Rightarrow> bool" where
  "line_end c = (let n = (of_char c :: nat) in (10 \<le> n \<and> n \<le> 13) \<or> (28 \<le> n \<and> n \<le> 30) \<or> n = 133)"

fun splitlines :: "string \<Rightarrow> string list" where
  "splitlines [] = []"
| "splitlines (c # cs) =
     (if c = CHR 0x0D \<and> cs \<noteq> [] \<and> hd cs = CHR 0x0A then [] # splitlines (tl cs)
      else if line_end c then [] # splitlines cs
      else case splitlines cs of [] \<Rightarrow> [[c]] | l # ls \<Rightarrow> (c # l) # ls)"

text \<open>\<open>xs[-n:]\<close> for a positive \<open>n\<close>.\<close>

definition take_last :: "nat \<Rightarrow> 'a list \<Rightarrow> 'a list" where
  "take_last n xs = drop (length xs - n) xs"

lemma length_take_last [simp]: "length (take_last n xs) = min n (length xs)"
  by (simp add: take_last_def)

lemma suffix_take_last: "suffix (take_last n xs) xs"
  by (simp add: take_last_def suffix_drop)

text \<open>\<open>deque(maxlen=n).append(x)\<close>.\<close>

definition push_bounded :: "nat \<Rightarrow> 'a \<Rightarrow> 'a list \<Rightarrow> 'a list" where
  "push_bounded n x xs = take_last n (xs @ [x])"

lemma length_push_bounded: "length (push_bounded n x xs) \<le> n"
  by (simp add: push_bounded_def)

text \<open>Python truth value of an optional string: \<open>None\<close> and the empty string are false.\<close>

definition truthy :: "string option \<Rightarrow> bool" where
  "truthy s = (case s of None \<Rightarrow> False | Some t \<Rightarrow> t \<noteq> [])"

lemma truthy_simps [simp]: "\<not> truthy None" "truthy (Some t) = (t \<noteq> [])"
  by (simp_all add: truthy_def)

section \<open>Numbers as text\<close>

text \<open>
  \<open>int(s)\<close> on a string: surrounding white space, a sign, decimal digits with single underscores
  between them, at most 4300 digits; anything else raises (\<open>None\<close>).
\<close>

definition digits_val :: "string \<Rightarrow> int" where
  "digits_val ds = fold (\<lambda>c n. 10 * n + digit_val c) ds 0"

definition py_digits :: "string \<Rightarrow> int option" where
  "py_digits s = (let parts = split_on CHR ''_'' s; ds = concat parts in
     if (\<forall>p \<in> set parts. p \<noteq> []) \<and> (\<forall>c \<in> set ds. is_digit c) \<and> length ds \<le> 4300
     then Some (digits_val ds) else None)"

definition py_int :: "string \<Rightarrow> int option" where
  "py_int s = (case strip s of
      [] \<Rightarrow> None
    | c # cs \<Rightarrow> if c = CHR ''-'' then map_option uminus (py_digits cs)
        else if c = CHR ''+'' then py_digits cs else py_digits (c # cs))"

text \<open>\<open>str(n)\<close> of a number that is not negative.\<close>

fun show_nat :: "nat \<Rightarrow> string" where
  "show_nat n = (if n < 10 then [char_of (48 + n)]
     else show_nat (n div 10) @ [char_of (48 + n mod 10)])"

declare show_nat.simps [simp del]

lemmas py_int_defs [str_defs] = py_int_def py_digits_def digits_val_def digit_val_def is_digit_def

text \<open>\<open>str(n)\<close>, and that \<open>int\<close> reads it back.\<close>

definition show_int :: "int \<Rightarrow> string" where
  "show_int n = (if n < 0 then CHR ''-'' # show_nat (nat (- n)) else show_nat (nat n))"

lemma digit_char [simp]: "n < 10 \<Longrightarrow> is_digit (char_of (48 + n)) \<and> digit_val (char_of (48 + n)) = int n"
  by (simp add: is_digit_def digit_val_def of_char_of)

lemma show_nat_spec: "show_nat n \<noteq> [] \<and> list_all is_digit (show_nat n) \<and> digits_val (show_nat n) = int n"
proof (induction n rule: less_induct)
  case (less n)
  show ?case
  proof (cases "n < 10")
    case True
    then show ?thesis by (simp add: show_nat.simps[of n] digits_val_def)
  next
    case False
    then have "n div 10 < n" by simp
    with less have IH: "show_nat (n div 10) \<noteq> []" "list_all is_digit (show_nat (n div 10))"
      "digits_val (show_nat (n div 10)) = int (n div 10)" by blast+
    have "digits_val (show_nat n) = 10 * int (n div 10) + int (n mod 10)"
      using False IH(3) digit_char[of "n mod 10"] by (subst show_nat.simps) (simp add: digits_val_def)
    also have "\<dots> = int n" by presburger
    finally show ?thesis
      using False IH digit_char[of "n mod 10"] by (simp add: show_nat.simps[of n])
  qed
qed

lemma digit_no_space: "is_digit c \<Longrightarrow> \<not> is_space c \<and> c \<noteq> CHR ''_'' \<and> c \<noteq> CHR ''-'' \<and> c \<noteq> CHR ''+''"
  by (auto simp: is_digit_def is_space_def Let_def)

lemma split_on_absent: "c \<notin> set s \<Longrightarrow> split_on c s = [s]"
  by (induction s) auto

lemma strip_id: "s = [] \<or> (\<not> is_space (hd s) \<and> \<not> is_space (last s)) \<Longrightarrow> strip s = s"
  by (auto simp: strip_def lstrip_def rstrip_def hd_rev dropWhile_eq_self_iff[THEN iffD2])

lemma py_digits_show: "length (show_nat n) \<le> 4300 \<Longrightarrow> py_digits (show_nat n) = Some (int n)"
proof -
  assume l: "length (show_nat n) \<le> 4300"
  have d: "\<forall>c \<in> set (show_nat n). is_digit c" using show_nat_spec[of n] by (simp add: list_all_iff)
  then have "CHR ''_'' \<notin> set (show_nat n)" using digit_no_space by blast
  then have "split_on CHR ''_'' (show_nat n) = [show_nat n]" by (rule split_on_absent)
  then show ?thesis using l d show_nat_spec[of n] by (simp add: py_digits_def Let_def)
qed

lemma py_int_show: "length (show_nat (nat \<bar>n\<bar>)) \<le> 4300 \<Longrightarrow> py_int (show_int n) = Some n"
proof -
  assume l: "length (show_nat (nat \<bar>n\<bar>)) \<le> 4300"
  let ?d = "show_nat (nat \<bar>n\<bar>)"
  have d: "?d \<noteq> []" "\<forall>c \<in> set ?d. is_digit c" using show_nat_spec[of "nat \<bar>n\<bar>"] by (auto simp: list_all_iff)
  have sp: "strip ?d = ?d" "strip (CHR ''-'' # ?d) = CHR ''-'' # ?d"
    using d digit_no_space[of "hd ?d"] digit_no_space[of "last ?d"]
    by (auto intro!: strip_id simp: is_space_def)
  obtain c cs where cs: "?d = c # cs" using d(1) by (cases ?d) auto
  then have c: "c \<noteq> CHR ''-''" "c \<noteq> CHR ''+''" using d(2) digit_no_space[of c] by auto
  show ?thesis
  proof (cases "n < 0")
    case True
    then have "show_int n = CHR ''-'' # ?d" by (simp add: show_int_def)
    then show ?thesis using True sp(2) py_digits_show[OF l] by (simp add: py_int_def)
  next
    case False
    then have "show_int n = ?d" by (simp add: show_int_def)
    then show ?thesis using False sp(1) py_digits_show[OF l] cs c by (simp add: py_int_def)
  qed
qed

lemma show_int_nonempty [simp]: "show_int n \<noteq> []"
  using show_nat_spec by (simp add: show_int_def)

end
