(* ===== verification/GroupQueue.thy ===== *)
theory GroupQueue
  imports Prelude
begin

text \<open>
  \<open>host/group_queue.py\<close>: one queue per chat group, a global limit on running containers, a
  first-in first-out list of groups waiting for a slot, and exponential back-off after failures.

  The object's fields are the record \<open>gq\<close>.  An \<open>asyncio\<close> task made with \<open>create_task\<close> is an
  element of \<open>jobs\<close> (not begun, or suspended at its \<open>await\<close>); a back-off timer is an element of
  \<open>retry_tasks\<close>.  The event loop runs one callback at a time up to its next \<open>await\<close>, so one such
  segment is one transition: \<open>begin_job\<close> is a runner up to its \<open>await\<close>, \<open>finish_job\<close> the rest of it
  with the awaited call's outcome, \<open>fire_retry\<close> the body of \<open>_retry\<close> after its sleep.  The limit
  \<open>config.MAX_CONCURRENT_CONTAINERS\<close> is the argument \<open>maxc\<close> and the clock (ms) the argument \<open>now\<close>.
\<close>

section \<open>State\<close>

definition MAX_RETRIES :: nat where "MAX_RETRIES = 5"
definition BASE_RETRY_SECS :: int where "BASE_RETRY_SECS = 5"
definition MAX_PENDING_TASKS_PER_GROUP :: nat where "MAX_PENDING_TASKS_PER_GROUP = 50"
definition MAX_WAITING_GROUPS :: nat where "MAX_WAITING_GROUPS = 100"

record queued_task =
  qt_id :: string
  qt_jid :: string

record group_state =
  active :: bool
  idle_waiting :: bool
  is_task_container :: bool
  running_task_id :: "string option"
  pending_messages :: bool
  pending_message_queued_at_ms :: "int option"
  pending_tasks :: "queued_task list"
  pending_task_ids :: "string set"
  retry_count :: nat
  retry_ready :: bool

definition new_group_state :: group_state where
  "new_group_state = \<lparr>active = False, idle_waiting = False, is_task_container = False,
     running_task_id = None, pending_messages = False, pending_message_queued_at_ms = None,
     pending_tasks = [], pending_task_ids = {}, retry_count = 0, retry_ready = False\<rparr>"

text \<open>A spawned runner: group, what it runs, and whether it has reached its \<open>await\<close>.\<close>

datatype job =
    MsgJob (job_jid: string) (job_reason: string) (job_queued: int) (job_running: bool)
  | TaskJob (job_jid: string) (job_task: queued_task) (job_running: bool)

datatype outcome = Succeeded | Failed | Raised | Cancelled

text \<open>The dictionary \<open>_process_messages_fn\<close> is called with.\<close>

record run_info =
  ri_jid :: string
  ri_reason :: string
  ri_queued_at :: int
  ri_started_at :: int
  ri_wait :: int

record gq =
  groups :: "(string, group_state) dict"
  active_count :: int
  waiting_groups :: "string list"
  waiting_set :: "string set"
  process_fn_set :: bool
  shutting_down :: bool
  retry_tasks :: "(string \<times> int) list"
  jobs :: "job list"
  notices :: "(string \<times> string) list"
  calls :: "run_info list"

definition new_gq :: gq where
  "new_gq = \<lparr>groups = [], active_count = 0, waiting_groups = [], waiting_set = {},
     process_fn_set = False, shutting_down = False, retry_tasks = [], jobs = [], notices = [],
     calls = []\<rparr>"

definition set_process_messages_fn :: "gq \<Rightarrow> gq" where
  "set_process_messages_fn q = q\<lparr>process_fn_set := True\<rparr>"

text \<open>\<open>_get_group\<close> creates the entry on first use; \<open>upd\<close> mutates the returned object.\<close>

definition grp :: "gq \<Rightarrow> string \<Rightarrow> group_state" where
  "grp q jid = (case dget (groups q) jid of None \<Rightarrow> new_group_state | Some s \<Rightarrow> s)"

definition upd :: "string \<Rightarrow> (group_state \<Rightarrow> group_state) \<Rightarrow> gq \<Rightarrow> gq" where
  "upd jid f q = q\<lparr>groups := dset jid (f (grp q jid)) (groups q)\<rparr>"

definition get_group :: "string \<Rightarrow> gq \<Rightarrow> gq" where
  "get_group jid q = upd jid (\<lambda>s. s) q"

section \<open>Operations\<close>

text \<open>\<open>x or now\<close> on an optional timestamp: \<open>None\<close> and \<open>0\<close> are false.\<close>

definition or_now :: "int option \<Rightarrow> int \<Rightarrow> int" where
  "or_now t now = (case t of None \<Rightarrow> now | Some x \<Rightarrow> if x = 0 then now else x)"

definition mark_pending :: "int \<Rightarrow> string \<Rightarrow> gq \<Rightarrow> gq" where
  "mark_pending now jid q = upd jid (\<lambda>s. s\<lparr>
     pending_message_queued_at_ms :=
       (case pending_message_queued_at_ms s of None \<Rightarrow> Some now | Some t \<Rightarrow> Some t),
     pending_messages := True\<rparr>) q"

definition start_messages :: "int \<Rightarrow> string \<Rightarrow> string \<Rightarrow> gq \<Rightarrow> gq" where
  "start_messages now reason jid q =
     (let queued = or_now (pending_message_queued_at_ms (grp q jid)) now in
      (upd jid (\<lambda>s. s\<lparr>active := True, retry_ready := False, pending_message_queued_at_ms := None\<rparr>) q)
        \<lparr>active_count := active_count q + 1, jobs := jobs q @ [MsgJob jid reason queued False]\<rparr>)"

definition start_task :: "string \<Rightarrow> queued_task \<Rightarrow> gq \<Rightarrow> gq" where
  "start_task jid t q =
     (upd jid (\<lambda>s. s\<lparr>active := True, is_task_container := True, running_task_id := Some (qt_id t)\<rparr>) q)
       \<lparr>active_count := active_count q + 1, jobs := jobs q @ [TaskJob jid t False]\<rparr>"

definition add_waiting :: "string \<Rightarrow> gq \<Rightarrow> gq" where
  "add_waiting jid q = q\<lparr>waiting_groups := waiting_groups q @ [jid],
     waiting_set := insert jid (waiting_set q)\<rparr>"

definition enqueue_message_check :: "int \<Rightarrow> int \<Rightarrow> bool \<Rightarrow> string \<Rightarrow> gq \<Rightarrow> gq" where
  "enqueue_message_check maxc now from_retry jid q =
     (if shutting_down q then q
      else let q = get_group jid q; s = grp q jid in
        if active s then mark_pending now jid q
        else if retry_count s > 0 \<and> \<not> from_retry then mark_pending now jid q
        else if active_count q \<ge> maxc then
          (let q = mark_pending now jid q in
           if jid \<notin> waiting_set q \<and> length (waiting_groups q) < MAX_WAITING_GROUPS
           then add_waiting jid q else q)
        else start_messages now ''messages'' jid q)"

definition push_task :: "string \<Rightarrow> queued_task \<Rightarrow> gq \<Rightarrow> gq" where
  "push_task jid t q = upd jid (\<lambda>s. s\<lparr>pending_tasks := pending_tasks s @ [t],
     pending_task_ids := insert (qt_id t) (pending_task_ids s)\<rparr>) q"

definition enqueue_task :: "int \<Rightarrow> string \<Rightarrow> string \<Rightarrow> gq \<Rightarrow> gq" where
  "enqueue_task maxc jid task_id q =
     (if shutting_down q then q
      else let q = get_group jid q; s = grp q jid; t = \<lparr>qt_id = task_id, qt_jid = jid\<rparr> in
        if running_task_id s = Some task_id then q
        else if task_id \<in> pending_task_ids s then q
        else if active s then
          (if length (pending_tasks s) \<ge> MAX_PENDING_TASKS_PER_GROUP
           then q\<lparr>notices := notices q @ [(jid, ''task queue full'')]\<rparr>
           else push_task jid t q)
        else if active_count q \<ge> maxc then
          (if jid \<notin> waiting_set q \<and> length (waiting_groups q) \<ge> MAX_WAITING_GROUPS then q
           else if length (pending_tasks s) \<ge> MAX_PENDING_TASKS_PER_GROUP then q
           else let q = push_task jid t q in
             if jid \<notin> waiting_set q then add_waiting jid q else q)
        else start_task jid t (upd jid (\<lambda>s. s\<lparr>retry_ready := False\<rparr>) q))"

text \<open>
  The head of \<open>pending_tasks\<close> is taken off and started; shared by \<open>_drain_group\<close> and
  \<open>_drain_waiting\<close>.
\<close>

definition pop_task :: "string \<Rightarrow> queued_task \<Rightarrow> gq \<Rightarrow> gq" where
  "pop_task jid t q = start_task jid t (upd jid (\<lambda>s. s\<lparr>pending_tasks := tl (pending_tasks s),
     pending_task_ids := pending_task_ids s - {qt_id t}\<rparr>) q)"

text \<open>One iteration of the \<open>while\<close> of \<open>_drain_waiting\<close>, after the \<open>popleft\<close>.\<close>

definition drain_one :: "int \<Rightarrow> string \<Rightarrow> gq \<Rightarrow> gq" where
  "drain_one now jid q =
     (let q = get_group jid q; s = grp q jid in
      case pending_tasks s of
        t # _ \<Rightarrow> pop_task jid t q
      | [] \<Rightarrow>
          if pending_messages s then
            (if retry_count s > 0 \<and> \<not> retry_ready s then q
             else start_messages now ''waiting'' jid (upd jid (\<lambda>s. s\<lparr>pending_messages := False\<rparr>) q))
          else q)"

fun drain_loop :: "int \<Rightarrow> int \<Rightarrow> string list \<Rightarrow> gq \<Rightarrow> gq" where
  "drain_loop maxc now [] q = q"
| "drain_loop maxc now (jid # ws) q =
     (if active_count q < maxc then
        drain_loop maxc now ws
          (drain_one now jid (q\<lparr>waiting_groups := ws, waiting_set := waiting_set q - {jid}\<rparr>))
      else q)"

definition drain_waiting :: "int \<Rightarrow> int \<Rightarrow> gq \<Rightarrow> gq" where
  "drain_waiting maxc now q = drain_loop maxc now (waiting_groups q) q"

definition drain_group :: "int \<Rightarrow> int \<Rightarrow> string \<Rightarrow> gq \<Rightarrow> gq" where
  "drain_group maxc now jid q =
     (if shutting_down q then q
      else let q = get_group jid q; s = grp q jid in
        case pending_tasks s of
          t # _ \<Rightarrow> pop_task jid t q
        | [] \<Rightarrow>
            if pending_messages s then
              (if retry_count s > 0 \<and> \<not> retry_ready s then q
               else start_messages now ''drain'' jid q)
            else drain_waiting maxc now q)"

definition schedule_retry :: "string \<Rightarrow> gq \<Rightarrow> gq" where
  "schedule_retry jid q =
     (let n = Suc (retry_count (grp q jid)) in
      if n > MAX_RETRIES then
        (upd jid (\<lambda>s. s\<lparr>retry_count := 0, retry_ready := False\<rparr>) q)
          \<lparr>notices := notices q @ [(jid, ''retries exceeded'')]\<rparr>
      else
        (upd jid (\<lambda>s. s\<lparr>retry_count := n\<rparr>) q)
          \<lparr>retry_tasks := retry_tasks q @ [(jid, BASE_RETRY_SECS * 2 ^ (n - 1))]\<rparr>)"

text \<open>The \<open>finally\<close> blocks of the two runners.\<close>

definition end_messages :: "int \<Rightarrow> int \<Rightarrow> string \<Rightarrow> gq \<Rightarrow> gq" where
  "end_messages maxc now jid q = drain_group maxc now jid
     ((upd jid (\<lambda>s. s\<lparr>active := False\<rparr>) q)\<lparr>active_count := active_count q - 1\<rparr>)"

definition end_task :: "int \<Rightarrow> int \<Rightarrow> string \<Rightarrow> gq \<Rightarrow> gq" where
  "end_task maxc now jid q = drain_group maxc now jid
     ((upd jid (\<lambda>s. s\<lparr>active := False, is_task_container := False, running_task_id := None\<rparr>) q)
        \<lparr>active_count := active_count q - 1\<rparr>)"

definition remove_nth :: "nat \<Rightarrow> 'a list \<Rightarrow> 'a list" where
  "remove_nth i xs = take i xs @ drop (Suc i) xs"

text \<open>\<open>_run_for_group\<close> and \<open>_run_task\<close> up to their \<open>await\<close>.\<close>

definition begin_job :: "int \<Rightarrow> int \<Rightarrow> nat \<Rightarrow> gq \<Rightarrow> gq" where
  "begin_job maxc now i q =
     (case jobs q ! i of
        MsgJob jid reason queued _ \<Rightarrow>
          (let q = upd jid (\<lambda>s. s\<lparr>idle_waiting := False, is_task_container := False,
                 pending_messages := False\<rparr>) q;
               eff = (if queued = 0 then now else queued) in
           if process_fn_set q then
             q\<lparr>jobs := (jobs q)[i := MsgJob jid reason queued True],
               calls := calls q @ [\<lparr>ri_jid = jid, ri_reason = reason, ri_queued_at = eff,
                 ri_started_at = now, ri_wait = max 0 (now - eff)\<rparr>]\<rparr>
           else end_messages maxc now jid (q\<lparr>jobs := remove_nth i (jobs q)\<rparr>))
      | TaskJob jid t _ \<Rightarrow>
          (upd jid (\<lambda>s. s\<lparr>idle_waiting := False\<rparr>) q)\<lparr>jobs := (jobs q)[i := TaskJob jid t True]\<rparr>)"

text \<open>
  The rest of the runners.  \<open>Cancelled\<close> is \<open>CancelledError\<close>, which \<open>except Exception\<close> does not
  catch: only the \<open>finally\<close> block runs.
\<close>

definition finish_job :: "int \<Rightarrow> int \<Rightarrow> outcome \<Rightarrow> nat \<Rightarrow> gq \<Rightarrow> gq" where
  "finish_job maxc now out i q =
     (let q' = q\<lparr>jobs := remove_nth i (jobs q)\<rparr> in
      case jobs q ! i of
        MsgJob jid _ _ _ \<Rightarrow>
          end_messages maxc now jid
            (case out of
               Succeeded \<Rightarrow> upd jid (\<lambda>s. s\<lparr>retry_count := 0\<rparr>) q'
             | Failed \<Rightarrow> schedule_retry jid q'
             | Raised \<Rightarrow> schedule_retry jid q'
             | Cancelled \<Rightarrow> q')
      | TaskJob jid _ _ \<Rightarrow> end_task maxc now jid q')"

definition fire_retry :: "int \<Rightarrow> int \<Rightarrow> nat \<Rightarrow> gq \<Rightarrow> gq" where
  "fire_retry maxc now i q =
     (let jid = fst (retry_tasks q ! i); q = q\<lparr>retry_tasks := remove_nth i (retry_tasks q)\<rparr> in
      if shutting_down q then q
      else enqueue_message_check maxc now True jid (upd jid (\<lambda>s. s\<lparr>retry_ready := True\<rparr>) q))"

definition shutdown_sync :: "gq \<Rightarrow> gq" where
  "shutdown_sync q = q\<lparr>shutting_down := True\<rparr>"

definition shutdown :: "gq \<Rightarrow> gq" where
  "shutdown q = q\<lparr>shutting_down := True, retry_tasks := []\<rparr>"

text \<open>What can happen next: a caller, a runner, a timer or a shutdown.\<close>

inductive gq_step :: "int \<Rightarrow> gq \<Rightarrow> gq \<Rightarrow> bool" for maxc where
  message: "gq_step maxc q (enqueue_message_check maxc now False jid q)"
| task: "gq_step maxc q (enqueue_task maxc jid tid q)"
| begin_job: "i < length (jobs q) \<Longrightarrow> \<not> job_running (jobs q ! i) \<Longrightarrow>
    gq_step maxc q (begin_job maxc now i q)"
| finish_job: "i < length (jobs q) \<Longrightarrow> job_running (jobs q ! i) \<Longrightarrow>
    gq_step maxc q (finish_job maxc now out i q)"
| retry: "i < length (retry_tasks q) \<Longrightarrow> gq_step maxc q (fire_retry maxc now i q)"
| stop_sync: "gq_step maxc q (shutdown_sync q)"
| stop: "gq_step maxc q (shutdown q)"
| register: "gq_step maxc q (set_process_messages_fn q)"

inductive gq_reach :: "int \<Rightarrow> gq \<Rightarrow> bool" for maxc where
  start: "gq_reach maxc new_gq"
| step: "gq_reach maxc q \<Longrightarrow> gq_step maxc q q' \<Longrightarrow> gq_reach maxc q'"

inductive_cases gq_stepE: "gq_step maxc q q'"


section \<open>Frame facts\<close>

named_theorems gq_ops \<open>the queue operations built from \<open>upd\<close>\<close>

lemmas gq_consts = MAX_RETRIES_def BASE_RETRY_SECS_def MAX_PENDING_TASKS_PER_GROUP_def
  MAX_WAITING_GROUPS_def

lemmas gq_prim [gq_ops] = get_group_def mark_pending_def start_messages_def start_task_def
  add_waiting_def push_task_def pop_task_def schedule_retry_def Let_def

lemma grp_upd [simp]: "grp (upd j f q) k = (if k = j then f (grp q j) else grp q k)"
  by (simp add: grp_def upd_def)

lemma grp_other [simp]:
  "grp (q\<lparr>active_count := c\<rparr>) k = grp q k" "grp (q\<lparr>jobs := b\<rparr>) k = grp q k"
  "grp (q\<lparr>waiting_groups := w\<rparr>) k = grp q k" "grp (q\<lparr>waiting_set := ws\<rparr>) k = grp q k"
  "grp (q\<lparr>notices := n\<rparr>) k = grp q k" "grp (q\<lparr>retry_tasks := r\<rparr>) k = grp q k"
  "grp (q\<lparr>calls := l\<rparr>) k = grp q k" "grp (q\<lparr>shutting_down := z\<rparr>) k = grp q k"
  "grp (q\<lparr>process_fn_set := z\<rparr>) k = grp q k"
  by (simp_all add: grp_def)

lemma upd_fields [simp]:
  "active_count (upd j f q) = active_count q" "jobs (upd j f q) = jobs q"
  "waiting_groups (upd j f q) = waiting_groups q" "waiting_set (upd j f q) = waiting_set q"
  "notices (upd j f q) = notices q" "retry_tasks (upd j f q) = retry_tasks q"
  "calls (upd j f q) = calls q" "shutting_down (upd j f q) = shutting_down q"
  "process_fn_set (upd j f q) = process_fn_set q"
  by (simp_all add: upd_def)

lemma grp_new [simp]: "grp new_gq k = new_group_state"
  by (simp add: grp_def new_gq_def)

lemma length_remove_nth [simp]: "i < length xs \<Longrightarrow> length (remove_nth i xs) = length xs - 1"
  by (simp add: remove_nth_def)

lemma mset_remove_nth: "i < length xs \<Longrightarrow> length (filter P (remove_nth i xs)) =
    length (filter P xs) - (if P (xs ! i) then 1 else 0)"
  by (subst (2) id_take_nth_drop [of i xs]) (auto simp: remove_nth_def)

section \<open>The global limit\<close>

definition slots_ok :: "int \<Rightarrow> gq \<Rightarrow> bool" where
  "slots_ok maxc q = (active_count q = int (length (jobs q)) \<and> active_count q \<le> max 0 maxc)"

lemma slots_drain_one:
  "slots_ok maxc q \<Longrightarrow> active_count q < maxc \<Longrightarrow> slots_ok maxc (drain_one now j q)"
  by (auto simp: slots_ok_def drain_one_def gq_ops split: list.splits)

lemma slots_drain_loop: "slots_ok maxc q \<Longrightarrow> slots_ok maxc (drain_loop maxc now ws q)"
proof (induction ws arbitrary: q)
  case (Cons j ws)
  let ?q = "q\<lparr>waiting_groups := ws, waiting_set := waiting_set q - {j}\<rparr>"
  from Cons.prems have "slots_ok maxc ?q" by (simp add: slots_ok_def)
  then show ?case using Cons slots_drain_one[of maxc ?q now j] by auto
qed simp

lemma slots_drain_group:
  "slots_ok maxc q \<Longrightarrow> active_count q < maxc \<Longrightarrow> slots_ok maxc (drain_group maxc now j q)"
  using slots_drain_loop[of maxc "get_group j q" now "waiting_groups q"]
  by (auto simp: slots_ok_def drain_group_def drain_waiting_def gq_ops split: list.splits)

lemma slots_end:
  assumes "active_count q = int (length (jobs q)) + 1" "active_count q \<le> max 0 maxc"
  shows "slots_ok maxc (end_messages maxc now j q)" "slots_ok maxc (end_task maxc now j q)"
  unfolding end_messages_def end_task_def
  by (rule slots_drain_group; use assms in \<open>simp add: slots_ok_def\<close>)+

lemma slots_begin:
  "slots_ok maxc q \<Longrightarrow> i < length (jobs q) \<Longrightarrow> slots_ok maxc (begin_job maxc now i q)"
  unfolding begin_job_def Let_def
  by (auto split: job.split intro!: slots_end(1)) (auto simp: slots_ok_def)

lemma slots_finish:
  "slots_ok maxc q \<Longrightarrow> i < length (jobs q) \<Longrightarrow> slots_ok maxc (finish_job maxc now out i q)"
  unfolding finish_job_def Let_def
  by (auto split: job.split outcome.split intro!: slots_end)
     (auto simp: slots_ok_def schedule_retry_def Let_def)

lemma slots_enqueue:
  "slots_ok maxc q \<Longrightarrow> slots_ok maxc (enqueue_message_check maxc now r j q)"
  "slots_ok maxc q \<Longrightarrow> slots_ok maxc (enqueue_task maxc j t q)"
  by (auto simp: slots_ok_def gq_ops enqueue_message_check_def enqueue_task_def)

lemma slots_other: "slots_ok maxc (upd j f q) = slots_ok maxc q"
  "slots_ok maxc (q\<lparr>retry_tasks := r\<rparr>) = slots_ok maxc q"
  by (simp_all add: slots_ok_def)

lemma slots_step: "gq_step maxc q q' \<Longrightarrow> slots_ok maxc q \<Longrightarrow> slots_ok maxc q'"
proof (induction rule: gq_step.induct)
  case (retry i q now)
  then show ?case by (simp add: fire_retry_def Let_def slots_enqueue slots_other)
next
  case (stop_sync q)
  then show ?case by (simp add: shutdown_sync_def slots_ok_def)
next
  case (stop q)
  then show ?case by (simp add: shutdown_def slots_ok_def)
next
  case (register q)
  then show ?case by (simp add: set_process_messages_fn_def slots_ok_def)
qed (simp_all add: slots_enqueue slots_begin slots_finish)

lemma slots_reach: "gq_reach maxc q \<Longrightarrow> slots_ok maxc q"
proof (induction rule: gq_reach.induct)
  case start
  show ?case by (simp add: slots_ok_def new_gq_def)
next
  case (step q q')
  then show ?case by (blast intro: slots_step)
qed

section \<open>Bounds and consistency of the queues\<close>

definition group_ok :: "group_state \<Rightarrow> bool" where
  "group_ok s = (length (pending_tasks s) \<le> MAX_PENDING_TASKS_PER_GROUP
     \<and> pending_task_ids s = qt_id ` set (pending_tasks s)
     \<and> distinct (map qt_id (pending_tasks s)) \<and> retry_count s \<le> MAX_RETRIES)"

definition waiting_ok :: "gq \<Rightarrow> bool" where
  "waiting_ok q = (distinct (waiting_groups q) \<and> set (waiting_groups q) = waiting_set q
     \<and> length (waiting_groups q) \<le> MAX_WAITING_GROUPS)"

definition queues_ok :: "gq \<Rightarrow> bool" where
  "queues_ok q = ((\<forall>j. group_ok (grp q j)) \<and> waiting_ok q)"

lemma queues_okI: "(\<And>j. group_ok (grp q j)) \<Longrightarrow> waiting_ok q \<Longrightarrow> queues_ok q"
  by (simp add: queues_ok_def)

lemma queues_grp: "queues_ok q \<Longrightarrow> group_ok (grp q j)"
  by (simp add: queues_ok_def)

lemma group_ok_new [simp]: "group_ok new_group_state"
  by (simp add: group_ok_def new_group_state_def)

lemma waiting_frame [simp]:
  "waiting_ok (upd j f q) = waiting_ok q" "waiting_ok (q\<lparr>active_count := c\<rparr>) = waiting_ok q"
  "waiting_ok (q\<lparr>jobs := b\<rparr>) = waiting_ok q" "waiting_ok (q\<lparr>notices := n\<rparr>) = waiting_ok q"
  "waiting_ok (q\<lparr>retry_tasks := r\<rparr>) = waiting_ok q" "waiting_ok (q\<lparr>calls := l\<rparr>) = waiting_ok q"
  "waiting_ok (q\<lparr>shutting_down := z\<rparr>) = waiting_ok q"
  "waiting_ok (q\<lparr>process_fn_set := z\<rparr>) = waiting_ok q"
  by (simp_all add: waiting_ok_def)

lemma waiting_pop: "waiting_ok q \<Longrightarrow> waiting_groups q = j # ws \<Longrightarrow>
    waiting_ok (q\<lparr>waiting_groups := ws, waiting_set := waiting_set q - {j}\<rparr>)"
  by (auto simp: waiting_ok_def)

lemma waiting_add: "waiting_ok q \<Longrightarrow> j \<notin> waiting_set q \<Longrightarrow>
    length (waiting_groups q) < MAX_WAITING_GROUPS \<Longrightarrow> waiting_ok (add_waiting j q)"
  by (auto simp: waiting_ok_def add_waiting_def)

text \<open>Changing a group so that it stays well formed, and any field outside the groups.\<close>

lemma queues_upd: "queues_ok q \<Longrightarrow> (\<And>s. group_ok s \<Longrightarrow> group_ok (f s)) \<Longrightarrow> queues_ok (upd j f q)"
  by (simp add: queues_ok_def)

lemma queues_frame [simp]:
  "queues_ok (q\<lparr>active_count := c\<rparr>) = queues_ok q" "queues_ok (q\<lparr>jobs := b\<rparr>) = queues_ok q"
  "queues_ok (q\<lparr>notices := n\<rparr>) = queues_ok q" "queues_ok (q\<lparr>retry_tasks := r\<rparr>) = queues_ok q"
  "queues_ok (q\<lparr>calls := l\<rparr>) = queues_ok q" "queues_ok (q\<lparr>shutting_down := z\<rparr>) = queues_ok q"
  "queues_ok (q\<lparr>process_fn_set := z\<rparr>) = queues_ok q"
  by (simp_all add: queues_ok_def)

lemma queues_get [simp]: "queues_ok q \<Longrightarrow> queues_ok (get_group j q)"
  by (simp add: get_group_def queues_upd)

lemma queues_start [simp]:
  "queues_ok q \<Longrightarrow> queues_ok (mark_pending now j q)"
  "queues_ok q \<Longrightarrow> queues_ok (start_messages now r j q)"
  "queues_ok q \<Longrightarrow> queues_ok (start_task j t q)"
  by (auto simp: gq_ops group_ok_def intro!: queues_upd)

lemma queues_push: "queues_ok q \<Longrightarrow> qt_id t \<notin> pending_task_ids (grp q j) \<Longrightarrow>
    length (pending_tasks (grp q j)) < MAX_PENDING_TASKS_PER_GROUP \<Longrightarrow> queues_ok (push_task j t q)"
  by (auto simp: queues_ok_def push_task_def group_ok_def)

lemma queues_pop: "queues_ok q \<Longrightarrow> pending_tasks (grp q j) = t # ts \<Longrightarrow> queues_ok (pop_task j t q)"
  unfolding pop_task_def
  by (rule queues_start(3), frule queues_grp[of q j]) (auto simp: queues_ok_def group_ok_def)

lemma queues_retry [simp]: "queues_ok q \<Longrightarrow> queues_ok (schedule_retry j q)"
  by (auto simp: schedule_retry_def Let_def queues_ok_def group_ok_def)

lemma queues_waiting: "queues_ok q \<Longrightarrow> waiting_ok (q\<lparr>waiting_groups := w, waiting_set := ws\<rparr>) \<Longrightarrow>
    queues_ok (q\<lparr>waiting_groups := w, waiting_set := ws\<rparr>)"
  by (simp add: queues_ok_def)

lemma queues_add: "queues_ok q \<Longrightarrow> j \<notin> waiting_set q \<Longrightarrow>
    length (waiting_groups q) < MAX_WAITING_GROUPS \<Longrightarrow> queues_ok (add_waiting j q)"
  using waiting_add[of q j] by (auto simp: queues_ok_def add_waiting_def)

lemma get_group_fields [simp]:
  "waiting_groups (get_group j q) = waiting_groups q" "waiting_set (get_group j q) = waiting_set q"
  "grp (get_group j q) k = grp q k" "jobs (get_group j q) = jobs q"
  "active_count (get_group j q) = active_count q" "shutting_down (get_group j q) = shutting_down q"
  by (simp_all add: get_group_def)

lemma queues_drain_one: "queues_ok q \<Longrightarrow> queues_ok (drain_one now j q)"
  by (auto simp: drain_one_def Let_def group_ok_def split: list.split
      intro!: queues_pop queues_start queues_upd)

lemma drain_one_waiting [simp]: "waiting_groups (drain_one now j q) = waiting_groups q"
  by (simp add: drain_one_def gq_ops split: list.split)

lemma queues_drain_loop:
  "queues_ok q \<Longrightarrow> waiting_groups q = ws \<Longrightarrow> queues_ok (drain_loop maxc now ws q)"
proof (induction ws arbitrary: q)
  case (Cons j ws)
  have "waiting_ok q" using Cons.prems(1) by (simp add: queues_ok_def)
  then have "queues_ok (q\<lparr>waiting_groups := ws, waiting_set := waiting_set q - {j}\<rparr>)"
    by (intro queues_waiting waiting_pop) (use Cons.prems in auto)
  then show ?case using Cons.IH Cons.prems queues_drain_one by simp
qed simp

lemma queues_drain_group: "queues_ok q \<Longrightarrow> queues_ok (drain_group maxc now j q)"
  by (auto simp: drain_group_def Let_def drain_waiting_def queues_drain_loop
      split: list.split intro!: queues_pop)

lemma queues_end:
  "queues_ok q \<Longrightarrow> queues_ok (end_messages maxc now j q)"
  "queues_ok q \<Longrightarrow> queues_ok (end_task maxc now j q)"
  unfolding end_messages_def end_task_def
  by (rule queues_drain_group, simp, rule queues_upd, simp_all add: group_ok_def)+

lemma queues_enqueue_message:
  "queues_ok q \<Longrightarrow> queues_ok (enqueue_message_check maxc now r j q)"
proof -
  assume q: "queues_ok q"
  have "waiting_set (mark_pending now j (get_group j q)) = waiting_set q"
    "waiting_groups (mark_pending now j (get_group j q)) = waiting_groups q"
    by (simp_all add: mark_pending_def)
  with q show ?thesis by (simp add: enqueue_message_check_def Let_def queues_add)
qed

lemma queues_enqueue_task: "queues_ok q \<Longrightarrow> queues_ok (enqueue_task maxc j t q)"
proof -
  assume q: "queues_ok q"
  let ?t = "\<lparr>qt_id = t, qt_jid = j\<rparr>"
  have w: "waiting_set (push_task j ?t (get_group j q)) = waiting_set q"
    "waiting_groups (push_task j ?t (get_group j q)) = waiting_groups q"
    by (simp_all add: push_task_def)
  have p: "queues_ok (push_task j ?t (get_group j q))"
    if "t \<notin> pending_task_ids (grp q j)" "\<not> MAX_PENDING_TASKS_PER_GROUP \<le> length (pending_tasks (grp q j))"
    using that q by (intro queues_push) auto
  have "queues_ok (upd j (\<lambda>s. s\<lparr>retry_ready := False\<rparr>) (get_group j q))"
    using q by (intro queues_upd) (auto simp: group_ok_def)
  with q w p show ?thesis by (simp add: enqueue_task_def Let_def queues_add)
qed

lemma queues_begin: "queues_ok q \<Longrightarrow> queues_ok (begin_job maxc now i q)"
  unfolding begin_job_def Let_def
  by (auto split: job.split intro!: queues_end queues_upd simp: group_ok_def)

lemma queues_finish: "queues_ok q \<Longrightarrow> queues_ok (finish_job maxc now out i q)"
  unfolding finish_job_def Let_def
  by (auto split: job.split outcome.split intro!: queues_end queues_upd queues_retry simp: group_ok_def)

lemma queues_fire: "queues_ok q \<Longrightarrow> queues_ok (fire_retry maxc now i q)"
  unfolding fire_retry_def Let_def
  by (auto intro!: queues_enqueue_message queues_upd simp: group_ok_def)

lemma queues_step: "gq_step maxc q q' \<Longrightarrow> queues_ok q \<Longrightarrow> queues_ok q'"
  by (induction rule: gq_step.induct)
     (simp_all add: queues_enqueue_message queues_enqueue_task queues_begin queues_finish queues_fire
        shutdown_def shutdown_sync_def set_process_messages_fn_def)

lemma queues_reach: "gq_reach maxc q \<Longrightarrow> queues_ok q"
proof (induction rule: gq_reach.induct)
  case start
  have "waiting_ok new_gq" by (simp add: waiting_ok_def new_gq_def)
  then show ?case by (intro queues_okI) simp_all
next
  case (step q q')
  then show ?case by (blast intro: queues_step)
qed

section \<open>One container per group\<close>

definition jobs_of :: "string \<Rightarrow> gq \<Rightarrow> nat" where
  "jobs_of j q = length (filter (\<lambda>b. job_jid b = j) (jobs q))"

definition exclusive :: "gq \<Rightarrow> bool" where
  "exclusive q = (\<forall>j. jobs_of j q = (if active (grp q j) then 1 else 0))"

definition waiting_idle :: "gq \<Rightarrow> bool" where
  "waiting_idle q = (\<forall>j \<in> set (waiting_groups q). \<not> active (grp q j))"

lemma jobs_of_frame [simp]:
  "jobs_of j (upd k f q) = jobs_of j q" "jobs_of j (q\<lparr>active_count := c\<rparr>) = jobs_of j q"
  "jobs_of j (q\<lparr>waiting_groups := w\<rparr>) = jobs_of j q" "jobs_of j (q\<lparr>waiting_set := ws\<rparr>) = jobs_of j q"
  "jobs_of j (q\<lparr>notices := n\<rparr>) = jobs_of j q" "jobs_of j (q\<lparr>retry_tasks := r\<rparr>) = jobs_of j q"
  "jobs_of j (q\<lparr>calls := l\<rparr>) = jobs_of j q" "jobs_of j (q\<lparr>shutting_down := z\<rparr>) = jobs_of j q"
  "jobs_of j (q\<lparr>process_fn_set := z\<rparr>) = jobs_of j q" "jobs_of j (get_group k q) = jobs_of j q"
  by (simp_all add: jobs_of_def)

lemma jobs_of_add: "jobs_of j (q\<lparr>jobs := jobs q @ [b]\<rparr>) = jobs_of j q + (if job_jid b = j then 1 else 0)"
  by (simp add: jobs_of_def)

lemma jobs_of_update: "i < length (jobs q) \<Longrightarrow> job_jid b = job_jid (jobs q ! i) \<Longrightarrow>
    jobs_of j (q\<lparr>jobs := (jobs q)[i := b]\<rparr>) = jobs_of j q"
proof -
  assume i: "i < length (jobs q)" and b: "job_jid b = job_jid (jobs q ! i)"
  have "map job_jid ((jobs q)[i := b]) = map job_jid (jobs q)"
    using i b by (metis list_update_id map_update)
  then have "length (filter (\<lambda>x. x = j) (map job_jid ((jobs q)[i := b])))
      = length (filter (\<lambda>x. x = j) (map job_jid (jobs q)))" by simp
  then show ?thesis by (simp add: jobs_of_def filter_map comp_def)
qed

lemma excl_start_messages:
  "exclusive q \<Longrightarrow> \<not> active (grp q j) \<Longrightarrow> exclusive (start_messages now r j q)"
  by (auto simp: exclusive_def start_messages_def Let_def jobs_of_def)

lemma excl_start_task: "exclusive q \<Longrightarrow> \<not> active (grp q j) \<Longrightarrow> exclusive (start_task j t q)"
  by (auto simp: exclusive_def start_task_def jobs_of_def)

lemma excl_upd: "exclusive q \<Longrightarrow> (\<And>s. active (f s) = active s) \<Longrightarrow> exclusive (upd j f q)"
  by (auto simp: exclusive_def)

lemma excl_frame [simp]:
  "exclusive (q\<lparr>active_count := c\<rparr>) = exclusive q" "exclusive (q\<lparr>waiting_groups := w\<rparr>) = exclusive q"
  "exclusive (q\<lparr>waiting_set := ws\<rparr>) = exclusive q" "exclusive (q\<lparr>notices := n\<rparr>) = exclusive q"
  "exclusive (q\<lparr>retry_tasks := r\<rparr>) = exclusive q" "exclusive (q\<lparr>calls := l\<rparr>) = exclusive q"
  "exclusive (q\<lparr>shutting_down := z\<rparr>) = exclusive q" "exclusive (q\<lparr>process_fn_set := z\<rparr>) = exclusive q"
  "exclusive (get_group k q) = exclusive q"
  by (simp_all add: exclusive_def)


lemma excl_drain_one: "exclusive q \<Longrightarrow> \<not> active (grp q j) \<Longrightarrow> exclusive (drain_one now j q)"
  by (auto simp: drain_one_def pop_task_def Let_def split: list.split
      intro!: excl_start_task excl_start_messages excl_upd)

lemma drain_one_other: "k \<noteq> j \<Longrightarrow> grp (drain_one now j q) k = grp q k"
  by (simp add: drain_one_def gq_ops split: list.split)

lemma excl_drain_loop:
  "exclusive q \<Longrightarrow> distinct ws \<Longrightarrow> \<forall>j \<in> set ws. \<not> active (grp q j) \<Longrightarrow>
   exclusive (drain_loop maxc now ws q)"
proof (induction ws arbitrary: q)
  case (Cons j ws)
  let ?q = "drain_one now j (q\<lparr>waiting_groups := ws, waiting_set := waiting_set q - {j}\<rparr>)"
  have "exclusive ?q" by (rule excl_drain_one) (use Cons.prems in auto)
  moreover have "\<forall>k \<in> set ws. \<not> active (grp ?q k)"
  proof
    fix k assume k: "k \<in> set ws"
    then have "k \<noteq> j" using Cons.prems(2) by auto
    with k Cons.prems(3) show "\<not> active (grp ?q k)" by (simp add: drain_one_other)
  qed
  ultimately show ?case using Cons by simp
qed simp

lemma excl_drain_group:
  assumes "exclusive q" "\<not> active (grp q j)" "waiting_idle q" "waiting_ok q"
  shows "exclusive (drain_group maxc now j q)"
proof -
  have "exclusive (drain_waiting maxc now (get_group j q))"
    unfolding drain_waiting_def
    by (rule excl_drain_loop) (use assms in \<open>auto simp: waiting_idle_def waiting_ok_def\<close>)
  then show ?thesis using assms
    by (auto simp: drain_group_def pop_task_def Let_def split: list.split
        intro!: excl_start_task excl_start_messages excl_upd)
qed

text \<open>Taking a runner off the list and clearing its group's flag, then draining.\<close>

lemma excl_end:
  assumes "exclusive q" "i < length (jobs q)" "job_jid (jobs q ! i) = j" "waiting_idle q" "waiting_ok q"
    and q': "jobs q' = remove_nth i (jobs q)" "waiting_groups q' = waiting_groups q"
      "waiting_set q' = waiting_set q" "\<And>k. active (grp q' k) = active (grp q k)"
  shows "exclusive (end_messages maxc now j q')" "exclusive (end_task maxc now j q')"
proof -
  have n: "jobs_of k q' = jobs_of k q - (if job_jid (jobs q ! i) = k then 1 else 0)" for k
    using assms(2) q'(1) by (simp add: jobs_of_def mset_remove_nth)
  have "exclusive (upd j f q'\<lparr>active_count := c\<rparr>)" if "\<And>s. \<not> active (f s)" for f c
    using assms(1,3) n q'(4) that by (auto simp: exclusive_def)
  moreover have "waiting_idle (upd j f q'\<lparr>active_count := c\<rparr>)" if "\<And>s. \<not> active (f s)" for f c
    using assms(4) q' that by (auto simp: waiting_idle_def)
  moreover have "waiting_ok q'" using assms(5) q' by (simp add: waiting_ok_def)
  ultimately show "exclusive (end_messages maxc now j q')" "exclusive (end_task maxc now j q')"
    unfolding end_messages_def end_task_def by (auto intro!: excl_drain_group)
qed

lemma excl_begin:
  assumes "exclusive q" "waiting_idle q" "waiting_ok q" "i < length (jobs q)"
  shows "exclusive (begin_job maxc now i q)"
proof (cases "jobs q ! i")
  case (MsgJob j r t b)
  have "exclusive (end_messages maxc now j
     (upd j (\<lambda>s. s\<lparr>idle_waiting := False, is_task_container := False, pending_messages := False\<rparr>) q
        \<lparr>jobs := remove_nth i (jobs q)\<rparr>))"
    by (rule excl_end[OF assms(1,4) _ assms(2,3)]) (simp_all add: MsgJob)
  moreover have "jobs_of k (q\<lparr>jobs := (jobs q)[i := MsgJob j r t True]\<rparr>) = jobs_of k q" for k
    by (rule jobs_of_update) (simp_all add: MsgJob assms)
  ultimately show ?thesis using assms(1) MsgJob
    by (simp add: begin_job_def Let_def exclusive_def jobs_of_def)
next
  case (TaskJob j t b)
  have "jobs_of k (q\<lparr>jobs := (jobs q)[i := TaskJob j t True]\<rparr>) = jobs_of k q" for k
    by (rule jobs_of_update) (simp_all add: TaskJob assms)
  then show ?thesis using assms(1) TaskJob by (simp add: begin_job_def exclusive_def jobs_of_def)
qed

lemma excl_finish:
  assumes "exclusive q" "waiting_idle q" "waiting_ok q" "i < length (jobs q)"
  shows "exclusive (finish_job maxc now out i q)"
proof (cases "jobs q ! i")
  case (MsgJob j r t b)
  then show ?thesis
    by (auto simp: finish_job_def Let_def schedule_retry_def split: outcome.split if_splits
        intro!: excl_end(1)[OF assms(1,4) _ assms(2,3)])
next
  case (TaskJob j t b)
  then show ?thesis
    by (auto simp: finish_job_def Let_def intro!: excl_end(2)[OF assms(1,4) _ assms(2,3)])
qed

lemma excl_enqueue:
  "exclusive q \<Longrightarrow> exclusive (enqueue_message_check maxc now r j q)"
  "exclusive q \<Longrightarrow> exclusive (enqueue_task maxc j t q)"
  by (auto simp: enqueue_message_check_def enqueue_task_def Let_def mark_pending_def push_task_def
      add_waiting_def intro!: excl_start_messages excl_start_task excl_upd)

lemma exclusive_step:
  "gq_step maxc q q' \<Longrightarrow> exclusive q \<Longrightarrow> waiting_idle q \<Longrightarrow> waiting_ok q \<Longrightarrow> exclusive q'"
proof (induction rule: gq_step.induct)
  case (retry i q now)
  then show ?case by (auto simp: fire_retry_def Let_def intro!: excl_enqueue excl_upd)
qed (simp_all add: excl_enqueue excl_begin excl_finish shutdown_def shutdown_sync_def
       set_process_messages_fn_def)


section \<open>Runs as lists of events\<close>

datatype event =
    Message int string | Task string string | Begin int nat | Finish int outcome nat
  | Fire int nat | StopSync | Stop | Register

fun gq_exec :: "int \<Rightarrow> event \<Rightarrow> gq \<Rightarrow> gq option" where
  "gq_exec maxc (Message now j) q = Some (enqueue_message_check maxc now False j q)"
| "gq_exec maxc (Task j t) q = Some (enqueue_task maxc j t q)"
| "gq_exec maxc (Begin now i) q =
     (if i < length (jobs q) \<and> \<not> job_running (jobs q ! i) then Some (begin_job maxc now i q) else None)"
| "gq_exec maxc (Finish now out i) q =
     (if i < length (jobs q) \<and> job_running (jobs q ! i) then Some (finish_job maxc now out i q) else None)"
| "gq_exec maxc (Fire now i) q =
     (if i < length (retry_tasks q) then Some (fire_retry maxc now i q) else None)"
| "gq_exec maxc StopSync q = Some (shutdown_sync q)"
| "gq_exec maxc Stop q = Some (shutdown q)"
| "gq_exec maxc Register q = Some (set_process_messages_fn q)"

fun gq_run :: "int \<Rightarrow> event list \<Rightarrow> gq \<Rightarrow> gq option" where
  "gq_run maxc [] q = Some q"
| "gq_run maxc (e # es) q = (case gq_exec maxc e q of None \<Rightarrow> None | Some q' \<Rightarrow> gq_run maxc es q')"

lemma gq_exec_step: "gq_exec maxc e q = Some q' \<Longrightarrow> gq_step maxc q q'"
  by (cases e) (auto intro: gq_step.intros split: if_splits)

lemma gq_run_reach: "gq_run maxc es q = Some q' \<Longrightarrow> gq_reach maxc q \<Longrightarrow> gq_reach maxc q'"
proof (induction es arbitrary: q)
  case (Cons e es)
  then show ?case by (auto split: option.splits dest!: gq_exec_step intro: gq_reach.step)
qed simp

definition demo_events :: "event list" where
  "demo_events = [Register, Message 1 ''B'', Message 1 ''C'', Begin 1 0, Begin 1 1,
     Task ''A'' ''t'', Message 2 ''B'', Finish 3 Failed 0]"

definition clash_events :: "event list" where
  "clash_events = demo_events @ [Message 4 ''A'', Finish 5 Succeeded 0]"

lemma gq_run_reach_new: "gq_run maxc es new_gq = Some q \<Longrightarrow> gq_reach maxc q"
  by (rule gq_run_reach) (auto intro: gq_reach.start)

lemma demo_run: "map_option (\<lambda>q. (active_count q, waiting_groups q, retry_tasks q, shutting_down q,
      pending_tasks (grp q ''A''))) (gq_run 2 demo_events new_gq)
    = Some (1, [''A''], [(''B'', 5)], False, [\<lparr>qt_id = ''t'', qt_jid = ''A''\<rparr>])"
  by code_simp

lemma clash_run: "map_option jobs (gq_run 2 clash_events new_gq)
    = Some [MsgJob ''A'' ''messages'' 4 False, TaskJob ''A'' \<lparr>qt_id = ''t'', qt_jid = ''A''\<rparr> False]"
  by code_simp

lemma demo_reachable: obtains q where "gq_reach 2 q" "active_count q = 1" "waiting_groups q = [''A'']"
  "retry_tasks q = [(''B'', 5)]" "\<not> shutting_down q"
  "pending_tasks (grp q ''A'') = [\<lparr>qt_id = ''t'', qt_jid = ''A''\<rparr>]"
  using demo_run by (auto dest: gq_run_reach_new)

section \<open>Accepting tasks\<close>

text \<open>
  What a task intake promises the scheduler that polls it: a task it holds is not taken twice, and
  taking another never loses it.
\<close>

locale task_intake =
  fixes submit :: "'g \<Rightarrow> 't \<Rightarrow> 'q \<Rightarrow> 'q"
    and holds :: "'q \<Rightarrow> 'g \<Rightarrow> 't \<Rightarrow> bool"
  assumes submit_held: "holds q g t \<Longrightarrow> submit g t q = q"
    and submit_keeps: "holds q g t \<Longrightarrow> holds (submit g' t' q) g t"
begin

abbreviation poll :: "('g \<times> 't) list \<Rightarrow> 'q \<Rightarrow> 'q" where
  "poll due q \<equiv> fold (\<lambda>(g, t). submit g t) due q"

lemma poll_keeps: "holds q g t \<Longrightarrow> holds (poll due q) g t"
  by (induction due arbitrary: q) (auto simp: submit_keeps)

lemma poll_held: "\<forall>(g, t) \<in> set due. holds q g t \<Longrightarrow> poll due q = q"
  by (induction due arbitrary: q) (auto simp: submit_held)

text \<open>A second poll with tasks the first one accepted changes nothing.\<close>

lemma poll_again: "\<forall>(g, t) \<in> set due. holds (poll due q) g t \<Longrightarrow> poll due (poll due q) = poll due q"
  by (rule poll_held)

end

definition holds_task :: "gq \<Rightarrow> string \<Rightarrow> string \<Rightarrow> bool" where
  "holds_task q j t = (t \<in> pending_task_ids (grp q j)
     \<or> active (grp q j) \<and> running_task_id (grp q j) = Some t)"

lemma dset_same: "dget d k = Some v \<Longrightarrow> dset k v d = d"
  by (induction d) (auto simp: dget_def split: if_splits)

lemma get_group_known: "grp q j \<noteq> new_group_state \<Longrightarrow> get_group j q = q"
  by (auto simp: get_group_def upd_def grp_def dset_same split: option.splits)

lemma holds_known: "holds_task q j t \<Longrightarrow> get_group j q = q"
  by (rule get_group_known) (auto simp: holds_task_def new_group_state_def)

lemma enqueue_held: "holds_task q j t \<Longrightarrow> enqueue_task maxc j t q = q"
  using holds_known[of q j t] by (auto simp: enqueue_task_def holds_task_def Let_def)

lemma enqueue_keeps: "holds_task q j t \<Longrightarrow> holds_task (enqueue_task maxc k u q) j t"
  by (auto simp: enqueue_task_def holds_task_def push_task_def start_task_def add_waiting_def Let_def)

interpretation intake: task_intake "enqueue_task maxc" holds_task for maxc
  by unfold_locales (simp_all add: enqueue_held enqueue_keeps)

text \<open>
  The only way a task handed to \<open>enqueue_task\<close> is not held afterwards is one of the three
  documented drops.
\<close>

lemma enqueue_accepts:
  assumes "\<not> shutting_down q" "length (pending_tasks (grp q j)) < MAX_PENDING_TASKS_PER_GROUP"
    "length (waiting_groups q) < MAX_WAITING_GROUPS" "running_task_id (grp q j) = Some t \<Longrightarrow> active (grp q j)"
  shows "holds_task (enqueue_task maxc j t q) j t"
  using assms
  by (auto simp: enqueue_task_def holds_task_def push_task_def start_task_def add_waiting_def Let_def)

section \<open>Draining, shutdown, back-off\<close>

lemma drain_loop_fifo:
  assumes "waiting_groups q = ws"
  shows "\<exists>n. waiting_groups (drain_loop maxc now ws q) = drop n ws
      \<and> (waiting_groups (drain_loop maxc now ws q) = [] \<or> active_count (drain_loop maxc now ws q) \<ge> maxc)"
  using assms
proof (induction ws arbitrary: q)
  case (Cons j ws)
  let ?q = "drain_one now j (q\<lparr>waiting_groups := ws, waiting_set := waiting_set q - {j}\<rparr>)"
  have "waiting_groups ?q = ws" by simp
  from Cons.IH[OF this] obtain n where
    "waiting_groups (drain_loop maxc now ws ?q) = drop (Suc n) (j # ws)"
    "waiting_groups (drain_loop maxc now ws ?q) = [] \<or> active_count (drain_loop maxc now ws ?q) \<ge> maxc"
    by auto
  then show ?case using Cons.prems
    by (cases "active_count q < maxc") (auto intro: exI[of _ "Suc n"] exI[of _ 0])
qed simp

lemma drain_group_stopped: "shutting_down q \<Longrightarrow> drain_group maxc now j q = q"
  by (simp add: drain_group_def)

lemma stopped_step:
  "gq_step maxc q q' \<Longrightarrow> shutting_down q \<Longrightarrow> shutting_down q' \<and> length (jobs q') \<le> length (jobs q)"
proof (induction rule: gq_step.induct)
  case (begin_job i q now)
  then show ?case
    by (auto simp: begin_job_def Let_def end_messages_def drain_group_stopped split: job.split)
next
  case (finish_job i q now out)
  then show ?case
    by (auto simp: finish_job_def Let_def end_messages_def end_task_def drain_group_stopped
        schedule_retry_def split: job.split outcome.split)
qed (auto simp: enqueue_message_check_def enqueue_task_def fire_retry_def Let_def shutdown_def
       shutdown_sync_def set_process_messages_fn_def)

lemma retries_run:
  assumes "retry_count (grp q j) = 0"
  shows "n \<le> MAX_RETRIES \<Longrightarrow> retry_count (grp ((schedule_retry j ^^ n) q) j) = n
      \<and> retry_tasks ((schedule_retry j ^^ n) q) = retry_tasks q @ map (\<lambda>k. (j, BASE_RETRY_SECS * 2 ^ k)) [0..<n]
      \<and> notices ((schedule_retry j ^^ n) q) = notices q"
proof (induction n)
  case 0
  show ?case using assms by simp
next
  case (Suc n)
  then show ?case by (simp add: schedule_retry_def Let_def)
qed

section \<open>Properties\<close>

text \<open>
  C1: In every reachable state the counter \<open>_active_count\<close> is the number of runners that exist,
  and it never exceeds \<open>MAX_CONCURRENT_CONTAINERS\<close>, whatever the order of messages, tasks,
  completions, failures, retries and shutdowns.
\<close>

theorem gq_concurrency_limit:
  "gq_reach maxc q \<Longrightarrow> active_count q = int (length (jobs q)) \<and> active_count q \<le> max 0 maxc"
  using slots_reach[of maxc q] by (simp add: slots_ok_def)

theorem gq_concurrency_limit_witness:
  "\<exists>q. gq_reach 2 q \<and> active_count q = 1 \<and> length (jobs q) = 1"
proof -
  obtain q where "gq_reach 2 q" "active_count q = 1" by (rule demo_reachable)
  then show ?thesis using gq_concurrency_limit[of 2 q] by auto
qed

text \<open>
  C2: The memory the queue holds is bounded and its lookup sets agree with its lists: at most
  50 distinct pending tasks per group with \<open>pending_task_ids\<close> exactly their ids, at most 100
  distinct waiting groups with \<open>_waiting_set\<close> exactly them, and never more than 5 counted
  failures.
\<close>

theorem gq_queue_bounds:
  assumes "gq_reach maxc q"
  shows "length (pending_tasks (grp q j)) \<le> 50
    \<and> pending_task_ids (grp q j) = qt_id ` set (pending_tasks (grp q j))
    \<and> distinct (map qt_id (pending_tasks (grp q j))) \<and> retry_count (grp q j) \<le> 5
    \<and> length (waiting_groups q) \<le> 100 \<and> distinct (waiting_groups q)
    \<and> waiting_set q = set (waiting_groups q)"
proof -
  have "queues_ok q" using assms by (rule queues_reach)
  then show ?thesis by (auto simp: queues_ok_def group_ok_def waiting_ok_def gq_consts)
qed

theorem gq_queue_bounds_witness:
  "\<exists>q. gq_reach 2 q \<and> waiting_groups q = [''A''] \<and> waiting_set q = {''A''}
     \<and> pending_task_ids (grp q ''A'') = {''t''}"
proof -
  obtain q where q: "gq_reach 2 q" "waiting_groups q = [''A'']"
    "pending_tasks (grp q ''A'') = [\<lparr>qt_id = ''t'', qt_jid = ''A''\<rparr>]" by (rule demo_reachable)
  then show ?thesis using gq_queue_bounds[OF q(1), of "''A''"] by auto
qed

text \<open>
  Provided no group in the waiting list is itself running, every step keeps at most one runner
  per group, and a group's \<open>active\<close> flag says exactly whether it has one.
\<close>

theorem gq_one_container_per_group:
  assumes "gq_reach maxc q" "gq_step maxc q q'"
    and "\<forall>j. jobs_of j q = (if active (grp q j) then 1 else 0)"
    and "\<forall>j \<in> set (waiting_groups q). \<not> active (grp q j)"
  shows "jobs_of j q' = (if active (grp q' j) then 1 else 0) \<and> jobs_of j q' \<le> 1"
proof -
  have "waiting_ok q" using queues_reach[OF assms(1)] by (simp add: queues_ok_def)
  then have "exclusive q'" using exclusive_step assms by (simp add: exclusive_def waiting_idle_def)
  then show ?thesis by (simp add: exclusive_def)
qed

theorem gq_one_container_per_group_witness:
  "jobs_of ''B'' (enqueue_message_check 2 1 False ''B'' new_gq) = 1
   \<and> active (grp (enqueue_message_check 2 1 False ''B'' new_gq) ''B'')"
proof -
  let ?q = "enqueue_message_check 2 1 False ''B'' new_gq"
  have "jobs_of ''B'' ?q = (if active (grp ?q ''B'') then 1 else 0) \<and> jobs_of ''B'' ?q \<le> 1"
    by (rule gq_one_container_per_group[where q = new_gq and maxc = 2])
       (auto intro: gq_reach.start gq_step.message simp: jobs_of_def new_group_state_def, simp_all add: new_gq_def)
  moreover have "active (grp ?q ''B'')" by code_simp
  ultimately show ?thesis by simp
qed

text \<open>
  The two guarantees the class documents can nevertheless fail together.  When a group fails
  with a message pending, \<open>_drain_group\<close> returns without calling \<open>_drain_waiting\<close>: a slot stays
  free while another group waits with a task.  If that group then gets a message it starts
  through \<open>enqueue_message_check\<close> while still listed as waiting, and the next \<open>_drain_waiting\<close>
  starts its task as a second container of the same group.
\<close>

theorem gq_double_dispatch:
  "(\<exists>q. gq_reach 2 q \<and> active_count q < 2 \<and> waiting_groups q = [''A'']
      \<and> pending_tasks (grp q ''A'') \<noteq> [] \<and> \<not> shutting_down q)
   \<and> (\<exists>q. gq_reach 2 q \<and> jobs_of ''A'' q = 2)"
proof -
  obtain q where q: "gq_reach 2 q" "active_count q = 1" "waiting_groups q = [''A'']"
    "\<not> shutting_down q" "pending_tasks (grp q ''A'') = [\<lparr>qt_id = ''t'', qt_jid = ''A''\<rparr>]"
    by (rule demo_reachable)
  obtain r where "gq_reach 2 r" "jobs r = [MsgJob ''A'' ''messages'' 4 False,
      TaskJob ''A'' \<lparr>qt_id = ''t'', qt_jid = ''A''\<rparr> False]"
    using clash_run by (auto dest: gq_run_reach_new)
  then have "jobs_of ''A'' r = 2" by (simp add: jobs_of_def)
  with q \<open>gq_reach 2 r\<close> show ?thesis by auto
qed


text \<open>
  Consecutive failures of a group back off by 5, 10, 20, 40 and 80 seconds, one timer each;
  the sixth sets the count back to zero, arms no timer and tells the user.
\<close>

theorem gq_backoff_schedule:
  assumes "retry_count (grp q j) = 0"
  shows "(n \<le> 5 \<longrightarrow> retry_tasks ((schedule_retry j ^^ n) q) =
           retry_tasks q @ map (\<lambda>k. (j, 5 * 2 ^ k)) [0..<n])
    \<and> retry_tasks ((schedule_retry j ^^ 6) q) = retry_tasks q @ [(j, 5), (j, 10), (j, 20), (j, 40), (j, 80)]
    \<and> retry_count (grp ((schedule_retry j ^^ 6) q) j) = 0
    \<and> notices ((schedule_retry j ^^ 6) q) = notices q @ [(j, ''retries exceeded'')]"
proof -
  have "(schedule_retry j ^^ 6) q = schedule_retry j ((schedule_retry j ^^ 5) q)"
    by (simp add: eval_nat_numeral)
  then show ?thesis using retries_run[OF assms, of 5] retries_run[OF assms, of n]
    by (simp add: gq_consts schedule_retry_def Let_def upt_rec)
qed

theorem gq_backoff_schedule_witness:
  "retry_tasks ((schedule_retry ''g'' ^^ 2) new_gq) = [(''g'', 5), (''g'', 10)]"
  using gq_backoff_schedule[of new_gq "''g''" 2]
  by (simp add: new_group_state_def upt_rec, simp add: new_gq_def)

text \<open>
  \<open>_drain_waiting\<close> is first come, first served and leaves no slot unused: it takes a prefix
  off the waiting list, and stops only when the list is empty or the limit is reached.
\<close>

theorem gq_drain_waiting_fifo:
  "\<exists>n. waiting_groups (drain_waiting maxc now q) = drop n (waiting_groups q)
     \<and> (waiting_groups (drain_waiting maxc now q) = [] \<or> active_count (drain_waiting maxc now q) \<ge> maxc)"
  using drain_loop_fifo[of q "waiting_groups q"] by (simp add: drain_waiting_def)

text \<open>
  After a shutdown no runner is ever created again: every later step keeps the flag and never
  increases the number of runners.
\<close>

theorem gq_shutdown_final:
  assumes "gq_step maxc q q'" "shutting_down q"
  shows "shutting_down q' \<and> length (jobs q') \<le> length (jobs q)"
  using assms by (rule stopped_step)

theorem gq_shutdown_final_witness:
  "length (jobs (enqueue_task 2 ''A'' ''t'' (shutdown new_gq))) = 0"
proof -
  have "gq_step 2 (shutdown new_gq) (enqueue_task 2 ''A'' ''t'' (shutdown new_gq))"
    by (rule gq_step.task)
  from gq_shutdown_final[OF this] show ?thesis by (simp add: shutdown_def new_gq_def)
qed

end
