(* ===== verification/TaskScheduler.thy ===== *)
theory TaskScheduler
  imports GroupQueue
begin

text \<open>
  \<open>host/task_scheduler.py\<close> with the task tables of \<open>host/db.py\<close>: the next-run computation, one
  run of a task (split at its only \<open>await\<close>), the failure counter, crash recovery and the poll.

  Times are Unix milliseconds.  Two things are arguments.  \<open>cron expr now\<close> is the third-party
  \<open>croniter\<close> with the configured time zone: the next matching time, or \<open>None\<close> where it raises.
  \<open>fsum base ms\<close> is the value of the floating-point expression \<open>int((base/1000 + ms/1000)*1000)\<close>,
  \<open>None\<close> where it overflows: its rounding is left open, and no property below depends on it.  The
  clock is read once per segment between two suspensions.  Database calls succeed, except the one
  that marks a task as running, whose failure the code handles.
\<close>

section \<open>The task tables\<close>

record due_task =
  t_id :: string
  t_folder :: string
  t_jid :: string
  t_prompt :: string
  t_stype :: string
  t_svalue :: string
  t_next :: "int option"
  t_context :: string

record task = due_task +
  t_last_run :: "int option"
  t_last_result :: "string option"
  t_status :: string
  t_created :: int

record run_log =
  l_task :: string
  l_at :: int
  l_duration :: int
  l_status :: string
  l_result :: "string option"
  l_error :: "string option"

record sched_db =
  tasks :: "task list"
  logs :: "run_log list"

text \<open>\<open>INSERT INTO scheduled_tasks\<close>: a duplicate primary key raises (\<open>None\<close>).\<close>

definition create_task ::
  "string \<Rightarrow> string \<Rightarrow> string \<Rightarrow> string \<Rightarrow> string \<Rightarrow> string \<Rightarrow> int option \<Rightarrow> string \<Rightarrow> int
     \<Rightarrow> sched_db \<Rightarrow> sched_db option" where
  "create_task i folder jid prompt stype svalue next ctx now db =
     (if i \<in> t_id ` set (tasks db) then None
      else Some (db\<lparr>tasks := tasks db @ [\<lparr>t_id = i, t_folder = folder, t_jid = jid,
         t_prompt = prompt, t_stype = stype, t_svalue = svalue, t_next = next, t_context = ctx,
         t_last_run = None, t_last_result = None, t_status = ''active'', t_created = now\<rparr>]\<rparr>))"

definition get_all_tasks :: "string option \<Rightarrow> sched_db \<Rightarrow> task list" where
  "get_all_tasks folder db =
     (if truthy folder then filter (\<lambda>t. Some (t_folder t) = folder) (tasks db) else tasks db)"

definition is_due :: "int \<Rightarrow> task \<Rightarrow> bool" where
  "is_due now t = (t_status t = ''active'' \<and>
     (case t_next t of None \<Rightarrow> False | Some n \<Rightarrow> n \<le> now))"

definition get_due_tasks :: "int \<Rightarrow> sched_db \<Rightarrow> due_task list" where
  "get_due_tasks now db = map due_task.truncate (filter (is_due now) (tasks db))"

text \<open>The keyword arguments of \<open>update_task\<close>, one constructor per column of the table.\<close>

datatype column_value =
    Prompt string | Schedule_type string | Schedule_value string | Next_run "int option"
  | Last_run int | Last_result "string option" | Status string | Context_mode string
  | Id string | Group_folder string | Chat_jid string | Created_at int

definition allowed :: "column_value \<Rightarrow> bool" where
  "allowed u = (case u of Id _ \<Rightarrow> False | Group_folder _ \<Rightarrow> False | Chat_jid _ \<Rightarrow> False
     | Created_at _ \<Rightarrow> False | _ \<Rightarrow> True)"

fun set_column :: "column_value \<Rightarrow> task \<Rightarrow> task" where
  "set_column (Prompt s) t = t\<lparr>t_prompt := s\<rparr>"
| "set_column (Schedule_type s) t = t\<lparr>t_stype := s\<rparr>"
| "set_column (Schedule_value s) t = t\<lparr>t_svalue := s\<rparr>"
| "set_column (Next_run n) t = t\<lparr>t_next := n\<rparr>"
| "set_column (Last_run n) t = t\<lparr>t_last_run := Some n\<rparr>"
| "set_column (Last_result s) t = t\<lparr>t_last_result := s\<rparr>"
| "set_column (Status s) t = t\<lparr>t_status := s\<rparr>"
| "set_column (Context_mode s) t = t\<lparr>t_context := s\<rparr>"
| "set_column (Id s) t = t\<lparr>t_id := s\<rparr>"
| "set_column (Group_folder s) t = t\<lparr>t_folder := s\<rparr>"
| "set_column (Chat_jid s) t = t\<lparr>t_jid := s\<rparr>"
| "set_column (Created_at n) t = t\<lparr>t_created := n\<rparr>"

definition update_task :: "string \<Rightarrow> column_value list \<Rightarrow> sched_db \<Rightarrow> sched_db" where
  "update_task i us db =
     (let fields = filter allowed us in
      if fields = [] then db
      else db\<lparr>tasks := map (\<lambda>t. if t_id t = i then fold set_column fields t else t) (tasks db)\<rparr>)"

definition delete_task :: "string \<Rightarrow> sched_db \<Rightarrow> sched_db" where
  "delete_task i db = db\<lparr>tasks := filter (\<lambda>t. t_id t \<noteq> i) (tasks db)\<rparr>"

definition log_task_run ::
  "string \<Rightarrow> int \<Rightarrow> int \<Rightarrow> string \<Rightarrow> string option \<Rightarrow> string option \<Rightarrow> sched_db \<Rightarrow> sched_db" where
  "log_task_run i at dur st res err db =
     db\<lparr>logs := logs db @ [\<lparr>l_task = i, l_at = at, l_duration = dur, l_status = st,
        l_result = res, l_error = err\<rparr>]\<rparr>"

section \<open>The next run\<close>

text \<open>\<open>while next_ts <= now_ms: next_ts += ms\<close>, reached only with \<open>ms > 0\<close>.\<close>

function advance :: "int \<Rightarrow> int \<Rightarrow> int \<Rightarrow> int" where
  "advance now ms t = (if 0 < ms \<and> t \<le> now then advance now ms (t + ms) else t)"
  by auto
termination by (relation "measure (\<lambda>(now, ms, t). nat (now + 1 - t))") auto

declare advance.simps [simp del]

definition compute_next_run ::
  "(string \<Rightarrow> int \<Rightarrow> int option) \<Rightarrow> (int \<Rightarrow> int \<Rightarrow> int option) \<Rightarrow> int \<Rightarrow> string \<Rightarrow> string
     \<Rightarrow> int option \<Rightarrow> int option" where
  "compute_next_run cron fsum now stype svalue last_run =
     (if stype = ''once'' then None
      else if stype = ''interval'' then
        (case py_int svalue of
           None \<Rightarrow> None
         | Some ms \<Rightarrow>
             if ms \<le> 0 then None
             else case fsum (case last_run of Some r \<Rightarrow> (if r = 0 then now else r) | None \<Rightarrow> now) ms of
                    None \<Rightarrow> None
                  | Some t \<Rightarrow> Some (advance now ms t))
      else if stype = ''cron'' then cron svalue now
      else None)"

section \<open>One run of a task\<close>

definition MAX_TASK_FAILURES :: nat where "MAX_TASK_FAILURES = 5"
definition TASK_TIMEOUT_SECS :: int where "TASK_TIMEOUT_SECS = 3600"

text \<open>
  What the agent call ends with.  A reply is the returned dictionary; each of its fields may be
  missing, \<open>None\<close> or a string.  \<open>Agent_cancelled\<close> is \<open>CancelledError\<close>, which no \<open>except\<close> clause
  catches but \<open>finally\<close> sees: \<open>main\<close> cancels what still runs at shutdown.
\<close>

datatype field = Absent | Null | Text string

record agent_reply =
  ar_status :: "string option"
  ar_result :: field
  ar_error :: field

datatype agent_outcome =
  Returned agent_reply | Timed_out | Agent_raised string | Agent_cancelled

fun field_get :: "field \<Rightarrow> string option" where
  "field_get (Text s) = Some s"
| "field_get _ = None"

record agent_call =
  ac_prompt :: string
  ac_session :: "string option"

datatype begun = Dropped | Calling agent_call

definition run_task_begin ::
  "(string \<Rightarrow> 'g option) \<Rightarrow> (string \<Rightarrow> string option) \<Rightarrow> bool \<Rightarrow> int \<Rightarrow> due_task \<Rightarrow> sched_db
     \<Rightarrow> sched_db \<times> begun" where
  "run_task_begin group_of session_of mark_ok now t db =
     (case group_of (t_jid t) of
        None \<Rightarrow> (update_task (t_id t) [Next_run (Some (now + 3600 * 1000))] db, Dropped)
      | Some g \<Rightarrow>
          if mark_ok
          then (update_task (t_id t) [Status ''running''] db,
                Calling \<lparr>ac_prompt = t_prompt t,
                  ac_session = (if t_context t = ''isolated'' then None else session_of (t_folder t))\<rparr>)
          else (db, Dropped))"

definition count_recent_failures :: "string \<Rightarrow> sched_db \<Rightarrow> nat" where
  "count_recent_failures i db =
     length (takeWhile (\<lambda>l. l_status l = ''error'' \<or> l_status l = ''timeout'')
       (take MAX_TASK_FAILURES
         (sort_key (\<lambda>l. - l_at l) (filter (\<lambda>l. l_task l = i) (logs db)))))"

text \<open>The base the interval is counted from: \<open>task.get("next_run") or start\<close>.\<close>

definition run_base :: "due_task \<Rightarrow> int \<Rightarrow> int" where
  "run_base t start =
     (if t_stype t = ''interval''
      then (case t_next t of Some n \<Rightarrow> if n = 0 then start else n | None \<Rightarrow> start) else start)"

text \<open>The text of the \<open>TypeError\<close> that \<open>None[:500]\<close> raises.\<close>

definition none_index_error :: string where
  "none_index_error = [CHR 0x27] @ ''NoneType'' @ [CHR 0x27] @ '' object is not subscriptable''"

text \<open>The \<open>try\<close> and \<open>except\<close> part after the await: the database, \<open>next_run_ts\<close> and \<open>failed\<close>.\<close>

definition run_task_raised ::
  "(string \<Rightarrow> int \<Rightarrow> int option) \<Rightarrow> (int \<Rightarrow> int \<Rightarrow> int option) \<Rightarrow> int \<Rightarrow> int \<Rightarrow> due_task \<Rightarrow> string
     \<Rightarrow> sched_db \<Rightarrow> sched_db \<times> int option \<times> bool" where
  "run_task_raised cron fsum start now t e db =
     (log_task_run (t_id t) start 0 ''error'' None (Some e) db,
      compute_next_run cron fsum now (t_stype t) (t_svalue t) (Some (run_base t start)), True)"

definition run_task_body ::
  "(string \<Rightarrow> int \<Rightarrow> int option) \<Rightarrow> (int \<Rightarrow> int \<Rightarrow> int option) \<Rightarrow> int \<Rightarrow> int \<Rightarrow> due_task \<Rightarrow> agent_outcome
     \<Rightarrow> sched_db \<Rightarrow> sched_db \<times> int option \<times> bool" where
  "run_task_body cron fsum start now t out db =
     (let next = compute_next_run cron fsum now (t_stype t) (t_svalue t) (Some (run_base t start)) in
      case out of
        Returned r \<Rightarrow>
          (let db1 = log_task_run (t_id t) start (now - start)
                 (case ar_status r of None \<Rightarrow> ''error'' | Some s \<Rightarrow> s)
                 (field_get (ar_result r)) (field_get (ar_error r)) db in
           case ar_result r of
             Null \<Rightarrow> run_task_raised cron fsum start now t
                       none_index_error db1
           | Absent \<Rightarrow> (update_task (t_id t) [Last_run start, Last_result (Some []), Next_run next] db1,
                        next, False)
           | Text s \<Rightarrow> (update_task (t_id t)
                          [Last_run start, Last_result (Some (take 500 s)), Next_run next] db1,
                        next, False))
      | Timed_out \<Rightarrow>
          (log_task_run (t_id t) start (now - start) ''timeout'' None
             (Some ''Task timed out after 3600s'') db, next, True)
      | Agent_raised e \<Rightarrow> run_task_raised cron fsum start now t e db
      | Agent_cancelled \<Rightarrow> (db, None, False))"

text \<open>The \<open>finally\<close> part.  (The dash of the first message is an em dash in the source.)\<close>

definition run_task_finally ::
  "due_task \<Rightarrow> sched_db \<times> int option \<times> bool \<Rightarrow> sched_db" where
  "run_task_finally t = (\<lambda>(db, next, failed).
     if next = None \<and> t_stype t \<noteq> ''once'' then
       update_task (t_id t) [Status ''paused'', Next_run None,
         Last_result (Some ''Invalid schedule expression - task paused. Repair the schedule to resume.'')] db
     else if failed then
       (let n = count_recent_failures (t_id t) db in
        if n \<ge> MAX_TASK_FAILURES then
          update_task (t_id t) [Status ''paused'', Next_run next,
            Last_result (Some (''Auto-paused after '' @ show_nat n @ '' consecutive failures.''))] db
        else update_task (t_id t) [Status ''active'', Next_run next] db)
     else update_task (t_id t) [Status ''active'', Next_run next] db)"

definition run_task_end ::
  "(string \<Rightarrow> int \<Rightarrow> int option) \<Rightarrow> (int \<Rightarrow> int \<Rightarrow> int option) \<Rightarrow> int \<Rightarrow> int \<Rightarrow> due_task \<Rightarrow> agent_outcome
     \<Rightarrow> sched_db \<Rightarrow> sched_db" where
  "run_task_end cron fsum start now t out db =
     run_task_finally t (run_task_body cron fsum start now t out db)"

section \<open>Recovery and the poll\<close>

text \<open>The recovery scan reads the stuck rows first and then updates them one by one.\<close>

definition recover_one ::
  "(string \<Rightarrow> int \<Rightarrow> int option) \<Rightarrow> (int \<Rightarrow> int \<Rightarrow> int option) \<Rightarrow> int \<Rightarrow> task \<Rightarrow> sched_db
     \<Rightarrow> sched_db" where
  "recover_one cron fsum now t db =
     (if t_stype t = ''once'' then
        update_task (t_id t) [Status ''failed'', Last_result (Some
          ''Interrupted by host restart - not retried to prevent duplicate execution'')] db
      else update_task (t_id t) [Status ''active'',
             Next_run (compute_next_run cron fsum now (t_stype t) (t_svalue t) (t_next t))] db)"

definition recover_stale_running_tasks ::
  "(string \<Rightarrow> int \<Rightarrow> int option) \<Rightarrow> (int \<Rightarrow> int \<Rightarrow> int option) \<Rightarrow> int \<Rightarrow> sched_db \<Rightarrow> sched_db \<times> nat" where
  "recover_stale_running_tasks cron fsum now db =
     (let rows = filter (\<lambda>t. t_status t = ''running'') (tasks db) in
      (fold (recover_one cron fsum now) rows db, length rows))"

text \<open>
  One iteration of the loop with a group queue: every due task with a chat is handed to
  \<open>enqueue_task\<close> under its chat.  (The fallback without a queue, which \<open>main\<close> never uses, is left out.)
\<close>

definition poll_queue :: "int \<Rightarrow> int \<Rightarrow> sched_db \<Rightarrow> gq \<Rightarrow> gq" where
  "poll_queue maxc now db q =
     fold (\<lambda>t q. if t_jid t = [] then q else enqueue_task maxc (t_jid t) (t_id t) q)
       (get_due_tasks now db) q"

section \<open>The computed time\<close>

lemma advance_spec:
  "0 < ms \<Longrightarrow> now < advance now ms t \<and> t \<le> advance now ms t \<and> ms dvd advance now ms t - t
     \<and> (advance now ms t = t \<or> advance now ms t - ms \<le> now)"
proof (induction now ms t rule: advance.induct)
  case (1 now ms t)
  show ?case
  proof (cases "t \<le> now")
    case True
    with 1 have "now < advance now ms (t + ms) \<and> t + ms \<le> advance now ms (t + ms)
        \<and> ms dvd advance now ms (t + ms) - (t + ms)
        \<and> (advance now ms (t + ms) = t + ms \<or> advance now ms (t + ms) - ms \<le> now)" by blast
    moreover have "advance now ms t = advance now ms (t + ms)"
      using True \<open>0 < ms\<close> by (subst advance.simps) simp
    moreover have "ms dvd x - t" if "ms dvd x - (t + ms)" for x
      using that dvd_add[of ms "x - (t + ms)" ms] by simp
    ultimately show ?thesis using True \<open>0 < ms\<close> by auto
  qed (simp add: advance.simps[of now ms t])
qed

definition cron_ok :: "(string \<Rightarrow> int \<Rightarrow> int option) \<Rightarrow> bool" where
  "cron_ok cron = (\<forall>v now n. cron v now = Some n \<longrightarrow> now < n)"

lemma next_run_future:
  "cron_ok cron \<Longrightarrow> compute_next_run cron fsum now st sv lr = Some n \<Longrightarrow> now < n"
  by (auto simp: compute_next_run_def cron_ok_def advance_spec split: if_splits option.splits)

section \<open>Rows of one task\<close>

text \<open>\<open>all_rows P i db\<close>: the row of task \<open>i\<close> (there is at most one) satisfies \<open>P\<close>.\<close>

definition all_rows :: "(task \<Rightarrow> bool) \<Rightarrow> string \<Rightarrow> sched_db \<Rightarrow> bool" where
  "all_rows P i db = list_all (\<lambda>t. t_id t = i \<longrightarrow> P t) (tasks db)"

definition others :: "string \<Rightarrow> sched_db \<Rightarrow> task list" where
  "others i db = filter (\<lambda>t. t_id t \<noteq> i) (tasks db)"

lemma set_column_key: "allowed u \<Longrightarrow> t_id (set_column u t) = t_id t \<and> t_folder (set_column u t) = t_folder t
    \<and> t_jid (set_column u t) = t_jid t \<and> t_created (set_column u t) = t_created t"
  by (cases u) (auto simp: allowed_def)

lemma fold_set_column_key:
  "list_all allowed us \<Longrightarrow> t_id (fold set_column us t) = t_id t \<and> t_folder (fold set_column us t) = t_folder t
    \<and> t_jid (fold set_column us t) = t_jid t \<and> t_created (fold set_column us t) = t_created t"
  by (induction us arbitrary: t) (auto simp: set_column_key)

lemma fold_filter_key [simp]:
  "t_id (fold set_column (filter allowed us) t) = t_id t"
  "t_folder (fold set_column (filter allowed us) t) = t_folder t"
  "t_jid (fold set_column (filter allowed us) t) = t_jid t"
  "t_created (fold set_column (filter allowed us) t) = t_created t"
  using fold_set_column_key[of "filter allowed us" t] by (auto simp: list_all_iff)

lemma tasks_update: "tasks (update_task i us db)
    = map (\<lambda>t. if t_id t = i then fold set_column (filter allowed us) t else t) (tasks db)"
  by (cases "filter allowed us = []") (auto simp: update_task_def intro!: map_idI[symmetric])

lemma logs_update [simp]: "logs (update_task i us db) = logs db"
  by (simp add: update_task_def Let_def)

lemma tasks_log [simp]: "tasks (log_task_run i at d st r e db) = tasks db"
  by (simp add: log_task_run_def)

lemma others_update [simp]: "others i (update_task i us db) = others i db"
  by (auto simp: others_def tasks_update filter_map comp_def intro!: map_idI)

lemma others_log [simp]: "others j (log_task_run i at d st r e db) = others j db"
  by (simp add: others_def)

lemma all_rows_update: "all_rows P i (update_task i us db)
    \<longleftrightarrow> all_rows (\<lambda>t. P (fold set_column (filter allowed us) t)) i db"
  by (auto simp: all_rows_def tasks_update list_all_iff)

lemma all_rows_True [simp]: "all_rows (\<lambda>t. True) i db"
  by (simp add: all_rows_def list_all_iff)

lemma count_update [simp]: "count_recent_failures j (update_task i us db) = count_recent_failures j db"
  by (simp add: count_recent_failures_def)

section \<open>The failure counter\<close>

lemma takeWhile_take_length: "length (takeWhile P (take n xs)) = min n (length (takeWhile P xs))"
  by (induction xs arbitrary: n) (auto simp: take_Cons' min_def)

lemma insort_after: "\<forall>z \<in> set zs. f z < f a \<Longrightarrow> insort_key f a (zs @ ws) = zs @ insort_key f a ws"
  by (induction zs) auto

lemma sort_key_append_smallest:
  assumes "sorted (map f zs)" "\<forall>z \<in> set zs. \<forall>x \<in> set xs. f z < f x"
  shows "sort_key f (xs @ zs) = zs @ sort_key f xs"
  using assms(2)
proof (induction xs)
  case Nil
  show ?case using assms(1) by (simp add: sort_key_id_if_sorted)
next
  case (Cons x xs)
  then show ?case by (simp add: insort_after)
qed

definition bad_status :: "string \<Rightarrow> bool" where
  "bad_status s = (s = ''error'' \<or> s = ''timeout'')"

definition streak :: "string \<Rightarrow> sched_db \<Rightarrow> nat" where
  "streak i db = length (takeWhile (\<lambda>l. bad_status (l_status l))
     (sort_key (\<lambda>l. - l_at l) (filter (\<lambda>l. l_task l = i) (logs db))))"

lemma count_streak: "count_recent_failures i db = min MAX_TASK_FAILURES (streak i db)"
  by (simp add: count_recent_failures_def streak_def takeWhile_take_length bad_status_def)

definition logged_before :: "string \<Rightarrow> int \<Rightarrow> sched_db \<Rightarrow> bool" where
  "logged_before i start db = (\<forall>l \<in> set (logs db). l_task l = i \<longrightarrow> l_at l < start)"

lemma streak_append:
  assumes "logged_before i start db" "logs db' = logs db @ ls"
    "list_all (\<lambda>l. l_task l = i \<and> l_at l = start \<and> bad_status (l_status l)) ls"
  shows "streak i db' = length ls + streak i db"
proof -
  have f: "filter (\<lambda>l. l_task l = i) ls = ls" using assms(3) by (simp add: list_all_iff filter_id_conv)
  have at: "\<forall>l \<in> set ls. l_at l = start" using assms(3) by (simp add: list_all_iff)
  then have "map (\<lambda>l. - l_at l) ls = replicate (length ls) (- start)"
    by (induction ls) auto
  then have srt: "sorted (map (\<lambda>l. - l_at l) ls)" by (simp add: sorted_replicate)
  have "sort_key (\<lambda>l. - l_at l) (filter (\<lambda>l. l_task l = i) (logs db) @ ls)
      = ls @ sort_key (\<lambda>l. - l_at l) (filter (\<lambda>l. l_task l = i) (logs db))"
    by (rule sort_key_append_smallest[OF srt])
       (use assms(1) at in \<open>fastforce simp: logged_before_def\<close>)
  moreover have "takeWhile (\<lambda>l. bad_status (l_status l)) (ls @ ws)
      = ls @ takeWhile (\<lambda>l. bad_status (l_status l)) ws" for ws
    by (rule takeWhile_append2) (use assms(3) in \<open>auto simp: list_all_iff\<close>)
  ultimately show ?thesis by (simp add: streak_def assms(2) f)
qed

lemma logs_log: "logs (log_task_run i at d st r e db) = logs db @
    [\<lparr>l_task = i, l_at = at, l_duration = d, l_status = st, l_result = r, l_error = e\<rparr>]"
  by (simp add: log_task_run_def)

definition failure_entries :: "agent_outcome \<Rightarrow> nat" where
  "failure_entries out = (case out of
     Returned r \<Rightarrow> (if ar_result r = Null then 2 else 1) | Agent_cancelled \<Rightarrow> 0 | _ \<Rightarrow> 1)"

definition is_failure :: "agent_outcome \<Rightarrow> bool" where
  "is_failure out = (case out of
     Returned r \<Rightarrow> ar_result r = Null \<and> ar_status r = Some ''error''
   | Timed_out \<Rightarrow> True | Agent_raised _ \<Rightarrow> True | Agent_cancelled \<Rightarrow> False)"

lemma body_streak:
  assumes "logged_before (t_id t) start db" "is_failure out"
    "run_task_body cron fsum start now t out db = (db', n, fl)"
  shows "fl \<and> streak (t_id t) db' = failure_entries out + streak (t_id t) db
    \<and> n = compute_next_run cron fsum now (t_stype t) (t_svalue t) (Some (run_base t start))
    \<and> tasks db' = tasks db"
proof -
  obtain ls where ls: "logs db' = logs db @ ls" "length ls = failure_entries out"
    "list_all (\<lambda>l. l_task l = t_id t \<and> l_at l = start \<and> bad_status (l_status l)) ls"
    using assms(2,3)
    by (auto simp: run_task_body_def run_task_raised_def is_failure_def logs_log bad_status_def
        failure_entries_def Let_def split: agent_outcome.splits if_splits field.splits)
  show ?thesis
    using streak_append[OF assms(1) ls(1,3)] assms(2,3) ls(2)
    by (auto simp: run_task_body_def run_task_raised_def is_failure_def Let_def
        split: agent_outcome.splits field.splits)
qed

section \<open>Recovery\<close>

definition recovered ::
  "(string \<Rightarrow> int \<Rightarrow> int option) \<Rightarrow> (int \<Rightarrow> int \<Rightarrow> int option) \<Rightarrow> int \<Rightarrow> task \<Rightarrow> task \<Rightarrow> task" where
  "recovered cron fsum now t r =
     (if t_id r \<noteq> t_id t then r
      else if t_stype t = ''once'' then r\<lparr>t_status := ''failed'', t_last_result := Some
        ''Interrupted by host restart - not retried to prevent duplicate execution''\<rparr>
      else r\<lparr>t_status := ''active'',
        t_next := compute_next_run cron fsum now (t_stype t) (t_svalue t) (t_next t)\<rparr>)"

definition distinct_ids :: "sched_db \<Rightarrow> bool" where
  "distinct_ids db = distinct (map t_id (tasks db))"

lemma recovered_id [simp]: "t_id (recovered cron fsum now t r) = t_id r"
  by (simp add: recovered_def)

lemma recover_one_rows: "tasks (recover_one cron fsum now t db) = map (recovered cron fsum now t) (tasks db)"
  by (auto simp: recover_one_def tasks_update allowed_def recovered_def cong: map_cong)

lemma recover_fold_rows: "tasks (fold (recover_one cron fsum now) ts db)
    = map (fold (recovered cron fsum now) ts) (tasks db)"
  by (induction ts arbitrary: db) (auto simp: recover_one_rows)

lemma recovered_absent: "t_id r \<notin> t_id ` set ts \<Longrightarrow> fold (recovered cron fsum now) ts r = r"
  by (induction ts arbitrary: r) (auto simp: recovered_def)

lemma recovered_unique:
  assumes "distinct (map t_id ts)" "t \<in> set ts" "t_id r = t_id t"
  shows "fold (recovered cron fsum now) ts r = recovered cron fsum now t r"
  using assms
proof (induction ts arbitrary: r)
  case (Cons a ts)
  show ?case
  proof (cases "a = t")
    case True
    with Cons.prems have "t_id (recovered cron fsum now t r) \<notin> t_id ` set ts" by auto
    then show ?thesis using True by (simp add: recovered_absent)
  next
    case False
    with Cons.prems have "t_id a \<noteq> t_id r" by (auto simp: image_iff)
    then have "recovered cron fsum now a r = r" by (simp add: recovered_def)
    with Cons False show ?thesis by simp
  qed
qed simp

lemma recover_rows:
  assumes "distinct_ids db"
  shows "tasks (fst (recover_stale_running_tasks cron fsum now db)) =
    map (\<lambda>r. if t_status r = ''running'' then recovered cron fsum now r r else r) (tasks db)"
proof -
  let ?rs = "filter (\<lambda>t. t_status t = ''running'') (tasks db)"
  have d: "distinct (map t_id ?rs)" using assms by (simp add: distinct_ids_def distinct_map_filter)
  have "fold (recovered cron fsum now) ?rs r
      = (if t_status r = ''running'' then recovered cron fsum now r r else r)"
    if r: "r \<in> set (tasks db)" for r
  proof (cases "t_status r = ''running''")
    case True
    then show ?thesis using recovered_unique[OF d, of r r] r by simp
  next
    case False
    have "t_id r \<notin> t_id ` set ?rs"
      using assms r False by (auto simp: distinct_ids_def distinct_map dest: inj_onD)
    then show ?thesis using False by (simp add: recovered_absent)
  qed
  then show ?thesis
    by (simp add: recover_stale_running_tasks_def Let_def recover_fold_rows)
qed

section \<open>Properties\<close>

lemmas column_simps = all_rows_update allowed_def is_due_def

lemma all_rowsI: "(\<And>r. P r) \<Longrightarrow> all_rows P i db"
  by (simp add: all_rows_def list_all_iff)

lemma others_body: "run_task_body cron fsum start now t out db = (db', n, fl) \<Longrightarrow>
    others (t_id t) db' = others (t_id t) db"
  by (auto simp: run_task_body_def run_task_raised_def Let_def split: agent_outcome.splits field.splits)

lemma others_finally: "others (t_id t) (run_task_finally t (db, n, fl)) = others (t_id t) db"
  by (simp add: run_task_finally_def Let_def)

lemma body_next: "run_task_body cron fsum start now t out db = (db', n, fl) \<Longrightarrow> n = None \<or>
    n = compute_next_run cron fsum now (t_stype t) (t_svalue t) (Some (run_base t start))"
  by (auto simp: run_task_body_def run_task_raised_def Let_def split: agent_outcome.splits field.splits)

lemma finally_rows: "(\<And>m. n = Some m \<Longrightarrow> now < m) \<Longrightarrow>
    all_rows (\<lambda>r. \<not> is_due now r \<and> (t_status r = ''active'' \<or> t_status r = ''paused'')) (t_id t)
      (run_task_finally t (db, n, fl))"
  by (cases n) (auto simp: run_task_finally_def Let_def column_simps intro!: all_rowsI)

lemma begin_rows:
  assumes "run_task_begin group_of session_of True start t db = (db1, b)"
  shows "all_rows (\<lambda>r. \<not> is_due start r \<and> (b \<noteq> Dropped \<longrightarrow> t_status r = ''running'')) (t_id t) db1
    \<and> others (t_id t) db1 = others (t_id t) db"
proof (cases "group_of (t_jid t)")
  case None
  then have "db1 = update_task (t_id t) [Next_run (Some (start + 3600 * 1000))] db" "b = Dropped"
    using assms by (auto simp: run_task_begin_def)
  then show ?thesis by (simp add: column_simps)
next
  case (Some g)
  then have "db1 = update_task (t_id t) [Status ''running''] db"
    using assms by (auto simp: run_task_begin_def)
  then show ?thesis by (simp add: column_simps)
qed

text \<open>
  A run of an interval task computes a time that is in the future, lies on the grid of whole
  intervals from the base time, and is the first such time: a missed period is skipped, never
  fired late in a burst.
\<close>

theorem interval_next_run:
  assumes "compute_next_run cron fsum now ''interval'' v (Some r) = Some n"
  shows "\<exists>ms t. py_int v = Some ms \<and> 0 < ms \<and> fsum (if r = 0 then now else r) ms = Some t
    \<and> now < n \<and> t \<le> n \<and> ms dvd n - t \<and> (n = t \<or> n - ms \<le> now)"
  using assms
proof -
  obtain ms t where p: "py_int v = Some ms" "0 < ms" "fsum (if r = 0 then now else r) ms = Some t"
    "n = advance now ms t"
    using assms by (auto simp: compute_next_run_def split: if_splits option.splits)
  with advance_spec[of ms now t] show ?thesis by auto
qed

theorem interval_next_run_witness:
  "\<exists>ms t. py_int '' 60_000 '' = Some ms \<and> 0 < ms \<and> Some (1000 + ms) = Some t
    \<and> (500000::int) < 541000 \<and> t \<le> 541000 \<and> ms dvd 541000 - t \<and> (541000 = t \<or> 541000 - ms \<le> 500000)"
proof -
  have "compute_next_run (\<lambda>v x. None) (\<lambda>b m. Some (b + m)) 500000 ''interval'' '' 60_000 '' (Some 1000)
      = Some 541000" by code_simp
  from interval_next_run[OF this] show ?thesis by simp
qed

text \<open>
  C3: A dispatched run takes its task out of the due list at once, whatever the reason it ends
  leaves it active or paused and never due at that moment, and it touches no other task: a task is
  not dispatched again by the next poll, on any exit path.
\<close>

theorem run_never_due_again:
  assumes "cron_ok cron" "run_task_begin group_of session_of True start t db = (db1, b)"
  shows "all_rows (\<lambda>r. \<not> is_due start r \<and> (b \<noteq> Dropped \<longrightarrow> t_status r = ''running'')) (t_id t) db1
    \<and> others (t_id t) db1 = others (t_id t) db
    \<and> all_rows (\<lambda>r. \<not> is_due now r \<and> (t_status r = ''active'' \<or> t_status r = ''paused'')) (t_id t)
        (run_task_end cron fsum start now t out db2)
    \<and> others (t_id t) (run_task_end cron fsum start now t out db2) = others (t_id t) db2"
proof -
  obtain db3 n fl where b: "run_task_body cron fsum start now t out db2 = (db3, n, fl)"
    by (cases "run_task_body cron fsum start now t out db2") auto
  have "now < m" if "n = Some m" for m
    using body_next[OF b] next_run_future[OF assms(1)] that by auto
  then have "all_rows (\<lambda>r. \<not> is_due now r \<and> (t_status r = ''active'' \<or> t_status r = ''paused''))
      (t_id t) (run_task_end cron fsum start now t out db2)"
    using finally_rows by (simp add: run_task_end_def b)
  moreover have "others (t_id t) (run_task_end cron fsum start now t out db2) = others (t_id t) db2"
    using others_body[OF b] by (simp add: run_task_end_def b others_finally)
  ultimately show ?thesis
    using begin_rows[OF assms(2)] by blast
qed

definition demo_task :: task where
  "demo_task = \<lparr>t_id = ''t1'', t_folder = ''f'', t_jid = ''g1'', t_prompt = ''report'',
     t_stype = ''interval'', t_svalue = ''60000'', t_next = Some 1000, t_context = ''isolated'',
     t_last_run = None, t_last_result = None, t_status = ''active'', t_created = 0\<rparr>"

definition demo_db :: sched_db where
  "demo_db = \<lparr>tasks = [demo_task, demo_task\<lparr>t_id := ''t2'', t_stype := ''once''\<rparr>], logs = []\<rparr>"

abbreviation (input) no_cron :: "string \<Rightarrow> int \<Rightarrow> int option" where "no_cron \<equiv> \<lambda>v x. None"
abbreviation (input) exact_sum :: "int \<Rightarrow> int \<Rightarrow> int option" where "exact_sum \<equiv> \<lambda>b m. Some (b + m)"

lemma no_cron_ok: "cron_ok no_cron"
  by (simp add: cron_ok_def)

theorem run_never_due_again_witness:
  "is_due 2000 demo_task
    \<and> all_rows (\<lambda>r. \<not> is_due 2000 r) ''t1''
        (fst (run_task_begin Some Some True 2000 (due_task.truncate demo_task) demo_db))
    \<and> all_rows (\<lambda>r. \<not> is_due 9000 r) ''t1''
        (run_task_end no_cron exact_sum 2000 9000 (due_task.truncate demo_task) Timed_out demo_db)"
proof -
  obtain db1 b where r: "run_task_begin Some Some True 2000 (due_task.truncate demo_task) demo_db = (db1, b)"
    by (cases "run_task_begin Some Some True 2000 (due_task.truncate demo_task) demo_db") auto
  have i: "t_id (due_task.truncate demo_task) = ''t1''"
    by (simp add: demo_task_def due_task.truncate_def)
  have "is_due 2000 demo_task" by code_simp
  with run_never_due_again[OF no_cron_ok r, of 9000 exact_sum Timed_out demo_db] r i show ?thesis
    by (auto simp: all_rows_def list_all_iff)
qed

text \<open>
  C4: A failed run advances the task, counts towards the trailing streak of failures in the log,
  and pauses the task exactly when the streak reaches five.  A timeout and a raised exception
  count once; an error reply whose result is \<open>None\<close>, which is what the container runner returns
  for its own failures, is logged twice and counts twice, so it pauses after three runs.
\<close>

theorem failed_run_accounting:
  assumes "logged_before (t_id t) start db" "is_failure out"
    "compute_next_run cron fsum now (t_stype t) (t_svalue t) (Some (run_base t start)) = Some n"
  shows "all_rows (\<lambda>r. t_next r = Some n \<and> t_status r =
      (if 5 \<le> failure_entries out + streak (t_id t) db then ''paused'' else ''active'')) (t_id t)
      (run_task_end cron fsum start now t out db)
    \<and> streak (t_id t) (run_task_end cron fsum start now t out db)
      = failure_entries out + streak (t_id t) db"
proof -
  obtain db3 m fl where b: "run_task_body cron fsum start now t out db = (db3, m, fl)"
    by (cases "run_task_body cron fsum start now t out db") auto
  from body_streak[OF assms(1,2) b] assms(3)
  have *: "fl" "streak (t_id t) db3 = failure_entries out + streak (t_id t) db" "m = Some n" by auto
  have l: "logs (run_task_finally t (db3, m, fl)) = logs db3"
    by (simp add: run_task_finally_def Let_def)
  then have "streak (t_id t) (run_task_finally t (db3, m, fl)) = streak (t_id t) db3"
    by (simp add: streak_def)
  then show ?thesis
    using * by (auto simp: run_task_end_def b run_task_finally_def count_streak MAX_TASK_FAILURES_def
        Let_def column_simps intro!: all_rowsI)
qed

theorem failed_run_accounting_witness:
  "failure_entries (Returned \<lparr>ar_status = Some ''error'', ar_result = Null, ar_error = Text ''e''\<rparr>) = 2
    \<and> streak ''t1'' (run_task_end no_cron exact_sum 2000 9000 (due_task.truncate demo_task)
        (Returned \<lparr>ar_status = Some ''error'', ar_result = Null, ar_error = Text ''e''\<rparr>) demo_db) = 2"
proof -
  let ?t = "due_task.truncate demo_task"
  let ?o = "Returned \<lparr>ar_status = Some ''error'', ar_result = Null, ar_error = Text ''e''\<rparr>"
  have i: "t_id ?t = ''t1''" by (simp add: demo_task_def due_task.truncate_def)
  have l: "logged_before (t_id ?t) 2000 demo_db" by (simp add: logged_before_def demo_db_def)
  have f: "is_failure ?o" by (simp add: is_failure_def)
  have c: "compute_next_run no_cron exact_sum 9000 (t_stype ?t) (t_svalue ?t) (Some (run_base ?t 2000))
      = Some 61000" by code_simp
  show ?thesis using failed_run_accounting[OF l f c] i
    by (simp add: streak_def demo_db_def failure_entries_def)
qed

text \<open>
  A recurring task whose run is cancelled, as \<open>main\<close> does to every run still going 30 seconds
  after shutdown begins, is paused with no next run and the message that its schedule is invalid,
  although the schedule is fine; the cancelled run is not in the log.
\<close>

theorem cancelled_run_pauses:
  assumes "t_stype t \<noteq> ''once''"
  shows "all_rows (\<lambda>r. t_status r = ''paused'' \<and> t_next r = None) (t_id t)
      (run_task_end cron fsum start now t Agent_cancelled db)
    \<and> logs (run_task_end cron fsum start now t Agent_cancelled db) = logs db"
  using assms
  by (auto simp: run_task_end_def run_task_body_def run_task_finally_def Let_def column_simps
      intro!: all_rowsI)

theorem cancelled_run_pauses_witness:
  "compute_next_run no_cron exact_sum 9000 ''interval'' ''60000'' (Some 1000) = Some 61000
    \<and> map t_status (tasks (run_task_end no_cron exact_sum 2000 9000 (due_task.truncate demo_task)
        Agent_cancelled demo_db)) = [''paused'', ''active'']"
proof -
  have "t_stype (due_task.truncate demo_task) \<noteq> ''once''"
    by (simp add: demo_task_def due_task.truncate_def)
  from cancelled_run_pauses[OF this, of no_cron exact_sum 2000 9000 demo_db]
  have "all_rows (\<lambda>r. t_status r = ''paused'' \<and> t_next r = None) (t_id (due_task.truncate demo_task))
      (run_task_end no_cron exact_sum 2000 9000 (due_task.truncate demo_task) Agent_cancelled demo_db)"
    by simp
  moreover have "compute_next_run no_cron exact_sum 9000 ''interval'' ''60000'' (Some 1000) = Some 61000"
    by code_simp
  moreover have "map t_status (tasks (run_task_end no_cron exact_sum 2000 9000 (due_task.truncate demo_task)
        Agent_cancelled demo_db)) = [''paused'', ''active'']" by code_simp
  ultimately show ?thesis by blast
qed

text \<open>
  Crash recovery rewrites exactly the rows left running, each once: a one-shot task fails and
  is not repeated, any other becomes active with the next time its schedule gives (none, if the
  schedule cannot be read); the number of rewritten rows is returned.
\<close>

theorem recovery_rewrites_running:
  assumes "distinct_ids db"
  shows "tasks (fst (recover_stale_running_tasks cron fsum now db)) =
      map (\<lambda>r. if t_status r = ''running'' then recovered cron fsum now r r else r) (tasks db)
    \<and> list_all (\<lambda>r. t_status r \<noteq> ''running'') (tasks (fst (recover_stale_running_tasks cron fsum now db)))
    \<and> snd (recover_stale_running_tasks cron fsum now db)
      = length (filter (\<lambda>t. t_status t = ''running'') (tasks db))"
  using recover_rows[OF assms, of cron fsum now]
  by (auto simp: list_all_iff recovered_def recover_stale_running_tasks_def Let_def)

theorem recovery_rewrites_running_witness:
  "map t_status (tasks (fst (recover_stale_running_tasks no_cron exact_sum 9000
      \<lparr>tasks = [demo_task\<lparr>t_status := ''running''\<rparr>, demo_task\<lparr>t_id := ''t2'', t_stype := ''once'',
        t_status := ''running''\<rparr>, demo_task\<lparr>t_id := ''t3'', t_status := ''paused''\<rparr>], logs = []\<rparr>)))
    = [''active'', ''failed'', ''paused'']"
  by (subst recovery_rewrites_running[THEN conjunct1])
     (simp_all add: distinct_ids_def demo_task_def recovered_def)

lemma others_delete: "others i (delete_task i db) = tasks (delete_task i db)"
  by (simp add: others_def delete_task_def)

lemma create_task_row:
  "\<exists>new. create_task i f j p st sv n c now db = (if i \<in> t_id ` set (tasks db) then None
       else Some (db\<lparr>tasks := tasks db @ [new]\<rparr>)) \<and> t_id new = i
     \<and> get_all_tasks (Some f) (db\<lparr>tasks := tasks db @ [new]\<rparr>) = get_all_tasks (Some f) db @ [new]"
  unfolding create_task_def
  by (rule exI, rule conjI, rule refl) (simp add: get_all_tasks_def)

text \<open>
  Column updates go through the white list: no call changes a task's key, group or creation
  time, or any other task, and the keys of the table stay distinct under every operation.
\<close>

theorem task_table_keys:
  assumes "distinct_ids db"
  shows "map (\<lambda>t. (t_id t, t_folder t, t_jid t, t_created t)) (tasks (update_task i us db))
      = map (\<lambda>t. (t_id t, t_folder t, t_jid t, t_created t)) (tasks db)
    \<and> others i (update_task i us db) = others i db
    \<and> others i (delete_task i db) = tasks (delete_task i db) \<and> distinct_ids (delete_task i db)
    \<and> (\<exists>new. create_task i f j p st sv n c now db = (if i \<in> t_id ` set (tasks db) then None
         else Some (db\<lparr>tasks := tasks db @ [new]\<rparr>)) \<and> t_id new = i
         \<and> get_all_tasks (Some f) (db\<lparr>tasks := tasks db @ [new]\<rparr>) = get_all_tasks (Some f) db @ [new])
    \<and> distinct_ids (update_task i us db)"
proof -
  have k: "map (\<lambda>t. (t_id t, t_folder t, t_jid t, t_created t)) (tasks (update_task i us db))
      = map (\<lambda>t. (t_id t, t_folder t, t_jid t, t_created t)) (tasks db)"
    by (simp add: tasks_update)
  then have "map fst (map (\<lambda>t. (t_id t, t_folder t, t_jid t, t_created t)) (tasks (update_task i us db)))
      = map fst (map (\<lambda>t. (t_id t, t_folder t, t_jid t, t_created t)) (tasks db))" by (rule arg_cong)
  then have "distinct_ids (update_task i us db)"
    using assms by (simp add: distinct_ids_def comp_def)
  moreover have "distinct_ids (delete_task i db)"
    using assms by (simp add: distinct_ids_def delete_task_def distinct_map_filter)
  ultimately show ?thesis
    using k create_task_row[of i f j p st sv n c now db]
      others_delete[of i db] by auto
qed

theorem task_table_keys_witness:
  "map t_id (tasks (update_task ''t1'' [Id ''t2'', Status ''paused''] demo_db)) = [''t1'', ''t2'']"
proof -
  have "distinct_ids demo_db" by (simp add: distinct_ids_def demo_db_def demo_task_def)
  from task_table_keys[OF this, of "''t1''" "[Id ''t2'', Status ''paused'']"]
  have "map fst (map (\<lambda>t. (t_id t, t_folder t, t_jid t, t_created t))
      (tasks (update_task ''t1'' [Id ''t2'', Status ''paused''] demo_db)))
    = map fst (map (\<lambda>t. (t_id t, t_folder t, t_jid t, t_created t)) (tasks demo_db))" by simp
  then show ?thesis by (simp add: comp_def demo_db_def demo_task_def)
qed

text \<open>
  Polling again while the queue still holds or runs the due tasks submits nothing: the
  scheduler's re-submission of a slow task does not build up in the group queue.
\<close>

theorem poll_resubmits_nothing:
  assumes "list_all (\<lambda>t. t_jid t \<noteq> [] \<longrightarrow> holds_task q (t_jid t) (t_id t)) (get_due_tasks now db)"
  shows "poll_queue maxc now db q = q"
proof -
  let ?ks = "map (\<lambda>t. (t_jid t, t_id t)) (filter (\<lambda>t. t_jid t \<noteq> []) (get_due_tasks now db))"
  have "fold (\<lambda>t q. if t_jid t = [] then q else enqueue_task maxc (t_jid t) (t_id t) q) ts q
      = intake.poll maxc (map (\<lambda>t. (t_jid t, t_id t)) (filter (\<lambda>t. t_jid t \<noteq> []) ts)) q" for ts
    by (induction ts arbitrary: q) simp_all
  then have "poll_queue maxc now db q = intake.poll maxc ?ks q" by (simp add: poll_queue_def)
  also have "\<dots> = q"
    by (rule intake.poll_held) (use assms in \<open>auto simp: list_all_iff\<close>)
  finally show ?thesis .
qed

theorem poll_resubmits_nothing_witness:
  "poll_queue 2 2000 demo_db (poll_queue 2 2000 demo_db new_gq) = poll_queue 2 2000 demo_db new_gq
    \<and> active_count (poll_queue 2 2000 demo_db new_gq) = 1"
proof -
  have "list_all (\<lambda>t. t_jid t \<noteq> [] \<longrightarrow> holds_task (poll_queue 2 2000 demo_db new_gq) (t_jid t) (t_id t))
      (get_due_tasks 2000 demo_db)" by code_simp
  moreover have "active_count (poll_queue 2 2000 demo_db new_gq) = 1" by code_simp
  ultimately show ?thesis using poll_resubmits_nothing[of "poll_queue 2 2000 demo_db new_gq"] by blast
qed

end
