(* ===== verification/LeaderElection.thy ===== *)
theory LeaderElection
  imports Prelude
begin

text \<open>
  \<open>host/leader_election.py\<close>: several processes share one SQLite table with at most one row, the
  lease; an instance acquires it by an upsert that only replaces an expired lease, renews it by a
  heartbeat and deletes it on shutdown.

  An \<open>LeaderElection\<close> object is a record \<open>node\<close>, the table a \<open>lease option\<close>.  A statement is
  atomic (SQLite serialises them), but the clock value it uses was read earlier: \<open>at\<close> below.  A
  failing call may or may not have taken effect (\<open>_db_execute\<close> gives up on a statement that its
  thread may still complete); a statement given up on takes effect at once or never.  Times are
  integers in one unit.
\<close>

section \<open>State\<close>

record lease =
  holder :: string
  acquired_at :: int
  heartbeat_at :: int

text \<open>
  \<open>last_read\<close> and \<open>confirmed\<close> are history variables, written but never read by the operations: the
  last clock value the instance used, and the one its last successful write stored.
\<close>

record node =
  is_leader :: bool
  beating :: bool
  hb_failures :: nat
  terminated :: bool
  last_read :: int
  confirmed :: int

record cluster =
  row :: "lease option"
  inst :: "(string, node) dict"
  clock :: int

definition MAX_HB_FAILURES :: nat where "MAX_HB_FAILURES = 3"

text \<open>The import-time correction of a lease time-out that no heartbeat could keep alive.\<close>

definition lease_timeout :: "bool \<Rightarrow> int \<Rightarrow> int \<Rightarrow> int" where
  "lease_timeout enabled hb configured =
     (if enabled \<and> configured \<le> hb then hb * 3 else configured)"

definition new_node :: "bool \<Rightarrow> int \<Rightarrow> node" where
  "new_node enabled now = \<lparr>is_leader = \<not> enabled, beating = False, hb_failures = 0,
     terminated = False, last_read = now, confirmed = now\<rparr>"

section \<open>The statements\<close>

definition sql_acquire :: "string \<Rightarrow> int \<Rightarrow> int \<Rightarrow> lease option \<Rightarrow> lease option \<times> nat" where
  "sql_acquire i at expiry r =
     (let new = \<lparr>holder = i, acquired_at = at, heartbeat_at = at\<rparr> in
      case r of None \<Rightarrow> (Some new, 1)
      | Some l \<Rightarrow> if heartbeat_at l < expiry then (Some new, 1) else (r, 0))"

definition sql_heartbeat :: "string \<Rightarrow> int \<Rightarrow> lease option \<Rightarrow> lease option \<times> nat" where
  "sql_heartbeat i at r =
     (case r of None \<Rightarrow> (None, 0)
      | Some l \<Rightarrow> if holder l = i then (Some (l\<lparr>heartbeat_at := at\<rparr>), 1) else (r, 0))"

definition sql_release :: "string \<Rightarrow> lease option \<Rightarrow> lease option" where
  "sql_release i r = (case r of None \<Rightarrow> None | Some l \<Rightarrow> if holder l = i then None else r)"

datatype db_call = Done | Fails (took_effect: bool)

section \<open>The operations of one instance\<close>

text \<open>One turn of the loop in \<open>acquire\<close>; the loop ends when \<open>is_leader\<close> is set.\<close>

definition acquire_attempt ::
  "int \<Rightarrow> string \<Rightarrow> int \<Rightarrow> db_call \<Rightarrow> node \<times> lease option \<Rightarrow> node \<times> lease option" where
  "acquire_attempt lt i at c = (\<lambda>(s, r).
     let (r', n) = sql_acquire i at (at - lt) r; s = s\<lparr>last_read := at\<rparr> in
     case c of
       Done \<Rightarrow> if 0 < n then (s\<lparr>is_leader := True, beating := True, confirmed := at\<rparr>, r') else (s, r')
     | Fails eff \<Rightarrow> (s, if eff then r' else r))"

text \<open>One turn of \<open>_heartbeat_loop\<close> after its sleep.\<close>

definition heartbeat ::
  "string \<Rightarrow> int \<Rightarrow> db_call \<Rightarrow> node \<times> lease option \<Rightarrow> node \<times> lease option" where
  "heartbeat i at c = (\<lambda>(s, r).
     let (r', n) = sql_heartbeat i at r; s = s\<lparr>last_read := at\<rparr> in
     case c of
       Done \<Rightarrow>
         if n = 0 then (s\<lparr>is_leader := False, hb_failures := 0, terminated := True, beating := False\<rparr>, r')
         else (s\<lparr>hb_failures := 0, confirmed := at\<rparr>, r')
     | Fails eff \<Rightarrow>
         (let s = s\<lparr>hb_failures := Suc (hb_failures s)\<rparr> in
          (if MAX_HB_FAILURES \<le> hb_failures s
           then s\<lparr>is_leader := False, terminated := True, beating := False\<rparr> else s,
           if eff then r' else r)))"

definition release :: "string \<Rightarrow> db_call \<Rightarrow> node \<times> lease option \<Rightarrow> node \<times> lease option" where
  "release i c = (\<lambda>(s, r).
     if \<not> is_leader s then (s, r)
     else (s\<lparr>beating := False, is_leader := False\<rparr>,
           case c of Done \<Rightarrow> sql_release i r | Fails eff \<Rightarrow> if eff then sql_release i r else r))"

section \<open>The cluster\<close>

datatype le_event =
    Tick nat
  | Start string
  | Attempt string int db_call
  | Beat string int db_call
  | Release string db_call

definition on_node ::
  "string \<Rightarrow> (node \<Rightarrow> bool) \<Rightarrow> (node \<times> lease option \<Rightarrow> node \<times> lease option)
     \<Rightarrow> cluster \<Rightarrow> cluster option" where
  "on_node i guard f c =
     (case dget (inst c) i of None \<Rightarrow> None
      | Some s \<Rightarrow> if guard s then
            (let (s', r') = f (s, row c) in Some (c\<lparr>inst := dset i s' (inst c), row := r'\<rparr>))
          else None)"

text \<open>
  An event and when it can happen: an instance acquires while it is not leader and heartbeats while
  its loop runs; the clock value it uses is not ahead of the clock nor behind its last one.
\<close>

fun le_apply :: "int \<Rightarrow> le_event \<Rightarrow> cluster \<Rightarrow> cluster option" where
  "le_apply lt (Tick d) c = Some (c\<lparr>clock := clock c + int d\<rparr>)"
| "le_apply lt (Start i) c =
     (if dget (inst c) i = None
      then Some (c\<lparr>inst := dset i (new_node True (clock c)) (inst c)\<rparr>) else None)"
| "le_apply lt (Attempt i at d) c =
     on_node i (\<lambda>s. \<not> is_leader s \<and> \<not> terminated s \<and> last_read s \<le> at \<and> at \<le> clock c)
       (acquire_attempt lt i at d) c"
| "le_apply lt (Beat i at d) c =
     on_node i (\<lambda>s. beating s \<and> last_read s \<le> at \<and> at \<le> clock c) (heartbeat i at d) c"
| "le_apply lt (Release i d) c = on_node i (\<lambda>s. True) (release i d) c"

definition empty_cluster :: cluster where
  "empty_cluster = \<lparr>row = None, inst = [], clock = 0\<rparr>"

inductive le_reach :: "int \<Rightarrow> cluster \<Rightarrow> bool" for lt where
  init: "le_reach lt empty_cluster"
| step: "le_reach lt c \<Longrightarrow> le_apply lt e c = Some c' \<Longrightarrow> le_reach lt c'"

fun le_run :: "int \<Rightarrow> le_event list \<Rightarrow> cluster \<Rightarrow> cluster option" where
  "le_run lt [] c = Some c"
| "le_run lt (e # es) c = (case le_apply lt e c of None \<Rightarrow> None | Some c' \<Rightarrow> le_run lt es c')"

lemma le_run_reach: "le_reach lt c \<Longrightarrow> le_run lt es c = Some c' \<Longrightarrow> le_reach lt c'"
  by (induction es arbitrary: c) (auto split: option.splits intro: le_reach.step)

lemma le_run_empty: "le_run lt es empty_cluster = Some c \<Longrightarrow> le_reach lt c"
  by (rule le_run_reach[OF le_reach.init])

section \<open>The invariant\<close>

text \<open>
  \<open>fresh\<close>: the last write the instance knows of is younger than the lease time-out.  A fresh leader
  holds the row, with a heartbeat at least as young.
\<close>

definition fresh :: "int \<Rightarrow> cluster \<Rightarrow> node \<Rightarrow> bool" where
  "fresh lt c s = (is_leader s \<and> clock c - lt \<le> confirmed s)"

definition holds_row :: "string \<Rightarrow> node \<Rightarrow> lease option \<Rightarrow> bool" where
  "holds_row i s r = (case r of None \<Rightarrow> False | Some l \<Rightarrow> holder l = i \<and> confirmed s \<le> heartbeat_at l)"

definition inst_ok :: "int \<Rightarrow> int \<Rightarrow> lease option \<Rightarrow> string \<Rightarrow> node \<Rightarrow> bool" where
  "inst_ok lt now r i s =
     ((is_leader s \<and> now - lt \<le> confirmed s \<longrightarrow> holds_row i s r)
      \<and> (is_leader s \<longrightarrow> beating s) \<and> (\<not> terminated s \<longrightarrow> hb_failures s < MAX_HB_FAILURES)
      \<and> (beating s \<longrightarrow> is_leader s \<and> \<not> terminated s)
      \<and> confirmed s \<le> last_read s \<and> last_read s \<le> now)"

definition le_inv :: "int \<Rightarrow> cluster \<Rightarrow> bool" where
  "le_inv lt c = (\<forall>i s. dget (inst c) i = Some s \<longrightarrow> inst_ok lt (clock c) (row c) i s)"

lemma le_invD: "le_inv lt c \<Longrightarrow> dget (inst c) i = Some s \<Longrightarrow> inst_ok lt (clock c) (row c) i s"
  by (simp add: le_inv_def)

text \<open>What a write by \<open>i\<close> may do to the row, as the other instances see it.\<close>

definition row_kept :: "int \<Rightarrow> int \<Rightarrow> string \<Rightarrow> lease option \<Rightarrow> lease option \<Rightarrow> bool" where
  "row_kept lt now i r r' = (r' = r \<or> r = None
     \<or> (\<exists>l. r = Some l \<and> (holder l = i \<or> heartbeat_at l < now - lt)))"

lemma inst_ok_kept:
  "row_kept lt now i r r' \<Longrightarrow> j \<noteq> i \<Longrightarrow> inst_ok lt now r j s \<Longrightarrow> inst_ok lt now r' j s"
  by (auto simp: row_kept_def inst_ok_def holds_row_def)

lemma on_node_inv:
  assumes "le_inv lt c" "on_node i g f c = Some c'"
    "\<And>s s' r'. inst_ok lt (clock c) (row c) i s \<Longrightarrow> g s \<Longrightarrow> f (s, row c) = (s', r') \<Longrightarrow>
       inst_ok lt (clock c) r' i s' \<and> row_kept lt (clock c) i (row c) r'"
  shows "le_inv lt c'"
proof -
  obtain s s' r' where *: "dget (inst c) i = Some s" "g s" "f (s, row c) = (s', r')"
    "c' = c\<lparr>inst := dset i s' (inst c), row := r'\<rparr>"
    using assms(2) by (auto simp: on_node_def split: option.splits if_splits prod.splits)
  with assms(3)[of s s' r'] le_invD[OF assms(1)] inst_ok_kept show ?thesis
    by (auto simp: le_inv_def)
qed

lemma attempt_ok:
  "inst_ok lt now r i s \<Longrightarrow> \<not> is_leader s \<Longrightarrow> last_read s \<le> at \<Longrightarrow> at \<le> now \<Longrightarrow> \<not> terminated s \<Longrightarrow>
   acquire_attempt lt i at d (s, r) = (s', r') \<Longrightarrow>
   inst_ok lt now r' i s' \<and> row_kept lt now i r r'"
  by (auto simp: acquire_attempt_def sql_acquire_def inst_ok_def holds_row_def row_kept_def Let_def
      split: option.splits if_splits db_call.splits)

lemma heartbeat_ok:
  "inst_ok lt now r i s \<Longrightarrow> beating s \<Longrightarrow> last_read s \<le> at \<Longrightarrow> at \<le> now \<Longrightarrow>
   heartbeat i at d (s, r) = (s', r') \<Longrightarrow> inst_ok lt now r' i s' \<and> row_kept lt now i r r'"
  by (auto simp: heartbeat_def sql_heartbeat_def inst_ok_def holds_row_def row_kept_def Let_def
      MAX_HB_FAILURES_def split: option.splits if_splits db_call.splits)

lemma release_ok:
  "inst_ok lt now r i s \<Longrightarrow> release i d (s, r) = (s', r') \<Longrightarrow>
   inst_ok lt now r' i s' \<and> row_kept lt now i r r'"
  by (auto simp: release_def sql_release_def inst_ok_def holds_row_def row_kept_def
      split: option.splits if_splits db_call.splits)

lemma tick_ok: "inst_ok lt now r i s \<Longrightarrow> inst_ok lt (now + int d) r i s"
  by (auto simp: inst_ok_def)

lemma le_inv_step: "le_inv lt c \<Longrightarrow> le_apply lt e c = Some c' \<Longrightarrow> le_inv lt c'"
proof (cases e)
  case (Tick d)
  then show "le_inv lt c \<Longrightarrow> le_apply lt e c = Some c' \<Longrightarrow> le_inv lt c'"
    by (auto simp: le_inv_def tick_ok)
next
  case (Start i)
  then show "le_inv lt c \<Longrightarrow> le_apply lt e c = Some c' \<Longrightarrow> le_inv lt c'"
    by (auto simp: le_inv_def inst_ok_def new_node_def MAX_HB_FAILURES_def split: if_splits)
next
  case (Attempt i at d)
  then show "le_inv lt c \<Longrightarrow> le_apply lt e c = Some c' \<Longrightarrow> le_inv lt c'"
    by (auto elim!: on_node_inv simp: attempt_ok)
next
  case (Beat i at d)
  then show "le_inv lt c \<Longrightarrow> le_apply lt e c = Some c' \<Longrightarrow> le_inv lt c'"
    by (auto elim!: on_node_inv simp: heartbeat_ok)
next
  case (Release i d)
  then show "le_inv lt c \<Longrightarrow> le_apply lt e c = Some c' \<Longrightarrow> le_inv lt c'"
    by (auto elim!: on_node_inv simp: release_ok)
qed

lemma le_inv_reach: "le_reach lt c \<Longrightarrow> le_inv lt c"
proof (induction rule: le_reach.induct)
  case init
  show ?case by (simp add: le_inv_def empty_cluster_def)
qed (rule le_inv_step)

section \<open>Properties\<close>

lemma fresh_holds:
  assumes "le_reach lt c" "dget (inst c) i = Some s" "fresh lt c s"
  shows "\<exists>l. row c = Some l \<and> holder l = i \<and> clock c - lt \<le> heartbeat_at l"
  using le_invD[OF le_inv_reach[OF assms(1)] assms(2)] assms(3)
  by (auto simp: fresh_def inst_ok_def holds_row_def split: option.splits)

text \<open>
  C5: Two instances never both lead on a lease that is still running: of all instances that
  believe they lead, at most one has renewed within the lease time-out, and that one owns the row.
\<close>

theorem one_fresh_leader:
  assumes "le_reach lt c" "dget (inst c) i = Some s" "dget (inst c) j = Some s'"
    "fresh lt c s" "fresh lt c s'"
  shows "i = j \<and> map_option holder (row c) = Some i"
  using fresh_holds[OF assms(1,2,4)] fresh_holds[OF assms(1,3,5)] by auto

text \<open>A takes the lease, stalls for longer than the time-out; B takes over while A still leads.\<close>

definition takeover :: "le_event list" where
  "takeover = [Start ''A'', Start ''B'', Attempt ''A'' 0 Done, Tick 10, Beat ''A'' 10 Done,
     Attempt ''B'' 10 Done, Tick 40, Attempt ''B'' 50 Done]"

definition taken_over :: cluster where
  "taken_over = \<lparr>row = Some \<lparr>holder = ''B'', acquired_at = 50, heartbeat_at = 50\<rparr>,
     inst = [(''A'', \<lparr>is_leader = True, beating = True, hb_failures = 0, terminated = False,
                last_read = 10, confirmed = 10\<rparr>),
             (''B'', \<lparr>is_leader = True, beating = True, hb_failures = 0, terminated = False,
                last_read = 50, confirmed = 50\<rparr>)], clock = 50\<rparr>"

lemma takeover_run: "le_run 30 takeover empty_cluster = Some taken_over"
  by code_simp

lemma taken_over_reach: "le_reach 30 taken_over"
  by (rule le_run_empty[OF takeover_run])

theorem one_fresh_leader_witness:
  "\<exists>s. dget (inst taken_over) ''B'' = Some s \<and> fresh 30 taken_over s
     \<and> map_option holder (row taken_over) = Some ''B''"
proof -
  obtain s where s: "dget (inst taken_over) ''B'' = Some s" "fresh 30 taken_over s"
    by (auto simp: taken_over_def dget_Cons fresh_def)
  then show ?thesis using one_fresh_leader[OF taken_over_reach s(1) s(1) s(2) s(2)] by blast
qed

text \<open>
  While the stored heartbeat is younger than the time-out, nothing but the holder's own
  heartbeat or release touches the row: a standby's attempt neither takes the lease nor makes it a
  leader.
\<close>

theorem live_lease_kept:
  assumes "row c = Some l" "clock c - lt \<le> heartbeat_at l" "le_apply lt (Attempt i at d) c = Some c'"
  shows "row c' = row c \<and> (\<exists>s'. dget (inst c') i = Some s' \<and> \<not> is_leader s')
    \<and> (\<forall>j. j \<noteq> i \<longrightarrow> dget (inst c') j = dget (inst c) j)"
  using assms
  by (auto simp: on_node_def acquire_attempt_def sql_acquire_def Let_def
      split: option.splits if_splits prod.splits db_call.splits)

theorem live_lease_kept_witness:
  "le_apply 30 (Attempt ''C'' 50 Done) (taken_over\<lparr>inst := [(''C'', new_node True 0)]\<rparr>) \<noteq> None
    \<and> row (the (le_apply 30 (Attempt ''C'' 50 Done) (taken_over\<lparr>inst := [(''C'', new_node True 0)]\<rparr>)))
      = row taken_over"
proof -
  let ?c = "taken_over\<lparr>inst := [(''C'', new_node True 0)]\<rparr>"
  have n: "le_apply 30 (Attempt ''C'' 50 Done) ?c \<noteq> None" by code_simp
  then obtain c' where c': "le_apply 30 (Attempt ''C'' 50 Done) ?c = Some c'" by auto
  have l: "row ?c = Some \<lparr>holder = ''B'', acquired_at = 50, heartbeat_at = 50\<rparr>"
    by (simp add: taken_over_def)
  have "clock ?c - 30 \<le> heartbeat_at \<lparr>holder = ''B'', acquired_at = 50, heartbeat_at = 50\<rparr>"
    by (simp add: taken_over_def)
  from live_lease_kept[OF l this c'] show ?thesis using n c' by simp
qed

lemma beat_usurped:
  assumes "le_reach lt c" "dget (inst c) i = Some s" "is_leader s" "row c = Some l" "holder l \<noteq> i"
    "le_apply lt (Beat i at d) c = Some c'"
  shows "row c' = row c \<and> (case dget (inst c') i of None \<Rightarrow> False | Some s' \<Rightarrow>
    (if is_leader s' then d \<noteq> Done \<and> hb_failures s' = Suc (hb_failures s) \<and> hb_failures s' < 3
     else terminated s' \<and> \<not> beating s'))"
  using assms(2-6)
  by (auto simp: on_node_def heartbeat_def sql_heartbeat_def Let_def MAX_HB_FAILURES_def
      split: option.splits if_splits prod.splits db_call.splits)

lemma beat_stopped:
  "dget (inst c) i = Some s \<Longrightarrow> \<not> beating s \<Longrightarrow> le_apply lt (Beat i at d) c = None"
  by (simp add: on_node_def)

abbreviation (input) beats :: "string \<Rightarrow> (int \<times> db_call) list \<Rightarrow> le_event list" where
  "beats i bs \<equiv> map (\<lambda>(at, d). Beat i at d) bs"

text \<open>
  A leader whose lease another instance holds stops at its first heartbeat that reaches the
  database, and at the latest at its third failing one in a row; it then signals shutdown, never
  beats again, and has left the new holder's row alone.
\<close>

theorem usurped_leader_stops:
  assumes "le_reach lt c" "dget (inst c) i = Some s" "is_leader s" "row c = Some l" "holder l \<noteq> i"
    "le_run lt (beats i bs) c = Some c'"
  shows "row c' = row c \<and> (\<exists>s'. dget (inst c') i = Some s' \<and>
    (if is_leader s' then Done \<notin> snd ` set bs \<and> hb_failures s + length bs < 3
     else terminated s' \<and> \<not> beating s'))"
  using assms
proof (induction bs arbitrary: c s)
  case Nil
  then have "hb_failures s < 3"
    using le_invD[OF le_inv_reach[OF Nil(1)] Nil(2)] by (auto simp: inst_ok_def MAX_HB_FAILURES_def)
  with Nil show ?case by simp
next
  case (Cons b bs)
  obtain at d where b: "b = (at, d)" by (cases b)
  from Cons.prems(6) obtain c1 where c1: "le_apply lt (Beat i at d) c = Some c1"
    "le_run lt (beats i bs) c1 = Some c'" by (auto simp: b simp del: le_apply.simps split: option.splits)
  from beat_usurped[OF Cons.prems(1-5) c1(1)] obtain s1 where s1: "row c1 = row c"
    "dget (inst c1) i = Some s1"
    "if is_leader s1 then d \<noteq> Done \<and> hb_failures s1 = Suc (hb_failures s) \<and> hb_failures s1 < 3
     else terminated s1 \<and> \<not> beating s1" by (auto split: option.splits)
  show ?case
  proof (cases "is_leader s1")
    case True
    then show ?thesis
      using Cons.IH[OF le_reach.step[OF Cons.prems(1) c1(1)] s1(2) True _ Cons.prems(5) c1(2)]
        s1 Cons.prems(4) b by auto
  next
    case False
    have "bs = []"
      using beat_stopped[OF s1(2)] False s1(3) c1(2)
      by (cases bs) (auto simp del: le_apply.simps)
    then show ?thesis using False s1 c1(2) by auto
  qed
qed

theorem usurped_leader_stops_witness:
  "\<exists>c'. le_run 30 (beats ''A'' [(50, Fails True), (50, Done)]) taken_over = Some c'
    \<and> row c' = row taken_over \<and> map_option terminated (dget (inst c') ''A'') = Some True"
proof -
  have n: "le_run 30 (beats ''A'' [(50, Fails True), (50, Done)]) taken_over \<noteq> None" by code_simp
  then obtain c' where c': "le_run 30 (beats ''A'' [(50, Fails True), (50, Done)]) taken_over = Some c'"
    by auto
  obtain s where s: "dget (inst taken_over) ''A'' = Some s" "is_leader s"
    by (auto simp: taken_over_def dget_Cons)
  have l: "row taken_over = Some \<lparr>holder = ''B'', acquired_at = 50, heartbeat_at = 50\<rparr>"
    "holder \<lparr>holder = ''B'', acquired_at = 50, heartbeat_at = 50\<rparr> \<noteq> ''A''"
    by (simp_all add: taken_over_def)
  from usurped_leader_stops[OF taken_over_reach s l c'] c' show ?thesis by (auto split: if_splits)
qed

end
