(* ===== verification/Evolution.thy ===== *)
theory Evolution
  imports Prelude Complex_Main "HOL-Library.List_Lexorder" "HOL-Library.Char_ord"
begin

text \<open>
  \<open>host/evolution\<close>: the fitness score of a group, the genome that is adjusted from it, the daily
  cycle over all groups, and the prompt hints derived from load, time and genome, with the
  \<open>evolution_runs\<close>, \<open>group_genome\<close> and \<open>evolution_log\<close> functions of \<open>host/db.py\<close>.

  Floating-point numbers are rationals (type \<open>rat\<close>): the arithmetic is exact and \<open>round(x, n)\<close>
  rounds half to even at the \<open>n\<close>-th decimal.  Times are seconds.  Prompt texts, which are Chinese,
  are the constructors of \<open>env_hint\<close> and \<open>style_hint\<close>; the free-text \<open>notes\<close> column and the JSON
  rendering of the two genomes of a log row are not modelled (the row holds the genomes).
\<close>

section \<open>Numbers\<close>

definition round_half_even :: "rat \<Rightarrow> int" where
  "round_half_even x = (let f = \<lfloor>x\<rfloor>; d = x - of_int f in
     if d < 1 / 2 then f else if 1 / 2 < d then f + 1 else if even f then f else f + 1)"

definition round_to :: "nat \<Rightarrow> rat \<Rightarrow> rat" where
  "round_to n x = of_int (round_half_even (x * 10 ^ n)) / 10 ^ n"

definition clamp01 :: "rat \<Rightarrow> rat" where
  "clamp01 x = max 0 (min 1 x)"

section \<open>Tables\<close>

record run =
  r_jid :: string
  r_id :: string
  r_ms :: "int option"
  r_retries :: int
  r_success :: bool
  r_at :: int

record genome =
  style :: string
  formality :: rat
  depth :: rat
  generation :: int

record evo_event =
  e_jid :: string
  e_type :: string
  e_gen :: "(int \<times> int) option"
  e_fitness :: "rat option"
  e_avg_ms :: "rat option"
  e_genomes :: "(genome \<times> genome) option"

record evo_db =
  runs :: "run list"
  genomes :: "(string, genome) dict"
  elog :: "evo_event list"

text \<open>\<open>INSERT OR IGNORE\<close> on the unique pair of group and run.\<close>

definition record_evolution_run ::
  "int \<Rightarrow> string \<Rightarrow> string \<Rightarrow> int \<Rightarrow> int \<Rightarrow> bool \<Rightarrow> evo_db \<Rightarrow> evo_db" where
  "record_evolution_run now j i ms retries ok db =
     (if (j, i) \<in> (\<lambda>r. (r_jid r, r_id r)) ` set (runs db) then db
      else db\<lparr>runs := runs db @ [\<lparr>r_jid = j, r_id = i, r_ms = Some ms, r_retries = retries,
         r_success = ok, r_at = now\<rparr>]\<rparr>)"

definition get_evolution_runs :: "int \<Rightarrow> string \<Rightarrow> int \<Rightarrow> evo_db \<Rightarrow> run list" where
  "get_evolution_runs now j days db = take 200 (sort_key (\<lambda>r. - r_at r)
     (filter (\<lambda>r. r_jid r = j \<and> r_at r > now - days * 86400) (runs db)))"

text \<open>\<open>history\<close>: the chats and times of the user messages in the \<open>messages\<close> table.\<close>

definition get_active_evolution_jids ::
  "int \<Rightarrow> int \<Rightarrow> (string \<times> int) list \<Rightarrow> evo_db \<Rightarrow> string list" where
  "get_active_evolution_jids now days history db =
     sort (remdups (map r_jid (filter (\<lambda>r. r_at r > now - days * 86400) (runs db))
       @ map fst (filter (\<lambda>(j, t). t > now - days * 86400) history)))"

definition get_recent_run_stats :: "int \<Rightarrow> int \<Rightarrow> evo_db \<Rightarrow> nat \<times> rat option" where
  "get_recent_run_stats now minutes db =
     (let rs = filter (\<lambda>r. r_at r > now - minutes * 60) (runs db);
          ms = List.map_filter r_ms rs in
      (length rs, if ms = [] then None else Some (of_int (sum_list ms) / of_nat (length ms))))"

definition get_group_genome :: "string \<Rightarrow> evo_db \<Rightarrow> genome option" where
  "get_group_genome j db = dget (genomes db) j"

definition DEFAULT_GENOME :: genome where
  "DEFAULT_GENOME = \<lparr>style = ''balanced'', formality = 1 / 2, depth = 1 / 2, generation = 0\<rparr>"

text \<open>The columns an upsert may set, and the \<open>CHECK\<close> constraints of the table.\<close>

datatype genome_field = Style string | Formality rat | Depth rat | Generation int

fun set_field :: "genome_field \<Rightarrow> genome \<Rightarrow> genome" where
  "set_field (Style s) g = g\<lparr>style := s\<rparr>"
| "set_field (Formality x) g = g\<lparr>formality := x\<rparr>"
| "set_field (Depth x) g = g\<lparr>depth := x\<rparr>"
| "set_field (Generation n) g = g\<lparr>generation := n\<rparr>"

definition row_check :: "genome \<Rightarrow> bool" where
  "row_check g = (0 \<le> formality g \<and> formality g \<le> 1 \<and> 0 \<le> depth g \<and> depth g \<le> 1)"

definition upsert_group_genome :: "string \<Rightarrow> genome_field list \<Rightarrow> evo_db \<Rightarrow> evo_db option" where
  "upsert_group_genome j fs db =
     (let old = (case get_group_genome j db of None \<Rightarrow> DEFAULT_GENOME | Some g \<Rightarrow> g);
          g = fold set_field fs old in
      if row_check g then Some (db\<lparr>genomes := dset j g (genomes db)\<rparr>) else None)"

definition log_evolution_event :: "evo_event \<Rightarrow> evo_db \<Rightarrow> evo_db" where
  "log_evolution_event e db = db\<lparr>elog := elog db @ [e]\<rparr>"

text \<open>One transaction: the rollback restores both tables.\<close>

definition upsert_group_genome_with_event ::
  "string \<Rightarrow> genome_field list \<Rightarrow> evo_event \<Rightarrow> evo_db \<Rightarrow> evo_db option" where
  "upsert_group_genome_with_event j fs e db =
     map_option (log_evolution_event e) (upsert_group_genome j fs db)"

definition plain_event :: "string \<Rightarrow> string \<Rightarrow> evo_event" where
  "plain_event j ty = \<lparr>e_jid = j, e_type = ty, e_gen = None, e_fitness = None, e_avg_ms = None,
     e_genomes = None\<rparr>"

section \<open>Fitness\<close>

definition SPEED_TARGET_MS :: rat where "SPEED_TARGET_MS = 5000"
definition SPEED_FLOOR_MS :: rat where "SPEED_FLOOR_MS = 30000"

definition mean :: "int list \<Rightarrow> rat" where
  "mean xs = of_int (sum_list xs) / of_nat (length xs)"

text \<open>The response times of the successful runs; shared with the daemon.\<close>

definition valid_times :: "run list \<Rightarrow> int list" where
  "valid_times rs = List.map_filter (\<lambda>r. case r_ms r of None \<Rightarrow> None
     | Some ms \<Rightarrow> if ms > 0 \<and> r_success r then Some ms else None) rs"

definition speed_score :: "int list \<Rightarrow> rat" where
  "speed_score ms = (if ms = [] then 1 / 2 else
     clamp01 (1 - max 0 (mean ms - SPEED_TARGET_MS) / (SPEED_FLOOR_MS - SPEED_TARGET_MS)))"

definition compute_fitness :: "int \<Rightarrow> string \<Rightarrow> int \<Rightarrow> evo_db \<Rightarrow> rat" where
  "compute_fitness now j days db =
     (let rows = get_evolution_runs now j days db in
      if length rows < 3 then 1 / 2
      else let n = of_nat (length rows) :: rat;
               success_rate = of_nat (length (filter r_success rows)) / n;
               avg_retries = of_int (sum_list (map (\<lambda>r. max 0 (r_retries r)) rows)) / n;
               reliability = 1 / (1 + avg_retries);
               fitness = success_rate * (1 / 2) + speed_score (valid_times rows) * (3 / 10)
                 + reliability * (2 / 10)
           in round_to 4 (clamp01 fitness))"

definition get_system_load :: "int \<Rightarrow> evo_db \<Rightarrow> rat" where
  "get_system_load now db =
     (case get_recent_run_stats now 5 db of (count, avg) \<Rightarrow>
        if count = 0 then 0
        else round_to 4 ((min 1 (of_nat count / 20)
          + min 1 ((case avg of None \<Rightarrow> 0 | Some a \<Rightarrow> a) / SPEED_FLOOR_MS)) / 2))"

section \<open>Genome\<close>

definition CONVERGENCE_EPSILON :: rat where "CONVERGENCE_EPSILON = 1 / 100"

definition update_formality :: "rat \<Rightarrow> rat \<Rightarrow> rat" where
  "update_formality f target =
     (if \<bar>f - target\<bar> < CONVERGENCE_EPSILON then f else f + 5 / 100 * (target - f))"

text \<open>\<open>get_genome\<close> clamps the two numbers it reads.\<close>

definition safe_float :: "rat option \<Rightarrow> rat \<Rightarrow> rat" where
  "safe_float v d = (case v of None \<Rightarrow> d | Some x \<Rightarrow> clamp01 x)"

definition get_genome :: "string \<Rightarrow> evo_db \<Rightarrow> genome" where
  "get_genome j db = (case get_group_genome j db of None \<Rightarrow> DEFAULT_GENOME
     | Some g \<Rightarrow> g\<lparr>formality := safe_float (Some (formality g)) (1 / 2),
                    depth := safe_float (Some (depth g)) (1 / 2)\<rparr>)"

definition styles :: "string list" where
  "styles = [''concise'', ''balanced'', ''detailed'']"

definition is_genome_valid :: "genome \<Rightarrow> bool" where
  "is_genome_valid g = (0 \<le> formality g \<and> formality g \<le> 1 \<and> 0 \<le> depth g \<and> depth g \<le> 1
     \<and> style g \<in> set styles \<and> 0 \<le> generation g)"

definition reset_genome :: "string \<Rightarrow> evo_db \<Rightarrow> evo_db" where
  "reset_genome j db =
     (let gen = (case get_group_genome j db of None \<Rightarrow> 0 | Some g \<Rightarrow> max 0 (generation g)) in
      case upsert_group_genome j [Style (style DEFAULT_GENOME), Formality (formality DEFAULT_GENOME),
             Depth (depth DEFAULT_GENOME), Generation gen] db of
        None \<Rightarrow> db | Some db' \<Rightarrow> db')"

definition evolve_style :: "rat \<Rightarrow> rat \<Rightarrow> string \<Rightarrow> string" where
  "evolve_style fitness ms s =
     (let idx = length (takeWhile (\<lambda>x. x \<noteq> s) styles) in
      if ms > 15000 \<and> fitness < 4 / 10 \<and> idx > 0 then styles ! (idx - 1)
      else if ms < 5000 \<and> fitness > 7 / 10 \<and> idx < 2 then styles ! (idx + 1)
      else s)"

definition evolve_formality :: "rat \<Rightarrow> rat \<Rightarrow> rat \<Rightarrow> rat" where
  "evolve_formality fitness ms f =
     round_to 3 (clamp01
       (if fitness > 7 / 10 \<and> ms < 8000 then update_formality f (7 / 10)
        else if fitness < 4 / 10 then update_formality f (5 / 10) else f))"

definition evolve_depth :: "rat \<Rightarrow> rat \<Rightarrow> rat \<Rightarrow> rat" where
  "evolve_depth fitness ms d =
     round_to 3 (clamp01
       (if fitness > 7 / 10 \<and> ms < 6000 then min 1 (d + 5 / 100)
        else if ms > 20000 \<or> fitness < 3 / 10 then max 0 (d - 5 / 100) else d))"

definition normal_style :: "genome \<Rightarrow> string" where
  "normal_style g = (if style g \<in> set styles then style g else ''balanced'')"

definition next_genome :: "rat \<Rightarrow> rat \<Rightarrow> genome \<Rightarrow> genome" where
  "next_genome q ms g =
     \<lparr>style = evolve_style q ms (normal_style g), formality = evolve_formality q ms (formality g),
      depth = evolve_depth q ms (depth g), generation = generation g + 1\<rparr>"

definition evolve_event :: "string \<Rightarrow> rat \<Rightarrow> rat \<Rightarrow> genome \<Rightarrow> evo_event" where
  "evolve_event j q ms g = \<lparr>e_jid = j,
     e_type = (if style (next_genome q ms g) \<noteq> normal_style g then ''genome_evolved'' else ''genome_unchanged''),
     e_gen = Some (generation g, generation g + 1), e_fitness = Some (round_to 4 q),
     e_avg_ms = Some (round_to 1 ms), e_genomes = Some (g\<lparr>style := normal_style g\<rparr>, next_genome q ms g)\<rparr>"

definition evolve_genome_from_fitness :: "string \<Rightarrow> rat \<Rightarrow> rat \<Rightarrow> evo_db \<Rightarrow> evo_db" where
  "evolve_genome_from_fitness j fitness ms db =
     (let fitness = clamp01 fitness; ms = max 0 ms; g = get_genome j db; g' = next_genome fitness ms g in
      case upsert_group_genome_with_event j [Style (style g'), Formality (formality g'),
             Depth (depth g'), Generation (generation g')] (evolve_event j fitness ms g) db of
        None \<Rightarrow> db | Some db' \<Rightarrow> db')"

section \<open>The cycle\<close>

definition MIN_SAMPLES :: nat where "MIN_SAMPLES = 3"
definition FITNESS_WINDOW_DAYS :: int where "FITNESS_WINDOW_DAYS = 7"

definition evolve_one :: "int \<Rightarrow> string \<Rightarrow> evo_db \<Rightarrow> evo_db" where
  "evolve_one now j db =
     (let rs = get_evolution_runs now j FITNESS_WINDOW_DAYS db in
      if length rs < MIN_SAMPLES then log_evolution_event (plain_event j ''skipped_low_samples'') db
      else
        let db = (if is_genome_valid (get_genome j db) then db
                  else log_evolution_event (plain_event j ''genome_reset'') (reset_genome j db));
            ms = valid_times rs
        in evolve_genome_from_fitness j (compute_fitness now j FITNESS_WINDOW_DAYS db)
             (if ms = [] then 0 else mean ms) db)"

definition sync_evolve :: "int \<Rightarrow> (string \<times> int) list \<Rightarrow> evo_db \<Rightarrow> evo_db" where
  "sync_evolve now history db =
     log_evolution_event (plain_event ''__system__'' ''cycle_end'')
       (fold (evolve_one now) (get_active_evolution_jids now FITNESS_WINDOW_DAYS history db)
         (log_evolution_event (plain_event ''__system__'' ''cycle_start'') db))"

section \<open>Prompt hints\<close>

datatype env_hint = Busy rat | Late_night | Morning | Evening | Weekend

definition time_hint :: "nat \<Rightarrow> env_hint list" where
  "time_hint hour = (if hour < 6 then [Late_night] else if hour < 9 then [Morning]
     else if 21 \<le> hour \<and> hour < 24 then [Evening] else [])"

definition get_adaptive_hints :: "int \<Rightarrow> nat \<Rightarrow> nat \<Rightarrow> evo_db \<Rightarrow> env_hint list" where
  "get_adaptive_hints now hour weekday db =
     (let load = get_system_load now db in
      (if load > 7 / 10 then [Busy load] else []) @ time_hint hour
        @ (if weekday \<ge> 5 then [Weekend] else []))"

datatype style_hint = Concise | Detailed | Formal | Casual | Expert | Plain_words

definition get_genome_style_hints :: "string \<Rightarrow> evo_db \<Rightarrow> (int \<times> style_hint list) option" where
  "get_genome_style_hints j db =
     (let g = get_genome j db;
          hints = (if style g = ''concise'' then [Concise] else if style g = ''detailed'' then [Detailed] else [])
            @ (if formality g > 7 / 10 then [Formal] else if formality g < 3 / 10 then [Casual] else [])
            @ (if depth g > 7 / 10 then [Expert] else if depth g < 3 / 10 then [Plain_words] else []) in
      if hints = [] then None else Some (generation g, hints))"


section \<open>Rounding and clamping\<close>

lemma round_half_even_cases: "round_half_even x = \<lfloor>x\<rfloor> \<or> (round_half_even x = \<lfloor>x\<rfloor> + 1 \<and> of_int \<lfloor>x\<rfloor> < x)"
  by (auto simp: round_half_even_def Let_def)

lemma round_half_even_ge: "of_int a \<le> x \<Longrightarrow> a \<le> round_half_even x"
  using round_half_even_cases[of x] le_floor_iff[of a x] by linarith

lemma round_half_even_le:
  assumes "x \<le> of_int b"
  shows "round_half_even x \<le> b"
proof -
  have "\<lfloor>x\<rfloor> \<le> b" using floor_mono[OF assms] by simp
  moreover have "\<lfloor>x\<rfloor> < b" if "of_int \<lfloor>x\<rfloor> < x"
    using that assms by linarith
  ultimately show ?thesis using round_half_even_cases[of x] by linarith
qed

lemma round_to_between:
  assumes "of_int a / 10 ^ n \<le> x" "x \<le> of_int b / 10 ^ n"
  shows "of_int a / 10 ^ n \<le> round_to n x \<and> round_to n x \<le> of_int b / 10 ^ n"
proof -
  have p: "(0::rat) < 10 ^ n" by simp
  have "of_int a \<le> x * 10 ^ n" "x * 10 ^ n \<le> of_int b"
    using assms p by (simp_all add: divide_le_eq le_divide_eq)
  then have "a \<le> round_half_even (x * 10 ^ n)" "round_half_even (x * 10 ^ n) \<le> b"
    by (auto intro: round_half_even_ge round_half_even_le)
  then show ?thesis by (simp add: round_to_def divide_right_mono)
qed

lemma clamp01_bounds [simp]: "0 \<le> clamp01 x" "clamp01 x \<le> 1"
  by (auto simp: clamp01_def)

lemma clamp01_id: "0 \<le> x \<Longrightarrow> x \<le> 1 \<Longrightarrow> clamp01 x = x"
  by (auto simp: clamp01_def)

lemma round_unit: "0 \<le> x \<Longrightarrow> x \<le> 1 \<Longrightarrow> 0 \<le> round_to n x \<and> round_to n x \<le> 1"
  using round_to_between[of 0 n x "10 ^ n"] by simp

section \<open>Properties of one evaluation\<close>

lemma update_formality_between:
  "lo \<le> f \<Longrightarrow> f \<le> hi \<Longrightarrow> lo \<le> t \<Longrightarrow> t \<le> hi \<Longrightarrow>
    lo \<le> update_formality f t \<and> update_formality f t \<le> hi"
  by (auto simp: update_formality_def field_simps)

definition settled :: "genome \<Rightarrow> bool" where
  "settled g = (is_genome_valid g \<and> 1 / 2 \<le> formality g \<and> formality g \<le> 7 / 10)"

lemma evolve_formality_unit: "0 \<le> evolve_formality q ms f \<and> evolve_formality q ms f \<le> 1"
  unfolding evolve_formality_def by (rule round_unit) simp_all

lemma evolve_formality_settled:
  assumes "1 / 2 \<le> f" "f \<le> 7 / 10"
  shows "1 / 2 \<le> evolve_formality q ms f \<and> evolve_formality q ms f \<le> 7 / 10"
proof -
  let ?x = "if q > 7 / 10 \<and> ms < 8000 then update_formality f (7 / 10)
        else if q < 4 / 10 then update_formality f (5 / 10) else f"
  have x: "1 / 2 \<le> ?x" "?x \<le> 7 / 10"
    using update_formality_between[of "1/2" f "7/10" "7/10"] update_formality_between[of "1/2" f "7/10" "5/10"]
      assms by auto
  then have "clamp01 ?x = ?x" by (intro clamp01_id) linarith+
  then show ?thesis
    using round_to_between[of 500 3 ?x 700] x by (simp add: evolve_formality_def)
qed

lemma evolve_depth_unit: "0 \<le> evolve_depth q ms d \<and> evolve_depth q ms d \<le> 1"
  unfolding evolve_depth_def by (rule round_unit) simp_all

lemma evolve_style_valid: "s \<in> set styles \<Longrightarrow> evolve_style q ms s \<in> set styles"
  by (auto simp: evolve_style_def styles_def)

lemma get_genome_row: "row_check (get_genome j db)"
  by (auto simp: get_genome_def row_check_def safe_float_def DEFAULT_GENOME_def split: option.splits)

lemma next_genome_row: "row_check (next_genome q ms g)"
  using evolve_formality_unit evolve_depth_unit by (simp add: row_check_def next_genome_def)

lemma set_all: "fold set_field [Style (style g), Formality (formality g), Depth (depth g),
    Generation (generation g)] old = g"
  by (cases g; cases old) simp

lemma upsert_all: "upsert_group_genome j [Style (style g), Formality (formality g), Depth (depth g),
      Generation (generation g)] db
    = (if row_check g then Some (db\<lparr>genomes := dset j g (genomes db)\<rparr>) else None)"
  by (simp only: upsert_group_genome_def set_all Let_def)

lemma evolve_genome_spec: "evolve_genome_from_fitness j q ms db =
    db\<lparr>genomes := dset j (next_genome (clamp01 q) (max 0 ms) (get_genome j db)) (genomes db),
       elog := elog db @ [evolve_event j (clamp01 q) (max 0 ms) (get_genome j db)]\<rparr>"
  using next_genome_row[of "clamp01 q" "max 0 ms" "get_genome j db"]
  by (simp only: evolve_genome_from_fitness_def upsert_group_genome_with_event_def upsert_all
      log_evolution_event_def Let_def if_True option.map option.case) simp

lemma reset_genome_spec: "reset_genome j db = db\<lparr>genomes := dset j (DEFAULT_GENOME\<lparr>generation :=
      (case get_group_genome j db of None \<Rightarrow> 0 | Some g \<Rightarrow> max 0 (generation g))\<rparr>) (genomes db)\<rparr>"
  using upsert_all[of j "DEFAULT_GENOME\<lparr>generation :=
      (case get_group_genome j db of None \<Rightarrow> 0 | Some g \<Rightarrow> max 0 (generation g))\<rparr>" db]
  by (simp add: reset_genome_def Let_def row_check_def DEFAULT_GENOME_def)

lemma settled_default: "settled DEFAULT_GENOME"
  by (simp add: settled_def is_genome_valid_def DEFAULT_GENOME_def styles_def)

lemma settled_next: "settled g \<Longrightarrow> settled (next_genome q ms g)"
  using evolve_formality_settled[of "formality g" q ms] evolve_depth_unit[of q ms "depth g"]
    evolve_style_valid[of "style g" q ms]
  by (auto simp: settled_def next_genome_def is_genome_valid_def normal_style_def)

definition all_settled :: "evo_db \<Rightarrow> bool" where
  "all_settled db = (\<forall>j g. dget (genomes db) j = Some g \<longrightarrow> settled g)"

lemma clamp_settled: "settled g \<Longrightarrow> clamp01 (formality g) = formality g \<and> clamp01 (depth g) = depth g"
  by (auto simp: settled_def is_genome_valid_def clamp01_id)

lemma get_genome_settled: "all_settled db \<Longrightarrow> settled (get_genome j db)"
  using clamp_settled
  by (auto simp: get_genome_def get_group_genome_def all_settled_def settled_default safe_float_def
      split: option.splits)

lemma evolve_one_cases:
  assumes "settled (get_genome j db)"
  shows "evolve_one now j db =
    (let rs = get_evolution_runs now j FITNESS_WINDOW_DAYS db in
     if length rs < 3 then log_evolution_event (plain_event j ''skipped_low_samples'') db
     else evolve_genome_from_fitness j (compute_fitness now j FITNESS_WINDOW_DAYS db)
       (if valid_times rs = [] then 0 else mean (valid_times rs)) db)"
  using assms by (simp add: evolve_one_def MIN_SAMPLES_def settled_def Let_def)

lemma evolve_one_frame:
  assumes "all_settled db"
  shows "all_settled (evolve_one now j db) \<and> runs (evolve_one now j db) = runs db"
proof -
  note g = get_genome_settled[OF assms, of j]
  show ?thesis
    using assms settled_next[OF g]
    by (auto simp: evolve_one_cases[OF g] Let_def log_evolution_event_def all_settled_def evolve_genome_spec)
qed

lemma log_frame [simp]: "genomes (log_evolution_event e db) = genomes db"
  "runs (log_evolution_event e db) = runs db"
  by (simp_all add: log_evolution_event_def)

lemma all_settled_log [simp]: "all_settled (log_evolution_event e db) = all_settled db"
  by (simp add: all_settled_def)

interpretation groups: preserved "evolve_one now" all_settled for now
  by unfold_locales (simp add: evolve_one_frame)

text \<open>What happens to the evolution tables: container runs are recorded and cycles take place.\<close>

datatype evo_op = Record_run int string string int int bool | Cycle int "(string \<times> int) list"

fun evo_apply :: "evo_op \<Rightarrow> evo_db \<Rightarrow> evo_db" where
  "evo_apply (Record_run now j i ms retries ok) db = record_evolution_run now j i ms retries ok db"
| "evo_apply (Cycle now history) db = sync_evolve now history db"

lemma evo_apply_settled: "all_settled db \<Longrightarrow> all_settled (evo_apply op db)"
  by (cases op) (simp_all add: sync_evolve_def groups.history_kept record_evolution_run_def all_settled_def[of "_\<lparr>runs := _\<rparr>"],
    simp add: all_settled_def)

interpretation evo: preserved evo_apply all_settled
  by unfold_locales (rule evo_apply_settled)

definition empty_evo :: evo_db where
  "empty_evo = \<lparr>runs = [], genomes = [], elog = []\<rparr>"

text \<open>
  C7: Over any history of runs and cycles every stored genome stays valid (numbers in their range,
  a known style, a generation that is not negative), so the daemon never resets one; and its
  formality never leaves the interval from 0.5 to 0.7, so the prompt hints for a formal (above 0.7)
  or casual (below 0.3) tone are never given.
\<close>

theorem evolution_keeps_genomes_valid:
  "is_genome_valid (get_genome j (fold evo_apply ops empty_evo))
    \<and> 1 / 2 \<le> formality (get_genome j (fold evo_apply ops empty_evo))
    \<and> formality (get_genome j (fold evo_apply ops empty_evo)) \<le> 7 / 10
    \<and> (\<exists>gen hints. get_genome_style_hints j (fold evo_apply ops empty_evo) \<in> {None, Some (gen, hints)}
         \<and> Formal \<notin> set hints \<and> Casual \<notin> set hints)"
proof -
  let ?db = "fold evo_apply ops empty_evo"
  have "all_settled empty_evo" by (simp add: all_settled_def empty_evo_def)
  then have s: "settled (get_genome j ?db)" by (intro get_genome_settled evo.history_kept)
  then have f: "\<not> 7 / 10 < formality (get_genome j ?db)" "\<not> formality (get_genome j ?db) < 3 / 10"
    by (auto simp: settled_def)
  have "\<exists>gen hints. get_genome_style_hints j ?db \<in> {None, Some (gen, hints)}
      \<and> Formal \<notin> set hints \<and> Casual \<notin> set hints"
  proof (cases "get_genome_style_hints j ?db")
    case None
    have "Formal \<notin> set []" "Casual \<notin> set []" by simp_all
    with None show ?thesis by blast
  next
    case (Some p)
    obtain gen hints where p: "p = (gen, hints)" by (cases p)
    have "Formal \<notin> set hints \<and> Casual \<notin> set hints"
      using Some f by (auto simp: get_genome_style_hints_def Let_def p split: if_splits)
    with Some p show ?thesis by blast
  qed
  with s show ?thesis by (simp add: settled_def)
qed

lemma style_index: "s \<in> set styles \<Longrightarrow> \<exists>i k. i < 3 \<and> k < 3 \<and> styles ! i = s
    \<and> styles ! k = evolve_style q ms s \<and> (k = i \<or> k = Suc i \<or> i = Suc k)"
proof -
  assume "s \<in> set styles"
  then consider "s = styles ! 0" | "s = styles ! 1" | "s = styles ! 2" by (auto simp: styles_def)
  then show ?thesis
  proof cases
    case 1
    then have "evolve_style q ms s \<in> {styles ! 0, styles ! 1}" by (auto simp: evolve_style_def styles_def)
    with 1 show ?thesis by (metis One_nat_def insertE singletonD zero_less_numeral one_less_numeral_iff numerals(1) semiring_norm(77))
  next
    case 2
    then have "evolve_style q ms s \<in> {styles ! 0, styles ! 1, styles ! 2}"
      by (auto simp: evolve_style_def styles_def)
    with 2 show ?thesis by (metis One_nat_def Suc_1 insertE singletonD zero_less_numeral one_less_numeral_iff semiring_norm(77) lessI numeral_3_eq_3)
  next
    case 3
    then have "evolve_style q ms s \<in> {styles ! 1, styles ! 2}" by (auto simp: evolve_style_def styles_def)
    with 3 show ?thesis by (metis One_nat_def Suc_1 insertE singletonD one_less_numeral_iff semiring_norm(77) lessI numeral_3_eq_3)
  qed
qed

text \<open>
  Evaluating a group with three or more runs advances its generation by exactly one, moves its
  style by at most one position, and leaves one log row that records exactly the stored genome; a
  group with fewer runs, in particular one that only has chat history, is logged as skipped and
  keeps its genome (so the cold-start groups the query adds are never given one); no evaluation
  touches another group.
\<close>

theorem evolution_step:
  assumes "settled (get_genome j db)"
  shows "\<exists>e. elog (evolve_one now j db) = elog db @ [e] \<and> e_jid e = j
    \<and> (if length (get_evolution_runs now j 7 db) < 3
       then genomes (evolve_one now j db) = genomes db \<and> e_gen e = None
       else let g = get_genome j db; g' = get_genome j (evolve_one now j db) in
         generation g' = generation g + 1 \<and> e_gen e = Some (generation g, generation g')
         \<and> e_genomes e = Some (g, g') \<and> dget (genomes (evolve_one now j db)) j = Some g'
         \<and> (\<exists>i k. i < 3 \<and> k < 3 \<and> styles ! i = style g \<and> styles ! k = style g'
              \<and> (k = i \<or> k = Suc i \<or> i = Suc k)))
    \<and> (\<forall>k. k \<noteq> j \<longrightarrow> get_genome k (evolve_one now j db) = get_genome k db)"
proof (cases "length (get_evolution_runs now j 7 db) < 3")
  case True
  then have "evolve_one now j db = log_evolution_event (plain_event j ''skipped_low_samples'') db"
    by (simp add: evolve_one_cases[OF assms] FITNESS_WINDOW_DAYS_def)
  with True show ?thesis
    by (simp add: log_evolution_event_def plain_event_def get_genome_def get_group_genome_def)
next
  case False
  let ?g = "get_genome j db"
  have n: "normal_style ?g = style ?g" "?g\<lparr>style := style ?g\<rparr> = ?g"
    using assms by (simp_all add: settled_def is_genome_valid_def normal_style_def)
  obtain q ms where e: "evolve_one now j db = db\<lparr>genomes := dset j (next_genome q ms ?g) (genomes db),
       elog := elog db @ [evolve_event j q ms ?g]\<rparr>"
    using False by (simp add: evolve_one_cases[OF assms] FITNESS_WINDOW_DAYS_def Let_def evolve_genome_spec)
  have g': "get_genome j (evolve_one now j db) = next_genome q ms ?g"
    using clamp_settled[OF settled_next[OF assms, of q ms]]
    by (simp add: e get_genome_def get_group_genome_def safe_float_def)
  have o: "get_genome k (evolve_one now j db) = get_genome k db" if "k \<noteq> j" for k
    using that by (simp add: e get_genome_def get_group_genome_def)
  have "style ?g \<in> set styles" using assms by (simp add: settled_def is_genome_valid_def)
  from style_index[OF this, of q ms] have st: "\<exists>i k. i < 3 \<and> k < 3 \<and> styles ! i = style ?g
      \<and> styles ! k = style (next_genome q ms ?g) \<and> (k = i \<or> k = Suc i \<or> i = Suc k)"
    by (simp add: next_genome_def n)
  have ev: "elog (evolve_one now j db) = elog db @ [evolve_event j q ms ?g]"
    "e_jid (evolve_event j q ms ?g) = j"
    "e_gen (evolve_event j q ms ?g) = Some (generation ?g, generation (next_genome q ms ?g))"
    "e_genomes (evolve_event j q ms ?g) = Some (?g, next_genome q ms ?g)"
    "generation (next_genome q ms ?g) = generation ?g + 1"
    "dget (genomes (evolve_one now j db)) j = Some (next_genome q ms ?g)"
    by (simp_all add: e evolve_event_def n) (simp add: next_genome_def)+
  show ?thesis
    by (rule exI[of _ "evolve_event j q ms ?g"]) (use False g' o st ev in \<open>simp add: Let_def\<close>)
qed

definition fast_runs :: evo_db where
  "fast_runs = fold (\<lambda>i. record_evolution_run 1000 ''g'' i 2000 0 True) [''r1'', ''r2'', ''r3'', ''r1''] empty_evo"

lemma fast_runs_state: "length (get_evolution_runs 2000 ''g'' 7 fast_runs) = 3"
  "get_genome ''g'' fast_runs = DEFAULT_GENOME"
  by code_simp+

theorem evolution_step_witness:
  "\<exists>e. elog (evolve_one 2000 ''g'' fast_runs) = elog fast_runs @ [e] \<and> e_gen e = Some (0, 1)"
proof -
  have "settled (get_genome ''g'' fast_runs)" by (simp add: fast_runs_state settled_default)
  from evolution_step[OF this, of 2000] show ?thesis
    by (auto simp: fast_runs_state Let_def, auto simp: DEFAULT_GENOME_def)
qed

section \<open>Bounds of the scores\<close>

lemma mean_le: "ms \<noteq> [] \<Longrightarrow> \<forall>m \<in> set ms. m \<le> b \<Longrightarrow> mean ms \<le> of_int b"
proof -
  assume a: "ms \<noteq> []" "\<forall>m \<in> set ms. m \<le> b"
  have "sum_list ms \<le> b * int (length ms)" using a(2) by (induction ms) (auto simp: algebra_simps)
  then have "(of_int (sum_list ms) :: rat) \<le> of_int (b * int (length ms))" by (rule of_int_le_iff[THEN iffD2])
  with a(1) show ?thesis by (simp add: mean_def divide_le_eq)
qed

lemma speed_unit: "0 \<le> speed_score ms \<and> speed_score ms \<le> 1"
  by (simp add: speed_score_def)

lemma retries_nonneg: "0 \<le> (of_int (sum_list (map (\<lambda>r. max 0 (r_retries r)) rs)) :: rat) / of_nat n"
proof -
  have "0 \<le> sum_list (map (\<lambda>r. max 0 (r_retries r)) rs)" by (induction rs) auto
  then show ?thesis by simp
qed

lemma round_to_id: "x * 10 ^ n = of_int k \<Longrightarrow> round_to n x = x"
proof -
  assume x: "x * 10 ^ n = of_int k"
  then have "round_to n x = of_int k / 10 ^ n" by (simp add: round_to_def round_half_even_def)
  also have "\<dots> = x" using x[symmetric] by simp
  finally show ?thesis .
qed

lemma round_to_le: "x \<le> of_int b / 10 ^ n \<Longrightarrow> round_to n x \<le> of_int b / 10 ^ n"
proof -
  assume "x \<le> of_int b / 10 ^ n"
  then have "x * 10 ^ n \<le> of_int b" by (simp add: le_divide_eq)
  then have "round_half_even (x * 10 ^ n) \<le> b" by (rule round_half_even_le)
  then show ?thesis by (simp add: round_to_def divide_right_mono)
qed

definition perfect_run :: "run \<Rightarrow> bool" where
  "perfect_run r = (r_success r \<and> r_retries r \<le> 0 \<and> (case r_ms r of None \<Rightarrow> False | Some ms \<Rightarrow> 0 < ms \<and> ms \<le> 5000))"

lemma perfect_times: "list_all perfect_run rs \<Longrightarrow> length (valid_times rs) = length rs
    \<and> (\<forall>m \<in> set (valid_times rs). m \<le> 5000)"
  by (induction rs) (auto simp: valid_times_def List.map_filter_simps perfect_run_def split: option.splits)

lemma perfect_speed: "rs \<noteq> [] \<Longrightarrow> list_all perfect_run rs \<Longrightarrow> speed_score (valid_times rs) = 1"
  using perfect_times[of rs] mean_le[of "valid_times rs" 5000]
  by (cases "rs = []") (auto simp: speed_score_def SPEED_TARGET_MS_def SPEED_FLOOR_MS_def clamp01_def
      valid_times_def List.map_filter_simps)

lemma perfect_counts: "list_all perfect_run rs \<Longrightarrow> filter r_success rs = rs
    \<and> sum_list (map (\<lambda>r. max 0 (r_retries r)) rs) = 0"
  by (induction rs) (auto simp: perfect_run_def)

lemma no_success: "list_all (\<lambda>r. \<not> r_success r) rs \<Longrightarrow> filter r_success rs = [] \<and> valid_times rs = []"
  by (induction rs) (auto simp: valid_times_def List.map_filter_simps split: option.splits)

lemma reliability_le: "0 \<le> x \<Longrightarrow> 1 / (1 + x) \<le> (1::rat)"
  by (simp add: divide_le_eq)

lemma failed_score_le: "x \<le> 1 \<Longrightarrow> clamp01 (3 / 20 + x * (2 / 10)) \<le> 7 / 20"
  unfolding clamp01_def by (rule max.boundedI, simp, rule order_trans[OF min.cobounded2]) linarith

lemma fitness_failed:
  assumes "3 \<le> length (get_evolution_runs now j d db)"
    "list_all (\<lambda>r. \<not> r_success r) (get_evolution_runs now j d db)"
  shows "compute_fitness now j d db \<le> 7 / 20"
proof -
  let ?rs = "get_evolution_runs now j d db"
  let ?ar = "of_int (sum_list (map (\<lambda>r. max 0 (r_retries r)) ?rs)) / of_nat (length ?rs) :: rat"
  have f: "compute_fitness now j d db = round_to 4 (clamp01 (3 / 20 + 1 / (1 + ?ar) * (2 / 10)))"
    using assms(1) no_success[OF assms(2)] by (simp add: compute_fitness_def Let_def speed_score_def)
  have "1 / (1 + ?ar) \<le> 1" using retries_nonneg by (rule reliability_le)
  then have "clamp01 (3 / 20 + 1 / (1 + ?ar) * (2 / 10)) \<le> 7 / 20" by (rule failed_score_le)
  then show ?thesis using round_to_le[of "clamp01 (3 / 20 + 1 / (1 + ?ar) * (2 / 10))" 3500 4] by (simp add: f)
qed

text \<open>
  The fitness score lies between 0 and 1 and means what its three parts intend: neutral with
  fewer than three runs, 1 for runs that all succeed at once and in time, at most 0.35 (below every
  threshold that rewards a genome) when none succeeds, whatever the recorded times and retries.
\<close>

theorem fitness_bounds:
  "0 \<le> compute_fitness now j d db \<and> compute_fitness now j d db \<le> 1
    \<and> (let rs = get_evolution_runs now j d db in
       (length rs < 3 \<longrightarrow> compute_fitness now j d db = 1 / 2)
       \<and> (3 \<le> length rs \<and> list_all perfect_run rs \<longrightarrow> compute_fitness now j d db = 1)
       \<and> (3 \<le> length rs \<and> list_all (\<lambda>r. \<not> r_success r) rs \<longrightarrow> compute_fitness now j d db \<le> 7 / 20))"
proof -
  let ?rs = "get_evolution_runs now j d db"
  have b: "0 \<le> compute_fitness now j d db \<and> compute_fitness now j d db \<le> 1"
    by (simp add: compute_fitness_def Let_def round_unit)
  have "compute_fitness now j d db = 1" if l: "3 \<le> length ?rs" "list_all perfect_run ?rs"
  proof -
    have "?rs \<noteq> []" "(of_nat (length ?rs) :: rat) \<noteq> 0" using l(1) by auto
    then have "compute_fitness now j d db = round_to 4 (clamp01 1)"
      using l perfect_counts[OF l(2)] perfect_speed[OF _ l(2)] by (simp add: compute_fitness_def Let_def)
    then show ?thesis by (simp add: clamp01_def round_to_id[of 1 4 10000])
  qed
  with b fitness_failed[of now j d db] show ?thesis
    by (simp add: Let_def compute_fitness_def[of now j d db])
qed

theorem fitness_bounds_witness: "compute_fitness 2000 ''g'' 7 fast_runs = 1"
proof -
  have "3 \<le> length (get_evolution_runs 2000 ''g'' 7 fast_runs)"
    "list_all perfect_run (get_evolution_runs 2000 ''g'' 7 fast_runs)" by code_simp+
  then show ?thesis using fitness_bounds[of 2000 "''g''" 7 fast_runs] by (auto simp: Let_def)
qed

text \<open>
  The busy hint is given exactly when the load exceeds 0.7, which is a number up to 1 (and not
  negative when no negative time was recorded); the time-of-day hint is one of at most three, and a
  run recorded twice under one identifier counts once.
\<close>

theorem load_and_hints:
  "get_system_load now db \<le> 1
    \<and> ((\<forall>r \<in> set (runs db). case r_ms r of None \<Rightarrow> True | Some ms \<Rightarrow> 0 \<le> ms) \<longrightarrow> 0 \<le> get_system_load now db)
    \<and> ((\<exists>l. Busy l \<in> set (get_adaptive_hints now hour day db)) \<longleftrightarrow> 7 / 10 < get_system_load now db)
    \<and> length (get_adaptive_hints now hour day db) \<le> 3
    \<and> record_evolution_run t' j i ms' k' ok' (record_evolution_run t j i ms k ok db)
      = record_evolution_run t j i ms k ok db"
proof -
  obtain n a where s: "get_recent_run_stats now 5 db = (n, a)" by fastforce
  let ?x = "(min 1 (of_nat n / 20) + min 1 ((case a of None \<Rightarrow> 0 | Some a \<Rightarrow> a) / SPEED_FLOOR_MS)) / (2::rat)"
  have l: "get_system_load now db = (if n = 0 then 0 else round_to 4 ?x)"
    by (simp add: get_system_load_def s)
  have "?x \<le> 1" by (simp add: min_def)
  then have 1: "get_system_load now db \<le> 1" using round_to_le[of ?x 10000 4] by (simp add: l)
  have 2: "0 \<le> get_system_load now db"
    if nn: "\<forall>r \<in> set (runs db). case r_ms r of None \<Rightarrow> True | Some ms \<Rightarrow> 0 \<le> ms"
  proof -
    have "0 \<le> sum_list (List.map_filter r_ms rs)" if "set rs \<subseteq> set (runs db)" for rs
      using that nn by (induction rs) (auto simp: List.map_filter_simps split: option.splits)
    then have "0 \<le> (case a of None \<Rightarrow> 0 | Some a \<Rightarrow> a)"
      using s by (auto simp: get_recent_run_stats_def Let_def split: if_splits)
    then have "0 \<le> ?x" by (simp add: SPEED_FLOOR_MS_def)
    with \<open>?x \<le> 1\<close> show ?thesis using round_unit[of ?x 4] by (simp add: l)
  qed
  have 3: "(\<exists>l. Busy l \<in> set (get_adaptive_hints now hour day db)) \<longleftrightarrow> 7 / 10 < get_system_load now db"
    "length (get_adaptive_hints now hour day db) \<le> 3"
    by (auto simp: get_adaptive_hints_def time_hint_def Let_def)
  show ?thesis using 1 2 3 by (auto simp: record_evolution_run_def)
qed

theorem load_and_hints_witness: "0 \<le> get_system_load 2000 fast_runs"
proof -
  have "\<forall>r \<in> set (runs fast_runs). case r_ms r of None \<Rightarrow> True | Some ms \<Rightarrow> 0 \<le> ms" by code_simp
  then show ?thesis using load_and_hints[of 2000 fast_runs] by blast
qed

end
