(* ===== verification/Router.thy ===== *)
theory Router
  imports Prelude
begin

text \<open>
  \<open>host/router.py\<close>: rendering of chat messages for the agent's prompt, removal of the agent's
  internal notes from what it answers, splitting of long answers, and delivery through the channel
  that owns the chat, with retries.

  A channel is the record \<open>channel\<close>; whether its \<open>n\<close>-th call raises is the argument \<open>raises n\<close>.  What
  the user receives is a list of \<open>sent\<close>: chunks, files and the notices the router sends itself.  The
  rendering of a time in a zone is the argument \<open>time_str\<close>.
\<close>

section \<open>Rendering for the prompt\<close>

definition xml_char :: "char \<Rightarrow> string" where
  "xml_char c = (if c = CHR ''&'' then ''&amp;'' else if c = CHR ''<'' then ''&lt;''
     else if c = CHR ''>'' then ''&gt;'' else if c = CHR 0x22 then ''&quot;''
     else if c = CHR 0x27 then ''&apos;'' else [c])"

definition escape_xml :: "string \<Rightarrow> string" where
  "escape_xml s = concat (map xml_char s)"

record chat_message =
  cm_sender_name :: "string option"
  cm_sender :: "string option"
  cm_content :: "string option"
  cm_timestamp :: int

text \<open>\<open>a or b\<close> on optional strings.\<close>

definition or_else :: "string option \<Rightarrow> string \<Rightarrow> string" where
  "or_else a b = (case a of None \<Rightarrow> b | Some s \<Rightarrow> if s = [] then b else s)"

definition message_line :: "(int \<Rightarrow> string) \<Rightarrow> chat_message \<Rightarrow> string" where
  "message_line time_str m =
     ''<message sender='' @ [CHR 0x22]
       @ escape_xml (or_else (cm_sender_name m) (or_else (cm_sender m) ''Unknown''))
       @ [CHR 0x22] @ '' time='' @ [CHR 0x22] @ time_str (cm_timestamp m) @ [CHR 0x22] @ ''>''
       @ escape_xml (or_else (cm_content m) []) @ ''</message>''"

definition format_messages :: "(int \<Rightarrow> string) \<Rightarrow> string \<Rightarrow> chat_message list \<Rightarrow> string" where
  "format_messages time_str tz ms = join [CHR 0x0A]
     ([''<context timezone='' @ [CHR 0x22] @ tz @ [CHR 0x22] @ '' />'', ''<messages>'']
      @ map (message_line time_str) ms @ [''</messages>''])"

section \<open>Internal notes\<close>

definition OPEN_TAG :: string where "OPEN_TAG = ''<internal>''"
definition CLOSE_TAG :: string where "CLOSE_TAG = ''</internal>''"

text \<open>The text after the first occurrence of \<open>p\<close>.\<close>

fun after :: "string \<Rightarrow> string \<Rightarrow> string option" where
  "after p [] = (if p = [] then Some [] else None)"
| "after p (c # s) = (if prefix p (c # s) then Some (drop (length p) (c # s)) else after p s)"

lemma after_length: "after p s = Some r \<Longrightarrow> length r \<le> length s"
  by (induction s) (auto split: if_splits)

text \<open>\<open>re.sub\<close> of \<open><internal>.*?</internal>\<close> with \<open>DOTALL\<close> by the empty string.\<close>

function remove_internal :: "string \<Rightarrow> string" where
  "remove_internal [] = []"
| "remove_internal (c # s) =
     (if prefix OPEN_TAG (c # s)
      then case after CLOSE_TAG (drop (length OPEN_TAG) (c # s)) of
             Some r \<Rightarrow> remove_internal r
           | None \<Rightarrow> c # remove_internal s
      else c # remove_internal s)"
  by pat_completeness auto
termination
  by (relation "measure length") (auto simp: OPEN_TAG_def dest!: after_length)

definition strip_internal_tags :: "string \<Rightarrow> string" where
  "strip_internal_tags s = strip (remove_internal s)"

definition format_outbound :: "string \<Rightarrow> string" where
  "format_outbound s = strip_internal_tags s"

section \<open>Splitting\<close>

text \<open>\<open>text.rfind(newline, 0, n)\<close>: the last newline among the first \<open>n\<close> characters.\<close>

definition rfind_newline :: "nat \<Rightarrow> string \<Rightarrow> nat option" where
  "rfind_newline n s = (case filter (\<lambda>i. s ! i = CHR 0x0A) [0..<min n (length s)] of
      [] \<Rightarrow> None | is \<Rightarrow> Some (last is))"

definition TELEGRAM_MAX_LEN :: nat where "TELEGRAM_MAX_LEN = 4000"

text \<open>The \<open>while\<close> loop, which does not end for \<open>max_len = 0\<close>.\<close>

partial_function (option) split_loop :: "nat \<Rightarrow> string \<Rightarrow> string list option" where
  "split_loop n s =
     (if s = [] then Some []
      else if length s \<le> n then Some [s]
      else let k = (case rfind_newline n s of None \<Rightarrow> n | Some i \<Rightarrow> i) in
        Option.bind (split_loop n (dropWhile (\<lambda>c. c = CHR 0x0A) (drop k s)))
          (\<lambda>cs. Some (rstrip (take k s) # cs)))"

definition split_message :: "nat \<Rightarrow> string \<Rightarrow> string list option" where
  "split_message n s = (if length s \<le> n then Some [s]
     else map_option (filter (\<lambda>c. c \<noteq> [])) (split_loop n s))"

section \<open>Channels\<close>

record channel =
  ch_name :: string
  ch_owns :: "string \<Rightarrow> bool"

definition register_channel :: "channel \<Rightarrow> channel list \<Rightarrow> channel list" where
  "register_channel ch cs = cs @ [ch]"

definition find_channel :: "string \<Rightarrow> channel list \<Rightarrow> channel option" where
  "find_channel jid cs = List.find (\<lambda>c. ch_owns c jid) cs"

datatype sent =
    Chunk string
  | Truncated nat
  | Delivery_failed
  | File string string
  | File_not_found
  | File_too_big

text \<open>State of a delivery: calls made to the channel, and what went through.\<close>

record delivery =
  n_calls :: nat
  outbox :: "sent list"

definition call :: "(nat \<Rightarrow> bool) \<Rightarrow> sent \<Rightarrow> delivery \<Rightarrow> delivery \<times> bool" where
  "call raises x d = (if raises (n_calls d) then (d\<lparr>n_calls := Suc (n_calls d)\<rparr>, False)
     else (d\<lparr>n_calls := Suc (n_calls d), outbox := outbox d @ [x]\<rparr>, True))"

definition CHUNK_MAX_RETRIES :: nat where "CHUNK_MAX_RETRIES = 2"

fun attempts :: "(nat \<Rightarrow> bool) \<Rightarrow> nat \<Rightarrow> sent \<Rightarrow> delivery \<Rightarrow> delivery \<times> bool" where
  "attempts raises 0 x d = (d, False)"
| "attempts raises (Suc k) x d = (case call raises x d of
     (d, True) \<Rightarrow> (d, True) | (d, False) \<Rightarrow> attempts raises k x d)"

fun send_chunks :: "(nat \<Rightarrow> bool) \<Rightarrow> string list \<Rightarrow> delivery \<Rightarrow> delivery" where
  "send_chunks raises [] d = d"
| "send_chunks raises (c # cs) d = (case attempts raises (CHUNK_MAX_RETRIES + 1) (Chunk c) d of
     (d, True) \<Rightarrow> send_chunks raises cs d
   | (d, False) \<Rightarrow> fst (call raises (if length cs > 0 then Truncated (length cs) else Delivery_failed) d))"

definition route_outbound ::
  "channel list \<Rightarrow> (nat \<Rightarrow> bool) \<Rightarrow> string \<Rightarrow> string \<Rightarrow> delivery \<Rightarrow> delivery option" where
  "route_outbound chans raises jid text d = (case find_channel jid chans of
      None \<Rightarrow> Some d
    | Some ch \<Rightarrow> map_option (\<lambda>cs. send_chunks raises cs d)
        (split_message TELEGRAM_MAX_LEN (format_outbound text)))"

definition MAX_FILE_BYTES :: nat where "MAX_FILE_BYTES = 45 * 1024 * 1024"

text \<open>\<open>fs path\<close> is the size of the file, if it exists; the last component says whether the call returned.\<close>

definition route_file ::
  "channel list \<Rightarrow> (nat \<Rightarrow> bool) \<Rightarrow> (string \<Rightarrow> nat option) \<Rightarrow> string \<Rightarrow> string \<Rightarrow> string \<Rightarrow> delivery
     \<Rightarrow> delivery \<times> bool" where
  "route_file chans raises fs jid path caption d = (case find_channel jid chans of
      None \<Rightarrow> (d, True)
    | Some ch \<Rightarrow> (case fs path of
        None \<Rightarrow> (fst (call raises File_not_found d), True)
      | Some n \<Rightarrow> if n > MAX_FILE_BYTES then (fst (call raises File_too_big d), True)
          else call raises (File path caption) d))"


section \<open>Splitting always ends\<close>

lemma rfind_newline_Some: "rfind_newline n s = Some i \<Longrightarrow> i < n \<and> i < length s \<and> s ! i = CHR 0x0A"
proof -
  assume "rfind_newline n s = Some i"
  then have "i \<in> set (filter (\<lambda>i. s ! i = CHR 0x0A) [0..<min n (length s)])"
    by (auto simp: rfind_newline_def split: list.splits simp del: set_filter intro!: last_in_set)
  then show ?thesis by auto
qed

definition cut :: "nat \<Rightarrow> string \<Rightarrow> nat" where
  "cut n s = (case rfind_newline n s of None \<Rightarrow> n | Some i \<Rightarrow> i)"

definition cut_rest :: "nat \<Rightarrow> string \<Rightarrow> string" where
  "cut_rest n s = dropWhile (\<lambda>c. c = CHR 0x0A) (drop (cut n s) s)"

lemma split_loop_step: "split_loop n s = (if s = [] then Some [] else if length s \<le> n then Some [s]
    else Option.bind (split_loop n (cut_rest n s)) (\<lambda>cs. Some (rstrip (take (cut n s) s) # cs)))"
  by (subst split_loop.simps) (simp add: cut_def cut_rest_def Let_def)

lemma cut_le: "cut n s \<le> n"
  using rfind_newline_Some[of n s] by (force simp: cut_def split: option.splits)

lemma cut_rest_shorter:
  assumes "0 < n" "n < length s"
  shows "length (cut_rest n s) < length s"
proof (cases "rfind_newline n s")
  case None
  have "length (cut_rest n s) \<le> length (drop n s)"
    by (simp only: cut_rest_def cut_def None option.case length_dropWhile_le)
  with assms show ?thesis by simp
next
  case (Some i)
  then have i: "i < length s" "s ! i = CHR 0x0A" using rfind_newline_Some by auto
  then have "drop i s = CHR 0x0A # drop (Suc i) s" using Cons_nth_drop_Suc[of i s] by simp
  then have "cut_rest n s = dropWhile (\<lambda>c. c = CHR 0x0A) (drop (Suc i) s)"
    by (simp add: cut_rest_def cut_def Some)
  then have "length (cut_rest n s) \<le> length (drop (Suc i) s)" by (simp only: length_dropWhile_le)
  with i show ?thesis by simp
qed

definition visible :: "string \<Rightarrow> string" where
  "visible s = filter (\<lambda>c. \<not> is_space c) s"

lemma visible_append [simp]: "visible (a @ b) = visible a @ visible b"
  by (simp add: visible_def)

lemma visible_dropWhile: "(\<And>c. P c \<Longrightarrow> is_space c) \<Longrightarrow> visible (dropWhile P s) = visible s"
  by (induction s) (auto simp: visible_def)

lemma visible_rev: "visible (rev s) = rev (visible s)"
  by (simp add: visible_def rev_filter)

lemma visible_rstrip [simp]: "visible (rstrip s) = visible s"
  by (simp add: rstrip_def visible_rev visible_dropWhile)

lemma newline_space: "is_space CHR 0x0A"
  by (simp add: is_space_def)

lemma visible_cut_rest: "visible (take (cut n s) s) @ visible (cut_rest n s) = visible s"
proof -
  have "visible (cut_rest n s) = visible (drop (cut n s) s)"
    unfolding cut_rest_def by (rule visible_dropWhile) (auto simp: newline_space)
  then show ?thesis by (metis visible_append append_take_drop_id)
qed

lemma length_rstrip: "length (rstrip s) \<le> length s"
  by (simp add: rstrip_def) (metis length_dropWhile_le length_rev)

lemma split_loop_total:
  assumes "0 < n"
  shows "\<exists>cs. split_loop n s = Some cs \<and> (\<forall>c \<in> set cs. length c \<le> n) \<and> visible (concat cs) = visible s"
proof (induction "length s" arbitrary: s rule: less_induct)
  case less
  show ?case
  proof (cases "length s \<le> n")
    case True
    then show ?thesis by (subst split_loop_step) (simp add: visible_def)
  next
    case False
    then have "length (cut_rest n s) < length s" using assms by (intro cut_rest_shorter) auto
    then obtain cs where cs: "split_loop n (cut_rest n s) = Some cs" "\<forall>c \<in> set cs. length c \<le> n"
      "visible (concat cs) = visible (cut_rest n s)" using less by blast
    have "split_loop n s = Some (rstrip (take (cut n s) s) # cs)"
      using False by (subst split_loop_step) (auto simp: cs(1))
    moreover have "length (rstrip (take (cut n s) s)) \<le> n"
      using length_rstrip[of "take (cut n s) s"] cut_le[of n s] by simp
    ultimately show ?thesis using cs visible_cut_rest[of n s] by simp
  qed
qed

lemma concat_nonempty: "concat (filter (\<lambda>c. c \<noteq> []) cs) = concat cs"
  by (induction cs) auto

lemma split_message_spec: "0 < n \<Longrightarrow> \<exists>cs. split_message n s = Some cs \<and> (\<forall>c \<in> set cs. length c \<le> n)
    \<and> visible (concat cs) = visible s \<and> (s \<noteq> [] \<longrightarrow> [] \<notin> set cs)"
  using split_loop_total[of n s] by (auto simp: split_message_def concat_nonempty)

section \<open>Delivery\<close>

text \<open>The oracle as a queue of outcomes: \<open>attempts\<close> tries until the first call that does not raise.\<close>

lemma attempts_spec: "attempts raises k x d = (d', b) \<Longrightarrow>
    (b \<longrightarrow> outbox d' = outbox d @ [x]) \<and> (\<not> b \<longrightarrow> outbox d' = outbox d) \<and> n_calls d' \<le> n_calls d + k"
proof (induction k arbitrary: d)
  case (Suc k)
  show ?case
  proof (cases "raises (n_calls d)")
    case True
    then have "attempts raises k x (d\<lparr>n_calls := Suc (n_calls d)\<rparr>) = (d', b)"
      using Suc.prems by (simp add: call_def)
    from Suc.IH[OF this] show ?thesis by auto
  qed (use Suc.prems in \<open>auto simp: call_def\<close>)
qed simp

lemma attempts_fail: "attempts raises k x d = (d', False) \<Longrightarrow> \<forall>i < k. raises (n_calls d + i)"
proof (induction k arbitrary: d)
  case (Suc k)
  then have r: "raises (n_calls d)" "attempts raises k x (d\<lparr>n_calls := Suc (n_calls d)\<rparr>) = (d', False)"
    by (auto simp: call_def split: if_splits)
  from Suc.IH[OF r(2)] r(1) show ?case by (auto simp: less_Suc_eq_0_disj)
qed simp

definition undelivered :: "string list \<Rightarrow> nat \<Rightarrow> sent" where
  "undelivered cs k = (if Suc k < length cs then Truncated (length cs - Suc k) else Delivery_failed)"

lemma send_chunks_spec:
  "\<exists>k notice. outbox (send_chunks raises cs d) = outbox d @ map Chunk (take k cs) @ notice
    \<and> k \<le> length cs \<and> n_calls (send_chunks raises cs d) \<le> n_calls d + 3 * length cs + 1
    \<and> (k = length cs \<longrightarrow> notice = []) \<and> (k < length cs \<longrightarrow> notice \<in> {[], [undelivered cs k]})
    \<and> (k < length cs \<longrightarrow> (\<exists>n. raises n \<and> raises (n + 1) \<and> raises (n + 2)))"
proof (induction cs arbitrary: d)
  case Nil
  show ?case by simp
next
  case (Cons c cs)
  obtain d1 b where a: "attempts raises 3 (Chunk c) d = (d1, b)" by fastforce
  show ?case
  proof (cases b)
    case True
    from Cons[of d1] obtain k notice where k:
      "outbox (send_chunks raises cs d1) = outbox d1 @ map Chunk (take k cs) @ notice"
      "k \<le> length cs" "n_calls (send_chunks raises cs d1) \<le> n_calls d1 + 3 * length cs + 1"
      "k = length cs \<longrightarrow> notice = []" "k < length cs \<longrightarrow> notice \<in> {[], [undelivered cs k]}"
      "k < length cs \<longrightarrow> (\<exists>n. raises n \<and> raises (n + 1) \<and> raises (n + 2))" by blast
    show ?thesis
      by (rule exI[of _ "Suc k"], rule exI[of _ notice])
         (use k attempts_spec[OF a] True a in \<open>auto simp: CHUNK_MAX_RETRIES_def undelivered_def numeral_3_eq_3\<close>)
  next
    case False
    have r: "\<exists>n. raises n \<and> raises (n + 1) \<and> raises (n + 2)"
    proof (intro exI conjI)
      have "\<forall>i < 3. raises (n_calls d + i)" using attempts_fail[of raises 3 "Chunk c" d d1] a False by simp
      from spec[OF this, of 0] spec[OF this, of 1] spec[OF this, of 2]
      show "raises (n_calls d)" "raises (n_calls d + 1)" "raises (n_calls d + 2)" by simp_all
    qed
    let ?x = "if length cs > 0 then Truncated (length cs) else Delivery_failed"
    have s: "send_chunks raises (c # cs) d = fst (call raises ?x d1)"
      using a False by (simp add: CHUNK_MAX_RETRIES_def numeral_3_eq_3)
    show ?thesis
      by (rule exI[of _ 0], rule exI[of _ "if raises (n_calls d1) then [] else [?x]"])
         (use s attempts_spec[OF a] False r in \<open>auto simp: call_def undelivered_def\<close>)
  qed
qed

section \<open>Escaping\<close>

text \<open>Reading an escaped text back: the entities of the five special characters.\<close>

definition entities :: "(string \<times> char) list" where
  "entities = [(''&amp;'', CHR ''&''), (''&lt;'', CHR ''<''), (''&gt;'', CHR ''>''),
     (''&quot;'', CHR 0x22), (''&apos;'', CHR 0x27)]"

fun unescape_fuel :: "nat \<Rightarrow> string \<Rightarrow> string" where
  "unescape_fuel 0 s = []"
| "unescape_fuel (Suc n) [] = []"
| "unescape_fuel (Suc n) (c # s) =
     (case List.find (\<lambda>(e, d). prefix e (c # s)) entities of
        Some (e, d) \<Rightarrow> d # unescape_fuel n (drop (length e) (c # s))
      | None \<Rightarrow> c # unescape_fuel n s)"

lemma unescape_char: "unescape_fuel (Suc n) (xml_char c @ s) = c # unescape_fuel n s"
  by (auto simp: xml_char_def entities_def)

lemma unescape_escape: "length s \<le> n \<Longrightarrow> unescape_fuel n (escape_xml s) = s"
proof (induction s arbitrary: n)
  case Nil
  then show ?case by (cases n) (simp_all add: escape_xml_def)
next
  case (Cons c s)
  then obtain m where m: "n = Suc m" "length s \<le> m" by (cases n) auto
  have "escape_xml (c # s) = xml_char c @ escape_xml s" by (simp add: escape_xml_def)
  then show ?case using m Cons.IH[OF m(2)] by (simp only: unescape_char)
qed

lemma escape_no_markup: "set (escape_xml s) \<inter> {CHR ''<'', CHR ''>'', CHR 0x22, CHR 0x27} = {}"
  by (induction s) (auto simp: escape_xml_def xml_char_def)

definition count_char :: "char \<Rightarrow> string \<Rightarrow> nat" where
  "count_char c s = length (filter (\<lambda>x. x = c) s)"

lemma count_append [simp]: "count_char c (a @ b) = count_char c a + count_char c b"
  by (simp add: count_char_def)

lemma count_Cons [simp]: "count_char c (x # s) = (if x = c then 1 else 0) + count_char c s"
  by (simp add: count_char_def)

lemma count_Nil [simp]: "count_char c [] = 0"
  by (simp add: count_char_def)

lemma count_zero: "c \<notin> set s \<Longrightarrow> count_char c s = 0"
  by (induction s) auto

lemma count_escape [simp]: "count_char CHR ''<'' (escape_xml s) = 0"
  using escape_no_markup[of s] by (intro count_zero) auto

lemma count_join: "c \<notin> set sep \<Longrightarrow> count_char c (join sep xs) = sum_list (map (count_char c) xs)"
  by (induction xs rule: induct_list012) (simp_all add: count_zero)

lemma count_line: "CHR ''<'' \<notin> set (t (cm_timestamp m)) \<Longrightarrow> count_char CHR ''<'' (message_line t m) = 2"
  by (simp add: message_line_def count_zero)

section \<open>Properties\<close>


definition telegram :: channel where
  "telegram = \<lparr>ch_name = ''telegram'', ch_owns = prefix ''tg:''\<rparr>"


text \<open>
  Escaping is faithful and safe: the escaped text contains no angle bracket and no quote, it
  reads back as the original, and in a rendered prompt every angle bracket comes from the router's
  own markup, so no message content can open, close or forge a message element.
\<close>

theorem prompt_markup:
  assumes "CHR ''<'' \<notin> set tz" "\<forall>t. CHR ''<'' \<notin> set (time_str t)"
  shows "unescape_fuel (length s) (escape_xml s) = s
    \<and> set (escape_xml s) \<inter> {CHR ''<'', CHR ''>'', CHR 0x22, CHR 0x27} = {}
    \<and> count_char CHR ''<'' (format_messages time_str tz ms) = 3 + 2 * length ms"
proof -
  have "sum_list (map (count_char CHR ''<'') (map (message_line time_str) ms)) = 2 * length ms"
    using assms(2) by (induction ms) (simp_all add: count_line)
  then have "count_char CHR ''<'' (format_messages time_str tz ms) = 3 + 2 * length ms"
    using assms(1) by (simp add: format_messages_def count_join count_zero del: join.simps)
  then show ?thesis using unescape_escape[of s "length s"] escape_no_markup[of s] by simp
qed

theorem prompt_markup_witness:
  "count_char CHR ''<'' (format_messages (\<lambda>t. ''noon'') ''UTC'' [\<lparr>cm_sender_name = Some ''eve'',
     cm_sender = None, cm_content = Some ''</message><message>'', cm_timestamp = 0\<rparr>]) = 5"
  using prompt_markup[of "''UTC''" "\<lambda>t. ''noon''" "[]" "[\<lparr>cm_sender_name = Some ''eve'',
     cm_sender = None, cm_content = Some ''</message><message>'', cm_timestamp = 0\<rparr>]"] by simp

lemma remove_plain: "CHR ''<'' \<notin> set a \<Longrightarrow> remove_internal (a @ s) = a @ remove_internal s"
  by (induction a) (auto simp: OPEN_TAG_def)

lemma after_plain: "CHR ''<'' \<notin> set b \<Longrightarrow> after CLOSE_TAG (b @ CLOSE_TAG @ c) = Some c"
  by (induction b) (auto simp: CLOSE_TAG_def)

lemma remove_block:
  assumes "CHR ''<'' \<notin> set b"
  shows "remove_internal (OPEN_TAG @ b @ CLOSE_TAG @ c) = remove_internal c"
proof -
  have "remove_internal (CHR ''<'' # (''internal>'' @ b @ CLOSE_TAG @ c)) = remove_internal c"
    using after_plain[OF assms, of c] by (simp add: OPEN_TAG_def)
  then show ?thesis by (simp add: OPEN_TAG_def)
qed

text \<open>
  An internal block of plain text is removed wherever it stands, with nothing else; but blocks
  that contain another block are not: matching stops at the first closing tag, so what follows the
  inner block is shown to the user, and removing a block can join the text around it to a new one.
\<close>

theorem internal_notes_removed:
  assumes "CHR ''<'' \<notin> set a" "CHR ''<'' \<notin> set b"
  shows "strip_internal_tags (a @ OPEN_TAG @ b @ CLOSE_TAG @ c) = strip (a @ remove_internal c)
    \<and> format_outbound ''ok<internal>a<internal>b</internal>secret</internal>'' = ''oksecret</internal>''
    \<and> format_outbound ''<inter<internal></internal>nal>secret</internal>'' = ''<internal>secret</internal>''"
proof -
  have "format_outbound ''ok<internal>a<internal>b</internal>secret</internal>'' = ''oksecret</internal>''"
    "format_outbound ''<inter<internal></internal>nal>secret</internal>'' = ''<internal>secret</internal>''"
    by code_simp+
  then show ?thesis
    using remove_plain[OF assms(1), of "OPEN_TAG @ b @ CLOSE_TAG @ c"] remove_block[OF assms(2), of c]
    by (simp add: strip_internal_tags_def)
qed

theorem internal_notes_removed_witness:
  "strip_internal_tags (''fine '' @ OPEN_TAG @ ''think'' @ CLOSE_TAG @ '' bye'') = ''fine  bye''"
proof -
  have "strip (''fine '' @ remove_internal '' bye'') = ''fine  bye''" by code_simp
  with internal_notes_removed[of "''fine ''" "''think''" "'' bye''"] show ?thesis by simp
qed

text \<open>
  A file is handed to the channel only when it exists and does not exceed 45 MiB; every other
  case sends at most a notice and returns, and only a failure of the upload itself reaches the
  caller.
\<close>

theorem file_delivery:
  assumes "route_file chans raises fs jid path caption d = (d', returned)"
  shows "\<exists>xs. outbox d' = outbox d @ xs \<and> length xs \<le> 1
    \<and> (File path caption \<in> set xs \<longrightarrow> (\<exists>ch n. find_channel jid chans = Some ch \<and> ch_owns ch jid
         \<and> fs path = Some n \<and> n \<le> 45 * 1024 * 1024 \<and> returned))
    \<and> (\<not> returned \<longrightarrow> raises (n_calls d) \<and> xs = [] \<and> fs path \<noteq> None)"
proof -
  have owns: "find_channel jid chans = Some ch \<Longrightarrow> ch_owns ch jid" for ch
    by (auto simp: find_channel_def find_Some_iff)
  show ?thesis
    by (rule exI[of _ "drop (length (outbox d)) (outbox d')"])
       (use assms owns in \<open>auto simp: route_file_def call_def MAX_FILE_BYTES_def split: option.splits if_splits\<close>)
qed

theorem file_delivery_witness:
  "\<exists>xs. outbox (fst (route_file [telegram] (\<lambda>n. False) (\<lambda>p. Some 10) ''tg:1'' ''/a'' ''c''
      \<lparr>n_calls = 0, outbox = []\<rparr>)) = xs \<and> length xs \<le> 1"
proof -
  obtain d' b where r: "route_file [telegram] (\<lambda>n. False) (\<lambda>p. Some 10) ''tg:1'' ''/a'' ''c''
      \<lparr>n_calls = 0, outbox = []\<rparr> = (d', b)" by fastforce
  from file_delivery[OF r] show ?thesis by (auto simp: r)
qed

end
