(* ===== verification/ChatDb.thy ===== *)
theory ChatDb
  imports Prelude
begin

text \<open>
  The chat tables of \<open>host/db.py\<close> (messages, chats, router state, sessions, registered groups), the
  folder names of \<open>host/group_folder.py\<close> and the sender allowlist of \<open>host/allowlist.py\<close>.

  A table is a list of rows in insertion order, or a dictionary where it is one.  Regular
  expressions are written out, including that a dollar sign also matches before a final newline.
  Symbolic links are an argument: \<open>realpath\<close> maps a path (a list of components) to the resolved one.
\<close>

section \<open>Folder names\<close>

text \<open>The word characters of Python's \<open>re\<close> below code point 256.\<close>

definition is_word :: "char \<Rightarrow> bool" where
  "is_word c = (let n = (of_char c :: nat) in
     (48 \<le> n \<and> n \<le> 57) \<or> (65 \<le> n \<and> n \<le> 90) \<or> n = 95 \<or> (97 \<le> n \<and> n \<le> 122) \<or> n = 170
     \<or> n = 178 \<or> n = 179 \<or> n = 181 \<or> n = 185 \<or> n = 186 \<or> (188 \<le> n \<and> n \<le> 190)
     \<or> (192 \<le> n \<and> n \<le> 255 \<and> n \<noteq> 215 \<and> n \<noteq> 247))"

definition is_ascii_word :: "char \<Rightarrow> bool" where
  "is_ascii_word c = (let n = (of_char c :: nat) in
     (48 \<le> n \<and> n \<le> 57) \<or> (65 \<le> n \<and> n \<le> 90) \<or> n = 95 \<or> (97 \<le> n \<and> n \<le> 122))"

text \<open>\<open>re.match\<close> of a pattern \<open>^[...]+$\<close>: one final newline is allowed after the class.\<close>

definition matches_all :: "(char \<Rightarrow> bool) \<Rightarrow> string \<Rightarrow> bool" where
  "matches_all P s = (let t = (if s \<noteq> [] \<and> last s = CHR 0x0A then butlast s else s) in
     (s \<noteq> [] \<and> list_all P s) \<or> (t \<noteq> [] \<and> list_all P t))"

definition folder_char :: "char \<Rightarrow> bool" where
  "folder_char c = (is_ascii_word c \<or> c = CHR ''-'')"

definition RESERVED :: "string list" where
  "RESERVED = [''global'', ''.'', ''..'']"

definition MAX_FOLDER_NAME_LEN :: nat where "MAX_FOLDER_NAME_LEN = 128"

definition backslash :: char where "backslash = CHR 0x5C"

definition is_valid_group_folder :: "string \<Rightarrow> bool" where
  "is_valid_group_folder name =
     (if name = [] \<or> name \<in> set RESERVED then False
      else if length name > MAX_FOLDER_NAME_LEN then False
      else if CHR ''/'' \<in> set name \<or> backslash \<in> set name \<or> sublist ''..'' name then False
      else matches_all folder_char name)"

definition validate_folder :: "string \<Rightarrow> bool" where
  "validate_folder folder =
     (if folder = [] \<or> sublist ''..'' folder \<or> CHR ''/'' \<in> set folder \<or> backslash \<in> set folder then False
      else matches_all (\<lambda>c. is_word c \<or> c = CHR ''-'') folder)"

text \<open>\<open>None\<close> is the \<open>ValueError\<close> of an invalid name or of a target outside the base.\<close>

definition ensure_within_base :: "(string list \<Rightarrow> string list) \<Rightarrow> string list \<Rightarrow> string list \<Rightarrow> bool" where
  "ensure_within_base realpath base target = prefix (realpath base) target"

definition resolve_group_folder_path ::
  "(string list \<Rightarrow> string list) \<Rightarrow> string list \<Rightarrow> string \<Rightarrow> string list option" where
  "resolve_group_folder_path realpath base folder =
     (if \<not> is_valid_group_folder folder then None
      else let p = realpath (base @ [folder]) in
        if ensure_within_base realpath base p then Some p else None)"

section \<open>The allowlist\<close>

text \<open>What reading the file gives: no file, an unreadable or malformed one, or its \<open>senders\<close>.\<close>

datatype allowlist_file = Missing | Malformed | Senders "string list"

definition load_sender_allowlist :: "bool \<Rightarrow> allowlist_file \<Rightarrow> string set" where
  "load_sender_allowlist allow_all_if_missing f = (case f of
      Missing \<Rightarrow> if allow_all_if_missing then {} else {[]}
    | Malformed \<Rightarrow> if allow_all_if_missing then {} else {[]}
    | Senders xs \<Rightarrow> set xs)"

text \<open>A sender identifier that is not a string is \<open>None\<close>.\<close>

definition is_sender_allowed :: "string option \<Rightarrow> string set \<Rightarrow> bool" where
  "is_sender_allowed sender allow =
     (if allow = {} then True
      else case sender of None \<Rightarrow> False
      | Some s \<Rightarrow> (let n = strip s in if n = [] then False else n \<in> allow))"

datatype mount_file = No_mounts | Bad_mounts | Mounts "string list"

definition load_mount_allowlist :: "mount_file \<Rightarrow> string list" where
  "load_mount_allowlist f = (case f of Mounts xs \<Rightarrow> xs | _ \<Rightarrow> [])"

section \<open>Tables\<close>

record message =
  m_id :: string
  m_jid :: string
  m_sender :: string
  m_sender_name :: string
  m_content :: string
  m_ts :: int
  m_from_me :: bool
  m_bot :: bool

record chat =
  c_name :: string
  c_last :: int
  c_channel :: string
  c_is_group :: bool

record reg_group =
  rg_jid :: string
  rg_name :: string
  rg_folder :: string
  rg_trigger :: "string option"
  rg_added :: int
  rg_config :: "string option"
  rg_requires_trigger :: bool
  rg_main :: bool

record chat_db =
  messages :: "message list"
  chats :: "(string, chat) dict"
  router_state :: "(string, string) dict"
  sessions :: "(string, string) dict"
  reg_groups :: "reg_group list"

definition empty_chat_db :: chat_db where
  "empty_chat_db = \<lparr>messages = [], chats = [], router_state = [], sessions = [], reg_groups = []\<rparr>"

definition store_message :: "message \<Rightarrow> chat_db \<Rightarrow> chat_db" where
  "store_message m db = (if m_id m \<in> m_id ` set (messages db) then db
     else db\<lparr>messages := messages db @ [m]\<rparr>)"

definition user_message :: "message \<Rightarrow> bool" where
  "user_message m = (\<not> m_from_me m \<and> \<not> m_bot m)"

definition get_new_messages :: "string list \<Rightarrow> int \<Rightarrow> chat_db \<Rightarrow> message list" where
  "get_new_messages jids since db = (if jids = [] then [] else sort_key m_ts
     (filter (\<lambda>m. m_jid m \<in> set jids \<and> m_ts m > since \<and> user_message m) (messages db)))"

definition get_conversation_history :: "string \<Rightarrow> nat \<Rightarrow> chat_db \<Rightarrow> message list" where
  "get_conversation_history jid limit db =
     rev (take limit (sort_key (\<lambda>m. - m_ts m) (filter (\<lambda>m. m_jid m = jid) (messages db))))"

definition get_messages_since :: "string \<Rightarrow> int \<Rightarrow> nat \<Rightarrow> chat_db \<Rightarrow> message list" where
  "get_messages_since jid ts limit db =
     take limit (sort_key m_ts (filter (\<lambda>m. m_jid m = jid \<and> m_ts m \<ge> ts) (messages db)))"

definition store_chat_metadata :: "string \<Rightarrow> string \<Rightarrow> int \<Rightarrow> string \<Rightarrow> bool \<Rightarrow> chat_db \<Rightarrow> chat_db" where
  "store_chat_metadata jid name ts channel is_group db = db\<lparr>chats := dset jid
     (case dget (chats db) jid of
        None \<Rightarrow> \<lparr>c_name = name, c_last = ts, c_channel = channel, c_is_group = is_group\<rparr>
      | Some c \<Rightarrow> c\<lparr>c_name := name, c_last := ts\<rparr>) (chats db)\<rparr>"

definition get_state :: "string \<Rightarrow> chat_db \<Rightarrow> string option" where
  "get_state k db = dget (router_state db) k"

definition set_state :: "string \<Rightarrow> string \<Rightarrow> chat_db \<Rightarrow> chat_db" where
  "set_state k v db = db\<lparr>router_state := dset k v (router_state db)\<rparr>"

definition get_session :: "string \<Rightarrow> chat_db \<Rightarrow> string option" where
  "get_session folder db = dget (sessions db) folder"

definition set_session :: "string \<Rightarrow> string \<Rightarrow> chat_db \<Rightarrow> chat_db" where
  "set_session folder s db = db\<lparr>sessions := dset folder s (sessions db)\<rparr>"

definition get_all_registered_groups :: "chat_db \<Rightarrow> reg_group list" where
  "get_all_registered_groups db = reg_groups db"

definition get_registered_group :: "string \<Rightarrow> chat_db \<Rightarrow> reg_group option" where
  "get_registered_group jid db = List.find (\<lambda>g. rg_jid g = jid) (reg_groups db)"

text \<open>
  The upsert on the chat, in one transaction with the demotion of other main groups.  \<open>None\<close> is an
  invalid folder or a folder another chat has (\<open>UNIQUE\<close>), after which the rollback leaves the table
  as it was.
\<close>

definition demote_others :: "string \<Rightarrow> reg_group list \<Rightarrow> reg_group list" where
  "demote_others jid gs = map (\<lambda>g. if rg_jid g \<noteq> jid then g\<lparr>rg_main := False\<rparr> else g) gs"

definition upsert_group :: "reg_group \<Rightarrow> reg_group list \<Rightarrow> reg_group list" where
  "upsert_group new gs = (if rg_jid new \<in> rg_jid ` set gs
     then map (\<lambda>g. if rg_jid g = rg_jid new then new\<lparr>rg_added := rg_added g\<rparr> else g) gs
     else gs @ [new])"

definition set_registered_group :: "reg_group \<Rightarrow> chat_db \<Rightarrow> chat_db option" where
  "set_registered_group new db =
     (if \<not> validate_folder (rg_folder new) then None
      else let gs = (if rg_main new then demote_others (rg_jid new) (reg_groups db) else reg_groups db) in
        if \<exists>g \<in> set gs. rg_folder g = rg_folder new \<and> rg_jid g \<noteq> rg_jid new then None
        else Some (db\<lparr>reg_groups := upsert_group new gs\<rparr>))"

section \<open>What a message store promises its readers\<close>

text \<open>
  A reader with a cursor: moving the cursor forward only drops what it passes, and what the assistant
  or another chat writes is never unread.
\<close>

locale inbox =
  fixes unread :: "string \<Rightarrow> int \<Rightarrow> 's \<Rightarrow> message list"
    and put :: "message \<Rightarrow> 's \<Rightarrow> 's"
  assumes unread_later: "c \<le> t \<Longrightarrow> unread j t s = filter (\<lambda>m. m_ts m > t) (unread j c s)"
    and put_own: "\<not> user_message m \<Longrightarrow> unread j c (put m s) = unread j c s"
    and put_other: "m_jid m \<noteq> j \<Longrightarrow> unread j c (put m s) = unread j c s"
begin

lemma unread_max: "unread j (max c t) s = filter (\<lambda>m. m_ts m > t) (unread j c s)"
proof (cases "c \<le> t")
  case True
  then show ?thesis by (simp add: max_absorb2 unread_later)
next
  case False
  have "unread j c s = filter (\<lambda>m. m_ts m > c) (unread j c s)" by (rule unread_later) simp
  then have "\<forall>m \<in> set (unread j c s). m_ts m > c" by (metis (mono_tags, lifting) mem_Collect_eq set_filter)
  with False have "filter (\<lambda>m. m_ts m > t) (unread j c s) = unread j c s" by (intro filter_True) auto
  with False show ?thesis by (simp add: max_absorb1)
qed

lemma own_history: "\<forall>m \<in> set ms. \<not> user_message m \<Longrightarrow> unread j c (fold put ms s) = unread j c s"
  by (induction ms arbitrary: s) (simp_all add: put_own)

lemma other_history: "\<forall>m \<in> set ms. m_jid m \<noteq> j \<Longrightarrow> unread j c (fold put ms s) = unread j c s"
  by (induction ms arbitrary: s) (simp_all add: put_other)

end

lemma get_new_later: "c \<le> t \<Longrightarrow> get_new_messages [j] t db = filter (\<lambda>m. m_ts m > t) (get_new_messages [j] c db)"
  by (auto simp: get_new_messages_def filter_sort intro!: arg_cong[of _ _ "sort_key m_ts"] filter_cong)

lemma get_new_put: "\<not> user_message m \<or> m_jid m \<noteq> j \<Longrightarrow>
    get_new_messages [j] c (store_message m db) = get_new_messages [j] c db"
  by (auto simp: get_new_messages_def store_message_def)

interpretation chat: inbox "\<lambda>j. get_new_messages [j]" store_message
  by unfold_locales (simp_all add: get_new_later[of _ _ _ s for s] get_new_put)

section \<open>Folders are safe path components\<close>

lemma matches_all_chars: "matches_all P s \<Longrightarrow> c \<in> set s \<Longrightarrow> P c \<or> c = CHR 0x0A"
  by (cases s rule: rev_cases) (auto simp: matches_all_def Let_def list_all_iff split: if_splits)

text \<open>
  A folder name that passes the check is a single, ordinary path component: not empty, without
  a slash, backslash or parent reference, at most 128 characters, and a group's path resolves inside
  the base directory or not at all, whatever symbolic links there are.  The check does accept one
  newline at the end of a name, and the database's own check accepts the reserved name and names of
  any length.
\<close>

theorem folder_names_safe:
  "(is_valid_group_folder f \<longrightarrow> f \<noteq> [] \<and> length f \<le> 128 \<and> CHR ''/'' \<notin> set f \<and> backslash \<notin> set f
      \<and> f \<noteq> ''.'' \<and> f \<noteq> ''..'' \<and> (\<forall>c \<in> set f. folder_char c \<or> c = CHR 0x0A))
    \<and> (validate_folder f \<longrightarrow> f \<noteq> [] \<and> CHR ''/'' \<notin> set f \<and> backslash \<notin> set f \<and> \<not> sublist ''..'' f)
    \<and> (\<forall>p. resolve_group_folder_path realpath base f = Some p \<longrightarrow> prefix (realpath base) p \<and> is_valid_group_folder f)
    \<and> is_valid_group_folder (''abc'' @ [CHR 0x0A]) \<and> validate_folder ''global'' \<and> \<not> is_valid_group_folder ''global''"
proof -
  have "is_valid_group_folder (''abc'' @ [CHR 0x0A])" "validate_folder ''global''" "\<not> is_valid_group_folder ''global''"
    by code_simp+
  moreover have "f \<noteq> []" "length f \<le> 128" "CHR ''/'' \<notin> set f" "backslash \<notin> set f" "f \<noteq> ''.''" "f \<noteq> ''..''"
    "matches_all folder_char f" if "is_valid_group_folder f"
    using that by (simp_all add: is_valid_group_folder_def RESERVED_def MAX_FOLDER_NAME_LEN_def split: if_splits)
  moreover have "f \<noteq> []" "CHR ''/'' \<notin> set f" "backslash \<notin> set f" "\<not> sublist ''..'' f" if "validate_folder f"
    using that by (simp_all add: validate_folder_def split: if_splits)
  moreover have "prefix (realpath base) p \<and> is_valid_group_folder f"
    if "resolve_group_folder_path realpath base f = Some p" for p
    using that by (auto simp: resolve_group_folder_path_def ensure_within_base_def Let_def split: if_splits)
  ultimately show ?thesis using matches_all_chars[of folder_char f] by blast
qed

theorem folder_names_safe_witness:
  "resolve_group_folder_path (\<lambda>p. p) [''groups''] ''team_1'' = Some [''groups'', ''team_1'']
    \<and> prefix [''groups''] [''groups'', ''team_1'']"
proof -
  have "resolve_group_folder_path (\<lambda>p. p) [''groups''] ''team_1'' = Some [''groups'', ''team_1'']" by code_simp
  then show ?thesis using folder_names_safe[of "''team_1''" "\<lambda>p. p" "[''groups'']"] by simp
qed


section \<open>The allowlist fails closed\<close>

text \<open>
  Unless the operator opted out, a missing or broken allowlist file admits nobody, not even a
  sender whose identifier is empty or blank; with a file that lists senders, exactly those whose
  identifier is listed without surrounding white space are admitted; only a file with an empty list
  admits everybody.
\<close>

theorem allowlist_fails_closed:
  "\<not> is_sender_allowed s (load_sender_allowlist False Missing)
    \<and> \<not> is_sender_allowed s (load_sender_allowlist False Malformed)
    \<and> (is_sender_allowed s (load_sender_allowlist b (Senders xs)) \<longleftrightarrow>
        xs = [] \<or> (\<exists>t. s = Some t \<and> strip t \<noteq> [] \<and> strip t \<in> set xs))
    \<and> is_sender_allowed s (load_sender_allowlist True Missing)
    \<and> load_mount_allowlist Bad_mounts = load_mount_allowlist (Mounts [])"
  by (auto simp: is_sender_allowed_def load_sender_allowlist_def load_mount_allowlist_def Let_def
      split: option.splits)

section \<open>Registered groups\<close>

definition groups_ok :: "reg_group list \<Rightarrow> bool" where
  "groups_ok gs = (distinct (map rg_jid gs) \<and> distinct (map rg_folder gs)
     \<and> length (filter rg_main gs) \<le> 1 \<and> list_all (\<lambda>g. validate_folder (rg_folder g)) gs)"

lemma demote_maps [simp]: "map rg_jid (demote_others j gs) = map rg_jid gs"
  "map rg_folder (demote_others j gs) = map rg_folder gs"
  by (auto simp: demote_others_def)

lemma demote_sets [simp]: "rg_jid ` set (demote_others j gs) = rg_jid ` set gs"
  by (metis demote_maps(1) set_map)

lemma demote_folders: "list_all (\<lambda>g. P (rg_folder g)) (demote_others j gs) = list_all (\<lambda>g. P (rg_folder g)) gs"
  by (induction gs) (auto simp: demote_others_def)

lemma demote_main: "g \<in> set (demote_others j gs) \<Longrightarrow> rg_main g \<Longrightarrow> rg_jid g = j"
  by (auto simp: demote_others_def)

lemma upsert_jids: "map rg_jid (upsert_group new gs) =
    (if rg_jid new \<in> rg_jid ` set gs then map rg_jid gs else map rg_jid gs @ [rg_jid new])"
  by (auto simp: upsert_group_def)

lemma upsert_members: "g \<in> set (upsert_group new gs) \<Longrightarrow>
    (g \<in> set gs \<and> rg_jid g \<noteq> rg_jid new) \<or> (\<exists>t. g = new\<lparr>rg_added := t\<rparr>)"
  by (auto simp: upsert_group_def image_iff split: if_splits intro: exI[of _ "rg_added new"])

lemma upsert_member: "g \<in> set gs \<Longrightarrow> rg_jid g = rg_jid new \<Longrightarrow>
    new\<lparr>rg_added := rg_added g\<rparr> \<in> set (upsert_group new gs)"
proof -
  assume g: "g \<in> set gs" "rg_jid g = rg_jid new"
  then have "rg_jid new \<in> rg_jid ` set gs" by (metis imageI)
  then have "upsert_group new gs
      = map (\<lambda>g. if rg_jid g = rg_jid new then new\<lparr>rg_added := rg_added g\<rparr> else g) gs"
    by (simp only: upsert_group_def if_True)
  then have "set (upsert_group new gs)
      = (\<lambda>g. if rg_jid g = rg_jid new then new\<lparr>rg_added := rg_added g\<rparr> else g) ` set gs" by (simp only: list.set_map)
  then show ?thesis by (simp only:) (rule image_eqI[OF _ g(1)], simp add: g(2))
qed

lemma distinct_by_key:
  assumes "distinct (map k xs)" "\<And>a b. a \<in> set xs \<Longrightarrow> b \<in> set xs \<Longrightarrow> f a = f b \<Longrightarrow> k a = k b"
  shows "distinct (map f xs)"
proof -
  have k: "distinct xs" "inj_on k (set xs)" using assms(1) by (simp_all add: distinct_map)
  have "inj_on f (set xs)" using assms(2) inj_onD[OF k(2)] by (intro inj_onI) metis
  with k(1) show ?thesis by (simp add: distinct_map)
qed

lemma mains_le_1:
  assumes "distinct (map rg_jid gs)" "\<And>a b. a \<in> set gs \<Longrightarrow> b \<in> set gs \<Longrightarrow> rg_main a \<Longrightarrow> rg_main b \<Longrightarrow> rg_jid a = rg_jid b"
  shows "length (filter rg_main gs) \<le> 1"
proof -
  have d: "distinct (filter rg_main gs)" using assms(1) by (auto simp: distinct_map)
  have "a = b" if "a \<in> set (filter rg_main gs)" "b \<in> set (filter rg_main gs)" for a b
    using that assms by (auto simp: distinct_map dest: inj_onD)
  then have "card (set (filter rg_main gs)) \<le> 1" by (metis card_le_Suc0_iff_eq List.finite_set One_nat_def)
  then show ?thesis using distinct_card[OF d] by simp
qed

lemma mains_unique:
  "length (filter rg_main gs) \<le> 1 \<Longrightarrow> a \<in> set gs \<Longrightarrow> b \<in> set gs \<Longrightarrow> rg_main a \<Longrightarrow> rg_main b \<Longrightarrow> a = b"
proof -
  assume l: "length (filter rg_main gs) \<le> 1" and m: "a \<in> set gs" "b \<in> set gs" "rg_main a" "rg_main b"
  then have "a \<in> set (filter rg_main gs)" "b \<in> set (filter rg_main gs)" by auto
  with l show "a = b" by (cases "filter rg_main gs") auto
qed

lemma upsert_group_ok:
  assumes d: "distinct (map rg_jid gs)" and f: "distinct (map rg_folder gs)"
    and v: "list_all (\<lambda>g. validate_folder (rg_folder g)) gs" "validate_folder (rg_folder new)"
    and u: "\<forall>g \<in> set gs. rg_folder g = rg_folder new \<longrightarrow> rg_jid g = rg_jid new"
    and m: "length (filter rg_main gs) \<le> 1" "rg_main new \<Longrightarrow> \<forall>g \<in> set gs. rg_main g \<longrightarrow> rg_jid g = rg_jid new"
  shows "groups_ok (upsert_group new gs)"
proof -
  let ?us = "upsert_group new gs"
  have dj: "distinct (map rg_jid ?us)" using d by (auto simp: upsert_jids)
  have inj: "rg_folder a = rg_folder b \<Longrightarrow> a \<in> set gs \<Longrightarrow> b \<in> set gs \<Longrightarrow> a = b" for a b
    using f by (auto simp: distinct_map dest: inj_onD)
  have "distinct (map rg_folder ?us)"
  proof (rule distinct_by_key[OF dj])
    fix a b assume "a \<in> set ?us" "b \<in> set ?us" "rg_folder a = rg_folder b"
    with upsert_members[of a new gs] upsert_members[of b new gs] inj[of a b] u
    show "rg_jid a = rg_jid b" by auto
  qed
  moreover have "length (filter rg_main ?us) \<le> 1"
  proof (rule mains_le_1[OF dj])
    fix a b assume "a \<in> set ?us" "b \<in> set ?us" "rg_main a" "rg_main b"
    with upsert_members[of a new gs] upsert_members[of b new gs] m mains_unique[OF m(1), of a b]
    show "rg_jid a = rg_jid b" by auto
  qed
  moreover have "list_all (\<lambda>g. validate_folder (rg_folder g)) ?us"
    using v upsert_members[of _ new gs] by (fastforce simp: list_all_iff)
  ultimately show ?thesis using dj by (simp add: groups_ok_def)
qed

lemma find_map_same: "x \<in> set xs \<Longrightarrow> distinct (map k xs) \<Longrightarrow> List.find (\<lambda>y. k y = k x) xs = Some x"
  by (induction xs) (auto simp: image_iff)

text \<open>
  C13: The registry keeps its invariants under every registration: one row per chat, one chat per
  folder, at most one main group, and folders that passed the check.  A registration replaces the
  chat's row but for its time of registration, and a rejected one changes nothing.
\<close>

theorem registry_invariant:
  assumes "groups_ok (reg_groups db)" "set_registered_group new db = Some db'"
  shows "groups_ok (reg_groups db')
    \<and> (\<exists>t. get_registered_group (rg_jid new) db' = Some (new\<lparr>rg_added := t\<rparr>)
        \<and> (case get_registered_group (rg_jid new) db of None \<Rightarrow> t = rg_added new | Some g \<Rightarrow> t = rg_added g))
    \<and> messages db' = messages db \<and> sessions db' = sessions db"
proof -
  let ?gs = "if rg_main new then demote_others (rg_jid new) (reg_groups db) else reg_groups db"
  have v: "validate_folder (rg_folder new)" and db': "db' = db\<lparr>reg_groups := upsert_group new ?gs\<rparr>"
    and u: "\<forall>g \<in> set ?gs. rg_folder g = rg_folder new \<longrightarrow> rg_jid g = rg_jid new"
    using assms(2) by (auto simp: set_registered_group_def Let_def split: if_splits)
  have m: "length (filter rg_main ?gs) \<le> 1"
  proof (cases "rg_main new")
    case True
    have "length (filter rg_main (demote_others (rg_jid new) (reg_groups db))) \<le> 1"
      by (rule mains_le_1) (use assms(1) demote_main in \<open>force simp: groups_ok_def\<close>)+
    with True show ?thesis by simp
  qed (use assms(1) in \<open>simp add: groups_ok_def\<close>)
  have d: "distinct (map rg_jid ?gs)" using assms(1) by (simp add: groups_ok_def)
  have ok: "groups_ok (upsert_group new ?gs)"
    by (rule upsert_group_ok[OF d _ _ v u m])
       (use assms(1) demote_main[of _ "rg_jid new" "reg_groups db"] in \<open>auto simp: groups_ok_def demote_folders\<close>)
  have added: "\<exists>t. new\<lparr>rg_added := t\<rparr> \<in> set (upsert_group new ?gs)
      \<and> (case get_registered_group (rg_jid new) db of None \<Rightarrow> t = rg_added new | Some g \<Rightarrow> t = rg_added g)"
  proof (cases "get_registered_group (rg_jid new) db")
    case None
    then have "rg_jid new \<notin> rg_jid ` set (reg_groups db)"
      by (auto simp: get_registered_group_def find_None_iff)
    then have "new\<lparr>rg_added := rg_added new\<rparr> \<in> set (upsert_group new ?gs)" by (simp add: upsert_group_def)
    with None show ?thesis by auto
  next
    case (Some g)
    then have g: "g \<in> set (reg_groups db)" "rg_jid g = rg_jid new"
      by (auto simp: get_registered_group_def find_Some_iff)
    then have "g \<in> set ?gs" by (force simp: demote_others_def)
    from upsert_member[OF this g(2)] have "new\<lparr>rg_added := rg_added g\<rparr> \<in> set (upsert_group new ?gs)" .
    with Some show ?thesis by auto
  qed
  then obtain t where t: "new\<lparr>rg_added := t\<rparr> \<in> set (upsert_group new ?gs)"
    "case get_registered_group (rg_jid new) db of None \<Rightarrow> t = rg_added new | Some g \<Rightarrow> t = rg_added g" by blast
  have "get_registered_group (rg_jid new) db' = Some (new\<lparr>rg_added := t\<rparr>)"
    using find_map_same[OF t(1), of rg_jid] ok by (simp add: get_registered_group_def db' groups_ok_def)
  with t ok show ?thesis by (auto simp: db')
qed

definition demo_group :: reg_group where
  "demo_group = \<lparr>rg_jid = ''tg:1'', rg_name = ''team'', rg_folder = ''team'', rg_trigger = None, rg_added = 5,
     rg_config = None, rg_requires_trigger = True, rg_main = True\<rparr>"

theorem registry_invariant_witness:
  "\<exists>db'. set_registered_group (demo_group\<lparr>rg_jid := ''tg:2'', rg_folder := ''boss''\<rparr>)
      (empty_chat_db\<lparr>reg_groups := [demo_group]\<rparr>) = Some db' \<and> groups_ok (reg_groups db')
    \<and> map rg_main (reg_groups db') = [False, True]"
proof -
  let ?new = "demo_group\<lparr>rg_jid := ''tg:2'', rg_folder := ''boss''\<rparr>"
  let ?db = "empty_chat_db\<lparr>reg_groups := [demo_group]\<rparr>"
  have o: "groups_ok (reg_groups ?db)" by code_simp
  have m: "map_option (\<lambda>d. map rg_main (reg_groups d)) (set_registered_group ?new ?db) = Some [False, True]"
    by code_simp
  then obtain db' where db': "set_registered_group ?new ?db = Some db'" by auto
  with registry_invariant[OF o db'] m show ?thesis by auto
qed

end
