(* ===== verification/Immune.thy ===== *)
theory Immune
  imports Prelude
begin

text \<open>
  \<open>host/evolution/immune.py\<close> with the \<open>immune_threats\<close> functions of \<open>host/db.py\<close>: every message is
  checked for a blocked sender, for an injection pattern and for repetition, and senders are
  blocked once enough is recorded about them.

  The table is the list \<open>threat\<close> rows.  Two things are arguments: \<open>injection\<close>, whether one of the
  regular expressions of \<open>INJECTION_PATTERNS\<close> matches the stripped text, and \<open>hash\<close>, the SHA-256
  digest.  Times are seconds.  Database faults are the record \<open>faults\<close>, one entry per call, since
  the code treats a failing call differently in each place.
\<close>

section \<open>The table\<close>

record threat =
  th_sender :: string
  th_hash :: string
  th_type :: string
  th_count :: nat
  th_blocked :: bool
  th_first :: int
  th_last :: int

text \<open>The upsert on the unique pair of sender and hash; a conflict keeps the old type.\<close>

fun upsert_threat :: "int \<Rightarrow> string \<Rightarrow> string \<Rightarrow> string \<Rightarrow> threat list \<Rightarrow> threat list" where
  "upsert_threat now s h ty [] = [\<lparr>th_sender = s, th_hash = h, th_type = ty, th_count = 1,
     th_blocked = False, th_first = now, th_last = now\<rparr>]"
| "upsert_threat now s h ty (r # rs) =
     (if th_sender r = s \<and> th_hash r = h
      then r\<lparr>th_count := th_count r + 1, th_last := now\<rparr> # rs
      else r # upsert_threat now s h ty rs)"

definition total_threats :: "string \<Rightarrow> threat list \<Rightarrow> nat" where
  "total_threats s db = sum_list (map th_count (filter (\<lambda>r. th_sender r = s) db))"

definition record_immune_threat ::
  "int \<Rightarrow> string \<Rightarrow> string \<Rightarrow> string \<Rightarrow> threat list \<Rightarrow> threat list \<times> nat" where
  "record_immune_threat now s h ty db =
     (let db' = upsert_threat now s h ty db in (db', total_threats s db'))"

definition is_sender_blocked :: "string \<Rightarrow> threat list \<Rightarrow> bool" where
  "is_sender_blocked s db = (\<exists>r \<in> set db. th_sender r = s \<and> th_blocked r)"

definition block_sender :: "string \<Rightarrow> threat list \<Rightarrow> threat list" where
  "block_sender s db = map (\<lambda>r. if th_sender r = s then r\<lparr>th_blocked := True\<rparr> else r) db"

definition get_recent_threat_count :: "int \<Rightarrow> string \<Rightarrow> string \<Rightarrow> int \<Rightarrow> threat list \<Rightarrow> nat" where
  "get_recent_threat_count now s h hours db =
     (case filter (\<lambda>r. th_sender r = s \<and> th_hash r = h \<and> th_last r > now - hours * 3600) db of
        [] \<Rightarrow> 0 | r # _ \<Rightarrow> th_count r)"

text \<open>\<open>COUNT(*)\<close>, \<open>SUM(blocked)\<close>, \<open>SUM(count)\<close>; the sums of an empty table are \<open>NULL\<close>.\<close>

definition get_immune_stats :: "threat list \<Rightarrow> nat \<times> nat option \<times> nat option" where
  "get_immune_stats db = (length db,
     if db = [] then None else Some (length (filter th_blocked db)),
     if db = [] then None else Some (sum_list (map th_count db)))"

section \<open>The check\<close>

definition SPAM_THRESHOLD :: nat where "SPAM_THRESHOLD = 10"
definition THREAT_BLOCK_THRESHOLD :: nat where "THREAT_BLOCK_THRESHOLD = 5"

datatype db_fault = Locked | Broken

record faults =
  f_blocked :: "db_fault option"
  f_track :: bool
  f_count :: bool
  f_record :: bool
  f_block :: bool

definition no_faults :: faults where
  "no_faults = \<lparr>f_blocked = None, f_track = False, f_count = False, f_record = False, f_block = False\<rparr>"

definition track_message :: "faults \<Rightarrow> int \<Rightarrow> string \<Rightarrow> string \<Rightarrow> threat list \<Rightarrow> threat list" where
  "track_message f now s h db =
     (if f_track f then db else fst (record_immune_threat now s h ''seen'' db))"

definition is_spam :: "faults \<Rightarrow> int \<Rightarrow> string \<Rightarrow> string \<Rightarrow> threat list \<Rightarrow> bool" where
  "is_spam f now s h db = (\<not> f_count f \<and> get_recent_threat_count now s h 1 db \<ge> SPAM_THRESHOLD)"

definition record_threat ::
  "faults \<Rightarrow> (string \<Rightarrow> string) \<Rightarrow> int \<Rightarrow> string \<Rightarrow> string \<Rightarrow> string \<Rightarrow> threat list \<Rightarrow> threat list" where
  "record_threat f hash now s content ty db =
     (if f_record f then db
      else let (db', n) = record_immune_threat now s (hash content) ty db in
        if n \<ge> THREAT_BLOCK_THRESHOLD \<and> \<not> f_block f then block_sender s db' else db')"

definition check_message ::
  "faults \<Rightarrow> (string \<Rightarrow> bool) \<Rightarrow> (string \<Rightarrow> string) \<Rightarrow> int \<Rightarrow> string \<Rightarrow> string \<Rightarrow> threat list
     \<Rightarrow> threat list \<times> bool \<times> string option" where
  "check_message f injection hash now content sender db =
     (if sender = [] then (db, False, Some ''empty_sender'')
      else case f_blocked f of
        Some Locked \<Rightarrow> (db, True, None)
      | Some Broken \<Rightarrow> (db, False, Some ''immune_check_error'')
      | None \<Rightarrow>
          if is_sender_blocked sender db then (db, False, Some ''blocked'')
          else if injection (strip content)
          then (record_threat f hash now sender content ''injection'' db, False, Some ''injection'')
          else let db' = track_message f now sender (hash content) db in
            if is_spam f now sender (hash content) db'
            then (record_threat f hash now sender content ''spam'' db', False, Some ''spam'')
            else (db', True, None))"

text \<open>A history of messages, each with its faults, time, text and sender.\<close>

type_synonym received = "faults \<times> int \<times> string \<times> string"

definition receive ::
  "(string \<Rightarrow> bool) \<Rightarrow> (string \<Rightarrow> string) \<Rightarrow> received \<Rightarrow> threat list \<Rightarrow> threat list" where
  "receive injection hash m db = (case m of (f, now, content, sender) \<Rightarrow>
     fst (check_message f injection hash now content sender db))"

section \<open>Rows\<close>

definition rows_ok :: "threat list \<Rightarrow> bool" where
  "rows_ok db = (distinct (map (\<lambda>r. (th_sender r, th_hash r)) db) \<and> (\<forall>r \<in> set db. 0 < th_count r))"

definition rows_of :: "string \<Rightarrow> threat list \<Rightarrow> threat list" where
  "rows_of s db = filter (\<lambda>r. th_sender r = s) db"

definition seen_count :: "string \<Rightarrow> string \<Rightarrow> threat list \<Rightarrow> nat" where
  "seen_count s h db = (case filter (\<lambda>r. th_sender r = s \<and> th_hash r = h) db of [] \<Rightarrow> 0 | r # _ \<Rightarrow> th_count r)"

lemma upsert_keys: "(\<lambda>r. (th_sender r, th_hash r)) ` set (upsert_threat now s h ty db)
    = insert (s, h) ((\<lambda>r. (th_sender r, th_hash r)) ` set db)"
  by (induction db) auto

lemma upsert_ok: "rows_ok db \<Longrightarrow> rows_ok (upsert_threat now s h ty db)"
proof (induction db)
  case (Cons r rs)
  have "(th_sender r, th_hash r) \<notin> (\<lambda>r. (th_sender r, th_hash r)) ` set (upsert_threat now s h ty rs)"
    if "\<not> (th_sender r = s \<and> th_hash r = h)"
    using Cons.prems that by (auto simp: rows_ok_def upsert_keys)
  with Cons show ?case by (auto simp: rows_ok_def)
qed (simp add: rows_ok_def)

lemma total_upsert [simp]:
  "total_threats s' (upsert_threat now s h ty db) = total_threats s' db + (if s' = s then 1 else 0)"
  by (induction db) (auto simp: total_threats_def)

lemma rows_of_upsert [simp]: "s' \<noteq> s \<Longrightarrow> rows_of s' (upsert_threat now s h ty db) = rows_of s' db"
  by (induction db) (auto simp: rows_of_def)

lemma blocked_upsert [simp]:
  "is_sender_blocked s' (upsert_threat now s h ty db) = is_sender_blocked s' db"
  by (induction db) (auto simp: is_sender_blocked_def)

lemma seen_upsert [simp]: "seen_count s' h' (upsert_threat now s h ty db)
    = seen_count s' h' db + (if s' = s \<and> h' = h then 1 else 0)"
  by (induction db) (auto simp: seen_count_def)

lemma recent_upsert: "get_recent_threat_count now s h 1 (upsert_threat now s h ty db)
    = seen_count s h (upsert_threat now s h ty db)" if "rows_ok db"
  using that
proof (induction db)
  case (Cons r rs)
  then show ?case by (auto simp: get_recent_threat_count_def seen_count_def rows_ok_def)
qed (simp add: get_recent_threat_count_def seen_count_def)

lemma rows_of_block [simp]: "s' \<noteq> s \<Longrightarrow> rows_of s' (block_sender s db) = rows_of s' db"
  by (induction db) (auto simp: rows_of_def block_sender_def)

lemma block_keys: "map (\<lambda>r. (th_sender r, th_hash r)) (block_sender s db) = map (\<lambda>r. (th_sender r, th_hash r)) db"
  by (induction db) (auto simp: block_sender_def)

lemma ok_block [simp]: "rows_ok (block_sender s db) = rows_ok db"
proof -
  have "(\<forall>r \<in> set (block_sender s db). 0 < th_count r) = (\<forall>r \<in> set db. 0 < th_count r)"
    by (induction db) (auto simp: block_sender_def)
  then show ?thesis by (simp only: rows_ok_def block_keys)
qed

lemma blocked_block [simp]: "is_sender_blocked s' (block_sender s db)
    = (is_sender_blocked s' db \<or> s' = s \<and> rows_of s db \<noteq> [])"
  by (induction db) (auto simp: is_sender_blocked_def block_sender_def rows_of_def)

lemma total_rows_of: "total_threats s db = sum_list (map th_count (rows_of s db))"
  by (simp add: total_threats_def rows_of_def)

section \<open>Properties\<close>

lemma upsert_nonempty: "rows_of s (upsert_threat now s h ty db) \<noteq> []"
  by (induction db) (auto simp: rows_of_def)

lemma record_threat_ok: "rows_ok db \<Longrightarrow> rows_ok (record_threat f hash now s c ty db)"
  by (simp add: record_threat_def record_immune_threat_def Let_def upsert_ok)

lemma record_threat_other: "s' \<noteq> s \<Longrightarrow> rows_of s' (record_threat f hash now s c ty db) = rows_of s' db"
  by (simp add: record_threat_def record_immune_threat_def Let_def)

lemma record_threat_blocked: "is_sender_blocked s' (record_threat f hash now s c ty db)
    = (is_sender_blocked s' db \<or> s' = s \<and> \<not> f_record f \<and> \<not> f_block f \<and> 5 \<le> total_threats s db + 1)"
  by (auto simp: record_threat_def record_immune_threat_def Let_def THREAT_BLOCK_THRESHOLD_def upsert_nonempty)

lemma track_simps [simp]:
  "rows_ok db \<Longrightarrow> rows_ok (track_message f now s h db)"
  "s' \<noteq> s \<Longrightarrow> rows_of s' (track_message f now s h db) = rows_of s' db"
  "is_sender_blocked s' (track_message f now s h db) = is_sender_blocked s' db"
  by (simp_all add: track_message_def record_immune_threat_def Let_def upsert_ok)

lemma receive_ok: "rows_ok db \<Longrightarrow> rows_ok (receive pat hash m db)"
  by (auto simp: receive_def check_message_def Let_def record_threat_ok split: option.splits db_fault.splits prod.splits)

lemma receive_other: "snd (snd (snd m)) \<noteq> s \<Longrightarrow> rows_of s (receive pat hash m db) = rows_of s db"
  by (auto simp: receive_def check_message_def Let_def record_threat_other
      split: option.splits db_fault.splits prod.splits)

lemma receive_blocked: "is_sender_blocked s db \<Longrightarrow> is_sender_blocked s (receive pat hash m db)"
  by (auto simp: receive_def check_message_def Let_def record_threat_blocked
      split: option.splits db_fault.splits prod.splits)

interpretation rows: preserved "receive pat hash" rows_ok for pat hash
  by unfold_locales (rule receive_ok)

interpretation block: preserved "receive pat hash" "is_sender_blocked s" for pat hash s
  by unfold_locales (rule receive_blocked)

interpretation sender: local_effects "receive pat hash" "\<lambda>m. snd (snd (snd m))" rows_of for pat hash
  by unfold_locales (rule receive_other)

text \<open>
  A blocked sender stays blocked whatever messages follow, gets every later message refused
  with the table untouched, and nothing other senders do adds to or blocks what is recorded about
  a sender.
\<close>

theorem block_is_permanent_and_local:
  assumes "s \<noteq> []"
  shows "(is_sender_blocked s db \<longrightarrow> is_sender_blocked s (fold (receive pat hash) ms db)
      \<and> (f_blocked f = None \<longrightarrow> check_message f pat hash now c s (fold (receive pat hash) ms db)
           = (fold (receive pat hash) ms db, False, Some ''blocked'')))
    \<and> ((\<forall>m \<in> set ms. snd (snd (snd m)) \<noteq> s) \<longrightarrow> rows_of s (fold (receive pat hash) ms db) = rows_of s db)"
  using assms block.history_kept[of s db pat hash ms] sender.history_local[of ms s pat hash db]
  by (simp add: check_message_def)

theorem block_is_permanent_and_local_witness:
  "check_message no_faults (\<lambda>c. True) (\<lambda>c. c) 9 ''hi'' ''eve''
     (fold (receive (\<lambda>c. True) (\<lambda>c. c)) [(no_faults, 1, ''x'', ''bob'')]
       [\<lparr>th_sender = ''eve'', th_hash = ''h'', th_type = ''spam'', th_count = 11, th_blocked = True,
         th_first = 0, th_last = 0\<rparr>])
   = (fold (receive (\<lambda>c. True) (\<lambda>c. c)) [(no_faults, 1, ''x'', ''bob'')]
       [\<lparr>th_sender = ''eve'', th_hash = ''h'', th_type = ''spam'', th_count = 11, th_blocked = True,
         th_first = 0, th_last = 0\<rparr>], False, Some ''blocked'')"
  using block_is_permanent_and_local[of "''eve''" "[\<lparr>th_sender = ''eve'', th_hash = ''h'', th_type = ''spam'',
      th_count = 11, th_blocked = True, th_first = 0, th_last = 0\<rparr>]" "\<lambda>c. True" "\<lambda>c. c"
      "[(no_faults, 1, ''x'', ''bob'')]" no_faults 9 "''hi''"]
  by (simp add: is_sender_blocked_def no_faults_def)


lemma allowed_counts:
  assumes "check_message no_faults pat hash now c s db = (db', True, reason)"
  shows "total_threats s db' = total_threats s db + 1"
  using assms by (auto simp: check_message_def no_faults_def track_message_def
      record_immune_threat_def Let_def split: if_splits)

definition is_dan :: "string \<Rightarrow> bool" where "is_dan c = (c = ''DAN'')"

definition four_greetings :: "received list" where
  "four_greetings = [(no_faults, 0, ''hello'', ''ann''), (no_faults, 90000, ''thanks'', ''ann''),
     (no_faults, 180000, ''bye'', ''ann''), (no_faults, 270000, ''hello'', ''ann'')]"


lemma repeat_step:
  assumes "rows_ok db" "\<not> is_sender_blocked s db" "s \<noteq> []" "\<not> pat (strip c)"
  shows "check_message no_faults pat hash now c s db =
    (let db' = upsert_threat now s (hash c) ''seen'' db in
     if seen_count s (hash c) db + 1 \<ge> 10
     then (record_threat no_faults hash now s c ''spam'' db', False, Some ''spam'') else (db', True, None))"
  using assms recent_upsert[OF assms(1), of now s "hash c" "''seen''"]
  by (simp add: check_message_def no_faults_def track_message_def is_spam_def record_immune_threat_def
      Let_def SPAM_THRESHOLD_def)

fun send_all ::
  "(string \<Rightarrow> bool) \<Rightarrow> (string \<Rightarrow> string) \<Rightarrow> string \<Rightarrow> string \<Rightarrow> int list \<Rightarrow> threat list
     \<Rightarrow> threat list \<times> bool list" where
  "send_all pat hash c s [] db = (db, [])"
| "send_all pat hash c s (t # ts) db =
     (let (db1, ok, r) = check_message no_faults pat hash t c s db;
          (db2, oks) = send_all pat hash c s ts db1 in (db2, ok # oks))"

lemma send_all_spec:
  assumes "rows_ok db" "\<not> is_sender_blocked s db" "s \<noteq> []" "\<not> pat (strip c)"
    "seen_count s (hash c) db + length ts \<le> 9"
  shows "\<exists>db'. send_all pat hash c s ts db = (db', replicate (length ts) True) \<and> rows_ok db'
    \<and> \<not> is_sender_blocked s db' \<and> seen_count s (hash c) db' = seen_count s (hash c) db + length ts"
  using assms
proof (induction ts arbitrary: db)
  case (Cons t ts)
  let ?db = "upsert_threat t s (hash c) ''seen'' db"
  have c: "check_message no_faults pat hash t c s db = (?db, True, None)"
    using repeat_step[where pat = pat, OF Cons.prems(1-4), of hash t] Cons.prems(5) by (simp add: Let_def)
  have "\<exists>db'. send_all pat hash c s ts ?db = (db', replicate (length ts) True) \<and> rows_ok db'
    \<and> \<not> is_sender_blocked s db' \<and> seen_count s (hash c) db' = seen_count s (hash c) ?db + length ts"
    by (rule Cons.IH) (use Cons.prems in \<open>auto simp: upsert_ok\<close>)
  then show ?case by (auto simp: c)
qed simp

lemma seen_le_total: "seen_count s h db \<le> total_threats s db"
  by (induction db) (auto simp: seen_count_def total_threats_def)

text \<open>
  A sender who repeats one harmless text is let through nine times and refused as a spammer
  and blocked for good at the tenth, whatever the times of the messages: every repetition renews
  the row's last-seen time before the one-hour window is tested, so the window never expires and
  a polite habit of weeks counts like a flood.
\<close>

theorem tenth_repetition_blocks:
  assumes "rows_ok db" "\<not> is_sender_blocked s db" "s \<noteq> []" "\<not> pat (strip c)"
    "seen_count s (hash c) db = 0" "length ts = 9"
  shows "\<exists>db9 db10. send_all pat hash c s ts db = (db9, replicate 9 True)
    \<and> check_message no_faults pat hash t c s db9 = (db10, False, Some ''spam'')
    \<and> is_sender_blocked s db10"
proof -
  obtain db9 where 9: "send_all pat hash c s ts db = (db9, replicate 9 True)" "rows_ok db9"
    "\<not> is_sender_blocked s db9" "seen_count s (hash c) db9 = 9"
    using send_all_spec[where pat = pat, OF assms(1-4), of hash ts] assms(5,6) by auto
  let ?db = "upsert_threat t s (hash c) ''seen'' db9"
  have "9 \<le> total_threats s db9" using seen_le_total[of s "hash c" db9] 9(4) by simp
  then have "is_sender_blocked s (record_threat no_faults hash t s c ''spam'' ?db)"
    by (simp add: record_threat_blocked no_faults_def)
  then show ?thesis
    using 9(1) repeat_step[where pat = pat, OF 9(2,3) assms(3,4), of hash t] 9(4) by (simp add: Let_def)
qed

theorem tenth_repetition_blocks_witness:
  "\<exists>db9 db10. send_all (\<lambda>c. False) (\<lambda>c. c) ''thanks'' ''ann'' (map (\<lambda>d. int d * 604800) [0..<9]) [] = (db9, replicate 9 True)
    \<and> check_message no_faults (\<lambda>c. False) (\<lambda>c. c) 99999999 ''thanks'' ''ann'' db9 = (db10, False, Some ''spam'')
    \<and> is_sender_blocked ''ann'' db10"
  by (rule tenth_repetition_blocks) (simp_all add: rows_ok_def is_sender_blocked_def seen_count_def)

text \<open>
  The table keeps one row per sender and text with a positive count, over any history of
  messages and faults; the statistics count its rows, so a blocked sender is reported once per
  recorded text, not once.
\<close>

theorem immune_rows:
  assumes "rows_ok db"
  shows "rows_ok (fold (receive pat hash) ms db)
    \<and> (\<forall>s. s \<noteq> [] \<longrightarrow> rows_of s db \<noteq> [] \<longrightarrow>
        (case get_immune_stats (block_sender s db) of (n, blocked, incidents) \<Rightarrow>
           n = length db \<and> (\<exists>b. blocked = Some b \<and> length (rows_of s db) \<le> b)))"
proof -
  have "length (rows_of s db) \<le> length (filter th_blocked (block_sender s db))" for s
    by (induction db) (auto simp: rows_of_def block_sender_def)
  moreover have "length (block_sender s db) = length db" for s by (simp add: block_sender_def)
  moreover have "block_sender s db = [] \<Longrightarrow> rows_of s db = []" for s
    by (simp add: block_sender_def rows_of_def)
  ultimately show ?thesis
    using rows.history_kept[OF assms] by (auto simp: get_immune_stats_def)
qed

theorem immune_rows_witness:
  "length (fold (receive is_dan (\<lambda>c. c)) four_greetings []) = 3
   \<and> rows_ok (fold (receive is_dan (\<lambda>c. c)) four_greetings [])"
proof -
  have "rows_ok []" by (simp add: rows_ok_def)
  then have "rows_ok (fold (receive is_dan (\<lambda>c. c)) four_greetings [])"
    by (rule immune_rows[THEN conjunct1])
  moreover have "length (fold (receive is_dan (\<lambda>c. c)) four_greetings []) = 3" by code_simp
  ultimately show ?thesis by simp
qed

end
