(* ===== verification/Rbac.thy ===== *)
theory Rbac
  imports Prelude
begin

text \<open>
  \<open>host/rbac/roles.py\<close>: role grants in SQLite behind two caches, a bounded one from subjects to
  role sets and one for the question whether any grant exists, both with a time to live.

  The store is the record \<open>rbac\<close>.  A cache miss reads the table under one lock and fills the cache
  under another, so other threads can act in between: \<open>pending\<close> holds the roles a thread has read and
  not yet cached.  Times are seconds.
\<close>

section \<open>Roles and permissions\<close>

datatype permission = MEMORY_READ | MEMORY_WRITE | MEMORY_DELETE | AGENT_SPAWN | AGENT_KILL
  | AGENT_LIST | TASK_SUBMIT | TASK_CANCEL | REGISTRY_READ | REGISTRY_WRITE | RBAC_GRANT | RBAC_REVOKE

datatype role = ADMIN | OPERATOR | AGENT | VIEWER

definition all_permissions :: "permission set" where
  "all_permissions = {MEMORY_READ, MEMORY_WRITE, MEMORY_DELETE, AGENT_SPAWN, AGENT_KILL, AGENT_LIST,
     TASK_SUBMIT, TASK_CANCEL, REGISTRY_READ, REGISTRY_WRITE, RBAC_GRANT, RBAC_REVOKE}"

fun role_permissions :: "role \<Rightarrow> permission set" where
  "role_permissions ADMIN = all_permissions"
| "role_permissions OPERATOR = {MEMORY_READ, MEMORY_WRITE, AGENT_SPAWN, AGENT_KILL, AGENT_LIST,
     TASK_SUBMIT, TASK_CANCEL, REGISTRY_READ}"
| "role_permissions AGENT = {MEMORY_READ, MEMORY_WRITE, AGENT_LIST, TASK_SUBMIT, REGISTRY_READ}"
| "role_permissions VIEWER = {MEMORY_READ, AGENT_LIST, REGISTRY_READ}"

fun role_value :: "role \<Rightarrow> string" where
  "role_value ADMIN = ''admin''"
| "role_value OPERATOR = ''operator''"
| "role_value AGENT = ''agent''"
| "role_value VIEWER = ''viewer''"

text \<open>\<open>Role(v)\<close>, which raises \<open>ValueError\<close> on an unknown value.\<close>

definition role_of :: "string \<Rightarrow> role option" where
  "role_of v = List.find (\<lambda>r. role_value r = v) [ADMIN, OPERATOR, AGENT, VIEWER]"

section \<open>The store\<close>

record grant_row =
  g_subject :: string
  g_role :: string
  g_by :: "string option"
  g_at :: int

record rbac =
  grants :: "grant_row list"
  role_cache :: "(string, role set \<times> int) dict"
  empty_cache :: "(bool \<times> int) option"
  pending :: "(string \<times> role set) list"

definition new_rbac :: rbac where
  "new_rbac = \<lparr>grants = [], role_cache = [], empty_cache = None, pending = []\<rparr>"

definition CACHE_TTL :: int where "CACHE_TTL = 60"
definition CACHE_MAXSIZE :: nat where "CACHE_MAXSIZE = 512"

definition get_cached_roles :: "int \<Rightarrow> string \<Rightarrow> rbac \<Rightarrow> rbac \<times> role set option" where
  "get_cached_roles now s st = (case dget (role_cache st) s of
      None \<Rightarrow> (st, None)
    | Some (rs, at) \<Rightarrow> if now - at < CACHE_TTL then (st, Some rs)
        else (st\<lparr>role_cache := ddel s (role_cache st)\<rparr>, None))"

text \<open>\<open>min(cache, key=...)\<close>: the first key with the least time.\<close>

fun oldest_key :: "('k, 'a \<times> int) dict \<Rightarrow> ('k \<times> int) option" where
  "oldest_key [] = None"
| "oldest_key ((k, (_, t)) # d) = (case oldest_key d of None \<Rightarrow> Some (k, t)
     | Some (k', t') \<Rightarrow> if t' < t then Some (k', t') else Some (k, t))"

definition evict :: "('k, 'a \<times> int) dict \<Rightarrow> ('k, 'a \<times> int) dict" where
  "evict c = (if length c \<ge> CACHE_MAXSIZE
     then (case oldest_key c of None \<Rightarrow> c | Some (k, _) \<Rightarrow> ddel k c) else c)"

definition set_cached_roles :: "int \<Rightarrow> string \<Rightarrow> role set \<Rightarrow> rbac \<Rightarrow> rbac" where
  "set_cached_roles now s rs st = st\<lparr>role_cache := dset s (rs, now) (evict (role_cache st))\<rparr>"

definition invalidate_cache :: "string \<Rightarrow> rbac \<Rightarrow> rbac" where
  "invalidate_cache s st = st\<lparr>role_cache := ddel s (role_cache st), empty_cache := None\<rparr>"

text \<open>\<open>INSERT OR REPLACE\<close> on the key (subject, role) deletes the old row and appends the new one.\<close>

definition grant :: "int \<Rightarrow> string \<Rightarrow> role \<Rightarrow> string option \<Rightarrow> rbac \<Rightarrow> rbac" where
  "grant now s r by st = invalidate_cache s (st\<lparr>grants :=
     filter (\<lambda>g. \<not> (g_subject g = s \<and> g_role g = role_value r)) (grants st)
       @ [\<lparr>g_subject = s, g_role = role_value r, g_by = by, g_at = now\<rparr>]\<rparr>)"

definition revoke :: "string \<Rightarrow> role \<Rightarrow> rbac \<Rightarrow> rbac" where
  "revoke s r st = invalidate_cache s (st\<lparr>grants :=
     filter (\<lambda>g. \<not> (g_subject g = s \<and> g_role g = role_value r)) (grants st)\<rparr>)"

text \<open>The query of \<open>get_roles\<close>, which skips unknown role values.\<close>

definition fetch_roles :: "string \<Rightarrow> grant_row list \<Rightarrow> role set" where
  "fetch_roles s gs = set (List.map_filter (\<lambda>g. if g_subject g = s then role_of (g_role g) else None) gs)"

definition get_roles :: "int \<Rightarrow> string \<Rightarrow> rbac \<Rightarrow> rbac \<times> role set" where
  "get_roles now s st = (case get_cached_roles now s st of
      (st, Some rs) \<Rightarrow> (st, rs)
    | (st, None) \<Rightarrow> (let rs = fetch_roles s (grants st) in (set_cached_roles now s rs st, rs)))"

definition get_permissions :: "int \<Rightarrow> string \<Rightarrow> rbac \<Rightarrow> rbac \<times> permission set" where
  "get_permissions now s st = (case get_roles now s st of (st, rs) \<Rightarrow> (st, \<Union> (role_permissions ` rs)))"

definition is_empty_store :: "int \<Rightarrow> rbac \<Rightarrow> rbac \<times> bool" where
  "is_empty_store now st =
     (let fill = (let b = (grants st = []) in (st\<lparr>empty_cache := Some (b, now)\<rparr>, b)) in
      case empty_cache st of None \<Rightarrow> fill
      | Some (b, at) \<Rightarrow> if now - at < CACHE_TTL then (st, b) else fill)"

definition has_permission :: "int \<Rightarrow> string \<Rightarrow> permission \<Rightarrow> rbac \<Rightarrow> rbac \<times> bool" where
  "has_permission now s p st = (case is_empty_store now st of
      (st, True) \<Rightarrow> (st, True)
    | (st, False) \<Rightarrow> (case get_permissions now s st of (st, ps) \<Rightarrow> (st, p \<in> ps)))"

datatype permission_error = Lacks_permission string permission

definition require_permission ::
  "int \<Rightarrow> string \<Rightarrow> permission \<Rightarrow> rbac \<Rightarrow> rbac \<times> (permission_error + bool)" where
  "require_permission now s p st = (case has_permission now s p st of
      (st, True) \<Rightarrow> (st, Inr True) | (st, False) \<Rightarrow> (st, Inl (Lacks_permission s p)))"

definition list_grants :: "rbac \<Rightarrow> (string \<times> role \<times> string option \<times> int) list" where
  "list_grants st = List.map_filter (\<lambda>g. map_option (\<lambda>r. (g_subject g, r, g_by g, g_at g)) (role_of (g_role g)))
     (grants st)"

text \<open>Calls that run undisturbed, and the two halves of a read that does not.\<close>

datatype rbac_op =
    Grant int string role "string option"
  | Revoke string role
  | Check int string permission
  | Roles int string

fun rbac_apply :: "rbac_op \<Rightarrow> rbac \<Rightarrow> rbac" where
  "rbac_apply (Grant now s r by) st = grant now s r by st"
| "rbac_apply (Revoke s r) st = revoke s r st"
| "rbac_apply (Check now s p) st = fst (has_permission now s p st)"
| "rbac_apply (Roles now s) st = fst (get_roles now s st)"

definition read_roles :: "string \<Rightarrow> rbac \<Rightarrow> rbac" where
  "read_roles s st = st\<lparr>pending := pending st @ [(s, fetch_roles s (grants st))]\<rparr>"

definition cache_read :: "int \<Rightarrow> rbac \<Rightarrow> rbac" where
  "cache_read now st = (case pending st of [] \<Rightarrow> st
     | (s, rs) # ps \<Rightarrow> set_cached_roles now s rs (st\<lparr>pending := ps\<rparr>))"

section \<open>Coherence of the caches\<close>

definition coherent :: "rbac \<Rightarrow> bool" where
  "coherent st = ((\<forall>s rs t. dget (role_cache st) s = Some (rs, t) \<longrightarrow> rs = fetch_roles s (grants st))
     \<and> (\<forall>b t. empty_cache st = Some (b, t) \<longrightarrow> b = (grants st = []))
     \<and> dict_ok (role_cache st) \<and> length (role_cache st) \<le> CACHE_MAXSIZE)"

lemma fetch_other: "s' \<noteq> s \<Longrightarrow>
    fetch_roles s' (filter (\<lambda>g. g_subject g = s \<longrightarrow> g_role g \<noteq> v) gs) = fetch_roles s' gs"
  by (induction gs) (auto simp: fetch_roles_def List.map_filter_simps split: option.splits)

lemma fetch_append: "fetch_roles s (gs @ hs) = fetch_roles s gs \<union> fetch_roles s hs"
  by (auto simp: fetch_roles_def map_filter_def)

lemma fetch_single [simp]: "fetch_roles s [g] = (if g_subject g = s then set_option (role_of (g_role g)) else {})"
  by (auto simp: fetch_roles_def List.map_filter_simps split: option.splits)

lemma length_ddel: "length (ddel k d) \<le> length d"
  by (simp add: ddel_def)

lemma length_ddel_less: "k \<in> set (dkeys d) \<Longrightarrow> length (ddel k d) < length d"
  by (auto simp: ddel_def dkeys_def length_filter_less)

lemma oldest_key_in: "oldest_key d = Some (k, t) \<Longrightarrow> k \<in> set (dkeys d)"
  by (induction d arbitrary: k t rule: oldest_key.induct) (auto simp: dkeys_def split: option.splits if_splits)

lemma oldest_key_None: "oldest_key d = None \<longleftrightarrow> d = []"
  by (induction d rule: oldest_key.induct) (auto split: option.splits)

lemma evict_length: "length c \<le> CACHE_MAXSIZE \<Longrightarrow> length (evict c) < CACHE_MAXSIZE"
proof (cases "oldest_key c")
  case None
  then show "length c \<le> CACHE_MAXSIZE \<Longrightarrow> length (evict c) < CACHE_MAXSIZE"
    by (simp add: evict_def oldest_key_None CACHE_MAXSIZE_def)
next
  case (Some p)
  obtain k t where p: "p = (k, t)" by (cases p)
  from Some show "length c \<le> CACHE_MAXSIZE \<Longrightarrow> length (evict c) < CACHE_MAXSIZE"
    using length_ddel_less[OF oldest_key_in[of c k t]] by (auto simp: evict_def p)
qed

lemma evict_sub: "dget (evict c) k = Some v \<Longrightarrow> dget c k = Some v"
  by (auto simp: evict_def split: if_splits option.splits)

lemma evict_ok: "dict_ok c \<Longrightarrow> dict_ok (evict c)"
  by (auto simp: evict_def split: option.splits)

lemma coherent_set: "coherent st \<Longrightarrow> coherent (set_cached_roles now s (fetch_roles s (grants st)) st)"
  using evict_length[of "role_cache st"] evict_sub[of "role_cache st"] evict_ok[of "role_cache st"]
  by (auto simp: coherent_def set_cached_roles_def length_dset)

lemma coherent_get_cached: "coherent st \<Longrightarrow> get_cached_roles now s st = (st', r) \<Longrightarrow>
    coherent st' \<and> grants st' = grants st \<and> (\<forall>rs. r = Some rs \<longrightarrow> rs = fetch_roles s (grants st))"
  using length_ddel[of s "role_cache st"]
  by (auto simp: get_cached_roles_def coherent_def split: option.splits prod.splits if_splits)

lemma grants_set [simp]: "grants (set_cached_roles now s rs st) = grants st"
  by (simp add: set_cached_roles_def)

lemma get_roles_spec: "coherent st \<Longrightarrow> get_roles now s st = (st', rs) \<Longrightarrow>
    coherent st' \<and> grants st' = grants st \<and> rs = fetch_roles s (grants st)"
  using coherent_get_cached[of st now s] coherent_set
  by (fastforce simp: get_roles_def Let_def split: prod.splits option.splits)

lemma is_empty_spec: "coherent st \<Longrightarrow> is_empty_store now st = (st', b) \<Longrightarrow>
    coherent st' \<and> grants st' = grants st \<and> b = (grants st = [])"
  by (auto simp: is_empty_store_def coherent_def Let_def split: option.splits if_splits)

text \<open>What a permission check is to answer, from the table alone.\<close>

definition allowed_by :: "string \<Rightarrow> permission \<Rightarrow> grant_row list \<Rightarrow> bool" where
  "allowed_by s p gs = (gs = [] \<or> (\<exists>r \<in> fetch_roles s gs. p \<in> role_permissions r))"

lemma has_permission_spec:
  assumes "coherent st" "has_permission now s p st = (st', b)"
  shows "coherent st' \<and> grants st' = grants st \<and> b = allowed_by s p (grants st)"
proof -
  obtain st1 e where e: "is_empty_store now st = (st1, e)" by fastforce
  obtain st2 rs where r: "get_roles now s st1 = (st2, rs)" by fastforce
  note E = is_empty_spec[OF assms(1) e]
  note R = get_roles_spec[OF conjunct1[OF E] r]
  show ?thesis
    using assms(2) E R
    by (cases e) (auto simp: has_permission_def get_permissions_def e r allowed_by_def)
qed

lemma coherent_invalidate: "coherent st \<Longrightarrow> dict_ok (role_cache st) \<Longrightarrow>
    (\<And>s'. s' \<noteq> s \<Longrightarrow> fetch_roles s' gs = fetch_roles s' (grants st)) \<Longrightarrow>
    coherent (invalidate_cache s (st\<lparr>grants := gs\<rparr>))"
  using length_ddel[of s "role_cache st"]
  by (auto simp: coherent_def invalidate_cache_def split: if_splits)

lemma coherent_grant: "coherent st \<Longrightarrow> coherent (grant now s r by' st)"
  unfolding grant_def
  by (rule coherent_invalidate) (simp_all add: coherent_def fetch_append fetch_other)

lemma coherent_revoke: "coherent st \<Longrightarrow> coherent (revoke s r st)"
  unfolding revoke_def by (rule coherent_invalidate) (simp_all add: coherent_def fetch_other)

lemma coherent_apply: "coherent st \<Longrightarrow> coherent (rbac_apply op st)"
proof (cases op)
  case (Check now s p)
  then show "coherent st \<Longrightarrow> coherent (rbac_apply op st)"
    using has_permission_spec[of st now s p] by (cases "has_permission now s p st") auto
next
  case (Roles now s)
  then show "coherent st \<Longrightarrow> coherent (rbac_apply op st)"
    using get_roles_spec[of st now s] by (cases "get_roles now s st") auto
qed (auto simp: coherent_grant coherent_revoke)

lemma coherent_new: "coherent new_rbac"
  by (simp add: coherent_def new_rbac_def)

text \<open>The store without its caches is the grants table; reads do not change it.\<close>

fun table_apply :: "rbac_op \<Rightarrow> grant_row list \<Rightarrow> grant_row list" where
  "table_apply (Grant now s r by) gs = filter (\<lambda>g. \<not> (g_subject g = s \<and> g_role g = role_value r)) gs
     @ [\<lparr>g_subject = s, g_role = role_value r, g_by = by, g_at = now\<rparr>]"
| "table_apply (Revoke s r) gs = filter (\<lambda>g. \<not> (g_subject g = s \<and> g_role g = role_value r)) gs"
| "table_apply (Check now s p) gs = gs"
| "table_apply (Roles now s) gs = gs"

lemma grants_apply: "coherent st \<Longrightarrow> grants (rbac_apply op st) = table_apply op (grants st)"
proof (cases op)
  case (Check now s p)
  then show "coherent st \<Longrightarrow> grants (rbac_apply op st) = table_apply op (grants st)"
    using has_permission_spec[of st now s p] by (cases "has_permission now s p st") auto
next
  case (Roles now s)
  then show "coherent st \<Longrightarrow> grants (rbac_apply op st) = table_apply op (grants st)"
    using get_roles_spec[of st now s] by (cases "get_roles now s st") auto
qed (auto simp: grant_def revoke_def invalidate_cache_def)

interpretation calls: refined rbac_apply coherent grants table_apply
  by unfold_locales (simp_all add: coherent_apply grants_apply)

section \<open>Properties\<close>

lemma role_of_value [simp]: "role_of (role_value r) = Some r"
  by (cases r) (simp_all add: role_of_def)

lemma role_of_Some: "role_of v = Some r \<Longrightarrow> role_value r = v"
  by (auto simp: role_of_def split: if_splits)

lemma fetch_iff: "r \<in> fetch_roles s gs \<longleftrightarrow> (\<exists>g \<in> set gs. g_subject g = s \<and> role_of (g_role g) = Some r)"
  by (auto simp: fetch_roles_def map_filter_def image_iff split: if_splits)

lemma role_of_iff: "role_of v = Some r \<longleftrightarrow> v = role_value r"
  using role_of_Some by auto

lemma fetch_revoke: "fetch_roles s (filter (\<lambda>g. g_subject g = s \<longrightarrow> g_role g \<noteq> role_value r) gs)
    = fetch_roles s gs - {r}"
proof (rule set_eqI)
  fix x
  have "role_value x = role_value r \<longleftrightarrow> x = r" by (metis role_of_value option.inject)
  then show "x \<in> fetch_roles s (filter (\<lambda>g. g_subject g = s \<longrightarrow> g_role g \<noteq> role_value r) gs)
      \<longleftrightarrow> x \<in> fetch_roles s gs - {r}"
    by (auto simp: fetch_iff role_of_iff)
qed

text \<open>
  C8: As long as calls do not overlap, both caches are invisible: after any sequence of grants,
  revocations and reads, whatever the times, the store answers exactly what the grants table alone
  says after the same calls -- checks, role lookups, listings and the error of \<open>require_permission\<close>
  alike -- a grant adds its role and a revocation removes it at once, and the role cache never
  exceeds 512 entries.
\<close>

theorem rbac_caches_invisible:
  "let st = fold rbac_apply ops new_rbac; table = fold table_apply ops [] in
    snd (has_permission now s p st) = allowed_by s p table
    \<and> snd (require_permission now s p st) = (if allowed_by s p table then Inr True else Inl (Lacks_permission s p))
    \<and> snd (get_roles now s st) = fetch_roles s table
    \<and> snd (get_roles now s (grant t s r b st)) = insert r (fetch_roles s table)
    \<and> snd (get_roles now s (revoke s r st)) = fetch_roles s table - {r}
    \<and> (s, r, b, t) \<in> set (list_grants (grant t s r b st))
    \<and> length (role_cache st) \<le> 512"
proof -
  let ?st = "fold rbac_apply ops new_rbac" and ?table = "fold table_apply ops []"
  have c: "coherent ?st" by (rule calls.history_kept[OF coherent_new])
  have g: "grants ?st = ?table" using calls.history_refined[OF coherent_new, of ops] by (simp add: new_rbac_def)
  have h: "snd (has_permission now s p ?st) = allowed_by s p ?table"
    using has_permission_spec[OF c] g by (cases "has_permission now s p ?st") auto
  moreover have "snd (require_permission now s p ?st) = (if allowed_by s p ?table then Inr True else Inl (Lacks_permission s p))"
    using h by (auto simp: require_permission_def split: prod.splits bool.splits)
  moreover have roles: "snd (get_roles now s st) = fetch_roles s (grants st)" if "coherent st" for st
    using get_roles_spec[OF that] by (cases "get_roles now s st") auto
  moreover have G: "grants (grant t s r b ?st) = table_apply (Grant t s r b) ?table"
    and "grants (revoke s r ?st) = table_apply (Revoke s r) ?table"
    using grants_apply[OF c, of "Grant t s r b"] grants_apply[OF c, of "Revoke s r"] g by simp_all
  moreover have "(s, r, b, t) \<in> set (list_grants (grant t s r b ?st))"
    by (simp add: list_grants_def G map_filter_def)
  moreover have "length (role_cache ?st) \<le> 512" using c by (simp add: coherent_def CACHE_MAXSIZE_def)
  ultimately show ?thesis
    using roles[OF c] roles[OF coherent_grant[OF c]] roles[OF coherent_revoke[OF c]] g
    by (simp add: Let_def fetch_append fetch_revoke)
qed

text \<open>Roles ordered by what they allow.\<close>

fun role_rank :: "role \<Rightarrow> nat" where
  "role_rank VIEWER = 0"
| "role_rank AGENT = 1"
| "role_rank OPERATOR = 2"
| "role_rank ADMIN = 3"

instantiation role :: linorder
begin

definition less_eq_role :: "role \<Rightarrow> role \<Rightarrow> bool" where
  "less_eq_role r r' = (role_rank r \<le> role_rank r')"

definition less_role :: "role \<Rightarrow> role \<Rightarrow> bool" where
  "less_role r r' = (role_rank r < role_rank r')"

instance
proof
  fix r r' :: role
  show "r \<le> r' \<Longrightarrow> r' \<le> r \<Longrightarrow> r = r'" by (cases r; cases r') (simp_all add: less_eq_role_def)
qed (auto simp: less_eq_role_def less_role_def)

end

text \<open>
  The order of the roles is the inclusion of their permissions, the administrator has all, and only an
  administrator can delete memory, change the registry or change grants.
\<close>

theorem role_hierarchy:
  "(r \<le> r' \<longleftrightarrow> role_permissions r \<subseteq> role_permissions r') \<and> role_permissions ADMIN = UNIV
    \<and> ({MEMORY_DELETE, REGISTRY_WRITE, RBAC_GRANT, RBAC_REVOKE} \<inter> role_permissions r \<noteq> {} \<longleftrightarrow> r = ADMIN)"
proof -
  have u: "all_permissions = UNIV" using permission.exhaust by (auto simp: all_permissions_def)
  have "RBAC_GRANT \<notin> role_permissions x" if "x \<noteq> ADMIN" for x using that by (cases x) simp_all
  moreover have "r \<le> r' \<longleftrightarrow> role_permissions r \<subseteq> role_permissions r'"
  proof (cases "r = ADMIN")
    case True
    then show ?thesis by (cases r') (auto simp: less_eq_role_def u)
  next
    case False
    then show ?thesis by (cases r; cases r') (simp_all add: less_eq_role_def u)
  qed
  moreover have "{MEMORY_DELETE, REGISTRY_WRITE, RBAC_GRANT, RBAC_REVOKE} \<inter> role_permissions r \<noteq> {} \<longleftrightarrow> r = ADMIN"
    by (cases r) (simp_all add: u)
  ultimately show ?thesis by (simp add: u)
qed

definition overlapped :: rbac where
  "overlapped = cache_read 2 (revoke ''bob'' ADMIN (read_roles ''bob''
     (fold rbac_apply [Grant 0 ''ann'' ADMIN None, Grant 1 ''bob'' ADMIN (Some ''ann'')] new_rbac)))"

text \<open>
  Revocation can fail to take permissions away in two ways.  Revoking the last grant leaves the
  table empty, which counts as unconfigured: every subject then has every permission.  And a read
  that overlaps a revocation caches the roles it saw, so that the subject keeps them for the time
  to live of 60 seconds after the revocation returned.
\<close>

theorem revocation_gaps:
  "snd (has_permission now x p (fold rbac_apply [Grant t s r b, Revoke s r] new_rbac))
    \<and> snd (has_permission 61 ''bob'' RBAC_GRANT overlapped)
    \<and> \<not> allowed_by ''bob'' RBAC_GRANT (grants overlapped)
    \<and> \<not> snd (has_permission 62 ''bob'' RBAC_GRANT overlapped)"
proof -
  have "grants (fold rbac_apply [Grant t s r b, Revoke s r] new_rbac) = []"
    by (simp add: grant_def revoke_def invalidate_cache_def new_rbac_def)
  then have "snd (has_permission now x p (fold rbac_apply [Grant t s r b, Revoke s r] new_rbac))"
    using has_permission_spec[OF calls.history_kept[OF coherent_new, of "[Grant t s r b, Revoke s r]"], of now x p]
    by (cases "has_permission now x p (fold rbac_apply [Grant t s r b, Revoke s r] new_rbac)")
       (auto simp: allowed_by_def)
  moreover have "snd (has_permission 61 ''bob'' RBAC_GRANT overlapped)"
    "\<not> allowed_by ''bob'' RBAC_GRANT (grants overlapped)"
    "\<not> snd (has_permission 62 ''bob'' RBAC_GRANT overlapped)" by code_simp+
  ultimately show ?thesis by blast
qed

end
