(* ===== verification/Pipeline.thy ===== *)
theory Pipeline
  imports ChatDb Immune Rbac GroupQueue
begin

text \<open>
  The message pipeline of \<open>host/main.py\<close>: what \<open>_on_message\<close> lets in (allowlist, permissions, rate
  limits, duplicates, immune system), how a batch is taken from the database and given to the agent
  (\<open>_process_messages_for_jid\<close> with \<open>_process_group_messages\<close>), how the per-chat cursors advance and
  survive a restart, and the polling loop's part in it.

  The module's globals are the record \<open>pipe\<close>; values from the configuration are the record \<open>config\<close>.
  Times are milliseconds; the immune system and the permission store get whole seconds.  A handler
  runs undisturbed except for the agent call, at which a batch is split in \<open>process_begin\<close> and
  \<open>process_end\<close>.  Notices to users are constructors; sending them never fails here, because each
  send is guarded in the code.  The permission store answers; that it may raise, and the start-up
  window before the locks exist, are left out.
\<close>

section \<open>State\<close>

datatype notice = No_permission | Sender_too_fast | Group_too_fast | Account_blocked | Bad_format
  | Repeated | Not_processed | Hint_format | Hint_interrupted | Hint_later | Hint_timeout
  | Error_note string | Monitor_note string string string

text \<open>
  \<open>trigger\<close> is the search with \<open>TRIGGER_PATTERN\<close>, \<open>injection\<close> the one with the immune patterns, \<open>sha\<close>
  the digest, \<open>max_containers\<close> the queue's limit.
\<close>

record config =
  rate_max :: nat
  rate_window :: int
  sender_max :: nat
  sender_window :: int
  max_containers :: int
  trigger :: "string \<Rightarrow> bool"
  injection :: "string \<Rightarrow> bool"
  sha :: "string \<Rightarrow> string"
  assistant_name :: string

record pipe =
  group_ts :: "(string, int list) dict"
  sender_ts :: "(string, int list) dict"
  rate_notify :: "(string, int) dict"
  seen :: "(string, int) dict"
  cursors :: "(string, int) dict"
  last_ts :: int
  fails :: "(string, nat) dict"
  fail_ts :: "(string, int) dict"
  error_notify :: "(string, int) dict"
  monitor_jid :: string
  reg :: "reg_group list"
  cdb :: chat_db
  threats :: "threat list"
  perms :: "rbac option"
  allow :: "string set"
  queue :: gq
  replies :: "(string \<times> notice) list"

definition get_or :: "('k, 'v) dict \<Rightarrow> 'k \<Rightarrow> 'v \<Rightarrow> 'v" where
  "get_or d k v = (case dget d k of None \<Rightarrow> v | Some x \<Rightarrow> x)"

section \<open>Rate limits\<close>

text \<open>A bounded deque of times: drop what left the window, refuse at \<open>m\<close> entries, else append.\<close>

definition slide :: "int \<Rightarrow> int \<Rightarrow> int list \<Rightarrow> int list" where
  "slide w now q = dropWhile (\<lambda>t. now - t > w) q"

definition take_slot :: "nat \<Rightarrow> int \<Rightarrow> int \<Rightarrow> int list \<Rightarrow> int list \<times> bool" where
  "take_slot m w now q = (let q = slide w now q in
     if length q \<ge> m then (q, True) else (push_bounded (m * 2) now q, False))"

definition is_rate_limited :: "config \<Rightarrow> int \<Rightarrow> string \<Rightarrow> pipe \<Rightarrow> pipe \<times> bool" where
  "is_rate_limited cfg now jid p =
     (let (q, b) = take_slot (rate_max cfg) (rate_window cfg) now (get_or (group_ts p) jid []) in
      (p\<lparr>group_ts := dset jid q (group_ts p)\<rparr>, b))"

definition SENDER_TIMESTAMPS_MAX :: nat where "SENDER_TIMESTAMPS_MAX = 5000"

definition is_sender_rate_limited :: "config \<Rightarrow> int \<Rightarrow> string \<Rightarrow> pipe \<Rightarrow> pipe \<times> bool" where
  "is_sender_rate_limited cfg now sender p =
     (let d = sender_ts p;
          d = (if dget d sender = None \<and> length d \<ge> SENDER_TIMESTAMPS_MAX then tl d else d);
          (q, b) = take_slot (max 1 (sender_max cfg)) (max 1000 (sender_window cfg)) now (get_or d sender []) in
      (p\<lparr>sender_ts := dset sender q d\<rparr>, b))"

definition RATE_NOTIFY_COOLDOWN :: int where "RATE_NOTIFY_COOLDOWN = 30000"
definition SENDER_NOTIFY_MAX :: nat where "SENDER_NOTIFY_MAX = 2000"

text \<open>\<open>min(d, key=d.__getitem__)\<close>: the first key with the least value.\<close>

definition least_key :: "('k, int) dict \<Rightarrow> 'k option" where
  "least_key d = map_option fst (oldest_key (map (\<lambda>(k, t). (k, (), t)) d))"

definition notify_sender :: "int \<Rightarrow> string \<Rightarrow> string \<Rightarrow> pipe \<Rightarrow> pipe" where
  "notify_sender now jid sender p =
     (if now - get_or (rate_notify p) sender 0 \<ge> RATE_NOTIFY_COOLDOWN then
        (let d = rate_notify p;
             d = (if length d \<ge> SENDER_NOTIFY_MAX
                  then (case least_key d of None \<Rightarrow> d | Some k \<Rightarrow> ddel k d) else d) in
         p\<lparr>rate_notify := dset sender now d, replies := replies p @ [(jid, Sender_too_fast)]\<rparr>)
      else p)"

section \<open>Duplicates\<close>

definition DEDUP_MAX :: nat where "DEDUP_MAX = 1000"
definition DEDUP_TTL :: int where "DEDUP_TTL = 300000"

definition fingerprint :: "config \<Rightarrow> string \<Rightarrow> string \<Rightarrow> string \<Rightarrow> string" where
  "fingerprint cfg jid sender content = sha cfg (jid @ [CHR 0x00] @ sender @ [CHR 0x00] @ content)"

definition dedup :: "int \<Rightarrow> string \<Rightarrow> (string, int) dict \<Rightarrow> (string, int) dict \<times> bool" where
  "dedup now fp d =
     (let insert_fresh = (\<lambda>d. let d = dset fp now d in
            if length d > DEDUP_MAX then tl d else d) in
      case dget d fp of
        Some at \<Rightarrow> if now - at < DEDUP_TTL then (ddel fp d @ [(fp, at)], True)
                  else (insert_fresh (ddel fp d), False)
      | None \<Rightarrow> (insert_fresh d, False))"

definition is_duplicate_message :: "config \<Rightarrow> int \<Rightarrow> string \<Rightarrow> string \<Rightarrow> string \<Rightarrow> pipe \<Rightarrow> pipe \<times> bool" where
  "is_duplicate_message cfg now jid sender content p =
     (let (d, b) = dedup now (fingerprint cfg jid sender content) (seen p) in (p\<lparr>seen := d\<rparr>, b))"

section \<open>An incoming message\<close>

definition immune_reply :: "string option \<Rightarrow> notice" where
  "immune_reply r = (if r = Some ''blocked'' then Account_blocked
     else if r = Some ''injection'' then Bad_format
     else if r = Some ''spam'' then Repeated else Not_processed)"

definition check_rbac :: "int \<Rightarrow> string \<Rightarrow> pipe \<Rightarrow> pipe \<times> bool" where
  "check_rbac now sender p = (case perms p of None \<Rightarrow> (p, True)
     | Some st \<Rightarrow> (case has_permission (now div 1000) sender TASK_SUBMIT st of
         (st, b) \<Rightarrow> (p\<lparr>perms := Some st\<rparr>, b)))"

text \<open>
  The part after the checks: store, mark a new chat as welcomed, wake the queue.  The function imports
  \<open>route_outbound\<close> in its immune branch, which makes the name local to the whole function; on this
  path it is unbound, so sending the welcome and the queue notice raises, and the \<open>except\<close> around each
  only logs it: nothing is sent.
\<close>

definition welcome_key :: "string \<Rightarrow> string" where
  "welcome_key jid = ''welcomed:'' @ jid"

definition accept_message ::
  "config \<Rightarrow> int \<Rightarrow> string \<Rightarrow> string \<Rightarrow> string \<Rightarrow> string \<Rightarrow> string \<Rightarrow> bool \<Rightarrow> string \<Rightarrow> pipe \<Rightarrow> pipe" where
  "accept_message cfg now mid jid sender sender_name content is_group channel p =
     (let db = store_message \<lparr>m_id = mid, m_jid = jid, m_sender = sender, m_sender_name = sender_name,
                  m_content = content, m_ts = now, m_from_me = False, m_bot = False\<rparr> (cdb p);
          db = store_chat_metadata jid sender_name now channel is_group db;
          new = (get_state (welcome_key jid) db = None);
          db = (if new then set_state (welcome_key jid) ''1'' db else db);
          q = get_group jid (queue p) in
      p\<lparr>cdb := db, queue := enqueue_message_check (max_containers cfg) now False jid q\<rparr>)"

definition on_message ::
  "config \<Rightarrow> faults \<Rightarrow> int \<Rightarrow> string \<Rightarrow> string \<Rightarrow> string \<Rightarrow> string \<Rightarrow> string \<Rightarrow> bool \<Rightarrow> string \<Rightarrow> pipe \<Rightarrow> pipe" where
  "on_message cfg f now mid jid sender sender_name content is_group channel p =
     (if \<not> is_sender_allowed (Some sender) (allow p) then p
      else let (p, permitted) = check_rbac now sender p in
        if \<not> permitted then p\<lparr>replies := replies p @ [(jid, No_permission)]\<rparr>
        else let (p, limited) = is_sender_rate_limited cfg now sender p in
          if limited then notify_sender now jid sender p
          else let (p, limited) = is_rate_limited cfg now jid p in
            if limited then p\<lparr>replies := replies p @ [(jid, Group_too_fast)]\<rparr>
            else let (p, dup) = is_duplicate_message cfg now jid sender content p in
              if dup then p
              else let (ts, safe, reason) = check_message f (injection cfg) (sha cfg) (now div 1000) content sender (threats p);
                       p = p\<lparr>threats := ts\<rparr> in
                if \<not> safe then p\<lparr>replies := replies p @ [(jid, immune_reply reason)]\<rparr>
                else accept_message cfg now mid jid sender sender_name content is_group channel p)"

section \<open>A batch of messages\<close>

definition GROUP_MAX_FAILS :: nat where "GROUP_MAX_FAILS = 5"

definition fail_cooldown :: "nat \<Rightarrow> int" where
  "fail_cooldown n = min (60000 * 2 ^ (n - 1)) 600000"

definition group_by_jid :: "string \<Rightarrow> pipe \<Rightarrow> reg_group option" where
  "group_by_jid jid p = List.find (\<lambda>g. rg_jid g = jid) (reg p)"

definition cursor :: "string \<Rightarrow> pipe \<Rightarrow> int" where
  "cursor jid p = get_or (cursors p) jid (last_ts p)"

definition new_for :: "string \<Rightarrow> pipe \<Rightarrow> message list" where
  "new_for jid p = get_new_messages [jid] (cursor jid p) (cdb p)"

text \<open>The consecutive-failure guard: refuse while cooling down, else decay and go on.\<close>

definition fail_guard :: "int \<Rightarrow> string \<Rightarrow> pipe \<Rightarrow> pipe option" where
  "fail_guard now jid p =
     (let n = get_or (fails p) jid 0 in
      if n \<ge> GROUP_MAX_FAILS then
        (if now - get_or (fail_ts p) jid 0 < fail_cooldown n then None
         else Some (p\<lparr>fails := dset jid (n - 2) (fails p), fail_ts := ddel jid (fail_ts p)\<rparr>))
      else Some p)"

record turn =
  from_bot :: bool
  turn_text :: string
  turn_sender :: string

record agent_run =
  ar_jid :: string
  ar_ts :: int
  ar_prompt :: "message list"
  ar_history :: "turn list"
  ar_session_id :: "string option"

datatype batch = Finished bool | Calling_agent agent_run

definition wanted :: "config \<Rightarrow> reg_group \<Rightarrow> message list \<Rightarrow> message list" where
  "wanted cfg g ms = (if rg_requires_trigger g \<and> \<not> rg_main g
     then filter (\<lambda>m. trigger cfg (m_content m)) ms else ms)"

definition history_for :: "string \<Rightarrow> message list \<Rightarrow> chat_db \<Rightarrow> turn list" where
  "history_for jid ms db = map (\<lambda>m. \<lparr>from_bot = m_bot m, turn_text = m_content m,
        turn_sender = (if m_sender_name m = [] then m_sender m else m_sender_name m)\<rparr>)
     (filter (\<lambda>m. strip (m_content m) \<noteq> [])
       (filter (\<lambda>m. m_ts m \<notin> m_ts ` set ms) (get_conversation_history jid 10 db)))"

definition process_begin :: "config \<Rightarrow> int \<Rightarrow> string \<Rightarrow> pipe \<Rightarrow> pipe \<times> batch" where
  "process_begin cfg now jid p = (case group_by_jid jid p of None \<Rightarrow> (p, Finished True)
     | Some g \<Rightarrow>
        (let msgs = new_for jid p in
         if msgs = [] then (p, Finished True)
         else case fail_guard now jid p of None \<Rightarrow> (p, Finished False)
           | Some p \<Rightarrow>
              (let ms = wanted cfg g msgs in
               if ms = [] then (p, Finished False)
               else (p, Calling_agent \<lparr>ar_jid = jid, ar_ts = Max (m_ts ` set msgs), ar_prompt = ms,
                       ar_history = history_for jid ms (cdb p),
                       ar_session_id = get_session (rg_folder g) (cdb p)\<rparr>))))"

definition cursor_key :: "string \<Rightarrow> string" where
  "cursor_key jid = ''cursorJID:'' @ jid"

definition advance_cursor :: "string \<Rightarrow> int \<Rightarrow> pipe \<Rightarrow> pipe" where
  "advance_cursor jid ts p =
     (let c = max (get_or (cursors p) jid 0) ts;
          db = set_state (cursor_key jid) (show_int c) (cdb p);
          p = p\<lparr>cursors := dset jid c (cursors p), cdb := db\<rparr> in
      if ts > last_ts p then p\<lparr>last_ts := ts, cdb := set_state ''lastTimestamp'' (show_int ts) db\<rparr> else p)"

text \<open>How the agent call ends; \<open>succeeded\<close> says whether it called \<open>on_success\<close> before.\<close>

datatype run_end = Ended_ok | Ended_error string | Ended_timeout | Ended_raised

definition count_failure :: "int \<Rightarrow> string \<Rightarrow> pipe \<Rightarrow> pipe" where
  "count_failure now jid p = p\<lparr>fails := dset jid (get_or (fails p) jid 0 + 1) (fails p),
     fail_ts := dset jid now (fail_ts p)\<rparr>"

definition error_hint :: "string \<Rightarrow> notice" where
  "error_hint e = (let e = lower e in
     if sublist ''json'' e \<or> sublist ''parse'' e then Hint_format
     else if sublist ''no output'' e \<or> sublist ''marker'' e then Hint_interrupted else Hint_later)"

definition reply :: "string \<Rightarrow> notice \<Rightarrow> pipe \<Rightarrow> pipe" where
  "reply jid n p = p\<lparr>replies := replies p @ [(jid, n)]\<rparr>"

text \<open>The callbacks of the agent call: each output is stored as the assistant's reply (id, text, time).\<close>

definition store_bot_reply :: "config \<Rightarrow> string \<Rightarrow> string \<times> string \<times> int \<Rightarrow> pipe \<Rightarrow> pipe" where
  "store_bot_reply cfg jid out p = (case out of (mid, text, t) \<Rightarrow>
     p\<lparr>cdb := store_message \<lparr>m_id = mid, m_jid = jid, m_sender = ''bot'', m_sender_name = assistant_name cfg,
         m_content = text, m_ts = t, m_from_me = True, m_bot = True\<rparr> (cdb p)\<rparr>)"

definition URGENT_PREFIX :: string where "URGENT_PREFIX = ''|||URGENT|||''"
definition MONITOR_CTX_SEP :: string where "MONITOR_CTX_SEP = ''|||MONITOR_CONTEXT|||''"
definition ERROR_NOTIFY_COOLDOWN :: int where "ERROR_NOTIFY_COOLDOWN = 300000"

text \<open>\<open>s.split(sep, 1)\<close>, with an empty rest where the separator does not occur.\<close>

fun cut_at :: "string \<Rightarrow> string \<Rightarrow> string \<times> string" where
  "cut_at sep [] = ([], [])"
| "cut_at sep (c # cs) = (if prefix sep (c # cs) then ([], drop (length sep) (c # cs))
     else case cut_at sep cs of (a, b) \<Rightarrow> (c # a, b))"

definition error_parts :: "string \<Rightarrow> string \<times> string" where
  "error_parts msg = (if sublist MONITOR_CTX_SEP msg
     then (case cut_at MONITOR_CTX_SEP msg of (a, b) \<Rightarrow> (strip a, strip b)) else (msg, []))"

definition on_error :: "int \<Rightarrow> string \<Rightarrow> string \<Rightarrow> string \<Rightarrow> pipe \<Rightarrow> pipe" where
  "on_error now jid folder msg p =
     (let urgent = prefix URGENT_PREFIX msg;
          msg = (if urgent then drop (length URGENT_PREFIX) msg else msg) in
      if \<not> urgent \<and> now - get_or (error_notify p) jid 0 < ERROR_NOTIFY_COOLDOWN then p
      else let p = (if urgent then p else p\<lparr>error_notify := dset jid now (error_notify p)\<rparr>);
               (u, ctx) = error_parts msg;
               p = reply jid (Error_note u) p in
        if monitor_jid p \<noteq> [] \<and> monitor_jid p \<noteq> jid
        then reply (monitor_jid p) (Monitor_note folder u (take 2000 ctx)) p else p)"

definition process_end ::
  "config \<Rightarrow> int \<Rightarrow> agent_run \<Rightarrow> (string \<times> string \<times> int) list \<Rightarrow> bool \<Rightarrow> run_end \<Rightarrow> pipe \<Rightarrow> pipe \<times> bool option" where
  "process_end cfg now r outs succeeded e p =
     (let jid = ar_jid r;
          p = fold (store_bot_reply cfg jid) outs p;
          p = (if succeeded then advance_cursor jid (ar_ts r)
                 (p\<lparr>fails := ddel jid (fails p), fail_ts := ddel jid (fail_ts p)\<rparr>) else p) in
      case e of
        Ended_ok \<Rightarrow> (p, Some succeeded)
      | Ended_error err \<Rightarrow> (if succeeded then p else reply jid (error_hint err) (count_failure now jid p), Some succeeded)
      | Ended_timeout \<Rightarrow> (reply jid Hint_timeout (count_failure now jid p), Some succeeded)
      | Ended_raised \<Rightarrow> (p, None))"

text \<open>What the group queue makes of the result.\<close>

definition queue_outcome :: "bool option \<Rightarrow> outcome" where
  "queue_outcome r = (case r of None \<Rightarrow> Raised | Some True \<Rightarrow> Succeeded | Some False \<Rightarrow> Failed)"

section \<open>Start-up and polling\<close>

text \<open>\<open>int(val)\<close> raises on a value that is not a number (\<open>None\<close>).\<close>

fun load_cursors :: "reg_group list \<Rightarrow> pipe \<Rightarrow> pipe option" where
  "load_cursors [] p = Some p"
| "load_cursors (g # gs) p =
     (case get_state (cursor_key (rg_jid g)) (cdb p) of
        None \<Rightarrow> load_cursors gs (p\<lparr>cursors := dset (rg_jid g) (last_ts p) (cursors p)\<rparr>)
      | Some v \<Rightarrow> if v = [] then load_cursors gs (p\<lparr>cursors := dset (rg_jid g) (last_ts p) (cursors p)\<rparr>)
          else (case py_int v of None \<Rightarrow> None
                | Some n \<Rightarrow> load_cursors gs (p\<lparr>cursors := dset (rg_jid g) n (cursors p)\<rparr>)))"

definition load_state :: "pipe \<Rightarrow> pipe option" where
  "load_state p = (case get_state ''lastTimestamp'' (cdb p) of
      None \<Rightarrow> load_cursors (reg_groups (cdb p)) p
    | Some v \<Rightarrow> if v = [] then load_cursors (reg_groups (cdb p)) p
        else (case py_int v of None \<Rightarrow> None
              | Some n \<Rightarrow> load_cursors (reg_groups (cdb p)) (p\<lparr>last_ts := n\<rparr>)))"

text \<open>The reload of the groups on \<open>refresh_groups.flag\<close>, and the reset of one group's failures.\<close>

definition refresh_groups :: "pipe \<Rightarrow> pipe" where
  "refresh_groups p =
     (let gs = reg_groups (cdb p); js = map rg_jid gs;
          cs = fold (\<lambda>j d. if dget d j = None then dset j (last_ts p) d else d) js (cursors p);
          stale = filter (\<lambda>j. j \<notin> set js) (dkeys cs) in
      p\<lparr>reg := gs, cursors := fold ddel stale cs, group_ts := fold ddel stale (group_ts p),
        error_notify := fold ddel stale (error_notify p),
        fails := fold ddel stale (fails p), fail_ts := fold ddel stale (fail_ts p)\<rparr>)"

definition reset_group :: "string \<Rightarrow> pipe \<Rightarrow> pipe" where
  "reset_group jid p = (if jid = [] then p
     else p\<lparr>fails := ddel jid (fails p), fail_ts := ddel jid (fail_ts p), error_notify := ddel jid (error_notify p)\<rparr>)"

definition poll_groups :: "config \<Rightarrow> int \<Rightarrow> bool \<Rightarrow> pipe \<Rightarrow> pipe" where
  "poll_groups cfg now leading p = (if \<not> leading then p
     else fold (\<lambda>g p. if new_for (rg_jid g) p \<noteq> []
            then p\<lparr>queue := enqueue_message_check (max_containers cfg) now False (rg_jid g) (queue p)\<rparr> else p)
          (reg p) p)"


text \<open>\<open>/monitor\<close>: register the calling chat under the fixed folder, without a cursor of its own.\<close>

definition monitor_row :: "int \<Rightarrow> string \<Rightarrow> reg_group" where
  "monitor_row now jid = \<lparr>rg_jid = jid, rg_name = ''EvoClaw Monitor'', rg_folder = ''discord_monitor'',
     rg_trigger = None, rg_added = now, rg_config = None, rg_requires_trigger = False, rg_main = False\<rparr>"

definition handle_setup_command :: "int \<Rightarrow> string \<Rightarrow> string \<Rightarrow> pipe \<Rightarrow> pipe \<times> bool" where
  "handle_setup_command now jid command p =
     (if command = ''monitor'' then
        (case set_registered_group (monitor_row now jid) (cdb p) of
           None \<Rightarrow> (p, False) | Some db \<Rightarrow> (p\<lparr>cdb := db, monitor_jid := jid, reg := reg_groups db\<rparr>, True))
      else (p, False))"

text \<open>A small configuration and an empty start state, for the examples.\<close>

definition demo_config :: config where
  "demo_config = \<lparr>rate_max = 2, rate_window = 60000, sender_max = 5, sender_window = 60000, max_containers = 2,
     trigger = (\<lambda>s. prefix ''@Eve'' s), injection = (\<lambda>s. False), sha = (\<lambda>s. s), assistant_name = ''Eve''\<rparr>"

definition demo_pipe :: pipe where
  "demo_pipe = \<lparr>group_ts = [], sender_ts = [], rate_notify = [], seen = [], cursors = [], last_ts = 0, fails = [],
     fail_ts = [], error_notify = [], monitor_jid = [], reg = [], cdb = empty_chat_db, threats = [], perms = None,
     allow = {}, queue = new_gq, replies = []\<rparr>"

section \<open>The sliding window\<close>

definition in_window :: "int \<Rightarrow> int \<Rightarrow> int list \<Rightarrow> nat" where
  "in_window w t xs = length (filter (\<lambda>x. t - w \<le> x \<and> x \<le> t) xs)"

definition window_inv :: "nat \<Rightarrow> int \<Rightarrow> int \<Rightarrow> int list \<Rightarrow> int list \<Rightarrow> bool" where
  "window_inv m w now xs q = (\<exists>old. xs = old @ q \<and> (\<forall>x \<in> set old. x < now - w) \<and> (\<forall>x \<in> set xs. x \<le> now)
     \<and> length q \<le> m \<and> (\<forall>t. in_window w t xs \<le> m))"

lemma slide_split: "\<exists>old. q = old @ slide w now q \<and> (\<forall>x \<in> set old. x < now - w)"
proof (intro exI conjI)
  show "q = takeWhile (\<lambda>t. now - t > w) q @ slide w now q" by (simp add: slide_def)
  show "\<forall>x \<in> set (takeWhile (\<lambda>t. now - t > w) q). x < now - w" by (auto dest!: set_takeWhileD)
qed

lemma in_window_append: "in_window w t (xs @ ys) = in_window w t xs + in_window w t ys"
  by (simp add: in_window_def)

lemma in_window_old: "\<forall>x \<in> set xs. x < t - w \<Longrightarrow> in_window w t xs = 0"
  by (auto simp: in_window_def filter_empty_conv)

lemma in_window_le: "in_window w t xs \<le> length xs"
  by (simp add: in_window_def)

lemma take_slot_inv:
  assumes "window_inv m w now xs q" "now \<le> now'" "take_slot m w now' q = (q', b)"
  shows "window_inv m w now' (if b then xs else xs @ [now']) q'"
proof -
  obtain old where o: "xs = old @ q" "\<forall>x \<in> set old. x < now - w" "\<forall>x \<in> set xs. x \<le> now"
    "length q \<le> m" "\<forall>t. in_window w t xs \<le> m" using assms(1) by (auto simp: window_inv_def)
  obtain old' where o': "q = old' @ slide w now' q" "\<forall>x \<in> set old'. x < now' - w"
    using slide_split by blast
  let ?q = "slide w now' q"
  have xs: "xs = (old @ old') @ ?q" using o(1) o'(1) by simp
  have gone: "\<forall>x \<in> set (old @ old'). x < now' - w" using o(2) o'(2) assms(2) by auto
  have le: "\<forall>x \<in> set xs. x \<le> now'" using o(3) assms(2) by auto
  have lq: "length ?q \<le> length q" using arg_cong[OF o'(1), of length] by simp
  show ?thesis
  proof (cases "length ?q \<ge> m")
    case True
    then have "b" "q' = ?q" using assms(3) by (auto simp: take_slot_def)
    then show ?thesis using xs gone le lq o(4,5) by (auto simp: window_inv_def)
  next
    case False
    then have b: "\<not> b" "q' = ?q @ [now']"
      using assms(3) by (auto simp: take_slot_def push_bounded_def take_last_def)
    have "in_window w t (xs @ [now']) \<le> m" for t
    proof (cases "now' \<le> t")
      case True
      have "in_window w t (old @ old') = 0" by (rule in_window_old) (use gone True in fastforce)
      then have "in_window w t (xs @ [now']) \<le> length (?q @ [now'])"
        using in_window_le[of w t "?q @ [now']"] by (subst xs) (simp add: in_window_append)
      then show ?thesis using False by simp
    next
      case False
      then have "in_window w t (xs @ [now']) = in_window w t xs" by (simp add: in_window_def)
      then show ?thesis using o(5) by simp
    qed
    then show ?thesis using b xs gone le False by (auto simp: window_inv_def)
  qed
qed

text \<open>The messages of one group that pass, among those of all groups.\<close>

fun passed :: "config \<Rightarrow> string \<Rightarrow> (string \<times> int) list \<Rightarrow> pipe \<Rightarrow> int list" where
  "passed cfg jid [] p = []"
| "passed cfg jid ((j, t) # es) p = (case is_rate_limited cfg t j p of
     (p', b) \<Rightarrow> (if j = jid \<and> \<not> b then [t] else []) @ passed cfg jid es p')"

lemma get_or_dset [simp]: "get_or (dset k v d) k' x = (if k' = k then v else get_or d k' x)"
  by (simp add: get_or_def)

lemma passed_inv:
  assumes "window_inv (rate_max cfg) (rate_window cfg) now xs (get_or (group_ts p) jid [])"
    "sorted (now # map snd es)"
  shows "in_window (rate_window cfg) t (xs @ passed cfg jid es p) \<le> rate_max cfg"
  using assms
proof (induction es arbitrary: now xs p)
  case Nil
  then show ?case by (auto simp: window_inv_def)
next
  case (Cons e es)
  obtain j s where e: "e = (j, s)" by (cases e)
  obtain q b where tk: "take_slot (rate_max cfg) (rate_window cfg) s (get_or (group_ts p) j []) = (q, b)"
    by fastforce
  let ?p = "p\<lparr>group_ts := dset j q (group_ts p)\<rparr>"
  have r: "is_rate_limited cfg s j p = (?p, b)" by (simp add: is_rate_limited_def tk)
  have s: "now \<le> s" "sorted (s # map snd es)" using Cons.prems(2) by (auto simp: e)
  show ?case
  proof (cases "j = jid")
    case True
    have "window_inv (rate_max cfg) (rate_window cfg) s (if b then xs else xs @ [s]) q"
      using take_slot_inv[OF Cons.prems(1) s(1)] tk True by simp
    then have "window_inv (rate_max cfg) (rate_window cfg) s (if b then xs else xs @ [s]) (get_or (group_ts ?p) jid [])"
      using True by simp
    from Cons.IH[OF this s(2)] show ?thesis using True by (cases b) (simp_all add: e r[unfolded True])
  next
    case False
    have "get_or (group_ts ?p) jid [] = get_or (group_ts p) jid []" using False by simp
    moreover have "sorted (now # map snd es)" using s by auto
    ultimately show ?thesis using Cons.IH[of now xs ?p] Cons.prems(1) False by (simp add: e r)
  qed
qed

text \<open>
  The group rate limit is a true sliding window: whatever arrives from all groups, in any
  window of the configured length at most the configured number of messages of one group pass, and
  other groups' traffic does not count against it.
\<close>

theorem rate_limit_window:
  assumes "sorted (map snd es)" "get_or (group_ts p) jid [] = []"
  shows "length (filter (\<lambda>x. t - rate_window cfg \<le> x \<and> x \<le> t) (passed cfg jid es p)) \<le> rate_max cfg"
proof (cases es)
  case Nil
  then show ?thesis by simp
next
  case (Cons e es')
  have "window_inv (rate_max cfg) (rate_window cfg) (snd e) [] (get_or (group_ts p) jid [])"
    using assms(2) by (simp add: window_inv_def in_window_def)
  from passed_inv[OF this, of es t] assms(1) Cons show ?thesis by (simp add: in_window_def)
qed

theorem rate_limit_window_witness:
  "\<exists>cfg p es. rate_max cfg = 2 \<and> passed cfg ''a'' es p = [0, 10, 61000]
    \<and> length (filter (\<lambda>x. 61000 - rate_window cfg \<le> x \<and> x \<le> 61000) (passed cfg ''a'' es p)) \<le> rate_max cfg"
proof -
  let ?es = "[(''a'', 0::int), (''a'', 10), (''b'', 20), (''a'', 30), (''a'', 61000)]"
  have o: "sorted (map snd ?es)" "get_or (group_ts demo_pipe) ''a'' [] = []" by code_simp+
  have "rate_max demo_config = 2" "passed demo_config ''a'' ?es demo_pipe = [0, 10, 61000]" by code_simp+
  with rate_limit_window[OF o, of 61000 demo_config] show ?thesis by blast
qed

section \<open>The gates in front of the store\<close>

text \<open>An incoming message with the faults of the immune tables while it is checked.\<close>

record incoming =
  in_faults :: faults
  in_now :: int
  in_id :: string
  in_jid :: string
  in_sender :: string
  in_name :: string
  in_content :: string
  in_group :: bool
  in_channel :: string

definition deliver :: "config \<Rightarrow> incoming \<Rightarrow> pipe \<Rightarrow> pipe" where
  "deliver cfg m p = on_message cfg (in_faults m) (in_now m) (in_id m) (in_jid m) (in_sender m) (in_name m)
     (in_content m) (in_group m) (in_channel m) p"

text \<open>The six tests, each on the state before the message.\<close>

definition admitted :: "config \<Rightarrow> incoming \<Rightarrow> pipe \<Rightarrow> bool" where
  "admitted cfg m p = (is_sender_allowed (Some (in_sender m)) (allow p)
     \<and> snd (check_rbac (in_now m) (in_sender m) p)
     \<and> \<not> snd (is_sender_rate_limited cfg (in_now m) (in_sender m) p)
     \<and> \<not> snd (is_rate_limited cfg (in_now m) (in_jid m) p)
     \<and> \<not> snd (is_duplicate_message cfg (in_now m) (in_jid m) (in_sender m) (in_content m) p)
     \<and> fst (snd (check_message (in_faults m) (injection cfg) (sha cfg) (in_now m div 1000) (in_content m)
         (in_sender m) (threats p))))"

definition stored_as :: "incoming \<Rightarrow> message" where
  "stored_as m = \<lparr>m_id = in_id m, m_jid = in_jid m, m_sender = in_sender m, m_sender_name = in_name m,
     m_content = in_content m, m_ts = in_now m, m_from_me = False, m_bot = False\<rparr>"

lemma gate_snd:
  "snd (is_sender_rate_limited cfg now s (p\<lparr>perms := x\<rparr>)) = snd (is_sender_rate_limited cfg now s p)"
  "snd (is_rate_limited cfg now j (p\<lparr>perms := x\<rparr>)) = snd (is_rate_limited cfg now j p)"
  "snd (is_rate_limited cfg now j (p\<lparr>sender_ts := y\<rparr>)) = snd (is_rate_limited cfg now j p)"
  "snd (is_duplicate_message cfg now j s c (p\<lparr>perms := x\<rparr>)) = snd (is_duplicate_message cfg now j s c p)"
  "snd (is_duplicate_message cfg now j s c (p\<lparr>sender_ts := y\<rparr>)) = snd (is_duplicate_message cfg now j s c p)"
  "snd (is_duplicate_message cfg now j s c (p\<lparr>group_ts := z\<rparr>)) = snd (is_duplicate_message cfg now j s c p)"
  by (simp_all add: is_sender_rate_limited_def is_rate_limited_def is_duplicate_message_def Let_def split: prod.split)

lemma check_rbac_frame: "check_rbac now s p = (p', b) \<Longrightarrow> \<exists>x. p' = p\<lparr>perms := x\<rparr>"
  by (auto simp: check_rbac_def split: option.splits prod.splits intro: exI[of _ "perms p"])

lemma sender_limit_frame: "is_sender_rate_limited cfg now s p = (p', b) \<Longrightarrow> \<exists>x. p' = p\<lparr>sender_ts := x\<rparr>"
  by (auto simp: is_sender_rate_limited_def Let_def split: prod.splits)

lemma group_limit_frame: "is_rate_limited cfg now s p = (p', b) \<Longrightarrow> \<exists>x. p' = p\<lparr>group_ts := x\<rparr>"
  by (auto simp: is_rate_limited_def Let_def split: prod.splits)

lemma dup_frame: "is_duplicate_message cfg now j s c p = (p', b) \<Longrightarrow> \<exists>x. p' = p\<lparr>seen := x\<rparr>"
  by (auto simp: is_duplicate_message_def Let_def split: prod.splits)

lemma notify_sender_frame: "cdb (notify_sender now j s p) = cdb p \<and> queue (notify_sender now j s p) = queue p
    \<and> threats (notify_sender now j s p) = threats p \<and> seen (notify_sender now j s p) = seen p
    \<and> length (replies (notify_sender now j s p)) \<le> length (replies p) + 1"
  by (simp add: notify_sender_def Let_def)

text \<open>One message, as the gates decide on it.\<close>

lemma deliver_cases:
  obtains (kept) "\<not> admitted cfg m p" "cdb (deliver cfg m p) = cdb p" "queue (deliver cfg m p) = queue p"
      "length (replies (deliver cfg m p)) \<le> length (replies p) + 1"
      "snd (is_duplicate_message cfg (in_now m) (in_jid m) (in_sender m) (in_content m) p) \<Longrightarrow>
         threats (deliver cfg m p) = threats p"
      "seen (deliver cfg m p) = seen p \<or> seen (deliver cfg m p)
         = fst (dedup (in_now m) (fingerprint cfg (in_jid m) (in_sender m) (in_content m)) (seen p))"
  | (taken) p1 where "admitted cfg m p" "cdb p1 = cdb p" "queue p1 = queue p" "replies p1 = replies p"
      "seen p1 = fst (dedup (in_now m) (fingerprint cfg (in_jid m) (in_sender m) (in_content m)) (seen p))"
      "deliver cfg m p = accept_message cfg (in_now m) (in_id m) (in_jid m) (in_sender m) (in_name m)
         (in_content m) (in_group m) (in_channel m) p1"
proof -
  let ?now = "in_now m" let ?s = "in_sender m" let ?j = "in_jid m" let ?c = "in_content m"
  obtain p1 b1 where c1: "check_rbac ?now ?s p = (p1, b1)" by fastforce
  obtain p2 b2 where c2: "is_sender_rate_limited cfg ?now ?s p1 = (p2, b2)" by fastforce
  obtain p3 b3 where c3: "is_rate_limited cfg ?now ?j p2 = (p3, b3)" by fastforce
  obtain p4 b4 where c4: "is_duplicate_message cfg ?now ?j ?s ?c p3 = (p4, b4)" by fastforce
  obtain x1 where f1: "p1 = p\<lparr>perms := x1\<rparr>" using check_rbac_frame[OF c1] by blast
  obtain x2 where f2: "p2 = p1\<lparr>sender_ts := x2\<rparr>" using sender_limit_frame[OF c2] by blast
  obtain x3 where f3: "p3 = p2\<lparr>group_ts := x3\<rparr>" using group_limit_frame[OF c3] by blast
  obtain x4 where f4: "p4 = p3\<lparr>seen := x4\<rparr>" using dup_frame[OF c4] by blast
  obtain ts safe reason where c5: "check_message (in_faults m) (injection cfg) (sha cfg) (?now div 1000) ?c ?s (threats p4)
      = (ts, safe, reason)" by (metis prod_cases3)
  have s: "snd (check_rbac ?now ?s p) = b1" "snd (is_sender_rate_limited cfg ?now ?s p) = b2"
    "snd (is_rate_limited cfg ?now ?j p) = b3" "snd (is_duplicate_message cfg ?now ?j ?s ?c p) = b4"
    "fst (snd (check_message (in_faults m) (injection cfg) (sha cfg) (?now div 1000) ?c ?s (threats p))) = safe"
    using c1 c2 c3 c4 c5 gate_snd by (metis f1 snd_conv, metis f1 snd_conv, metis f1 f2 snd_conv,
      metis f1 f2 f3 snd_conv) (use c5 f1 f2 f3 f4 in simp)
  note e = deliver_def on_message_def c1 c2 c3 c4 c5 Let_def
  note a = admitted_def s
  have sn: "seen p4 = fst (dedup ?now (fingerprint cfg ?j ?s ?c) (seen p))"
    using c4 by (auto simp: is_duplicate_message_def f1 f2 f3 split: prod.splits)
  have eq: "deliver cfg m p = (if \<not> is_sender_allowed (Some ?s) (allow p) then p
      else if \<not> b1 then p1\<lparr>replies := replies p1 @ [(?j, No_permission)]\<rparr>
      else if b2 then notify_sender ?now ?j ?s p2
      else if b3 then p3\<lparr>replies := replies p3 @ [(?j, Group_too_fast)]\<rparr>
      else if b4 then p4
      else if \<not> safe then p4\<lparr>threats := ts, replies := replies p4 @ [(?j, immune_reply reason)]\<rparr>
      else accept_message cfg ?now (in_id m) ?j ?s (in_name m) ?c (in_group m) (in_channel m) (p4\<lparr>threats := ts\<rparr>))"
    by (simp add: e)
  show thesis
  proof (cases "is_sender_allowed (Some ?s) (allow p) \<and> b1 \<and> \<not> b2 \<and> \<not> b3 \<and> \<not> b4 \<and> safe")
    case True
    then show thesis by (intro taken[of "p4\<lparr>threats := ts\<rparr>"]) (use sn in \<open>simp_all add: eq a f1 f2 f3 f4\<close>)
  next
    case False
    have "cdb (deliver cfg m p) = cdb p \<and> queue (deliver cfg m p) = queue p
      \<and> length (replies (deliver cfg m p)) \<le> length (replies p) + 1
      \<and> (b4 \<longrightarrow> threats (deliver cfg m p) = threats p)
      \<and> (seen (deliver cfg m p) = seen p \<or> seen (deliver cfg m p) = seen p4)"
      using False notify_sender_frame[of ?now ?j ?s p2] by (auto simp: eq f1 f2 f3 f4)
    with False sn show thesis by (intro kept) (auto simp: a)
  qed
qed

lemma seen_after: "seen (deliver cfg m p) = seen p \<or> seen (deliver cfg m p)
    = fst (dedup (in_now m) (fingerprint cfg (in_jid m) (in_sender m) (in_content m)) (seen p))"
  by (cases rule: deliver_cases[of cfg m p]) (auto simp: accept_message_def Let_def)

lemma duplicate_kept:
  assumes "snd (is_duplicate_message cfg (in_now m) (in_jid m) (in_sender m) (in_content m) p)"
  shows "cdb (deliver cfg m p) = cdb p \<and> queue (deliver cfg m p) = queue p \<and> threats (deliver cfg m p) = threats p"
  using assms by (cases rule: deliver_cases[of cfg m p]) (auto simp: admitted_def)

text \<open>
  C10: The six gates in front of the store decide on their own: a message is stored and wakes its group's
  queue exactly when the sender is on the allowlist and permitted, neither its sender nor its group is
  over the limit, it is not a repeat of the last minutes and the immune system finds it safe; any
  other message leaves the database and the queue as they were and costs at most one reply.  An
  accepted message costs none: neither the welcome of a new chat nor the notice of a busy queue is
  ever sent, though the chat is marked as welcomed.
\<close>

theorem message_gates:
  "if admitted cfg m p then
     queue (deliver cfg m p) = enqueue_message_check (max_containers cfg) (in_now m) False (in_jid m)
         (get_group (in_jid m) (queue p))
     \<and> messages (cdb (deliver cfg m p)) = messages (store_message (stored_as m) (cdb p))
     \<and> get_state (welcome_key (in_jid m)) (cdb (deliver cfg m p)) \<noteq> None
     \<and> replies (deliver cfg m p) = replies p
   else cdb (deliver cfg m p) = cdb p \<and> queue (deliver cfg m p) = queue p
     \<and> length (replies (deliver cfg m p)) \<le> length (replies p) + 1"
proof (cases rule: deliver_cases[of cfg m p])
  case kept
  then show ?thesis by simp
next
  case (taken p1)
  have "messages (set_state k v d) = messages d" "messages (store_chat_metadata a b c d' e' d) = messages d"
    "get_state k (set_state k v d) = Some v" for k v d a b c d' e'
    by (simp_all add: set_state_def get_state_def store_chat_metadata_def)
  then show ?thesis using taken by (auto simp: accept_message_def Let_def stored_as_def)
qed

section \<open>Duplicates\<close>

lemma dget_snoc: "dget (d @ [(k, v)]) k' = (case dget d k' of None \<Rightarrow> if k' = k then Some v else None | Some x \<Rightarrow> Some x)"
  by (auto simp: dget_def map_add_def split: option.split)

lemma dict_ok_move: "dict_ok d \<Longrightarrow> dict_ok (ddel k d @ [(k, v)])"
  by (auto simp: dict_ok_def dkeys_def ddel_def distinct_map_filter)

lemma length_move: "dget d k \<noteq> None \<Longrightarrow> length (ddel k d @ [(k, v)]) \<le> length d"
  by (induction d) (auto simp: dget_def ddel_def length_ddel[unfolded ddel_def] split: if_splits)

lemma dedup_grows: "length (fst (dedup now k d)) \<le> Suc (length d)"
  using length_move[of d k] length_ddel[of k d]
  by (auto simp: dedup_def Let_def length_dset split: option.splits)

lemma dedup_remembers:
  assumes "dget d k = Some at" "now - at < DEDUP_TTL" "length d < DEDUP_MAX"
  shows "dget (fst (dedup now k' d)) k = Some at"
proof (cases "k' = k")
  case True
  then show ?thesis using assms by (auto simp: dedup_def dget_snoc Let_def)
next
  case False
  have "length (dset k' now d) \<le> DEDUP_MAX" "length (dset k' now (ddel k' d)) \<le> DEDUP_MAX"
    using assms(3) length_ddel[of k' d] by (auto simp: length_dset)
  then show ?thesis using assms False by (auto simp: dedup_def dget_snoc Let_def split: option.split)
qed

lemma remembered_after:
  assumes "dget (seen p) k = Some at" "\<forall>m \<in> set ms. in_now m - at < DEDUP_TTL" "length (seen p) + length ms \<le> DEDUP_MAX"
  shows "dget (seen (fold (deliver cfg) ms p)) k = Some at"
  using assms
proof (induction ms arbitrary: p)
  case (Cons m ms)
  have "dget (seen (deliver cfg m p)) k = Some at" "length (seen (deliver cfg m p)) \<le> Suc (length (seen p))"
    using seen_after[of cfg m p] dedup_remembers[OF Cons.prems(1)] dedup_grows Cons.prems(1,2,3) by auto
  then show ?case using Cons by (auto intro!: Cons.IH)
qed simp

lemma admitted_remembered:
  assumes "admitted cfg m p" "length (seen p) < DEDUP_MAX"
  shows "dget (seen (deliver cfg m p)) (fingerprint cfg (in_jid m) (in_sender m) (in_content m)) = Some (in_now m)
    \<and> length (seen (deliver cfg m p)) \<le> Suc (length (seen p))"
proof (cases rule: deliver_cases[of cfg m p])
  case (taken p1)
  let ?k = "fingerprint cfg (in_jid m) (in_sender m) (in_content m)"
  have "\<not> snd (dedup (in_now m) ?k (seen p))"
    using assms(1) by (auto simp: admitted_def is_duplicate_message_def Let_def split: prod.splits)
  moreover have "length (dset ?k (in_now m) (seen p)) \<le> DEDUP_MAX" "length (dset ?k (in_now m) (ddel ?k (seen p))) \<le> DEDUP_MAX"
    using assms(2) length_ddel[of ?k "seen p"] by (auto simp: length_dset)
  ultimately have "dget (fst (dedup (in_now m) ?k (seen p))) ?k = Some (in_now m)"
    by (auto simp: dedup_def Let_def split: option.splits if_splits)
  moreover have "seen (deliver cfg m p) = seen p1" using taken by (simp add: accept_message_def Let_def)
  ultimately show ?thesis using taken dedup_grows by simp
qed (use assms in simp)


definition hello :: "int \<Rightarrow> string \<Rightarrow> string \<Rightarrow> incoming" where
  "hello t i s = \<lparr>in_faults = no_faults, in_now = t, in_id = i, in_jid = ''tg:1'', in_sender = s, in_name = ''Ann'',
     in_content = ''hi'', in_group = True, in_channel = ''telegram''\<rparr>"


section \<open>Cursors\<close>

lemma unread_state [simp]: "get_new_messages js c (set_state k v d) = get_new_messages js c d"
  by (simp add: get_new_messages_def set_state_def)

lemma bot_replies_frame:
  "cursors (fold (store_bot_reply cfg jid) outs p) = cursors p \<and> last_ts (fold (store_bot_reply cfg jid) outs p) = last_ts p
    \<and> get_new_messages [j] c (cdb (fold (store_bot_reply cfg jid) outs p)) = get_new_messages [j] c (cdb p)"
  by (induction outs arbitrary: p) (auto simp: store_bot_reply_def chat.put_own user_message_def split: prod.splits)

lemma advance_frame:
  "get_new_messages [j] c (cdb (advance_cursor jid ts p)) = get_new_messages [j] c (cdb p)"
  "cursors (advance_cursor jid ts p) = dset jid (max (get_or (cursors p) jid 0) ts) (cursors p)"
  "last_ts (advance_cursor jid ts p) = max (last_ts p) ts"
  by (simp_all add: advance_cursor_def Let_def max_def)

lemma end_tail:
  assumes "process_end cfg now r outs succeeded e p = (p', res)"
  shows "cursors p' = (if succeeded then dset (ar_jid r) (max (get_or (cursors p) (ar_jid r) 0) (ar_ts r)) (cursors p) else cursors p)
    \<and> last_ts p' = (if succeeded then max (last_ts p) (ar_ts r) else last_ts p)
    \<and> get_new_messages [j] c (cdb p') = get_new_messages [j] c (cdb p)"
  using assms bot_replies_frame[of cfg "ar_jid r" outs p j c]
  by (auto simp: process_end_def Let_def reply_def count_failure_def advance_frame split: run_end.splits if_splits)

text \<open>
  C9: Messages are handed to the agent at least once.  A batch holds every unread message of the group
  (those that pass the trigger), none of them newer than the batch's time stamp.  If the run does not
  succeed, whatever else it did, every group's unread messages stay exactly what they were.  If it
  succeeds, those of its own group up to the time stamp are done, and messages stamped
  later remain; the other groups lose none, except a group that has no cursor of its own yet: it reads
  from the global time stamp, which this run moves, and loses its older unread messages.
\<close>

theorem at_least_once:
  assumes "process_begin cfg now jid p = (p1, Calling_agent r)"
    "process_end cfg now' r outs succeeded e p2 = (p3, res)" "dget (cursors p2) jid \<noteq> None"
  shows "(\<exists>g. group_by_jid jid p = Some g \<and> ar_prompt r = wanted cfg g (new_for jid p))
    \<and> (\<forall>m \<in> set (new_for jid p). m_ts m \<le> ar_ts r) \<and> ar_ts r \<in> m_ts ` set (new_for jid p)
    \<and> (\<not> succeeded \<longrightarrow> new_for j p3 = new_for j p2)
    \<and> (succeeded \<longrightarrow> new_for j p3 = (if j = jid \<or> dget (cursors p2) j = None
          then filter (\<lambda>m. m_ts m > ar_ts r) (new_for j p2) else new_for j p2))"
proof -
  obtain g p0 where g: "group_by_jid jid p = Some g" "new_for jid p \<noteq> []" "ar_jid r = jid"
    "ar_ts r = Max (m_ts ` set (new_for jid p))" "ar_prompt r = wanted cfg g (new_for jid p)"
    using assms(1) by (auto simp: process_begin_def Let_def split: option.splits if_splits)
  note E = end_tail[OF assms(2), of j]
  have fails: "new_for j p3 = new_for j p2" if "\<not> succeeded"
    using E that by (simp add: new_for_def cursor_def)
  have done_: "new_for j p3 = (if j = jid \<or> dget (cursors p2) j = None
      then filter (\<lambda>m. m_ts m > ar_ts r) (new_for j p2) else new_for j p2)" if s: "succeeded"
  proof -
    have "cursor j p3 = (if j = jid \<or> dget (cursors p2) j = None then max (cursor j p2) (ar_ts r) else cursor j p2)"
      using assms(3) E s g(3) by (auto simp: cursor_def get_or_def split: option.splits)
    then show ?thesis using E by (simp add: new_for_def chat.unread_max)
  qed
  have "finite (m_ts ` set (new_for jid p))" "m_ts ` set (new_for jid p) \<noteq> {}" using g(2) by simp_all
  then have "(\<forall>m \<in> set (new_for jid p). m_ts m \<le> ar_ts r) \<and> ar_ts r \<in> m_ts ` set (new_for jid p)"
    using g(4) Max_in by (metis Max_ge imageI)
  with fails done_ g show ?thesis by blast
qed

definition chat_msg :: "int \<Rightarrow> string \<Rightarrow> string \<Rightarrow> message" where
  "chat_msg t j c = \<lparr>m_id = j @ c, m_jid = j, m_sender = ''7'', m_sender_name = ''Ann'', m_content = c, m_ts = t,
     m_from_me = False, m_bot = False\<rparr>"

definition two_groups :: pipe where
  "two_groups = demo_pipe\<lparr>cursors := [(''a'', 0)],
     reg := [demo_group\<lparr>rg_jid := ''a''\<rparr>, demo_group\<lparr>rg_jid := ''b'', rg_main := False\<rparr>],
     cdb := empty_chat_db\<lparr>messages := [chat_msg 5 ''b'' ''x'', chat_msg 6 ''a'' ''y'']\<rparr>\<rparr>"

theorem at_least_once_witness:
  "\<exists>p1 r p3. process_begin demo_config 10 ''a'' two_groups = (p1, Calling_agent r)
    \<and> process_end demo_config 20 r [(''z'', ''hey'', 15)] True Ended_ok p1 = (p3, Some True)
    \<and> new_for ''b'' two_groups = [chat_msg 5 ''b'' ''x''] \<and> new_for ''b'' p3 = []"
proof -
  let ?b = "process_begin demo_config 10 ''a'' two_groups"
  obtain p1 bt where b: "?b = (p1, bt)" by fastforce
  have "case snd ?b of Calling_agent r \<Rightarrow> ar_ts r = 6 \<and> ar_jid r = ''a'' | _ \<Rightarrow> False"
    "fst ?b = two_groups" by code_simp+
  then obtain r where r: "bt = Calling_agent r" "ar_ts r = 6" "p1 = two_groups" using b by (auto split: batch.splits)
  obtain p3 res where e: "process_end demo_config 20 r [(''z'', ''hey'', 15)] True Ended_ok p1 = (p3, res)" by fastforce
  have bb: "process_begin demo_config 10 ''a'' two_groups = (p1, Calling_agent r)" using b r by simp
  have ca: "dget (cursors p1) ''a'' \<noteq> None" "dget (cursors p1) ''b'' = None" by (simp_all add: r two_groups_def dget_def)
  have rs: "res = Some True" using e by (simp add: process_end_def Let_def)
  have n: "new_for ''b'' p1 = [chat_msg 5 ''b'' ''x'']" unfolding r(3) by code_simp
  have "new_for ''b'' p3 = filter (\<lambda>m. m_ts m > ar_ts r) (new_for ''b'' p1)"
    using at_least_once[OF bb e ca(1), of "''b''"] ca(2) by simp
  then have "new_for ''b'' p3 = []" by (simp add: n r(2) chat_msg_def)
  with bb e rs n r(3) show ?thesis by blast
qed

text \<open>
  In a group that only reacts to its trigger, ordinary conversation counts as a failing group: a
  batch without any trigger ends as a failure although nothing went wrong, its messages stay unread,
  the queue schedules a retry, and until that fires a new message -- a trigger, too -- starts nothing.
  The sixth such batch in a row sends the notice that the retries are exceeded.
\<close>

theorem untriggered_chat_backs_off:
  assumes "group_by_jid jid p = Some g" "rg_requires_trigger g" "\<not> rg_main g" "get_or (fails p) jid 0 < 5"
    "new_for jid p \<noteq> []" "\<forall>m \<in> set (new_for jid p). \<not> trigger cfg (m_content m)"
    "retry_count (grp q jid) = 0"
  shows "process_begin cfg now jid p = (p, Finished False) \<and> queue_outcome (Some False) = Failed
    \<and> jobs (enqueue_message_check maxc now' False jid (schedule_retry jid q)) = jobs q
    \<and> notices ((schedule_retry jid ^^ 6) q) = notices q @ [(jid, ''retries exceeded'')]"
proof -
  have "process_begin cfg now jid p = (p, Finished False)"
    using assms by (simp add: process_begin_def Let_def fail_guard_def wanted_def GROUP_MAX_FAILS_def filter_empty_conv)
  moreover have "jobs (enqueue_message_check maxc now' False jid (schedule_retry jid q)) = jobs q"
    by (simp add: enqueue_message_check_def gq_ops gq_consts assms(7))
  moreover have "notices ((schedule_retry jid ^^ 6) q) = notices q @ [(jid, ''retries exceeded'')]"
    by (simp add: numeral_eq_Suc schedule_retry_def gq_consts assms(7) Let_def)
  ultimately show ?thesis by (simp add: queue_outcome_def)
qed

theorem untriggered_chat_backs_off_witness:
  "process_begin demo_config 10 ''b'' two_groups = (two_groups, Finished False)"
proof -
  have o: "group_by_jid ''b'' two_groups = Some (demo_group\<lparr>rg_jid := ''b'', rg_main := False\<rparr>)"
    "rg_requires_trigger (demo_group\<lparr>rg_jid := ''b'', rg_main := False\<rparr>)"
    "\<not> rg_main (demo_group\<lparr>rg_jid := ''b'', rg_main := False\<rparr>)" "get_or (fails two_groups) ''b'' 0 < 5"
    "new_for ''b'' two_groups \<noteq> []" "retry_count (grp new_gq ''b'') = 0" by code_simp+
  have "\<forall>m \<in> set (new_for ''b'' two_groups). \<not> trigger demo_config (m_content m)" by code_simp
  from untriggered_chat_backs_off[OF o(1-5) this o(6)] show ?thesis by blast
qed

section \<open>Failures\<close>

text \<open>
  The pause after repeated failures is flat.  The cooldown doubles from one to eight minutes over the
  first four failures, but the guard only asks from the fifth on, where it is always the cap of ten
  minutes; within it no batch of the group runs, and after it the next one does, with two
  failures forgiven.
\<close>

theorem cooldown_is_flat:
  assumes "group_by_jid jid p = Some g" "new_for jid p \<noteq> []" "get_or (fails p) jid 0 \<ge> 5"
  shows "map fail_cooldown [1, 2, 3, 4] = [60000, 120000, 240000, 480000]
    \<and> fail_cooldown (get_or (fails p) jid 0) = 600000
    \<and> (now < get_or (fail_ts p) jid 0 + 600000 \<longrightarrow> process_begin cfg now jid p = (p, Finished False))
    \<and> (now \<ge> get_or (fail_ts p) jid 0 + 600000 \<longrightarrow>
        (let p' = fst (process_begin cfg now jid p) in
         get_or (fails p') jid 0 = get_or (fails p) jid 0 - 2 \<and> dget (fail_ts p') jid = None))"
proof -
  let ?n = "get_or (fails p) jid 0"
  have "(2::int) ^ 4 \<le> 2 ^ (?n - 1)" by (rule power_increasing) (use assms(3) in auto)
  then have c: "fail_cooldown ?n = 600000" by (simp add: fail_cooldown_def)
  have "fst (process_begin cfg now jid p) = p\<lparr>fails := dset jid (?n - 2) (fails p), fail_ts := ddel jid (fail_ts p)\<rparr>"
    if "now \<ge> get_or (fail_ts p) jid 0 + 600000"
    using that assms c by (simp add: process_begin_def Let_def fail_guard_def GROUP_MAX_FAILS_def)
  moreover have "process_begin cfg now jid p = (p, Finished False)" if "now < get_or (fail_ts p) jid 0 + 600000"
    using that assms c by (simp add: process_begin_def Let_def fail_guard_def GROUP_MAX_FAILS_def)
  moreover have "map fail_cooldown [1, 2, 3, 4] = [60000, 120000, 240000, 480000]" by (simp add: fail_cooldown_def)
  ultimately show ?thesis using c by (simp add: Let_def)
qed

theorem cooldown_is_flat_witness:
  "process_begin demo_config 10 ''a'' (two_groups\<lparr>fails := [(''a'', 5)], fail_ts := [(''a'', 3)]\<rparr>)
    = (two_groups\<lparr>fails := [(''a'', 5)], fail_ts := [(''a'', 3)]\<rparr>, Finished False)"
proof -
  let ?p = "two_groups\<lparr>fails := [(''a'', 5)], fail_ts := [(''a'', 3)]\<rparr>"
  have o: "group_by_jid ''a'' ?p = Some (demo_group\<lparr>rg_jid := ''a''\<rparr>)" "new_for ''a'' ?p \<noteq> []"
    "get_or (fails ?p) ''a'' 0 \<ge> 5" by code_simp+
  have "10 < get_or (fail_ts ?p) ''a'' 0 + 600000" by code_simp
  then show ?thesis using cooldown_is_flat[OF o, of 10 demo_config] by blast
qed

text \<open>
  Error messages of one group's agent reach its chat at most once in five minutes, the urgent ones
  always: after an ordinary one at time \<open>t\<close> every further ordinary one before \<open>t + 300000\<close> changes
  nothing, even with urgent ones or other groups' errors in between, while an urgent one is
  delivered without its prefix and leaves the timer as it was.
\<close>

theorem error_notices_limited:
  assumes "\<not> prefix URGENT_PREFIX msg" "get_or (error_notify p) jid 0 + 300000 \<le> t"
    "\<forall>(t', j, f, m) \<in> set es. prefix URGENT_PREFIX m \<or> j \<noteq> jid" "now < t + 300000" "\<not> prefix URGENT_PREFIX msg'"
  shows "(\<exists>u. (jid, Error_note u) \<in> set (drop (length (replies p)) (replies (on_error t jid folder msg p))))
    \<and> (let p' = fold (\<lambda>(t', j, f, m). on_error t' j f m) es (on_error t jid folder msg p) in
        on_error now jid folder msg' p' = p'
        \<and> (\<exists>n. replies (on_error now jid folder (URGENT_PREFIX @ msg') p') = replies p' @ (jid, Error_note (fst (error_parts msg'))) # n)
        \<and> error_notify (on_error now jid folder (URGENT_PREFIX @ msg') p') = error_notify p')"
proof -
  have keep: "get_or (error_notify (on_error t' j f m q)) jid 0 = get_or (error_notify q) jid 0"
    if "prefix URGENT_PREFIX m \<or> j \<noteq> jid" for t' j f m q
    using that by (auto simp: on_error_def Let_def reply_def split: prod.splits)
  have kept: "get_or (error_notify (fold (\<lambda>(t', j, f, m). on_error t' j f m) es q)) jid 0 = get_or (error_notify q) jid 0" for q
    using assms(3) by (induction es arbitrary: q) (auto simp: keep)
  have first: "get_or (error_notify (on_error t jid folder msg p)) jid 0 = t"
    "\<exists>u. (jid, Error_note u) \<in> set (drop (length (replies p)) (replies (on_error t jid folder msg p)))"
    using assms(1,2) by (auto simp: on_error_def Let_def reply_def ERROR_NOTIFY_COOLDOWN_def split: prod.splits)
  have "on_error now jid folder msg' q = q" if "get_or (error_notify q) jid 0 = t" for q
    using that assms(4,5) by (simp add: on_error_def Let_def ERROR_NOTIFY_COOLDOWN_def)
  moreover have "\<exists>n. replies (on_error now jid folder (URGENT_PREFIX @ msg') q) = replies q @ (jid, Error_note (fst (error_parts msg'))) # n"
    "error_notify (on_error now jid folder (URGENT_PREFIX @ msg') q) = error_notify q" for q
    by (auto simp: on_error_def Let_def reply_def split: prod.splits)
  ultimately show ?thesis using first kept by (auto simp: Let_def)
qed

theorem error_notices_limited_witness:
  "on_error 400000 ''a'' ''team'' ''crash'' (on_error 350000 ''a'' ''team'' ''crash'' demo_pipe)
    = on_error 350000 ''a'' ''team'' ''crash'' demo_pipe"
proof -
  have o: "\<not> prefix URGENT_PREFIX ''crash''" "get_or (error_notify demo_pipe) ''a'' 0 + 300000 \<le> 350000" by code_simp+
  from error_notices_limited[OF o, of "[]" 400000 "''crash''" "''team''"] o(1) show ?thesis by (simp add: Let_def)
qed

section \<open>Restart\<close>

definition readable :: "string option \<Rightarrow> bool" where
  "readable v = (case v of None \<Rightarrow> True | Some s \<Rightarrow> s = [] \<or> py_int s \<noteq> None)"

definition stored_or :: "int \<Rightarrow> string option \<Rightarrow> int" where
  "stored_or d v = (case v of None \<Rightarrow> d | Some s \<Rightarrow> if s = [] then d else the (py_int s))"

lemma get_set_state [simp]: "get_state k (set_state k' v d) = (if k = k' then Some v else get_state k d)"
  by (simp add: get_state_def set_state_def)

lemma stored_show: "length (show_nat (nat \<bar>n\<bar>)) \<le> 4300 \<Longrightarrow>
    readable (Some (show_int n)) \<and> stored_or d (Some (show_int n)) = n"
  by (simp add: readable_def stored_or_def py_int_show)

lemma load_cursors_spec:
  "load_cursors gs p = Some p' \<Longrightarrow> (\<forall>g \<in> set gs. readable (get_state (cursor_key (rg_jid g)) (cdb p)))
    \<and> last_ts p' = last_ts p \<and> (\<forall>j. dget (cursors p') j = (if j \<in> rg_jid ` set gs
        then Some (stored_or (last_ts p) (get_state (cursor_key j) (cdb p))) else dget (cursors p) j))"
proof (induction gs arbitrary: p)
  case (Cons g gs)
  let ?p = "p\<lparr>cursors := dset (rg_jid g) (stored_or (last_ts p) (get_state (cursor_key (rg_jid g)) (cdb p))) (cursors p)\<rparr>"
  have r: "readable (get_state (cursor_key (rg_jid g)) (cdb p))" and l: "load_cursors gs ?p = Some p'"
    using Cons.prems by (auto simp: readable_def stored_or_def split: option.splits if_splits)
  from Cons.IH[OF l] r show ?case by auto
qed simp

lemma load_cursors_total:
  "\<forall>g \<in> set gs. readable (get_state (cursor_key (rg_jid g)) (cdb p)) \<Longrightarrow> \<exists>p'. load_cursors gs p = Some p'"
  by (induction gs arbitrary: p) (auto simp: readable_def split: option.splits if_splits)

lemma load_state_eq: "load_state p = (if readable (get_state ''lastTimestamp'' (cdb p))
    then load_cursors (reg_groups (cdb p)) (p\<lparr>last_ts := stored_or (last_ts p) (get_state ''lastTimestamp'' (cdb p))\<rparr>)
    else None)"
  by (auto simp: load_state_def readable_def stored_or_def split: option.splits)

lemma state_groups [simp]: "reg_groups (set_state k v d) = reg_groups d"
  by (simp add: set_state_def)

lemma cursor_key_simps [simp]: "cursor_key j = cursor_key j' \<longleftrightarrow> j = j'" "cursor_key j \<noteq> ''lastTimestamp''"
  "''lastTimestamp'' \<noteq> cursor_key j"
  by (simp_all add: cursor_key_def)

text \<open>
  A restart keeps what was done.  If the process could start from the stored state, it can start
  after a batch was finished, and then the group's cursor is the one the batch advanced it to, so its
  messages are not replayed; every other group's stored cursor is read back unchanged.  A
  registered group that never finished a batch starts at the global time stamp, which the batch of
  another group has moved.
\<close>

theorem cursors_survive_restart:
  assumes "load_state (s\<lparr>cdb := cdb p\<rparr>) = Some s0" "g \<in> set (reg_groups (cdb p))" "rg_jid g = jid"
    "length (show_nat (nat \<bar>max (get_or (cursors p) jid 0) ts\<bar>)) \<le> 4300" "length (show_nat (nat \<bar>ts\<bar>)) \<le> 4300"
  shows "\<exists>s1. load_state (s\<lparr>cdb := cdb (advance_cursor jid ts p)\<rparr>) = Some s1
    \<and> dget (cursors s1) jid = Some (max (get_or (cursors p) jid 0) ts)
    \<and> last_ts s1 = (if ts > last_ts p then ts else last_ts s0)
    \<and> (\<forall>g' \<in> set (reg_groups (cdb p)). rg_jid g' \<noteq> jid \<longrightarrow> dget (cursors s1) (rg_jid g') =
        (if get_state (cursor_key (rg_jid g')) (cdb p) = None then Some (last_ts s1) else
         if get_state (cursor_key (rg_jid g')) (cdb p) = Some [] then Some (last_ts s1) else dget (cursors s0) (rg_jid g')))"
proof -
  let ?c = "max (get_or (cursors p) jid 0) ts" let ?db = "cdb (advance_cursor jid ts p)"
  let ?l = "stored_or (last_ts s) (get_state ''lastTimestamp'' (cdb p))"
  let ?l1 = "if ts > last_ts p then ts else ?l"
  have db: "reg_groups ?db = reg_groups (cdb p)"
    "get_state ''lastTimestamp'' ?db = (if ts > last_ts p then Some (show_int ts) else get_state ''lastTimestamp'' (cdb p))"
    "get_state (cursor_key j) ?db = (if j = jid then Some (show_int ?c) else get_state (cursor_key j) (cdb p))" for j
    by (simp_all add: advance_cursor_def Let_def)
  have old: "readable (get_state ''lastTimestamp'' (cdb p))"
    "load_cursors (reg_groups (cdb p)) (s\<lparr>cdb := cdb p, last_ts := ?l\<rparr>) = Some s0"
    using assms(1) by (simp_all add: load_state_eq split: if_splits)
  note L0 = load_cursors_spec[OF old(2)]
  have ld: "readable (get_state ''lastTimestamp'' ?db)" "stored_or (last_ts s) (get_state ''lastTimestamp'' ?db) = ?l1"
    using old(1) stored_show[OF assms(5)] by (simp_all add: db)
  have "\<forall>g \<in> set (reg_groups ?db). readable (get_state (cursor_key (rg_jid g)) (cdb (s\<lparr>cdb := ?db, last_ts := ?l1\<rparr>)))"
    using L0 stored_show[OF assms(4)] by (simp add: db)
  from load_cursors_total[OF this] obtain s1 where
    s1: "load_cursors (reg_groups ?db) (s\<lparr>cdb := ?db, last_ts := ?l1\<rparr>) = Some s1" by blast
  note L1 = load_cursors_spec[OF s1]
  have "load_state (s\<lparr>cdb := ?db\<rparr>) = Some s1" using s1 ld by (simp add: load_state_eq)
  moreover have "last_ts s1 = ?l1" "last_ts s0 = ?l" using L1 L0 by simp_all
  moreover have "dget (cursors s1) jid = Some ?c"
    using L1 assms(2,3) stored_show[OF assms(4)] by (auto simp: db)
  moreover have "dget (cursors s1) (rg_jid g') =
      (if get_state (cursor_key (rg_jid g')) (cdb p) = None then Some (last_ts s1) else
       if get_state (cursor_key (rg_jid g')) (cdb p) = Some [] then Some (last_ts s1) else dget (cursors s0) (rg_jid g'))"
    if "g' \<in> set (reg_groups (cdb p))" "rg_jid g' \<noteq> jid" for g'
    using L1 L0 that by (auto simp: db stored_or_def split: option.splits)
  ultimately show ?thesis by auto
qed

definition with_db :: pipe where
  "with_db = demo_pipe\<lparr>cdb := empty_chat_db\<lparr>reg_groups := [demo_group\<lparr>rg_jid := ''a''\<rparr>, demo_group\<lparr>rg_jid := ''b''\<rparr>]\<rparr>\<rparr>"

theorem cursors_survive_restart_witness:
  "\<exists>s1. load_state (demo_pipe\<lparr>cdb := cdb (advance_cursor ''a'' 77 with_db)\<rparr>) = Some s1
    \<and> dget (cursors s1) ''a'' = Some 77 \<and> last_ts s1 = 77"
proof -
  have o: "load_state (demo_pipe\<lparr>cdb := cdb with_db\<rparr>) = Some (demo_pipe\<lparr>cdb := cdb with_db, cursors := [(''a'', 0), (''b'', 0)]\<rparr>)"
    "demo_group\<lparr>rg_jid := ''a''\<rparr> \<in> set (reg_groups (cdb with_db))" "rg_jid (demo_group\<lparr>rg_jid := ''a''\<rparr>) = ''a''"
    by (code_simp, code_simp, simp)
  have n: "max (get_or (cursors with_db) ''a'' 0) 77 = 77" "length (show_nat (nat \<bar>77\<bar>)) \<le> 4300" "last_ts with_db = 0"
    by (code_simp, simp add: show_nat.simps, simp add: with_db_def demo_pipe_def)
  show ?thesis using cursors_survive_restart[OF o, of 77] n by auto
qed

end
