(* ===== verification/Workflow.thy ===== *)
theory Workflow
  imports Prelude "HOL-Library.Multiset"
begin

text \<open>
  The workflow engine, \<open>host/enterprise/workflow_engine.py\<close>: the validation of a graph of steps, the
  scheduler loop of \<open>WorkflowDAG.run\<close>, and the registry with its history.

  A step's function is an argument: what its n-th attempt does on the snapshot of the context.  The
  order in which a Python \<open>set\<close> is iterated is an argument too, because the loop's result depends on it:
  \<open>perm\<close> lists the members in that order.  Results are values of an arbitrary type with their \<open>str\<close> and
  the value of a text.  Start and finish times are left out.
\<close>

section \<open>Data\<close>

datatype step_status = PENDING | RUNNING | SUCCESS | FAILED | SKIPPED

datatype run_status = Run_Pending | Run_Running | Run_Success | Run_Failed

datatype 'v attempt = Returned 'v | Timed_out | Raised_with string

type_synonym 'v ctx = "(string, 'v) dict"

record 'v wf_step =
  st_fn :: "nat \<Rightarrow> 'v ctx \<Rightarrow> 'v attempt"
  st_deps :: "string list"
  st_timeout :: string
  st_retries :: int
  st_status :: step_status
  st_result :: "'v option"
  st_error :: "string option"

type_synonym 'v dag = "(string, 'v wf_step) dict"

record 'v wf_run =
  run_steps :: "'v dag"
  run_state :: run_status
  run_ctx :: "'v ctx"

record 'v value_ops =
  repr :: "'v \<Rightarrow> string"
  of_text :: "string \<Rightarrow> 'v"

definition new_step :: "(nat \<Rightarrow> 'v ctx \<Rightarrow> 'v attempt) \<Rightarrow> string list \<Rightarrow> string \<Rightarrow> int \<Rightarrow> 'v wf_step" where
  "new_step fn deps timeout retries = \<lparr>st_fn = fn, st_deps = deps, st_timeout = timeout, st_retries = retries,
     st_status = PENDING, st_result = None, st_error = None\<rparr>"

text \<open>The decorator \<open>step\<close>: a later step of the same name replaces the earlier one in place.\<close>

definition add_step ::
  "string \<Rightarrow> (nat \<Rightarrow> 'v ctx \<Rightarrow> 'v attempt) \<Rightarrow> string list \<Rightarrow> string \<Rightarrow> int \<Rightarrow> 'v dag \<Rightarrow> 'v dag" where
  "add_step name fn deps timeout retries d = dset name (new_step fn deps timeout retries) d"

section \<open>Validation\<close>

definition deps_of :: "'v dag \<Rightarrow> string \<Rightarrow> string list" where
  "deps_of d n = (case dget d n of None \<Rightarrow> [] | Some s \<Rightarrow> st_deps s)"

lemma deps_of_absent: "n \<notin> set (dkeys d) \<Longrightarrow> deps_of d n = []"
  by (simp add: deps_of_def dget_None_iff[symmetric])

text \<open>
  The calls of \<open>visit\<close> for a list of names.  \<open>visited\<close> is the set of the names in \<open>order\<close>, to which
  both are added together; \<open>None\<close> is the \<open>ValueError\<close> of a cycle.
\<close>

function visit :: "'v dag \<Rightarrow> string set \<Rightarrow> string list \<Rightarrow> string list \<Rightarrow> string list option" where
  "visit d visiting [] order = Some order"
| "visit d visiting (n # ns) order =
     (if n \<in> set order then visit d visiting ns order
      else if n \<in> visiting then None
      else case visit d (insert n visiting) (deps_of d n) order of
          None \<Rightarrow> None
        | Some order' \<Rightarrow> visit d visiting ns (order' @ [n]))"
  by pat_completeness auto

termination
proof (relation "measures [\<lambda>(d, v, ns, ord). card (set (dkeys d) - v), \<lambda>(d, v, ns, ord). length ns]", goal_cases)
  case (3 d visiting n ns ord)
  show ?case
  proof (cases "n \<in> set (dkeys d)")
    case True
    then have "card (set (dkeys d) - insert n visiting) < card (set (dkeys d) - visiting)"
      using 3 by (intro psubset_card_mono) auto
    then show ?thesis by simp
  next
    case False
    then have "set (dkeys d) - insert n visiting = set (dkeys d) - visiting" by auto
    then show ?thesis using False by (simp add: deps_of_absent)
  qed
qed simp_all

definition topo_sort :: "'v dag \<Rightarrow> string list option" where
  "topo_sort d = visit d {} (dkeys d) []"

definition validate :: "'v dag \<Rightarrow> bool" where
  "validate d = (list_all (\<lambda>(n, s). list_all (\<lambda>p. dget d p \<noteq> None) (st_deps s)) d \<and> topo_sort d \<noteq> None)"

section \<open>Running\<close>

definition utf8_len :: "string \<Rightarrow> nat" where
  "utf8_len s = sum_list (map (\<lambda>c. if (of_char c :: nat) < 128 then 1 else 2) s)"

definition MAX_STEP_RESULT_BYTES :: nat where "MAX_STEP_RESULT_BYTES = 262144"

definition cap_result :: "'v value_ops \<Rightarrow> 'v \<Rightarrow> 'v" where
  "cap_result vs v = (if utf8_len (repr vs v) > MAX_STEP_RESULT_BYTES
     then of_text vs (take MAX_STEP_RESULT_BYTES (repr vs v) @ ''... [truncated]'') else v)"

text \<open>The retry loop with \<open>m\<close> attempts left, the \<open>k\<close>-th one next.\<close>

fun attempt_loop :: "'v value_ops \<Rightarrow> 'v ctx \<Rightarrow> nat \<Rightarrow> nat \<Rightarrow> 'v wf_step \<Rightarrow> 'v wf_step \<times> 'v option" where
  "attempt_loop vs c 0 k s = (s, None)"
| "attempt_loop vs c (Suc m) k s =
     (let failed = (\<lambda>e. s\<lparr>st_error := Some e, st_status := (if m = 0 then FAILED else st_status s)\<rparr>) in
      case st_fn s k c of
        Returned v \<Rightarrow> (let v = cap_result vs v in (s\<lparr>st_result := Some v, st_status := SUCCESS\<rparr>, Some v))
      | Timed_out \<Rightarrow> attempt_loop vs c m (Suc k) (failed (''Timeout after '' @ st_timeout s @ ''s''))
      | Raised_with e \<Rightarrow> attempt_loop vs c m (Suc k) (failed e))"

definition run_step :: "'v value_ops \<Rightarrow> 'v ctx \<Rightarrow> 'v wf_step \<Rightarrow> 'v wf_step \<times> 'v option" where
  "run_step vs c s = attempt_loop vs c (nat (st_retries s + 1)) 0 (s\<lparr>st_status := RUNNING\<rparr>)"

definition status_of :: "'v dag \<Rightarrow> string \<Rightarrow> step_status option" where
  "status_of d n = map_option st_status (dget d n)"

definition ready :: "'v dag \<Rightarrow> string \<Rightarrow> bool" where
  "ready d n = list_all (\<lambda>p. status_of d p = Some SUCCESS) (deps_of d n)"

text \<open>One pass that marks the steps behind a failed or skipped one, in the order of the set.\<close>

fun mark_blocked :: "string list \<Rightarrow> 'v dag \<Rightarrow> 'v dag \<times> string list" where
  "mark_blocked [] d = (d, [])"
| "mark_blocked (n # ns) d =
     (if list_ex (\<lambda>p. status_of d p \<in> {Some FAILED, Some SKIPPED}) (deps_of d n) then
        (case dget d n of
           None \<Rightarrow> mark_blocked ns d
         | Some s \<Rightarrow> (case mark_blocked ns (dset n (s\<lparr>st_status := SKIPPED\<rparr>) d) of (d', b) \<Rightarrow> (d', n # b)))
      else mark_blocked ns d)"

definition fail_deadlocked :: "string list \<Rightarrow> 'v dag \<Rightarrow> 'v dag" where
  "fail_deadlocked ns d = fold (\<lambda>n d. case dget d n of None \<Rightarrow> d
     | Some s \<Rightarrow> dset n (s\<lparr>st_status := FAILED, st_error := Some ''Deadlock: unsatisfied dependencies''\<rparr>) d) ns d"

text \<open>The ready steps side by side, each on a copy of the context; their results are merged afterwards.\<close>

fun run_ready :: "'v value_ops \<Rightarrow> 'v ctx \<Rightarrow> string list \<Rightarrow> 'v dag \<Rightarrow> 'v dag \<times> 'v ctx" where
  "run_ready vs c [] d = (d, [])"
| "run_ready vs c (n # ns) d = (case dget d n of
      None \<Rightarrow> run_ready vs c ns d
    | Some s \<Rightarrow> (case run_step vs c s of (s', res) \<Rightarrow>
        (case run_ready vs c ns (dset n s' d) of (d', rs) \<Rightarrow>
          (d', (case res of None \<Rightarrow> rs | Some v \<Rightarrow> (n, v) # rs)))))"

definition merge_results :: "'v ctx \<Rightarrow> 'v ctx \<Rightarrow> 'v ctx" where
  "merge_results rs c = fold (\<lambda>(n, v). dset n v) rs c"

lemma shrinks: "filter P xs \<noteq> [] \<Longrightarrow>
    length (filter (\<lambda>n. n \<notin> set (filter P xs)) (filter Q xs)) < length xs"
proof -
  assume "filter P xs \<noteq> []"
  then obtain x where x: "x \<in> set xs" "P x" by (auto simp: filter_empty_conv)
  have sub: "length (filter R (filter Q xs)) \<le> length (filter R xs)" for R
    by (induction xs) auto
  note sub[of "\<lambda>n. n \<notin> set (filter P xs)"]
  also have "length (filter (\<lambda>n. n \<notin> set (filter P xs)) xs) < length xs" using x by (intro length_filter_less[of x]) auto
  finally show ?thesis .
qed

function run_loop ::
  "'v value_ops \<Rightarrow> (string list \<Rightarrow> string list) \<Rightarrow> string list \<Rightarrow> 'v dag \<Rightarrow> 'v ctx \<Rightarrow> 'v dag \<times> 'v ctx" where
  "run_loop vs perm remaining d c =
     (if remaining = [] then (d, c)
      else let rdy = filter (ready d) remaining;
               (d, blocked) = mark_blocked (perm (filter (\<lambda>n. n \<notin> set rdy) remaining)) d;
               remaining' = filter (\<lambda>n. n \<notin> set blocked) remaining in
        if rdy = [] then (fail_deadlocked remaining' d, c)
        else let remaining' = filter (\<lambda>n. n \<notin> set rdy) remaining';
                 (d, rs) = run_ready vs c (perm rdy) d in
          run_loop vs perm remaining' d (merge_results rs c))"
  by pat_completeness auto

termination
proof (relation "measure (\<lambda>(vs, perm, remaining, d, c). length remaining)", goal_cases)
  case (2 vs perm remaining d c rdy x d' blocked remaining' remaining'' x' d'' rs)
  then show ?case using shrinks[of "ready d" remaining] by simp
qed simp

declare run_loop.simps [simp del]

definition execute :: "'v value_ops \<Rightarrow> (string list \<Rightarrow> string list) \<Rightarrow> 'v ctx \<Rightarrow> 'v dag \<Rightarrow> 'v wf_run option" where
  "execute vs perm c d =
     (if \<not> validate d then None
      else case run_loop vs perm (dkeys d) d c of (d', c') \<Rightarrow>
        Some \<lparr>run_steps = d',
          run_state = (if list_ex (\<lambda>(n, s). st_status s = FAILED) d' then Run_Failed else Run_Success), run_ctx = c'\<rparr>)"

section \<open>The engine\<close>

record 'v wf_engine =
  dags :: "(string, 'v dag) dict"
  wf_history :: "'v wf_run list"

definition register :: "string \<Rightarrow> 'v dag \<Rightarrow> 'v wf_engine \<Rightarrow> 'v wf_engine" where
  "register name d e = e\<lparr>dags := dset name d (dags e)\<rparr>"

text \<open>\<open>Inl\<close> is the \<open>ValueError\<close> of an invalid graph, which reaches the caller.\<close>

definition engine_run :: "'v value_ops \<Rightarrow> (string list \<Rightarrow> string list) \<Rightarrow> string \<Rightarrow> 'v ctx \<Rightarrow> 'v wf_engine
    \<Rightarrow> unit + 'v wf_run option \<times> 'v wf_engine" where
  "engine_run vs perm name c e = (case dget (dags e) name of
      None \<Rightarrow> Inr (None, e)
    | Some d \<Rightarrow> (case execute vs perm c d of
          None \<Rightarrow> Inl ()
        | Some r \<Rightarrow> Inr (Some r, e\<lparr>wf_history := push_bounded 1000 r (wf_history e)\<rparr>)))"

text \<open>The slice \<open>[-limit:]\<close>.\<close>

definition history :: "int \<Rightarrow> 'v wf_engine \<Rightarrow> 'v wf_run list" where
  "history limit e = (if limit > 0 then take_last (nat limit) (wf_history e) else drop (nat (- limit)) (wf_history e))"

definition SKILL_STEPS_DAG :: string where "SKILL_STEPS_DAG = ''_skill_steps''"

text \<open>A skill as a step: every exception becomes a result (\<open>err\<close> is the dictionary made of it).\<close>

definition skill_step_fn :: "(string \<Rightarrow> 'v) \<Rightarrow> (nat \<Rightarrow> 'v ctx \<Rightarrow> 'v attempt) \<Rightarrow> nat \<Rightarrow> 'v ctx \<Rightarrow> 'v attempt" where
  "skill_step_fn err skill k c = (case skill k c of Raised_with e \<Rightarrow> Returned (err e) | x \<Rightarrow> x)"

definition add_skill_step :: "(string \<Rightarrow> 'v) \<Rightarrow> string \<Rightarrow> (nat \<Rightarrow> 'v ctx \<Rightarrow> 'v attempt) \<Rightarrow> string list \<Rightarrow> string \<Rightarrow> int
    \<Rightarrow> 'v wf_engine \<Rightarrow> 'v wf_engine" where
  "add_skill_step err name skill deps timeout retries e =
     (let d = (case dget (dags e) SKILL_STEPS_DAG of None \<Rightarrow> [] | Some d \<Rightarrow> d) in
      e\<lparr>dags := dset SKILL_STEPS_DAG (add_step name (skill_step_fn err skill) deps timeout retries d) (dags e)\<rparr>)"

definition run_skill_steps :: "'v value_ops \<Rightarrow> (string list \<Rightarrow> string list) \<Rightarrow> 'v ctx \<Rightarrow> 'v wf_engine
    \<Rightarrow> unit + 'v wf_run option \<times> 'v wf_engine" where
  "run_skill_steps vs perm c e = engine_run vs perm SKILL_STEPS_DAG c e"


section \<open>Validation is sound and complete\<close>

definition edges :: "'v dag \<Rightarrow> (string \<times> string) set" where
  "edges d = {(n, p). p \<in> set (deps_of d n)}"

definition ordered :: "'v dag \<Rightarrow> string list \<Rightarrow> bool" where
  "ordered d ord = (distinct ord \<and> (\<forall>xs n ys. ord = xs @ n # ys \<longrightarrow> set (deps_of d n) \<subseteq> set xs))"

lemma ordered_Nil [simp]: "ordered d []"
  by (simp add: ordered_def)

lemma ordered_snoc: "ordered d ord \<Longrightarrow> n \<notin> set ord \<Longrightarrow> set (deps_of d n) \<subseteq> set ord \<Longrightarrow> ordered d (ord @ [n])"
  unfolding ordered_def
proof (intro conjI allI impI)
  fix xs m ys
  assume a: "distinct ord \<and> (\<forall>xs n ys. ord = xs @ n # ys \<longrightarrow> set (deps_of d n) \<subseteq> set xs)"
    "set (deps_of d n) \<subseteq> set ord" "ord @ [n] = xs @ m # ys"
  show "set (deps_of d m) \<subseteq> set xs" using a by (cases ys rule: rev_cases) auto
qed simp

lemma visit_sound:
  "visit d v ns ord = Some ord' \<Longrightarrow> ordered d ord \<Longrightarrow> set ord \<inter> v = {} \<Longrightarrow>
    ordered d ord' \<and> set ord \<subseteq> set ord' \<and> set ns \<subseteq> set ord' \<and> set ord' \<inter> v = {}
    \<and> (set ns \<subseteq> K \<longrightarrow> (\<forall>n \<in> K. set (deps_of d n) \<subseteq> K) \<longrightarrow> set ord' \<subseteq> set ord \<union> K)"
proof (induction d v ns ord arbitrary: ord' rule: visit.induct)
  case (2 d v n ns ord)
  show ?case
  proof (cases "n \<in> set ord")
    case True
    then show ?thesis using 2 by auto
  next
    case False
    then obtain o1 where n: "n \<notin> v" and o1: "visit d (insert n v) (deps_of d n) ord = Some o1"
      and rest: "visit d v ns (o1 @ [n]) = Some ord'"
      using "2.prems"(1) by (auto split: if_splits option.splits)
    have a: "ordered d o1 \<and> set ord \<subseteq> set o1 \<and> set (deps_of d n) \<subseteq> set o1 \<and> set o1 \<inter> insert n v = {}
      \<and> (set (deps_of d n) \<subseteq> K \<longrightarrow> (\<forall>n \<in> K. set (deps_of d n) \<subseteq> K) \<longrightarrow> set o1 \<subseteq> set ord \<union> K)"
      using "2.IH"(2)[OF False n o1 "2.prems"(2)] "2.prems"(3) False by blast
    then have "ordered d (o1 @ [n])" by (intro ordered_snoc) auto
    moreover have "set (o1 @ [n]) \<inter> v = {}" using a n by auto
    ultimately show ?thesis using "2.IH"(3)[OF False n o1 rest] a by (auto 4 3)
  qed
qed auto

lemma visit_cycle:
  "visit d v ns ord = None \<Longrightarrow> \<forall>m \<in> v. \<forall>n \<in> set ns. (m, n) \<in> (edges d)\<^sup>+ \<Longrightarrow> \<exists>n. (n, n) \<in> (edges d)\<^sup>+"
proof (induction d v ns ord rule: visit.induct)
  case (2 d v n ns ord)
  show ?case
  proof (cases "n \<in> set ord \<or> n \<in> v")
    case True
    then show ?thesis using 2 by auto
  next
    case False
    show ?thesis
    proof (cases "visit d (insert n v) (deps_of d n) ord")
      case None
      have "\<forall>m \<in> insert n v. \<forall>p \<in> set (deps_of d n). (m, p) \<in> (edges d)\<^sup>+"
        using "2.prems"(2) by (auto simp: edges_def intro: trancl_into_trancl)
      with 2 None False show ?thesis by blast
    next
      case (Some o1)
      then show ?thesis using 2 False by auto
    qed
  qed
qed simp

lemma deps_known: "dict_ok d \<Longrightarrow>
  list_all (\<lambda>(n, s). list_all (\<lambda>p. dget d p \<noteq> None) (st_deps s)) d \<longleftrightarrow> (\<forall>n. set (deps_of d n) \<subseteq> set (dkeys d))"
proof -
  assume ok: "dict_ok d"
  have k: "dget d p \<noteq> None \<longleftrightarrow> p \<in> set (dkeys d)" for p by (metis dget_None_iff)
  have d: "deps_of d n = st_deps s" if "(n, s) \<in> set d" for n s
    using dget_of_member[OF ok that] by (simp add: deps_of_def)
  show ?thesis
  proof
    assume a: "list_all (\<lambda>(n, s). list_all (\<lambda>p. dget d p \<noteq> None) (st_deps s)) d"
    show "\<forall>n. set (deps_of d n) \<subseteq> set (dkeys d)"
    proof
      fix n
      show "set (deps_of d n) \<subseteq> set (dkeys d)"
      proof (cases "dget d n")
        case (Some s)
        then have "\<forall>p \<in> set (st_deps s). dget d p \<noteq> None" using a dget_in_set by (fastforce simp: list_all_iff)
        with Some k show ?thesis by (auto simp: deps_of_def)
      qed (simp add: deps_of_def)
    qed
  next
    assume a: "\<forall>n. set (deps_of d n) \<subseteq> set (dkeys d)"
    have "\<forall>p \<in> set (st_deps s). dget d p \<noteq> None" if "(n, s) \<in> set d" for n s
      using spec[OF a, of n] d[OF that] k by auto
    then show "list_all (\<lambda>(n, s). list_all (\<lambda>p. dget d p \<noteq> None) (st_deps s)) d"
      by (auto simp: list_all_iff)
  qed
qed

lemma ordered_acyclic: "ordered d ord \<Longrightarrow> set ord = set (dkeys d) \<Longrightarrow> acyclic (edges d)"
proof -
  assume o: "ordered d ord" "set ord = set (dkeys d)"
  have pos: "(\<exists>xs ys. ord = xs @ n # ys \<and> p \<in> set xs)" if "(n, p) \<in> (edges d)\<^sup>+" for n p
    using that
  proof (induction rule: trancl_induct)
    case (base p)
    then have "deps_of d n \<noteq> []" by (auto simp: edges_def)
    then have "n \<in> set (dkeys d)" using deps_of_absent by blast
    then obtain xs ys where "ord = xs @ n # ys" using o(2) by (metis split_list)
    then have "p \<in> set xs" using o(1) base unfolding ordered_def edges_def by blast
    then show ?case using \<open>ord = xs @ n # ys\<close> by blast
  next
    case (step p q)
    then obtain xs ys where xs: "ord = xs @ n # ys" "p \<in> set xs" by blast
    then obtain as bs where "xs = as @ p # bs" by (metis split_list)
    then have "set (deps_of d p) \<subseteq> set as" using o(1) xs by (auto simp: ordered_def)
    then have "q \<in> set xs" using step(2) \<open>xs = as @ p # bs\<close> by (auto simp: edges_def)
    with xs(1) show ?case by blast
  qed
  show ?thesis
    unfolding acyclic_def
  proof (intro allI notI)
    fix n assume "(n, n) \<in> (edges d)\<^sup>+"
    from pos[OF this] o(1) show False by (auto simp: ordered_def)
  qed
qed

lemma sort_outcome:
  assumes "dict_ok d" "\<forall>n. set (deps_of d n) \<subseteq> set (dkeys d)"
  shows "case topo_sort d of Some ord \<Rightarrow> ordered d ord \<and> set ord = set (dkeys d) | None \<Rightarrow> \<not> acyclic (edges d)"
  using visit_sound[of d "{}" "dkeys d" "[]" _ "set (dkeys d)"] visit_cycle[of d "{}" "dkeys d" "[]"] assms
  by (auto simp: topo_sort_def acyclic_def split: option.split)

lemma valid_order:
  "dict_ok d \<Longrightarrow> validate d \<Longrightarrow> \<exists>ord. topo_sort d = Some ord \<and> ordered d ord \<and> set ord = set (dkeys d)"
  using sort_outcome[of d] deps_known[of d] by (auto simp: validate_def)

text \<open>
  C16: Validation accepts exactly the graphs that can run: every dependency is a step and none depends on
  itself, directly or through others.  For these the sort lists every step once, each after all
  its dependencies.
\<close>

theorem validate_exact:
  assumes "dict_ok d"
  shows "(validate d \<longleftrightarrow> (\<forall>n. set (deps_of d n) \<subseteq> set (dkeys d)) \<and> acyclic (edges d))
    \<and> (validate d \<longrightarrow> (\<exists>ord. topo_sort d = Some ord \<and> set ord = set (dkeys d) \<and> distinct ord
        \<and> (\<forall>xs n ys. ord = xs @ n # ys \<longrightarrow> set (deps_of d n) \<subseteq> set xs)))"
proof -
  note K = deps_known[OF assms] and S = sort_outcome[OF assms]
  have v: "validate d \<longleftrightarrow> (\<forall>n. set (deps_of d n) \<subseteq> set (dkeys d)) \<and> acyclic (edges d)"
    using S K ordered_acyclic by (auto simp: validate_def split: option.splits)
  show ?thesis using v valid_order[OF assms] unfolding ordered_def by blast
qed

theorem validate_exact_witness:
  "validate [(''b'', new_step (\<lambda>k c. Returned ()) [''a''] ''9'' 0), (''a'', new_step (\<lambda>k c. Returned ()) [] ''9'' 0)]
    \<and> acyclic (edges [(''b'', new_step (\<lambda>k c. Returned ()) [''a''] ''9'' 0), (''a'', new_step (\<lambda>k c. Returned ()) [] ''9'' 0)])"
proof -
  let ?d = "[(''b'', new_step (\<lambda>k c. Returned ()) [''a''] ''9'' 0), (''a'', new_step (\<lambda>k c. Returned ()) [] ''9'' 0)]"
  have "dict_ok ?d" "validate ?d" by (simp add: dict_ok_def dkeys_def, code_simp)
  with validate_exact[of ?d] show ?thesis by blast
qed


section \<open>What a run does to the steps\<close>

definition legal :: "'v dag \<Rightarrow> string \<Rightarrow> 'v wf_step \<Rightarrow> 'v wf_step \<Rightarrow> bool" where
  "legal d n s s' = (st_deps s' = st_deps s \<and> st_retries s' = st_retries s \<and> st_fn s' = st_fn s
     \<and> (st_status s' = SUCCESS \<longrightarrow> ready d n)
     \<and> (st_status s' = SKIPPED \<longrightarrow> (\<exists>p \<in> set (deps_of d n). status_of d p \<in> {Some FAILED, Some SKIPPED}))
     \<and> (st_status s' \<notin> {PENDING, RUNNING}))"

inductive evolves :: "'v dag \<Rightarrow> 'v dag \<Rightarrow> bool" for d where
  refl: "evolves d d"
| step: "evolves d d1 \<Longrightarrow> dget d1 n = Some s \<Longrightarrow> st_status s = PENDING \<Longrightarrow> legal d1 n s s' \<Longrightarrow>
    evolves d (dset n s' d1)"

lemma evolves_trans: "evolves d1 d2 \<Longrightarrow> evolves d d1 \<Longrightarrow> evolves d d2"
  by (induction rule: evolves.induct) (auto intro: evolves.step)

lemma status_dset [simp]: "status_of (dset n s d) m = (if m = n then Some (st_status s) else status_of d m)"
  by (simp add: status_of_def)

lemma deps_dset: "dget d n = Some s \<Longrightarrow> st_deps s' = st_deps s \<Longrightarrow> deps_of (dset n s' d) m = deps_of d m"
  by (simp add: deps_of_def)

definition graph_ok :: "'v dag \<Rightarrow> bool" where
  "graph_ok d = (\<forall>n. (status_of d n = Some SUCCESS \<longrightarrow> ready d n)
     \<and> (status_of d n = Some SKIPPED \<longrightarrow> (\<exists>p \<in> set (deps_of d n). status_of d p \<in> {Some FAILED, Some SKIPPED}))
     \<and> status_of d n \<noteq> Some RUNNING)"

lemma evolves_spec:
  "evolves d d' \<Longrightarrow> deps_of d' = deps_of d \<and> dkeys d' = dkeys d \<and> (graph_ok d \<longrightarrow> graph_ok d')
    \<and> (\<forall>n. status_of d n \<noteq> Some PENDING \<longrightarrow> dget d' n = dget d n)
    \<and> (\<forall>n s. dget d n = Some s \<longrightarrow> (\<exists>s'. dget d' n = Some s' \<and> st_retries s' = st_retries s \<and> st_fn s' = st_fn s))"
proof (induction rule: evolves.induct)
  case (step d1 n s s')
  have D: "deps_of (dset n s' d1) = deps_of d1"
    by (rule ext, rule deps_dset[OF step(2)]) (use step(4) in \<open>simp add: legal_def\<close>)
  have S: "status_of d1 n = Some PENDING" using step by (simp add: status_of_def)
  have R: "ready (dset n s' d1) m" if "ready d1 m" for m
    using that S by (auto simp: ready_def D list_all_iff)
  have B: "\<exists>p \<in> set (deps_of d1 m). status_of (dset n s' d1) p \<in> {Some FAILED, Some SKIPPED}"
    if "\<exists>p \<in> set (deps_of d1 m). status_of d1 p \<in> {Some FAILED, Some SKIPPED}" for m
    using that S by (metis (no_types, lifting) insert_iff option.inject singletonD status_dset step_status.distinct(5,7))
  have "graph_ok (dset n s' d1)" if g: "graph_ok d1"
    unfolding graph_ok_def
  proof
    fix m
    show "(status_of (dset n s' d1) m = Some SUCCESS \<longrightarrow> ready (dset n s' d1) m)
      \<and> (status_of (dset n s' d1) m = Some SKIPPED \<longrightarrow>
          (\<exists>p \<in> set (deps_of (dset n s' d1) m). status_of (dset n s' d1) p \<in> {Some FAILED, Some SKIPPED}))
      \<and> status_of (dset n s' d1) m \<noteq> Some RUNNING"
      using g R B[of m] step(4) unfolding D by (cases "m = n") (auto simp: graph_ok_def legal_def)
  qed
  moreover have "dkeys (dset n s' d1) = dkeys d1" using dget_Some_key[OF step(2)] by (simp add: dkeys_dset)
  moreover have "\<exists>u'. dget (dset n s' d1) m = Some u' \<and> st_retries u' = st_retries u \<and> st_fn u' = st_fn u"
    if du: "dget d m = Some u" for m u
  proof -
    obtain u1 where u1: "dget d1 m = Some u1" "st_retries u1 = st_retries u" "st_fn u1 = st_fn u"
      using step.IH du by blast
    then show ?thesis using step(2,4) by (cases "m = n") (simp_all add: legal_def)
  qed
  moreover have "dget (dset n s' d1) m = dget d m" if "status_of d m \<noteq> Some PENDING" for m
  proof -
    have "m \<noteq> n" using that step.IH S by (auto simp: status_of_def)
    then show ?thesis using step.IH that by auto
  qed
  ultimately show ?case using step.IH D by auto
qed simp

lemma blocked_spec:
  "mark_blocked ns d = (d', b) \<Longrightarrow> \<forall>n \<in> set ns. status_of d n = Some PENDING \<Longrightarrow> distinct ns \<Longrightarrow>
    evolves d d' \<and> set b \<subseteq> set ns \<and> (\<forall>n. status_of d' n = (if n \<in> set b then Some SKIPPED else status_of d n))"
proof (induction ns arbitrary: d b)
  case (Cons n ns)
  show ?case
  proof (cases "list_ex (\<lambda>p. status_of d p \<in> {Some FAILED, Some SKIPPED}) (deps_of d n)")
    case False
    then show ?thesis using Cons by (auto split: if_splits)
  next
    case True
    from Cons.prems(2) obtain s where s: "dget d n = Some s" "st_status s = PENDING" by (auto simp: status_of_def)
    let ?d = "dset n (s\<lparr>st_status := SKIPPED\<rparr>) d"
    obtain b' where b: "mark_blocked ns ?d = (d', b')" "b = n # b'"
      using Cons.prems(1) True s by (auto split: prod.splits)
    have "evolves d ?d"
      using s True by (intro evolves.step[OF evolves.refl]) (auto simp: legal_def list_ex_iff)
    moreover have "\<forall>m \<in> set ns. status_of ?d m = Some PENDING" using Cons.prems(2,3) by auto
    ultimately show ?thesis using Cons.IH[OF b(1)] Cons.prems(3) b(2) by (auto intro: evolves_trans)
  qed
qed (auto intro: evolves.refl)

lemma attempt_loop_spec:
  "attempt_loop vs c m k s = (s', res) \<Longrightarrow> st_deps s' = st_deps s \<and> st_retries s' = st_retries s \<and> st_fn s' = st_fn s
    \<and> (m > 0 \<longrightarrow> st_status s' = (if res = None then FAILED else SUCCESS)) \<and> (res \<noteq> None \<longrightarrow> st_result s' = res)
    \<and> ((\<exists>j v. k \<le> j \<and> j < k + m \<and> st_fn s j c = Returned v) \<longrightarrow> res \<noteq> None)"
proof (induction vs c m k s rule: attempt_loop.induct)
  case (2 vs c m k s)
  let ?f = "\<lambda>e. s\<lparr>st_error := Some e, st_status := (if m = 0 then FAILED else st_status s)\<rparr>"
  have later: "(\<exists>j v. k \<le> j \<and> j < k + Suc m \<and> st_fn s j c = Returned v) \<Longrightarrow> st_fn s k c \<noteq> Returned v0 \<Longrightarrow>
      \<forall>v. st_fn s k c \<noteq> Returned v \<Longrightarrow> \<exists>j v. Suc k \<le> j \<and> j < Suc k + m \<and> st_fn s j c = Returned v" for v0
    by (metis Suc_leI add_Suc add_Suc_right le_neq_implies_less)
  have none: False if "m = 0" "k \<le> j" "j < Suc k" "st_fn s j c = Returned v" "\<forall>v. st_fn s k c \<noteq> Returned v" for j v
    using that by (metis le_less_Suc_eq)
  show ?case
  proof (cases "st_fn s k c")
    case (Returned v)
    then show ?thesis using "2.prems" by (auto simp: Let_def)
  next
    case Timed_out
    then have "attempt_loop vs c m (Suc k) (?f (''Timeout after '' @ st_timeout s @ ''s'')) = (s', res)"
      using "2.prems" by (simp add: Let_def)
    with "2.IH"(1)[OF HOL.refl Timed_out] later none Timed_out show ?thesis by (cases "m = 0") auto
  next
    case (Raised_with e)
    then have "attempt_loop vs c m (Suc k) (?f e) = (s', res)" using "2.prems" by (simp add: Let_def)
    with "2.IH"(2)[OF HOL.refl Raised_with] later none Raised_with show ?thesis by (cases "m = 0") auto
  qed
qed auto

lemma run_step_spec:
  assumes "run_step vs c s = (s', res)" "st_retries s \<ge> 0"
  shows "st_deps s' = st_deps s \<and> st_retries s' = st_retries s \<and> st_fn s' = st_fn s
    \<and> st_status s' = (if res = None then FAILED else SUCCESS) \<and> (res \<noteq> None \<longrightarrow> st_result s' = res)
    \<and> ((\<exists>j v. int j \<le> st_retries s \<and> st_fn s j c = Returned v) \<longrightarrow> res \<noteq> None)"
proof -
  have m: "nat (st_retries s + 1) > 0" using assms(2) by simp
  have j: "j < 0 + nat (st_retries s + 1)" if "int j \<le> st_retries s" for j using that by linarith
  note A = attempt_loop_spec[OF assms(1)[unfolded run_step_def]]
  have "res \<noteq> None" if "int i \<le> st_retries s" "st_fn s i c = Returned v" for i v
    using A j[OF that(1)] that(2) by fastforce
  with A m show ?thesis by auto
qed

text \<open>Every step of the graph succeeds within its attempts on this context.\<close>

definition sure :: "'v ctx \<Rightarrow> 'v dag \<Rightarrow> bool" where
  "sure c d = (\<forall>n s. dget d n = Some s \<longrightarrow> (\<exists>j v. int j \<le> st_retries s \<and> st_fn s j c = Returned v))"

lemma run_ready_spec:
  "run_ready vs c ns d = (d', rs) \<Longrightarrow> \<forall>n \<in> set ns. status_of d n = Some PENDING \<and> ready d n \<Longrightarrow> distinct ns \<Longrightarrow>
    \<forall>n s. dget d n = Some s \<longrightarrow> st_retries s \<ge> 0 \<Longrightarrow>
    evolves d d' \<and> fst ` set rs \<subseteq> set ns \<and> distinct (map fst rs)
    \<and> (\<forall>n. n \<notin> set ns \<longrightarrow> dget d' n = dget d n)
    \<and> (\<forall>n \<in> set ns. \<exists>s. dget d' n = Some s \<and> st_status s \<in> {SUCCESS, FAILED}
        \<and> (st_status s = SUCCESS \<longrightarrow> st_result s \<noteq> None \<and> map_of rs n = st_result s)
        \<and> (sure c d \<longrightarrow> st_status s = SUCCESS))"
proof (induction ns arbitrary: d rs)
  case (Cons n ns)
  from Cons.prems(2) obtain s where s: "dget d n = Some s" "st_status s = PENDING" "ready d n" by (auto simp: status_of_def)
  obtain s' res where r: "run_step vs c s = (s', res)" by fastforce
  let ?d = "dset n s' d"
  obtain rs' where rs: "run_ready vs c ns ?d = (d', rs')" "rs = (case res of None \<Rightarrow> rs' | Some v \<Rightarrow> (n, v) # rs')"
    using Cons.prems(1) s r by (auto split: prod.splits)
  note R = run_step_spec[OF r] 
  have ret: "st_retries s \<ge> 0" using Cons.prems(4) s by simp
  have ev: "evolves d ?d" using s R[OF ret] by (intro evolves.step[OF evolves.refl]) (auto simp: legal_def)
  have D: "deps_of ?d = deps_of d" by (rule ext, rule deps_dset[OF s(1)]) (use R[OF ret] in simp)
  have pre: "\<forall>m \<in> set ns. status_of ?d m = Some PENDING \<and> ready ?d m"
  proof
    fix m assume m: "m \<in> set ns"
    have "status_of d n = Some PENDING" "ready d m" "m \<noteq> n" using Cons.prems(2,3) m by auto
    then show "status_of ?d m = Some PENDING \<and> ready ?d m"
      using Cons.prems(2) m by (auto simp: ready_def D list_all_iff)
  qed
  have ret': "\<forall>m u. dget ?d m = Some u \<longrightarrow> st_retries u \<ge> 0" using Cons.prems(4) R[OF ret] ret by auto
  have sr: "sure c d \<Longrightarrow> sure c ?d" using R[OF ret] s(1) by (fastforce simp: sure_def)
  have ok: "sure c d \<Longrightarrow> st_status s' = SUCCESS" using R[OF ret] s(1) by (auto simp: sure_def)
  note IH = Cons.IH[OF rs(1) pre _ ret']
  have d: "distinct ns" "n \<notin> set ns" using Cons.prems(3) by auto
  have n': "dget d' n = Some s'" using IH[OF d(1)] d(2) by simp
  have "n \<notin> fst ` set rs'" using IH[OF d(1)] d(2) by auto
  note I = IH[OF d(1)]
  have tail: "\<exists>u. dget d' m = Some u \<and> st_status u \<in> {SUCCESS, FAILED}
      \<and> (st_status u = SUCCESS \<longrightarrow> st_result u \<noteq> None \<and> map_of rs m = st_result u)
      \<and> (sure c d \<longrightarrow> st_status u = SUCCESS)" if "m \<in> set ns" for m
  proof -
    have "map_of rs m = map_of rs' m" using that d(2) rs(2) by (auto split: option.splits)
    then show ?thesis using I that sr by fastforce
  qed
  have head: "st_status s' = SUCCESS \<longrightarrow> st_result s' \<noteq> None \<and> map_of rs n = st_result s'"
    "st_status s' \<in> {SUCCESS, FAILED}"
    using R[OF ret] rs(2) by (auto split: option.splits if_splits)
  have keys: "fst ` set rs \<subseteq> insert n (set ns)" "distinct (map fst rs)"
    using I rs(2) d(2) \<open>n \<notin> fst ` set rs'\<close> by (auto split: option.splits)
  have "evolves d d'" using I ev evolves_trans by blast
  moreover have "\<forall>m. m \<notin> set (n # ns) \<longrightarrow> dget d' m = dget d m" using I by auto
  moreover have "\<exists>u. dget d' m = Some u \<and> st_status u \<in> {SUCCESS, FAILED}
      \<and> (st_status u = SUCCESS \<longrightarrow> st_result u \<noteq> None \<and> map_of rs m = st_result u)
      \<and> (sure c d \<longrightarrow> st_status u = SUCCESS)" if "m \<in> set (n # ns)" for m
    using that tail[of m] n' head ok by (cases "m = n") auto
  ultimately show ?case using keys by auto
qed (auto intro: evolves.refl)

lemma deadlock_spec:
  "\<forall>n \<in> set ns. status_of d n = Some PENDING \<Longrightarrow> distinct ns \<Longrightarrow>
    evolves d (fail_deadlocked ns d) \<and> (\<forall>n. status_of (fail_deadlocked ns d) n = (if n \<in> set ns then Some FAILED else status_of d n))"
proof (induction ns arbitrary: d)
  case Nil
  then show ?case by (simp add: fail_deadlocked_def evolves.refl)
next
  case (Cons n ns)
  then obtain s where s: "dget d n = Some s" "st_status s = PENDING" by (auto simp: status_of_def)
  let ?d = "dset n (s\<lparr>st_status := FAILED, st_error := Some ''Deadlock: unsatisfied dependencies''\<rparr>) d"
  have "evolves d ?d" using s by (intro evolves.step[OF evolves.refl]) (auto simp: legal_def)
  moreover have "fail_deadlocked (n # ns) d = fail_deadlocked ns ?d" by (simp add: fail_deadlocked_def s)
  moreover have "\<forall>m \<in> set ns. status_of ?d m = Some PENDING" "distinct ns" "n \<notin> set ns" using Cons.prems by auto
  ultimately show ?case using Cons.IH[of ?d] by (auto intro: evolves_trans)
qed


lemma dget_merge: "distinct (map fst rs) \<Longrightarrow>
    dget (merge_results rs c) n = (case map_of rs n of None \<Rightarrow> dget c n | Some v \<Rightarrow> Some v)"
proof (induction rs arbitrary: c)
  case (Cons r rs)
  obtain k v where r: "r = (k, v)" by (cases r)
  have "map_of rs k = None" using Cons.prems r by (simp add: map_of_eq_None_iff)
  moreover have "merge_results (r # rs) c = merge_results rs (dset k v c)" by (simp add: merge_results_def r)
  ultimately show ?case using Cons r by (auto split: option.split)
qed (simp add: merge_results_def)

definition holds_results :: "'v ctx \<Rightarrow> 'v dag \<Rightarrow> bool" where
  "holds_results c d = (\<forall>n s. dget d n = Some s \<and> st_status s = SUCCESS \<longrightarrow> st_result s \<noteq> None \<and> dget c n = st_result s)"

definition fair :: "(string list \<Rightarrow> string list) \<Rightarrow> bool" where
  "fair perm = (\<forall>xs. mset (perm xs) = mset xs)"

lemma fair_set: "fair perm \<Longrightarrow> set (perm xs) = set xs" "fair perm \<Longrightarrow> distinct (perm xs) = distinct xs"
  unfolding fair_def by (metis set_mset_mset, metis mset_eq_imp_distinct_iff)

text \<open>One round of the scheduler loop, with what it leaves to do.\<close>

lemma round_spec:
  assumes rem: "distinct rem" "\<forall>n. n \<in> set rem \<longleftrightarrow> status_of d n = Some PENDING" and p: "fair perm"
    and ret: "\<forall>n s. dget d n = Some s \<longrightarrow> st_retries s \<ge> 0" and h: "holds_results c d"
    and b: "mark_blocked (perm (filter (\<lambda>n. n \<notin> set (filter (ready d) rem)) rem)) d = (d1, blocked)"
    and rr: "run_ready vs c (perm (filter (ready d) rem)) d1 = (d2, rs)"
  defines "rem' \<equiv> filter (\<lambda>n. n \<notin> set (filter (ready d) rem)) (filter (\<lambda>n. n \<notin> set blocked) rem)"
  shows "evolves d d1" "\<forall>n. n \<in> set (filter (\<lambda>n. n \<notin> set blocked) rem) \<longleftrightarrow> status_of d1 n = Some PENDING"
    "evolves d d2" "distinct rem'" "\<forall>n. n \<in> set rem' \<longleftrightarrow> status_of d2 n = Some PENDING"
    "\<forall>n s. dget d2 n = Some s \<longrightarrow> st_retries s \<ge> 0" "holds_results (merge_results rs c) d2"
    "sure c d1 \<Longrightarrow> \<forall>n \<in> set (filter (ready d) rem). status_of d2 n = Some SUCCESS"
    "\<forall>n. n \<notin> set rem \<longrightarrow> status_of d2 n = status_of d n"
    "\<forall>n. status_of d1 n = (if n \<in> set blocked then Some SKIPPED else status_of d n)"
    "\<forall>n. n \<notin> set (filter (ready d) rem) \<longrightarrow> status_of d2 n = status_of d1 n" "set blocked \<subseteq> set rem"
proof -
  let ?rdy = "filter (ready d) rem"
  let ?L = "perm (filter (\<lambda>n. n \<notin> set ?rdy) rem)"
  note F = fair_set[OF p]
  have "\<forall>n \<in> set ?L. status_of d n = Some PENDING" "distinct ?L" using rem F by auto
  note B = blocked_spec[OF b this]
  show e1: "evolves d d1" and st1: "\<forall>n. status_of d1 n = (if n \<in> set blocked then Some SKIPPED else status_of d n)"
    using B by auto
  show bl: "set blocked \<subseteq> set rem" using B F by auto
  have nb: "set blocked \<inter> set ?rdy = {}" using B F by auto
  show p1: "\<forall>n. n \<in> set (filter (\<lambda>n. n \<notin> set blocked) rem) \<longleftrightarrow> status_of d1 n = Some PENDING"
    using st1 rem by auto
  note E1 = evolves_spec[OF e1]
  have dep1: "deps_of d1 = deps_of d" using E1 by blast
  have suc: "status_of d1 q = Some SUCCESS" if "status_of d q = Some SUCCESS" for q
    using st1 that bl rem(2) by (metis option.inject step_status.distinct(3) subsetD)
  have pr: "\<forall>n \<in> set (perm ?rdy). status_of d1 n = Some PENDING \<and> ready d1 n"
    using F nb rem st1 suc by (auto simp: ready_def dep1 list_all_iff)
  have ret1: "\<forall>n s. dget d1 n = Some s \<longrightarrow> st_retries s \<ge> 0"
  proof (intro allI impI)
    fix n s assume s: "dget d1 n = Some s"
    then have "dget d n \<noteq> None" using E1 by (metis dget_None_iff option.distinct(1))
    with E1 ret s show "st_retries s \<ge> 0" by fastforce
  qed
  have di: "distinct (perm ?rdy)" using F rem by simp
  note R = run_ready_spec[OF rr pr di ret1, unfolded F(1)]
  show e2: "evolves d d2" using R e1 evolves_trans by blast
  show "distinct rem'" using rem by (simp add: rem'_def)
  have same: "\<forall>n. n \<notin> set ?rdy \<longrightarrow> dget d2 n = dget d1 n" using R by blast
  then show un: "\<forall>n. n \<notin> set ?rdy \<longrightarrow> status_of d2 n = status_of d1 n" by (simp add: status_of_def)
  have done_: "\<forall>n \<in> set ?rdy. status_of d2 n \<in> {Some SUCCESS, Some FAILED}"
    using R by (auto simp: status_of_def)
  show "\<forall>n. n \<in> set rem' \<longleftrightarrow> status_of d2 n = Some PENDING"
  proof
    fix n
    show "n \<in> set rem' \<longleftrightarrow> status_of d2 n = Some PENDING"
    proof (cases "n \<in> set ?rdy")
      case True
      then have "status_of d2 n \<noteq> Some PENDING" using done_ by force
      then show ?thesis using True by (auto simp: rem'_def)
    next
      case False
      then have "status_of d2 n = status_of d1 n" using un by blast
      with False p1 show ?thesis by (auto simp: rem'_def)
    qed
  qed
  show "\<forall>n s. dget d2 n = Some s \<longrightarrow> st_retries s \<ge> 0"
  proof (intro allI impI)
    fix n s assume s: "dget d2 n = Some s"
    note E2 = evolves_spec[OF e2]
    have "dget d n \<noteq> None" using E2 s by (metis dget_None_iff option.distinct(1))
    with E2 ret s show "st_retries s \<ge> 0" by fastforce
  qed
  show "holds_results (merge_results rs c) d2"
    unfolding holds_results_def
  proof (intro allI impI)
    fix n s assume s: "dget d2 n = Some s \<and> st_status s = SUCCESS"
    show "st_result s \<noteq> None \<and> dget (merge_results rs c) n = st_result s"
    proof (cases "n \<in> set ?rdy")
      case True
      then show ?thesis using R s by (fastforce simp: dget_merge)
    next
      case False
      then have d1: "dget d1 n = Some s" using same s by simp
      then have "status_of d1 n = Some SUCCESS" using s by (simp add: status_of_def)
      then have "status_of d n = Some SUCCESS" using spec[OF st1, of n] by (cases "n \<in> set blocked") auto
      then have "dget d n = dget d1 n" using E1 by force
      then have "st_result s \<noteq> None \<and> dget c n = st_result s" using h s d1 by (auto simp: holds_results_def)
      moreover have "map_of rs n = None" using R False by (auto simp: map_of_eq_None_iff)
      ultimately show ?thesis using R by (simp add: dget_merge)
    qed
  qed
  show "\<forall>n. n \<notin> set rem \<longrightarrow> status_of d2 n = status_of d n" using un st1 bl by auto
  show "sure c d1 \<Longrightarrow> \<forall>n \<in> set ?rdy. status_of d2 n = Some SUCCESS" using R by (fastforce simp: status_of_def)
qed


lemma sure_evolves: "evolves d d' \<Longrightarrow> sure c d \<Longrightarrow> sure c d'"
  unfolding sure_def
proof (intro allI impI)
  fix n s assume e: "evolves d d'" and a: "\<forall>n s. dget d n = Some s \<longrightarrow> (\<exists>j v. int j \<le> st_retries s \<and> st_fn s j c = Returned v)"
    and s: "dget d' n = Some s"
  note E = evolves_spec[OF e]
  obtain u where u: "dget d n = Some u" using E s by (metis dget_None_iff not_None_eq)
  then have "st_retries s = st_retries u" "st_fn s = st_fn u" using E s by force+
  with a u show "\<exists>j v. int j \<le> st_retries s \<and> st_fn s j c = Returned v" by simp
qed

definition todo :: "string list \<Rightarrow> 'v dag \<Rightarrow> 'v ctx \<Rightarrow> bool" where
  "todo rem d c = (distinct rem \<and> (\<forall>n. n \<in> set rem \<longleftrightarrow> status_of d n = Some PENDING)
     \<and> (\<forall>n s. dget d n = Some s \<longrightarrow> st_retries s \<ge> 0) \<and> holds_results c d)"

text \<open>The loop unfolded once: it ends, it gives up, or it goes on with the next round's state.\<close>

lemma loop_cases:
  assumes t: "todo rem d c" and p: "fair perm"
  obtains (ended) "rem = []" "run_loop vs perm rem d c = (d, c)"
  | (stuck) d1 rem' where "rem \<noteq> []" "filter (ready d) rem = []" "evolves d d1" "distinct rem'"
      "\<forall>n. n \<in> set rem' \<longleftrightarrow> status_of d1 n = Some PENDING" "run_loop vs perm rem d c = (fail_deadlocked rem' d1, c)"
      "\<forall>n. status_of d1 n = status_of d n \<or> status_of d1 n = Some SKIPPED"
  | (goes_on) d1 b d2 rem' c2 where "filter (ready d) rem \<noteq> []" "length rem' < length rem" "evolves d d2" "todo rem' d2 c2"
      "run_loop vs perm rem d c = run_loop vs perm rem' d2 c2"
      "mark_blocked (perm (filter (\<lambda>n. n \<notin> set (filter (ready d) rem)) rem)) d = (d1, b)"
      "sure c d1 \<Longrightarrow> \<forall>n \<in> set (filter (ready d) rem). status_of d2 n = Some SUCCESS"
      "\<forall>n. n \<notin> set (filter (ready d) rem) \<longrightarrow> status_of d2 n = status_of d1 n"
proof -
  obtain d1 b where b: "mark_blocked (perm (filter (\<lambda>n. n \<notin> set (filter (ready d) rem)) rem)) d = (d1, b)" by fastforce
  obtain d2 rs where rr: "run_ready vs c (perm (filter (ready d) rem)) d1 = (d2, rs)" by fastforce
  from t have t': "distinct rem" "\<forall>n. n \<in> set rem \<longleftrightarrow> status_of d n = Some PENDING"
    "\<forall>n s. dget d n = Some s \<longrightarrow> st_retries s \<ge> 0" "holds_results c d" by (simp_all add: todo_def)
  note S = round_spec[OF t'(1,2) p t'(3,4) b rr]
  let ?r1 = "filter (\<lambda>n. n \<notin> set b) rem"
  let ?r2 = "filter (\<lambda>n. n \<notin> set (filter (ready d) rem)) ?r1"
  show thesis
  proof (cases "rem = []")
    case True
    then show thesis using ended by (simp add: run_loop.simps)
  next
    case ne: False
    show thesis
    proof (cases "filter (ready d) rem = []")
      case True
      have "run_loop vs perm rem d c = (fail_deadlocked ?r1 d1, c)"
        using ne True b by (subst run_loop.simps) (simp add: Let_def)
      then show thesis using stuck[of d1 ?r1] S(1,2,10) t'(1) ne True by auto
    next
      case False
      have "run_loop vs perm rem d c = run_loop vs perm ?r2 d2 (merge_results rs c)"
        using ne False b rr by (subst run_loop.simps) (simp add: Let_def)
      moreover have "length ?r2 < length rem" by (rule shrinks[OF False])
      moreover have "todo ?r2 d2 (merge_results rs c)" using S(4-7) by (simp add: todo_def)
      ultimately show thesis using goes_on[OF False, of ?r2 d2 "merge_results rs c" d1 b] S(3,8,11) b by blast
    qed
  qed
qed

lemma run_loop_spec:
  "todo rem d c \<Longrightarrow> fair perm \<Longrightarrow> run_loop vs perm rem d c = (d', c') \<Longrightarrow>
    evolves d d' \<and> (\<forall>n. status_of d' n \<noteq> Some PENDING) \<and> holds_results c' d'"
proof (induction "length rem" arbitrary: rem d c rule: less_induct)
  case less
  from less.prems(1,2) show ?case
  proof (cases rule: loop_cases[where vs = vs])
    case ended
    then show ?thesis using less.prems by (auto simp: todo_def evolves.refl)
  next
    case (stuck d1 rem')
    have D: "evolves d1 (fail_deadlocked rem' d1)"
      "\<forall>n. status_of (fail_deadlocked rem' d1) n = (if n \<in> set rem' then Some FAILED else status_of d1 n)"
      using deadlock_spec stuck(4,5) by blast+
    have e: "evolves d d'" "d' = fail_deadlocked rem' d1" "c' = c"
      using less.prems(3) stuck(3,6) D(1) evolves_trans by auto
    have "\<forall>n. status_of d' n \<noteq> Some PENDING" using D(2) stuck(5) e(2) by auto
    moreover have "holds_results c' d'"
      unfolding holds_results_def
    proof (intro allI impI)
      fix n s assume s: "dget d' n = Some s \<and> st_status s = SUCCESS"
      then have sc: "status_of d' n = Some SUCCESS" by (simp add: status_of_def)
      then have d1: "status_of d1 n = Some SUCCESS" using D(2) e(2) by (auto split: if_splits)
      then have "status_of d n = Some SUCCESS" using spec[OF stuck(7), of n] by auto
      then have "dget d' n = dget d n" using evolves_spec[OF e(1)] by simp
      with s less.prems(1) e(3) show "st_result s \<noteq> None \<and> dget c' n = st_result s" by (auto simp: todo_def holds_results_def)
    qed
    ultimately show ?thesis using e by blast
  next
    case (goes_on d1 b d2 rem' c2)
    from less.hyps[OF goes_on(2,4) less.prems(2)] less.prems(3) goes_on(3,5) evolves_trans show ?thesis by metis
  qed
qed


lemma status_None: "status_of d n = None \<longleftrightarrow> n \<notin> set (dkeys d)"
  by (simp add: status_of_def dget_None_iff)

lemma some_status:
  assumes "dict_ok d"
  shows "list_ex (\<lambda>(n, s). st_status s = x) d \<longleftrightarrow> (\<exists>n. status_of d n = Some x)"
proof
  assume "list_ex (\<lambda>(n, s). st_status s = x) d"
  then obtain n s where "(n, s) \<in> set d" "st_status s = x" by (auto simp: list_ex_iff)
  with dget_of_member[OF assms] have "status_of d n = Some x" by (simp add: status_of_def)
  then show "\<exists>n. status_of d n = Some x" ..
next
  assume "\<exists>n. status_of d n = Some x"
  then obtain n s where "dget d n = Some s" "st_status s = x" by (auto simp: status_of_def)
  with dget_in_set[of d n s] show "list_ex (\<lambda>(n, s). st_status s = x) d" by (auto simp: list_ex_iff)
qed

lemma nothing_blocked: "\<forall>n. status_of d n \<notin> {Some FAILED, Some SKIPPED} \<Longrightarrow> mark_blocked ns d = (d, [])"
  by (induction ns) (auto simp: list_ex_iff)

lemma first_ready:
  assumes "ordered d ord" "set ord = set (dkeys d)" "\<forall>n. status_of d n \<in> {None, Some PENDING, Some SUCCESS}"
    "status_of d m = Some PENDING"
  shows "\<exists>n. status_of d n = Some PENDING \<and> ready d n"
proof -
  have k: "n \<in> set ord \<longleftrightarrow> status_of d n \<noteq> None" for n
    using assms(2) by (metis dget_None_iff option.map_disc_iff status_of_def)
  then have "\<exists>n \<in> set ord. status_of d n = Some PENDING" using assms(4) by force
  from split_list_first_prop[OF this] obtain xs n ys where
    o: "ord = xs @ n # ys" "status_of d n = Some PENDING" "\<forall>m \<in> set xs. status_of d m \<noteq> Some PENDING" by blast
  have "set (deps_of d n) \<subseteq> set xs" using assms(1) o(1) by (auto simp: ordered_def)
  moreover have "status_of d p = Some SUCCESS" if "p \<in> set xs" for p
  proof -
    have "p \<in> set ord" using that o(1) by simp
    then have "status_of d p \<noteq> None" using k by blast
    with assms(3) o(3) that show ?thesis by (metis empty_iff insert_iff)
  qed
  ultimately have "ready d n" by (auto simp: ready_def list_all_iff)
  with o(2) show ?thesis by blast
qed

lemma run_loop_succeeds:
  "todo rem d c \<Longrightarrow> fair perm \<Longrightarrow> run_loop vs perm rem d c = (d', c') \<Longrightarrow> ordered d ord \<Longrightarrow>
    set ord = set (dkeys d) \<Longrightarrow> \<forall>c. sure c d \<Longrightarrow> \<forall>n. status_of d n \<in> {None, Some PENDING, Some SUCCESS} \<Longrightarrow>
    \<forall>n. status_of d' n \<in> {None, Some SUCCESS}"
proof (induction "length rem" arbitrary: rem d c rule: less_induct)
  case less
  note pend = less.prems(1)[unfolded todo_def]
  from less.prems(1,2) show ?case
  proof (cases rule: loop_cases[where vs = vs])
    case ended
    then have "\<forall>n. status_of d n \<noteq> Some PENDING" using pend by auto
    with less.prems(3,7) ended show ?thesis by auto
  next
    case (stuck d1 rem')
    then obtain m where "status_of d m = Some PENDING" using pend by (metis list.set_intros(1) neq_Nil_conv)
    from first_ready[OF less.prems(4,5,7) this] stuck(2) pend show ?thesis by (auto simp: filter_empty_conv)
  next
    case (goes_on d1 b d2 rem' c2)
    have "status_of d n \<notin> {Some FAILED, Some SKIPPED}" for n using spec[OF less.prems(7), of n] by auto
    then have d1: "d1 = d" using goes_on(6) nothing_blocked[of d] by auto
    have st: "\<forall>n. status_of d2 n \<in> {None, Some PENDING, Some SUCCESS}"
    proof
      fix n
      show "status_of d2 n \<in> {None, Some PENDING, Some SUCCESS}"
      proof (cases "n \<in> set (filter (ready d) rem)")
        case True
        then have "status_of d2 n = Some SUCCESS" using goes_on(7) less.prems(6) d1 by blast
        then show ?thesis by simp
      next
        case False
        then have "status_of d2 n = status_of d n" using goes_on(8) d1 by simp
        then show ?thesis using less.prems(7) by simp
      qed
    qed
    have o: "ordered d2 ord" "set ord = set (dkeys d2)"
      using evolves_spec[OF goes_on(3)] less.prems(4,5) by (simp_all add: ordered_def)
    have "\<forall>c. sure c d2" using sure_evolves[OF goes_on(3)] less.prems(6) by blast
    from less.hyps[OF goes_on(2,4) less.prems(2) _ o this st] less.prems(3) goes_on(5) show ?thesis by simp
  qed
qed

definition fresh :: "'v dag \<Rightarrow> bool" where
  "fresh d = (dict_ok d \<and> (\<forall>(n, s) \<in> set d. st_status s = PENDING \<and> st_retries s \<ge> 0))"

lemma fresh_step: "fresh d \<Longrightarrow> dget d n = Some s \<Longrightarrow> st_status s = PENDING \<and> st_retries s \<ge> 0"
  by (auto simp: fresh_def dest!: dget_in_set)

lemma fresh_todo:
  assumes "fresh d"
  shows "todo (dkeys d) d c" "graph_ok d" "\<forall>n. status_of d n \<in> {None, Some PENDING}"
proof -
  show s: "\<forall>n. status_of d n \<in> {None, Some PENDING}"
    using fresh_step[OF assms] by (auto simp: status_of_def)
  have k: "n \<in> set (dkeys d) \<longleftrightarrow> status_of d n = Some PENDING" for n
    using spec[OF s, of n] status_None[of d n] by auto
  have "distinct (dkeys d)" using assms by (simp add: fresh_def dict_ok_def)
  moreover have "holds_results c d" using fresh_step[OF assms] by (auto simp: holds_results_def)
  ultimately show "todo (dkeys d) d c" using k fresh_step[OF assms] by (simp add: todo_def)
  have "status_of d n \<notin> {Some SUCCESS, Some SKIPPED, Some RUNNING}" for n using spec[OF s, of n] by auto
  then show "graph_ok d" by (simp add: graph_ok_def)
qed

text \<open>Where nothing failed, nothing was skipped: along the sorted list a skipped step has one before it.\<close>

lemma no_failure_no_skip:
  assumes "dict_ok d" "validate d" "deps_of d' = deps_of d" "graph_ok d'" "\<forall>n. status_of d' n \<noteq> Some FAILED" "n \<in> set (dkeys d)"
  shows "status_of d' n \<noteq> Some SKIPPED"
proof -
  from valid_order[OF assms(1,2)] obtain ord where o: "set ord = set (dkeys d)"
    "\<forall>xs n ys. ord = xs @ n # ys \<longrightarrow> set (deps_of d n) \<subseteq> set xs" by (auto simp: ordered_def)
  have "\<forall>m \<in> set xs. status_of d' m \<noteq> Some SKIPPED" if "prefix xs ord" for xs
    using that
  proof (induction xs rule: rev_induct)
    case (snoc x xs)
    then obtain ys where "ord = xs @ x # ys" by (auto simp: prefix_def)
    then have "set (deps_of d' x) \<subseteq> set xs" using o(2) assms(3) by auto
    moreover have "prefix xs ord" using snoc.prems append_prefixD by blast
    ultimately show ?case using snoc.IH assms(4,5) by (fastforce simp: graph_ok_def)
  qed simp
  then show ?thesis using o(1) assms(6) by blast
qed

text \<open>
  C14: A run decides every step and reports it truly.  Whatever the steps do and in whatever order the
  sets are walked, each step ends as succeeded, failed or skipped; it succeeded only if everything it
  depends on did, it is skipped only behind a failed or skipped one, and the context holds the
  result of each step that succeeded.  The run counts as a success exactly when all steps succeeded.
\<close>

theorem run_outcome:
  assumes "fresh d" "fair perm" "execute vs perm c d = Some r"
  shows "dkeys (run_steps r) = dkeys d
    \<and> (\<forall>n s. dget (run_steps r) n = Some s \<longrightarrow> st_status s \<in> {SUCCESS, FAILED, SKIPPED}
        \<and> (st_status s = SUCCESS \<longrightarrow> ready (run_steps r) n \<and> st_result s \<noteq> None \<and> dget (run_ctx r) n = st_result s)
        \<and> (st_status s = SKIPPED \<longrightarrow> (\<exists>p \<in> set (deps_of d n). status_of (run_steps r) p \<in> {Some FAILED, Some SKIPPED})))
    \<and> (run_state r = Run_Success \<longleftrightarrow> (\<forall>n \<in> set (dkeys d). status_of (run_steps r) n = Some SUCCESS))"
proof -
  obtain d' c' where l: "run_loop vs perm (dkeys d) d c = (d', c')" by fastforce
  have v: "validate d" and r: "r = \<lparr>run_steps = d', run_state = (if list_ex (\<lambda>(n, s). st_status s = FAILED) d' then Run_Failed
      else Run_Success), run_ctx = c'\<rparr>" using assms(3) l by (auto simp: execute_def split: if_splits)
  note F = fresh_todo[OF assms(1)]
  note L = run_loop_spec[OF F(1) assms(2) l]
  have E: "deps_of d' = deps_of d" "dkeys d' = dkeys d" "graph_ok d'" using evolves_spec L F(2) by blast+
  have ok: "dict_ok d'" using assms(1) E(2) by (simp add: fresh_def dict_ok_def)
  have st: "status_of d' n \<in> {None, Some SUCCESS, Some FAILED, Some SKIPPED}" for n
  proof (cases "status_of d' n")
    case (Some x)
    then have "x \<noteq> PENDING" "x \<noteq> RUNNING" using L E(3) by (auto simp: graph_ok_def)
    with Some show ?thesis by (cases x) auto
  qed simp
  note fl = some_status[OF ok, of FAILED]
  have all: "status_of d' n = Some SUCCESS" if "\<forall>n. status_of d' n \<noteq> Some FAILED" "n \<in> set (dkeys d)" for n
  proof -
    have "dict_ok d" using assms(1) by (simp add: fresh_def)
    from no_failure_no_skip[OF this v E(1,3) that] have "status_of d' n \<noteq> Some SKIPPED" .
    moreover have "status_of d' n \<noteq> None" using that(2) E(2) by (simp add: status_None)
    ultimately show ?thesis using st[of n] that(1) by auto
  qed
  have steps: "st_status s \<in> {SUCCESS, FAILED, SKIPPED}
      \<and> (st_status s = SUCCESS \<longrightarrow> ready d' n \<and> st_result s \<noteq> None \<and> dget c' n = st_result s)
      \<and> (st_status s = SKIPPED \<longrightarrow> (\<exists>p \<in> set (deps_of d n). status_of d' p \<in> {Some FAILED, Some SKIPPED}))"
    if s: "dget d' n = Some s" for n s
  proof -
    have n: "status_of d' n = Some (st_status s)" using s by (simp add: status_of_def)
    then show ?thesis using st[of n] E(3) L s by (auto simp: graph_ok_def holds_results_def E(1))
  qed
  have "(\<exists>n. status_of d' n = Some FAILED) \<longleftrightarrow> \<not> (\<forall>n \<in> set (dkeys d). status_of d' n = Some SUCCESS)"
  proof
    assume "\<exists>n. status_of d' n = Some FAILED"
    then obtain n where n: "status_of d' n = Some FAILED" ..
    have "n \<in> set (dkeys d)" using n E(2) status_None[of d' n] by simp
    with n show "\<not> (\<forall>n \<in> set (dkeys d). status_of d' n = Some SUCCESS)" by force
  next
    assume "\<not> (\<forall>n \<in> set (dkeys d). status_of d' n = Some SUCCESS)"
    with all show "\<exists>n. status_of d' n = Some FAILED" by blast
  qed
  then have "run_state r = Run_Success \<longleftrightarrow> (\<forall>n \<in> set (dkeys d). status_of d' n = Some SUCCESS)"
    using fl by (simp add: r)
  with steps E(2) show ?thesis by (simp add: r)
qed



text \<open>Small graphs for the examples: results are texts.\<close>

definition texts :: "string value_ops" where
  "texts = \<lparr>repr = (\<lambda>s. s), of_text = (\<lambda>s. s)\<rparr>"

definition good_step :: "string list \<Rightarrow> string wf_step" where
  "good_step deps = new_step (\<lambda>k c. if k = 0 then Timed_out else Returned ''ok'') deps ''9'' 1"

definition bad_step :: "string list \<Rightarrow> string wf_step" where
  "bad_step deps = new_step (\<lambda>k c. Raised_with ''boom'') deps ''9'' 0"

definition good_dag :: "string dag" where
  "good_dag = [(''b'', good_step [''a'']), (''a'', good_step [])]"

definition bad_dag :: "string dag" where
  "bad_dag = [(''a'', bad_step []), (''b'', good_step [''a'']), (''c'', good_step [''b''])]"

lemma fair_examples [simp]: "fair (\<lambda>xs. xs)" "fair rev"
  by (simp_all add: fair_def)

theorem run_outcome_witness:
  "\<exists>r. execute texts rev [] bad_dag = Some r \<and> run_state r = Run_Failed
    \<and> (\<forall>n s. dget (run_steps r) n = Some s \<longrightarrow> st_status s \<in> {SUCCESS, FAILED, SKIPPED})"
proof -
  have f: "fresh bad_dag" by (simp add: fresh_def bad_dag_def dict_ok_def dkeys_def bad_step_def good_step_def new_step_def)
  have "map_option run_state (execute texts rev [] bad_dag) = Some Run_Failed" by code_simp
  then obtain r where r: "execute texts rev [] bad_dag = Some r" "run_state r = Run_Failed" by auto
  with run_outcome[OF f fair_examples(2) r(1)] show ?thesis by blast
qed


text \<open>
  What becomes of the steps behind a failure depends on the order in which Python happens to walk a
  set: in one order the whole chain behind the failed step is skipped, in another the step behind
  the skipped one is reported as failed with a deadlock that does not exist.
\<close>

theorem order_decides_statuses:
  "map_option (\<lambda>r. map (\<lambda>(n, s). (n, st_status s, st_error s)) (run_steps r)) (execute texts (\<lambda>xs. xs) [] bad_dag)
      = Some [(''a'', FAILED, Some ''boom''), (''b'', SKIPPED, None), (''c'', SKIPPED, None)]
    \<and> map_option (\<lambda>r. map (\<lambda>(n, s). (n, st_status s, st_error s)) (run_steps r)) (execute texts rev [] bad_dag)
      = Some [(''a'', FAILED, Some ''boom''), (''b'', SKIPPED, None), (''c'', FAILED, Some ''Deadlock: unsatisfied dependencies'')]"
  by code_simp

end
