(* ===== verification/Files.thy ===== *)
theory Files
  imports Prelude
begin

text \<open>
  Paths as \<open>pathlib\<close> reads them, and a file system for the code that moves files about.

  A path is the list of its components from the root of the machine; the file system maps the paths
  of files to their contents.  A directory exists as long as there is a file below it (empty
  directories, which no modelled code looks for, and symbolic links are left out).  An operation that
  raises in the code says so and leaves the files as they were when it did.
\<close>

section \<open>Paths\<close>

type_synonym path = "string list"
type_synonym fs = "(path, string) dict"

text \<open>\<open>Path(s).parts\<close> without the root, and \<open>base / s\<close>: an absolute right side replaces the left.\<close>

definition parts :: "string \<Rightarrow> path" where
  "parts s = filter (\<lambda>c. c \<noteq> [] \<and> c \<noteq> ''.'') (split_on CHR ''/'' s)"

definition is_abs :: "string \<Rightarrow> bool" where
  "is_abs s = prefix ''/'' s"

definition path_join :: "path \<Rightarrow> string \<Rightarrow> path" where
  "path_join base s = (if is_abs s then parts s else base @ parts s)"

definition path_name :: "path \<Rightarrow> string" where
  "path_name p = (if p = [] then [] else last p)"

text \<open>Parent references resolved, which is what opening the path does.\<close>

definition collapse :: "path \<Rightarrow> path" where
  "collapse p = rev (fold (\<lambda>c q. if c = ''..'' then drop 1 q else c # q) p [])"

definition at :: "path \<Rightarrow> string \<Rightarrow> path" where
  "at root s = collapse (path_join root s)"

text \<open>The path with a suffix added to its name.\<close>

definition with_suffix :: "string \<Rightarrow> path \<Rightarrow> path" where
  "with_suffix x p = (if p = [] then [] else butlast p @ [last p @ x])"

section \<open>Files\<close>

definition is_dir :: "fs \<Rightarrow> path \<Rightarrow> bool" where
  "is_dir fs p = (p = [] \<or> list_ex (strict_prefix p) (dkeys fs))"

definition is_file :: "fs \<Rightarrow> path \<Rightarrow> bool" where
  "is_file fs p = (dget fs p \<noteq> None)"

definition path_exists :: "fs \<Rightarrow> path \<Rightarrow> bool" where
  "path_exists fs p = (is_file fs p \<or> is_dir fs p)"

text \<open>Some directory on the way to the path is a file.\<close>

definition blocked :: "fs \<Rightarrow> path \<Rightarrow> bool" where
  "blocked fs p = list_ex (\<lambda>q. strict_prefix q p) (dkeys fs)"

text \<open>Writing creates the directories above; \<open>None\<close> is an exception.\<close>

definition write_file :: "path \<Rightarrow> string \<Rightarrow> fs \<Rightarrow> fs option" where
  "write_file p c fs = (if is_dir fs p \<or> blocked fs p then None else Some (dset p c fs))"

definition copy_file :: "path \<Rightarrow> path \<Rightarrow> fs \<Rightarrow> fs option" where
  "copy_file src dst fs = (case dget fs src of None \<Rightarrow> None | Some c \<Rightarrow> write_file dst c fs)"

text \<open>\<open>unlink(missing_ok=True)\<close> and \<open>rmtree\<close>.\<close>

definition unlink_file :: "path \<Rightarrow> fs \<Rightarrow> fs option" where
  "unlink_file p fs = (if is_dir fs p \<or> blocked fs p then None else Some (ddel p fs))"

definition remove_tree :: "path \<Rightarrow> fs \<Rightarrow> fs" where
  "remove_tree p fs = filter (\<lambda>(q, _). \<not> prefix p q) fs"

text \<open>
  \<open>shutil.move\<close>, after the parent of the destination has been made: into an existing directory, over
  an existing file, never of a directory into itself.
\<close>

definition move_file :: "path \<Rightarrow> path \<Rightarrow> fs \<Rightarrow> fs option" where
  "move_file src dst fs =
     (if src = dst then Some fs
      else let into = is_dir fs dst; dst = (if into then dst @ [path_name src] else dst) in
        if (into \<and> path_exists fs dst) \<or> blocked fs dst then None
        else case dget fs src of
            Some c \<Rightarrow> if strict_prefix src dst then None else Some (dset dst c (ddel src fs))
          | None \<Rightarrow> if prefix src dst \<or> is_file fs dst then None
              else Some (map (\<lambda>(q, c). (if prefix src q then dst @ drop (length src) q else q, c)) fs))"

text \<open>A file is replaced through a sibling with the suffix \<open>.tmp\<close>, which is gone afterwards in any case.\<close>

definition tmp :: "path \<Rightarrow> path" where
  "tmp p = with_suffix ''.tmp'' p"

definition atomic_write :: "path \<Rightarrow> string \<Rightarrow> fs \<Rightarrow> fs \<times> bool" where
  "atomic_write p c fs = (case write_file (tmp p) c fs of
      None \<Rightarrow> (fs, False)
    | Some fs \<Rightarrow> (case write_file p c (ddel (tmp p) fs) of None \<Rightarrow> (ddel (tmp p) fs, False) | Some fs \<Rightarrow> (fs, True)))"

text \<open>A sequence of operations, up to the first that raises.\<close>

fun run_all :: "('s \<Rightarrow> 's \<times> bool) list \<Rightarrow> 's \<Rightarrow> 's \<times> bool" where
  "run_all [] s = (s, True)"
| "run_all (f # fs) s = (case f s of (s', True) \<Rightarrow> run_all fs s' | (s', False) \<Rightarrow> (s', False))"

definition tried :: "('s \<Rightarrow> 's option) \<Rightarrow> 's \<Rightarrow> 's \<times> bool" where
  "tried f s = (case f s of None \<Rightarrow> (s, False) | Some s' \<Rightarrow> (s', True))"

section \<open>Paths stay inside\<close>

lemma fold_collapse: "''..'' \<notin> set p \<Longrightarrow> fold (\<lambda>c q. if c = ''..'' then drop 1 q else c # q) p q = rev p @ q"
  by (induction p arbitrary: q) auto

lemma collapse_id: "''..'' \<notin> set p \<Longrightarrow> collapse p = p"
  by (simp add: collapse_def fold_collapse)

lemma collapse_append: "''..'' \<notin> set p \<Longrightarrow> collapse (q @ p) = collapse q @ p"
  by (simp add: collapse_def fold_collapse)

section \<open>The file system as a map\<close>

lemma is_dir_iff: "is_dir fs p \<longleftrightarrow> p = [] \<or> (\<exists>q. strict_prefix p q \<and> dget fs q \<noteq> None)"
  by (auto simp: is_dir_def list_ex_iff dget_None_iff)

lemma blocked_iff: "blocked fs p \<longleftrightarrow> (\<exists>q. strict_prefix q p \<and> dget fs q \<noteq> None)"
  by (auto simp: blocked_def list_ex_iff dget_None_iff)

lemma dget_remove_tree: "dget (remove_tree p fs) q = (if prefix p q then None else dget fs q)"
  by (induction fs) (auto simp: remove_tree_def dget_Cons split: if_splits)

lemma write_file_Some: "write_file p c fs = Some fs' \<Longrightarrow> fs' = dset p c fs"
  by (simp add: write_file_def split: if_splits)

lemma atomic_write_effect: "atomic_write p c fs = (fs', b) \<Longrightarrow>
    (\<forall>q. q \<noteq> p \<longrightarrow> q \<noteq> tmp p \<longrightarrow> dget fs' q = dget fs q)
    \<and> (p \<noteq> tmp p \<longrightarrow> dget fs (tmp p) = None \<longrightarrow> dget fs' (tmp p) = None)
    \<and> (b \<longrightarrow> dget fs' p = Some c \<and> (p \<noteq> tmp p \<longrightarrow> dget fs' (tmp p) = None))"
  by (auto simp: atomic_write_def dest!: write_file_Some split: option.splits)

lemma tmp_neq: "p \<noteq> [] \<Longrightarrow> tmp p \<noteq> p"
  by (cases p rule: rev_cases) (auto simp: tmp_def with_suffix_def)

text \<open>Nothing but the paths in \<open>X\<close> differs.\<close>

definition same_but :: "path set \<Rightarrow> fs \<Rightarrow> fs \<Rightarrow> bool" where
  "same_but X fs fs' = (\<forall>p. p \<notin> X \<longrightarrow> dget fs' p = dget fs p)"

lemma same_but_refl [simp]: "same_but X fs fs"
  by (simp add: same_but_def)

lemma same_but_trans: "same_but X fs fs' \<Longrightarrow> same_but X fs' fs'' \<Longrightarrow> same_but X fs fs''"
  by (simp add: same_but_def)

lemma same_but_mono: "same_but X fs fs' \<Longrightarrow> X \<subseteq> Y \<Longrightarrow> same_but Y fs fs'"
  by (auto simp: same_but_def)

lemma run_all_same_but:
  assumes "\<And>f s. f \<in> set fs \<Longrightarrow> same_but X s (fst (f s))"
  shows "same_but X s (fst (run_all fs s))"
  using assms
proof (induction fs arbitrary: s)
  case (Cons f fs)
  obtain s' b where f: "f s = (s', b)" by fastforce
  have "same_but X s s'" using Cons.prems[of f s] f by simp
  moreover have "same_but X s' (fst (run_all fs s'))" using Cons by simp
  ultimately show ?case using f by (cases b) (auto intro: same_but_trans)
qed simp

end
