(* ===== verification/Ipc.thy ===== *)
theory Ipc
  imports ChatDb TaskScheduler Files "HOL-Library.Char_ord" "HOL-Library.List_Lexorder"
begin

text \<open>
  What containers can ask of the host: \<open>host/ipc_watcher.py\<close> up to the background jobs it starts.  A
  container writes JSON files into its group's directory; \<open>process_ipc_dir\<close> takes them in order and
  \<open>_handle_ipc\<close> checks and carries out each request.

  A request holds its string fields (numbers are carried along as their text).  The state is the chat
  tables, the task tables and the list of actions started, one constructor per background job or
  flag file.  Paths are lists of components; \<open>realpath\<close> is \<open>Path.resolve\<close>, \<open>None\<close> where it raises.
  What the sanitised error text says is left out, and so is what the background jobs do.
\<close>

section \<open>Requests and state\<close>

record request =
  rq_fields :: "(string, string) dict"
  rq_delete_after :: bool

definition fld :: "string \<Rightarrow> string \<Rightarrow> request \<Rightarrow> string" where
  "fld k d q = (case dget (rq_fields q) k of None \<Rightarrow> d | Some v \<Rightarrow> v)"

datatype action =
    Route string string "string option"
  | Refresh_flag
  | Reset_flag string
  | Apply_skill string string string
  | Uninstall_skill string string string
  | List_skills string string
  | Spawn_agent string string string string
  | Dev_task string string string string
  | Send_file string "string list" string bool
  | File_missing string string "string list option"
  | Recall string string string string string string string
  | Remember string string string string string string string
  | Search string string string string
  | Remote_control string string
  | Update_disabled string
  | Self_update string
  | Restart_host string

record world =
  w_chat :: chat_db
  w_sched :: sched_db
  w_out :: "action list"

record env =
  groups_dir :: "string list"
  base_dir :: "string list"
  data_dir :: "string list"
  realpath :: "string list \<Rightarrow> string list option"
  exists_file :: "string list \<Rightarrow> bool"
  parse_iso :: "string \<Rightarrow> int option"
  croniter :: "string \<Rightarrow> int \<Rightarrow> int option"
  update_token :: string
  bot_name :: string
  max_files :: int
  clock :: "nat \<Rightarrow> int"
  new_id :: "nat \<Rightarrow> string"

datatype ipc_error = Permission_denied | Bad_value

definition act :: "action \<Rightarrow> world \<Rightarrow> world" where
  "act a w = w\<lparr>w_out := w_out w @ [a]\<rparr>"

text \<open>\<open>next((g for g in groups if g["folder"] == folder), None)\<close>, and its chat.\<close>

definition group_of_folder :: "string \<Rightarrow> world \<Rightarrow> reg_group option" where
  "group_of_folder folder w = List.find (\<lambda>g. rg_folder g = folder) (get_all_registered_groups (w_chat w))"

definition jid_of_folder :: "string \<Rightarrow> string \<Rightarrow> world \<Rightarrow> string" where
  "jid_of_folder d folder w = (case group_of_folder folder w of None \<Rightarrow> d | Some g \<Rightarrow> rg_jid g)"

section \<open>Paths\<close>

text \<open>\<open>os.path.basename\<close>, with \<open>unknown\<close> for an empty path.\<close>

definition basename :: "string \<Rightarrow> string" where
  "basename s = (if s = [] then ''unknown'' else last (split_on CHR ''/'' s))"

definition SENSITIVE_NAMES :: "string list" where
  "SENSITIVE_NAMES = [''.env'', ''.env.local'', ''.netrc'', ''id_rsa'', ''id_dsa'', ''id_ecdsa'', ''id_ed25519'']"
definition SENSITIVE_SUFFIXES :: "string list" where
  "SENSITIVE_SUFFIXES = [''.pem'', ''.key'', ''.p12'', ''.pfx'', ''.crt'']"
definition SENSITIVE_DIRS :: "string list" where
  "SENSITIVE_DIRS = [''.git'', ''store'', ''data'']"

definition is_sensitive_path :: "string list \<Rightarrow> string list \<Rightarrow> bool" where
  "is_sensitive_path path root =
     (let rel = (if prefix root path then map lower (drop (length root) path) else [lower (path_name path)]);
          name = lower (path_name path) in
      list_ex (\<lambda>c. c \<in> set SENSITIVE_DIRS) rel \<or> name \<in> set SENSITIVE_NAMES
      \<or> list_ex (\<lambda>s. suffix s name) SENSITIVE_SUFFIXES)"

text \<open>The prefixes of container paths with the host directory each stands for.\<close>

definition mounts :: "env \<Rightarrow> string \<Rightarrow> bool \<Rightarrow> (string \<times> string list option) list" where
  "mounts env folder is_main =
     [(''/workspace/group/'', Some (groups_dir env @ [folder])),
      (''/workspace/project/'', if is_main then Some (base_dir env) else None),
      (''/workspace/ipc/'', Some (data_dir env @ [''ipc'', folder])),
      (''/workspace/global/'', Some (groups_dir env @ [''global'']))]"

definition resolve_container_path :: "env \<Rightarrow> string \<Rightarrow> string \<Rightarrow> bool \<Rightarrow> string list option" where
  "resolve_container_path env cpath folder is_main =
     (if folder = [] then None
      else let p = strip (map (\<lambda>c. if c = backslash then CHR ''/'' else c) cpath) in
        case List.find (\<lambda>(pre, _). prefix pre p) (mounts env folder is_main) of
          None \<Rightarrow> None
        | Some (_, None) \<Rightarrow> None
        | Some (pre, Some root) \<Rightarrow>
            (let host = path_join root (drop (length pre) p) in
             case (realpath env host, realpath env root) of
               (Some resolved, Some r) \<Rightarrow>
                 if \<not> prefix r resolved then None
                 else if is_sensitive_path resolved r then None else Some host
             | _ \<Rightarrow> None))"

text \<open>The file a memory answer goes to: checked.  The file of a request's result: not checked.\<close>

definition resolve_response_file :: "env \<Rightarrow> string \<Rightarrow> string \<Rightarrow> string list option" where
  "resolve_response_file env path folder =
     (if path = [] \<or> CHR 0x00 \<in> set path then None
      else case (realpath env (data_dir env @ [''ipc'', folder, ''results'']), realpath env (path_join [] path)) of
          (Some root, Some p) \<Rightarrow> if prefix root p \<and> suffix ''.json'' (path_name p) \<and> path_name p \<noteq> ''.json'' then Some p else None
        | _ \<Rightarrow> None)"

definition result_file :: "env \<Rightarrow> string \<Rightarrow> string \<Rightarrow> string list" where
  "result_file env folder request_id = path_join (data_dir env @ [''ipc'', folder, ''results'']) (request_id @ ''.json'')"

section \<open>Handlers\<close>

definition require_own_or_main :: "string \<Rightarrow> string \<Rightarrow> bool \<Rightarrow> bool" where
  "require_own_or_main folder target is_main = (is_main \<or> folder = target)"

definition authorized_task :: "string \<Rightarrow> string \<Rightarrow> bool \<Rightarrow> world \<Rightarrow> task option" where
  "authorized_task tid folder is_main w =
     (case List.find (\<lambda>t. t_id t = tid) (get_all_tasks None (w_sched w)) of
        None \<Rightarrow> None
      | Some t \<Rightarrow> if \<not> is_main \<and> t_folder t \<noteq> folder then None else Some t)"

definition first_run :: "env \<Rightarrow> int \<Rightarrow> string \<Rightarrow> string \<Rightarrow> int option" where
  "first_run env now stype svalue =
     (if stype = ''once'' then parse_iso env svalue
      else if stype = ''interval'' then map_option (\<lambda>n. now + n) (py_int svalue)
      else if stype = ''cron'' then croniter env svalue now else None)"

definition ipc_message :: "string \<Rightarrow> bool \<Rightarrow> request \<Rightarrow> world \<Rightarrow> world" where
  "ipc_message folder is_main q w =
     (let jid = fld ''chatJid'' [] q; text = fld ''text'' [] q in
      if jid \<noteq> [] \<and> \<not> is_main \<and> (case group_of_folder folder w of None \<Rightarrow> False | Some g \<Rightarrow> rg_jid g \<noteq> jid) then w
      else if jid \<noteq> [] \<and> text \<noteq> [] then act (Route jid text (dget (rq_fields q) ''sender'')) w else w)"

definition ipc_schedule :: "env \<Rightarrow> int \<Rightarrow> string \<Rightarrow> string \<Rightarrow> bool \<Rightarrow> request \<Rightarrow> world \<Rightarrow> ipc_error + world" where
  "ipc_schedule env now tid folder is_main q w =
     (if \<not> require_own_or_main folder (fld ''groupFolder'' folder q) is_main then Inl Permission_denied
      else let st = fld ''schedule_type'' [] q; sv = fld ''schedule_value'' [] q; jid = fld ''chatJid'' [] q;
               jid = (if jid = [] then jid_of_folder [] folder w else jid) in
        case create_task tid folder jid (fld ''prompt'' [] q) st sv (first_run env now st sv)
               (fld ''context_mode'' ''group'' q) now (w_sched w) of
          None \<Rightarrow> Inl Bad_value
        | Some db \<Rightarrow> Inr (w\<lparr>w_sched := db\<rparr>))"

definition ipc_task_status :: "string \<Rightarrow> string \<Rightarrow> bool \<Rightarrow> request \<Rightarrow> world \<Rightarrow> world" where
  "ipc_task_status mtype folder is_main q w =
     (let tid = fld ''task_id'' [] q in
      case authorized_task tid folder is_main w of None \<Rightarrow> w
      | Some t \<Rightarrow> w\<lparr>w_sched := (if mtype = ''pause_task'' then update_task tid [Status ''paused''] (w_sched w)
          else if mtype = ''resume_task'' then update_task tid [Status ''active''] (w_sched w)
          else delete_task tid (w_sched w))\<rparr>)"

definition task_changes :: "request \<Rightarrow> column_value list" where
  "task_changes q = List.map_filter (\<lambda>(k, c). map_option c (dget (rq_fields q) k))
     [(''prompt'', Prompt), (''schedule_type'', Schedule_type), (''schedule_value'', Schedule_value),
      (''context_mode'', Context_mode)]"

definition ipc_update_task :: "env \<Rightarrow> int \<Rightarrow> string \<Rightarrow> bool \<Rightarrow> request \<Rightarrow> world \<Rightarrow> world" where
  "ipc_update_task env now folder is_main q w =
     (let tid = fld ''task_id'' [] q in
      case authorized_task tid folder is_main w of None \<Rightarrow> w
      | Some t \<Rightarrow>
         (let us = task_changes q;
              us = (if dget (rq_fields q) ''schedule_type'' = None \<and> dget (rq_fields q) ''schedule_value'' = None then us
                    else us @ [Next_run (first_run env now (fld ''schedule_type'' (t_stype t) q)
                                                          (fld ''schedule_value'' (t_svalue t) q))]) in
          w\<lparr>w_sched := update_task tid us (w_sched w)\<rparr>))"

definition ipc_register_group :: "env \<Rightarrow> int \<Rightarrow> bool \<Rightarrow> request \<Rightarrow> world \<Rightarrow> ipc_error + world" where
  "ipc_register_group env now is_main q w =
     (if \<not> is_main then Inl Permission_denied
      else let jid = fld ''jid'' [] q; name = fld ''name'' [] q; folder = fld ''folder'' [] q in
        if folder \<noteq> [] \<and> \<not> is_valid_group_folder folder then Inl Bad_value
        else if jid \<noteq> [] \<and> name \<noteq> [] \<and> folder \<noteq> [] then
          (case set_registered_group \<lparr>rg_jid = jid, rg_name = name, rg_folder = folder,
                 rg_trigger = Some (fld ''trigger'' (CHR ''@'' # bot_name env) q), rg_added = now, rg_config = None,
                 rg_requires_trigger = True, rg_main = False\<rparr> (w_chat w) of
             None \<Rightarrow> Inl Bad_value | Some db \<Rightarrow> Inr (w\<lparr>w_chat := db\<rparr>))
        else Inr w)"

definition ipc_reset_group :: "bool \<Rightarrow> request \<Rightarrow> world \<Rightarrow> ipc_error + world" where
  "ipc_reset_group is_main q w =
     (if \<not> is_main then Inl Permission_denied
      else if fld ''jid'' [] q = [] then Inl Bad_value
      else Inr (act (Reset_flag (fld ''jid'' [] q)) w))"

definition ipc_skill :: "string \<Rightarrow> string \<Rightarrow> bool \<Rightarrow> request \<Rightarrow> world \<Rightarrow> ipc_error + world" where
  "ipc_skill mtype folder is_main q w =
     (if \<not> is_main then Inl Permission_denied
      else let rid = fld ''requestId'' [] q; path = fld ''skill_path'' [] q; name = fld ''skill_name'' [] q in
        if mtype = ''apply_skill'' then Inr (if path = [] then w else act (Apply_skill path rid folder) w)
        else Inr (if name = [] then w else act (Uninstall_skill name rid folder) w))"

definition ipc_spawn_agent :: "string \<Rightarrow> request \<Rightarrow> world \<Rightarrow> world" where
  "ipc_spawn_agent folder q w =
     (let rid = fld ''requestId'' [] q; prompt = fld ''prompt'' [] q in
      if rid \<noteq> [] \<and> prompt \<noteq> [] then act (Spawn_agent rid prompt (fld ''context_mode'' ''isolated'' q) folder) w else w)"

definition ipc_dev_task :: "string \<Rightarrow> request \<Rightarrow> world \<Rightarrow> world" where
  "ipc_dev_task folder q w =
     (let prompt = fld ''prompt'' [] q; sid = fld ''session_id'' [] q in
      if prompt \<noteq> [] \<or> sid \<noteq> []
      then act (Dev_task prompt (fld ''mode'' ''auto'' q) sid (jid_of_folder folder folder w)) w else w)"

definition ipc_send_file :: "env \<Rightarrow> string \<Rightarrow> bool \<Rightarrow> request \<Rightarrow> world \<Rightarrow> world" where
  "ipc_send_file env folder is_main q w =
     (let cpath = fld ''filePath'' [] q; jid = fld ''chatJid'' [] q;
          jid = (if jid = [] then jid_of_folder [] folder w else jid);
          host = resolve_container_path env cpath folder is_main in
      case host of
        None \<Rightarrow> act (File_missing jid (basename cpath) None) w
      | Some p \<Rightarrow> if exists_file env p then act (Send_file jid p (fld ''caption'' [] q) (rq_delete_after q)) w
          else act (File_missing jid (basename cpath) (Some p)) w)"

definition ipc_memory :: "string \<Rightarrow> string \<Rightarrow> request \<Rightarrow> world \<Rightarrow> world" where
  "ipc_memory mtype folder q w =
     (let file = fld ''response_file'' [] q; agent = jid_of_folder folder folder w;
          ns = fld ''namespace'' [] q; tag = fld ''topic_tag'' [] q in
      if mtype = ''memory_recall'' then
        (let query = fld ''query'' [] q in if query \<noteq> [] \<and> file \<noteq> []
           then act (Recall query (fld ''k'' ''5'' q) ns tag agent file folder) w else w)
      else (let content = fld ''content'' [] q in if content \<noteq> [] \<and> file \<noteq> []
           then act (Remember content (fld ''importance'' ''0.7'' q) ns tag agent file folder) w else w))"

definition ipc_memory_search :: "string \<Rightarrow> request \<Rightarrow> world \<Rightarrow> world" where
  "ipc_memory_search folder q w =
     (let jid = jid_of_folder [] folder w; query = fld ''query'' [] q in
      if query \<noteq> [] \<and> jid \<noteq> [] then act (Search query (fld ''requestId'' [] q) jid folder) w else w)"

definition own_jid :: "string \<Rightarrow> request \<Rightarrow> world \<Rightarrow> string" where
  "own_jid folder q w = (let jid = fld ''jid'' [] q in if jid = [] then jid_of_folder [] folder w else jid)"

definition ipc_self_update :: "env \<Rightarrow> string \<Rightarrow> request \<Rightarrow> world \<Rightarrow> world" where
  "ipc_self_update env folder q w =
     (let jid = own_jid folder q w in
      if update_token env = [] then (if jid \<noteq> [] then act (Update_disabled jid) w else w)
      else if fld ''confirm_token'' [] q \<noteq> update_token env then w
      else act (Self_update jid) w)"

definition handle_ipc ::
  "env \<Rightarrow> int \<Rightarrow> string \<Rightarrow> string \<Rightarrow> bool \<Rightarrow> request \<Rightarrow> world \<Rightarrow> ipc_error + world" where
  "handle_ipc env now tid folder is_main q w =
     (let ty = dget (rq_fields q) ''type'' in
      if ty = Some ''message'' then Inr (ipc_message folder is_main q w)
      else if ty = Some ''schedule_task'' then ipc_schedule env now tid folder is_main q w
      else if ty \<in> {Some ''pause_task'', Some ''resume_task'', Some ''cancel_task''}
        then Inr (ipc_task_status (the ty) folder is_main q w)
      else if ty = Some ''update_task'' then Inr (ipc_update_task env now folder is_main q w)
      else if ty = Some ''register_group'' then ipc_register_group env now is_main q w
      else if ty = Some ''refresh_groups'' then Inr (act Refresh_flag w)
      else if ty = Some ''reset_group'' then ipc_reset_group is_main q w
      else if ty \<in> {Some ''apply_skill'', Some ''uninstall_skill''} then ipc_skill (the ty) folder is_main q w
      else if ty = Some ''list_skills'' then Inr (act (List_skills (fld ''requestId'' [] q) folder) w)
      else if ty = Some ''spawn_agent'' then Inr (ipc_spawn_agent folder q w)
      else if ty = Some ''dev_task'' then Inr (ipc_dev_task folder q w)
      else if ty = Some ''send_file'' then Inr (ipc_send_file env folder is_main q w)
      else if ty \<in> {Some ''memory_recall'', Some ''memory_remember''} then Inr (ipc_memory (the ty) folder q w)
      else if ty = Some ''memory_search'' then Inr (ipc_memory_search folder q w)
      else if ty = Some ''start_remote_control'' then
        Inr (let jid = own_jid folder q w in if jid \<noteq> [] then act (Remote_control jid (fld ''sender'' [] q)) w else w)
      else if ty = Some ''self_update'' then Inr (ipc_self_update env folder q w)
      else if ty = Some ''restart_host'' then Inr (act (Restart_host (own_jid folder q w)) w)
      else Inr w)"

section \<open>The directories\<close>

text \<open>What reading a file finds; \<open>Vanished\<close> is a file that is gone by then.\<close>

datatype content = Vanished | Blank | Bad_json | Not_an_object | Request request

record ipc_file =
  f_name :: string
  f_content :: content

text \<open>
  \<open>ipc_files\<close> holds the directories that exist, by group and whether it is the one for messages.  The
  next two lists are the files moved aside, \<open>ipc_tick\<close> counts the requests seen: it indexes the clock
  and the identifiers of \<open>uuid4\<close>.
\<close>

record ipc_state =
  ipc_world :: world
  ipc_files :: "(string \<times> bool, ipc_file list) dict"
  ipc_bad_json :: "(string \<times> string) list"
  ipc_failed :: "string list"
  ipc_tick :: nat

definition remove_file :: "string \<times> bool \<Rightarrow> string \<Rightarrow> ipc_state \<Rightarrow> ipc_state" where
  "remove_file d name s = (case dget (ipc_files s) d of None \<Rightarrow> s
     | Some fs \<Rightarrow> s\<lparr>ipc_files := dset d (filter (\<lambda>f. f_name f \<noteq> name) fs) (ipc_files s)\<rparr>)"

text \<open>
  A failure is reported by a new message file for the main group, if that group has a message
  directory.  (The text goes on with the sanitised error.)
\<close>

definition alert_file :: "int \<Rightarrow> string \<Rightarrow> reg_group \<Rightarrow> ipc_file" where
  "alert_file now fname g =
     \<lparr>f_name = ''ipc_error_alert_'' @ show_int now @ ''.json'',
      f_content = Request \<lparr>rq_fields = [(''type'', ''message''), (''chatJid'', rg_jid g),
        (''text'', ''IPC Error: failed to process `'' @ fname @ ''`'')], rq_delete_after = False\<rparr>\<rparr>"

definition notify_main :: "int \<Rightarrow> string \<Rightarrow> ipc_state \<Rightarrow> ipc_state" where
  "notify_main now fname s =
     (case List.find rg_main (get_all_registered_groups (w_chat (ipc_world s))) of
        None \<Rightarrow> s
      | Some g \<Rightarrow> (case dget (ipc_files s) (rg_folder g, True) of
            None \<Rightarrow> s
          | Some fs \<Rightarrow> (let a = alert_file now fname g in
              s\<lparr>ipc_files := dset (rg_folder g, True) (filter (\<lambda>f. f_name f \<noteq> f_name a) fs @ [a]) (ipc_files s)\<rparr>)))"

definition process_file :: "env \<Rightarrow> string \<Rightarrow> bool \<Rightarrow> bool \<Rightarrow> ipc_file \<Rightarrow> ipc_state \<Rightarrow> ipc_state" where
  "process_file env folder is_main kind f s =
     (let gone = remove_file (folder, kind) (f_name f) s; n = ipc_tick s; now = clock env n;
          failed = notify_main now (f_name f) (gone\<lparr>ipc_failed := ipc_failed s @ [f_name f], ipc_tick := Suc n\<rparr>) in
      case f_content f of
        Vanished \<Rightarrow> gone
      | Blank \<Rightarrow> gone
      | Bad_json \<Rightarrow> gone\<lparr>ipc_bad_json := ipc_bad_json s @ [(folder, f_name f)]\<rparr>
      | Not_an_object \<Rightarrow> failed
      | Request q \<Rightarrow> (case handle_ipc env now (new_id env n) folder is_main q (ipc_world s) of
            Inl _ \<Rightarrow> failed
          | Inr w \<Rightarrow> gone\<lparr>ipc_world := w, ipc_tick := Suc n\<rparr>))"

text \<open>\<open>sorted(d.glob("*.json"))\<close>, cut to the limit of a cycle unless that is disabled.\<close>

definition files_to_process :: "env \<Rightarrow> ipc_file list \<Rightarrow> ipc_file list" where
  "files_to_process env fs =
     (let all = sort_key f_name fs in if max_files env > 0 then take (nat (max_files env)) all else all)"

definition process_dir :: "env \<Rightarrow> string \<Rightarrow> bool \<Rightarrow> bool \<Rightarrow> ipc_state \<Rightarrow> ipc_state" where
  "process_dir env folder is_main kind s = (case dget (ipc_files s) (folder, kind) of
      None \<Rightarrow> s
    | Some fs \<Rightarrow> fold (process_file env folder is_main kind) (files_to_process env fs) s)"

definition process_ipc_dir :: "env \<Rightarrow> string \<Rightarrow> bool \<Rightarrow> ipc_state \<Rightarrow> ipc_state" where
  "process_ipc_dir env folder is_main s =
     process_dir env folder is_main False (process_dir env folder is_main True s)"

section \<open>What a group's container can do\<close>

definition foreign :: "string \<Rightarrow> sched_db \<Rightarrow> task list" where
  "foreign folder db = filter (\<lambda>t. t_folder t \<noteq> folder) (tasks db)"

text \<open>\<open>p\<close> resolves inside \<open>root\<close> and is not sensitive there.\<close>

definition inside :: "env \<Rightarrow> string list \<Rightarrow> string list \<Rightarrow> bool" where
  "inside env root p = (case (realpath env root, realpath env p) of
     (Some r, Some q) \<Rightarrow> prefix r q \<and> \<not> is_sensitive_path q r | _ \<Rightarrow> False)"

text \<open>
  The actions a group's container may cause.  (A message is only compared with the registered chat; a
  folder without one is not watched.)
\<close>

definition permitted :: "env \<Rightarrow> string \<Rightarrow> world \<Rightarrow> action \<Rightarrow> bool" where
  "permitted env folder w a = (case a of
     Route jid _ _ \<Rightarrow> (case group_of_folder folder w of None \<Rightarrow> True | Some g \<Rightarrow> rg_jid g = jid)
   | Reset_flag _ \<Rightarrow> False
   | Apply_skill _ _ _ \<Rightarrow> False
   | Uninstall_skill _ _ _ \<Rightarrow> False
   | List_skills _ f \<Rightarrow> f = folder
   | Spawn_agent _ _ _ f \<Rightarrow> f = folder
   | Dev_task _ _ _ jid \<Rightarrow> jid = jid_of_folder folder folder w
   | Send_file _ p _ _ \<Rightarrow> list_ex (\<lambda>root. inside env root p)
       [groups_dir env @ [folder], data_dir env @ [''ipc'', folder], groups_dir env @ [''global'']]
   | Recall _ _ _ _ jid _ f \<Rightarrow> jid = jid_of_folder folder folder w \<and> f = folder
   | Remember _ _ _ _ jid _ f \<Rightarrow> jid = jid_of_folder folder folder w \<and> f = folder
   | Search _ _ jid f \<Rightarrow> jid = jid_of_folder [] folder w \<and> f = folder
   | Self_update _ \<Rightarrow> update_token env \<noteq> []
   | _ \<Rightarrow> True)"

definition confined :: "env \<Rightarrow> string \<Rightarrow> world \<Rightarrow> world \<Rightarrow> bool" where
  "confined env folder w w' \<longleftrightarrow> w_chat w' = w_chat w \<and> distinct_ids (w_sched w')
     \<and> foreign folder (w_sched w') = foreign folder (w_sched w) \<and> logs (w_sched w') = logs (w_sched w)
     \<and> (\<exists>as. w_out w' = w_out w @ as \<and> list_all (permitted env folder w) as)"

lemma group_of_folder_chat: "w_chat w' = w_chat w \<Longrightarrow> group_of_folder f w' = group_of_folder f w"
  by (simp add: group_of_folder_def)

lemma permitted_chat: "w_chat w' = w_chat w \<Longrightarrow> permitted env f w' = permitted env f w"
proof
  fix a
  assume "w_chat w' = w_chat w"
  then have "group_of_folder f w' = group_of_folder f w" by (rule group_of_folder_chat)
  then show "permitted env f w' a = permitted env f w a" by (cases a) (simp_all add: permitted_def jid_of_folder_def)
qed

lemma confined_refl: "distinct_ids (w_sched w) \<Longrightarrow> confined env f w w"
  by (simp add: confined_def)

lemma confined_trans: "confined env f w w' \<Longrightarrow> confined env f w' w'' \<Longrightarrow> confined env f w w''"
  unfolding confined_def using permitted_chat[of w' w env f]
  by (metis append.assoc list_all_append)

lemma confined_act: "distinct_ids (w_sched w) \<Longrightarrow> permitted env f w a \<Longrightarrow> confined env f w (act a w)"
  by (simp add: confined_def act_def)

lemma confined_sched: "distinct_ids db \<Longrightarrow> foreign f db = foreign f (w_sched w) \<Longrightarrow> logs db = logs (w_sched w)
    \<Longrightarrow> confined env f w (w\<lparr>w_sched := db\<rparr>)"
  by (simp add: confined_def)

lemma find_Some: "List.find P xs = Some x \<Longrightarrow> x \<in> set xs \<and> P x"
  by (induction xs) (auto split: if_splits)

definition roots :: "env \<Rightarrow> string \<Rightarrow> bool \<Rightarrow> string list list" where
  "roots env folder is_main = [groups_dir env @ [folder], data_dir env @ [''ipc'', folder], groups_dir env @ [''global'']]
     @ (if is_main then [base_dir env] else [])"

lemma resolve_inside:
  assumes "resolve_container_path env c f m = Some p"
  shows "f \<noteq> [] \<and> (\<exists>root \<in> set (roots env f m). inside env root p)"
proof -
  let ?p = "strip (map (\<lambda>c. if c = backslash then CHR ''/'' else c) c)"
  from assms obtain pre root where f: "f \<noteq> []" and r: "List.find (\<lambda>(pre, _). prefix pre ?p) (mounts env f m) = Some (pre, Some root)"
    and p: "inside env root p"
    by (auto simp: resolve_container_path_def Let_def inside_def split: if_splits option.splits)
  from find_Some[OF r] have "root \<in> set (roots env f m)"
    by (auto simp: mounts_def roots_def split: if_splits)
  with f p show ?thesis by blast
qed

lemma filter_map_same: "(\<And>x. x \<in> set xs \<Longrightarrow> P (h x) = P x) \<Longrightarrow> (\<And>x. x \<in> set xs \<Longrightarrow> P x \<Longrightarrow> h x = x)
    \<Longrightarrow> filter P (map h xs) = filter P xs"
  by (induction xs) simp_all

lemma task_found: "authorized_task i f False w = Some t \<Longrightarrow> t \<in> set (tasks (w_sched w)) \<and> t_id t = i \<and> t_folder t = f"
proof -
  assume a: "authorized_task i f False w = Some t"
  then have "List.find (\<lambda>t. t_id t = i) (tasks (w_sched w)) = Some t" "t_folder t = f"
    by (auto simp: authorized_task_def get_all_tasks_def split: option.splits if_splits)
  then show ?thesis using find_Some[of "\<lambda>t. t_id t = i" "tasks (w_sched w)" t] by simp
qed

lemma same_id: "distinct_ids db \<Longrightarrow> t \<in> set (tasks db) \<Longrightarrow> r \<in> set (tasks db) \<Longrightarrow> t_id r = t_id t \<Longrightarrow> r = t"
  by (auto simp: distinct_ids_def distinct_map dest: inj_onD)

lemma distinct_update: "distinct_ids db \<Longrightarrow> distinct_ids (update_task i us db)"
proof -
  have "map t_id (tasks (update_task i us db)) = map t_id (tasks db)"
    by (simp add: tasks_update set_column_key fold_set_column_key list_all_iff)
  then show "distinct_ids db \<Longrightarrow> ?thesis" by (simp add: distinct_ids_def)
qed

lemma foreign_update:
  assumes "distinct_ids db" "t \<in> set (tasks db)" "t_id t = i" "t_folder t = f"
  shows "foreign f (update_task i us db) = foreign f db"
proof -
  let ?h = "fold set_column (filter allowed us)"
  have k: "t_folder (?h r) = t_folder r" for r by (simp add: fold_set_column_key list_all_iff)
  have "t_folder r = f" if "r \<in> set (tasks db)" "t_id r = i" for r
    using same_id[OF assms(1,2) that(1)] that(2) assms(3,4) by simp
  then show ?thesis unfolding foreign_def tasks_update by (intro filter_map_same) (auto simp: k)
qed

lemma delete_foreign:
  assumes "distinct_ids db" "t \<in> set (tasks db)" "t_id t = i" "t_folder t = f"
  shows "distinct_ids (delete_task i db) \<and> foreign f (delete_task i db) = foreign f db \<and> logs (delete_task i db) = logs db"
  using assms(1) same_id[OF assms(1,2)] assms(3,4)
  by (auto simp: delete_task_def distinct_ids_def foreign_def distinct_map_filter intro!: filter_cong)

lemma create_foreign:
  "create_task i f jid p st sv nx c now db = Some db' \<Longrightarrow> distinct_ids db \<Longrightarrow>
     distinct_ids db' \<and> foreign f db' = foreign f db \<and> logs db' = logs db"
  by (auto simp: create_task_def distinct_ids_def foreign_def split: if_splits)


lemma file_jobs_confined: "distinct_ids (w_sched w) \<Longrightarrow> confined env f w (ipc_send_file env f False q w)"
  using resolve_inside[of env "fld ''filePath'' [] q" f False]
  by (auto simp: ipc_send_file_def Let_def permitted_def roots_def confined_refl intro!: confined_act split: option.split)

lemma memory_jobs_confined: "distinct_ids (w_sched w) \<Longrightarrow> confined env f w (ipc_memory ty f q w)
    \<and> confined env f w (ipc_memory_search f q w)"
  by (simp add: ipc_memory_def ipc_memory_search_def Let_def permitted_def confined_refl confined_act)

lemma agent_jobs_confined: "distinct_ids (w_sched w) \<Longrightarrow> confined env f w (ipc_spawn_agent f q w)
    \<and> confined env f w (ipc_dev_task f q w) \<and> confined env f w (ipc_self_update env f q w)"
  by (simp add: ipc_spawn_agent_def ipc_dev_task_def ipc_self_update_def Let_def permitted_def confined_refl confined_act)

lemma message_confined: "distinct_ids (w_sched w) \<Longrightarrow> confined env f w (ipc_message f False q w)"
  by (auto simp: ipc_message_def Let_def permitted_def confined_refl intro!: confined_act split: option.splits)

lemma schedule_confined: "distinct_ids (w_sched w) \<Longrightarrow> ipc_schedule env now i f m q w = Inr w' \<Longrightarrow> confined env f w w'"
  by (auto simp: ipc_schedule_def Let_def split: if_splits option.splits dest!: create_foreign[where f = f] intro!: confined_sched)

lemma status_confined:
  assumes d: "distinct_ids (w_sched w)"
  shows "confined env f w (ipc_task_status ty f False q w) \<and> confined env f w (ipc_update_task env now f False q w)"
proof (cases "authorized_task (fld ''task_id'' [] q) f False w")
  case None
  then show ?thesis using d by (simp add: ipc_task_status_def ipc_update_task_def confined_refl)
next
  case (Some t)
  note t = task_found[OF Some]
  have "confined env f w (w\<lparr>w_sched := update_task (fld ''task_id'' [] q) us (w_sched w)\<rparr>)" for us
    using d t foreign_update[OF d, of t] by (intro confined_sched) (auto simp: distinct_update)
  moreover have "confined env f w (w\<lparr>w_sched := delete_task (fld ''task_id'' [] q) (w_sched w)\<rparr>)"
    using d t delete_foreign[OF d, of t] by (intro confined_sched) auto
  ultimately show ?thesis using Some by (simp add: ipc_task_status_def ipc_update_task_def Let_def)
qed

lemmas handlers_confined = file_jobs_confined memory_jobs_confined agent_jobs_confined message_confined status_confined

lemma handle_confined:
  assumes "distinct_ids (w_sched w)" "handle_ipc env now i f False q w = Inr w'"
  shows "confined env f w w'"
proof -
  note d = assms(1)
  have "\<forall>v. handle_ipc env now i f False q w = Inr v \<longrightarrow> confined env f w v"
    by (auto simp: handle_ipc_def Let_def handlers_confined[OF d] schedule_confined[OF d] ipc_register_group_def
        ipc_reset_group_def ipc_skill_def confined_refl[OF d] split: if_splits intro!: confined_act[OF d] simp: permitted_def)
  with assms(2) show ?thesis by blast
qed

lemma files_world [simp]: "ipc_world (remove_file d n s) = ipc_world s" "ipc_world (notify_main now n s) = ipc_world s"
  by (simp_all add: remove_file_def notify_main_def Let_def split: option.split)

interpretation files: preserved "process_file env f False kind" "\<lambda>s. confined env f w (ipc_world s)"
  for env f kind w
proof
  fix s :: ipc_state and x
  assume c: "confined env f w (ipc_world s)"
  then have d: "distinct_ids (w_sched (ipc_world s))" by (simp add: confined_def)
  show "confined env f w (ipc_world (process_file env f False kind x s))"
    using c confined_trans[OF c handle_confined[OF d]]
    by (auto simp: process_file_def Let_def split: content.split sum.split)
qed

lemma dir_confined: "confined env f w (ipc_world s) \<Longrightarrow> confined env f w (ipc_world (process_dir env f False kind s))"
  by (simp add: process_dir_def files.history_kept split: option.split)


text \<open>
  C17: Whatever files the container of a group that is not the main one writes, a pass of the watcher leaves
  the registry, the chats, the task rows of other groups and the run logs as they were, and the actions
  it starts are limited: messages to the own chat, no skill changes and no counter resets, files only
  from the own directories or the shared one and not sensitive ones, memory under the own name, a
  self-update only where a token is configured.
\<close>

theorem ipc_confined:
  assumes "distinct_ids (w_sched (ipc_world s))"
  shows "let w = ipc_world s; w' = ipc_world (process_ipc_dir env folder False s) in
    w_chat w' = w_chat w \<and> foreign folder (w_sched w') = foreign folder (w_sched w) \<and> logs (w_sched w') = logs (w_sched w)
    \<and> (\<exists>new. w_out w' = w_out w @ new \<and> list_all (permitted env folder w) new)"
  using dir_confined[OF dir_confined[OF confined_refl[OF assms]], of env folder False True]
  by (simp add: confined_def process_ipc_dir_def Let_def)

definition demo_env :: env where
  "demo_env = \<lparr>groups_dir = [''groups''], base_dir = [], data_dir = [''data''], realpath = Some, exists_file = (\<lambda>_. True),
     parse_iso = (\<lambda>_. None), croniter = (\<lambda>_ _. None), update_token = [], bot_name = ''bot'', max_files = 100,
     clock = int, new_id = show_nat\<rparr>"

definition demo_world :: world where
  "demo_world = \<lparr>w_chat = empty_chat_db\<lparr>reg_groups := [demo_group,
     demo_group\<lparr>rg_jid := ''tg:2'', rg_folder := ''boss'', rg_main := False\<rparr>]\<rparr>,
     w_sched = \<lparr>tasks = [demo_task\<lparr>t_id := ''x'', t_folder := ''team''\<rparr>], logs = []\<rparr>, w_out = []\<rparr>"

text \<open>A request with the given fields.\<close>

definition ask :: "(string \<times> string) list \<Rightarrow> request" where
  "ask fs = \<lparr>rq_fields = fs, rq_delete_after = False\<rparr>"

definition demo_state :: ipc_state where
  "demo_state = \<lparr>ipc_world = demo_world, ipc_files = [((''boss'', True), [\<lparr>f_name = ''2.json'', f_content = Not_an_object\<rparr>]),
      ((''boss'', False), [
       \<lparr>f_name = ''3.json'', f_content = Request (ask [(''type'', ''cancel_task''), (''task_id'', ''x'')])\<rparr>,
       \<lparr>f_name = ''1.json'', f_content = Request (ask [(''type'', ''send_file''), (''filePath'', ''/workspace/group/a.txt'')])\<rparr>,
       \<lparr>f_name = ''2.json'', f_content = Request (ask [(''type'', ''schedule_task''), (''schedule_type'', ''interval''), (''schedule_value'', ''60'')])\<rparr>])],
     ipc_bad_json = [], ipc_failed = [], ipc_tick = 0\<rparr>"

theorem ipc_confined_witness:
  "list_all (permitted demo_env ''boss'' demo_world) (w_out (ipc_world (process_ipc_dir demo_env ''boss'' False demo_state)))
    \<and> map t_id (tasks (w_sched (ipc_world (process_ipc_dir demo_env ''boss'' False demo_state)))) = [''x'', ''2'']
    \<and> w_out (ipc_world (process_ipc_dir demo_env ''boss'' False demo_state)) = [Send_file ''tg:2'' [''groups'', ''boss'', ''a.txt''] [] False]"
proof -
  have d: "distinct_ids (w_sched (ipc_world demo_state))" by code_simp
  have o: "w_out (ipc_world demo_state) = []" "ipc_world demo_state = demo_world" by code_simp+
  have "map t_id (tasks (w_sched (ipc_world (process_ipc_dir demo_env ''boss'' False demo_state)))) = [''x'', ''2'']" by code_simp
  moreover have "w_out (ipc_world (process_ipc_dir demo_env ''boss'' False demo_state)) = [Send_file ''tg:2'' [''groups'', ''boss'', ''a.txt''] [] False]"
    by code_simp
  ultimately show ?thesis using ipc_confined[OF d, of demo_env "''boss''"] o by (auto simp: Let_def)
qed

section \<open>Other chats\<close>

lemma no_mount:
  assumes "CHR ''/'' \<notin> set c" "backslash \<notin> set c"
  shows "resolve_container_path env c f m = None"
proof -
  let ?p = "strip (map (\<lambda>c. if c = backslash then CHR ''/'' else c) c)"
  have "map (\<lambda>c. if c = backslash then CHR ''/'' else c) c = c"
    using assms(2) by (intro map_idI) auto
  then have "CHR ''/'' \<notin> set ?p" using assms(1) set_strip_subset[of c] by auto
  then have "\<not> prefix (CHR ''/'' # xs) ?p" for xs by (auto simp: prefix_def)
  then have "List.find (\<lambda>(pre, _). prefix pre ?p) (mounts env f m) = None" by (simp add: mounts_def)
  then show ?thesis by (simp add: resolve_container_path_def Let_def)
qed

lemma basename_plain: "CHR ''/'' \<notin> set s \<Longrightarrow> s \<noteq> [] \<Longrightarrow> basename s = s"
  by (simp add: basename_def split_on_absent)

text \<open>
  The check that keeps messages to the own chat does not cover the other ways out.  A message to
  another chat is dropped; but the notice about a file that cannot be resolved goes to any chat the
  request names, with a text of the sender's choice, and a task scheduled for another chat is accepted:
  when it is due the host runs the prompt in the other chat's group, with the sender's session.
\<close>

theorem other_chats_reachable:
  assumes own: "group_of_folder folder w = Some own" "rg_jid own \<noteq> victim"
    and victim: "get_registered_group victim (w_chat w) = Some g" "victim \<noteq> []"
    and task: "i \<notin> t_id ` set (tasks (w_sched w))" "py_int sv = Some n"
    and msg: "CHR ''/'' \<notin> set msg" "backslash \<notin> set msg" "msg \<noteq> []"
  shows "handle_ipc env now i folder False (ask [(''type'', ''message''), (''chatJid'', victim), (''text'', msg)]) w = Inr w
    \<and> handle_ipc env now i folder False (ask [(''type'', ''send_file''), (''chatJid'', victim), (''filePath'', msg)]) w
          = Inr (act (File_missing victim msg None) w)
    \<and> (\<exists>db. handle_ipc env now i folder False (ask [(''type'', ''schedule_task''), (''chatJid'', victim),
            (''prompt'', msg), (''schedule_type'', ''interval''), (''schedule_value'', sv)]) w = Inr (w\<lparr>w_sched := db\<rparr>)
          \<and> t_folder (last (tasks db)) = folder
          \<and> snd (run_task_begin (\<lambda>j. get_registered_group j (w_chat w)) sess True later (due_task.truncate (last (tasks db))) db)
                = Calling \<lparr>ac_prompt = msg, ac_session = sess folder\<rparr>)"
proof (intro conjI exI)
  let ?t = "\<lparr>t_id = i, t_folder = folder, t_jid = victim, t_prompt = msg, t_stype = ''interval'', t_svalue = sv,
     t_next = Some (now + n), t_context = ''group'', t_last_run = None, t_last_result = None, t_status = ''active'', t_created = now\<rparr>"
  let ?db = "w_sched w\<lparr>tasks := tasks (w_sched w) @ [?t]\<rparr>"
  show "handle_ipc env now i folder False (ask [(''type'', ''message''), (''chatJid'', victim), (''text'', msg)]) w = Inr w"
    using own by (simp add: handle_ipc_def ask_def fld_def ipc_message_def dget_Cons)
  show "handle_ipc env now i folder False (ask [(''type'', ''send_file''), (''chatJid'', victim), (''filePath'', msg)]) w
          = Inr (act (File_missing victim msg None) w)"
    using victim msg by (simp add: handle_ipc_def ask_def fld_def ipc_send_file_def dget_Cons no_mount basename_plain)
  show "handle_ipc env now i folder False (ask [(''type'', ''schedule_task''), (''chatJid'', victim),
            (''prompt'', msg), (''schedule_type'', ''interval''), (''schedule_value'', sv)]) w = Inr (w\<lparr>w_sched := ?db\<rparr>)"
    using victim task
    by (simp add: handle_ipc_def ask_def fld_def ipc_schedule_def dget_Cons require_own_or_main_def first_run_def create_task_def)
  show "t_folder (last (tasks ?db)) = folder" by simp
  show "snd (run_task_begin (\<lambda>j. get_registered_group j (w_chat w)) sess True later (due_task.truncate (last (tasks ?db))) ?db)
      = Calling \<lparr>ac_prompt = msg, ac_session = sess folder\<rparr>"
    using victim by (simp add: run_task_begin_def due_task.truncate_def)
qed

theorem other_chats_reachable_witness:
  "handle_ipc demo_env 0 ''t'' ''boss'' False (ask [(''type'', ''send_file''), (''chatJid'', ''tg:1''), (''filePath'', ''hi'')]) demo_world
     = Inr (act (File_missing ''tg:1'' ''hi'' None) demo_world)"
proof -
  have "group_of_folder ''boss'' demo_world = Some (demo_group\<lparr>rg_jid := ''tg:2'', rg_folder := ''boss'', rg_main := False\<rparr>)"
    "rg_jid (demo_group\<lparr>rg_jid := ''tg:2'', rg_folder := ''boss'', rg_main := False\<rparr>) \<noteq> ''tg:1''"
    "get_registered_group ''tg:1'' (w_chat demo_world) = Some demo_group"
    "''t'' \<notin> t_id ` set (tasks (w_sched demo_world))" "py_int ''60'' = Some 60"
    "CHR ''/'' \<notin> set ''hi''" "backslash \<notin> set ''hi''"
    by code_simp+
  from other_chats_reachable[OF this(1,2,3) _ this(4,5,6,7)] show ?thesis by blast
qed

section \<open>Files\<close>

text \<open>
  A path that the host agrees to send resolves, through all symbolic links, inside the group's own
  directory, its IPC directory or the shared one (for the main group also the project), and neither its
  name, its extension nor a directory on the way is on the list of sensitive ones.
\<close>

theorem sent_files_safe:
  assumes "resolve_container_path env cpath folder is_main = Some p"
  shows "\<exists>root r q. root \<in> set ([groups_dir env @ [folder], data_dir env @ [''ipc'', folder], groups_dir env @ [''global'']]
        @ (if is_main then [base_dir env] else []))
      \<and> realpath env root = Some r \<and> realpath env p = Some q \<and> prefix r q
      \<and> lower (path_name q) \<notin> set [''.env'', ''.env.local'', ''.netrc'', ''id_rsa'', ''id_dsa'', ''id_ecdsa'', ''id_ed25519'']
      \<and> (\<forall>e \<in> set [''.pem'', ''.key'', ''.p12'', ''.pfx'', ''.crt'']. \<not> suffix e (lower (path_name q)))
      \<and> (\<forall>c \<in> set (map lower (drop (length r) q)). c \<notin> set [''.git'', ''store'', ''data''])"
proof -
  from resolve_inside[OF assms] obtain root where root: "root \<in> set (roots env folder is_main)" "inside env root p" by blast
  then obtain r q where "realpath env root = Some r" "realpath env p = Some q" "prefix r q" "\<not> is_sensitive_path q r"
    by (auto simp: inside_def split: option.splits)
  moreover from this(3,4) have "\<forall>c \<in> set (map lower (drop (length r) q)). c \<notin> set SENSITIVE_DIRS"
    "lower (path_name q) \<notin> set SENSITIVE_NAMES" "\<forall>e \<in> set SENSITIVE_SUFFIXES. \<not> suffix e (lower (path_name q))"
    by (simp_all add: is_sensitive_path_def list_ex_iff Let_def)
  moreover have "root \<in> set ([groups_dir env @ [folder], data_dir env @ [''ipc'', folder], groups_dir env @ [''global'']]
        @ (if is_main then [base_dir env] else []))" using root(1) by (simp only: roots_def)
  ultimately show ?thesis
    unfolding SENSITIVE_NAMES_def SENSITIVE_SUFFIXES_def SENSITIVE_DIRS_def by blast
qed

theorem sent_files_safe_witness:
  "resolve_container_path demo_env ''/workspace/global/notes.md'' ''boss'' False = Some [''groups'', ''global'', ''notes.md'']
    \<and> resolve_container_path demo_env ''/workspace/group/.ENV'' ''boss'' False = None
    \<and> (\<exists>r q. realpath demo_env [''groups'', ''global'', ''notes.md''] = Some q \<and> prefix r q)"
proof -
  have r: "resolve_container_path demo_env ''/workspace/global/notes.md'' ''boss'' False = Some [''groups'', ''global'', ''notes.md'']"
    "resolve_container_path demo_env ''/workspace/group/.ENV'' ''boss'' False = None" by code_simp+
  with sent_files_safe[OF r(1)] show ?thesis by blast
qed

text \<open>
  The answer to a memory request is only written to a JSON file that resolves inside the results
  directory of the group.  The result of the other requests is written to a path built from the request
  identifier without any check: an absolute identifier replaces the directory, parent references leave
  it, and every group's request with such an identifier is carried out.
\<close>

theorem result_paths:
  shows "(\<forall>p. resolve_response_file env path folder = Some p \<longrightarrow>
        realpath env (path_join [] path) = Some p \<and> suffix ''.json'' (path_name p)
        \<and> (\<exists>root. realpath env (data_dir env @ [''ipc'', folder, ''results'']) = Some root \<and> prefix root p))
    \<and> result_file env folder (CHR ''/'' # rid) = parts (CHR ''/'' # rid @ ''.json'')
    \<and> result_file env folder ''../../../../x'' = data_dir env @ [''ipc'', folder, ''results'', ''..'', ''..'', ''..'', ''..'', ''x.json'']
    \<and> handle_ipc env now i folder False (ask [(''type'', ''list_skills''), (''requestId'', CHR ''/'' # rid)]) w
        = Inr (act (List_skills (CHR ''/'' # rid) folder) w)"
proof (intro conjI)
  show "\<forall>p. resolve_response_file env path folder = Some p \<longrightarrow>
        realpath env (path_join [] path) = Some p \<and> suffix ''.json'' (path_name p)
        \<and> (\<exists>root. realpath env (data_dir env @ [''ipc'', folder, ''results'']) = Some root \<and> prefix root p)"
    by (auto simp: resolve_response_file_def split: if_splits option.splits)
  show "result_file env folder (CHR ''/'' # rid) = parts (CHR ''/'' # rid @ ''.json'')"
    by (simp add: result_file_def path_join_def is_abs_def)
  have "parts ''../../../../x.json'' = [''..'', ''..'', ''..'', ''..'', ''x.json'']" by code_simp
  then show "result_file env folder ''../../../../x'' = data_dir env @ [''ipc'', folder, ''results'', ''..'', ''..'', ''..'', ''..'', ''x.json'']"
    by (simp add: result_file_def path_join_def is_abs_def)
  show "handle_ipc env now i folder False (ask [(''type'', ''list_skills''), (''requestId'', CHR ''/'' # rid)]) w
        = Inr (act (List_skills (CHR ''/'' # rid) folder) w)"
    by (simp add: handle_ipc_def ask_def fld_def dget_Cons)
qed

theorem result_paths_witness:
  "resolve_response_file demo_env ''/data/ipc/boss/results/r.json'' ''boss'' = Some [''data'', ''ipc'', ''boss'', ''results'', ''r.json'']
    \<and> resolve_response_file demo_env ''/data/ipc/team/results/r.json'' ''boss'' = None
    \<and> realpath demo_env (path_join [] ''/data/ipc/boss/results/r.json'') = Some [''data'', ''ipc'', ''boss'', ''results'', ''r.json'']"
proof -
  have r: "resolve_response_file demo_env ''/data/ipc/boss/results/r.json'' ''boss'' = Some [''data'', ''ipc'', ''boss'', ''results'', ''r.json'']"
    "resolve_response_file demo_env ''/data/ipc/team/results/r.json'' ''boss'' = None" by code_simp+
  with result_paths[of demo_env "''/data/ipc/boss/results/r.json''" "''boss''"] show ?thesis by blast
qed


section \<open>One pass\<close>

text \<open>The files of a directory but for the alerts the host itself writes.\<close>

definition is_alert :: "ipc_file \<Rightarrow> bool" where
  "is_alert f = prefix ''ipc_error_alert_'' (f_name f)"

definition ordinary :: "string \<times> bool \<Rightarrow> ipc_state \<Rightarrow> ipc_file list option" where
  "ordinary d s = map_option (filter (\<lambda>f. \<not> is_alert f)) (dget (ipc_files s) d)"

text \<open>One file without the directories: the world, the clock tick and the files set aside.\<close>

definition carry_out :: "env \<Rightarrow> string \<Rightarrow> bool \<Rightarrow> ipc_file \<Rightarrow> world \<times> nat \<times> string list \<Rightarrow> world \<times> nat \<times> string list" where
  "carry_out env folder is_main f = (\<lambda>(w, n, failed). case f_content f of
     Request q \<Rightarrow> (case handle_ipc env (clock env n) (new_id env n) folder is_main q w of
         Inr w' \<Rightarrow> (w', Suc n, failed)
       | Inl _ \<Rightarrow> (w, Suc n, failed @ [f_name f]))
   | Not_an_object \<Rightarrow> (w, Suc n, failed @ [f_name f])
   | _ \<Rightarrow> (w, n, failed))"

lemma ordinary_notify [simp]: "ordinary d (notify_main now n s) = ordinary d s"
proof -
  have "is_alert (alert_file now n g)" for g by (simp add: is_alert_def alert_file_def)
  moreover have "filter (\<lambda>f. \<not> is_alert f) (filter (\<lambda>f. f_name f \<noteq> f_name (alert_file now n g)) fs) = filter (\<lambda>f. \<not> is_alert f) fs"
    for fs g using \<open>is_alert (alert_file now n g)\<close> by (auto simp: is_alert_def intro!: filter_cong)
  ultimately show ?thesis by (simp add: ordinary_def notify_main_def Let_def split: option.split)
qed

lemma ordinary_remove: "ordinary d (remove_file d' n s)
    = (if d = d' then map_option (filter (\<lambda>f. f_name f \<noteq> n)) (ordinary d s) else ordinary d s)"
  by (auto simp: ordinary_def remove_file_def filter_filter conj_commute split: option.split)

lemma ordinary_fields [simp]: "ordinary d (s\<lparr>ipc_failed := x\<rparr>) = ordinary d s" "ordinary d (s\<lparr>ipc_tick := n\<rparr>) = ordinary d s"
  "ordinary d (s\<lparr>ipc_world := w\<rparr>) = ordinary d s" "ordinary d (s\<lparr>ipc_bad_json := y\<rparr>) = ordinary d s"
  by (simp_all add: ordinary_def)

lemma notify_fields [simp]: "ipc_failed (notify_main now n s) = ipc_failed s" "ipc_tick (notify_main now n s) = ipc_tick s"
  "ipc_failed (remove_file d n s) = ipc_failed s" "ipc_tick (remove_file d n s) = ipc_tick s"
  by (simp_all add: notify_main_def remove_file_def Let_def split: option.split)

interpretation pass: refined "process_file env f m kind" "\<lambda>_. True" "\<lambda>s. (ipc_world s, ipc_tick s, ipc_failed s)" "carry_out env f m"
  for env f m kind
  by unfold_locales (simp_all add: process_file_def carry_out_def Let_def split: content.split sum.split)

lemma ordinary_file: "ordinary d (process_file env folder m kind f s)
    = (if d = (folder, kind) then map_option (filter (\<lambda>g. f_name g \<noteq> f_name f)) (ordinary d s) else ordinary d s)"
  by (simp add: process_file_def Let_def ordinary_remove split: content.split sum.split)

lemma ordinary_pass: "ordinary d (fold (process_file env folder m kind) fs s)
    = (if d = (folder, kind) then map_option (filter (\<lambda>g. f_name g \<notin> f_name ` set fs)) (ordinary d s) else ordinary d s)"
proof (induction fs arbitrary: s)
  case Nil
  show ?case by (cases "ordinary (folder, kind) s") simp_all
qed (auto simp: ordinary_file option.map_comp comp_def filter_filter conj_commute)

text \<open>
  A pass over a directory takes the first files by name, at most the configured number, and carries
  out their requests in that order; a request that is refused changes nothing and its file is set aside.
  Exactly the files taken leave the directory, and no other directory changes, but for the alerts
  written for the main group.
\<close>

theorem ipc_pass:
  assumes "dget (ipc_files s) (folder, kind) = Some fs"
  shows "let run = files_to_process env fs; s' = process_dir env folder is_main kind s in
    sorted (map f_name run) \<and> set run \<subseteq> set fs
    \<and> length run = (if max_files env > 0 then min (nat (max_files env)) (length fs) else length fs)
    \<and> (\<forall>f \<in> set run. \<forall>g \<in> set fs. g \<in> set run \<or> f_name f \<le> f_name g)
    \<and> (ipc_world s', ipc_tick s', ipc_failed s')
        = fold (carry_out env folder is_main) run (ipc_world s, ipc_tick s, ipc_failed s)
    \<and> ordinary (folder, kind) s' = map_option (filter (\<lambda>g. f_name g \<notin> f_name ` set run)) (ordinary (folder, kind) s)
    \<and> (\<forall>d. d \<noteq> (folder, kind) \<longrightarrow> ordinary d s' = ordinary d s)"
proof -
  let ?run = "files_to_process env fs" and ?all = "sort_key f_name fs"
  obtain k where k: "?run = take k ?all" "k = (if max_files env > 0 then nat (max_files env) else length fs)"
    by (simp add: files_to_process_def Let_def)
  have s: "sorted (map f_name ?all)" by simp
  have "sorted (map f_name (take k ?all @ drop k ?all))" using s by simp
  then have "\<forall>f \<in> set (take k ?all). \<forall>g \<in> set (drop k ?all). f_name f \<le> f_name g"
    unfolding map_append sorted_append by simp
  moreover have "set fs = set (take k ?all) \<union> set (drop k ?all)" by (metis append_take_drop_id set_append set_sort)
  moreover have "sorted (map f_name (take k ?all))" using s by (metis sorted_wrt_take take_map)
  moreover have "length (take k ?all) = (if max_files env > 0 then min (nat (max_files env)) (length fs) else length fs)"
    using k(2) by auto
  moreover have "process_dir env folder is_main kind s = fold (process_file env folder is_main kind) ?run s"
    using assms by (simp add: process_dir_def)
  ultimately show ?thesis
    using pass.history_refined[OF TrueI, of env folder is_main kind ?run s] ordinary_pass[of _ env folder is_main kind ?run s]
    unfolding Let_def k(1) by auto
qed

theorem ipc_pass_witness:
  "map f_name (files_to_process demo_env (the (dget (ipc_files demo_state) (''boss'', False)))) = [''1.json'', ''2.json'', ''3.json'']
    \<and> ordinary (''boss'', False) (process_dir demo_env ''boss'' False False demo_state) = Some []
    \<and> ordinary (''boss'', True) (process_dir demo_env ''boss'' False False demo_state) = ordinary (''boss'', True) demo_state"
proof -
  let ?d = "(''boss'', False)"
  obtain fs where fs: "dget (ipc_files demo_state) ?d = Some fs" "map f_name (files_to_process demo_env fs) = [''1.json'', ''2.json'', ''3.json'']"
    "ordinary ?d demo_state = Some fs" "f_name ` set fs = {''3.json'', ''1.json'', ''2.json''}"
  proof -
    have "map_option (\<lambda>fs. (map f_name (files_to_process demo_env fs), f_name ` set fs, list_ex is_alert fs)) (dget (ipc_files demo_state) ?d)
        = Some ([''1.json'', ''2.json'', ''3.json''], {''3.json'', ''1.json'', ''2.json''}, False)" by code_simp
    then obtain fs where e: "dget (ipc_files demo_state) ?d = Some fs" "map f_name (files_to_process demo_env fs) = [''1.json'', ''2.json'', ''3.json'']"
      "f_name ` set fs = {''3.json'', ''1.json'', ''2.json''}" "\<not> list_ex is_alert fs"
      unfolding map_option_eq_Some prod.inject by (metis (full_types))
    from e(4) have "filter (\<lambda>f. \<not> is_alert f) fs = fs" by (simp add: list_ex_iff)
    with e(1) have "ordinary ?d demo_state = Some fs" by (simp add: ordinary_def)
    with e show ?thesis by (intro that) simp_all
  qed
  have "f_name ` set (files_to_process demo_env fs) = set [''1.json'', ''2.json'', ''3.json'']"
    unfolding fs(2)[symmetric] by (simp only: set_map)
  also have "\<dots> = f_name ` set fs" unfolding fs(4) by (simp add: insert_commute)
  finally have "filter (\<lambda>g. f_name g \<notin> f_name ` set (files_to_process demo_env fs)) fs = []" by (simp add: filter_empty_conv)
  with ipc_pass[OF fs(1), of demo_env False] fs show ?thesis by (simp add: Let_def)
qed

end
