(* ===== verification/SkillFiles.thy ===== *)
theory SkillFiles
  imports Files
begin

text \<open>
  The skills engine's work on files: \<open>skills_engine/file_ops.py\<close>, \<open>backup.py\<close>, \<open>path_remap.py\<close> and
  \<open>structured.py\<close>.  \<open>root\<close> is the project directory.
\<close>

section \<open>File operations of a manifest\<close>

text \<open>One \<open>file_ops\<close> entry: its type and its optional paths.\<close>

record file_op =
  op_type :: string
  op_from :: "string option"
  op_to :: "string option"
  op_path :: "string option"

definition or_empty :: "string option \<Rightarrow> string" where
  "or_empty s = (case s of None \<Rightarrow> [] | Some t \<Rightarrow> t)"

text \<open>\<open>_check_path_traversal\<close>: whether the path is accepted.\<close>

definition path_allowed :: "string \<Rightarrow> bool" where
  "path_allowed rel = (rel \<noteq> [] \<and> \<not> is_abs rel \<and> ''..'' \<notin> set (parts rel))"

datatype op_result = Executed | Warned | Refused

definition file_op_move :: "path \<Rightarrow> file_op \<Rightarrow> fs \<Rightarrow> fs \<times> op_result" where
  "file_op_move root op fs =
     (let src = or_empty (op_from op); dst = or_empty (op_to op) in
      if \<not> path_allowed src \<or> \<not> path_allowed dst then (fs, Refused)
      else if \<not> path_exists fs (at root src) then (fs, Warned)
      else case move_file (at root src) (at root dst) fs of None \<Rightarrow> (fs, Refused) | Some fs' \<Rightarrow> (fs', Executed))"

definition file_op_delete :: "path \<Rightarrow> file_op \<Rightarrow> fs \<Rightarrow> fs \<times> op_result" where
  "file_op_delete root op fs =
     (let rel = or_empty (op_path op); target = at root rel in
      if \<not> path_allowed rel then (fs, Refused)
      else if \<not> path_exists fs target then (fs, Warned)
      else if is_dir fs target then (remove_tree target fs, Executed)
      else (ddel target fs, Executed))"

definition execute_file_op :: "path \<Rightarrow> file_op \<Rightarrow> fs \<Rightarrow> fs \<times> op_result" where
  "execute_file_op root op fs =
     (if op_type op = ''rename'' \<or> op_type op = ''move'' then file_op_move root op fs
      else if op_type op = ''delete'' then file_op_delete root op fs
      else (fs, Refused))"

text \<open>All operations are tried, also after one that failed; success is that none did.\<close>

fun execute_file_ops :: "path \<Rightarrow> file_op list \<Rightarrow> fs \<Rightarrow> fs \<times> bool" where
  "execute_file_ops root [] fs = (fs, True)"
| "execute_file_ops root (op # ops) fs =
     (let (fs', r) = execute_file_op root op fs; (fs'', ok) = execute_file_ops root ops fs' in
      (fs'', r \<noteq> Refused \<and> ok))"

section \<open>Backup\<close>

definition evoclaw_dir :: "path \<Rightarrow> path" where
  "evoclaw_dir root = root @ [''.evoclaw'']"

definition base_dir :: "path \<Rightarrow> path" where
  "base_dir root = evoclaw_dir root @ [''base'']"

definition backup_dir :: "path \<Rightarrow> path" where
  "backup_dir root = evoclaw_dir root @ [''backup'']"

definition TOMBSTONE_SUFFIX :: string where "TOMBSTONE_SUFFIX = ''.tombstone''"

text \<open>One path of \<open>create_backup\<close>: a copy, a tombstone, or nothing when it lies outside the project.\<close>

definition backup_one :: "path \<Rightarrow> path \<Rightarrow> fs \<Rightarrow> fs option" where
  "backup_one root p fs =
     (if \<not> prefix root p then Some fs
      else let b = backup_dir root @ drop (length root) p in
        if is_dir fs p then None
        else if is_file fs p then copy_file p b fs
        else write_file (with_suffix TOMBSTONE_SUFFIX b) [] fs)"

definition create_backup :: "path \<Rightarrow> path list \<Rightarrow> fs \<Rightarrow> fs \<times> bool" where
  "create_backup root ps = run_all (map (\<lambda>p. tried (backup_one root p)) ps)"

definition backup_files :: "path \<Rightarrow> fs \<Rightarrow> path list" where
  "backup_files root fs = filter (strict_prefix (backup_dir root)) (dkeys fs)"

definition restore_one :: "path \<Rightarrow> path \<Rightarrow> fs \<Rightarrow> fs option" where
  "restore_one root b fs =
     (let rel = drop (length (backup_dir root)) b in
      if suffix TOMBSTONE_SUFFIX (path_name b)
      then (let n = take (length (last rel) - length TOMBSTONE_SUFFIX) (last rel) in
            unlink_file (root @ butlast rel @ (if n = [] then [] else [n])) fs)
      else copy_file b (root @ rel) fs)"

definition restore_backup :: "path \<Rightarrow> fs \<Rightarrow> fs \<times> bool" where
  "restore_backup root fs = run_all (map (\<lambda>b. tried (restore_one root b)) (backup_files root fs)) fs"

definition clear_backup :: "path \<Rightarrow> fs \<Rightarrow> fs" where
  "clear_backup root fs = remove_tree (backup_dir root) fs"

section \<open>Renamed core files\<close>

text \<open>\<open>resolve_path_remap\<close>: the loop with the set of visited paths, which ends because it only grows.\<close>

function resolve_loop :: "(string, string) dict \<Rightarrow> string set \<Rightarrow> string \<Rightarrow> string" where
  "resolve_loop remap visited current =
     (case dget remap current of
        None \<Rightarrow> current
      | Some next \<Rightarrow> if current \<in> visited then current else resolve_loop remap (insert current visited) next)"
  by auto
termination
proof (relation "measure (\<lambda>(remap, visited, _). card (set (dkeys remap) - visited))")
  fix remap :: "(string, string) dict" and visited :: "string set" and "current" "next" :: string
  assume "dget remap current = Some next" "current \<notin> visited"
  then have "current \<in> set (dkeys remap) - visited" by (simp add: dget_Some_key)
  moreover have "set (dkeys remap) - insert current visited = (set (dkeys remap) - visited) - {current}" by auto
  ultimately have "card (set (dkeys remap) - insert current visited) < card (set (dkeys remap) - visited)"
    by (simp only: card_Diff1_less finite_Diff finite_set)
  then show "((remap, insert current visited, next), remap, visited, current)
      \<in> measure (\<lambda>(remap, visited, _). card (set (dkeys remap) - visited))"
    by simp
qed simp

declare resolve_loop.simps [simp del]

definition resolve_path_remap :: "string \<Rightarrow> (string, string) dict \<Rightarrow> string" where
  "resolve_path_remap path remap = resolve_loop remap {} path"

section \<open>Structured additions\<close>

definition lstrip_set :: "char set \<Rightarrow> string \<Rightarrow> string" where
  "lstrip_set cs s = dropWhile (\<lambda>c. c \<in> cs) s"

definition major :: "string \<Rightarrow> string" where
  "major s = (let t = lstrip_set (set ''^~>=<'') s in if t = [] then ''0'' else hd (split_on CHR ''.'' t))"

definition are_ranges_compatible :: "string \<Rightarrow> string \<Rightarrow> bool" where
  "are_ranges_compatible a b = (major a = major b)"

fun merge_npm :: "(string, string) dict \<Rightarrow> (string, string) dict \<Rightarrow> (string, string) dict \<times> string list" where
  "merge_npm merged [] = (merged, [])"
| "merge_npm merged ((pkg, version) # incoming) = (case dget merged pkg of
     Some v \<Rightarrow> (let (m, c) = merge_npm merged incoming in
        (m, (if v \<noteq> version \<and> \<not> are_ranges_compatible v version then [pkg] else []) @ c))
   | None \<Rightarrow> merge_npm (dset pkg version merged) incoming)"

definition is_comment :: "string \<Rightarrow> bool" where
  "is_comment line = prefix ''#'' (lstrip line)"

definition env_key :: "string \<Rightarrow> string" where
  "env_key line = strip (hd (split_on CHR ''='' line))"

definition existing_keys :: "string list \<Rightarrow> string set" where
  "existing_keys existing = env_key ` set (filter (\<lambda>l. CHR ''='' \<in> set l \<and> \<not> is_comment l) existing)"

fun env_loop :: "string set \<Rightarrow> string list \<Rightarrow> string list \<Rightarrow> string list" where
  "env_loop keys result [] = result"
| "env_loop keys result (line # incoming) =
     (if is_comment line then env_loop keys (result @ [line]) incoming
      else if env_key line \<in> keys then env_loop keys result incoming
      else env_loop (insert (env_key line) keys) (result @ [line]) incoming)"

definition merge_env_additions :: "string list \<Rightarrow> string list \<Rightarrow> string list" where
  "merge_env_additions existing incoming = env_loop (existing_keys existing) existing incoming"

section \<open>Remapped paths\<close>

definition remap_edge :: "(string, string) dict \<Rightarrow> (string \<times> string) set" where
  "remap_edge remap = {(a, b). dget remap a = Some b}"

lemma resolve_loop_spec:
  "(\<forall>v \<in> visited. (v, cur) \<in> (remap_edge remap)\<^sup>+) \<Longrightarrow>
     (cur, resolve_loop remap visited cur) \<in> (remap_edge remap)\<^sup>*
     \<and> (dget remap (resolve_loop remap visited cur) \<noteq> None
         \<longrightarrow> (resolve_loop remap visited cur, resolve_loop remap visited cur) \<in> (remap_edge remap)\<^sup>+)"
proof (induction remap visited cur rule: resolve_loop.induct)
  case (1 remap visited cur)
  show ?case
  proof (cases "dget remap cur")
    case None
    then show ?thesis by (simp add: resolve_loop.simps[of remap visited cur])
  next
    case (Some nxt)
    have e: "(cur, nxt) \<in> remap_edge remap" using Some by (simp add: remap_edge_def)
    show ?thesis
    proof (cases "cur \<in> visited")
      case True
      then show ?thesis using Some 1(2) by (simp add: resolve_loop.simps[of remap visited cur])
    next
      case False
      have "\<forall>v \<in> insert cur visited. (v, nxt) \<in> (remap_edge remap)\<^sup>+"
        using 1(2) e by (auto intro: trancl_into_trancl)
      from 1(1)[OF Some False this] have IH: "(nxt, resolve_loop remap (insert cur visited) nxt) \<in> (remap_edge remap)\<^sup>*"
        "dget remap (resolve_loop remap (insert cur visited) nxt) \<noteq> None \<longrightarrow>
          (resolve_loop remap (insert cur visited) nxt, resolve_loop remap (insert cur visited) nxt) \<in> (remap_edge remap)\<^sup>+" by blast+
      have "resolve_loop remap visited cur = resolve_loop remap (insert cur visited) nxt"
        using Some False by (simp add: resolve_loop.simps[of remap visited cur])
      then show ?thesis using IH e by (auto intro: converse_rtrancl_into_rtrancl)
    qed
  qed
qed

text \<open>
  C19: Following renamed paths ends, whatever the table: it ends at a path reached from the given one by renamings that
  is renamed no further, or, where the renamings form a cycle, at a path on that cycle.
\<close>

theorem remap_resolution:
  "(path, resolve_path_remap path remap) \<in> (remap_edge remap)\<^sup>*
    \<and> (dget remap (resolve_path_remap path remap) = None
        \<or> (resolve_path_remap path remap, resolve_path_remap path remap) \<in> (remap_edge remap)\<^sup>+)"
  using resolve_loop_spec[of "{}" path remap] by (auto simp: resolve_path_remap_def)

section \<open>Structured additions\<close>

lemma merge_npm_lookup: "dget (fst (merge_npm b new)) k = (case dget b k of Some v \<Rightarrow> Some v | None \<Rightarrow> dget new k)"
proof (induction b new rule: merge_npm.induct)
  case (1 b)
  then show ?case by (simp split: option.split)
next
  case (2 b pkg version new)
  then show ?case by (cases "dget b pkg") (auto simp: dget_Cons split: prod.splits option.splits)
qed

lemma merge_npm_keeps: "dget b k = Some v \<Longrightarrow> dget (fst (merge_npm b new)) k = Some v"
  by (simp add: merge_npm_lookup)

lemma merge_npm_warns: "p \<in> set (snd (merge_npm b new)) \<Longrightarrow> \<exists>v w. dget (fst (merge_npm b new)) p = Some v \<and> (p, w) \<in> set new
    \<and> v \<noteq> w \<and> major v \<noteq> major w"
proof (induction b new rule: merge_npm.induct)
  case (2 b pkg version new)
  show ?case
  proof (cases "dget b pkg")
    case None
    then have "p \<in> set (snd (merge_npm (dset pkg version b) new))" using 2(3) by simp
    from 2(1)[OF None this] None show ?thesis by auto
  next
    case (Some v)
    from 2(3) Some consider "p = pkg" "v \<noteq> version" "\<not> are_ranges_compatible v version" | "p \<in> set (snd (merge_npm b new))"
      by (auto split: prod.splits if_splits)
    then show ?thesis
    proof cases
      case 1
      then show ?thesis using Some merge_npm_keeps[OF Some, of "(pkg, version) # new"] by (auto simp: are_ranges_compatible_def)
    next
      case c: 2
      from 2(2)[OF Some c] show ?thesis using Some by (auto split: prod.splits)
    qed
  qed
qed simp

lemma env_loop_prefix: "prefix result (env_loop keys result incoming)"
  by (induction keys result incoming rule: env_loop.induct) (auto simp: prefix_def)

definition env_keys :: "string list \<Rightarrow> string list" where
  "env_keys ls = map env_key (filter (\<lambda>l. \<not> is_comment l) ls)"

lemma env_keys_Cons: "env_keys (l # ls) = (if is_comment l then env_keys ls else env_key l # env_keys ls)"
  by (simp add: env_keys_def)

lemma env_loop_adds: "\<exists>new. env_loop keys result incoming = result @ new \<and> set new \<subseteq> set incoming
    \<and> distinct (env_keys new) \<and> set (env_keys new) \<inter> keys = {} \<and> set (env_keys incoming) \<subseteq> keys \<union> set (env_keys new)"
proof (induction keys result incoming rule: env_loop.induct)
  case (1 keys result)
  then show ?case by (intro exI[of _ "[]"]) (simp add: env_keys_def)
next
  case (2 keys result line incoming)
  consider "is_comment line" | "\<not> is_comment line" "env_key line \<in> keys" | "\<not> is_comment line" "env_key line \<notin> keys" by blast
  then show ?case
  proof cases
    case 1
    from 2(1)[OF 1] obtain new where n: "env_loop keys (result @ [line]) incoming = (result @ [line]) @ new" "set new \<subseteq> set incoming"
      "distinct (env_keys new)" "set (env_keys new) \<inter> keys = {}" "set (env_keys incoming) \<subseteq> keys \<union> set (env_keys new)" by blast
    have "env_loop keys result (line # incoming) = result @ line # new" using 1 n(1) by simp
    with 1 n show ?thesis by (intro exI[of _ "line # new"]) (simp add: env_keys_Cons subset_insertI2)
  next
    case c: 2
    from 2(2)[OF c] obtain new where n: "env_loop keys result incoming = result @ new" "set new \<subseteq> set incoming"
      "distinct (env_keys new)" "set (env_keys new) \<inter> keys = {}" "set (env_keys incoming) \<subseteq> keys \<union> set (env_keys new)" by blast
    have "env_loop keys result (line # incoming) = result @ new" using c n(1) by simp
    with c n show ?thesis by (intro exI[of _ new]) (simp add: env_keys_Cons subset_insertI2)
  next
    case 3
    from 2(3)[OF 3] obtain new where n: "env_loop (insert (env_key line) keys) (result @ [line]) incoming = (result @ [line]) @ new"
      "set new \<subseteq> set incoming" "distinct (env_keys new)" "set (env_keys new) \<inter> insert (env_key line) keys = {}"
      "set (env_keys incoming) \<subseteq> insert (env_key line) keys \<union> set (env_keys new)" by blast
    have e: "env_loop keys result (line # incoming) = result @ line # new" using 3 n(1) by simp
    show ?thesis
    proof (intro exI[of _ "line # new"] conjI)
      show "set (env_keys (line # incoming)) \<subseteq> keys \<union> set (env_keys (line # new))" using 3 n(5) by (simp add: env_keys_Cons)
      show "set (env_keys (line # new)) \<inter> keys = {}" using 3 n(4) by (simp add: env_keys_Cons)
      show "distinct (env_keys (line # new))" using 3 n(3,4) by (simp add: env_keys_Cons)
    qed (use e n(2) in \<open>simp_all add: subset_insertI2\<close>)
  qed
qed

lemma env_loop_known: "set (env_keys incoming) \<subseteq> keys \<Longrightarrow> list_all (\<lambda>l. \<not> is_comment l) incoming \<Longrightarrow> env_loop keys result incoming = result"
  by (induction keys result incoming rule: env_loop.induct) (simp_all add: env_keys_Cons)

text \<open>
  Merging keeps what is there: of the npm dependencies, a package present before keeps its version and the others
  are added, with a warning only where the major versions differ; of the environment variables exactly the new keys are
  added, once each.  Merging the same variables again changes nothing, but a comment is added every time.
\<close>

theorem structured_merges:
  shows "(\<forall>k. dget (fst (merge_npm deps incoming)) k = (case dget deps k of Some v \<Rightarrow> Some v | None \<Rightarrow> dget incoming k))
    \<and> (\<forall>p \<in> set (snd (merge_npm deps incoming)). \<exists>v w. dget (fst (merge_npm deps incoming)) p = Some v \<and> (p, w) \<in> set incoming \<and> major v \<noteq> major w)
    \<and> (\<exists>added. merge_env_additions env lines = env @ added \<and> set added \<subseteq> set lines \<and> distinct (env_keys added)
        \<and> set (env_keys added) \<inter> existing_keys env = {} \<and> set (env_keys lines) \<subseteq> existing_keys env \<union> set (env_keys added))
    \<and> (list_all (\<lambda>l. CHR ''='' \<in> set l \<and> \<not> is_comment l) lines \<longrightarrow>
        merge_env_additions (merge_env_additions env lines) lines = merge_env_additions env lines)
    \<and> merge_env_additions (merge_env_additions [] [''#x'']) [''#x''] = [''#x'', ''#x'']"
proof (intro conjI impI)
  show "\<forall>k. dget (fst (merge_npm deps incoming)) k = (case dget deps k of Some v \<Rightarrow> Some v | None \<Rightarrow> dget incoming k)"
    by (simp add: merge_npm_lookup)
  show "merge_env_additions (merge_env_additions [] [''#x'']) [''#x''] = [''#x'', ''#x'']" by code_simp
  show "\<forall>p \<in> set (snd (merge_npm deps incoming)). \<exists>v w. dget (fst (merge_npm deps incoming)) p = Some v \<and> (p, w) \<in> set incoming \<and> major v \<noteq> major w"
    using merge_npm_warns by blast
  obtain added where a: "merge_env_additions env lines = env @ added" "set added \<subseteq> set lines" "distinct (env_keys added)"
      "set (env_keys added) \<inter> existing_keys env = {}" "set (env_keys lines) \<subseteq> existing_keys env \<union> set (env_keys added)"
    using env_loop_adds[of "existing_keys env" env lines] by (auto simp: merge_env_additions_def)
  then show "\<exists>added. merge_env_additions env lines = env @ added \<and> set added \<subseteq> set lines \<and> distinct (env_keys added)
        \<and> set (env_keys added) \<inter> existing_keys env = {} \<and> set (env_keys lines) \<subseteq> existing_keys env \<union> set (env_keys added)" by blast
  assume l: "list_all (\<lambda>l. CHR ''='' \<in> set l \<and> \<not> is_comment l) lines"
  then have "set (env_keys added) \<subseteq> existing_keys (env @ added)" using a(2) by (auto simp: env_keys_def existing_keys_def list_all_iff)
  moreover have "existing_keys env \<subseteq> existing_keys (env @ added)" by (auto simp: existing_keys_def)
  ultimately have "set (env_keys lines) \<subseteq> existing_keys (env @ added)" using a(5) by blast
  moreover have "list_all (\<lambda>l. \<not> is_comment l) lines" using l by (simp add: list_all_iff)
  ultimately have "env_loop (existing_keys (env @ added)) (env @ added) lines = env @ added" by (rule env_loop_known)
  then show "merge_env_additions (merge_env_additions env lines) lines = merge_env_additions env lines"
    unfolding a(1) by (simp only: merge_env_additions_def)
qed

theorem structured_merges_witness:
  "list_all (\<lambda>l. CHR ''='' \<in> set l \<and> \<not> is_comment l) [''A=1'', ''B=2'']
    \<and> merge_env_additions (merge_env_additions [''A=0''] [''A=1'', ''B=2'']) [''A=1'', ''B=2''] = merge_env_additions [''A=0''] [''A=1'', ''B=2'']
    \<and> snd (merge_npm [(''p'', ''^1.2'')] [(''p'', ''2.0'')]) = [''p'']"
proof -
  have h: "list_all (\<lambda>l. CHR ''='' \<in> set l \<and> \<not> is_comment l) [''A=1'', ''B=2'']"
    "snd (merge_npm [(''p'', ''^1.2'')] [(''p'', ''2.0'')]) = [''p'']" by code_simp+
  with structured_merges[of "[]" "[]" "[''A=0'']" "[''A=1'', ''B=2'']"] show ?thesis by simp
qed

end
