(* ===== verification/SkillState.thy ===== *)
theory SkillState
  imports SkillFiles "HOL-Library.Char_ord" "HOL-Library.List_Lexorder"
begin

text \<open>
  What the skills engine remembers and reads: \<open>skills_engine/state.py\<close>, \<open>manifest.py\<close>, \<open>customize.py\<close>
  and the data types of \<open>types.py\<close>.

  The YAML, JSON and TOML libraries, SHA-256, git and the commands of a skill are parameters, the
  fields of \<open>lib\<close>.  A parsed document is a \<open>yaml\<close>: a scalar that is not a string keeps its text and
  its truth value.  A manifest entry of the wrong type is an error when the manifest is read, while the
  code raises when it comes to use the entry.
\<close>

section \<open>Documents and libraries\<close>

datatype yaml = Null | Scalar string bool | Str string | Seq "yaml list" | Map "(string \<times> yaml) list"

fun ytrue :: "yaml \<Rightarrow> bool" where
  "ytrue Null = False"
| "ytrue (Scalar _ b) = b"
| "ytrue (Str s) = (s \<noteq> [])"
| "ytrue (Seq xs) = (xs \<noteq> [])"
| "ytrue (Map m) = (m \<noteq> [])"

definition yget :: "string \<Rightarrow> (string \<times> yaml) list \<Rightarrow> yaml" where
  "yget k m = (case dget m k of None \<Rightarrow> Null | Some v \<Rightarrow> v)"

datatype command_result = Passed | Exit_failure | Not_run

text \<open>\<open>Exit_failure\<close> is \<open>CalledProcessError\<close>; \<open>Not_run\<close> any other exception: no such program, a time-out, \<open>shlex\<close>.\<close>

record lib =
  root :: path
  data_dir :: path
  yaml_load :: "string \<Rightarrow> yaml option"
  yaml_dump :: "yaml \<Rightarrow> string"
  json_load :: "string \<Rightarrow> yaml option"
  json_dump :: "yaml \<Rightarrow> string"
  toml_load :: "string \<Rightarrow> yaml option"
  sha256 :: "string \<Rightarrow> string"
  has_git :: bool
  git_merge :: "string \<Rightarrow> string \<Rightarrow> string \<Rightarrow> nat \<times> string"
  git_baseline :: "string list \<Rightarrow> fs \<Rightarrow> fs"
  git_diff :: "string list \<Rightarrow> fs \<Rightarrow> string"
  git_checkout :: "string list \<Rightarrow> fs \<Rightarrow> fs"
  unified_diff :: "path \<Rightarrow> string \<Rightarrow> string \<Rightarrow> string"
  run_patch :: "string \<Rightarrow> fs \<Rightarrow> fs"
  run_command :: "string \<Rightarrow> fs \<Rightarrow> fs \<times> command_result"
  now_iso :: string
  now_stamp :: string

fun text_of :: "yaml \<Rightarrow> string option" where
  "text_of (Str s) = Some s"
| "text_of (Scalar s _) = Some s"
| "text_of _ = None"

fun str_of :: "yaml \<Rightarrow> string option" where
  "str_of (Str s) = Some s"
| "str_of _ = None"

text \<open>Iteration over a value: a string gives its characters, a mapping its keys.\<close>

fun items :: "yaml \<Rightarrow> yaml list option" where
  "items (Seq xs) = Some xs"
| "items (Str s) = Some (map (\<lambda>c. Str [c]) s)"
| "items (Map m) = Some (map (\<lambda>p. Str (fst p)) m)"
| "items _ = None"

fun all_some :: "'a option list \<Rightarrow> 'a list option" where
  "all_some [] = Some []"
| "all_some (x # xs) = (case x of None \<Rightarrow> None | Some y \<Rightarrow> map_option (Cons y) (all_some xs))"

definition strings :: "yaml \<Rightarrow> string list option" where
  "strings y = (case items y of None \<Rightarrow> None | Some xs \<Rightarrow> all_some (map str_of xs))"

definition strings_or_empty :: "yaml \<Rightarrow> string list option" where
  "strings_or_empty y = (if ytrue y then strings y else Some [])"

definition optional :: "yaml \<Rightarrow> string option option" where
  "optional y = (if y = Null then Some None else map_option Some (str_of y))"

fun string_map :: "yaml \<Rightarrow> (string, string) dict option" where
  "string_map (Map m) = all_some (map (\<lambda>(k, v). map_option (Pair k) (str_of v)) m)"
| "string_map _ = None"

text \<open>\<open>sort_keys=True\<close>.\<close>

fun sort_maps :: "yaml \<Rightarrow> yaml" where
  "sort_maps (Seq xs) = Seq (map sort_maps xs)"
| "sort_maps (Map m) = Map (sort_key fst (map (\<lambda>(k, v). (k, sort_maps v)) m))"
| "sort_maps y = y"

section \<open>Versions\<close>

definition semver_parts :: "string \<Rightarrow> int list option" where
  "semver_parts s = all_some (map py_int (split_on CHR ''.'' s))"

fun compare_parts :: "int list \<Rightarrow> int list \<Rightarrow> int" where
  "compare_parts [] [] = 0"
| "compare_parts (a # as) [] = (if a \<noteq> 0 then a else compare_parts as [])"
| "compare_parts [] (b # bs) = (if b \<noteq> 0 then - b else compare_parts [] bs)"
| "compare_parts (a # as) (b # bs) = (if a \<noteq> b then a - b else compare_parts as bs)"

definition compare_semver :: "string \<Rightarrow> string \<Rightarrow> int option" where
  "compare_semver a b = (case (semver_parts a, semver_parts b) of
     (Some x, Some y) \<Rightarrow> Some (compare_parts x y) | _ \<Rightarrow> None)"

definition SKILLS_SCHEMA_VERSION :: string where "SKILLS_SCHEMA_VERSION = ''0.1.0''"

section \<open>The state\<close>

record applied_skill =
  ap_name :: string
  ap_version :: string
  ap_at :: string
  ap_hashes :: "(string, string) dict"
  ap_outcomes :: yaml
  ap_patch :: "string option"
  ap_patch_desc :: "string option"

record custom_modification =
  cm_description :: string
  cm_at :: string
  cm_files :: "string list"
  cm_patch :: string

record skill_state =
  ss_system :: string
  ss_core :: string
  ss_applied :: "applied_skill list"
  ss_mods :: "custom_modification list"
  ss_remap :: "(string, string) dict"
  ss_rebased :: "string option"

text \<open>\<open>d.get(k, default)\<close> read with \<open>f\<close>.\<close>

definition default :: "'a \<Rightarrow> (yaml \<Rightarrow> 'a option) \<Rightarrow> string \<Rightarrow> (string \<times> yaml) list \<Rightarrow> 'a option" where
  "default d f k m = (case dget m k of None \<Rightarrow> Some d | Some v \<Rightarrow> f v)"

fun parse_applied :: "yaml \<Rightarrow> applied_skill option" where
  "parse_applied (Map m) =
     (case (str_of (yget ''name'' m), str_of (yget ''version'' m), str_of (yget ''applied_at'' m),
            default [] string_map ''file_hashes'' m, optional (yget ''custom_patch'' m), optional (yget ''custom_patch_description'' m)) of
        (Some n, Some v, Some t, Some h, Some p, Some pd) \<Rightarrow>
          Some \<lparr>ap_name = n, ap_version = v, ap_at = t, ap_hashes = h, ap_outcomes = yget ''structured_outcomes'' m,
            ap_patch = p, ap_patch_desc = pd\<rparr>
      | _ \<Rightarrow> None)"
| "parse_applied _ = None"

fun parse_mod :: "yaml \<Rightarrow> custom_modification option" where
  "parse_mod (Map m) =
     (case (str_of (yget ''description'' m), str_of (yget ''applied_at'' m), default [] strings ''files_modified'' m,
            str_of (yget ''patch_file'' m)) of
        (Some d, Some t, Some fs, Some p) \<Rightarrow> Some \<lparr>cm_description = d, cm_at = t, cm_files = fs, cm_patch = p\<rparr>
      | _ \<Rightarrow> None)"
| "parse_mod _ = None"

definition parse_list :: "(yaml \<Rightarrow> 'a option) \<Rightarrow> yaml \<Rightarrow> 'a list option" where
  "parse_list f y = (case items y of None \<Rightarrow> None | Some xs \<Rightarrow> all_some (map f xs))"

definition parse_state :: "(string \<times> yaml) list \<Rightarrow> skill_state option" where
  "parse_state m =
     (case (str_of (yget ''skills_system_version'' m), str_of (yget ''core_version'' m),
            default [] (parse_list parse_applied) ''applied_skills'' m, default [] (parse_list parse_mod) ''custom_modifications'' m,
            default [] string_map ''path_remap'' m, optional (yget ''rebased_at'' m)) of
        (Some v, Some c, Some ap, Some ms, Some r, Some t) \<Rightarrow>
          Some \<lparr>ss_system = v, ss_core = c, ss_applied = ap, ss_mods = ms, ss_remap = r, ss_rebased = t\<rparr>
      | _ \<Rightarrow> None)"

definition strs_to_yaml :: "string list \<Rightarrow> yaml" where
  "strs_to_yaml xs = Seq (map Str xs)"

definition strmap_to_yaml :: "(string, string) dict \<Rightarrow> yaml" where
  "strmap_to_yaml m = Map (map (\<lambda>(k, v). (k, Str v)) m)"

text \<open>An optional entry that is left out when it is empty.\<close>

definition entry :: "string \<Rightarrow> string option \<Rightarrow> (string \<times> yaml) list" where
  "entry k s = (if truthy s then [(k, Str (the s))] else [])"

definition applied_to_yaml :: "applied_skill \<Rightarrow> yaml" where
  "applied_to_yaml s = Map ([(''name'', Str (ap_name s)), (''version'', Str (ap_version s)), (''applied_at'', Str (ap_at s)),
      (''file_hashes'', strmap_to_yaml (ap_hashes s))]
     @ (if ytrue (ap_outcomes s) then [(''structured_outcomes'', ap_outcomes s)] else [])
     @ entry ''custom_patch'' (ap_patch s) @ entry ''custom_patch_description'' (ap_patch_desc s))"

definition mod_to_yaml :: "custom_modification \<Rightarrow> yaml" where
  "mod_to_yaml c = Map [(''description'', Str (cm_description c)), (''applied_at'', Str (cm_at c)),
     (''files_modified'', strs_to_yaml (cm_files c)), (''patch_file'', Str (cm_patch c))]"

definition state_to_dict :: "skill_state \<Rightarrow> (string \<times> yaml) list" where
  "state_to_dict s = [(''skills_system_version'', Str (ss_system s)), (''core_version'', Str (ss_core s)),
      (''applied_skills'', Seq (map applied_to_yaml (ss_applied s)))]
    @ (if ss_mods s \<noteq> [] then [(''custom_modifications'', Seq (map mod_to_yaml (ss_mods s)))] else [])
    @ (if ss_remap s \<noteq> [] then [(''path_remap'', strmap_to_yaml (ss_remap s))] else [])
    @ entry ''rebased_at'' (ss_rebased s)"

definition state_path :: "lib \<Rightarrow> path" where
  "state_path l = evoclaw_dir (root l) @ [''state.yaml'']"

fun as_map :: "yaml \<Rightarrow> (string \<times> yaml) list option" where
  "as_map (Map m) = Some m"
| "as_map _ = None"

text \<open>
  \<open>read_state\<close>: \<open>None\<close> is an exception.  A document that is not a mapping is looked for once more in
  the temporary file of an interrupted write.
\<close>

definition read_state :: "lib \<Rightarrow> fs \<Rightarrow> skill_state option" where
  "read_state l fs = (case dget fs (state_path l) of
      None \<Rightarrow> None
    | Some raw \<Rightarrow> (case yaml_load l raw of
        None \<Rightarrow> None
      | Some y \<Rightarrow>
         (let m = (case as_map y of Some m \<Rightarrow> Some m
              | None \<Rightarrow> (case dget fs (tmp (state_path l)) of None \<Rightarrow> None
                  | Some raw \<Rightarrow> Option.bind (yaml_load l raw) as_map)) in
          case Option.bind m parse_state of
            None \<Rightarrow> None
          | Some st \<Rightarrow> (case compare_semver (ss_system st) SKILLS_SCHEMA_VERSION of
              None \<Rightarrow> None | Some c \<Rightarrow> if c > 0 then None else Some st))))"

definition write_state :: "lib \<Rightarrow> skill_state \<Rightarrow> fs \<Rightarrow> fs \<times> bool" where
  "write_state l st = atomic_write (state_path l) (yaml_dump l (sort_maps (Map (state_to_dict st))))"

text \<open>A read, a change and a write.\<close>

definition update_state :: "lib \<Rightarrow> (skill_state \<Rightarrow> skill_state) \<Rightarrow> fs \<Rightarrow> fs \<times> bool" where
  "update_state l f fs = (case read_state l fs of None \<Rightarrow> (fs, False) | Some st \<Rightarrow> write_state l (f st) fs)"

definition without_skill :: "string \<Rightarrow> applied_skill list \<Rightarrow> applied_skill list" where
  "without_skill name = filter (\<lambda>s. ap_name s \<noteq> name)"

definition record_skill_application ::
  "lib \<Rightarrow> string \<Rightarrow> string \<Rightarrow> (string, string) dict \<Rightarrow> yaml \<Rightarrow> fs \<Rightarrow> fs \<times> bool" where
  "record_skill_application l name version hashes outcomes = update_state l (\<lambda>st.
     st\<lparr>ss_applied := without_skill name (ss_applied st) @ [\<lparr>ap_name = name, ap_version = version, ap_at = now_iso l,
        ap_hashes = hashes, ap_outcomes = outcomes, ap_patch = None, ap_patch_desc = None\<rparr>]\<rparr>)"

definition record_custom_modification :: "lib \<Rightarrow> string \<Rightarrow> string list \<Rightarrow> string \<Rightarrow> fs \<Rightarrow> fs \<times> bool" where
  "record_custom_modification l desc files patch = update_state l (\<lambda>st.
     st\<lparr>ss_mods := ss_mods st @ [\<lparr>cm_description = desc, cm_at = now_iso l, cm_files = files, cm_patch = patch\<rparr>]\<rparr>)"

definition load_path_remap :: "lib \<Rightarrow> fs \<Rightarrow> (string, string) dict option" where
  "load_path_remap l fs = (if \<not> path_exists fs (state_path l) then Some [] else map_option ss_remap (read_state l fs))"

definition record_path_remap :: "lib \<Rightarrow> string \<Rightarrow> string \<Rightarrow> fs \<Rightarrow> fs \<times> bool" where
  "record_path_remap l old new = update_state l (\<lambda>st. st\<lparr>ss_remap := dset old new (ss_remap st)\<rparr>)"

section \<open>Manifests\<close>

record manifest =
  mf_skill :: string
  mf_version :: string
  mf_core :: string
  mf_adds :: "string list"
  mf_modifies :: "string list"
  mf_conflicts :: "string list"
  mf_depends :: "string list"
  mf_ops :: "file_op list"
  mf_structured :: yaml
  mf_test :: "string option"
  mf_min :: "string option"
  mf_post :: "string list"
  mf_tools :: "string list"

definition valid_relative_path :: "string \<Rightarrow> bool" where
  "valid_relative_path p = (\<not> is_abs p \<and> ''..'' \<notin> set (parts p))"

definition required_text :: "yaml \<Rightarrow> string option" where
  "required_text y = (if ytrue y then text_of y else None)"

fun required_list :: "yaml \<Rightarrow> string list option" where
  "required_list (Seq xs) = all_some (map str_of xs)"
| "required_list _ = None"

fun parse_op :: "yaml \<Rightarrow> file_op option" where
  "parse_op (Map m) = (case (optional (yget ''from'' m), optional (yget ''to'' m), optional (yget ''path'' m)) of
     (Some f, Some t, Some p) \<Rightarrow>
        Some \<lparr>op_type = (case str_of (yget ''type'' m) of None \<Rightarrow> [] | Some s \<Rightarrow> s), op_from = f, op_to = t, op_path = p\<rparr>
   | _ \<Rightarrow> None)"
| "parse_op _ = None"

definition parse_ops :: "yaml \<Rightarrow> file_op list option" where
  "parse_ops y = (if ytrue y then parse_list parse_op y else Some [])"

text \<open>\<open>if op.get(key): _validate_relative_path(op[key])\<close>.\<close>

definition op_paths :: "file_op \<Rightarrow> string list" where
  "op_paths op = filter (\<lambda>s. s \<noteq> []) (map or_empty [op_from op, op_to op, op_path op])"

definition parse_manifest :: "(string \<times> yaml) list \<Rightarrow> manifest option" where
  "parse_manifest m =
     (case (required_text (yget ''skill'' m), required_text (yget ''version'' m), required_text (yget ''core_version'' m),
            required_list (yget ''adds'' m), required_list (yget ''modifies'' m)) of
        (Some n, Some v, Some c, Some ad, Some mo) \<Rightarrow>
         (case (strings_or_empty (yget ''conflicts'' m), strings_or_empty (yget ''depends'' m), parse_ops (yget ''file_ops'' m),
                optional (yget ''test'' m), optional (yget ''min_skills_system_version'' m),
                strings_or_empty (yget ''post_apply'' m), strings_or_empty (yget ''container_tools'' m)) of
            (Some cf, Some dp, Some ops, Some ts, Some mi, Some po, Some ct) \<Rightarrow>
              if list_all valid_relative_path (ad @ mo @ concat (map op_paths ops) @ ct)
              then Some \<lparr>mf_skill = n, mf_version = v, mf_core = c, mf_adds = ad, mf_modifies = mo, mf_conflicts = cf,
                mf_depends = dp, mf_ops = ops, mf_structured = yget ''structured'' m, mf_test = ts, mf_min = mi,
                mf_post = po, mf_tools = ct\<rparr>
              else None
          | _ \<Rightarrow> None)
      | _ \<Rightarrow> None)"

definition read_manifest :: "lib \<Rightarrow> fs \<Rightarrow> path \<Rightarrow> manifest option" where
  "read_manifest l fs dir = (case dget fs (dir @ [''manifest.yaml'']) of
      None \<Rightarrow> None
    | Some raw \<Rightarrow> Option.bind (Option.bind (yaml_load l raw) as_map) parse_manifest)"

text \<open>The checks, on the state that was read.  The core version never refuses, but comparing it may raise.\<close>

definition check_system_version :: "manifest \<Rightarrow> bool option" where
  "check_system_version m = (if \<not> truthy (mf_min m) then Some True
     else map_option (\<lambda>c. c \<le> 0) (compare_semver (the (mf_min m)) SKILLS_SCHEMA_VERSION))"

definition check_core_version :: "manifest \<Rightarrow> skill_state \<Rightarrow> bool option" where
  "check_core_version m st = map_option (\<lambda>c. c > 0) (compare_semver (mf_core m) (ss_core st))"

definition applied_names :: "skill_state \<Rightarrow> string list" where
  "applied_names st = map ap_name (ss_applied st)"

definition check_dependencies :: "manifest \<Rightarrow> skill_state \<Rightarrow> string list" where
  "check_dependencies m st = filter (\<lambda>d. d \<notin> set (applied_names st)) (mf_depends m)"

definition check_conflicts :: "manifest \<Rightarrow> skill_state \<Rightarrow> string list" where
  "check_conflicts m st = filter (\<lambda>c. c \<in> set (applied_names st)) (mf_conflicts m)"

section \<open>Customize sessions\<close>

definition session_path :: "lib \<Rightarrow> path" where
  "session_path l = evoclaw_dir (root l) @ [''.customize_session'']"

definition is_customize_active :: "lib \<Rightarrow> fs \<Rightarrow> bool" where
  "is_customize_active l fs = path_exists fs (session_path l)"

definition start_customize :: "lib \<Rightarrow> string \<Rightarrow> string list \<Rightarrow> fs \<Rightarrow> fs \<times> bool" where
  "start_customize l desc files fs =
     (if is_customize_active l fs then (fs, False)
      else case atomic_write (session_path l) (yaml_dump l (sort_maps (Map [(''description'', Str desc),
               (''started_at'', Str (now_iso l)), (''files'', strs_to_yaml files)]))) fs of
          (fs, False) \<Rightarrow> (fs, False)
        | (fs, True) \<Rightarrow> (if has_git l then git_baseline l files fs else fs, True))"

definition session_data :: "lib \<Rightarrow> fs \<Rightarrow> (string \<times> yaml) list option" where
  "session_data l fs = Option.bind (Option.bind (dget fs (session_path l)) (yaml_load l)) as_map"

definition safe_desc :: "string \<Rightarrow> string" where
  "safe_desc d = map (\<lambda>c. if c = CHR '' '' then CHR ''_'' else if c = CHR ''/'' then CHR ''-'' else c) (take 40 d)"

definition patch_name :: "lib \<Rightarrow> string \<Rightarrow> string" where
  "patch_name l d = now_stamp l @ ''_'' @ safe_desc d @ ''.patch''"

definition commit_customize :: "lib \<Rightarrow> fs \<Rightarrow> fs \<times> bool" where
  "commit_customize l fs = (case session_data l fs of
      None \<Rightarrow> (fs, False)
    | Some m \<Rightarrow> (case (str_of (yget ''description'' m), strings (yget ''files'' m)) of
        (Some d, Some files) \<Rightarrow>
          run_all
            [tried (write_file (evoclaw_dir (root l) @ [''custom'', patch_name l d]) (if has_git l then git_diff l files fs else [])),
             record_custom_modification l d files (''.evoclaw/custom/'' @ patch_name l d),
             tried (unlink_file (session_path l))] fs
      | _ \<Rightarrow> (fs, False)))"

definition abort_customize :: "lib \<Rightarrow> fs \<Rightarrow> fs \<times> bool" where
  "abort_customize l fs = (case session_data l fs of
      None \<Rightarrow> (fs, False)
    | Some m \<Rightarrow> (case default [] strings ''files'' m of
        None \<Rightarrow> (fs, False)
      | Some files \<Rightarrow>
          tried (unlink_file (session_path l)) (if files \<noteq> [] \<and> has_git l then git_checkout l files fs else fs)))"

section \<open>Paths of a manifest\<close>

lemma at_inside: "valid_relative_path s \<Longrightarrow> at r s = collapse r @ parts s"
  by (simp add: at_def path_join_def valid_relative_path_def collapse_append)

section \<open>Writing and reading the state\<close>

lemma dget_sort: "dict_ok m \<Longrightarrow> dget (sort_key fst m) k = dget m k"
proof -
  assume m: "dict_ok m"
  have s: "dict_ok (sort_key fst m)" using m by (simp add: dict_ok_def dkeys_def distinct_map)
  show ?thesis
  proof (cases "dget m k")
    case None
    then have "k \<notin> set (dkeys m)" by (simp only: dget_None_iff) simp
    then have "k \<notin> set (dkeys (sort_key fst m))" by (simp add: dkeys_def)
    then show ?thesis using None by (simp only: dget_None_iff[symmetric])
  next
    case (Some v)
    then show ?thesis using dget_of_member[OF s, of k v] dget_in_set[OF Some] by simp
  qed
qed

definition sorted_pairs :: "(string \<times> yaml) list \<Rightarrow> (string \<times> yaml) list" where
  "sorted_pairs m = sort_key fst (map (\<lambda>(k, v). (k, sort_maps v)) m)"

lemma sort_maps_Map: "sort_maps (Map m) = Map (sorted_pairs m)"
  by (simp add: sorted_pairs_def)

lemma dget_sorted_pairs: "dict_ok m \<Longrightarrow> dget (sorted_pairs m) k = map_option sort_maps (dget m k)"
proof -
  assume "dict_ok m"
  then have "dict_ok (map (\<lambda>(k, v). (k, sort_maps v)) m)" by (simp add: dict_ok_def dkeys_def comp_def case_prod_unfold)
  then show ?thesis by (simp add: sorted_pairs_def dget_sort dget_map_snd)
qed

lemma all_some_map: "(\<And>x. x \<in> set xs \<Longrightarrow> f x = Some (g x)) \<Longrightarrow> all_some (map f xs) = Some (map g xs)"
  by (induction xs) simp_all

lemma string_map_sorted: "string_map (sort_maps (strmap_to_yaml h)) = Some (sort_key fst h)"
proof -
  have "sort_maps (strmap_to_yaml h) = Map (map (\<lambda>(k, v). (k, Str v)) (sort_key fst h))"
    using sort_key_map[of fst "\<lambda>(k, v). (k, Str v)" h]
    by (simp add: strmap_to_yaml_def comp_def case_prod_unfold)
  then show ?thesis using all_some_map[of "sort_key fst h" "\<lambda>(k, v). Some (k, v)" "\<lambda>x. x"] by (simp add: comp_def case_prod_unfold)
qed

lemma strings_sorted: "strings (sort_maps (strs_to_yaml xs)) = Some xs"
  using all_some_map[of xs "\<lambda>x. Some x" "\<lambda>x. x"] by (simp add: strings_def strs_to_yaml_def comp_def)

definition kept :: "string option \<Rightarrow> string option" where
  "kept s = (if truthy s then s else None)"

definition norm_applied :: "applied_skill \<Rightarrow> applied_skill" where
  "norm_applied s = s\<lparr>ap_hashes := sort_key fst (ap_hashes s), ap_outcomes := (if ytrue (ap_outcomes s) then sort_maps (ap_outcomes s) else Null),
     ap_patch := kept (ap_patch s), ap_patch_desc := kept (ap_patch_desc s)\<rparr>"

definition norm_state :: "skill_state \<Rightarrow> skill_state" where
  "norm_state s = s\<lparr>ss_applied := map norm_applied (ss_applied s), ss_remap := sort_key fst (ss_remap s), ss_rebased := kept (ss_rebased s)\<rparr>"

lemma dget_entry: "dget (entry k s) k' = (if k' = k then map_option Str (kept s) else None)"
  by (cases s) (auto simp: entry_def kept_def dget_Cons)

lemma dkeys_entry: "dkeys (entry k s) = (if truthy s then [k] else [])"
  by (simp add: entry_def dkeys_def)

lemma dkeys_append: "dkeys (xs @ ys) = dkeys xs @ dkeys ys" by (simp add: dkeys_def)
lemma dkeys_Cons: "dkeys ((k, v) # m) = k # dkeys m" by (simp add: dkeys_def)
lemma dkeys_Nil: "dkeys [] = []" by (simp add: dkeys_def)

lemmas field_simps' = dget_append dget_Cons dget_entry dkeys_append dkeys_Cons dkeys_Nil dkeys_entry

lemma optional_field: "dict_ok m \<Longrightarrow> dget m k = map_option Str (kept x) \<Longrightarrow> optional (yget k (sorted_pairs m)) = Some (kept x)"
  by (cases "kept x") (simp_all add: yget_def dget_sorted_pairs optional_def)

lemma yget_field: "dict_ok m \<Longrightarrow> dget m k = Some v \<Longrightarrow> yget k (sorted_pairs m) = sort_maps v"
  by (simp add: yget_def dget_sorted_pairs)

lemma default_field: "dict_ok m \<Longrightarrow> default d f k (sorted_pairs m) = (case dget m k of None \<Rightarrow> Some d | Some v \<Rightarrow> f (sort_maps v))"
  by (simp add: default_def dget_sorted_pairs split: option.split)

lemma kept_or: "(case map_option Str (kept x) of None \<Rightarrow> None | Some v \<Rightarrow> Some v) = map_option Str (kept x)"
  by (simp split: option.split)

definition applied_fields :: "applied_skill \<Rightarrow> (string \<times> yaml) list" where
  "applied_fields s = [(''name'', Str (ap_name s)), (''version'', Str (ap_version s)), (''applied_at'', Str (ap_at s)),
      (''file_hashes'', strmap_to_yaml (ap_hashes s))]
     @ (if ytrue (ap_outcomes s) then [(''structured_outcomes'', ap_outcomes s)] else [])
     @ entry ''custom_patch'' (ap_patch s) @ entry ''custom_patch_description'' (ap_patch_desc s)"

lemma applied_roundtrip: "parse_applied (sort_maps (applied_to_yaml s)) = Some (norm_applied s)"
proof -
  let ?m = "applied_fields s"
  have ok: "dict_ok ?m" by (simp add: dict_ok_def applied_fields_def field_simps')
  have g: "dget ?m ''name'' = Some (Str (ap_name s))" "dget ?m ''version'' = Some (Str (ap_version s))"
    "dget ?m ''applied_at'' = Some (Str (ap_at s))" "dget ?m ''file_hashes'' = Some (strmap_to_yaml (ap_hashes s))"
    "dget ?m ''structured_outcomes'' = (if ytrue (ap_outcomes s) then Some (ap_outcomes s) else None)"
    "dget ?m ''custom_patch'' = map_option Str (kept (ap_patch s))"
    "dget ?m ''custom_patch_description'' = map_option Str (kept (ap_patch_desc s))"
    by (simp_all add: applied_fields_def field_simps' split: option.split)
  have y: "yget ''structured_outcomes'' (sorted_pairs ?m) = (if ytrue (ap_outcomes s) then sort_maps (ap_outcomes s) else Null)"
    using g(5) by (simp add: yget_def dget_sorted_pairs[OF ok])
  have "parse_applied (Map (sorted_pairs ?m)) = Some (norm_applied s)"
    using g(4) by (simp add: yget_field[OF ok] g(1-3) default_field[OF ok] y optional_field[OF ok g(6)] optional_field[OF ok g(7)]
        string_map_sorted norm_applied_def)
  then show ?thesis by (simp only: applied_to_yaml_def applied_fields_def[symmetric] sort_maps_Map)
qed

lemma mod_roundtrip: "parse_mod (sort_maps (mod_to_yaml c)) = Some c"
proof -
  let ?m = "[(''description'', Str (cm_description c)), (''applied_at'', Str (cm_at c)),
     (''files_modified'', strs_to_yaml (cm_files c)), (''patch_file'', Str (cm_patch c))]"
  have ok: "dict_ok ?m" by (simp add: dict_ok_def field_simps')
  have "parse_mod (Map (sorted_pairs ?m)) = Some c"
    by (simp add: yget_def default_def dget_sorted_pairs[OF ok] dget_Cons strings_sorted)
  then show ?thesis by (simp only: mod_to_yaml_def sort_maps_Map)
qed

lemma state_roundtrip_dict: "Option.bind (as_map (sort_maps (Map (state_to_dict s)))) parse_state = Some (norm_state s)"
proof -
  let ?m = "state_to_dict s"
  have ok: "dict_ok ?m" by (simp add: dict_ok_def state_to_dict_def field_simps')
  have g: "dget ?m ''skills_system_version'' = Some (Str (ss_system s))" "dget ?m ''core_version'' = Some (Str (ss_core s))"
    "dget ?m ''applied_skills'' = Some (Seq (map applied_to_yaml (ss_applied s)))"
    "dget ?m ''custom_modifications'' = (if ss_mods s \<noteq> [] then Some (Seq (map mod_to_yaml (ss_mods s))) else None)"
    "dget ?m ''path_remap'' = (if ss_remap s \<noteq> [] then Some (strmap_to_yaml (ss_remap s)) else None)"
    "dget ?m ''rebased_at'' = map_option Str (kept (ss_rebased s))"
    by (simp_all add: state_to_dict_def field_simps')
  have a: "all_some (map (\<lambda>s. parse_applied (sort_maps (applied_to_yaml s))) xs) = Some (map norm_applied xs)" for xs
    by (rule all_some_map) (simp add: applied_roundtrip)
  have c: "all_some (map (\<lambda>c. parse_mod (sort_maps (mod_to_yaml c))) xs) = Some xs" for xs
    using all_some_map[of xs _ "\<lambda>x. x"] by (simp add: mod_roundtrip)
  have "parse_state (sorted_pairs ?m) = Some (norm_state s)"
    by (simp add: parse_state_def parse_list_def yget_field[OF ok] default_field[OF ok] g(1-5) optional_field[OF ok g(6)]
        string_map_sorted comp_def a c norm_state_def)
  then show ?thesis by (simp only: sort_maps_Map as_map.simps Option.bind.bind_lunit)
qed

section \<open>A document format for the examples\<close>

fun enc_str :: "string \<Rightarrow> string" where
  "enc_str [] = '';''"
| "enc_str (c # cs) = CHR ''.'' # c # enc_str cs"

fun dec_str :: "string \<Rightarrow> (string \<times> string) option" where
  "dec_str (c # cs) = (if c = CHR '';'' then Some ([], cs)
     else case cs of [] \<Rightarrow> None | d # ds \<Rightarrow> map_option (\<lambda>(s, r). (d # s, r)) (dec_str ds))"
| "dec_str [] = None"

lemma dec_enc_str: "dec_str (enc_str s @ r) = Some (s, r)"
  by (induction s) simp_all

fun enc :: "yaml \<Rightarrow> string" where
  "enc Null = ''n''"
| "enc (Scalar s b) = (if b then CHR ''t'' else CHR ''f'') # enc_str s"
| "enc (Str s) = CHR ''s'' # enc_str s"
| "enc (Seq xs) = CHR ''q'' # concat (map (\<lambda>x. CHR '','' # enc x) xs) @ ''.''"
| "enc (Map m) = CHR ''m'' # concat (map (\<lambda>(k, v). CHR '','' # enc_str k @ enc v) m) @ ''.''"

text \<open>A decoder of one kind of list, given that of the elements.\<close>

fun dec_seq :: "nat \<Rightarrow> (string \<Rightarrow> ('a \<times> string) option) \<Rightarrow> string \<Rightarrow> ('a list \<times> string) option" where
  "dec_seq 0 d s = None"
| "dec_seq (Suc n) d s = (case s of [] \<Rightarrow> None
     | c # cs \<Rightarrow> if c = CHR ''.'' then Some ([], cs)
         else (case d cs of None \<Rightarrow> None | Some (x, r) \<Rightarrow> map_option (\<lambda>(xs, r). (x # xs, r)) (dec_seq n d r)))"

fun dec :: "nat \<Rightarrow> string \<Rightarrow> (yaml \<times> string) option" where
  "dec 0 s = None"
| "dec (Suc n) s = (case s of [] \<Rightarrow> None
     | c # cs \<Rightarrow>
        if c = CHR ''n'' then Some (Null, cs)
        else if c = CHR ''t'' then map_option (\<lambda>(x, r). (Scalar x True, r)) (dec_str cs)
        else if c = CHR ''f'' then map_option (\<lambda>(x, r). (Scalar x False, r)) (dec_str cs)
        else if c = CHR ''s'' then map_option (\<lambda>(x, r). (Str x, r)) (dec_str cs)
        else if c = CHR ''q'' then map_option (\<lambda>(xs, r). (Seq xs, r)) (dec_seq (length s) (dec n) cs)
        else map_option (\<lambda>(xs, r). (Map xs, r)) (dec_seq (length s)
           (\<lambda>s. case dec_str s of None \<Rightarrow> None | Some (k, r) \<Rightarrow> map_option (\<lambda>(v, r). ((k, v), r)) (dec n r)) cs))"

lemma dec_seq_map:
  "(\<And>x r. x \<in> set xs \<Longrightarrow> d (e x @ r) = Some (x, r)) \<Longrightarrow> length xs < n \<Longrightarrow>
     dec_seq n d (concat (map (\<lambda>x. CHR '','' # e x) xs) @ CHR ''.'' # r) = Some (xs, r)"
proof (induction xs arbitrary: n)
  case Nil
  then obtain k where "n = Suc k" by (cases n) auto
  then show ?case by simp
next
  case (Cons x xs)
  then obtain k where "n = Suc k" by (cases n) auto
  with Cons show ?case by simp
qed

lemma short: "length xs \<le> length (concat (map (\<lambda>x. c # e x) xs))"
  by (induction xs) simp_all

fun depth :: "yaml \<Rightarrow> nat" where
  "depth (Seq xs) = Suc (Max (insert 0 (set (map depth xs))))"
| "depth (Map m) = Suc (Max (insert 0 (set (map (\<lambda>(_, v). depth v) m))))"
| "depth _ = 0"

lemma dec_enc: "depth y < n \<Longrightarrow> dec n (enc y @ r) = Some (y, r)"
proof (induction y arbitrary: n r)
  case (Seq xs)
  then obtain k where n: "n = Suc k" by (cases n) auto
  have "dec k (enc x @ r) = Some (x, r)" if "x \<in> set xs" for x r
  proof -
    have "depth x \<le> Max (insert 0 (set (map depth xs)))" using that by (intro Max_ge) auto
    then show ?thesis using Seq n that by simp
  qed
  then show ?case using dec_seq_map[of xs "dec k" enc] short[of xs "CHR '',''" enc] n by (simp del: dec_seq.simps)
next
  case (Map m)
  then obtain k where n: "n = Suc k" by (cases n) auto
  let ?e = "\<lambda>(k, v). enc_str k @ enc v"
  let ?d = "\<lambda>s. case dec_str s of None \<Rightarrow> None | Some (a, r) \<Rightarrow> map_option (\<lambda>(v, r). ((a, v), r)) (dec k r)"
  have "?d (?e x @ r) = Some (x, r)" if "x \<in> set m" for x r
  proof -
    obtain a v where x: "x = (a, v)" by fastforce
    have "depth v \<le> Max (insert 0 (set (map (\<lambda>(_, v). depth v) m)))" using that x by (intro Max_ge) force+
    then have "dec k (enc v @ r) = Some (v, r)" using Map n that x by auto
    then show ?thesis by (simp add: x dec_enc_str)
  qed
  then have "dec_seq q ?d (concat (map (\<lambda>x. CHR '','' # ?e x) m) @ CHR ''.'' # r) = Some (m, r)" if "length m < q" for q r
    using that by (rule dec_seq_map)
  then show ?case using short[of m "CHR '',''" ?e] n by (simp add: case_prod_unfold del: dec_seq.simps)
qed (auto simp: dec_enc_str gr0_conv_Suc)

lemma depth_enc: "depth y < length (enc y)"
proof (induction y)
  case (Seq xs)
  have "depth x < length (concat (map (\<lambda>x. CHR '','' # enc x) xs))" if "x \<in> set xs" for x
    using Seq that by (induction xs) (auto intro: less_SucI trans_less_add1 trans_less_add2)
  then have "Max (insert 0 (set (map depth xs))) \<le> length (concat (map (\<lambda>x. CHR '','' # enc x) xs))" by (auto intro: less_imp_le)
  then show ?case by (simp add: less_Suc_eq_le)
next
  case (Map m)
  have "depth v < length (concat (map (\<lambda>(k, v). CHR '','' # enc_str k @ enc v) m))" if "(k, v) \<in> set m" for k v
    using Map that by (induction m) force+
  then have "Max (insert 0 (set (map (\<lambda>(_, v). depth v) m))) \<le> length (concat (map (\<lambda>(k, v). CHR '','' # enc_str k @ enc v) m))"
    by (auto intro: less_imp_le)
  then show ?case by (simp add: less_Suc_eq_le)
qed simp_all

definition dec_doc :: "string \<Rightarrow> yaml option" where
  "dec_doc s = map_option fst (dec (length s) s)"

lemma dec_doc_enc: "dec_doc (enc y) = Some y"
  using dec_enc[of y "length (enc y)" "[]"] depth_enc[of y] by (simp add: dec_doc_def)

end
