(* ===== verification/SkillApply.thy ===== *)
theory SkillApply
  imports SkillState
begin

text \<open>
  Applying a skill: \<open>skills_engine/apply.py\<close> with \<open>init.py\<close> and \<open>merge.py\<close>.  \<open>sd\<close> is the directory of the
  skill.  The body of the \<open>try\<close> statement is a list of steps on the files and the list of files added so
  far; a step may end the call with a result, and \<open>Raised\<close> is an exception, which the handler undoes and
  raises again.  The lock is an argument here and modelled in \<open>SkillLock\<close>.
\<close>

section \<open>Initialisation\<close>

definition BASE_INCLUDES :: "path list" where
  "BASE_INCLUDES = [[''host''], [''container''], [''run.py''], [''.env.example'']]"

definition BASE_EXCLUDES :: "string list" where
  "BASE_EXCLUDES = [''__pycache__'', ''.evoclaw'', ''.git'', ''dist'', ''data'', ''groups'', ''store'', ''logs'', ''.venv'',
     ''venv'', ''node_modules'']"

definition copy_dir_filtered :: "path \<Rightarrow> path \<Rightarrow> fs \<Rightarrow> fs \<times> bool" where
  "copy_dir_filtered src dst fs = run_all
     (map (\<lambda>p. tried (copy_file p (dst @ drop (length src) p)))
       (filter (\<lambda>p. strict_prefix src p \<and> set (drop (length src) p) \<inter> set BASE_EXCLUDES = {}) (dkeys fs))) fs"

definition snapshot :: "path \<Rightarrow> path \<Rightarrow> fs \<Rightarrow> fs \<times> bool" where
  "snapshot r inc fs =
     (if is_dir fs (r @ inc) then copy_dir_filtered (r @ inc) (base_dir r @ inc) fs
      else if is_file fs (r @ inc) then tried (copy_file (r @ inc) (base_dir r @ inc)) fs
      else (fs, True))"

definition version_in :: "yaml option \<Rightarrow> string option" where
  "version_in y = (case Option.bind y as_map of None \<Rightarrow> None
     | Some m \<Rightarrow> (case dget m ''version'' of None \<Rightarrow> Some ''0.0.0'' | Some v \<Rightarrow> text_of v))"

definition project_table :: "yaml option \<Rightarrow> yaml option" where
  "project_table y = (case Option.bind y as_map of None \<Rightarrow> None
     | Some m \<Rightarrow> (case dget m ''project'' of None \<Rightarrow> Some (Map []) | Some v \<Rightarrow> Some v))"

definition get_core_version :: "lib \<Rightarrow> fs \<Rightarrow> string" where
  "get_core_version l fs =
     (case version_in (project_table (Option.bind (dget fs (root l @ [''pyproject.toml''])) (toml_load l))) of
        Some v \<Rightarrow> v
      | None \<Rightarrow> (case version_in (Option.bind (dget fs (root l @ [''package.json''])) (json_load l)) of
          Some v \<Rightarrow> v | None \<Rightarrow> ''0.0.0''))"

definition init_evoclaw_dir :: "lib \<Rightarrow> fs \<Rightarrow> fs \<times> bool" where
  "init_evoclaw_dir l fs =
     (let fs0 = remove_tree (base_dir (root l)) fs in
      run_all (map (snapshot (root l)) BASE_INCLUDES
        @ [\<lambda>fs. write_state l \<lparr>ss_system = ''0.1.0'', ss_core = get_core_version l fs, ss_applied = [], ss_mods = [],
             ss_remap = [], ss_rebased = None\<rparr> fs]) fs0)"

section \<open>Results and checks\<close>

datatype apply_result =
    Applied "string list"
  | System_too_old
  | Customizing
  | Missing_deps "string list"
  | Conflicting "string list"
  | File_ops_failed
  | Merge_conflicts "string list" "string list"
  | Post_apply_failed string
  | Tests_failed
  | Raised

fun drift_files :: "lib \<Rightarrow> (string, string) dict \<Rightarrow> string list \<Rightarrow> fs \<Rightarrow> string list option" where
  "drift_files l remap [] fs = Some []"
| "drift_files l remap (rel # rels) fs =
     (let r = resolve_path_remap rel remap; cur = at (root l) r; b = at (base_dir (root l)) r in
      if path_exists fs cur \<and> path_exists fs b
      then (case (dget fs cur, dget fs b) of
          (Some x, Some y) \<Rightarrow> map_option (\<lambda>ds. if sha256 l x \<noteq> sha256 l y then rel # ds else ds) (drift_files l remap rels fs)
        | _ \<Rightarrow> None)
      else drift_files l remap rels fs)"

text \<open>The checks before the lock: a result that ends the call, or the drift that was found.\<close>

definition preflight :: "lib \<Rightarrow> manifest \<Rightarrow> skill_state \<Rightarrow> fs \<Rightarrow> apply_result + string list" where
  "preflight l m st fs =
     (case check_system_version m of
        None \<Rightarrow> Inl Raised
      | Some False \<Rightarrow> Inl System_too_old
      | Some True \<Rightarrow>
         (if check_core_version m st = None then Inl Raised
          else if is_customize_active l fs then Inl Customizing
          else if check_dependencies m st \<noteq> [] then Inl (Missing_deps (check_dependencies m st))
          else if check_conflicts m st \<noteq> [] then Inl (Conflicting (check_conflicts m st))
          else case drift_files l (ss_remap st) (mf_modifies m) fs of None \<Rightarrow> Inl Raised | Some ds \<Rightarrow> Inr ds))"

section \<open>Steps\<close>

record work =
  wk_fs :: fs
  wk_added :: "path list"

fun run_steps :: "('s \<Rightarrow> 's \<times> 'r option) list \<Rightarrow> 's \<Rightarrow> 's \<times> 'r option" where
  "run_steps [] s = (s, None)"
| "run_steps (f # fs) s = (case f s of (s', None) \<Rightarrow> run_steps fs s' | (s', Some r) \<Rightarrow> (s', Some r))"

text \<open>A step that can only raise.\<close>

definition on_files :: "(fs \<Rightarrow> fs \<times> bool) \<Rightarrow> work \<Rightarrow> work \<times> apply_result option" where
  "on_files f w = (let (fs, ok) = f (wk_fs w) in (w\<lparr>wk_fs := fs\<rparr>, if ok then None else Some Raised))"

definition restore_and_clear :: "lib \<Rightarrow> fs \<Rightarrow> fs \<times> bool" where
  "restore_and_clear l fs = (case restore_backup (root l) fs of
     (fs, True) \<Rightarrow> (clear_backup (root l) fs, True) | (fs, False) \<Rightarrow> (fs, False))"

definition unlink_added :: "path list \<Rightarrow> fs \<Rightarrow> fs \<times> bool" where
  "unlink_added ps = run_all (map (\<lambda>p. tried (unlink_file p)) ps)"

definition backup_paths :: "lib \<Rightarrow> manifest \<Rightarrow> (string, string) dict \<Rightarrow> path list" where
  "backup_paths l m remap =
     map (\<lambda>f. at (root l) (resolve_path_remap f remap))
       (mf_modifies m @ mf_adds m @ filter (\<lambda>s. s \<noteq> []) (map (\<lambda>op. or_empty (op_from op)) (mf_ops m)))
     @ map (\<lambda>f. root l @ [f]) [''requirements.txt'', ''.env.example'', ''docker-compose.yml'']"

definition ops_step :: "lib \<Rightarrow> manifest \<Rightarrow> work \<Rightarrow> work \<times> apply_result option" where
  "ops_step l m w =
     (let (fs, ok) = execute_file_ops (root l) (mf_ops m) (wk_fs w) in
      if ok then (w\<lparr>wk_fs := fs\<rparr>, None)
      else let (fs, ok) = restore_and_clear l fs in (w\<lparr>wk_fs := fs\<rparr>, Some (if ok then File_ops_failed else Raised)))"

definition add_one :: "lib \<Rightarrow> path \<Rightarrow> (string, string) dict \<Rightarrow> string \<Rightarrow> work \<Rightarrow> work \<times> apply_result option" where
  "add_one l sd remap rel w =
     (let dest = at (root l) (resolve_path_remap rel remap); src = at (sd @ [''add'']) rel;
          w = (if path_exists (wk_fs w) dest then w else w\<lparr>wk_added := wk_added w @ [dest]\<rparr>) in
      if \<not> path_exists (wk_fs w) src then (w, None)
      else case dget (wk_fs w) src of None \<Rightarrow> (w, Some Raised) | Some c \<Rightarrow> on_files (atomic_write dest c) w)"

definition adds_step :: "lib \<Rightarrow> path \<Rightarrow> manifest \<Rightarrow> (string, string) dict \<Rightarrow> work \<Rightarrow> work \<times> apply_result option" where
  "adds_step l sd m remap w =
     (if path_exists (wk_fs w) (sd @ [''add'']) then run_steps (map (add_one l sd remap) (mf_adds m)) w else (w, None))"

text \<open>A container tool goes under its bare name, so it cannot leave the directory.\<close>

definition tools_dir :: "lib \<Rightarrow> path" where
  "tools_dir l = data_dir l @ [''dynamic_tools'']"

definition tool_one :: "lib \<Rightarrow> path \<Rightarrow> string \<Rightarrow> work \<Rightarrow> work \<times> apply_result option" where
  "tool_one l sd rel w =
     (let src = at (sd @ [''add'']) rel in
      if \<not> path_exists (wk_fs w) src then (w, None)
      else case dget (wk_fs w) src of None \<Rightarrow> (w, Some Raised)
        | Some c \<Rightarrow> on_files (atomic_write (tools_dir l @ [path_name (parts rel)]) c) w)"

definition tools_step :: "lib \<Rightarrow> path \<Rightarrow> manifest \<Rightarrow> work \<Rightarrow> work \<times> apply_result option" where
  "tools_step l sd m w = run_steps (map (tool_one l sd) (mf_tools m)) w"

text \<open>\<open>merge_file\<close>: the merged text and whether it is clean; \<open>None\<close> where git fails.\<close>

definition merge_file :: "lib \<Rightarrow> string \<Rightarrow> string \<Rightarrow> string \<Rightarrow> (string \<times> bool) option" where
  "merge_file l ours base theirs =
     (if \<not> has_git l then Some (theirs, True)
      else case git_merge l ours base theirs of (code, out) \<Rightarrow>
        if code = 0 \<or> code = 1 then Some (out, code = 0) else None)"

definition merge_one :: "lib \<Rightarrow> path \<Rightarrow> (string, string) dict \<Rightarrow> string \<Rightarrow> fs \<Rightarrow> fs \<times> bool option" where
  "merge_one l sd remap rel fs =
     (let r = resolve_path_remap rel remap; cur = at (root l) r; b = at (base_dir (root l)) r; sk = at (sd @ [''modify'']) rel in
      if \<not> path_exists fs sk then (fs, None)
      else if \<not> path_exists fs cur then (case copy_file sk cur fs of None \<Rightarrow> (fs, None) | Some fs \<Rightarrow> (fs, Some True))
      else case (if path_exists fs b then Some fs else copy_file cur b fs) of
          None \<Rightarrow> (fs, None)
        | Some fs \<Rightarrow> (case (dget fs cur, dget fs b, dget fs sk) of
            (Some ours, Some base, Some theirs) \<Rightarrow> (case merge_file l ours base theirs of
                None \<Rightarrow> (fs, None)
              | Some (out, clean) \<Rightarrow> (case write_file cur out fs of None \<Rightarrow> (fs, None) | Some fs \<Rightarrow> (fs, Some clean)))
          | _ \<Rightarrow> (fs, None)))"

fun merge_all :: "lib \<Rightarrow> path \<Rightarrow> (string, string) dict \<Rightarrow> string list \<Rightarrow> fs \<Rightarrow> fs \<times> string list option" where
  "merge_all l sd remap [] fs = (fs, Some [])"
| "merge_all l sd remap (rel # rels) fs = (case merge_one l sd remap rel fs of
     (fs, None) \<Rightarrow> (fs, None)
   | (fs, Some clean) \<Rightarrow> (let (fs, cs) = merge_all l sd remap rels fs in
        (fs, map_option (\<lambda>cs. if clean then cs else rel # cs) cs)))"

definition merge_step ::
  "lib \<Rightarrow> path \<Rightarrow> manifest \<Rightarrow> (string, string) dict \<Rightarrow> string list \<Rightarrow> work \<Rightarrow> work \<times> apply_result option" where
  "merge_step l sd m remap drift w = (case merge_all l sd remap (mf_modifies m) (wk_fs w) of
     (fs, None) \<Rightarrow> (w\<lparr>wk_fs := fs\<rparr>, Some Raised)
   | (fs, Some []) \<Rightarrow> (w\<lparr>wk_fs := fs\<rparr>, None)
   | (fs, Some cs) \<Rightarrow> (let (fs, ok) = restore_and_clear l fs in
        (w\<lparr>wk_fs := fs\<rparr>, Some (if ok then Merge_conflicts cs drift else Raised))))"

definition npm_step :: "lib \<Rightarrow> yaml \<Rightarrow> fs \<Rightarrow> fs \<times> bool" where
  "npm_step l npm fs =
     (let pkg_path = root l @ [''package.json''] in
      if \<not> ytrue npm \<or> \<not> path_exists fs pkg_path then (fs, True)
      else case Option.bind (Option.bind (dget fs pkg_path) (json_load l)) as_map of
          None \<Rightarrow> (fs, False)
        | Some pkg \<Rightarrow> (case (default [] string_map ''dependencies'' pkg, string_map npm) of
            (Some deps, Some new) \<Rightarrow>
              atomic_write pkg_path (json_dump l (Map (dset ''dependencies'' (strmap_to_yaml (fst (merge_npm deps new))) pkg))) fs
          | _ \<Rightarrow> (fs, False)))"

definition env_text :: "string list \<Rightarrow> string" where
  "env_text ls = join [CHR 0x0A] ls @ [CHR 0x0A]"

definition env_step :: "lib \<Rightarrow> yaml \<Rightarrow> fs \<Rightarrow> fs \<times> bool" where
  "env_step l env fs =
     (let p = root l @ [''.env.example''] in
      if \<not> ytrue env then (fs, True)
      else if is_dir fs p then (fs, False)
      else case strings env of None \<Rightarrow> (fs, False)
        | Some new \<Rightarrow> atomic_write p (env_text (merge_env_additions
            (case dget fs p of None \<Rightarrow> [] | Some c \<Rightarrow> splitlines c) new)) fs)"

definition structured_step :: "lib \<Rightarrow> manifest \<Rightarrow> work \<Rightarrow> work \<times> apply_result option" where
  "structured_step l m w =
     (if \<not> ytrue (mf_structured m) then (w, None)
      else case as_map (mf_structured m) of None \<Rightarrow> (w, Some Raised)
        | Some s \<Rightarrow> run_steps [on_files (npm_step l (yget ''npm_dependencies'' s)), on_files (env_step l (yget ''env_additions'' s))] w)"

definition ALLOWED_PREFIXES :: "string list" where
  "ALLOWED_PREFIXES = [''pip install'', ''pip3 install'', ''python -m pip install'', ''python3 -m pip install'', ''npm install'',
     ''npm ci'', ''yarn install'', ''python -m pytest'', ''python3 -m pytest'', ''pytest'']"

definition command_allowed :: "string \<Rightarrow> bool" where
  "command_allowed cmd = list_ex (\<lambda>p. prefix p (lower (strip cmd))) ALLOWED_PREFIXES"

definition post_one :: "lib \<Rightarrow> string \<Rightarrow> work \<Rightarrow> work \<times> apply_result option" where
  "post_one l cmd w =
     (if \<not> command_allowed cmd then (w, None)
      else case run_command l cmd (wk_fs w) of
          (fs, Passed) \<Rightarrow> (w\<lparr>wk_fs := fs\<rparr>, None)
        | (fs, Not_run) \<Rightarrow> (w\<lparr>wk_fs := fs\<rparr>, Some Raised)
        | (fs, Exit_failure) \<Rightarrow> (let (fs, ok) = run_all [unlink_added (wk_added w), restore_and_clear l] fs in
            (w\<lparr>wk_fs := fs\<rparr>, Some (if ok then Post_apply_failed cmd else Raised))))"

fun file_hashes :: "lib \<Rightarrow> (string, string) dict \<Rightarrow> string list \<Rightarrow> (string, string) dict \<Rightarrow> fs \<Rightarrow> (string, string) dict option" where
  "file_hashes l remap [] hs fs = Some hs"
| "file_hashes l remap (rel # rels) hs fs =
     (let r = resolve_path_remap rel remap; p = at (root l) r in
      if \<not> path_exists fs p then file_hashes l remap rels hs fs
      else case dget fs p of None \<Rightarrow> None | Some c \<Rightarrow> file_hashes l remap rels (dset r (sha256 l c) hs) fs)"

definition outcomes :: "manifest \<Rightarrow> yaml" where
  "outcomes m =
     (let s = (case mf_structured m of Map s \<Rightarrow> s | _ \<Rightarrow> []);
          o' = (if truthy (mf_test m) then dset ''test'' (Str (the (mf_test m))) s else s) in
      if o' = [] then Null else Map o')"

definition record_step :: "lib \<Rightarrow> manifest \<Rightarrow> (string, string) dict \<Rightarrow> work \<Rightarrow> work \<times> apply_result option" where
  "record_step l m remap w = (case file_hashes l remap (mf_adds m @ mf_modifies m) [] (wk_fs w) of
     None \<Rightarrow> (w, Some Raised)
   | Some hs \<Rightarrow> on_files (record_skill_application l (mf_skill m) (mf_version m) hs (outcomes m)) w)"

definition test_step :: "lib \<Rightarrow> manifest \<Rightarrow> work \<Rightarrow> work \<times> apply_result option" where
  "test_step l m w =
     (if \<not> truthy (mf_test m) then (w, None)
      else case run_command l (the (mf_test m)) (wk_fs w) of
          (fs, Passed) \<Rightarrow> (w\<lparr>wk_fs := fs\<rparr>, None)
        | (fs, Not_run) \<Rightarrow> (w\<lparr>wk_fs := fs\<rparr>, Some Raised)
        | (fs, Exit_failure) \<Rightarrow>
           (let (fs, ok) = run_all [unlink_added (wk_added w), restore_backup (root l),
                  update_state l (\<lambda>st. st\<lparr>ss_applied := without_skill (mf_skill m) (ss_applied st)\<rparr>)] fs in
            if ok then (w\<lparr>wk_fs := clear_backup (root l) fs\<rparr>, Some Tests_failed) else (w\<lparr>wk_fs := fs\<rparr>, Some Raised)))"

section \<open>Apply\<close>

definition apply_body ::
  "lib \<Rightarrow> path \<Rightarrow> manifest \<Rightarrow> (string, string) dict \<Rightarrow> string list \<Rightarrow> work \<Rightarrow> work \<times> apply_result option" where
  "apply_body l sd m remap drift = run_steps
     ([on_files (create_backup (root l) (backup_paths l m remap)), ops_step l m, adds_step l sd m remap, tools_step l sd m,
       merge_step l sd m remap drift, structured_step l m]
      @ map (post_one l) (mf_post m)
      @ [record_step l m remap, test_step l m, \<lambda>w. (w\<lparr>wk_fs := clear_backup (root l) (wk_fs w)\<rparr>, Some (Applied drift))])"

text \<open>The \<open>try\<close> statement: on an exception the added files go and the backup comes back.\<close>

definition apply_locked ::
  "lib \<Rightarrow> path \<Rightarrow> manifest \<Rightarrow> (string, string) dict \<Rightarrow> string list \<Rightarrow> fs \<Rightarrow> fs \<times> apply_result" where
  "apply_locked l sd m remap drift fs =
     (case apply_body l sd m remap drift \<lparr>wk_fs = fs, wk_added = []\<rparr> of
        (w, Some Raised) \<Rightarrow> (fst (run_all [unlink_added (wk_added w), restore_and_clear l] (wk_fs w)), Raised)
      | (w, Some r) \<Rightarrow> (wk_fs w, r)
      | (w, None) \<Rightarrow> (wk_fs w, Raised))"

text \<open>\<open>got_lock\<close> says whether \<open>acquire_lock\<close> returns.  (The last case of the body never occurs.)\<close>

definition apply_skill :: "lib \<Rightarrow> bool \<Rightarrow> path \<Rightarrow> fs \<Rightarrow> fs \<times> apply_result" where
  "apply_skill l got_lock sd fs = (case read_manifest l fs sd of
      None \<Rightarrow> (fs, Raised)
    | Some m \<Rightarrow> (case (if path_exists fs (state_path l) then (fs, True) else init_evoclaw_dir l fs) of
        (fs, False) \<Rightarrow> (fs, Raised)
      | (fs, True) \<Rightarrow> (case read_state l fs of
          None \<Rightarrow> (fs, Raised)
        | Some st \<Rightarrow> (case preflight l m st fs of
            Inl r \<Rightarrow> (fs, r)
          | Inr drift \<Rightarrow> if \<not> got_lock then (fs, Raised) else apply_locked l sd m (ss_remap st) drift fs))))"

end
