(* ===== verification/SkillRollback.thy ===== *)
theory SkillRollback
  imports SkillApply
begin

text \<open>
  What a call of \<open>apply_skill\<close> leaves behind.  A backup covers the paths of the manifest; every step
  changes covered paths or the engine's own directory only, so a call that fails can be undone; a call
  that succeeds is recorded in the state.
\<close>

section \<open>What a backup covers\<close>

definition coverable :: "lib \<Rightarrow> path list \<Rightarrow> fs \<Rightarrow> bool" where
  "coverable l C fs =
     (list_all (\<lambda>p. strict_prefix (root l) p \<and> \<not> prefix (evoclaw_dir (root l)) p
        \<and> list_all (\<lambda>c. c \<noteq> [] \<and> \<not> suffix TOMBSTONE_SUFFIX c) (drop (length (root l)) p)
        \<and> \<not> is_dir fs p \<and> \<not> blocked fs p \<and> (tmp p \<in> set C \<or> dget fs (tmp p) = None)
        \<and> list_all (\<lambda>q. \<not> strict_prefix p q) C) C
      \<and> \<not> path_exists fs (backup_dir (root l)) \<and> \<not> blocked fs (backup_dir (root l)))"

lemma covered:
  assumes "coverable l C fs" "p \<in> set C"
  shows "strict_prefix (root l) p" "\<not> prefix (evoclaw_dir (root l)) p" "\<not> is_dir fs p" "\<not> blocked fs p"
    "tmp p \<in> set C \<or> dget fs (tmp p) = None" "\<And>q. q \<in> set C \<Longrightarrow> \<not> strict_prefix p q"
    "\<And>c. c \<in> set (drop (length (root l)) p) \<Longrightarrow> c \<noteq> [] \<and> \<not> suffix TOMBSTONE_SUFFIX c"
  using assms by (auto simp: coverable_def list_all_iff)

text \<open>Outside the engine's own directory only covered paths differ from the files at the start.\<close>

definition own :: "lib \<Rightarrow> path set" where
  "own l = {p. prefix (evoclaw_dir (root l)) p}"

lemma not_above_own: "strict_prefix (root l) p \<Longrightarrow> \<not> prefix (evoclaw_dir (root l)) p \<Longrightarrow> \<not> prefix p (evoclaw_dir (root l))"
  by (auto simp: evoclaw_dir_def prefix_snoc strict_prefix_def)

lemma covered_open:
  assumes C: "coverable l C fs0" and s: "same_but (set C \<union> own l) fs0 fs" and p: "p \<in> set C"
  shows "\<not> is_dir fs p \<and> \<not> blocked fs p"
proof -
  note c = covered[OF C p]
  have "dget fs q = None" if "strict_prefix p q" for q
  proof -
    have "q \<notin> own l"
    proof
      assume "q \<in> own l"
      then have "prefix (evoclaw_dir (root l)) q" by (simp add: own_def)
      with that have "prefix p (evoclaw_dir (root l)) \<or> prefix (evoclaw_dir (root l)) p"
        by (meson prefix_order.less_imp_le prefix_same_cases)
      with c(1,2) not_above_own show False by blast
    qed
    then have "dget fs q = dget fs0 q" using s c(6) that by (auto simp: same_but_def)
    then show ?thesis using c(3) that by (auto simp: is_dir_iff)
  qed
  moreover have "dget fs q = None" if "strict_prefix q p" for q
  proof -
    have "q \<notin> own l" using c(2) that by (auto simp: own_def dest: prefix_order.less_imp_le prefix_order.trans)
    then have "dget fs q = dget fs0 q" using s covered(6)[OF C, of q p] p that by (auto simp: same_but_def)
    then show ?thesis using c(4) that by (auto simp: blocked_iff)
  qed
  moreover have "p \<noteq> []" using c(1) by auto
  ultimately show ?thesis by (auto simp: is_dir_iff blocked_iff)
qed

definition bk :: "lib \<Rightarrow> path \<Rightarrow> path" where
  "bk l p = backup_dir (root l) @ drop (length (root l)) p"

definition tomb :: "lib \<Rightarrow> path \<Rightarrow> path" where
  "tomb l p = with_suffix TOMBSTONE_SUFFIX (bk l p)"

lemma under_root: "strict_prefix (root l) p \<Longrightarrow> \<exists>q n. p = root l @ q @ [n]"
  by (metis append_butlast_last_id append_self_conv prefix_def strict_prefix_def)

lemma restore_target:
  assumes C: "coverable l C fs0" and p: "p \<in> set C"
  shows "restore_one (root l) (bk l p) fs = copy_file (bk l p) p fs" "restore_one (root l) (tomb l p) fs = unlink_file p fs"
proof -
  obtain q n where pq: "p = root l @ q @ [n]" using under_root covered(1)[OF C p] by blast
  have n: "\<not> suffix TOMBSTONE_SUFFIX n" "n \<noteq> []" using covered(7)[OF C p, of n] pq by simp_all
  show "restore_one (root l) (bk l p) fs = copy_file (bk l p) p fs"
    using n(1) by (simp add: restore_one_def bk_def pq path_name_def)
  show "restore_one (root l) (tomb l p) fs = unlink_file p fs"
    using n by (simp add: restore_one_def tomb_def bk_def pq path_name_def with_suffix_def butlast_append Let_def suffix_def)
qed


lemma bk_own: "strict_prefix (backup_dir (root l)) b \<Longrightarrow> b \<in> own l"
  by (auto simp: own_def backup_dir_def dest: prefix_order.less_imp_le append_prefixD)

lemma strict_append: "strict_prefix p (p @ q) \<longleftrightarrow> q \<noteq> []"
  by (auto simp: strict_prefix_def)

lemma bk_strict: "strict_prefix (root l) p \<Longrightarrow> strict_prefix (backup_dir (root l)) (bk l p) \<and> strict_prefix (backup_dir (root l)) (tomb l p)"
  using under_root[of l p] by (auto simp: bk_def tomb_def with_suffix_def butlast_append strict_append)

definition saved :: "lib \<Rightarrow> fs \<Rightarrow> path \<Rightarrow> path" where
  "saved l fs0 p = (if dget fs0 p = None then tomb l p else bk l p)"

definition backed :: "lib \<Rightarrow> path list \<Rightarrow> fs \<Rightarrow> fs \<Rightarrow> bool" where
  "backed l C fs0 fs = ((\<forall>p \<in> set C. dget fs (saved l fs0 p) = (case dget fs0 p of None \<Rightarrow> Some [] | Some c \<Rightarrow> Some c))
     \<and> (\<forall>b. strict_prefix (backup_dir (root l)) b \<longrightarrow> dget fs b \<noteq> None \<longrightarrow> (\<exists>p \<in> set C. b = saved l fs0 p)))"

lemma not_own: "coverable l C fs0 \<Longrightarrow> p \<in> set C \<Longrightarrow> p \<notin> own l"
  using covered(2) by (auto simp: own_def)

lemma saved_inj:
  assumes C: "coverable l C fs0" and p: "p \<in> set C" and q: "q \<in> set C" and e: "saved l fs0 p = saved l fs0 q"
  shows "p = q"
proof -
  obtain a n b m where pq: "p = root l @ a @ [n]" "q = root l @ b @ [m]"
    using under_root covered(1)[OF C p] covered(1)[OF C q] by metis
  have nm: "\<not> suffix TOMBSTONE_SUFFIX n" "\<not> suffix TOMBSTONE_SUFFIX m"
    using covered(7)[OF C p, of n] covered(7)[OF C q, of m] pq by simp_all
  from e nm show ?thesis
    by (auto simp: saved_def bk_def tomb_def pq with_suffix_def butlast_append suffix_def split: if_splits)
qed

lemma restore_step:
  assumes C: "coverable l C fs0" and p: "p \<in> set C" and b: "backed l C fs0 fs"
    and g: "same_but (set C) fs g" and s: "same_but (set C \<union> own l) fs0 fs"
  obtains g' where "restore_one (root l) (saved l fs0 p) g = Some g'" "same_but {p} g g'" "dget g' p = dget fs0 p"
proof -
  have "same_but (set C \<union> own l) fs0 g" using s g by (auto simp: same_but_def)
  from covered_open[OF C this p] have o: "\<not> is_dir g p" "\<not> blocked g p" by auto
  have own: "bk l p \<in> own l" using bk_own bk_strict covered(1)[OF C p] by blast
  show ?thesis
  proof (cases "dget fs0 p")
    case None
    then have "restore_one (root l) (saved l fs0 p) g = Some (ddel p g)"
      using o by (simp add: saved_def restore_target[OF C p] unlink_file_def)
    then show ?thesis using None by (intro that[of "ddel p g"]) (simp_all add: same_but_def)
  next
    case (Some c)
    have "dget fs (bk l p) = Some c" using b p Some by (auto simp: backed_def saved_def)
    moreover have "dget g (bk l p) = dget fs (bk l p)"
      using g own not_own[OF C, of "bk l p"] by (auto simp: same_but_def)
    ultimately have "restore_one (root l) (saved l fs0 p) g = Some (dset p c g)"
      using o Some by (simp add: saved_def restore_target[OF C p] copy_file_def write_file_def)
    then show ?thesis using Some by (intro that[of "dset p c g"]) (simp_all add: same_but_def)
  qed
qed

lemma tried_Some: "f s = Some s' \<Longrightarrow> tried f s = (s', True)"
  by (simp add: tried_def)

lemma restore_list:
  assumes C: "coverable l C fs0" and b: "backed l C fs0 fs" and s: "same_but (set C \<union> own l) fs0 fs"
  shows "set bs \<subseteq> saved l fs0 ` set C \<Longrightarrow> same_but (set C) fs g \<Longrightarrow>
    \<exists>g'. run_all (map (\<lambda>b. tried (restore_one (root l) b)) bs) g = (g', True) \<and> same_but (set C) fs g'
      \<and> (\<forall>p \<in> set C. dget g p = dget fs0 p \<or> saved l fs0 p \<in> set bs \<longrightarrow> dget g' p = dget fs0 p)"
proof (induction bs arbitrary: g)
  case (Cons b' bs)
  then obtain p where p: "p \<in> set C" "b' = saved l fs0 p" by auto
  obtain g1 where g1: "restore_one (root l) b' g = Some g1" "same_but {p} g g1" "dget g1 p = dget fs0 p"
    using restore_step[OF C p(1) b Cons.prems(2) s] p(2) by blast
  have "same_but (set C) fs g1" using Cons.prems(2) g1(2) p(1) by (auto simp: same_but_def)
  from Cons.IH[OF _ this] Cons.prems(1) obtain g' where g': "run_all (map (\<lambda>b. tried (restore_one (root l) b)) bs) g1 = (g', True)"
    "same_but (set C) fs g'" "\<forall>p \<in> set C. dget g1 p = dget fs0 p \<or> saved l fs0 p \<in> set bs \<longrightarrow> dget g' p = dget fs0 p" by auto
  have inj: "q = p" if "q \<in> set C" "saved l fs0 q = b'" for q
    using saved_inj[OF C that(1) p(1)] that(2) p(2) by simp
  have "dget g' q = dget fs0 q" if q: "q \<in> set C" "dget g q = dget fs0 q \<or> saved l fs0 q \<in> set (b' # bs)" for q
  proof (cases "q = p")
    case False
    then have "dget g1 q = dget g q" using g1(2) by (simp add: same_but_def)
    then show ?thesis using g'(3) q inj[OF q(1)] False by auto
  qed (use g'(3) g1(3) q in auto)
  moreover have "run_all (map (\<lambda>b. tried (restore_one (root l) b)) (b' # bs)) g = (g', True)"
    using g'(1) by (simp add: tried_Some[of "restore_one (root l) b'", OF g1(1)])
  ultimately show ?case using g'(2) by blast
qed simp


lemma restore_backup_restores:
  assumes C: "coverable l C fs0" and b: "backed l C fs0 fs" and s: "same_but (set C \<union> own l) fs0 fs"
  shows "\<exists>fs'. restore_backup (root l) fs = (fs', True) \<and> same_but (set C) fs fs' \<and> (\<forall>p \<in> set C. dget fs' p = dget fs0 p)"
proof -
  let ?bs = "backup_files (root l) fs"
  have "set ?bs \<subseteq> saved l fs0 ` set C"
  proof
    fix x assume "x \<in> set ?bs"
    then have x: "strict_prefix (backup_dir (root l)) x" "dget fs x \<noteq> None" by (simp_all add: backup_files_def dget_None_iff)
    then have "\<exists>p \<in> set C. x = saved l fs0 p" using b unfolding backed_def by blast
    then show "x \<in> saved l fs0 ` set C" by blast
  qed
  moreover have "saved l fs0 p \<in> set ?bs" if p: "p \<in> set C" for p
  proof -
    have "dget fs (saved l fs0 p) \<noteq> None" using b p by (auto simp: backed_def split: option.splits)
    then have "saved l fs0 p \<in> set (dkeys fs)" by (simp add: dget_None_iff)
    then show ?thesis using bk_strict[OF covered(1)[OF C p]] by (simp add: backup_files_def saved_def)
  qed
  ultimately show ?thesis
    using restore_list[OF C b s, of ?bs fs] unfolding restore_backup_def by (metis same_but_refl)
qed


lemma strict_snoc: "strict_prefix p (q @ [n]) \<longleftrightarrow> prefix p q"
  by (auto simp: strict_prefix_def prefix_snoc)

lemma strict_in: "strict_prefix (r @ x) (r @ b @ [m]) \<longleftrightarrow> prefix x b"
  by (metis append.assoc same_prefix_prefix strict_snoc)

lemma backup_own: "{b. strict_prefix (backup_dir (root l)) b} \<subseteq> own l"
  using bk_own by blast

lemma saved_no_nest:
  assumes C: "coverable l C fs0" and p: "p \<in> set C" and q: "q \<in> set C"
  shows "\<not> strict_prefix (saved l fs0 p) (saved l fs0 q)"
proof
  assume s: "strict_prefix (saved l fs0 p) (saved l fs0 q)"
  obtain a n b m where pq: "p = root l @ a @ [n]" "q = root l @ b @ [m]"
    using under_root covered(1)[OF C p] covered(1)[OF C q] by metis
  have n: "n @ TOMBSTONE_SUFFIX \<notin> set b" using covered(7)[OF C q, of "n @ TOMBSTONE_SUFFIX"] pq by (auto simp: suffix_def)
  from s have "prefix (a @ [n]) b \<or> prefix (a @ [n @ TOMBSTONE_SUFFIX]) b"
    by (auto simp: saved_def bk_def tomb_def pq with_suffix_def butlast_append strict_in split: if_splits)
  moreover have "\<not> prefix (a @ [n]) b" using covered(6)[OF C p q] pq by (simp add: strict_in)
  moreover have "\<not> prefix (a @ [n @ TOMBSTONE_SUFFIX]) b" using n by (auto simp: prefix_def)
  ultimately show False by blast
qed

definition backing :: "lib \<Rightarrow> path set \<Rightarrow> fs \<Rightarrow> fs \<Rightarrow> bool" where
  "backing l D fs0 fs = ((\<forall>p \<in> D. dget fs (saved l fs0 p) = (case dget fs0 p of None \<Rightarrow> Some [] | Some c \<Rightarrow> Some c))
     \<and> (\<forall>b. strict_prefix (backup_dir (root l)) b \<longrightarrow> dget fs b \<noteq> None \<longrightarrow> (\<exists>p \<in> D. b = saved l fs0 p))
     \<and> same_but {b. strict_prefix (backup_dir (root l)) b} fs0 fs)"

lemma saved_strict: "coverable l C fs0 \<Longrightarrow> p \<in> set C \<Longrightarrow> strict_prefix (backup_dir (root l)) (saved l fs0 p)"
  using bk_strict[OF covered(1)] by (simp add: saved_def)

lemma backing_open:
  assumes C: "coverable l C fs0" and D: "D \<subseteq> set C" and b: "backing l D fs0 g" and p: "p \<in> set C"
  shows "\<not> is_dir g (saved l fs0 p) \<and> \<not> blocked g (saved l fs0 p)"
proof -
  note st = saved_strict[OF C p]
  have "dget g q = None" if q: "strict_prefix (saved l fs0 p) q" for q
  proof (rule ccontr)
    assume "dget g q \<noteq> None"
    moreover have "strict_prefix (backup_dir (root l)) q" using st q by (rule prefix_order.less_trans)
    ultimately obtain p' where "p' \<in> D" "q = saved l fs0 p'" using b by (auto simp: backing_def)
    then show False using saved_no_nest[OF C p, of p'] D q by auto
  qed
  moreover have "dget g q = None" if q: "strict_prefix q (saved l fs0 p)" for q
  proof (rule ccontr)
    assume d: "dget g q \<noteq> None"
    consider "strict_prefix (backup_dir (root l)) q" | "prefix q (backup_dir (root l))"
      using st q by (metis prefix_order.less_imp_le prefix_order.le_less prefix_same_cases)
    then show False
    proof cases
      case 1
      then obtain p' where "p' \<in> D" "q = saved l fs0 p'" using b d by (auto simp: backing_def)
      then show False using saved_no_nest[OF C _ p, of p'] D q by auto
    next
      case 2
      then have "\<not> strict_prefix (backup_dir (root l)) q" by (auto simp: strict_prefix_def dest: prefix_order.antisym)
      then have "dget fs0 q \<noteq> None" using b d by (auto simp: backing_def same_but_def)
      then have "path_exists fs0 (backup_dir (root l)) \<or> blocked fs0 (backup_dir (root l))"
        using 2 by (cases "q = backup_dir (root l)") (auto simp: path_exists_def is_file_def blocked_iff strict_prefix_def)
      then show False using C by (simp add: coverable_def)
    qed
  qed
  moreover have "saved l fs0 p \<noteq> []" using st by auto
  ultimately show ?thesis by (auto simp: is_dir_iff blocked_iff)
qed

lemma backup_one_ok:
  assumes C: "coverable l C fs0" and D: "D \<subseteq> set C" and b: "backing l D fs0 g" and p: "p \<in> set C"
  shows "\<exists>g'. backup_one (root l) p g = Some g' \<and> backing l (insert p D) fs0 g'"
proof -
  let ?c = "case dget fs0 p of None \<Rightarrow> [] | Some c \<Rightarrow> c" and ?g = "dset (saved l fs0 p) (case dget fs0 p of None \<Rightarrow> [] | Some c \<Rightarrow> c) g"
  have ns: "\<not> strict_prefix (backup_dir (root l)) p" using not_own[OF C p] bk_own by blast
  then have dp: "dget g p = dget fs0 p" using b by (auto simp: backing_def same_but_def)
  have "same_but {b. strict_prefix (backup_dir (root l)) b} fs0 g" using b by (simp add: backing_def)
  then have "same_but (set C \<union> own l) fs0 g" using backup_own by (rule same_but_mono[OF _ subset_trans]) blast
  from covered_open[OF C this p] have nd: "\<not> is_dir g p" by blast
  have "prefix (root l) p" using covered(1)[OF C p] by (simp add: strict_prefix_def)
  then have "backup_one (root l) p g = Some ?g"
    using nd dp backing_open[OF C D b p]
    by (cases "dget fs0 p") (simp_all add: backup_one_def Let_def is_file_def copy_file_def write_file_def saved_def bk_def tomb_def)
  moreover have "backing l (insert p D) fs0 ?g"
  proof -
    have "dget ?g (saved l fs0 q) = (case dget fs0 q of None \<Rightarrow> Some [] | Some c \<Rightarrow> Some c)" if "q \<in> insert p D" for q
    proof (cases "q = p")
      case False
      then have "saved l fs0 q \<noteq> saved l fs0 p" using saved_inj[OF C _ p, of q] that D by auto
      then show ?thesis using False that b by (simp add: backing_def)
    qed (simp split: option.split)
    then show ?thesis using b saved_strict[OF C p] by (auto simp: backing_def same_but_def)
  qed
  ultimately show ?thesis by blast
qed

lemma create_backup_list:
  assumes C: "coverable l C fs0"
  shows "set ps \<subseteq> set C \<Longrightarrow> D \<subseteq> set C \<Longrightarrow> backing l D fs0 g \<Longrightarrow>
     \<exists>g'. create_backup (root l) ps g = (g', True) \<and> backing l (D \<union> set ps) fs0 g'"
proof (induction ps arbitrary: g D)
  case (Cons p ps)
  then obtain g1 where g1: "backup_one (root l) p g = Some g1" "backing l (insert p D) fs0 g1"
    using backup_one_ok[OF C Cons.prems(2,3), of p] by auto
  have "insert p D \<subseteq> set C" using Cons.prems by simp
  from Cons.IH[OF _ this g1(2)] Cons.prems obtain g' where "create_backup (root l) ps g1 = (g', True)" "backing l (insert p D \<union> set ps) fs0 g'"
    by auto
  then show ?case using tried_Some[of "backup_one (root l) p", OF g1(1)] by (simp add: create_backup_def)
qed (simp add: create_backup_def)

lemma create_backup_backs:
  assumes C: "coverable l C fs0"
  shows "\<exists>fs. create_backup (root l) C fs0 = (fs, True) \<and> backed l C fs0 fs \<and> same_but (own l) fs0 fs"
proof -
  have "dget fs0 b = None" if "strict_prefix (backup_dir (root l)) b" for b
    using C that by (auto simp: coverable_def path_exists_def is_dir_iff)
  then have "backing l {} fs0 fs0" by (simp add: backing_def)
  from create_backup_list[OF C subset_refl _ this] obtain fs where "create_backup (root l) C fs0 = (fs, True)" "backing l (set C) fs0 fs" by auto
  moreover from this(2) have "same_but (own l) fs0 fs" using same_but_mono[OF _ backup_own] by (simp add: backing_def)
  ultimately show ?thesis by (auto simp: backing_def backed_def)
qed

section \<open>Every step can be undone\<close>

definition backup_tree :: "lib \<Rightarrow> path set" where
  "backup_tree l = {b. prefix (backup_dir (root l)) b}"

text \<open>
  \<open>undoable X\<close>: outside \<open>X\<close>, which lies in the engine's directory and holds the backup, only covered
  paths differ from the start, the backup is complete, and what was added is covered.
\<close>

definition undoable :: "lib \<Rightarrow> path list \<Rightarrow> path set \<Rightarrow> fs \<Rightarrow> fs \<Rightarrow> bool" where
  "undoable l C X fs0 fs = (coverable l C fs0 \<and> backup_tree l \<subseteq> X \<and> X \<subseteq> own l
     \<and> same_but (set C \<union> X) fs0 fs \<and> backed l C fs0 fs)"

lemma same_but_own: "same_but (A \<union> X) fs0 fs \<Longrightarrow> X \<subseteq> own l \<Longrightarrow> same_but (A \<union> own l) fs0 fs"
  by (erule same_but_mono) blast

lemma undoable_open: "undoable l C X fs0 fs \<Longrightarrow> p \<in> set C \<Longrightarrow> \<not> is_dir fs p \<and> \<not> blocked fs p"
  using covered_open[of l C fs0 fs p] same_but_own[of "set C" X fs0 fs l] by (auto simp: undoable_def)

lemma strict_in_tree: "strict_prefix (backup_dir (root l)) b \<Longrightarrow> b \<in> backup_tree l"
  by (simp add: backup_tree_def strict_prefix_def)

lemma backed_cong: "backed l C fs0 fs \<Longrightarrow> coverable l C fs0 \<Longrightarrow> \<forall>b \<in> backup_tree l. dget fs' b = dget fs b \<Longrightarrow> backed l C fs0 fs'"
  unfolding backed_def using saved_strict strict_in_tree by (metis (no_types, lifting))

text \<open>A change of covered paths and of paths in \<open>X\<close> outside the backup keeps it.\<close>

lemma undoable_change:
  assumes u: "undoable l C X fs0 fs" and k: "same_but K fs fs'" "K \<inter> backup_tree l = {}"
    and o': "\<And>p. p \<in> K \<Longrightarrow> p \<in> set C \<or> p \<in> X \<or> dget fs' p = dget fs0 p"
  shows "undoable l C X fs0 fs'"
proof -
  have "dget fs' b = dget fs b" if "b \<in> backup_tree l" for b
    using k that by (auto simp: same_but_def)
  then have "backed l C fs0 fs'" using u backed_cong by (auto simp: undoable_def)
  moreover have "dget fs' p = dget fs0 p" if p: "p \<notin> set C \<union> X" for p
  proof (cases "p \<in> K")
    case True
    then show ?thesis using o'[OF True] p by auto
  next
    case False
    then have "dget fs' p = dget fs p" using k(1) by (simp add: same_but_def)
    then show ?thesis using u p by (auto simp: undoable_def same_but_def)
  qed
  then have "same_but (set C \<union> X) fs0 fs'" by (simp add: same_but_def)
  ultimately show ?thesis using u by (simp add: undoable_def)
qed

lemma tree_own: "backup_tree l \<subseteq> own l"
  by (auto simp: backup_tree_def own_def backup_dir_def dest: append_prefixD)

lemma undoable_dset: "undoable l C X fs0 fs \<Longrightarrow> p \<in> set C \<union> (X - backup_tree l) \<Longrightarrow> undoable l C X fs0 (dset p c fs)"
proof (rule undoable_change[of l C X fs0 fs "{p}"])
  assume "undoable l C X fs0 fs" "p \<in> set C \<union> (X - backup_tree l)"
  then show "{p} \<inter> backup_tree l = {}" using not_own[of l C fs0 p] tree_own[of l] by (auto simp: undoable_def)
qed (auto simp: same_but_def)

lemma undoable_ddel: "undoable l C X fs0 fs \<Longrightarrow> p \<in> set C \<Longrightarrow> undoable l C X fs0 (ddel p fs)"
proof (rule undoable_change[of l C X fs0 fs "{p}"])
  assume "undoable l C X fs0 fs" "p \<in> set C"
  then show "{p} \<inter> backup_tree l = {}" using not_own[of l C fs0 p] tree_own[of l] by (auto simp: undoable_def)
qed (auto simp: same_but_def)

lemma tmp_outside:
  assumes p: "strict_prefix (root l) p" "p \<notin> own l"
  shows "tmp p \<notin> own l"
proof -
  obtain q n where pq: "p = root l @ q @ [n]" using under_root[OF p(1)] by blast
  have t: "tmp p = root l @ q @ [n @ ''.tmp'']" by (simp add: tmp_def with_suffix_def pq butlast_append)
  show ?thesis
  proof (cases q)
    case Nil
    have "n @ ''.tmp'' \<noteq> ''.evoclaw''"
    proof
      assume "n @ ''.tmp'' = ''.evoclaw''"
      then have "last (n @ ''.tmp'') = last ''.evoclaw''" by simp
      then show False by simp
    qed
    then show ?thesis using Nil by (auto simp: t own_def evoclaw_dir_def)
  next
    case (Cons c q')
    then show ?thesis using p(2) unfolding own_def mem_Collect_eq t by (simp add: pq evoclaw_dir_def)
  qed
qed

lemma undoable_atomic:
  assumes u: "undoable l C X fs0 fs" and p: "p \<in> set C" and a: "atomic_write p c fs = (fs', b)"
  shows "undoable l C X fs0 fs'"
proof (rule undoable_change[OF u, of "{p, tmp p}"])
  have C: "coverable l C fs0" using u by (simp add: undoable_def)
  note e = atomic_write_effect[OF a] and own = not_own[OF C p] tmp_outside[OF covered(1)[OF C p] not_own[OF C p]]
  show "same_but {p, tmp p} fs fs'" using e by (auto simp: same_but_def)
  show "{p, tmp p} \<inter> backup_tree l = {}" using own tree_own by blast
  have "p \<noteq> []" using covered(1)[OF C p] by (auto simp: strict_prefix_def)
  then have ne: "p \<noteq> tmp p" using tmp_neq[of p] by simp
  fix q assume "q \<in> {p, tmp p}"
  then consider "q \<in> set C" | "q = tmp p" "tmp p \<notin> set C" using p by auto
  then show "q \<in> set C \<or> q \<in> X \<or> dget fs' q = dget fs0 q"
  proof cases
    case 2
    then have "dget fs0 (tmp p) = None" using covered(5)[OF C p] by blast
    moreover have "dget fs (tmp p) = dget fs0 (tmp p)" using u 2 own by (auto simp: undoable_def same_but_def)
    ultimately show ?thesis using e ne 2 by auto
  qed simp
qed

lemma undoable_restore:
  assumes u: "undoable l C X fs0 fs"
  shows "\<exists>fs'. restore_and_clear l fs = (fs', True) \<and> same_but X fs0 fs'"
    and "\<exists>fs'. restore_backup (root l) fs = (fs', True) \<and> same_but X fs0 fs' \<and> undoable l C X fs0 fs'"
proof -
  have u': "coverable l C fs0" "backed l C fs0 fs" "same_but (set C \<union> own l) fs0 fs" "backup_tree l \<subseteq> X"
    using u same_but_own[of "set C" X fs0 fs l] by (auto simp: undoable_def)
  obtain fs' where r: "restore_backup (root l) fs = (fs', True)" "same_but (set C) fs fs'" "\<forall>p \<in> set C. dget fs' p = dget fs0 p"
    using restore_backup_restores[OF u'(1-3)] by blast
  have s: "same_but X fs0 fs'" using r(2,3) u by (auto simp: undoable_def same_but_def)
  have "undoable l C X fs0 fs'"
    by (rule undoable_change[OF u r(2)]) (use not_own[OF u'(1)] tree_own in auto)
  with r(1) s show "\<exists>fs'. restore_backup (root l) fs = (fs', True) \<and> same_but X fs0 fs' \<and> undoable l C X fs0 fs'" by blast
  have "same_but X fs0 (clear_backup (root l) fs')"
    using s u'(4) by (auto simp: same_but_def clear_backup_def dget_remove_tree backup_tree_def)
  with r(1) show "\<exists>fs'. restore_and_clear l fs = (fs', True) \<and> same_but X fs0 fs'" by (simp add: restore_and_clear_def)
qed

lemma undoable_unlink:
  "undoable l C X fs0 fs \<Longrightarrow> set ps \<subseteq> set C \<Longrightarrow> \<exists>fs'. unlink_added ps fs = (fs', True) \<and> undoable l C X fs0 fs'"
proof (induction ps arbitrary: fs)
  case (Cons p ps)
  have "unlink_file p fs = Some (ddel p fs)" using undoable_open[OF Cons.prems(1), of p] Cons.prems(2) by (simp add: unlink_file_def)
  moreover have "undoable l C X fs0 (ddel p fs)" using Cons.prems by (intro undoable_ddel) auto
  ultimately show ?case using Cons.IH[of "ddel p fs"] Cons.prems(2) by (auto simp: unlink_added_def tried_def)
qed (simp add: unlink_added_def)

section \<open>Steps\<close>

text \<open>What a step must give: it stays undoable, also where it raises, or it has undone everything.\<close>

definition undo_step :: "lib \<Rightarrow> path list \<Rightarrow> path set \<Rightarrow> fs \<Rightarrow> (work \<Rightarrow> work \<times> apply_result option) \<Rightarrow> bool" where
  "undo_step l C X fs0 f = (\<forall>w w' r. f w = (w', r) \<longrightarrow> undoable l C X fs0 (wk_fs w) \<longrightarrow> set (wk_added w) \<subseteq> set C \<longrightarrow>
     (if r = None \<or> r = Some Raised then undoable l C X fs0 (wk_fs w') \<and> set (wk_added w') \<subseteq> set C
      else (\<exists>d. r = Some (Applied d)) \<or> same_but X fs0 (wk_fs w')))"

lemma undo_stepI:
  "(\<And>w w' r. f w = (w', r) \<Longrightarrow> undoable l C X fs0 (wk_fs w) \<Longrightarrow> set (wk_added w) \<subseteq> set C \<Longrightarrow>
     (if r = None \<or> r = Some Raised then undoable l C X fs0 (wk_fs w') \<and> set (wk_added w') \<subseteq> set C
      else (\<exists>d. r = Some (Applied d)) \<or> same_but X fs0 (wk_fs w'))) \<Longrightarrow> undo_step l C X fs0 f"
  unfolding undo_step_def by blast

lemma undo_run_steps: "\<forall>f \<in> set fs. undo_step l C X fs0 f \<Longrightarrow> undo_step l C X fs0 (run_steps fs)"
proof (induction fs)
  case Nil
  show ?case by (rule undo_stepI) auto
next
  case (Cons f fs)
  show ?case
  proof (rule undo_stepI)
    fix w w' r assume h: "run_steps (f # fs) w = (w', r)" "undoable l C X fs0 (wk_fs w)" "set (wk_added w) \<subseteq> set C"
    obtain w1 r1 where f: "f w = (w1, r1)" by fastforce
    have s: "undo_step l C X fs0 f" "undo_step l C X fs0 (run_steps fs)" using Cons by simp_all
    note s1 = s(1)[unfolded undo_step_def, rule_format, OF f h(2,3)]
    show "if r = None \<or> r = Some Raised then undoable l C X fs0 (wk_fs w') \<and> set (wk_added w') \<subseteq> set C
      else (\<exists>d. r = Some (Applied d)) \<or> same_but X fs0 (wk_fs w')"
    proof (cases r1)
      case None
      with s1 have "undoable l C X fs0 (wk_fs w1)" "set (wk_added w1) \<subseteq> set C" by simp_all
      moreover have "run_steps fs w1 = (w', r)" using h(1) f None by simp
      ultimately show ?thesis using s(2)[unfolded undo_step_def, rule_format] by blast
    next
      case (Some x)
      then have "w' = w1" "r = r1" using h(1) f by simp_all
      with s1 show ?thesis by simp
    qed
  qed
qed

lemma undo_on_files:
  assumes "\<And>fs fs' b. undoable l C X fs0 fs \<Longrightarrow> f fs = (fs', b) \<Longrightarrow> undoable l C X fs0 fs'"
  shows "undo_step l C X fs0 (on_files f)"
  by (rule undo_stepI) (auto simp: on_files_def Let_def split: prod.splits if_splits dest: assms)

lemma undoable_inner_atomic:
  assumes u: "undoable l C X fs0 fs" and p: "p \<in> X - backup_tree l" "tmp p \<in> X - backup_tree l" and a: "atomic_write p c fs = (fs', b)"
  shows "undoable l C X fs0 fs'"
  by (rule undoable_change[OF u, of "{p, tmp p}"]) (use p atomic_write_effect[OF a] in \<open>auto simp: same_but_def\<close>)

lemma state_paths: "state_path l \<in> own l - backup_tree l" "tmp (state_path l) \<in> own l - backup_tree l" "tmp (state_path l) \<noteq> state_path l"
  by (simp_all add: state_path_def own_def backup_tree_def backup_dir_def tmp_def with_suffix_def)

lemma base_path:
  assumes "''..'' \<notin> set (root l)" "valid_relative_path s"
  shows "at (base_dir (root l)) s \<in> own l - backup_tree l - {state_path l}"
proof -
  have "at (base_dir (root l)) s = base_dir (root l) @ parts s"
    using assms by (simp add: at_inside collapse_id base_dir_def evoclaw_dir_def)
  then show ?thesis by (auto simp: own_def backup_tree_def backup_dir_def state_path_def base_dir_def)
qed

lemma undo_update_state: "undoable l C (own l) fs0 fs \<Longrightarrow> update_state l f fs = (fs', b) \<Longrightarrow> undoable l C (own l) fs0 fs'"
  using undoable_inner_atomic[of l C "own l" fs0 _ "state_path l"] state_paths[of l]
  by (auto simp: update_state_def write_state_def split: option.splits)

lemma failed_update_state: "undoable l C (own l - {state_path l}) fs0 fs \<Longrightarrow> update_state l f fs = (fs', False)
    \<Longrightarrow> undoable l C (own l - {state_path l}) fs0 fs'"
proof -
  assume u: "undoable l C (own l - {state_path l}) fs0 fs" and s: "update_state l f fs = (fs', False)"
  have "same_but {tmp (state_path l)} fs fs'"
    using s state_paths(3)[of l]
    by (auto simp: update_state_def write_state_def atomic_write_def same_but_def dest!: write_file_Some split: option.splits)
  then show ?thesis by (rule undoable_change[OF u]) (use state_paths[of l] in auto)
qed

lemma undo_merge_one:
  assumes u: "undoable l C X fs0 fs" and p: "at (root l) (resolve_path_remap rel remap) \<in> set C"
    and b: "at (base_dir (root l)) (resolve_path_remap rel remap) \<in> X - backup_tree l"
    and m: "merge_one l sd remap rel fs = (fs', r)"
  shows "undoable l C X fs0 fs'"
proof -
  let ?cur = "at (root l) (resolve_path_remap rel remap)" and ?b = "at (base_dir (root l)) (resolve_path_remap rel remap)"
  have cur: "undoable l C X fs0 (dset ?cur c g)" if "undoable l C X fs0 g" for c g using that p by (intro undoable_dset) auto
  have base: "undoable l C X fs0 (dset ?b c g)" if "undoable l C X fs0 g" for c g using that b by (intro undoable_dset) auto
  show ?thesis using m u
    by (auto simp: merge_one_def Let_def copy_file_def cur base dest!: write_file_Some split: if_splits option.splits)
qed

lemma undo_merge_all:
  "undoable l C X fs0 fs \<Longrightarrow> \<forall>rel \<in> set rels. at (root l) (resolve_path_remap rel remap) \<in> set C
      \<and> at (base_dir (root l)) (resolve_path_remap rel remap) \<in> X - backup_tree l
    \<Longrightarrow> merge_all l sd remap rels fs = (fs', r) \<Longrightarrow> undoable l C X fs0 fs'"
proof (induction rels arbitrary: fs fs' r)
  case (Cons rel rels)
  obtain g ok where g: "merge_one l sd remap rel fs = (g, ok)" by fastforce
  have u: "undoable l C X fs0 g" using undo_merge_one[OF Cons.prems(1) _ _ g] Cons.prems(2) by simp
  obtain h cs where h: "merge_all l sd remap rels g = (h, cs)" by fastforce
  have "undoable l C X fs0 h" using Cons.IH[OF u _ h] Cons.prems(2) by simp
  then show ?case using Cons.prems(3) g h u by (auto split: option.splits)
qed simp

text \<open>A step that ends by restoring the backup.\<close>

lemma restore_result:
  assumes "undoable l C X fs0 fs" "restore_and_clear l fs = (fs', ok)"
  shows "ok \<and> same_but X fs0 fs'"
  using undoable_restore(1)[OF assms(1)] assms(2) by auto

lemma unlink_restore_result:
  assumes "undoable l C X fs0 fs" "set ps \<subseteq> set C" "run_all [unlink_added ps, restore_and_clear l] fs = (fs', ok)"
  shows "ok \<and> same_but X fs0 fs'"
proof -
  obtain g where g: "unlink_added ps fs = (g, True)" "undoable l C X fs0 g" using undoable_unlink[OF assms(1,2)] by blast
  obtain h where "restore_and_clear l g = (h, True)" "same_but X fs0 h" using undoable_restore(1)[OF g(2)] by blast
  with g(1) assms(3) show ?thesis by simp
qed

definition plain :: "manifest \<Rightarrow> bool" where
  "plain m = (mf_ops m = [] \<and> mf_tools m = []
     \<and> (case as_map (mf_structured m) of None \<Rightarrow> True | Some s \<Rightarrow> \<not> ytrue (yget ''npm_dependencies'' s)))"

definition harmless :: "lib \<Rightarrow> bool" where
  "harmless l = (\<forall>c fs. fst (run_command l c fs) = fs)"

lemma undo_backup_step:
  assumes C: "coverable l C fs0" and X: "backup_tree l \<subseteq> X" "X \<subseteq> own l"
  shows "\<exists>w. on_files (create_backup (root l) C) \<lparr>wk_fs = fs0, wk_added = []\<rparr> = (w, None) \<and> undoable l C X fs0 (wk_fs w) \<and> wk_added w = []"
proof -
  have "dget fs0 b = None" if "strict_prefix (backup_dir (root l)) b" for b
    using C that by (auto simp: coverable_def path_exists_def is_dir_iff)
  then have "backing l {} fs0 fs0" by (simp add: backing_def)
  from create_backup_list[OF C subset_refl _ this] obtain fs where fs: "create_backup (root l) C fs0 = (fs, True)" "backing l (set C) fs0 fs" by auto
  have "{b. strict_prefix (backup_dir (root l)) b} \<subseteq> set C \<union> X" using X(1) strict_in_tree by blast
  then have "same_but (set C \<union> X) fs0 fs" using fs(2) same_but_mono by (auto simp: backing_def)
  then have "undoable l C X fs0 fs" using fs(2) C X by (auto simp: undoable_def backed_def backing_def)
  with fs(1) show ?thesis by (simp add: on_files_def)
qed

lemma undo_add_one:
  assumes "at (root l) (resolve_path_remap rel remap) \<in> set C"
  shows "undo_step l C X fs0 (add_one l sd remap rel)"
proof (rule undo_stepI)
  fix w w' r
  assume h: "add_one l sd remap rel w = (w', r)" "undoable l C X fs0 (wk_fs w)" "set (wk_added w) \<subseteq> set C"
  show "if r = None \<or> r = Some Raised then undoable l C X fs0 (wk_fs w') \<and> set (wk_added w') \<subseteq> set C
      else (\<exists>d. r = Some (Applied d)) \<or> same_but X fs0 (wk_fs w')"
    using h assms undoable_atomic[OF h(2) assms]
    by (auto simp: add_one_def Let_def on_files_def split: if_splits option.splits prod.splits)
qed

lemma undo_env: "root l @ [''.env.example''] \<in> set C \<Longrightarrow> undo_step l C X fs0 (on_files (env_step l env))"
proof (rule undo_on_files)
  fix fs fs' b
  assume p: "root l @ [''.env.example''] \<in> set C" and h: "undoable l C X fs0 fs" "env_step l env fs = (fs', b)"
  show "undoable l C X fs0 fs'" using h undoable_atomic[OF h(1) p]
    by (auto simp: env_step_def Let_def split: if_splits option.splits)
qed

lemma undo_post_one: "harmless l \<Longrightarrow> undo_step l C X fs0 (post_one l cmd)"
proof (rule undo_stepI)
  fix w w' r
  assume l: "harmless l" and h: "post_one l cmd w = (w', r)" "undoable l C X fs0 (wk_fs w)" "set (wk_added w) \<subseteq> set C"
  obtain res where c: "run_command l cmd (wk_fs w) = (wk_fs w, res)" using l by (metis harmless_def prod.collapse)
  obtain g ok where g: "run_all [unlink_added (wk_added w), restore_and_clear l] (wk_fs w) = (g, ok)" by fastforce
  note u = unlink_restore_result[OF h(2,3) g]
  show "if r = None \<or> r = Some Raised then undoable l C X fs0 (wk_fs w') \<and> set (wk_added w') \<subseteq> set C
      else (\<exists>d. r = Some (Applied d)) \<or> same_but X fs0 (wk_fs w')"
    using h c g u by (cases res) (auto simp: post_one_def Let_def split: if_splits)
qed

lemma undo_merge_step:
  assumes "\<forall>rel \<in> set (mf_modifies m). at (root l) (resolve_path_remap rel remap) \<in> set C
      \<and> at (base_dir (root l)) (resolve_path_remap rel remap) \<in> X - backup_tree l"
  shows "undo_step l C X fs0 (merge_step l sd m remap drift)"
proof (rule undo_stepI)
  fix w w' r
  assume h: "merge_step l sd m remap drift w = (w', r)" "undoable l C X fs0 (wk_fs w)" "set (wk_added w) \<subseteq> set C"
  obtain g cs where g: "merge_all l sd remap (mf_modifies m) (wk_fs w) = (g, cs)" by fastforce
  note u = undo_merge_all[OF h(2) assms g]
  obtain k ok where k: "restore_and_clear l g = (k, ok)" by fastforce
  note res = restore_result[OF u k]
  show "if r = None \<or> r = Some Raised then undoable l C X fs0 (wk_fs w') \<and> set (wk_added w') \<subseteq> set C
      else (\<exists>d. r = Some (Applied d)) \<or> same_but X fs0 (wk_fs w')"
    using h g u k res by (auto simp: merge_step_def Let_def split: option.splits list.splits)
qed

lemma undo_test_step: "harmless l \<Longrightarrow> undo_step l C (own l) fs0 (test_step l m)"
proof (rule undo_stepI)
  fix w w' r
  assume l: "harmless l" and h: "test_step l m w = (w', r)" "undoable l C (own l) fs0 (wk_fs w)" "set (wk_added w) \<subseteq> set C"
  let ?upd = "update_state l (\<lambda>st. st\<lparr>ss_applied := without_skill (mf_skill m) (ss_applied st)\<rparr>)"
  obtain res where c: "run_command l (the (mf_test m)) (wk_fs w) = (wk_fs w, res)" using l by (metis harmless_def prod.collapse)
  obtain g where g: "unlink_added (wk_added w) (wk_fs w) = (g, True)" "undoable l C (own l) fs0 g" using undoable_unlink[OF h(2,3)] by blast
  obtain k where k: "restore_backup (root l) g = (k, True)" "same_but (own l) fs0 k" "undoable l C (own l) fs0 k"
    using undoable_restore(2)[OF g(2)] by blast
  obtain n ok where n: "?upd k = (n, ok)" by fastforce
  have un: "undoable l C (own l) fs0 n" by (rule undo_update_state[OF k(3) n])
  have "same_but {state_path l, tmp (state_path l)} k n"
    using n atomic_write_effect by (auto simp: update_state_def write_state_def same_but_def split: option.splits)
  then have "same_but (own l) k n" using state_paths[of l] by (auto elim: same_but_mono)
  with k(2) have "same_but (own l) fs0 n" by (rule same_but_trans)
  then have "same_but (own l) fs0 (clear_backup (root l) n)"
    using tree_own[of l] by (auto simp: same_but_def clear_backup_def dget_remove_tree backup_tree_def)
  then show "if r = None \<or> r = Some Raised then undoable l C (own l) fs0 (wk_fs w') \<and> set (wk_added w') \<subseteq> set C
      else (\<exists>d. r = Some (Applied d)) \<or> same_but (own l) fs0 (wk_fs w')"
    using h c g(1) k(1) n un by (cases res; cases ok) (auto simp: test_step_def Let_def split: if_splits)
qed

lemma run_steps_append: "run_steps (xs @ ys) s = (case run_steps xs s of (s', None) \<Rightarrow> run_steps ys s' | (s', Some r) \<Rightarrow> (s', Some r))"
  by (induction xs arbitrary: s) (auto split: prod.splits option.splits)

definition file_steps ::
  "lib \<Rightarrow> path \<Rightarrow> manifest \<Rightarrow> (string, string) dict \<Rightarrow> string list \<Rightarrow> (work \<Rightarrow> work \<times> apply_result option) list" where
  "file_steps l sd m remap drift = [ops_step l m, adds_step l sd m remap, tools_step l sd m, merge_step l sd m remap drift,
     structured_step l m] @ map (post_one l) (mf_post m)"

definition finish_step :: "lib \<Rightarrow> string list \<Rightarrow> work \<Rightarrow> work \<times> apply_result option" where
  "finish_step l drift w = (w\<lparr>wk_fs := clear_backup (root l) (wk_fs w)\<rparr>, Some (Applied drift))"

lemma apply_body_split: "apply_body l sd m remap drift = run_steps
    (on_files (create_backup (root l) (backup_paths l m remap)) # file_steps l sd m remap drift
      @ [record_step l m remap, test_step l m, finish_step l drift])"
  by (simp add: apply_body_def file_steps_def finish_step_def[abs_def])

lemma covered_members:
  "rel \<in> set (mf_adds m @ mf_modifies m) \<Longrightarrow> at (root l) (resolve_path_remap rel remap) \<in> set (backup_paths l m remap)"
  "root l @ [''.env.example''] \<in> set (backup_paths l m remap)"
  by (auto simp: backup_paths_def)

definition undo_ok :: "lib \<Rightarrow> manifest \<Rightarrow> (string, string) dict \<Rightarrow> fs \<Rightarrow> bool" where
  "undo_ok l m remap fs = (plain m \<and> harmless l \<and> coverable l (backup_paths l m remap) fs \<and> ''..'' \<notin> set (root l)
     \<and> list_all (\<lambda>rel. valid_relative_path (resolve_path_remap rel remap)) (mf_modifies m))"

lemma undo_file_steps:
  assumes o': "undo_ok l m remap fs" and X: "own l - {state_path l} \<subseteq> X" "X \<subseteq> own l"
  shows "\<forall>f \<in> set (file_steps l sd m remap drift). undo_step l (backup_paths l m remap) X fs f"
proof -
  let ?C = "backup_paths l m remap"
  have ops: "undo_step l ?C X fs (ops_step l m)" "undo_step l ?C X fs (tools_step l sd m)"
    using o' by (auto intro!: undo_stepI simp: undo_ok_def plain_def ops_step_def tools_step_def)
  have add: "undo_step l ?C X fs (adds_step l sd m remap)"
  proof (rule undo_stepI)
    fix w w' r assume h: "adds_step l sd m remap w = (w', r)" "undoable l ?C X fs (wk_fs w)" "set (wk_added w) \<subseteq> set ?C"
    have "undo_step l ?C X fs (run_steps (map (add_one l sd remap) (mf_adds m)))"
      by (rule undo_run_steps) (auto intro!: undo_add_one covered_members(1))
    then show "if r = None \<or> r = Some Raised then undoable l ?C X fs (wk_fs w') \<and> set (wk_added w') \<subseteq> set ?C
      else (\<exists>d. r = Some (Applied d)) \<or> same_but X fs (wk_fs w')"
      using h unfolding adds_step_def undo_step_def by (metis prod.inject)
  qed
  have "at (base_dir (root l)) (resolve_path_remap rel remap) \<in> X - backup_tree l" if "rel \<in> set (mf_modifies m)" for rel
    using base_path[of l "resolve_path_remap rel remap"] o' X that by (auto simp: undo_ok_def list_all_iff)
  then have merge: "undo_step l ?C X fs (merge_step l sd m remap drift)"
    by (intro undo_merge_step) (auto intro: covered_members)
  have env: "undo_step l ?C X fs (structured_step l m)"
  proof (rule undo_stepI)
    fix w w' r assume h: "structured_step l m w = (w', r)" "undoable l ?C X fs (wk_fs w)" "set (wk_added w) \<subseteq> set ?C"
    have "undo_step l ?C X fs (run_steps [on_files (npm_step l n), on_files (env_step l e)])" if "\<not> ytrue n" for n e
      using that by (intro undo_run_steps) (auto intro: undo_env covered_members undo_on_files simp: npm_step_def)
    then show "if r = None \<or> r = Some Raised then undoable l ?C X fs (wk_fs w') \<and> set (wk_added w') \<subseteq> set ?C
      else (\<exists>d. r = Some (Applied d)) \<or> same_but X fs (wk_fs w')"
      using h o' unfolding structured_step_def undo_ok_def plain_def undo_step_def
      by (auto split: option.splits if_splits)
  qed
  show ?thesis using ops add merge env o' by (auto simp: file_steps_def undo_ok_def intro: undo_post_one)
qed

text \<open>Backup and file steps on the files at the start.\<close>

lemma first_steps:
  assumes o': "undo_ok l m remap fs" and X: "own l - {state_path l} \<subseteq> X" "X \<subseteq> own l"
    and r: "run_steps (on_files (create_backup (root l) (backup_paths l m remap)) # file_steps l sd m remap drift)
      \<lparr>wk_fs = fs, wk_added = []\<rparr> = (w, r)"
  shows "if r = None \<or> r = Some Raised then undoable l (backup_paths l m remap) X fs (wk_fs w) \<and> set (wk_added w) \<subseteq> set (backup_paths l m remap)
      else (\<exists>d. r = Some (Applied d)) \<or> same_but X fs (wk_fs w)"
proof -
  have "backup_tree l \<subseteq> X" using X(1) tree_own[of l] state_paths(1)[of l] by auto
  then obtain w1 where w1: "on_files (create_backup (root l) (backup_paths l m remap)) \<lparr>wk_fs = fs, wk_added = []\<rparr> = (w1, None)"
    "undoable l (backup_paths l m remap) X fs (wk_fs w1)" "wk_added w1 = []"
    using undo_backup_step X(2) o' by (metis undo_ok_def)
  have "run_steps (file_steps l sd m remap drift) w1 = (w, r)" using r w1(1) by simp
  then show ?thesis using undo_run_steps[OF undo_file_steps[OF o' X]] w1(2,3) unfolding undo_step_def by (metis empty_subsetI list.set(1))
qed

lemma undo_record: "undo_step l C (own l) fs (record_step l m remap)"
proof (rule undo_stepI)
  fix w w' r assume h: "record_step l m remap w = (w', r)" "undoable l C (own l) fs (wk_fs w)" "set (wk_added w) \<subseteq> set C"
  then show "if r = None \<or> r = Some Raised then undoable l C (own l) fs (wk_fs w') \<and> set (wk_added w') \<subseteq> set C
      else (\<exists>d. r = Some (Applied d)) \<or> same_but (own l) fs (wk_fs w')"
    by (auto simp: record_step_def on_files_def record_skill_application_def Let_def dest: undo_update_state split: option.splits prod.splits if_splits)
qed

text \<open>A body that ends without success, and what the handler makes of it.\<close>

lemma apply_locked_result:
  assumes "apply_locked l sd m remap drift fs = (fs', r)" "\<forall>d. r \<noteq> Applied d"
    and "apply_body l sd m remap drift \<lparr>wk_fs = fs, wk_added = []\<rparr> = (w, res)"
      "res \<noteq> None"
    and b: "if res = None \<or> res = Some Raised then undoable l C X fs (wk_fs w) \<and> set (wk_added w) \<subseteq> set C
      else (\<exists>d. res = Some (Applied d)) \<or> same_but X fs (wk_fs w)"
  shows "same_but X fs fs'"
proof (cases "res = Some Raised")
  case True
  obtain g ok where g: "run_all [unlink_added (wk_added w), restore_and_clear l] (wk_fs w) = (g, ok)" by fastforce
  have "fs' = g" using assms(1,3) True g by (simp add: apply_locked_def)
  then show ?thesis using unlink_restore_result[OF _ _ g] b True by auto
next
  case False
  with assms(1,3,4) have "fs' = wk_fs w" "res = Some r" by (auto simp: apply_locked_def split: apply_result.splits option.splits)
  then show ?thesis using b False assms(2) by auto
qed


lemma body_ends: "apply_body l sd m remap drift w = (w', r) \<Longrightarrow> r \<noteq> None"
  unfolding apply_body_split append_Cons[symmetric] append.assoc[symmetric]
  by (auto simp: run_steps_append finish_step_def split: prod.splits option.splits)


definition demo_lib :: lib where
  "demo_lib = \<lparr>root = [''p''], data_dir = [''p'', ''data''], yaml_load = dec_doc, yaml_dump = enc, json_load = dec_doc, json_dump = enc,
     toml_load = (\<lambda>_. None), sha256 = (\<lambda>s. s), has_git = True, git_merge = (\<lambda>ours base theirs. (0, ours @ theirs)),
     git_baseline = (\<lambda>_ fs. fs), git_diff = (\<lambda>_ _. []), git_checkout = (\<lambda>_ fs. fs), unified_diff = (\<lambda>_ _ _. []),
     run_patch = (\<lambda>_ fs. fs),
     run_command = (\<lambda>c fs. (fs, if c = ''pytest'' then Exit_failure else if c = ''nosuch'' then Not_run else Passed)),
     now_iso = ''now'', now_stamp = ''now''\<rparr>"

definition demo_manifest :: manifest where
  "demo_manifest = \<lparr>mf_skill = ''s'', mf_version = ''1'', mf_core = ''1'', mf_adds = [''x.md''], mf_modifies = [''a.py''],
     mf_conflicts = [], mf_depends = [], mf_ops = [], mf_structured = Null, mf_test = None, mf_min = None, mf_post = [''pytest''], mf_tools = []\<rparr>"

definition demo_skill_state :: skill_state where
  "demo_skill_state = \<lparr>ss_system = ''0.1.0'', ss_core = ''1.0.0'', ss_applied = [], ss_mods = [], ss_remap = [], ss_rebased = None\<rparr>"

definition demo_fs :: fs where
  "demo_fs = [([''p'', ''a.py''], ''old''), ([''p'', ''.evoclaw'', ''base'', ''a.py''], ''old''),
     ([''p'', ''.evoclaw'', ''state.yaml''], enc (sort_maps (Map (state_to_dict demo_skill_state)))),
     ([''k'', ''add'', ''x.md''], ''text''), ([''k'', ''modify'', ''a.py''], ''new'')]"


definition never_applied :: "(work \<Rightarrow> work \<times> apply_result option) \<Rightarrow> bool" where
  "never_applied f = (\<forall>w w' d. f w \<noteq> (w', Some (Applied d)))"

lemma never_run_steps: "list_all never_applied fs \<Longrightarrow> never_applied (run_steps fs)"
proof (induction fs)
  case (Cons f fs)
  then show ?case by (auto simp: never_applied_def split: prod.splits option.splits)
qed (simp add: never_applied_def)

lemma never_on_files: "never_applied (on_files f)"
  by (auto simp: never_applied_def on_files_def Let_def split: prod.splits)

lemma never_add_one: "never_applied (add_one l sd remap rel)"
  using never_on_files by (auto simp: never_applied_def add_one_def Let_def split: option.splits if_splits)

lemma never_tool_one: "never_applied (tool_one l sd rel)"
  using never_on_files by (auto simp: never_applied_def tool_one_def Let_def split: option.splits if_splits)

lemma never_file_steps: "list_all never_applied (file_steps l sd m remap drift)"
proof -
  have "never_applied (ops_step l m)" by (auto simp: never_applied_def ops_step_def Let_def split: prod.splits if_splits)
  moreover have "never_applied (adds_step l sd m remap)"
    using never_run_steps[of "map (add_one l sd remap) (mf_adds m)"] never_add_one
    by (auto simp: never_applied_def adds_step_def list_all_iff)
  moreover have "never_applied (tools_step l sd m)"
    using never_run_steps[of "map (tool_one l sd) (mf_tools m)"] never_tool_one
    by (auto simp: never_applied_def tools_step_def list_all_iff)
  moreover have "never_applied (merge_step l sd m remap drift)"
    by (auto simp: never_applied_def merge_step_def Let_def split: prod.splits option.splits list.splits if_splits)
  moreover have "never_applied (structured_step l m)"
    using never_run_steps[of "[on_files (npm_step l n), on_files (env_step l e)]" for n e] never_on_files
    by (auto simp: never_applied_def structured_step_def split: option.splits)
  moreover have "never_applied (post_one l c)" for c
    by (auto simp: never_applied_def post_one_def Let_def split: prod.splits command_result.splits if_splits)
  ultimately show ?thesis by (simp add: file_steps_def list_all_iff)
qed

lemma write_then_read:
  assumes y: "\<forall>y. yaml_load l (yaml_dump l y) = Some y" and v: "compare_semver (ss_system st) SKILLS_SCHEMA_VERSION = Some c" "c \<le> 0"
    and w: "write_state l st fs = (fs', True)"
  shows "read_state l fs' = Some (norm_state st)"
proof -
  have "dget fs' (state_path l) = Some (yaml_dump l (sort_maps (Map (state_to_dict st))))"
    using atomic_write_effect w by (simp add: write_state_def)
  moreover have "Option.bind (as_map (sort_maps (Map (state_to_dict st)))) parse_state = Some (norm_state st)"
    by (rule state_roundtrip_dict)
  moreover have "ss_system (norm_state st) = ss_system st" by (simp add: norm_state_def)
  ultimately show ?thesis using y v by (simp add: read_state_def Let_def)
qed

lemma read_state_version: "read_state l fs = Some st \<Longrightarrow> \<exists>c. compare_semver (ss_system st) SKILLS_SCHEMA_VERSION = Some c \<and> c \<le> 0"
  by (auto simp: read_state_def Let_def split: option.splits if_splits)

lemma update_then_read:
  assumes y: "\<forall>y. yaml_load l (yaml_dump l y) = Some y" and f: "\<And>st. ss_system (f st) = ss_system st"
    and u: "update_state l f fs = (fs', True)"
  shows "\<exists>st. read_state l fs = Some st \<and> read_state l fs' = Some (norm_state (f st))"
proof -
  obtain st where st: "read_state l fs = Some st" "write_state l (f st) fs = (fs', True)"
    using u by (auto simp: update_state_def split: option.splits)
  then show ?thesis using read_state_version[OF st(1)] write_then_read[OF y _ _ st(2)] f by auto
qed

lemma file_hashes_sound:
  "file_hashes l remap rels hs fs = Some hs' \<Longrightarrow> dict_ok hs \<Longrightarrow>
     dict_ok hs'
     \<and> (\<forall>rel \<in> set rels. \<forall>c. dget fs (at (root l) (resolve_path_remap rel remap)) = Some c \<longrightarrow>
          dget hs' (resolve_path_remap rel remap) = Some (sha256 l c))
     \<and> (\<forall>k. k \<notin> (\<lambda>rel. resolve_path_remap rel remap) ` set rels \<longrightarrow> dget hs' k = dget hs k)"
proof (induction l remap rels hs fs rule: file_hashes.induct)
  case (2 l remap rel rels hs fs)
  let ?r = "resolve_path_remap rel remap"
  show ?case
  proof (cases "dget fs (at (root l) ?r)")
    case None
    then have "\<not> path_exists fs (at (root l) ?r)" using 2(3) by (auto simp: Let_def split: if_splits)
    with 2 None show ?thesis by (auto simp: Let_def)
  next
    case (Some c)
    then have "path_exists fs (at (root l) ?r)" by (simp add: path_exists_def is_file_def)
    then have "file_hashes l remap rels (dset ?r (sha256 l c) hs) fs = Some hs'" using 2(3) Some by (simp add: Let_def)
    from 2(2)[OF refl refl _ Some this] \<open>path_exists fs _\<close> 2(4) have IH:
      "dict_ok hs'" "\<forall>rel \<in> set rels. \<forall>c. dget fs (at (root l) (resolve_path_remap rel remap)) = Some c \<longrightarrow>
          dget hs' (resolve_path_remap rel remap) = Some (sha256 l c)"
      "\<forall>k. k \<notin> (\<lambda>rel. resolve_path_remap rel remap) ` set rels \<longrightarrow> dget hs' k = dget (dset ?r (sha256 l c) hs) k" by auto
    have "dget hs' ?r = Some (sha256 l c)"
    proof (cases "?r \<in> (\<lambda>rel. resolve_path_remap rel remap) ` set rels")
      case True
      then obtain rel' where "rel' \<in> set rels" "?r = resolve_path_remap rel' remap" by auto
      then show ?thesis using IH(2) Some by auto
    next
      case False
      then show ?thesis using IH(3) by simp
    qed
    then show ?thesis using IH Some by (auto split: if_splits)
  qed
qed auto


lemma filter_last: "filter P (filter (\<lambda>x. \<not> P x) xs @ [y]) = (if P y then [y] else [])"
  by simp

text \<open>
  A skill that was applied is recorded: the state that is read afterwards has exactly one entry of its name, the
  last one, with its version and the hash of every added and modified file as it is on disk, and the backup is gone.
\<close>

theorem apply_records:
  assumes "harmless l" "\<forall>y. yaml_load l (yaml_dump l y) = Some y"
    and "\<forall>rel \<in> set (mf_adds m @ mf_modifies m). \<not> prefix (evoclaw_dir (root l)) (at (root l) (resolve_path_remap rel remap))"
    and "apply_locked l sd m remap drift fs = (fs', Applied d)"
  shows "\<exists>st e. read_state l fs' = Some st \<and> last (ss_applied st) = e \<and> filter (\<lambda>s. ap_name s = mf_skill m) (ss_applied st) = [e]
    \<and> ap_version e = mf_version m
    \<and> (\<forall>rel \<in> set (mf_adds m @ mf_modifies m). \<forall>c. dget fs' (at (root l) (resolve_path_remap rel remap)) = Some c \<longrightarrow>
         dget (ap_hashes e) (resolve_path_remap rel remap) = Some (sha256 l c))
    \<and> (\<forall>p. prefix (backup_dir (root l)) p \<longrightarrow> dget fs' p = None)"
proof -
  let ?w0 = "\<lparr>wk_fs = fs, wk_added = []\<rparr>"
  let ?first = "on_files (create_backup (root l) (backup_paths l m remap)) # file_steps l sd m remap drift"
  obtain w where b: "apply_body l sd m remap drift ?w0 = (w, Some (Applied d))" "fs' = wk_fs w"
    using assms(4) by (auto simp: apply_locked_def split: prod.splits option.splits apply_result.splits)
  obtain w1 r1 where f: "run_steps ?first ?w0 = (w1, r1)" by fastforce
  have "never_applied (run_steps ?first)" by (rule never_run_steps) (simp add: never_on_files never_file_steps)
  moreover have body: "apply_body l sd m remap drift ?w0 = (case r1 of None \<Rightarrow> run_steps [record_step l m remap, test_step l m, finish_step l drift] w1
      | Some x \<Rightarrow> (w1, Some x))"
    unfolding apply_body_split append_Cons[symmetric] run_steps_append f by (cases r1) simp_all
  ultimately have "r1 = None" using b f by (cases r1) (auto simp: never_applied_def)
  then have steps: "run_steps [record_step l m remap, test_step l m, finish_step l drift] w1 = (w, Some (Applied d))" using b body by simp
  obtain hs where hs: "file_hashes l remap (mf_adds m @ mf_modifies m) [] (wk_fs w1) = Some hs"
    using steps by (cases "file_hashes l remap (mf_adds m @ mf_modifies m) [] (wk_fs w1)") (auto simp: record_step_def)
  let ?f = "\<lambda>st. st\<lparr>ss_applied := without_skill (mf_skill m) (ss_applied st) @ [\<lparr>ap_name = mf_skill m, ap_version = mf_version m,
     ap_at = now_iso l, ap_hashes = hs, ap_outcomes = outcomes m, ap_patch = None, ap_patch_desc = None\<rparr>]\<rparr>"
  obtain g ok where g: "update_state l ?f (wk_fs w1) = (g, ok)" by fastforce
  have rec: "record_step l m remap w1 = (w1\<lparr>wk_fs := g\<rparr>, if ok then None else Some Raised)"
    using g hs by (simp add: record_step_def on_files_def record_skill_application_def)
  with steps have ok by (cases ok) auto
  have test: "test_step l m (w1\<lparr>wk_fs := g\<rparr>) = (w1\<lparr>wk_fs := g\<rparr>, None)"
  proof (cases "truthy (mf_test m)")
    case True
    obtain res where c: "run_command l (the (mf_test m)) g = (g, res)" using assms(1) by (metis harmless_def prod.collapse)
    then show ?thesis using steps rec True \<open>ok\<close> by (cases res) (auto simp: test_step_def Let_def split: prod.splits if_splits)
  qed (simp add: test_step_def)
  have fs': "fs' = clear_backup (root l) g" using steps rec test \<open>ok\<close> b(2) by (simp add: finish_step_def) auto
  obtain st where st: "read_state l g = Some (norm_state (?f st))" using update_then_read[OF assms(2) _ g[unfolded \<open>ok\<close>[THEN eqTrueI]]] by auto
  have out: "dget fs' p = dget g p" if "p \<notin> backup_tree l" for p
    using that by (simp add: fs' clear_backup_def dget_remove_tree backup_tree_def)
  have "dget fs' (state_path l) = dget g (state_path l)" "dget fs' (tmp (state_path l)) = dget g (tmp (state_path l))"
    using out state_paths[of l] by blast+
  then have "read_state l fs' = read_state l g" by (simp only: read_state_def)
  have same: "dget g p = dget (wk_fs w1) p" if "p \<notin> own l" for p
  proof -
    have "p \<noteq> state_path l" "p \<noteq> tmp (state_path l)" using that state_paths[of l] by auto
    then show ?thesis using g atomic_write_effect by (auto simp: update_state_def write_state_def split: option.splits)
  qed
  let ?e = "norm_applied \<lparr>ap_name = mf_skill m, ap_version = mf_version m, ap_at = now_iso l, ap_hashes = hs, ap_outcomes = outcomes m,
     ap_patch = None, ap_patch_desc = None\<rparr>"
  note sound = file_hashes_sound[OF hs dict_ok_Nil]
  have "filter (\<lambda>s. ap_name s = mf_skill m) (ss_applied (norm_state (?f st))) = [?e]"
    by (simp add: norm_state_def without_skill_def filter_map comp_def norm_applied_def)
  moreover have "last (ss_applied (norm_state (?f st))) = ?e" by (simp add: norm_state_def)
  moreover have "dget (ap_hashes ?e) (resolve_path_remap rel remap) = Some (sha256 l c)"
    if "rel \<in> set (mf_adds m @ mf_modifies m)" "dget fs' (at (root l) (resolve_path_remap rel remap)) = Some c" for rel c
  proof -
    have "at (root l) (resolve_path_remap rel remap) \<notin> own l" using assms(3) that(1) by (simp add: own_def)
    then have "dget (wk_fs w1) (at (root l) (resolve_path_remap rel remap)) = Some c" using that(2) out same tree_own by (metis subsetD)
    then have "dget hs (resolve_path_remap rel remap) = Some (sha256 l c)" using sound that(1) by blast
    then show ?thesis using sound by (simp add: norm_applied_def dget_sort)
  qed
  moreover have "\<forall>p. prefix (backup_dir (root l)) p \<longrightarrow> dget fs' p = None"
    by (simp add: fs' clear_backup_def dget_remove_tree)
  moreover have "read_state l fs' = Some (norm_state (?f st))" using st \<open>read_state l fs' = read_state l g\<close> by simp
  moreover have "ap_version ?e = mf_version m" by (simp add: norm_applied_def)
  ultimately show ?thesis by blast
qed

theorem apply_records_witness:
  "\<exists>st. read_state demo_lib (fst (apply_locked demo_lib [''k''] (demo_manifest\<lparr>mf_post := []\<rparr>) [] [] demo_fs)) = Some st
    \<and> map ap_name (ss_applied st) = [''s''] \<and> dget (ap_hashes (last (ss_applied st))) ''a.py'' = Some ''oldnew''"
proof -
  let ?m = "demo_manifest\<lparr>mf_post := []\<rparr>"
  have r: "snd (apply_locked demo_lib [''k''] ?m [] [] demo_fs) = Applied []" by code_simp
  then obtain fs' where a: "apply_locked demo_lib [''k''] ?m [] [] demo_fs = (fs', Applied [])" by (metis prod.collapse)
  have "\<forall>y. yaml_load demo_lib (yaml_dump demo_lib y) = Some y" by (simp add: demo_lib_def dec_doc_enc)
  moreover have "harmless demo_lib" by (simp add: harmless_def demo_lib_def)
  moreover have p: "list_all (\<lambda>rel. \<not> prefix (evoclaw_dir (root demo_lib)) (at (root demo_lib) (resolve_path_remap rel [])))
      (mf_adds ?m @ mf_modifies ?m)" by code_simp
  ultimately obtain st e where st: "read_state demo_lib fs' = Some st" "last (ss_applied st) = e"
    "\<forall>rel \<in> set (mf_adds ?m @ mf_modifies ?m). \<forall>c. dget fs' (at (root demo_lib) (resolve_path_remap rel [])) = Some c \<longrightarrow>
         dget (ap_hashes e) (resolve_path_remap rel []) = Some (sha256 demo_lib c)"
    using apply_records[OF _ _ _ a] unfolding list_all_iff by blast
  have c: "dget (fst (apply_locked demo_lib [''k''] ?m [] [] demo_fs)) (at (root demo_lib) (resolve_path_remap ''a.py'' [])) = Some ''oldnew''"
    "map_option (\<lambda>st. map ap_name (ss_applied st)) (read_state demo_lib (fst (apply_locked demo_lib [''k''] ?m [] [] demo_fs))) = Some [''s'']"
    "resolve_path_remap ''a.py'' [] = ''a.py''" "''a.py'' \<in> set (mf_adds ?m @ mf_modifies ?m)" "sha256 demo_lib ''oldnew'' = ''oldnew''" by code_simp+
  have "dget (ap_hashes e) (resolve_path_remap ''a.py'' []) = Some (sha256 demo_lib ''oldnew'')"
    using st(3) c(1,4) unfolding a fst_conv by blast
  moreover have "map ap_name (ss_applied st) = [''s'']" using c(2) unfolding a fst_conv st(1) by simp
  ultimately show ?thesis using a st(1,2) c(3,5) by simp
qed

text \<open>
  What the rollback misses: a test command that cannot be started raises past the clean-up of the state, so the
  files are restored but the skill stays recorded as applied; a file deleted by an operation of the manifest, and a
  tool copied into the data directory, are not covered by the backup.
\<close>

theorem rollback_gaps:
  shows "(let (fs, r) = apply_locked demo_lib [''k''] (demo_manifest\<lparr>mf_post := [], mf_test := Some ''nosuch''\<rparr>) [] [] demo_fs in
      r = Raised \<and> dget fs [''p'', ''x.md''] = None \<and> dget fs [''p'', ''a.py''] = Some ''old''
      \<and> map_option applied_names (read_state demo_lib fs) = Some [''s''])
    \<and> (let (fs, r) = apply_locked demo_lib [''k''] (demo_manifest\<lparr>mf_modifies := [],
          mf_ops := [\<lparr>op_type = ''delete'', op_from = None, op_to = None, op_path = Some ''a.py''\<rparr>]\<rparr>) [] [] demo_fs in
      r = Post_apply_failed ''pytest'' \<and> dget fs [''p'', ''a.py''] = None)
    \<and> (let (fs, r) = apply_locked demo_lib [''k''] (demo_manifest\<lparr>mf_tools := [''x.md'']\<rparr>) [] [] demo_fs in
      r = Post_apply_failed ''pytest'' \<and> dget fs [''p'', ''data'', ''dynamic_tools'', ''x.md''] = Some ''text'')"
  by code_simp

end
