(* ===== verification/SkillReplay.thy ===== *)
theory SkillReplay
  imports SkillRollback
begin

text \<open>
  Replaying skills from the base snapshot, and what is built on it: \<open>skills_engine/replay.py\<close>,
  \<open>uninstall.py\<close> and \<open>rebase.py\<close>.
\<close>

section \<open>Replay\<close>

definition skill_dirs :: "lib \<Rightarrow> fs \<Rightarrow> path list" where
  "skill_dirs l fs = (let sr = root l @ [''skills'']; n = Suc (length sr) in
     remdups (map (take n) (filter (\<lambda>p. strict_prefix sr p \<and> n < length p) (dkeys fs))))"

definition find_skill_dir :: "lib \<Rightarrow> string \<Rightarrow> fs \<Rightarrow> path option" where
  "find_skill_dir l name fs =
     List.find (\<lambda>d. case read_manifest l fs d of None \<Rightarrow> False | Some m \<Rightarrow> mf_skill m = name) (skill_dirs l fs)"

text \<open>\<open>None\<close> is a manifest that cannot be read.  The set of touched files is a list here.\<close>

fun touched :: "lib \<Rightarrow> fs \<Rightarrow> path list \<Rightarrow> string list option" where
  "touched l fs [] = Some []"
| "touched l fs (d # ds) = (case read_manifest l fs d of None \<Rightarrow> None
     | Some m \<Rightarrow> map_option (\<lambda>ts. mf_adds m @ mf_modifies m @ ts) (touched l fs ds))"

definition reset_one :: "lib \<Rightarrow> (string, string) dict \<Rightarrow> string \<Rightarrow> fs \<Rightarrow> fs option" where
  "reset_one l remap rel fs =
     (let r = resolve_path_remap rel remap; cur = at (root l) r; b = at (base_dir (root l)) r in
      if path_exists fs b then copy_file b cur fs
      else if path_exists fs cur then unlink_file cur fs
      else Some fs)"

definition copy_one :: "lib \<Rightarrow> path \<Rightarrow> (string, string) dict \<Rightarrow> string \<Rightarrow> fs \<Rightarrow> fs option" where
  "copy_one l sd remap rel fs =
     (let src = at (sd @ [''add'']) rel in
      if path_exists fs src then copy_file src (at (root l) (resolve_path_remap rel remap)) fs else Some fs)"

text \<open>
  A modified file in a replay: unlike in \<open>apply_skill\<close>, a file missing from the skill is a conflict and
  not an exception.
\<close>

fun replay_merges :: "lib \<Rightarrow> path \<Rightarrow> (string, string) dict \<Rightarrow> string list \<Rightarrow> fs \<Rightarrow> fs \<times> string list option" where
  "replay_merges l sd remap [] fs = (fs, Some [])"
| "replay_merges l sd remap (rel # rels) fs =
     (case (if path_exists fs (at (sd @ [''modify'']) rel) then merge_one l sd remap rel fs else (fs, Some False)) of
        (fs', None) \<Rightarrow> (fs', None)
      | (fs', Some clean) \<Rightarrow> (let (fs'', cs) = replay_merges l sd remap rels fs' in
          (fs'', map_option (\<lambda>cs. if clean then cs
             else (if path_exists fs (at (sd @ [''modify'']) rel) then resolve_path_remap rel remap else rel) # cs) cs)))"

datatype skill_outcome = Replayed yaml yaml | Replay_conflicts "string list" | Replay_error

text \<open>One skill, with the structured additions it asks for.  Every exception is caught.\<close>

definition replay_one :: "lib \<Rightarrow> path \<Rightarrow> (string, string) dict \<Rightarrow> fs \<Rightarrow> fs \<times> skill_outcome" where
  "replay_one l sd remap fs = (case read_manifest l fs sd of
      None \<Rightarrow> (fs, Replay_error)
    | Some m \<Rightarrow> (case execute_file_ops (root l) (mf_ops m) fs of
        (fs, False) \<Rightarrow> (fs, Replay_error)
      | (fs, True) \<Rightarrow> (case (if path_exists fs (sd @ [''add''])
                        then run_all (map (\<lambda>rel. tried (copy_one l sd remap rel)) (mf_adds m)) fs else (fs, True)) of
          (fs, False) \<Rightarrow> (fs, Replay_error)
        | (fs, True) \<Rightarrow> (case replay_merges l sd remap (mf_modifies m) fs of
            (fs, None) \<Rightarrow> (fs, Replay_error)
          | (fs, Some (c # cs)) \<Rightarrow> (fs, Replay_conflicts (c # cs))
          | (fs, Some []) \<Rightarrow>
              (if \<not> ytrue (mf_structured m) then (fs, Replayed Null Null)
               else case as_map (mf_structured m) of None \<Rightarrow> (fs, Replay_error)
                 | Some s \<Rightarrow> (fs, Replayed (yget ''npm_dependencies'' s) (yget ''env_additions'' s)))))))"

record replay =
  rp_skills :: "(string, bool) dict"
  rp_conflicts :: "string list"
  rp_ok :: bool
  rp_npm :: "(string, string) dict"
  rp_env :: "string list"

text \<open>\<open>all_npm_deps.update\<close> and \<open>all_env_additions.extend\<close>; \<open>None\<close> raises, which the caller of a skill catches.\<close>

definition collect :: "yaml \<Rightarrow> yaml \<Rightarrow> replay \<Rightarrow> replay option" where
  "collect npm env r =
     (case (if ytrue npm then string_map npm else Some [], strings_or_empty env) of
        (Some n, Some e) \<Rightarrow> Some (r\<lparr>rp_npm := fold (\<lambda>(k, v). dset k v) n (rp_npm r), rp_env := rp_env r @ e\<rparr>)
      | _ \<Rightarrow> None)"

fun replay_loop :: "lib \<Rightarrow> (string, string) dict \<Rightarrow> (string \<times> path) list \<Rightarrow> fs \<Rightarrow> replay \<Rightarrow> fs \<times> replay" where
  "replay_loop l remap [] fs r = (fs, r)"
| "replay_loop l remap ((name, sd) # rest) fs r =
     (let mark = (\<lambda>ok r. r\<lparr>rp_skills := dset name ok (rp_skills r)\<rparr>); stop = (\<lambda>r. (mark False r)\<lparr>rp_ok := False\<rparr>) in
      case replay_one l sd remap fs of
        (fs, Replay_error) \<Rightarrow> (fs, stop r)
      | (fs, Replay_conflicts cs) \<Rightarrow> (fs, stop (r\<lparr>rp_conflicts := rp_conflicts r @ cs\<rparr>))
      | (fs, Replayed npm env) \<Rightarrow> (case collect npm env r of
          None \<Rightarrow> (fs, stop r)
        | Some r \<Rightarrow> replay_loop l remap rest fs (mark True r)))"

text \<open>The additions of all skills, at the end and without a temporary file.\<close>

definition npm_write :: "lib \<Rightarrow> (string, string) dict \<Rightarrow> fs \<Rightarrow> fs option" where
  "npm_write l npm fs =
     (let p = root l @ [''package.json''] in
      if npm = [] \<or> \<not> path_exists fs p then Some fs
      else case Option.bind (Option.bind (dget fs p) (json_load l)) as_map of None \<Rightarrow> None
        | Some pkg \<Rightarrow> (case default [] string_map ''dependencies'' pkg of None \<Rightarrow> None
          | Some deps \<Rightarrow> write_file p (json_dump l (Map (dset ''dependencies'' (strmap_to_yaml (fst (merge_npm deps npm))) pkg))) fs))"

definition env_write :: "lib \<Rightarrow> string list \<Rightarrow> fs \<Rightarrow> fs option" where
  "env_write l env fs =
     (let p = root l @ [''.env.example''] in
      if env = [] then Some fs
      else if is_dir fs p then None
      else write_file p (env_text (merge_env_additions (case dget fs p of None \<Rightarrow> [] | Some c \<Rightarrow> splitlines c) env)) fs)"

text \<open>\<open>replay_skills\<close> with a directory for every skill; the last part of the result is \<open>False\<close> where it raises.\<close>

definition new_replay :: replay where
  "new_replay = \<lparr>rp_skills = [], rp_conflicts = [], rp_ok = True, rp_npm = [], rp_env = []\<rparr>"

definition replay_skills :: "lib \<Rightarrow> (string \<times> path) list \<Rightarrow> fs \<Rightarrow> fs \<times> replay \<times> bool" where
  "replay_skills l skills fs =
     (case (load_path_remap l fs, touched l fs (map snd skills)) of
        (Some remap, Some ts) \<Rightarrow>
         (case run_all (map (\<lambda>rel. tried (reset_one l remap rel)) (remdups ts)) fs of
            (fs, False) \<Rightarrow> (fs, new_replay, False)
          | (fs, True) \<Rightarrow> (case replay_loop l remap skills fs new_replay of (fs, r) \<Rightarrow>
              if \<not> rp_ok r then (fs, r, True)
              else case run_all [tried (npm_write l (rp_npm r)), tried (env_write l (rp_env r))] fs of (fs, ok) \<Rightarrow> (fs, r, ok)))
      | _ \<Rightarrow> (fs, new_replay, False))"

section \<open>Uninstall\<close>

datatype uninstall_result =
    Not_applied
  | Skill_missing string
  | Replay_failed "(string, bool) dict"
  | Uninstalled "string option" "(string, bool) dict"
  | Uninstall_raised

fun locate :: "lib \<Rightarrow> fs \<Rightarrow> string list \<Rightarrow> string + (string \<times> path) list" where
  "locate l fs [] = Inr []"
| "locate l fs (n # ns) = (case find_skill_dir l n fs of None \<Rightarrow> Inl n
     | Some d \<Rightarrow> (case locate l fs ns of Inl m \<Rightarrow> Inl m | Inr ds \<Rightarrow> Inr ((n, d) # ds)))"

text \<open>The patch of the last custom modification that shares a file with the skill.\<close>

definition custom_patch_warning :: "string \<Rightarrow> skill_state \<Rightarrow> string option" where
  "custom_patch_warning name st = (case List.find (\<lambda>s. ap_name s = name) (ss_applied st) of
      None \<Rightarrow> None
    | Some s \<Rightarrow> map_option cm_patch (List.find (\<lambda>c. set (dkeys (ap_hashes s)) \<inter> set (cm_files c) \<noteq> {}) (rev (ss_mods st))))"

definition remove_tools :: "lib \<Rightarrow> string \<Rightarrow> fs \<Rightarrow> fs" where
  "remove_tools l name fs = (case Option.bind (find_skill_dir l name fs) (read_manifest l fs) of
      None \<Rightarrow> fs
    | Some m \<Rightarrow> fst (run_all (map (\<lambda>rel. tried (\<lambda>fs. let p = tools_dir l @ [path_name (parts rel)] in
         if path_exists fs p then unlink_file p fs else Some fs)) (mf_tools m)) fs))"

definition uninstall_skill :: "lib \<Rightarrow> bool \<Rightarrow> string \<Rightarrow> fs \<Rightarrow> fs \<times> uninstall_result" where
  "uninstall_skill l got_lock name fs = (case read_state l fs of
      None \<Rightarrow> (fs, Uninstall_raised)
    | Some st \<Rightarrow>
       (if name \<notin> set (applied_names st) then (fs, Not_applied)
        else case locate l fs (filter (\<lambda>n. n \<noteq> name) (applied_names st)) of
          Inl n \<Rightarrow> (fs, Skill_missing n)
        | Inr skills \<Rightarrow> (let fs = remove_tools l name fs in
            if \<not> got_lock then (fs, Uninstall_raised)
            else case replay_skills l skills fs of
                (fs, _, False) \<Rightarrow> (fs, Uninstall_raised)
              | (fs, r, True) \<Rightarrow>
                 (if \<not> rp_ok r then (fs, Replay_failed (rp_skills r))
                  else case update_state l (\<lambda>st. st\<lparr>ss_applied := without_skill name (ss_applied st)\<rparr>) fs of
                      (fs, False) \<Rightarrow> (fs, Uninstall_raised)
                    | (fs, True) \<Rightarrow> (fs, Uninstalled (custom_patch_warning name st) (rp_skills r))))))"

section \<open>Rebase\<close>

datatype rebase_result = Nothing_applied | Rebase_missing string | Rebase_failed "string list" | Rebased nat | Rebase_raised

definition is_binary :: "string \<Rightarrow> bool" where
  "is_binary s = (CHR 0x00 \<in> set (take 8192 s))"

text \<open>The differences of the tracked files to the base, without files that are missing or binary.\<close>

definition file_diff :: "lib \<Rightarrow> fs \<Rightarrow> string \<Rightarrow> string option" where
  "file_diff l fs rel = (case (dget fs (at (root l) rel), dget fs (at (base_dir (root l)) rel)) of
     (Some cur, Some b) \<Rightarrow>
       (let d = unified_diff l (at (root l) rel) b cur in if is_binary b \<or> is_binary cur \<or> d = [] then None else Some d)
   | _ \<Rightarrow> None)"

definition rebase :: "lib \<Rightarrow> bool \<Rightarrow> fs \<Rightarrow> fs \<times> rebase_result" where
  "rebase l got_lock fs = (case read_state l fs of
      None \<Rightarrow> (fs, Rebase_raised)
    | Some st \<Rightarrow>
       (if ss_applied st = [] then (fs, Nothing_applied)
        else case locate l fs (applied_names st) of
          Inl n \<Rightarrow> (fs, Rebase_missing n)
        | Inr skills \<Rightarrow>
           (if \<not> got_lock then (fs, Rebase_raised)
            else let ds = List.map_filter (file_diff l fs) (remdups (concat (map (dkeys \<circ> ap_hashes) (ss_applied st))));
                     patch = join [CHR 0x0A] ds in
              case tried (write_file (evoclaw_dir (root l) @ [''custom'', now_stamp l @ ''_rebase.patch'']) patch) fs of
                (fs, False) \<Rightarrow> (fs, Rebase_raised)
              | (fs, True) \<Rightarrow> (case replay_skills l skills fs of
                  (fs, _, False) \<Rightarrow> (fs, Rebase_raised)
                | (fs, r, True) \<Rightarrow>
                   (if \<not> rp_ok r then (fs, Rebase_failed (rp_conflicts r))
                    else let fs = (if strip patch \<noteq> [] then run_patch l patch fs else fs) in
                      case update_state l (\<lambda>st. st\<lparr>ss_rebased := Some (now_iso l)\<rparr>) fs of
                        (fs, False) \<Rightarrow> (fs, Rebase_raised)
                      | (fs, True) \<Rightarrow> (fs, Rebased (length ds)))))))"

section \<open>What uninstalling leaves\<close>

lemma tools_effect:
  "same_but {p. prefix (tools_dir l) p} fs (remove_tools l name fs)"
proof -
  have "same_but {p. prefix (tools_dir l) p} s (fst (tried (\<lambda>fs. let p = tools_dir l @ [path_name (parts rel)] in
         if path_exists fs p then unlink_file p fs else Some fs) s))" for rel s
    by (auto simp: tried_def Let_def unlink_file_def same_but_def split: option.splits if_splits)
  then have "same_but {p. prefix (tools_dir l) p} s (fst (run_all (map (\<lambda>rel. tried (\<lambda>fs. let p = tools_dir l @ [path_name (parts rel)] in
         if path_exists fs p then unlink_file p fs else Some fs)) ts) s))" for ts s
    by (intro run_all_same_but) auto
  then show ?thesis by (simp add: remove_tools_def split: option.split)
qed

lemma update_state_effect: "update_state l f fs = (fs', b) \<Longrightarrow> same_but {state_path l, tmp (state_path l)} fs fs'"
  using atomic_write_effect by (auto simp: update_state_def write_state_def same_but_def split: option.splits)

lemma replay_nothing: "load_path_remap l fs = Some remap \<Longrightarrow> replay_skills l [] fs = (fs, new_replay, True)"
  by (simp add: replay_skills_def new_replay_def npm_write_def env_write_def tried_def)

definition skill_own :: "lib \<Rightarrow> path \<Rightarrow> bool" where
  "skill_own l p = (p = state_path l \<or> p = tmp (state_path l) \<or> prefix (tools_dir l) p)"

definition tools_apart :: "lib \<Rightarrow> bool" where
  "tools_apart l = (\<not> prefix (tools_dir l) (state_path l) \<and> \<not> prefix (tools_dir l) (tmp (state_path l)))"

text \<open>
  Uninstalling the only applied skill ends with success and a state without skills, and removes none of the
  skill's files: the files to reset are collected from the remaining skills only, so nothing outside the
  state file and the tools directory changes.
\<close>

theorem uninstall_removes_nothing:
  assumes "\<forall>y. yaml_load l (yaml_dump l y) = Some y" "tools_apart l" "read_state l fs = Some st" "applied_names st = [name]"
    and "uninstall_skill l True name fs = (fs', Uninstalled warning replayed)"
  shows "(\<exists>st'. read_state l fs' = Some st' \<and> ss_applied st' = []) \<and> replayed = []
    \<and> (\<forall>p. \<not> skill_own l p \<longrightarrow> dget fs' p = dget fs p)"
proof -
  let ?g = "remove_tools l name fs" and ?f = "\<lambda>st. st\<lparr>ss_applied := without_skill name (ss_applied st)\<rparr>"
  have "filter (\<lambda>n. n \<noteq> name) (applied_names st) = []" using assms(4) by simp
  then have u: "(case replay_skills l [] ?g of (fs, _, False) \<Rightarrow> (fs, Uninstall_raised)
              | (fs, r, True) \<Rightarrow> (if \<not> rp_ok r then (fs, Replay_failed (rp_skills r))
                  else case update_state l ?f fs of (fs, False) \<Rightarrow> (fs, Uninstall_raised)
                    | (fs, True) \<Rightarrow> (fs, Uninstalled (custom_patch_warning name st) (rp_skills r)))) = (fs', Uninstalled warning replayed)"
    using assms(3-5) by (simp add: uninstall_skill_def Let_def)
  obtain remap where "load_path_remap l ?g = Some remap"
    using u by (cases "load_path_remap l ?g") (auto simp: replay_skills_def)
  then have g: "update_state l ?f ?g = (fs', True)" "replayed = []"
    using u replay_nothing by (auto simp: new_replay_def split: prod.splits bool.splits)
  have t: "dget ?g p = dget fs p" if "\<not> prefix (tools_dir l) p" for p
    using that tools_effect by (simp add: same_but_def)
  have "dget ?g (state_path l) = dget fs (state_path l)" "dget ?g (tmp (state_path l)) = dget fs (tmp (state_path l))"
    using assms(2) t by (simp_all add: tools_apart_def)
  then have "read_state l ?g = Some st" using assms(3) by (simp only: read_state_def)
  then have s: "read_state l fs' = Some (norm_state (?f st))"
    using update_then_read[OF assms(1) _ g(1)] by auto
  have "without_skill name (ss_applied st) = []"
    using assms(4) by (auto simp: without_skill_def applied_names_def filter_empty_conv)
  then have "ss_applied (norm_state (?f st)) = []" by (simp add: norm_state_def)
  moreover have "dget fs' p = dget fs p" if "\<not> skill_own l p" for p
    using that t update_state_effect[OF g(1)] by (simp add: same_but_def skill_own_def)
  ultimately show ?thesis using s g(2) by simp
qed

definition demo_applied :: fs where
  "demo_applied = [([''p'', ''x.md''], ''text''),
     ([''p'', ''.evoclaw'', ''state.yaml''], enc (sort_maps (Map (state_to_dict (demo_skill_state\<lparr>ss_applied :=
        [\<lparr>ap_name = ''s'', ap_version = ''1'', ap_at = ''now'', ap_hashes = [(''x.md'', ''text'')], ap_outcomes = Null,
          ap_patch = None, ap_patch_desc = None\<rparr>]\<rparr>)))))]"

theorem uninstall_removes_nothing_witness:
  "snd (uninstall_skill demo_lib True ''s'' demo_applied) = Uninstalled None []
    \<and> dget (fst (uninstall_skill demo_lib True ''s'' demo_applied)) [''p'', ''x.md''] = Some ''text''"
proof -
  have y: "\<forall>y. yaml_load demo_lib (yaml_dump demo_lib y) = Some y" by (simp add: demo_lib_def dec_doc_enc)
  have t: "tools_apart demo_lib" by code_simp
  obtain st where st: "read_state demo_lib demo_applied = Some st" "applied_names st = [''s'']"
  proof -
    have "map_option applied_names (read_state demo_lib demo_applied) = Some [''s'']" by code_simp
    then show thesis using that by blast
  qed
  have r: "snd (uninstall_skill demo_lib True ''s'' demo_applied) = Uninstalled None []" by code_simp
  obtain fs' where u: "uninstall_skill demo_lib True ''s'' demo_applied = (fs', Uninstalled None [])"
    using r by (metis prod.collapse)
  have "\<not> skill_own demo_lib [''p'', ''x.md'']" "dget demo_applied [''p'', ''x.md''] = Some ''text''" by code_simp+
  with uninstall_removes_nothing[OF y t st u] r u show ?thesis by simp
qed

section \<open>The state file\<close>

text \<open>
  C20: A state that was written is read back as it was, apart from what sorting the keys of the YAML document and
  leaving out empty optional entries changes, and the temporary file is gone; no other file is touched,
  also when the write raises.
\<close>

theorem state_roundtrip:
  assumes "\<forall>y. yaml_load l (yaml_dump l y) = Some y"
    and "compare_semver (ss_system st) SKILLS_SCHEMA_VERSION = Some c" "c \<le> 0"
    and "write_state l st fs = (fs', written)"
  shows "(written \<longrightarrow> read_state l fs' = Some (norm_state st) \<and> dget fs' (tmp (state_path l)) = None)
    \<and> same_but {state_path l, tmp (state_path l)} fs fs'"
proof -
  have n: "tmp (state_path l) \<noteq> state_path l" by (rule tmp_neq) (simp add: state_path_def)
  have e: "same_but {state_path l, tmp (state_path l)} fs fs'"
    using atomic_write_effect assms(4) by (simp add: write_state_def same_but_def)
  have "read_state l fs' = Some (norm_state st)" if written
    using write_then_read[OF assms(1-3)] assms(4) that by simp
  moreover have "dget fs' (tmp (state_path l)) = None" if written
    using atomic_write_effect[of "state_path l" _ fs fs' written] assms(4) that n by (metis write_state_def)
  ultimately show ?thesis using e by blast
qed

theorem state_roundtrip_witness:
  "\<exists>fs'. write_state demo_lib demo_skill_state [] = (fs', True) \<and> read_state demo_lib fs' = Some (norm_state demo_skill_state)"
proof -
  have y: "\<forall>y. yaml_load demo_lib (yaml_dump demo_lib y) = Some y" by (simp add: demo_lib_def dec_doc_enc)
  have c: "compare_semver (ss_system demo_skill_state) SKILLS_SCHEMA_VERSION = Some 0" by code_simp
  have "snd (write_state demo_lib demo_skill_state []) = True" by code_simp
  then obtain fs' where w: "write_state demo_lib demo_skill_state [] = (fs', True)" by (metis prod.collapse)
  from state_roundtrip[OF y c _ w] w show ?thesis by auto
qed

section \<open>Paths of a manifest\<close>

lemma manifest_valid: "parse_manifest d = Some m \<Longrightarrow>
    list_all valid_relative_path (mf_adds m @ mf_modifies m @ concat (map op_paths (mf_ops m)) @ mf_tools m)"
  by (auto simp: parse_manifest_def split: option.splits if_splits)

definition manifest_path_list :: "manifest \<Rightarrow> string list" where
  "manifest_path_list m = mf_adds m @ mf_modifies m @ concat (map op_paths (mf_ops m)) @ mf_tools m"

text \<open>
  No path of a manifest that was read (added, modified and tool files, the paths of the file operations) leads
  out of the directory it is resolved against: it is that directory with the components of the path appended.
\<close>

theorem manifest_paths:
  assumes "read_manifest l fs dir = Some m" "rel \<in> set (manifest_path_list m)"
  shows "at base rel = collapse base @ parts rel"
proof -
  obtain d where "parse_manifest d = Some m"
    using assms(1) by (auto simp: read_manifest_def bind_eq_Some_conv split: option.splits)
  then have "valid_relative_path rel" using manifest_valid assms(2) by (simp only: manifest_path_list_def list_all_iff)
  then show ?thesis by (rule at_inside)
qed

definition demo_manifest_doc :: "(string \<times> yaml) list" where
  "demo_manifest_doc = [(''skill'', Str ''s''), (''version'', Str ''1''), (''core_version'', Str ''1''), (''adds'', Seq []),
     (''modifies'', Seq [Str ''a/b.py'']), (''file_ops'', Seq [Map [(''type'', Str ''delete''), (''path'', Str ''.'')]])]"

theorem manifest_paths_witness:
  "\<exists>m. read_manifest demo_lib [([''k'', ''manifest.yaml''], enc (Map demo_manifest_doc))] [''k''] = Some m
     \<and> manifest_path_list m = [''a/b.py'', ''.''] \<and> at [''p''] ''a/b.py'' = [''p'', ''a'', ''b.py''] \<and> at [''p''] ''.'' = [''p'']"
proof -
  let ?r = "read_manifest demo_lib [([''k'', ''manifest.yaml''], enc (Map demo_manifest_doc))] [''k'']"
  have "map_option manifest_path_list ?r = Some [''a/b.py'', ''.'']" by code_simp
  then obtain m where m: "?r = Some m" "manifest_path_list m = [''a/b.py'', ''.'']" by blast
  then have "at [''p''] ''a/b.py'' = collapse [''p''] @ parts ''a/b.py''" "at [''p''] ''.'' = collapse [''p''] @ parts ''.''"
    using manifest_paths[OF m(1)] by simp_all
  moreover have "collapse [''p''] = [''p'']" "parts ''a/b.py'' = [''a'', ''b.py'']" "parts ''.'' = []" by code_simp+
  ultimately show ?thesis using m by simp
qed

definition delete_dot :: file_op where
  "delete_dot = \<lparr>op_type = ''delete'', op_from = None, op_to = None, op_path = Some ''.''\<rparr>"

lemma parts_dot: "parts ''.'' = []" by code_simp

text \<open>
  The checks on the path of a delete operation accept a single dot, which is the project itself: the operation
  reports success and no file of the project is left, while files elsewhere stay.
\<close>

theorem project_deleted:
  "snd (execute_file_ops base [delete_dot] fs) = True
    \<and> dget (fst (execute_file_ops base [delete_dot] fs)) p = (if prefix (collapse base) p then None else dget fs p)"
proof (intro conjI)
  have d: "path_allowed ''.''" "\<not> is_abs ''.''" by code_simp+
  then show "snd (execute_file_ops base [delete_dot] fs) = True"
    by (simp add: delete_dot_def execute_file_op_def file_op_delete_def Let_def or_empty_def at_def path_join_def parts_dot)
  have "dget fs p = None" if "\<not> is_dir fs (collapse base)" "prefix (collapse base) p" "p \<noteq> collapse base"
    using that by (auto simp: is_dir_iff strict_prefix_def)
  moreover have "dget fs p = None" if "\<not> path_exists fs (collapse base)" "prefix (collapse base) p"
    using that by (cases "p = collapse base") (auto simp: path_exists_def is_file_def is_dir_iff strict_prefix_def)
  ultimately show "dget (fst (execute_file_ops base [delete_dot] fs)) p = (if prefix (collapse base) p then None else dget fs p)"
    using d by (simp add: delete_dot_def execute_file_op_def file_op_delete_def Let_def or_empty_def at_def path_join_def parts_dot
        dget_remove_tree)
qed

end
