(* ===== verification/SkillLock.thy ===== *)
theory SkillLock
  imports Prelude
begin

text \<open>
  The lock file of the skills engine, \<open>skills_engine/lock.py\<close>.  A call is split where another process can
  get in between: creating the file and writing it, looking at it and removing it.  Time is in seconds.
\<close>

section \<open>The file and the processes\<close>

definition STALE_TIMEOUT_SECS :: int where "STALE_TIMEOUT_SECS = 5 * 60"

text \<open>The lock file: who made it, and its contents once they are written.\<close>

record lock_info =
  li_pid :: nat
  li_time :: int

record lock_file =
  lf_maker :: nat
  lf_info :: "lock_info option"

text \<open>
  Where a process is: between the creation of the file and writing it, before the look at an existing
  file, before its removal, before the second attempt, or inside.  The number is the time at which the
  call of \<open>acquire_lock\<close> began.
\<close>

datatype place = Outside | Created int | Checking int | Removing int | Retrying int | Holding int | Refused | Releasing

record locks =
  lk_file :: "lock_file option"
  lk_place :: "nat \<Rightarrow> place"
  lk_now :: int

definition is_stale :: "int \<Rightarrow> lock_info \<Rightarrow> bool" where
  "is_stale now i = (now - li_time i > STALE_TIMEOUT_SECS)"

text \<open>\<open>alive\<close> is \<open>_is_process_alive\<close>; a file that cannot be parsed, or is gone, does not count.\<close>

definition lock_busy :: "(nat \<Rightarrow> bool) \<Rightarrow> int \<Rightarrow> lock_file option \<Rightarrow> bool" where
  "lock_busy alive now f = (case f of None \<Rightarrow> False | Some f \<Rightarrow> (case lf_info f of None \<Rightarrow> False
     | Some i \<Rightarrow> \<not> is_stale now i \<and> alive (li_pid i)))"

definition goto :: "nat \<Rightarrow> place \<Rightarrow> locks \<Rightarrow> locks" where
  "goto p x s = s\<lparr>lk_place := (lk_place s)(p := x)\<rparr>"

text \<open>Opening with \<open>O_CREAT | O_EXCL\<close>, where it succeeds.\<close>

definition create_file :: "nat \<Rightarrow> int \<Rightarrow> locks \<Rightarrow> locks" where
  "create_file p t s = goto p (Created t) (s\<lparr>lk_file := Some \<lparr>lf_maker = p, lf_info = None\<rparr>\<rparr>)"

text \<open>The open file is written even when its name is gone or stands for another file by now.\<close>

definition write_info :: "nat \<Rightarrow> int \<Rightarrow> locks \<Rightarrow> locks" where
  "write_info p t s = s\<lparr>lk_file := (case lk_file s of None \<Rightarrow> None
     | Some f \<Rightarrow> Some (if lf_maker f = p then f\<lparr>lf_info := Some \<lparr>li_pid = p, li_time = t\<rparr>\<rparr> else f))\<rparr>"

text \<open>One step of process \<open>p\<close>; that of a holder is the beginning of its release.\<close>

definition lock_step :: "(nat \<Rightarrow> bool) \<Rightarrow> nat \<Rightarrow> locks \<Rightarrow> locks" where
  "lock_step alive p s = (case lk_place s p of
      Outside \<Rightarrow> if lk_file s = None then create_file p (lk_now s) s else goto p (Checking (lk_now s)) s
    | Refused \<Rightarrow> if lk_file s = None then create_file p (lk_now s) s else goto p (Checking (lk_now s)) s
    | Created t \<Rightarrow> goto p (Holding t) (write_info p t s)
    | Checking t \<Rightarrow> goto p (if lock_busy alive (lk_now s) (lk_file s) then Refused else Removing t) s
    | Removing t \<Rightarrow> goto p (Retrying t) (s\<lparr>lk_file := None\<rparr>)
    | Retrying t \<Rightarrow> if lk_file s = None then create_file p t s else goto p Refused s
    | Holding t \<Rightarrow> (case lk_file s of
          None \<Rightarrow> goto p Outside s
        | Some f \<Rightarrow> goto p (case lf_info f of None \<Rightarrow> Releasing | Some i \<Rightarrow> if li_pid i = p then Releasing else Outside) s)
    | Releasing \<Rightarrow> goto p Outside (s\<lparr>lk_file := None\<rparr>))"

definition no_locks :: "int \<Rightarrow> locks" where
  "no_locks now = \<lparr>lk_file = None, lk_place = (\<lambda>_. Outside), lk_now = now\<rparr>"

fun is_holding :: "place \<Rightarrow> bool" where
  "is_holding (Holding _) = True"
| "is_holding _ = False"

section \<open>Calls without interruption\<close>

definition lock_acquire :: "(nat \<Rightarrow> bool) \<Rightarrow> nat \<Rightarrow> locks \<Rightarrow> locks" where
  "lock_acquire alive p s =
     (if lock_busy alive (lk_now s) (lk_file s) then goto p Refused s
      else goto p (Holding (lk_now s))
        (s\<lparr>lk_file := Some \<lparr>lf_maker = p, lf_info = Some \<lparr>li_pid = p, li_time = lk_now s\<rparr>\<rparr>\<rparr>))"

definition lock_release :: "nat \<Rightarrow> locks \<Rightarrow> locks" where
  "lock_release p s = goto p Outside (case lk_file s of None \<Rightarrow> s
     | Some f \<Rightarrow> (case lf_info f of None \<Rightarrow> s\<lparr>lk_file := None\<rparr>
         | Some i \<Rightarrow> if li_pid i = p then s\<lparr>lk_file := None\<rparr> else s))"

datatype lock_op = Acquire nat | Release nat | Pass nat

text \<open>A call at a time: to acquire by a process outside, to release by a holder; \<open>Pass\<close> lets seconds go by.\<close>

definition lock_call :: "(nat \<Rightarrow> bool) \<Rightarrow> lock_op \<Rightarrow> locks \<Rightarrow> locks" where
  "lock_call alive c s = (case c of
      Acquire p \<Rightarrow> if is_holding (lk_place s p) then s else lock_acquire alive p s
    | Release p \<Rightarrow> if is_holding (lk_place s p) then lock_release p s else s
    | Pass d \<Rightarrow> s\<lparr>lk_now := lk_now s + int d\<rparr>)"

lemma goto_simps [simp]: "lk_file (goto p x s) = lk_file s" "lk_now (goto p x s) = lk_now s"
  "lk_place (goto p x s) = (lk_place s)(p := x)"
  by (simp_all add: goto_def)

lemma goto_goto [simp]: "goto p x (goto p y s) = goto p x s"
  by (simp add: goto_def)

text \<open>The steps of one process alone are the uninterrupted calls.\<close>

lemma acquire_steps:
  assumes "lk_place s p = Outside \<or> lk_place s p = Refused"
  shows "\<exists>n \<le> 5. (lock_step alive p ^^ n) s = lock_acquire alive p s"
proof (cases "lk_file s")
  case None
  have "(lock_step alive p ^^ 2) s = lock_acquire alive p s"
    using assms None by (auto simp: numeral_2_eq_2 lock_step_def create_file_def write_info_def lock_acquire_def lock_busy_def goto_def)
  then show ?thesis by (intro exI[of _ 2]) simp
next
  case (Some f)
  show ?thesis
  proof (cases "lock_busy alive (lk_now s) (lk_file s)")
    case True
    have "(lock_step alive p ^^ 2) s = lock_acquire alive p s"
      using assms Some True by (auto simp: numeral_2_eq_2 lock_step_def lock_acquire_def)
    then show ?thesis by (intro exI[of _ 2]) simp
  next
    case False
    let ?n = "lk_now s"
    let ?r = "goto p (Retrying ?n) (s\<lparr>lk_file := None\<rparr>)"
    let ?c = "create_file p ?n (s\<lparr>lk_file := None\<rparr>)"
    have s1: "lock_step alive p s = goto p (Checking ?n) s"
      using assms Some by (auto simp: lock_step_def)
    have s2: "lock_step alive p (goto p (Checking ?n) s) = goto p (Removing ?n) s"
      using False by (simp add: lock_step_def)
    have s3: "lock_step alive p (goto p (Removing ?n) s) = ?r"
      by (simp add: lock_step_def goto_def)
    have s4: "lock_step alive p ?r = ?c"
      by (simp add: lock_step_def create_file_def goto_def)
    have s5: "lock_step alive p ?c = lock_acquire alive p s"
      using False by (simp add: lock_step_def create_file_def write_info_def lock_acquire_def goto_def)
    have "(lock_step alive p ^^ 5) s = lock_step alive p (lock_step alive p (lock_step alive p (lock_step alive p (lock_step alive p s))))"
      by (simp add: eval_nat_numeral)
    then have "(lock_step alive p ^^ 5) s = lock_acquire alive p s" by (simp only: s1 s2 s3 s4 s5)
    then show ?thesis by (intro exI[of _ 5]) simp
  qed
qed

lemma release_steps: "lk_place s p = Holding t \<Longrightarrow> \<exists>n \<le> 2. (lock_step alive p ^^ n) s = lock_release p s"
proof (cases "lk_file s = None \<or> (\<exists>f i. lk_file s = Some f \<and> lf_info f = Some i \<and> li_pid i \<noteq> p)")
  assume h: "lk_place s p = Holding t"
  case True
  then have "(lock_step alive p ^^ 1) s = lock_release p s" using h by (auto simp: lock_step_def lock_release_def)
  then show ?thesis by (intro exI[of _ 1]) simp
next
  assume h: "lk_place s p = Holding t"
  case False
  then have "(lock_step alive p ^^ 2) s = lock_release p s"
    using h by (auto simp: numeral_2_eq_2 lock_step_def lock_release_def goto_def split: option.splits)
  then show ?thesis by (intro exI[of _ 2]) simp
qed

section \<open>Exclusion\<close>

definition lock_inv :: "(nat \<Rightarrow> bool) \<Rightarrow> locks \<Rightarrow> bool" where
  "lock_inv alive s = (\<forall>p t. lk_place s p = Holding t \<longrightarrow> t \<le> lk_now s \<and>
     (lk_now s - t \<le> STALE_TIMEOUT_SECS \<longrightarrow> alive p \<longrightarrow>
        lk_file s = Some \<lparr>lf_maker = p, lf_info = Some \<lparr>li_pid = p, li_time = t\<rparr>\<rparr>))"

lemma lock_inv_call: "lock_inv alive s \<Longrightarrow> lock_inv alive (lock_call alive c s)"
proof (cases c)
  case (Acquire p)
  assume i: "lock_inv alive s"
  show ?thesis
  proof (cases "is_holding (lk_place s p) \<or> lock_busy alive (lk_now s) (lk_file s)")
    case True
    then show ?thesis using i Acquire by (auto simp: lock_inv_def lock_call_def lock_acquire_def)
  next
    case False
    have "\<not> (lk_now s - t \<le> STALE_TIMEOUT_SECS \<and> alive q)" if "lk_place s q = Holding t" for q t
      using i that False by (auto simp: lock_inv_def lock_busy_def is_stale_def)
    then show ?thesis using i Acquire False by (auto simp: lock_inv_def lock_call_def lock_acquire_def)
  qed
next
  case (Release p)
  assume i: "lock_inv alive s"
  show ?thesis
  proof (cases "is_holding (lk_place s p)")
    case True
    have "lk_file (lock_release p s) = lk_file s" if "lk_place s q = Holding t" "q \<noteq> p" "lk_now s - t \<le> STALE_TIMEOUT_SECS" "alive q" for q t
      using i that by (auto simp: lock_inv_def lock_release_def)
    moreover have "lk_place (lock_release p s) = (lk_place s)(p := Outside)" "lk_now (lock_release p s) = lk_now s"
      by (auto simp: lock_release_def split: option.split)
    ultimately show ?thesis using i Release True by (auto simp: lock_inv_def lock_call_def)
  qed (use i Release in \<open>simp add: lock_call_def\<close>)
next
  case (Pass d)
  assume "lock_inv alive s"
  then show ?thesis using Pass by (fastforce simp: lock_inv_def lock_call_def)
qed

interpretation lock_calls: preserved "lock_call alive" "lock_inv alive" for alive
  by unfold_locales (rule lock_inv_call)

text \<open>
  C21: Calls that do not overlap exclude each other for five minutes: whatever the sequence of calls to
  acquire and release, of two processes inside at the same time one entered more than five minutes ago
  or is taken for dead.  Each of these calls is what the steps of the process amount to when no other
  process comes in between.
\<close>

theorem lock_excludes:
  assumes "s = fold (lock_call alive) calls (no_locks start)"
    and "lk_place s p = Holding t" "lk_place s q = Holding u" "p \<noteq> q"
  shows "(lk_now s - t > STALE_TIMEOUT_SECS \<or> \<not> alive p) \<or> (lk_now s - u > STALE_TIMEOUT_SECS \<or> \<not> alive q)"
proof -
  have "lock_inv alive (no_locks start)" by (simp add: lock_inv_def no_locks_def)
  then have "lock_inv alive s" unfolding assms(1) by (rule lock_calls.history_kept)
  then have "lk_now s - t \<le> STALE_TIMEOUT_SECS \<Longrightarrow> alive p \<Longrightarrow>
      lk_file s = Some \<lparr>lf_maker = p, lf_info = Some \<lparr>li_pid = p, li_time = t\<rparr>\<rparr>"
    and "lk_now s - u \<le> STALE_TIMEOUT_SECS \<Longrightarrow> alive q \<Longrightarrow>
      lk_file s = Some \<lparr>lf_maker = q, lf_info = Some \<lparr>li_pid = q, li_time = u\<rparr>\<rparr>"
    using assms(2,3) unfolding lock_inv_def by blast+
  then show ?thesis using assms(4) by (cases "lk_now s - t \<le> STALE_TIMEOUT_SECS \<and> alive p") auto
qed

theorem lock_excludes_witness:
  "(let s = fold (lock_call (\<lambda>_. True)) [Acquire 1, Pass 301, Acquire 2] (no_locks 0) in
     lk_place s 1 = Holding 0 \<and> lk_place s 2 = Holding 301 \<and> lk_now s - 0 > STALE_TIMEOUT_SECS)"
proof -
  let ?s = "fold (lock_call (\<lambda>_. True)) [Acquire 1, Pass 301, Acquire 2] (no_locks 0)"
  have h: "lk_place ?s 1 = Holding 0" "lk_place ?s 2 = Holding 301" "lk_now ?s - 301 \<le> STALE_TIMEOUT_SECS" by code_simp+
  from lock_excludes[OF refl h(1,2)] h show ?thesis by (auto simp: Let_def)
qed

text \<open>
  Interleaved, the steps do not exclude: a process that looks at the file between its creation and
  the writing of its contents takes it for corrupt and removes it, and both are inside at once, at the
  same second.  Of two processes that found the same stale file, the second removes the file the first
  has just made.
\<close>

theorem lock_races:
  shows "(let s = fold (lock_step (\<lambda>_. True)) [1, 2, 2, 2, 2, 2, 1] (no_locks 0) in
      lk_place s 1 = Holding 0 \<and> lk_place s 2 = Holding 0)
    \<and> (let s = fold (lock_step (\<lambda>_. True)) [1, 2, 1, 2, 1, 1, 1, 2, 2, 2]
          (no_locks 1000\<lparr>lk_file := Some \<lparr>lf_maker = 9, lf_info = Some \<lparr>li_pid = 9, li_time = 0\<rparr>\<rparr>\<rparr>) in
      lk_place s 1 = Holding 1000 \<and> lk_place s 2 = Holding 1000)"
  by code_simp

end
