(* ===== verification/Memory.thy ===== *)
theory Memory
  imports Prelude
begin

text \<open>
  The hot and warm memory of a group: \<open>host/memory/hot.py\<close>, \<open>warm.py\<close>, \<open>compound.py\<close> and their tables in
  \<open>host/db.py\<close>.  Dates and times of day are strings that come with the events, times are seconds,
  importance is in percent.  The full-text index is left out; whether a section holds an importance
  keyword or a date (two regular expressions) is a parameter of the selection.
\<close>

section \<open>Bytes\<close>

text \<open>UTF-8 of the code points below 256.\<close>

definition utf8_char :: "char \<Rightarrow> nat list" where
  "utf8_char c = (let n = of_char c in if n < 128 then [n] else [192 + n div 64, 128 + n mod 64])"

definition utf8 :: "string \<Rightarrow> nat list" where
  "utf8 s = concat (map utf8_char s)"

definition is_cont :: "nat \<Rightarrow> bool" where
  "is_cont b = (b div 64 = 2)"

text \<open>\<open>decode("utf-8", errors="ignore")\<close> on the bytes of such a text, cut anywhere.\<close>

fun decode_ignore :: "nat list \<Rightarrow> string" where
  "decode_ignore [] = []"
| "decode_ignore (b # bs) =
     (if b < 128 then char_of b # decode_ignore bs
      else case bs of [] \<Rightarrow> []
        | c # cs \<Rightarrow> if b div 32 = 6 \<and> is_cont c then char_of ((b - 192) * 64 + (c - 128)) # decode_ignore cs
            else decode_ignore bs)"

text \<open>The loop that walks back to a character boundary.\<close>

fun back_up :: "nat list \<Rightarrow> nat \<Rightarrow> nat" where
  "back_up bs 0 = 0"
| "back_up bs (Suc k) = (if is_cont (bs ! Suc k) then back_up bs k else Suc k)"

definition safe_truncate :: "string \<Rightarrow> nat \<Rightarrow> string" where
  "safe_truncate s n =
     (let e = utf8 s in if length e \<le> n then s else decode_ignore (take (back_up e n) e))"

section \<open>Tables\<close>

record warm_row =
  wl_jid :: string
  wl_date :: string
  wl_content :: string
  wl_at :: int
  wl_importance :: int
  wl_type :: string

record sync_row =
  sy_micro :: int
  sy_daily :: int
  sy_weekly :: int

record mem =
  hot :: "(string, string) dict"
  warm :: "warm_row list"
  sync :: "(string, sync_row) dict"

definition get_hot_memory :: "string \<Rightarrow> mem \<Rightarrow> string" where
  "get_hot_memory jid m = (case dget (hot m) jid of None \<Rightarrow> [] | Some c \<Rightarrow> c)"

definition set_hot_memory :: "string \<Rightarrow> string \<Rightarrow> mem \<Rightarrow> mem" where
  "set_hot_memory jid c m = m\<lparr>hot := dset jid c (hot m)\<rparr>"

definition get_warm_logs_recent :: "int \<Rightarrow> string \<Rightarrow> int \<Rightarrow> mem \<Rightarrow> warm_row list" where
  "get_warm_logs_recent now jid days m =
     rev (sort_key wl_at (filter (\<lambda>r. wl_jid r = jid \<and> wl_at r \<ge> now - days * 86400) (warm m)))"

definition get_warm_logs_for_date :: "string \<Rightarrow> string \<Rightarrow> mem \<Rightarrow> warm_row list" where
  "get_warm_logs_for_date jid date m = sort_key wl_at (filter (\<lambda>r. wl_jid r = jid \<and> wl_date r = date) (warm m))"

definition delete_warm_logs_before :: "string \<Rightarrow> int \<Rightarrow> mem \<Rightarrow> mem \<times> nat" where
  "delete_warm_logs_before jid cutoff m =
     (m\<lparr>warm := filter (\<lambda>r. \<not> (wl_jid r = jid \<and> wl_at r < cutoff)) (warm m)\<rparr>,
      length (filter (\<lambda>r. wl_jid r = jid \<and> wl_at r < cutoff) (warm m)))"

definition record_sync :: "(sync_row \<Rightarrow> sync_row) \<Rightarrow> string \<Rightarrow> mem \<Rightarrow> mem" where
  "record_sync f jid m = m\<lparr>sync := dset jid
     (f (case dget (sync m) jid of None \<Rightarrow> \<lparr>sy_micro = 0, sy_daily = 0, sy_weekly = 0\<rparr> | Some r \<Rightarrow> r)) (sync m)\<rparr>"

section \<open>Updates\<close>

definition HOT_MEMORY_MAX_BYTES :: nat where "HOT_MEMORY_MAX_BYTES = 8192"

definition update_hot_memory :: "string \<Rightarrow> string \<Rightarrow> mem \<Rightarrow> mem" where
  "update_hot_memory jid c = set_hot_memory jid
     (if length (utf8 c) > HOT_MEMORY_MAX_BYTES then safe_truncate c HOT_MEMORY_MAX_BYTES else c)"

definition MEMORY_KEYWORDS :: "(string \<times> string list \<times> int) list" where
  "MEMORY_KEYWORDS =
     [(''decision'', [''decided'', ''we will'', ''going with'', ''chosen'', ''agreed'', ''conclusion''], 90),
      (''preference'', [''prefer'', ''always use'', ''don'' @ [CHR 0x27] @ ''t like'', ''favorite'', ''want to'', ''please use''], 85),
      (''milestone'', [''completed'', ''finished'', ''shipped'', ''deployed'', ''released'', ''done''], 88),
      (''problem'', [''error'', ''bug'', ''issue'', ''broken'', ''fail'', ''crash'', ''exception'', ''problem''], 80),
      (''fact'', [''is a'', ''defined as'', ''means'', ''equals'', ''located at'', ''runs on''], 70),
      (''technical'', [''function'', ''class'', ''import'', ''async'', ''api'', ''endpoint'', ''schema''], 65)]"

definition classify_entry :: "string \<Rightarrow> string \<times> int" where
  "classify_entry text = fold (\<lambda>(t, ks, i) (bt, bi). if list_ex (\<lambda>k. sublist k (lower text)) ks \<and> i > bi then (t, i) else (bt, bi))
     MEMORY_KEYWORDS (''general'', 50)"

definition newline :: string where "newline = [CHR 0x0A]"

text \<open>\<open>str.upper\<close> of a word in ASCII.\<close>

definition upper :: "string \<Rightarrow> string" where
  "upper s = map (\<lambda>c. let n = (of_char c :: nat) in if 97 \<le> n \<and> n \<le> 122 then char_of (n - 32) else c) s"

definition preview :: "string \<Rightarrow> string" where
  "preview s = map (\<lambda>c. if c = CHR 0x0A then CHR '' '' else c) (take 500 s)"

text \<open>An addition at the end of the hot memory, made only when it fits.\<close>

definition append_hot :: "string \<Rightarrow> string \<Rightarrow> mem \<Rightarrow> mem" where
  "append_hot jid note' m = (let new = rstrip (get_hot_memory jid m) @ note' in
     if length (utf8 new) \<le> HOT_MEMORY_MAX_BYTES then update_hot_memory jid new m else m)"

definition append_warm_log :: "int \<Rightarrow> string \<Rightarrow> string \<Rightarrow> string \<Rightarrow> string \<Rightarrow> string \<Rightarrow> mem \<Rightarrow> mem" where
  "append_warm_log now today ts jid user_msg bot_msg m =
     (let u = preview user_msg; a = preview bot_msg; text = u @ '' '' @ a; (ty, imp) = classify_entry text;
          entry = ''### '' @ ts @ newline @ ''User: '' @ u @ newline @ ''Bot: '' @ a @ newline;
          m = m\<lparr>warm := warm m @ [\<lparr>wl_jid = jid, wl_date = today, wl_content = entry, wl_at = now, wl_importance = imp, wl_type = ty\<rparr>]\<rparr> in
      if imp \<ge> 85
      then append_hot jid (newline @ ''- ['' @ upper ty @ ''] '' @ take 150 text @ newline) m
      else m)"

text \<open>A note that is not in the memory yet.\<close>

definition append_note :: "string \<Rightarrow> string \<Rightarrow> mem \<Rightarrow> mem" where
  "append_note jid note' m = (if sublist note' (get_hot_memory jid m) then m else append_hot jid note' m)"

definition run_micro_sync :: "int \<Rightarrow> string \<Rightarrow> string \<Rightarrow> mem \<Rightarrow> mem" where
  "run_micro_sync now today jid m =
     (if get_warm_logs_recent now jid 1 m = [] then m
      else record_sync (\<lambda>r. r\<lparr>sy_micro := now\<rparr>) jid
        (append_note jid (newline @ newline @ ''[Last sync: '' @ today @ '']'' @ newline) m))"

definition run_daily_wrapup :: "int \<Rightarrow> string \<Rightarrow> string \<Rightarrow> string \<Rightarrow> mem \<Rightarrow> mem" where
  "run_daily_wrapup now today yesterday jid m =
     (let n = length (get_warm_logs_for_date jid yesterday m) in
      record_sync (\<lambda>r. r\<lparr>sy_daily := now\<rparr>) jid
        (if n = 0 then m
         else append_note jid (newline @ newline @ ''[Daily wrapup: '' @ today @ '', '' @ show_nat n @ '' log entries]'' @ newline) m))"

definition WARM_RETENTION_DAYS :: int where "WARM_RETENTION_DAYS = 30"

definition prune_old_warm_logs :: "int \<Rightarrow> string \<Rightarrow> mem \<Rightarrow> mem \<times> nat" where
  "prune_old_warm_logs now jid = delete_warm_logs_before jid (now - WARM_RETENTION_DAYS * 86400)"

definition run_weekly_compound :: "int \<Rightarrow> string \<Rightarrow> string \<Rightarrow> mem \<Rightarrow> mem" where
  "run_weekly_compound now week jid m =
     (let (m, n) = prune_old_warm_logs now jid m in
      record_sync (\<lambda>r. r\<lparr>sy_weekly := now\<rparr>) jid
        (append_note jid (newline @ ''[Weekly compound: '' @ week @ '', pruned '' @ show_nat n @ '' old entries]'' @ newline) m))"

section \<open>Selection for the prompt\<close>

text \<open>The start of a section: a line that begins with two hashes and white space, or a rule.\<close>

definition section_start :: "string \<Rightarrow> bool" where
  "section_start s =
     ((prefix ''##'' s \<and> length s > 2 \<and> is_space (s ! 2))
      \<or> (prefix ''---'' s \<and> list_all is_space (takeWhile (\<lambda>c. c \<noteq> CHR 0x0A) (drop 3 s))))"

text \<open>\<open>re.split\<close> at the empty matches before such lines; the flag says that a line begins here.\<close>

fun split_sections :: "bool \<Rightarrow> string \<Rightarrow> string list" where
  "split_sections b [] = [[]]"
| "split_sections b (c # cs) =
     (let rest = split_sections (c = CHR 0x0A) cs; grown = (c # hd rest) # tl rest in
      if b \<and> section_start (c # cs) then [] # grown else grown)"

definition sections_of :: "string \<Rightarrow> string list" where
  "sections_of s = filter (\<lambda>p. strip p \<noteq> []) (split_sections True s)"

definition score_section :: "(string \<Rightarrow> bool) \<Rightarrow> (string \<Rightarrow> bool) \<Rightarrow> string \<Rightarrow> int" where
  "score_section important dated s = (if important s then 90 else if dated s then 70 else 50)"

fun pick :: "nat \<Rightarrow> nat \<Rightarrow> string list \<Rightarrow> string list" where
  "pick budget used [] = []"
| "pick budget used (s # ss) =
     (if used + (length s + 1) > budget then pick budget used ss else s # pick budget (used + (length s + 1)) ss)"

definition wake_up :: "(string \<Rightarrow> bool) \<Rightarrow> (string \<Rightarrow> bool) \<Rightarrow> nat \<Rightarrow> string \<Rightarrow> string" where
  "wake_up important dated token_budget raw =
     (if strip raw = [] then []
      else let ss = sections_of raw; scored = sort_key (\<lambda>s. - score_section important dated s) ss;
               chosen = pick (token_budget * 4) 0 scored in
        join newline (filter (\<lambda>s. s \<in> set chosen) ss))"

text \<open>Labelled lines up to a number of characters.\<close>

fun render_loop :: "nat \<Rightarrow> nat \<Rightarrow> (string \<times> string \<times> string) list \<Rightarrow> string list" where
  "render_loop cap used [] = []"
| "render_loop cap used ((src, scope, content) # ms) =
     (let line = ''['' @ upper src @ ''|'' @ scope @ ''] '' @ content in
      if used + length line > cap then [] else line # render_loop cap (used + (length line + 1)) ms)"

definition render_for_prompt :: "(string \<times> string \<times> string) list \<Rightarrow> nat \<Rightarrow> string" where
  "render_for_prompt ms cap = join newline (render_loop cap 0 ms)"


section \<open>Truncation\<close>

lemma utf8_simps [simp]: "utf8 [] = []" "utf8 (c # cs) = utf8_char c @ utf8 cs" "utf8 (a @ b) = utf8 a @ utf8 b"
  by (simp_all add: utf8_def)

lemma utf8_char_cases:
  obtains n where "utf8_char c = [n]" "n < 128" "char_of n = c"
  | n k where "utf8_char c = [n, k]" "n div 32 = 6" "is_cont k" "\<not> is_cont n" "char_of ((n - 192) * 64 + (k - 128)) = c"
proof (cases "(of_char c :: nat) < 128")
  case True
  then show thesis using that(1)[of "of_char c"] by (simp add: utf8_char_def Let_def)
next
  case False
  let ?n = "of_char c :: nat"
  have b: "?n < 256" by (metis nat_of_char_less_256)
  have q: "?n div 64 < 4" using less_mult_imp_div_less[of ?n 4 64] b by simp
  have "(192 + ?n div 64) div 32 = 6" using q by (intro div_nat_eqI) simp_all
  moreover have "(128 + ?n mod 64) div 64 = 2" by (intro div_nat_eqI) simp_all
  moreover have "(192 + ?n div 64) div 64 = 3" using q by (intro div_nat_eqI) simp_all
  moreover have "(192 + ?n div 64 - 192) * 64 + (128 + ?n mod 64 - 128) = ?n" by simp
  ultimately show thesis using that(2)[of "192 + ?n div 64" "128 + ?n mod 64"] False
    by (simp add: utf8_char_def Let_def is_cont_def)
qed

lemma decode_utf8: "decode_ignore (utf8 s) = s"
proof (induction s)
  case (Cons c s)
  show ?case
  proof (cases c rule: utf8_char_cases)
    case (1 n)
    then show ?thesis using Cons by simp
  next
    case (2 n k)
    then have "\<not> n < 128" by auto
    then show ?thesis using 2 Cons by simp
  qed
qed simp

lemma back_up_to:
  "b \<le> n \<Longrightarrow> (\<And>i. b < i \<Longrightarrow> i \<le> n \<Longrightarrow> is_cont (e ! i)) \<Longrightarrow> b = 0 \<or> \<not> is_cont (e ! b) \<Longrightarrow> back_up e n = b"
proof (induction n)
  case (Suc n)
  show ?case
  proof (cases "b = Suc n")
    case True
    then show ?thesis using Suc by simp
  next
    case False
    then have "is_cont (e ! Suc n)" "b \<le> n" using Suc by auto
    then show ?thesis using Suc by simp
  qed
qed simp

lemma utf8_cut: "n < length (utf8 s) \<Longrightarrow>
    \<exists>j < length s. length (utf8 (take j s)) \<le> n \<and> n < length (utf8 (take (Suc j) s))"
proof (induction s arbitrary: n)
  case (Cons c s)
  show ?case
  proof (cases "n < length (utf8_char c)")
    case True
    then show ?thesis by (intro exI[of _ 0]) simp
  next
    case False
    then have "n - length (utf8_char c) < length (utf8 s)" using Cons.prems by simp
    from Cons.IH[OF this] obtain j where "j < length s" "length (utf8 (take j s)) \<le> n - length (utf8_char c)"
      "n - length (utf8_char c) < length (utf8 (take (Suc j) s))" by blast
    then show ?thesis using False by (intro exI[of _ "Suc j"]) auto
  qed
qed simp

text \<open>A text that is too long keeps the longest beginning that fits, and no character is split.\<close>

theorem truncate_exact:
  assumes "length (utf8 s) > n"
  shows "\<exists>j. safe_truncate s n = take j s \<and> length (utf8 (take j s)) \<le> n \<and> length (utf8 (take (Suc j) s)) > n"
proof -
  obtain j where j: "j < length s" "length (utf8 (take j s)) \<le> n" "n < length (utf8 (take (Suc j) s))"
    using utf8_cut[OF assms] by blast
  let ?b = "length (utf8 (take j s))"
  have s: "s = take j s @ s ! j # drop (Suc j) s" using j(1) by (rule id_take_nth_drop)
  then have e: "utf8 s = utf8 (take j s) @ utf8_char (s ! j) @ utf8 (drop (Suc j) s)" by (metis utf8_simps(2,3) append.assoc)
  have t: "utf8 (take (Suc j) s) = utf8 (take j s) @ utf8_char (s ! j)" using j(1) by (simp add: take_Suc_conv_app_nth)
  have "back_up (utf8 s) n = ?b"
  proof (cases "s ! j" rule: utf8_char_cases)
    case (1 k)
    then have "n = ?b" "\<not> is_cont (utf8 s ! ?b)" using j t e by (auto simp: nth_append is_cont_def)
    then show ?thesis by (intro back_up_to) auto
  next
    case (2 k l)
    have nth: "utf8 s ! ?b = k" "utf8 s ! Suc ?b = l" unfolding e 2(1) by (simp_all add: nth_append)
    have "i = Suc ?b" if "?b < i" "i \<le> n" for i using that j(3) t 2(1) by simp
    then show ?thesis using j(2) 2(3,4) nth by (intro back_up_to) auto
  qed
  then have "safe_truncate s n = decode_ignore (take ?b (utf8 s))" using assms by (simp add: safe_truncate_def Let_def)
  also have "take ?b (utf8 s) = utf8 (take j s)" by (simp add: e)
  finally show ?thesis using j decode_utf8 by (intro exI[of _ j]) simp
qed


section \<open>The hot memory stays small, and full\<close>

datatype mem_event =
    Patch string string
  | Chatted int string string string string string
  | Micro_sync int string string
  | Daily_wrapup int string string string
  | Weekly_compound int string string

definition mem_step :: "mem_event \<Rightarrow> mem \<Rightarrow> mem" where
  "mem_step e m = (case e of
      Patch jid c \<Rightarrow> update_hot_memory jid c m
    | Chatted now today ts jid u a \<Rightarrow> append_warm_log now today ts jid u a m
    | Micro_sync now today jid \<Rightarrow> run_micro_sync now today jid m
    | Daily_wrapup now today yesterday jid \<Rightarrow> run_daily_wrapup now today yesterday jid m
    | Weekly_compound now week jid \<Rightarrow> run_weekly_compound now week jid m)"

fun mem_jid :: "mem_event \<Rightarrow> string" where
  "mem_jid (Patch jid _) = jid"
| "mem_jid (Chatted _ _ _ jid _ _) = jid"
| "mem_jid (Micro_sync _ _ jid) = jid"
| "mem_jid (Daily_wrapup _ _ _ jid) = jid"
| "mem_jid (Weekly_compound _ _ jid) = jid"

definition empty_mem :: mem where "empty_mem = \<lparr>hot = [], warm = [], sync = []\<rparr>"

text \<open>Every event but a patch is at most one addition at the end of the memory of its group.\<close>

lemma record_sync_hot [simp]: "hot (record_sync f jid m) = hot m"
  by (simp add: record_sync_def)

lemma append_hot_cases: "hot (append_hot jid x m) = hot m
    \<or> (length (utf8 (rstrip (get_hot_memory jid m) @ x)) \<le> HOT_MEMORY_MAX_BYTES
       \<and> hot (append_hot jid x m) = dset jid (rstrip (get_hot_memory jid m) @ x) (hot m))"
  by (simp add: append_hot_def Let_def update_hot_memory_def set_hot_memory_def)

lemma append_hot_cong: "hot m = hot m' \<Longrightarrow> hot (append_hot jid x m) = hot (append_hot jid x m')"
  by (simp add: append_hot_def Let_def update_hot_memory_def set_hot_memory_def get_hot_memory_def)

lemma append_hot_other_fields: "append_hot jid x (m\<lparr>warm := w\<rparr>) = (append_hot jid x m)\<lparr>warm := w\<rparr>"
  by (simp add: append_hot_def Let_def update_hot_memory_def set_hot_memory_def get_hot_memory_def)

lemma get_hot_warm [simp]: "get_hot_memory jid (m\<lparr>warm := w\<rparr>) = get_hot_memory jid m"
  by (simp add: get_hot_memory_def)

definition long_note :: "string \<Rightarrow> bool" where "long_note x = (12 < length (utf8 x))"

lemma utf8_length: "length s \<le> length (utf8 s)"
proof (induction s)
  case (Cons c s)
  have "1 \<le> length (utf8_char c)" by (simp add: utf8_char_def Let_def)
  then show ?case using Cons by simp
qed simp

lemma long_noteI: "12 < length x \<Longrightarrow> long_note x"
  using utf8_length[of x] by (simp add: long_note_def)

lemma classify_length: "snd (classify_entry t) \<ge> 85 \<Longrightarrow> length (fst (classify_entry t)) \<ge> 8"
proof -
  let ?f = "\<lambda>(t', ks, i) (bt, bi). if list_ex (\<lambda>k. sublist k (lower t)) ks \<and> i > bi then (t', i) else (bt, bi :: int)"
  have f: "snd (fold ?f kws b) \<ge> 85 \<longrightarrow> length (fst (fold ?f kws b)) \<ge> 8"
    if "list_all (\<lambda>(t, ks, i). i \<ge> 85 \<longrightarrow> length t \<ge> 8) kws" "snd b \<ge> 85 \<longrightarrow> length (fst b) \<ge> 8" for kws :: "(string \<times> string list \<times> int) list" and b :: "string \<times> int"
    using that
  proof (induction kws arbitrary: b)
    case (Cons w kws)
    have "snd (?f w b) \<ge> 85 \<longrightarrow> length (fst (?f w b)) \<ge> 8" using Cons.prems by (cases w; cases b) auto
    then show ?case using Cons by simp
  qed simp
  have "list_all (\<lambda>(t, ks, i). i \<ge> 85 \<longrightarrow> length t \<ge> 8) MEMORY_KEYWORDS" by code_simp
  from f[OF this, of "(''general'', 50)"] show "snd (classify_entry t) \<ge> 85 \<Longrightarrow> length (fst (classify_entry t)) \<ge> 8"
    by (simp only: classify_entry_def snd_conv fst_conv) simp
qed

lemma append_note_cases: "hot (append_note jid x m) = hot m
    \<or> (length (utf8 (rstrip (get_hot_memory jid m) @ x)) \<le> HOT_MEMORY_MAX_BYTES
       \<and> hot (append_note jid x m) = dset jid (rstrip (get_hot_memory jid m) @ x) (hot m))"
  using append_hot_cases[of jid x m] by (simp add: append_note_def)

fun is_patch :: "mem_event \<Rightarrow> bool" where
  "is_patch (Patch _ _) = True"
| "is_patch _ = False"

lemma mem_step_hot:
  assumes "\<not> is_patch e"
  shows "hot (mem_step e m) = hot m \<or> (\<exists>x. long_note x
    \<and> length (utf8 (rstrip (get_hot_memory (mem_jid e) m) @ x)) \<le> HOT_MEMORY_MAX_BYTES
    \<and> hot (mem_step e m) = dset (mem_jid e) (rstrip (get_hot_memory (mem_jid e) m) @ x) (hot m))"
proof (cases e)
  case (Chatted now today ts jid u a)
  let ?text = "preview u @ '' '' @ preview a"
  obtain ty imp where c: "classify_entry ?text = (ty, imp)" by fastforce
  define x where "x = newline @ ''- ['' @ upper ty @ ''] '' @ take 150 ?text @ newline"
  have l: "long_note x" if "imp \<ge> 85"
    using classify_length[of ?text] c that by (intro long_noteI) (simp add: x_def upper_def newline_def)
  define w where "w = warm m @ [\<lparr>wl_jid = jid, wl_date = today,
     wl_content = ''### '' @ ts @ newline @ ''User: '' @ preview u @ newline @ ''Bot: '' @ preview a @ newline,
     wl_at = now, wl_importance = imp, wl_type = ty\<rparr>]"
  have m: "mem_step e m = (if imp \<ge> 85 then append_hot jid x (m\<lparr>warm := w\<rparr>) else m\<lparr>warm := w\<rparr>)"
    unfolding mem_step_def Chatted mem_event.case append_warm_log_def Let_def c prod.case x_def w_def ..
  show ?thesis
  proof (cases "imp \<ge> 85")
    case True
    then show ?thesis using m l append_hot_cases[of jid x "m\<lparr>warm := w\<rparr>"] Chatted by auto
  qed (use m in simp)
next
  case (Micro_sync now today jid)
  have "long_note (newline @ newline @ ''[Last sync: '' @ today @ '']'' @ newline)" by (rule long_noteI) simp
  then show ?thesis using Micro_sync append_note_cases[of jid "newline @ newline @ ''[Last sync: '' @ today @ '']'' @ newline" m]
    unfolding mem_step_def run_micro_sync_def mem_event.case by (cases "get_warm_logs_recent now jid 1 m = []") auto
next
  case (Daily_wrapup now today yesterday jid)
  let ?n = "length (get_warm_logs_for_date jid yesterday m)"
  let ?x = "newline @ newline @ ''[Daily wrapup: '' @ today @ '', '' @ show_nat ?n @ '' log entries]'' @ newline"
  have "long_note ?x" by (rule long_noteI) simp
  then show ?thesis using Daily_wrapup append_note_cases[of jid ?x m]
    unfolding mem_step_def run_daily_wrapup_def mem_event.case Let_def by (cases "?n = 0") auto
next
  case (Weekly_compound now week jid)
  obtain m' n where p: "prune_old_warm_logs now jid m = (m', n)" by fastforce
  then have h: "hot m' = hot m" by (auto simp: prune_old_warm_logs_def delete_warm_logs_before_def)
  let ?x = "newline @ ''[Weekly compound: '' @ week @ '', pruned '' @ show_nat n @ '' old entries]'' @ newline"
  have "long_note ?x" by (rule long_noteI) simp
  moreover have "get_hot_memory jid m' = get_hot_memory jid m" using h by (simp add: get_hot_memory_def)
  ultimately show ?thesis using Weekly_compound append_note_cases[of jid ?x m'] p h
    unfolding mem_step_def run_weekly_compound_def mem_event.case Let_def by auto
qed (use assms in simp)

definition hot_bounded :: "mem \<Rightarrow> bool" where
  "hot_bounded m = (\<forall>jid c. dget (hot m) jid = Some c \<longrightarrow> length (utf8 c) \<le> HOT_MEMORY_MAX_BYTES)"

lemma hot_bounded_step: "hot_bounded m \<Longrightarrow> hot_bounded (mem_step e m)"
proof (cases "is_patch e")
  case True
  assume b: "hot_bounded m"
  obtain jid c where e: "e = Patch jid c" using True by (cases e) auto
  have "length (utf8 (safe_truncate c HOT_MEMORY_MAX_BYTES)) \<le> HOT_MEMORY_MAX_BYTES" if "HOT_MEMORY_MAX_BYTES < length (utf8 c)"
    using truncate_exact[OF that] by auto
  then show ?thesis using b e by (simp add: mem_step_def update_hot_memory_def set_hot_memory_def hot_bounded_def)
next
  case False
  assume b: "hot_bounded m"
  show ?thesis using mem_step_hot[OF False, of m] b by (auto simp: hot_bounded_def split: if_splits)
qed

interpretation memory: preserved mem_step hot_bounded
  by unfold_locales (rule hot_bounded_step)

definition hot_full :: "string \<Rightarrow> mem \<Rightarrow> bool" where
  "hot_full jid m = (length (utf8 (rstrip (get_hot_memory jid m))) + 12 \<ge> HOT_MEMORY_MAX_BYTES)"

lemma full_step: "hot_full jid m \<Longrightarrow> \<not> (is_patch e \<and> mem_jid e = jid) \<Longrightarrow> get_hot_memory jid (mem_step e m) = get_hot_memory jid m"
proof (cases "is_patch e")
  case True
  assume "\<not> (is_patch e \<and> mem_jid e = jid)"
  then show ?thesis using True by (cases e) (simp_all add: mem_step_def update_hot_memory_def set_hot_memory_def get_hot_memory_def)
next
  case False
  assume f: "hot_full jid m"
  from mem_step_hot[OF False, of m] show ?thesis
  proof
    assume "\<exists>x. long_note x \<and> length (utf8 (rstrip (get_hot_memory (mem_jid e) m) @ x)) \<le> HOT_MEMORY_MAX_BYTES
      \<and> hot (mem_step e m) = dset (mem_jid e) (rstrip (get_hot_memory (mem_jid e) m) @ x) (hot m)"
    then obtain x where x: "long_note x" "length (utf8 (rstrip (get_hot_memory (mem_jid e) m) @ x)) \<le> HOT_MEMORY_MAX_BYTES"
      "hot (mem_step e m) = dset (mem_jid e) (rstrip (get_hot_memory (mem_jid e) m) @ x) (hot m)" by blast
    have "mem_jid e \<noteq> jid" using f x(1,2) by (auto simp: hot_full_def long_note_def)
    then show ?thesis using x(3) by (simp add: get_hot_memory_def)
  qed (simp add: get_hot_memory_def)
qed

text \<open>
  C25: No hot memory ever exceeds its 8192 bytes.  But chats, syncs, wrap-ups and the weekly pass only ever
  add at the end, and the pass that would condense the memory is never started: once a group's memory is
  within twelve bytes of the limit it stays as it is until a whole new one is sent.
\<close>

theorem hot_memory_bounded_and_frozen:
  assumes "m = fold mem_step before empty_mem"
    and "hot_full jid m" "list_all (\<lambda>e. \<not> (is_patch e \<and> mem_jid e = jid)) later"
  shows "length (utf8 (get_hot_memory g m)) \<le> HOT_MEMORY_MAX_BYTES
    \<and> get_hot_memory jid (fold mem_step later m) = get_hot_memory jid m"
proof
  have "hot_bounded empty_mem" by (simp add: hot_bounded_def empty_mem_def)
  then have "hot_bounded m" unfolding assms(1) by (rule memory.history_kept)
  then show "length (utf8 (get_hot_memory g m)) \<le> HOT_MEMORY_MAX_BYTES"
    by (auto simp: hot_bounded_def get_hot_memory_def split: option.split)
  show "get_hot_memory jid (fold mem_step later m) = get_hot_memory jid m"
    using assms(2,3)
  proof (induction later arbitrary: m)
    case (Cons e later)
    then have "get_hot_memory jid (mem_step e m) = get_hot_memory jid m" by (auto intro: full_step)
    moreover from this have "hot_full jid (mem_step e m)" using Cons.prems(1) by (simp add: hot_full_def)
    ultimately show ?case using Cons by simp
  qed simp
qed

theorem hot_memory_bounded_and_frozen_witness:
  "(let m = fold mem_step [Patch ''g'' (replicate 9000 CHR ''x'')] empty_mem in
     length (utf8 (get_hot_memory ''g'' m)) \<le> HOT_MEMORY_MAX_BYTES
     \<and> get_hot_memory ''g'' (fold mem_step [Chatted 0 ''d'' ''t'' ''g'' ''we decided on blue'' ''ok''] m) = get_hot_memory ''g'' m)"
proof -
  let ?m = "fold mem_step [Patch ''g'' (replicate 9000 CHR ''x'')] empty_mem"
  have r: "rev (replicate n CHR ''x'') = replicate n CHR ''x''" for n by simp
  have "utf8_char CHR ''x'' = [120]" "\<not> is_space CHR ''x''" by code_simp+
  then have u: "length (utf8 (replicate n CHR ''x'')) = n" "rstrip (replicate n CHR ''x'') = replicate n CHR ''x''" for n
    by (simp_all add: utf8_def rstrip_def dropWhile_eq_self_iff sum_list_replicate comp_def length_concat)
  obtain j where j: "safe_truncate (replicate 9000 CHR ''x'') 8192 = take j (replicate 9000 CHR ''x'')"
    "length (utf8 (take j (replicate 9000 CHR ''x''))) \<le> 8192" "length (utf8 (take (Suc j) (replicate 9000 CHR ''x''))) > 8192"
    using truncate_exact[of 8192 "replicate 9000 CHR ''x''"] u by auto
  then have "get_hot_memory ''g'' ?m = replicate 8192 CHR ''x''"
    using u by (simp add: mem_step_def update_hot_memory_def set_hot_memory_def get_hot_memory_def empty_mem_def HOT_MEMORY_MAX_BYTES_def dget_Cons min_def split: if_splits)
  then have f: "hot_full ''g'' ?m" using u by (simp add: hot_full_def HOT_MEMORY_MAX_BYTES_def)
  have "list_all (\<lambda>e. \<not> (is_patch e \<and> mem_jid e = ''g'')) [Chatted 0 ''d'' ''t'' ''g'' ''we decided on blue'' ''ok'']" by simp
  from hot_memory_bounded_and_frozen[OF refl f this] show ?thesis unfolding Let_def by blast
qed


section \<open>The selection for the prompt\<close>

definition cost_of :: "string list \<Rightarrow> nat" where
  "cost_of ss = sum_list (map (\<lambda>s. length s + 1) ss)"

lemma join_length: "length (join newline ss) \<le> cost_of ss"
  by (induction "newline" ss rule: join.induct) (simp_all add: cost_of_def newline_def)

lemma pick_budget: "used \<le> budget \<Longrightarrow> used + cost_of (pick budget used ss) \<le> budget"
proof (induction budget used ss rule: pick.induct)
  case (2 budget used s ss)
  then show ?case by (cases "used + (length s + 1) > budget") (simp_all add: cost_of_def)
qed (simp add: cost_of_def)

lemma set_pick: "set (pick budget used ss) \<subseteq> set ss"
  by (induction budget used ss rule: pick.induct) auto

lemma distinct_pick: "distinct ss \<Longrightarrow> distinct (pick budget used ss)"
proof (induction budget used ss rule: pick.induct)
  case (2 budget used s ss)
  then show ?case using set_pick[of budget "used + (length s + 1)" ss] by auto
qed simp

text \<open>
  The sections chosen for the prompt come in the order of the document and fit the budget when no section
  occurs twice.  When one does, both copies are kept as soon as one is chosen, so the budget can be
  exceeded.
\<close>

theorem wake_up_budget:
  assumes "distinct (sections_of raw)"
  shows "length (wake_up important dated n raw) \<le> n * 4"
proof (cases "strip raw = []")
  case False
  let ?ss = "sections_of raw"
  let ?sc = "sort_key (\<lambda>s. - score_section important dated s) ?ss"
  let ?ch = "pick (n * 4) 0 ?sc"
  have "distinct ?ch" using assms by (intro distinct_pick) simp
  moreover have "set ?ch \<subseteq> set ?ss" using set_pick[of "n * 4" 0 ?sc] by simp
  then have "set (filter (\<lambda>s. s \<in> set ?ch) ?ss) = set ?ch" by auto
  ultimately have "cost_of (filter (\<lambda>s. s \<in> set ?ch) ?ss) = cost_of ?ch"
    using assms by (simp add: cost_of_def sum_list_distinct_conv_sum_set)
  also have "\<dots> \<le> n * 4" using pick_budget[of 0 "n * 4" ?sc] by simp
  finally have "cost_of (filter (\<lambda>s. s \<in> set ?ch) ?ss) \<le> n * 4" .
  then have "length (join newline (filter (\<lambda>s. s \<in> set ?ch) ?ss)) \<le> n * 4" using join_length le_trans by blast
  then show ?thesis using False by (simp add: wake_up_def Let_def)
qed (simp add: wake_up_def)

theorem wake_up_budget_witness:
  "length (wake_up (\<lambda>s. s = ''## b'') (\<lambda>_. False) 2 (''## a'' @ newline @ ''## b'')) \<le> 2 * 4
    \<and> wake_up (\<lambda>s. s = ''## b'') (\<lambda>_. False) 2 (''## a'' @ newline @ ''## b'') = ''## b''
    \<and> length (wake_up (\<lambda>_. False) (\<lambda>_. False) 2 (''## a'' @ newline @ ''## a'' @ newline)) = 11"
proof -
  have d: "distinct (sections_of (''## a'' @ newline @ ''## b''))"
    "wake_up (\<lambda>s. s = ''## b'') (\<lambda>_. False) 2 (''## a'' @ newline @ ''## b'') = ''## b''"
    "length (wake_up (\<lambda>_. False) (\<lambda>_. False) 2 (''## a'' @ newline @ ''## a'' @ newline)) = 11" by code_simp+
  from wake_up_budget[OF d(1)] d show ?thesis by blast
qed

lemma render_loop_length: "used \<le> cap \<Longrightarrow> used + length (join newline (render_loop cap used ms)) \<le> cap"
proof (induction cap used ms rule: render_loop.induct)
  case (2 cap used src scope content ms)
  let ?line = "''['' @ upper src @ ''|'' @ scope @ ''] '' @ content"
  show ?case
  proof (cases "used + length ?line > cap")
    case False
    show ?thesis
    proof (cases "render_loop cap (used + (length ?line + 1)) ms")
      case Nil
      then show ?thesis using False by (simp add: Let_def)
    next
      case (Cons l ls)
      then have "used + (length ?line + 1) \<le> cap" using False by (cases ms) (auto simp: Let_def split: if_splits)
      from 2(1)[OF refl False this] show ?thesis using False Cons by (simp add: Let_def newline_def)
    qed
  qed (use 2 in \<open>simp add: Let_def\<close>)
qed simp

theorem render_within_cap: "length (render_for_prompt ms cap) \<le> cap"
  using render_loop_length[of 0 cap ms] by (simp add: render_for_prompt_def)

end
