(* ===== verification/Container.thy ===== *)
theory Container
  imports Evolution ChatDb TaskScheduler Files Memory
begin

text \<open>
  How the host prepares a container: the circuit breaker, the mounts, the command line and the input of
  \<open>host/container_runner.py\<close>, with the reader of the \<open>.env\<close> file (\<open>host/env.py\<close>).  The branch for
  Windows is left out.  Times are in milliseconds; \<open>realpath\<close> is \<open>Path.resolve\<close>.
\<close>

section \<open>The circuit breaker\<close>

text \<open>The dictionaries \<open>_docker_failures\<close> and \<open>_docker_failure_time\<close>, by group folder.\<close>

record breaker =
  br_fails :: "(string, nat) dict"
  br_times :: "(string, int) dict"

definition DOCKER_CIRCUIT_THRESHOLD :: nat where "DOCKER_CIRCUIT_THRESHOLD = 3"
definition DOCKER_HALF_OPEN :: int where "DOCKER_HALF_OPEN = 60000"

definition docker_fails :: "string \<Rightarrow> breaker \<Rightarrow> nat" where
  "docker_fails f b = (case dget (br_fails b) f of None \<Rightarrow> 0 | Some n \<Rightarrow> n)"

definition record_docker_success :: "string \<Rightarrow> breaker \<Rightarrow> breaker" where
  "record_docker_success f b = b\<lparr>br_fails := ddel f (br_fails b), br_times := ddel f (br_times b)\<rparr>"

definition record_docker_failure :: "int \<Rightarrow> string \<Rightarrow> breaker \<Rightarrow> breaker" where
  "record_docker_failure now f b =
     b\<lparr>br_fails := dset f (Suc (docker_fails f b)) (br_fails b), br_times := dset f now (br_times b)\<rparr>"

text \<open>The remaining cooldown, zero when the circuit is closed.\<close>

definition docker_circuit_open :: "int \<Rightarrow> string \<Rightarrow> breaker \<Rightarrow> breaker \<times> int" where
  "docker_circuit_open now f b =
     (if docker_fails f b < DOCKER_CIRCUIT_THRESHOLD then (b, 0)
      else let elapsed = now - (case dget (br_times b) f of None \<Rightarrow> 0 | Some t \<Rightarrow> t) in
        if elapsed \<ge> DOCKER_HALF_OPEN then (b\<lparr>br_fails := dset f 0 (br_fails b)\<rparr>, 0)
        else (b, DOCKER_HALF_OPEN - elapsed))"

section \<open>Names\<close>

fun collapse_hyphens :: "string \<Rightarrow> string" where
  "collapse_hyphens (a # b # cs) =
     (if a = CHR ''-'' \<and> b = CHR ''-'' then collapse_hyphens (b # cs) else a # collapse_hyphens (b # cs))"
| "collapse_hyphens cs = cs"

definition is_alnum :: "char \<Rightarrow> bool" where
  "is_alnum c = (is_digit c \<or> (let n = (of_char c :: nat) in (65 \<le> n \<and> n \<le> 90) \<or> (97 \<le> n \<and> n \<le> 122)))"

definition safe_name :: "string \<Rightarrow> string" where
  "safe_name folder =
     (let s = collapse_hyphens (map (\<lambda>c. if is_alnum c \<or> c = CHR ''-'' then c else CHR ''-'') folder);
          t = take 40 (rev (dropWhile (\<lambda>c. c = CHR ''-'') (rev (dropWhile (\<lambda>c. c = CHR ''-'') s)))) in
      if t = [] then ''group'' else t)"

definition container_name_of :: "string \<Rightarrow> string \<Rightarrow> string" where
  "container_name_of folder run_id = ''evoclaw-'' @ safe_name folder @ ''-'' @ take 8 run_id"

text \<open>\<open>_get_agent_id\<close>, for a group that has neither project nor channel (no row has).\<close>

definition get_agent_id :: "(string \<Rightarrow> string) \<Rightarrow> string \<Rightarrow> string" where
  "get_agent_id sha256 group_name = take 16 (sha256 (lower group_name @ ''::''))"

section \<open>Mounts and the command\<close>

record rcfg =
  rc_groups :: path
  rc_data :: path
  rc_base :: path
  rc_env_exists :: bool
  rc_empty_env :: "string option"
  rc_tz :: string
  rc_network :: string
  rc_pids :: string
  rc_memory :: string
  rc_cpus :: string
  rc_log_size :: string
  rc_log_files :: string
  rc_tmpfs :: string
  rc_user :: "string option"
  rc_image :: string
  rc_timeout :: int

definition docker_path :: "string \<Rightarrow> string" where
  "docker_path s = map (\<lambda>c. if c = backslash then CHR ''/'' else c) s"

definition show_path :: "path \<Rightarrow> string" where
  "show_path p = (if p = [] then ''/'' else concat (map (\<lambda>c. CHR ''/'' # c) p))"

text \<open>A mount is rendered as \<open>host:container:mode\<close>.\<close>

record mount =
  mt_host :: string
  mt_target :: string
  mt_mode :: string

definition mount_text :: "mount \<Rightarrow> string" where
  "mount_text m = mt_host m @ '':'' @ mt_target m @ '':'' @ mt_mode m"

definition assert_within :: "(path \<Rightarrow> path) \<Rightarrow> path \<Rightarrow> string \<Rightarrow> bool" where
  "assert_within realpath parent folder = prefix (realpath parent) (realpath (path_join parent folder))"

definition mount_list :: "rcfg \<Rightarrow> reg_group \<Rightarrow> mount list" where
  "mount_list cfg g =
     (let folder = rg_folder g;
          group = \<lparr>mt_host = docker_path (show_path (rc_groups cfg)) @ ''/'' @ folder, mt_target = ''/workspace/group'', mt_mode = ''rw''\<rparr> in
      (if rg_main g
       then [\<lparr>mt_host = docker_path (show_path (rc_base cfg)), mt_target = ''/workspace/project'', mt_mode = ''ro''\<rparr>, group]
         @ (if rc_env_exists cfg \<and> truthy (rc_empty_env cfg)
            then [\<lparr>mt_host = docker_path (the (rc_empty_env cfg)), mt_target = ''/workspace/project/.env'', mt_mode = ''ro''\<rparr>] else [])
       else [group, \<lparr>mt_host = docker_path (show_path (rc_groups cfg)) @ ''/global'', mt_target = ''/workspace/global'', mt_mode = ''ro''\<rparr>])
      @ [\<lparr>mt_host = docker_path (show_path (path_join (rc_data cfg @ [''sessions'']) folder @ [''.claude''])),
            mt_target = ''/home/node/.claude'', mt_mode = ''rw''\<rparr>,
         \<lparr>mt_host = docker_path (show_path (path_join (rc_data cfg @ [''ipc'']) folder)), mt_target = ''/workspace/ipc'', mt_mode = ''rw''\<rparr>,
         \<lparr>mt_host = docker_path (show_path (rc_data cfg @ [''dynamic_tools''])), mt_target = ''/app/dynamic_tools'', mt_mode = ''ro''\<rparr>])"

text \<open>\<open>None\<close> is the \<open>ValueError\<close> of a folder that leads out of one of the three directories.\<close>

definition build_volume_mounts :: "rcfg \<Rightarrow> (path \<Rightarrow> path) \<Rightarrow> reg_group \<Rightarrow> string list option" where
  "build_volume_mounts cfg realpath g =
     (if assert_within realpath (rc_groups cfg) (rg_folder g) \<and> assert_within realpath (rc_data cfg @ [''sessions'']) (rg_folder g)
        \<and> assert_within realpath (rc_data cfg @ [''ipc'']) (rg_folder g)
      then Some (map mount_text (mount_list cfg g)) else None)"

definition mount_args :: "string list \<Rightarrow> string list" where
  "mount_args ms = concat (map (\<lambda>m. if prefix ''--mount '' m then [''--mount'', drop 8 m] else [''-v'', m]) ms)"

definition docker_command :: "rcfg \<Rightarrow> string \<Rightarrow> string list \<Rightarrow> string list" where
  "docker_command cfg name ms =
     [''docker'', ''run'', ''-i'', ''--name'', name, ''-e'', ''TZ='' @ rc_tz cfg, ''-e'', ''PYTHONUNBUFFERED=1'',
      ''--network'', rc_network cfg, ''--cap-drop'', ''ALL'', ''--security-opt'', ''no-new-privileges:true'',
      ''--pids-limit'', rc_pids cfg]
     @ (if rc_memory cfg \<noteq> [] then [''--memory'', rc_memory cfg, ''--memory-swap'', rc_memory cfg] else [])
     @ (if rc_cpus cfg \<noteq> [] then [''--cpus'', rc_cpus cfg] else [])
     @ [''--log-opt'', ''max-size='' @ rc_log_size cfg, ''--log-opt'', ''max-file='' @ rc_log_files cfg,
        ''--tmpfs'', ''/tmp:size='' @ rc_tmpfs cfg @ '',mode=1777'', ''--oom-score-adj'', ''500'']
     @ (case rc_user cfg of None \<Rightarrow> [] | Some u \<Rightarrow> [''--user'', u])
     @ mount_args ms @ [rc_image cfg]"

section \<open>The environment file\<close>

fun find_sub :: "string \<Rightarrow> string \<Rightarrow> nat option" where
  "find_sub p [] = (if p = [] then Some 0 else None)"
| "find_sub p (c # cs) = (if prefix p (c # cs) then Some 0 else map_option Suc (find_sub p cs))"

fun rfind_sub :: "string \<Rightarrow> string \<Rightarrow> nat option" where
  "rfind_sub p [] = (if p = [] then Some 0 else None)"
| "rfind_sub p (c # cs) = (case rfind_sub p cs of Some i \<Rightarrow> Some (Suc i)
     | None \<Rightarrow> if prefix p (c # cs) then Some 0 else None)"

definition is_env_char :: "char \<Rightarrow> bool" where
  "is_env_char c = (is_digit c \<or> c = CHR ''_'' \<or> (let n = (of_char c :: nat) in 65 \<le> n \<and> n \<le> 90))"

definition clean_value :: "string \<Rightarrow> string" where
  "clean_value v =
     (if length v \<ge> 2 \<and> (hd v = CHR 0x22 \<or> hd v = CHR 0x27) \<and> last v = hd v then butlast (tl v)
      else if prefix ''#'' v then []
      else case find_sub '' #'' v of None \<Rightarrow> v | Some i \<Rightarrow> rstrip (take i v))"

definition parse_env_line :: "string \<Rightarrow> (string \<times> string) option" where
  "parse_env_line line =
     (let l = strip line; k = takeWhile is_env_char l; r = lstrip (dropWhile is_env_char l) in
      if l = [] \<or> prefix ''#'' l \<or> k = [] \<or> \<not> prefix ''='' r then None
      else Some (k, clean_value (strip (tl r))))"

definition read_env_file :: "string list \<Rightarrow> string \<Rightarrow> (string, string) dict" where
  "read_env_file ks content = fold (\<lambda>l d. case parse_env_line l of None \<Rightarrow> d
     | Some (k, v) \<Rightarrow> if k \<in> set ks then dset k v d else d) (splitlines content) []"

definition SECRET_KEYS :: "string list" where
  "SECRET_KEYS = [''GOOGLE_API_KEY'', ''GEMINI_MODEL'', ''NIM_API_KEY'', ''NIM_MODEL'', ''NIM_BASE_URL'', ''OPENAI_API_KEY'',
     ''OPENAI_MODEL'', ''OPENAI_BASE_URL'', ''CLAUDE_API_KEY'', ''ANTHROPIC_API_KEY'', ''CLAUDE_MODEL'', ''ASSISTANT_NAME'',
     ''SUMMARIZER_PROVIDER'', ''SUMMARIZER_MODEL'', ''SUMMARIZER_API_KEY'', ''SUMMARIZER_API_KEY_REUSE'', ''SUMMARIZER_BASE_URL'',
     ''SUMMARIZER_MAX_TOKENS'', ''SUMMARIZER_TIMEOUT_S'']"

definition read_secrets :: "string \<Rightarrow> (string, string) dict" where
  "read_secrets content =
     (let d = read_env_file SECRET_KEYS content in
      if \<not> truthy (dget d ''CLAUDE_API_KEY'') \<and> truthy (dget d ''ANTHROPIC_API_KEY'')
      then dset ''CLAUDE_API_KEY'' (the (dget d ''ANTHROPIC_API_KEY'')) d else d)"

definition validate_secrets :: "(string, string) dict \<Rightarrow> bool" where
  "validate_secrets d = list_ex (\<lambda>k. strip (case dget d k of None \<Rightarrow> [] | Some v \<Rightarrow> v) \<noteq> [])
     [''GOOGLE_API_KEY'', ''NIM_API_KEY'', ''OPENAI_API_KEY'', ''CLAUDE_API_KEY'']"

section \<open>The input of the agent\<close>

definition MAX_HISTORY_CHARS :: nat where "MAX_HISTORY_CHARS = 20000"

text \<open>The loop over the reversed messages: it stops at the first that does not fit.\<close>

fun trim_loop :: "nat \<Rightarrow> message list \<Rightarrow> message list \<Rightarrow> message list" where
  "trim_loop used kept [] = kept"
| "trim_loop used kept (m # ms) =
     (if used + length (m_content m) > MAX_HISTORY_CHARS then kept
      else trim_loop (used + length (m_content m)) (kept @ [m]) ms)"

definition trim_history :: "message list \<Rightarrow> message list" where
  "trim_history ms = rev (trim_loop 0 [] (rev ms))"

datatype turn_role = Assistant_turn | User_turn

definition turns_of :: "message list \<Rightarrow> (turn_role \<times> string) list" where
  "turns_of ms = filter (\<lambda>(_, t). t \<noteq> [])
     (map (\<lambda>m. (if m_bot m then Assistant_turn else User_turn, strip (m_content m))) ms)"

definition recent_turns :: "int \<Rightarrow> string \<Rightarrow> chat_db \<Rightarrow> (turn_role \<times> string) list" where
  "recent_turns now jid db = turns_of (trim_history (get_messages_since jid (now - 4 * 3600 * 1000) 50 db))"

record agent_input =
  ai_prompt :: string
  ai_session :: "string option"
  ai_folder :: string
  ai_jid :: string
  ai_main :: bool
  ai_scheduled :: bool
  ai_secrets :: "(string, string) dict"
  ai_env_hints :: "env_hint list"
  ai_style_hints :: "(int \<times> style_hint list) option"
  ai_history :: "(turn_role \<times> string) list"
  ai_tasks :: "task list"
  ai_run :: string
  ai_hot :: string
  ai_agent :: string

text \<open>The stored memory, at most its last 50000 bytes.\<close>

definition HOT_MAX :: nat where "HOT_MAX = 50000"

definition capped_memory :: "string \<Rightarrow> string" where
  "capped_memory s = (let e = utf8 s in if length e > HOT_MAX then decode_ignore (take_last HOT_MAX e) else s)"

section \<open>The breaker, group by group\<close>

datatype breaker_event = Docker_ok string | Docker_failed string int | Docker_asked string int

fun breaker_group :: "breaker_event \<Rightarrow> string" where
  "breaker_group (Docker_ok f) = f"
| "breaker_group (Docker_failed f _) = f"
| "breaker_group (Docker_asked f _) = f"

definition breaker_step :: "breaker_event \<Rightarrow> breaker \<Rightarrow> breaker" where
  "breaker_step e b = (case e of
      Docker_ok f \<Rightarrow> record_docker_success f b
    | Docker_failed f now \<Rightarrow> record_docker_failure now f b
    | Docker_asked f now \<Rightarrow> fst (docker_circuit_open now f b))"

definition new_breaker :: breaker where
  "new_breaker = \<lparr>br_fails = [], br_times = []\<rparr>"

text \<open>The plain machine of one group: the failures in a row and the time of the last.\<close>

definition breaker_view :: "string \<Rightarrow> breaker \<Rightarrow> nat \<times> int" where
  "breaker_view f b = (docker_fails f b, case dget (br_times b) f of None \<Rightarrow> 0 | Some t \<Rightarrow> t)"

fun view_step :: "breaker_event \<Rightarrow> nat \<times> int \<Rightarrow> nat \<times> int" where
  "view_step (Docker_ok _) v = (0, 0)"
| "view_step (Docker_failed _ now) (n, _) = (Suc n, now)"
| "view_step (Docker_asked _ now) (n, t) = (if n \<ge> 3 \<and> now - t \<ge> 60000 then (0, t) else (n, t))"

lemma breaker_step_view:
  "breaker_view f (breaker_step e b) = (if breaker_group e = f then view_step e (breaker_view f b) else breaker_view f b)"
  by (cases e) (auto simp: breaker_step_def breaker_view_def record_docker_success_def record_docker_failure_def
      docker_circuit_open_def docker_fails_def DOCKER_CIRCUIT_THRESHOLD_def DOCKER_HALF_OPEN_def Let_def split: option.split)

lemma breaker_history_view:
  "breaker_view f (fold breaker_step es b) = fold view_step (filter (\<lambda>e. breaker_group e = f) es) (breaker_view f b)"
  by (induction es arbitrary: b) (simp_all add: breaker_step_view)

lemma circuit_answer: "snd (docker_circuit_open now f b) = (case breaker_view f b of (n, t) \<Rightarrow>
    if n \<ge> 3 \<and> now - t < 60000 then 60000 - (now - t) else 0)"
  by (simp add: breaker_view_def docker_circuit_open_def Let_def DOCKER_CIRCUIT_THRESHOLD_def DOCKER_HALF_OPEN_def)

text \<open>
  C24: The breaker of a group depends on its own history only.  A group whose last three containers failed
  on Docker, after a success, is refused for exactly the sixty seconds after the third failure, with the
  time that is left, whatever other groups do meanwhile and however often it asks.
\<close>

theorem breaker_exact:
  assumes "filter (\<lambda>e. breaker_group e = f) es = past @ [Docker_ok f, Docker_failed f t1, Docker_failed f t2, Docker_failed f t3] @ asked"
    and "\<forall>e \<in> set asked. \<exists>t. e = Docker_asked f t \<and> t < t3 + 60000"
  shows "snd (docker_circuit_open now f (fold breaker_step es b)) = (if now < t3 + 60000 then t3 + 60000 - now else 0)"
proof -
  have asked: "fold view_step asked (3, t3) = (3, t3)" using assms(2)
  proof (induction asked)
    case (Cons e asked)
    then obtain t where "e = Docker_asked f t" "t < t3 + 60000" by auto
    then show ?case using Cons by simp
  qed simp
  have "breaker_view f (fold breaker_step es b) = fold view_step asked (3, t3)"
    by (simp add: breaker_history_view assms(1) numeral_3_eq_3)
  then show ?thesis by (simp add: asked circuit_answer)
qed

theorem breaker_exact_witness:
  "snd (docker_circuit_open 30000 ''a'' (fold breaker_step
      [Docker_ok ''a'', Docker_failed ''a'' 1, Docker_failed ''b'' 5, Docker_failed ''a'' 2, Docker_failed ''a'' 3, Docker_ok ''b'',
       Docker_asked ''a'' 9] new_breaker)) = 30003"
proof -
  let ?es = "[Docker_ok ''a'', Docker_failed ''a'' 1, Docker_failed ''b'' 5, Docker_failed ''a'' 2, Docker_failed ''a'' 3, Docker_ok ''b'',
       Docker_asked ''a'' 9]"
  have "filter (\<lambda>e. breaker_group e = ''a'') ?es = [] @ [Docker_ok ''a'', Docker_failed ''a'' 1, Docker_failed ''a'' 2, Docker_failed ''a'' 3]
     @ [Docker_asked ''a'' 9]" by simp
  from breaker_exact[OF this] show ?thesis by simp
qed

text \<open>
  What is called the half-open state is not one: the question after sixty seconds resets the counter, so
  not one request is tried but all, and it takes three new failures to close the way again.
\<close>

theorem half_open_forgets:
  "let es = [Docker_failed f 1, Docker_failed f 2, Docker_failed f 3, Docker_asked f 60003, Docker_failed f 60010, Docker_failed f 60020] in
    snd (docker_circuit_open now f (fold breaker_step es new_breaker)) = 0
    \<and> snd (docker_circuit_open 60040 f (fold breaker_step (es @ [Docker_failed f 60030]) new_breaker)) = 59990"
proof -
  have "breaker_view f new_breaker = (0, 0)" by (simp add: breaker_view_def new_breaker_def docker_fails_def)
  then show ?thesis unfolding Let_def circuit_answer breaker_history_view by simp
qed

section \<open>Names and mounts\<close>

lemma set_collapse_hyphens: "set (collapse_hyphens s) = set s"
  by (induction s rule: collapse_hyphens.induct) auto

lemma safe_name_chars: "list_all (\<lambda>c. is_alnum c \<or> c = CHR ''-'') (safe_name folder)"
proof -
  let ?P = "\<lambda>c. is_alnum c \<or> c = CHR ''-''"
  have g: "list_all ?P ''group''" by code_simp
  have m: "list_all ?P (collapse_hyphens (map (\<lambda>c. if ?P c then c else CHR ''-'') folder))"
    by (auto simp: list_all_iff set_collapse_hyphens)
  have d: "list_all ?P (dropWhile Q xs)" "list_all ?P (take n xs)" "list_all ?P (rev xs)" if "list_all ?P xs" for Q n xs
    using that by (auto simp: list_all_iff dest: set_dropWhileD in_set_takeD)
  show ?thesis unfolding safe_name_def Let_def
    by (rule if_split[THEN iffD2]) (intro conjI impI g d m)
qed

lemma safe_name_length: "0 < length (safe_name folder) \<and> length (safe_name folder) \<le> 40"
  by (simp add: safe_name_def Let_def)

lemma folder_component:
  assumes "validate_folder f"
  shows "f \<noteq> []" "CHR ''/'' \<notin> set f" "backslash \<notin> set f" "parts f = [f]" "\<not> is_abs f"
proof -
  have v: "f \<noteq> []" "CHR ''/'' \<notin> set f" "backslash \<notin> set f" "matches_all (\<lambda>c. is_word c \<or> c = CHR ''-'') f"
    using assms by (simp_all add: validate_folder_def split: if_splits)
  have "\<not> matches_all (\<lambda>c. is_word c \<or> c = CHR ''-'') ''.''" by code_simp
  then have "f \<noteq> ''.''" using v(4) by metis
  then show "parts f = [f]" using v(1,2) by (simp add: parts_def split_on_absent)
  show "f \<noteq> []" "CHR ''/'' \<notin> set f" "backslash \<notin> set f" by (rule v)+
  show "\<not> is_abs f" using v(2) by (auto simp: is_abs_def prefix_def)
qed

lemma docker_path_id: "backslash \<notin> set f \<Longrightarrow> docker_path f = f"
  by (induction f) (auto simp: docker_path_def)

lemma docker_path_append: "docker_path (a @ b) = docker_path a @ docker_path b"
  by (simp add: docker_path_def)

lemma docker_path_slash: "docker_path (CHR ''/'' # a) = CHR ''/'' # docker_path a"
  by (simp add: docker_path_def backslash_def)

lemma show_path_append: "p \<noteq> [] \<Longrightarrow> show_path (p @ q) = show_path p @ (if q = [] then [] else show_path q)"
  by (simp add: show_path_def)

text \<open>Where a directory that a group may write lies: before and after the folder name.\<close>

definition rw_place :: "rcfg \<Rightarrow> string \<Rightarrow> string \<times> string" where
  "rw_place cfg target =
     (if target = ''/workspace/group'' then (docker_path (show_path (rc_groups cfg)), [])
      else if target = ''/home/node/.claude'' then (docker_path (show_path (rc_data cfg @ [''sessions''])), ''/.claude'')
      else (docker_path (show_path (rc_data cfg @ [''ipc''])), []))"

lemma rw_mount:
  assumes v: "validate_folder (rg_folder g)" and m: "m \<in> set (mount_list cfg g)" "mt_mode m = ''rw''"
  shows "mt_host m = fst (rw_place cfg (mt_target m)) @ ''/'' @ rg_folder g @ snd (rw_place cfg (mt_target m))"
proof -
  note f = folder_component[OF v] docker_path_id[OF folder_component(3)[OF v]]
  have c: "docker_path (show_path (path_join (rc_data cfg @ [''sessions'']) (rg_folder g) @ [''.claude'']))
      = docker_path (show_path (rc_data cfg @ [''sessions''])) @ ''/'' @ rg_folder g @ ''/.claude''"
    using f show_path_append[of "rc_data cfg @ [''sessions'']" "[rg_folder g, ''.claude'']"]
    by (simp add: path_join_def docker_path_append docker_path_slash docker_path_id backslash_def) (simp add: show_path_def docker_path_append docker_path_slash docker_path_id f backslash_def)
  have i: "docker_path (show_path (path_join (rc_data cfg @ [''ipc'']) (rg_folder g)))
      = docker_path (show_path (rc_data cfg @ [''ipc''])) @ ''/'' @ rg_folder g"
    using f show_path_append[of "rc_data cfg @ [''ipc'']" "[rg_folder g]"]
    by (simp add: path_join_def docker_path_append docker_path_slash) (simp add: show_path_def docker_path_append docker_path_slash f)
  show ?thesis using m by (auto simp: mount_list_def Let_def rw_place_def c i split: if_splits)
qed

lemma slash_prefix: "CHR ''/'' \<notin> set f \<Longrightarrow> CHR ''/'' \<notin> set f' \<Longrightarrow> prefix (f @ CHR ''/'' # x) (f' @ CHR ''/'' # y) \<Longrightarrow> f = f'"
proof -
  assume h: "CHR ''/'' \<notin> set f" "CHR ''/'' \<notin> set f'" "prefix (f @ CHR ''/'' # x) (f' @ CHR ''/'' # y)"
  have t: "takeWhile (\<lambda>c. c \<noteq> CHR ''/'') (g @ CHR ''/'' # z) = g" if "CHR ''/'' \<notin> set g" for g z
    using that by (induction g) auto
  obtain z where "f' @ CHR ''/'' # y = f @ CHR ''/'' # x @ z" using h(3) by (auto simp: prefix_def)
  then show ?thesis using t[OF h(1), of "x @ z"] t[OF h(2), of y] by simp
qed

text \<open>
  Of two registered groups, neither can write a directory that is, contains or lies in the one the other
  writes under the same name, and what an ordinary group can write never includes the project, which
  is not mounted at all.  The shared directory is read-only, except that the registry accepts its name
  as a group folder.
\<close>

theorem mounts_isolated:
  assumes "validate_folder (rg_folder g)" "validate_folder (rg_folder g')" "rg_folder g \<noteq> rg_folder g'"
    and "m \<in> set (mount_list cfg g)" "mt_mode m = ''rw''" "m' \<in> set (mount_list cfg g')" "mt_mode m' = ''rw''"
    and "mt_target m = mt_target m'"
  shows "\<not> prefix (mt_host m @ ''/'') (mt_host m' @ ''/'')
    \<and> (rg_main g \<or> \<not> list_ex (\<lambda>m. prefix ''/workspace/project'' (mt_target m)) (mount_list cfg g))
    \<and> validate_folder ''global''
    \<and> mt_host (mount_list cfg (g\<lparr>rg_folder := ''global'', rg_main := False\<rparr>) ! 0)
        = mt_host (mount_list cfg (g\<lparr>rg_main := False\<rparr>) ! 1)"
proof (intro conjI)
  obtain pre post where p: "rw_place cfg (mt_target m) = (pre, post)" "rw_place cfg (mt_target m') = (pre, post)"
    using assms(8) by fastforce
  have h: "mt_host m = pre @ ''/'' @ rg_folder g @ post" "mt_host m' = pre @ ''/'' @ rg_folder g' @ post"
    using rw_mount[OF assms(1,4,5)] rw_mount[OF assms(2,6,7)] p by simp_all
  have "post = [] \<or> post = ''/.claude''" using p(1) by (auto simp: rw_place_def split: if_splits)
  then obtain x where "post @ ''/'' = CHR ''/'' # x" by auto
  then show "\<not> prefix (mt_host m @ ''/'') (mt_host m' @ ''/'')"
    using h assms(3) folder_component(2)[OF assms(1)] folder_component(2)[OF assms(2)] slash_prefix[of "rg_folder g" "rg_folder g'" x x]
    by auto
  show "rg_main g \<or> \<not> list_ex (\<lambda>m. prefix ''/workspace/project'' (mt_target m)) (mount_list cfg g)"
    by (simp add: mount_list_def Let_def)
  show "validate_folder ''global''" by code_simp
  show "mt_host (mount_list cfg (g\<lparr>rg_folder := ''global'', rg_main := False\<rparr>) ! 0)
        = mt_host (mount_list cfg (g\<lparr>rg_main := False\<rparr>) ! 1)"
    by (simp add: mount_list_def Let_def)
qed

definition mount_cfg :: rcfg where
  "mount_cfg = \<lparr>rc_groups = [''g''], rc_data = [''d''], rc_base = [''b''], rc_env_exists = False, rc_empty_env = None, rc_tz = ''UTC'',
     rc_network = ''bridge'', rc_pids = ''256'', rc_memory = ''512m'', rc_cpus = ''1.0'', rc_log_size = ''10m'', rc_log_files = ''2'',
     rc_tmpfs = ''16m'', rc_user = None, rc_image = ''agent'', rc_timeout = 1800\<rparr>"

theorem mounts_isolated_witness:
  "let g = \<lparr>rg_jid = ''tg:1'', rg_name = ''n'', rg_folder = ''team'', rg_trigger = None, rg_added = 0, rg_config = None,
       rg_requires_trigger = False, rg_main = False\<rparr>;
       m = \<lparr>mt_host = ''/g/team'', mt_target = ''/workspace/group'', mt_mode = ''rw''\<rparr>;
       m' = \<lparr>mt_host = ''/g/team2'', mt_target = ''/workspace/group'', mt_mode = ''rw''\<rparr> in
     m \<in> set (mount_list mount_cfg g) \<and> m' \<in> set (mount_list mount_cfg (g\<lparr>rg_folder := ''team2''\<rparr>))
     \<and> \<not> prefix (mt_host m @ ''/'') (mt_host m' @ ''/'')"
proof -
  let ?g = "\<lparr>rg_jid = ''tg:1'', rg_name = ''n'', rg_folder = ''team'', rg_trigger = None, rg_added = 0, rg_config = None,
       rg_requires_trigger = False, rg_main = False\<rparr>"
  let ?m = "\<lparr>mt_host = ''/g/team'', mt_target = ''/workspace/group'', mt_mode = ''rw''\<rparr>"
  let ?n = "\<lparr>mt_host = ''/g/team2'', mt_target = ''/workspace/group'', mt_mode = ''rw''\<rparr>"
  have v: "validate_folder (rg_folder ?g)" "validate_folder (rg_folder (?g\<lparr>rg_folder := ''team2''\<rparr>))"
    "rg_folder ?g \<noteq> rg_folder (?g\<lparr>rg_folder := ''team2''\<rparr>)" by code_simp+
  have m: "?m \<in> set (mount_list mount_cfg ?g)" "mt_mode ?m = ''rw''" by code_simp+
  have n: "?n \<in> set (mount_list mount_cfg (?g\<lparr>rg_folder := ''team2''\<rparr>))" "mt_mode ?n = ''rw''" "mt_target ?m = mt_target ?n" by code_simp+
  have "\<not> prefix (mt_host ?m @ ''/'') (mt_host ?n @ ''/'')" by (rule conjunct1[OF mounts_isolated[OF v m n]])
  then show ?thesis unfolding Let_def using m(1) n(1) by blast
qed

section \<open>Trimmed history\<close>

definition chars_of :: "message list \<Rightarrow> nat" where
  "chars_of ms = sum_list (map (\<lambda>m. length (m_content m)) ms)"

lemma trim_loop_spec: "\<exists>n. trim_loop used kept ms = kept @ take n ms \<and> (used \<le> MAX_HISTORY_CHARS \<longrightarrow> used + chars_of (take n ms) \<le> MAX_HISTORY_CHARS)
    \<and> (n \<ge> length ms \<or> used + chars_of (take (Suc n) ms) > MAX_HISTORY_CHARS)"
proof (induction used kept ms rule: trim_loop.induct)
  case (1 used kept)
  then show ?case by (intro exI[of _ 0]) (simp add: chars_of_def)
next
  case (2 used kept m ms)
  show ?case
  proof (cases "used + length (m_content m) > MAX_HISTORY_CHARS")
    case True
    then show ?thesis by (intro exI[of _ 0]) (simp add: chars_of_def)
  next
    case False
    from 2[OF False] obtain n where "trim_loop (used + length (m_content m)) (kept @ [m]) ms = (kept @ [m]) @ take n ms"
      "used + length (m_content m) \<le> MAX_HISTORY_CHARS \<longrightarrow> used + length (m_content m) + chars_of (take n ms) \<le> MAX_HISTORY_CHARS"
      "n \<ge> length ms \<or> used + length (m_content m) + chars_of (take (Suc n) ms) > MAX_HISTORY_CHARS" by blast
    then show ?thesis using False by (intro exI[of _ "Suc n"]) (auto simp: chars_of_def)
  qed
qed

text \<open>The history handed to the agent is the longest end of the recent messages within the limit.\<close>

theorem history_within_limit:
  "\<exists>n. trim_history ms = drop (length ms - n) ms \<and> chars_of (trim_history ms) \<le> MAX_HISTORY_CHARS
     \<and> (n \<ge> length ms \<or> chars_of (drop (length ms - Suc n) ms) > MAX_HISTORY_CHARS)"
proof -
  obtain n where n: "trim_loop 0 [] (rev ms) = take n (rev ms)" "chars_of (take n (rev ms)) \<le> MAX_HISTORY_CHARS"
    "n \<ge> length ms \<or> chars_of (take (Suc n) (rev ms)) > MAX_HISTORY_CHARS"
    using trim_loop_spec[of 0 "[]" "rev ms"] by auto
  have c: "chars_of (rev xs) = chars_of xs" for xs by (simp add: chars_of_def rev_map[symmetric] sum_list_rev)
  have t: "trim_history ms = drop (length ms - n) ms" using n(1) by (simp add: trim_history_def take_rev)
  then show ?thesis using n(2,3) by (intro exI[of _ n]) (simp add: take_rev c)
qed

end
