(* ===== verification/ContainerRun.thy ===== *)
theory ContainerRun
  imports Container
begin

text \<open>
  One run of an agent's container, \<open>run_container_agent\<close> in \<open>host/container_runner.py\<close>, from the circuit
  breaker to the \<open>finally\<close> clause, with the clean-up of orphans.  A run is split where it waits: before the
  semaphore, and while the container works.  How the container ends is an argument (\<open>outcome\<close>); so are the
  JSON parser and what the callbacks do.  Text is what is left after secrets were removed from it; a
  database fault is only modelled before the container starts.
\<close>

section \<open>State\<close>

record container_row =
  cl_run :: string
  cl_jid :: string
  cl_folder :: string
  cl_name :: string
  cl_started :: int
  cl_finished :: "int option"
  cl_status :: string
  cl_stderr :: string
  cl_preview :: string
  cl_ms :: int

record active_info =
  act_folder :: string
  act_jid :: string
  act_run :: string
  act_started :: int
  act_scheduled :: bool
  act_parent :: "string option"
  act_activity :: string

datatype run_notice =
    Circuit_notice int
  | Output_cut
  | Out_of_memory
  | Memory_hint
  | Try_later
  | Too_large_notice
  | Bad_json_notice
  | Bad_schema_notice
  | Timeout_notice int
  | Failure_notice string

datatype run_effect =
    Run_notice run_notice
  | Success_called
  | Output_called string
  | Container_stopped string
  | Container_removed string

record runner =
  rn_breaker :: breaker
  rn_permits :: nat
  rn_active :: "(string, active_info) dict"
  rn_logs :: "container_row list"
  rn_evo :: evo_db
  rn_chat :: chat_db
  rn_mem :: mem
  rn_out :: "run_effect list"

definition effect_of :: "run_effect \<Rightarrow> runner \<Rightarrow> runner" where
  "effect_of e s = s\<lparr>rn_out := rn_out s @ [e]\<rparr>"

definition log_container_start :: "string \<Rightarrow> string \<Rightarrow> string \<Rightarrow> string \<Rightarrow> int \<Rightarrow> runner \<Rightarrow> runner" where
  "log_container_start run_id jid folder name now s =
     (if run_id \<in> cl_run ` set (rn_logs s) then s
      else s\<lparr>rn_logs := rn_logs s @ [\<lparr>cl_run = run_id, cl_jid = jid, cl_folder = folder, cl_name = name, cl_started = now,
        cl_finished = None, cl_status = ''running'', cl_stderr = [], cl_preview = [], cl_ms = 0\<rparr>]\<rparr>)"

definition log_container_finish :: "string \<Rightarrow> int \<Rightarrow> string \<Rightarrow> string \<Rightarrow> string \<Rightarrow> int \<Rightarrow> runner \<Rightarrow> runner" where
  "log_container_finish run_id now status err prev ms s = s\<lparr>rn_logs := map (\<lambda>r. if cl_run r = run_id
     then r\<lparr>cl_finished := Some now, cl_status := status, cl_stderr := take 32768 err, cl_preview := take 2048 prev, cl_ms := ms\<rparr>
     else r) (rn_logs s)\<rparr>"

section \<open>Output\<close>

definition OUTPUT_START :: string where "OUTPUT_START = ''---EVOCLAW_OUTPUT_START---''"
definition OUTPUT_END :: string where "OUTPUT_END = ''---EVOCLAW_OUTPUT_END---''"
definition MAX_OUTPUT_SIZE :: nat where "MAX_OUTPUT_SIZE = 2097152"

text \<open>\<open>_read_stdout_bounded\<close>, over the chunks that are read.\<close>

fun read_bounded :: "nat \<Rightarrow> nat \<Rightarrow> 'a list list \<Rightarrow> 'a list" where
  "read_bounded cap n [] = []"
| "read_bounded cap n (c # cs) =
     (if n + length c > cap then take (cap - n) c else c @ read_bounded cap (n + length c) cs)"

datatype parsed = No_start | No_end | Body string

definition parse_output :: "string \<Rightarrow> parsed" where
  "parse_output out = (case rfind_sub OUTPUT_START out of
      None \<Rightarrow> No_start
    | Some i \<Rightarrow> (let rest = drop (i + length OUTPUT_START) out in
        case find_sub OUTPUT_END rest of None \<Rightarrow> No_end | Some j \<Rightarrow> Body (strip (take j rest))))"

text \<open>What the agent prints (\<open>emit\<close>), around the JSON text.\<close>

definition emit_text :: "string \<Rightarrow> string" where
  "emit_text json = OUTPUT_START @ newline @ json @ newline @ OUTPUT_END"

datatype patch = No_patch | Text_patch string | Other_patch

record reply =
  re_status :: string
  re_result :: "string option"
  re_session :: "string option"
  re_patch :: patch

datatype loaded = Not_json | Not_dict | Reply reply

section \<open>A run\<close>

record run_info =
  ri_group :: reg_group
  ri_run :: string
  ri_name :: string
  ri_start :: int

text \<open>The callbacks: not given, or whether the call raises.\<close>

record hooks =
  hk_success :: "bool option"
  hk_output :: "bool option"
  hk_error :: bool

datatype run_result = Agent_reply reply | Failed_run "string option" | Cancelled_run

definition notify :: "hooks \<Rightarrow> run_notice \<Rightarrow> runner \<Rightarrow> runner" where
  "notify hk n s = (if hk_error hk then effect_of (Run_notice n) s else s)"

definition on_breaker :: "(breaker \<Rightarrow> breaker) \<Rightarrow> runner \<Rightarrow> runner" where
  "on_breaker f s = s\<lparr>rn_breaker := f (rn_breaker s)\<rparr>"

text \<open>The record of the run for the evolution engine and in the container log.\<close>

definition book :: "int \<Rightarrow> run_info \<Rightarrow> bool \<Rightarrow> string \<Rightarrow> string \<Rightarrow> string \<Rightarrow> int \<Rightarrow> runner \<Rightarrow> runner" where
  "book now ri ok status err prev ms s =
     log_container_finish (ri_run ri) now status err prev ms
       (s\<lparr>rn_evo := record_evolution_run (now div 1000) (rg_jid (ri_group ri)) (ri_run ri) ms 0 ok (rn_evo s)\<rparr>)"

text \<open>The circuit breaker: whether the call ends here.\<close>

definition run_check :: "hooks \<Rightarrow> int \<Rightarrow> reg_group \<Rightarrow> runner \<Rightarrow> runner \<times> run_result option" where
  "run_check hk now g s =
     (let (b, left) = docker_circuit_open now (rg_folder g) (rn_breaker s); s = s\<lparr>rn_breaker := b\<rparr> in
      if left \<noteq> 0 then (notify hk (Circuit_notice (left div 1000 + 1)) s,
        Some (Failed_run (Some (''Docker circuit breaker open for '' @ rg_folder g))))
      else (s, None))"

text \<open>The semaphore; \<open>None\<close> while no permit is free.\<close>

definition run_acquire :: "runner \<Rightarrow> runner option" where
  "run_acquire s = (if rn_permits s = 0 then None else Some (s\<lparr>rn_permits := rn_permits s - 1\<rparr>))"

text \<open>
  Between the semaphore and the \<open>try\<close> statement: mounts, input, the entry of the dashboard and the log row.
  An exception here (a folder that leads out, or a database call, before or after the entry was made)
  ends the call without the clean-up.
\<close>

datatype prep_fault = No_fault | Fault_early | Fault_late

definition run_prepare ::
  "rcfg \<Rightarrow> (path \<Rightarrow> path) \<Rightarrow> prep_fault \<Rightarrow> int \<Rightarrow> string \<Rightarrow> bool \<Rightarrow> string option \<Rightarrow> reg_group \<Rightarrow> runner \<Rightarrow> runner \<times> run_info option" where
  "run_prepare cfg realpath fault now run_id scheduled parent g s =
     (let name = container_name_of (rg_folder g) run_id in
      if build_volume_mounts cfg realpath g = None \<or> fault = Fault_early then (s, None)
      else let s = s\<lparr>rn_active := dset name \<lparr>act_folder = rg_folder g, act_jid = rg_jid g, act_run = run_id, act_started = now,
              act_scheduled = scheduled, act_parent = parent, act_activity = ''starting...''\<rparr> (rn_active s)\<rparr> in
        if fault = Fault_late then (s, None)
        else (log_container_start run_id (rg_jid g) (rg_folder g) name now s,
              Some \<lparr>ri_group = g, ri_run = run_id, ri_name = name, ri_start = now\<rparr>))"

definition agent_input_of ::
  "string \<Rightarrow> (string \<Rightarrow> string) \<Rightarrow> int \<Rightarrow> nat \<Rightarrow> nat \<Rightarrow> string \<Rightarrow> string option \<Rightarrow> bool \<Rightarrow> (turn_role \<times> string) list option \<Rightarrow> sched_db
     \<Rightarrow> string \<Rightarrow> reg_group \<Rightarrow> runner \<Rightarrow> agent_input" where
  "agent_input_of env_file sha256 now hour weekday prompt session scheduled given db run_id g s =
     \<lparr>ai_prompt = prompt, ai_session = session, ai_folder = rg_folder g, ai_jid = rg_jid g, ai_main = rg_main g,
      ai_scheduled = scheduled, ai_secrets = read_secrets env_file,
      ai_env_hints = get_adaptive_hints (now div 1000) hour weekday (rn_evo s),
      ai_style_hints = get_genome_style_hints (rg_jid g) (rn_evo s),
      ai_history = (case given of Some h \<Rightarrow> h | None \<Rightarrow> recent_turns now (rg_jid g) (rn_chat s)),
      ai_tasks = get_all_tasks (Some (rg_folder g)) db, ai_run = run_id,
      ai_hot = capped_memory (get_hot_memory (rg_jid g) (rn_mem s)), ai_agent = get_agent_id sha256 (rg_folder g)\<rparr>"

section \<open>The end of a run\<close>

definition AGENT_EXIT_CODES :: "int list" where "AGENT_EXIT_CODES = [0, 124, 137, 143]"

text \<open>
  The output of a container that ended by itself: standard output and error, and the exit code as far as it
  is known.  A result of \<open>None\<close> is an exception out of a callback.
\<close>

definition no_output :: "int \<Rightarrow> run_info \<Rightarrow> hooks \<Rightarrow> string \<Rightarrow> string \<Rightarrow> int option \<Rightarrow> runner \<Rightarrow> runner" where
  "no_output now ri hk out err code s =
     (let f = rg_folder (ri_group ri); s = book now ri False ''error'' err (take 200 out) (now - ri_start ri) s;
          s = (if code \<in> Some ` set AGENT_EXIT_CODES
            then on_breaker (record_docker_success f) (if code = Some 137 then notify hk Out_of_memory s else s)
            else on_breaker (record_docker_failure now f) s) in
      notify hk (if code = Some 137 then Memory_hint else Try_later) s)"

definition apply_patch :: "string \<Rightarrow> patch \<Rightarrow> runner \<Rightarrow> runner" where
  "apply_patch jid p s = (case p of
      Text_patch c \<Rightarrow> if c = [] then s else s\<lparr>rn_mem := update_hot_memory jid c (rn_mem s)\<rparr>
    | _ \<Rightarrow> s)"

definition good_reply :: "int \<Rightarrow> run_info \<Rightarrow> hooks \<Rightarrow> string \<Rightarrow> string \<Rightarrow> reply \<Rightarrow> runner \<Rightarrow> runner \<times> run_result option" where
  "good_reply now ri hk out err r s =
     (let g = ri_group ri;
          s = apply_patch (rg_jid g) (re_patch r) s;
          s = (if truthy (re_session r) then s\<lparr>rn_chat := set_session (rg_folder g) (the (re_session r)) (rn_chat s)\<rparr> else s);
          s = book now ri True ''success'' err (take 200 out) (now - ri_start ri) s;
          s = on_breaker (record_docker_success (rg_folder g)) s;
          s = (if hk_success hk = None then s else effect_of Success_called s) in
      if hk_success hk = Some True then (s, None)
      else if hk_output hk \<noteq> None \<and> truthy (re_result r)
      then (effect_of (Output_called (the (re_result r))) s, if hk_output hk = Some True then None else Some (Agent_reply r))
      else (s, Some (Agent_reply r)))"

definition process_output ::
  "(string \<Rightarrow> loaded) \<Rightarrow> int \<Rightarrow> run_info \<Rightarrow> hooks \<Rightarrow> string \<Rightarrow> string \<Rightarrow> int option \<Rightarrow> runner \<Rightarrow> runner \<times> run_result option" where
  "process_output load now ri hk out err code s =
     (let f = rg_folder (ri_group ri); ms = now - ri_start ri; bad = book now ri False ''error'' err (take 200 out) ms in
      case parse_output out of
        No_end \<Rightarrow> (on_breaker (record_docker_success f) (bad (notify hk Output_cut s)),
          Some (Failed_run (Some ''output truncated (too large)'')))
      | No_start \<Rightarrow> (no_output now ri hk out err code s, Some (Failed_run (Some ''no output markers'')))
      | Body raw \<Rightarrow>
          (if length raw > MAX_OUTPUT_SIZE then (notify hk Too_large_notice s, Some (Failed_run None))
           else case load raw of
             Not_json \<Rightarrow> (notify hk Bad_json_notice (on_breaker (record_docker_failure now f) (bad s)),
               Some (Failed_run (Some ''JSON parse error'')))
           | Not_dict \<Rightarrow> (notify hk Bad_schema_notice (on_breaker (record_docker_failure now f) (bad s)),
               Some (Failed_run (Some ''schema mismatch: result is not a dict'')))
           | Reply r \<Rightarrow> good_reply now ri hk out err r s))"

datatype outcome = Exited string string "int option" | Timed_out | Was_cancelled | Broke string

text \<open>The handler of any other exception.\<close>

definition run_error :: "int \<Rightarrow> run_info \<Rightarrow> hooks \<Rightarrow> string \<Rightarrow> runner \<Rightarrow> runner" where
  "run_error now ri hk e s = notify hk (Failure_notice e)
     (on_breaker (record_docker_failure now (rg_folder (ri_group ri))) (book now ri False ''error'' e [] (now - ri_start ri) s))"

definition run_body ::
  "rcfg \<Rightarrow> (string \<Rightarrow> loaded) \<Rightarrow> int \<Rightarrow> run_info \<Rightarrow> hooks \<Rightarrow> outcome \<Rightarrow> runner \<Rightarrow> runner \<times> run_result" where
  "run_body cfg load now ri hk o' s = (case o' of
      Exited out err code \<Rightarrow> (case process_output load now ri hk out err code s of
          (s, Some r) \<Rightarrow> (s, r)
        | (s, None) \<Rightarrow> (run_error now ri hk ''callback'' s, Failed_run (Some ''callback'')))
    | Timed_out \<Rightarrow>
        (notify hk (Timeout_notice (rc_timeout cfg))
          (on_breaker (record_docker_failure now (rg_folder (ri_group ri)))
            (book now ri False ''timeout'' ''Container timed out'' [] (rc_timeout cfg * 1000)
              (effect_of (Container_stopped (ri_name ri)) s))), Failed_run (Some ''Container timed out''))
    | Was_cancelled \<Rightarrow> (effect_of (Container_stopped (ri_name ri)) s, Cancelled_run)
    | Broke e \<Rightarrow> (run_error now ri hk e s, Failed_run (Some e)))"

text \<open>The \<open>finally\<close> clause.\<close>

definition run_cleanup :: "run_info \<Rightarrow> runner \<Rightarrow> runner" where
  "run_cleanup ri s =
     (effect_of (Container_removed (ri_name ri)) (s\<lparr>rn_active := ddel (ri_name ri) (rn_active s)\<rparr>))\<lparr>rn_permits := Suc (rn_permits s)\<rparr>"

definition run_finish ::
  "rcfg \<Rightarrow> (string \<Rightarrow> loaded) \<Rightarrow> int \<Rightarrow> run_info \<Rightarrow> hooks \<Rightarrow> outcome \<Rightarrow> runner \<Rightarrow> runner \<times> run_result" where
  "run_finish cfg load now ri hk o' s = (case run_body cfg load now ri hk o' s of (s, r) \<Rightarrow> (run_cleanup ri s, r))"

section \<open>Orphans\<close>

text \<open>The names that are live, taken first, and the containers that \<open>docker ps\<close> lists, by identifier and name.\<close>

definition live_names :: "runner \<Rightarrow> string list" where
  "live_names s = dkeys (rn_active s)"

definition orphan_ids :: "string list \<Rightarrow> (string \<times> string) list \<Rightarrow> string list" where
  "orphan_ids live listed = map fst (filter (\<lambda>(_, name). name \<notin> set live) listed)"

definition kill_all_names :: "runner \<Rightarrow> string list" where
  "kill_all_names s = dkeys (rn_active s)"


section \<open>Reading the output\<close>

lemma read_bounded_take: "n \<le> cap \<Longrightarrow> read_bounded cap n cs = take (cap - n) (concat cs)"
proof (induction cap n cs rule: read_bounded.induct)
  case (2 cap n c cs)
  then show ?case by (cases "n + length c > cap") (simp_all add: diff_diff_left)
qed simp

text \<open>What is kept of the output is its beginning up to the limit, however it is cut into chunks.\<close>

theorem bounded_output: "read_bounded MAX_OUTPUT_SIZE 0 cs = take MAX_OUTPUT_SIZE (concat cs)"
  using read_bounded_take[of 0 MAX_OUTPUT_SIZE cs] by simp

lemma find_sub_None: "\<not> sublist p s \<Longrightarrow> find_sub p s = None"
proof (induction s)
  case (Cons c s)
  then have "\<not> prefix p (c # s)" "\<not> sublist p s" by (auto simp: sublist_Cons_right)
  then show ?case using Cons by simp
qed simp

lemma rfind_sub_None: "\<not> sublist p s \<Longrightarrow> rfind_sub p s = None"
proof (induction s)
  case (Cons c s)
  then have "\<not> prefix p (c # s)" "\<not> sublist p s" by (auto simp: sublist_Cons_right)
  then show ?case using Cons by simp
qed simp

lemma rfind_sub_last: "p \<noteq> [] \<Longrightarrow> \<not> sublist p (tl (p @ s)) \<Longrightarrow> rfind_sub p (pre @ p @ s) = Some (length pre)"
proof (induction pre)
  case Nil
  obtain c q where p: "p = c # q" using Nil(1) by (cases p) auto
  then have "rfind_sub p (q @ s) = None" using Nil(2) by (intro rfind_sub_None) simp
  then show ?case using p by simp
qed simp

lemma find_sub_first: "p \<noteq> [] \<Longrightarrow> \<not> sublist p (s @ butlast p) \<Longrightarrow> find_sub p (s @ p @ post) = Some (length s)"
proof (induction s)
  case Nil
  then show ?case by (cases p) auto
next
  case (Cons c s)
  have "\<not> sublist p (s @ butlast p)" using Cons.prems(2) by (auto simp: sublist_Cons_right)
  moreover have "\<not> prefix p (c # s @ p @ post)"
  proof
    assume "prefix p (c # s @ p @ post)"
    moreover have "c # s @ p @ post = (c # s @ butlast p) @ last p # post" using Cons.prems(1) by simp
    moreover have "length p \<le> length (c # s @ butlast p)" using Cons.prems(1) by (cases p) auto
    ultimately have "prefix p (c # s @ butlast p)" by (metis prefix_length_prefix prefixI)
    then show False using Cons.prems(2) by auto
  qed
  ultimately show ?case using Cons by simp
qed

text \<open>
  The host reads back what the agent prints, whatever is printed before and after, as long as the start
  marker does not occur again and the end marker does not occur inside.  A reply that quotes the start
  marker is cut in the middle, and the rest is not valid JSON.
\<close>

theorem output_read_back:
  assumes "\<not> sublist OUTPUT_START (tl (emit_text json @ after))"
    and "\<not> sublist OUTPUT_END (newline @ json @ newline @ butlast OUTPUT_END)"
  shows "parse_output (before @ emit_text json @ after) = Body (strip json)
    \<and> parse_output (emit_text (''{q'' @ OUTPUT_START @ ''q}'')) = Body ''q}''"
proof
  let ?rest = "newline @ json @ newline @ OUTPUT_END @ after"
  have n: "OUTPUT_START \<noteq> []" "OUTPUT_END \<noteq> []" by (simp_all add: OUTPUT_START_def OUTPUT_END_def)
  have e: "before @ emit_text json @ after = before @ OUTPUT_START @ ?rest" by (simp add: emit_text_def)
  have r: "rfind_sub OUTPUT_START (before @ OUTPUT_START @ ?rest) = Some (length before)"
    using assms(1) by (intro rfind_sub_last n) (simp add: emit_text_def)
  have d: "drop (length before + length OUTPUT_START) (before @ OUTPUT_START @ ?rest) = ?rest"
    by (metis append.assoc append_eq_conv_conj length_append)
  have f: "find_sub OUTPUT_END ((newline @ json @ newline) @ OUTPUT_END @ after) = Some (length (newline @ json @ newline))"
    using assms(2) by (intro find_sub_first n) simp
  have s: "strip (newline @ json @ newline) = strip json"
  proof -
    have "is_space CHR 0x0A" by code_simp
    moreover have "rstrip (xs @ [c]) = rstrip xs" if "is_space c" for xs c using that by (simp add: rstrip_def)
    ultimately show ?thesis
    proof -
      have l: "lstrip (xs @ ys) = (if list_all is_space xs then lstrip ys else lstrip xs @ ys)" for xs ys
        by (induction xs) (auto simp: lstrip_def)
      show ?thesis
      proof (cases "list_all is_space json")
        case True
        then have "lstrip json = []" by (simp add: lstrip_def dropWhile_eq_Nil_conv list_all_iff)
        moreover have "lstrip (newline @ json @ newline) = []"
          using True \<open>is_space CHR 0x0A\<close> by (simp add: lstrip_def dropWhile_eq_Nil_conv list_all_iff newline_def)
        ultimately show ?thesis by (simp add: strip_def)
      next
        case False
        then have "lstrip (newline @ json @ newline) = lstrip json @ newline"
          using l[of newline "json @ newline"] l[of json newline] \<open>is_space CHR 0x0A\<close> by (simp add: newline_def)
        then show ?thesis using \<open>is_space CHR 0x0A\<close> by (simp add: strip_def newline_def rstrip_def)
      qed
    qed
  qed
  have t: "take (length (newline @ json @ newline)) ?rest = newline @ json @ newline"
    by (metis append.assoc append_eq_conv_conj)
  show "parse_output (before @ emit_text json @ after) = Body (strip json)"
    using f unfolding e parse_output_def r option.case Let_def d append.assoc by (simp only: option.case t s)
  show "parse_output (emit_text (''{q'' @ OUTPUT_START @ ''q}'')) = Body ''q}''" by code_simp
qed

theorem output_read_back_witness:
  "parse_output (''log'' @ emit_text ''{...}'' @ newline) = Body ''{...}''"
proof -
  have "\<not> sublist OUTPUT_START (tl (emit_text ''{...}'' @ newline))"
    "\<not> sublist OUTPUT_END (newline @ ''{...}'' @ newline @ butlast OUTPUT_END)" by code_simp+
  moreover have "strip ''{...}'' = ''{...}''" by code_simp
  ultimately show ?thesis using output_read_back[of "''{...}''" newline "''log''"] by simp
qed

section \<open>What a run does\<close>

fun is_callback :: "run_effect \<Rightarrow> bool" where
  "is_callback Success_called = True"
| "is_callback (Output_called _) = True"
| "is_callback _ = False"

text \<open>The reply the agent gave, if it gave one.\<close>

definition reply_of :: "(string \<Rightarrow> loaded) \<Rightarrow> outcome \<Rightarrow> reply option" where
  "reply_of load o' = (case o' of
      Exited out err code \<Rightarrow> (case parse_output out of
          Body raw \<Rightarrow> if length raw > MAX_OUTPUT_SIZE then None else (case load raw of Reply r \<Rightarrow> Some r | _ \<Rightarrow> None)
        | _ \<Rightarrow> None)
    | _ \<Rightarrow> None)"

definition callbacks_for :: "hooks \<Rightarrow> reply option \<Rightarrow> run_effect list" where
  "callbacks_for hk r = (case r of None \<Rightarrow> []
     | Some r \<Rightarrow> (if hk_success hk = None then [] else [Success_called])
         @ (if hk_success hk = Some True \<or> hk_output hk = None \<or> \<not> truthy (re_result r) then [] else [Output_called (the (re_result r))]))"

lemma runner_frames [simp]:
  "rn_out (notify hk n s) = rn_out s @ (if hk_error hk then [Run_notice n] else [])"
  "rn_permits (notify hk n s) = rn_permits s" "rn_active (notify hk n s) = rn_active s" "rn_evo (notify hk n s) = rn_evo s"
  "rn_out (on_breaker f s) = rn_out s" "rn_permits (on_breaker f s) = rn_permits s" "rn_active (on_breaker f s) = rn_active s"
  "rn_evo (on_breaker f s) = rn_evo s"
  "rn_out (book now ri ok st e p ms s) = rn_out s" "rn_permits (book now ri ok st e p ms s) = rn_permits s"
  "rn_active (book now ri ok st e p ms s) = rn_active s"
  "rn_evo (book now ri ok st e p ms s) = record_evolution_run (now div 1000) (rg_jid (ri_group ri)) (ri_run ri) ms 0 ok (rn_evo s)"
  "rn_out (apply_patch j q s) = rn_out s" "rn_permits (apply_patch j q s) = rn_permits s" "rn_active (apply_patch j q s) = rn_active s"
  "rn_evo (apply_patch j q s) = rn_evo s"
  "rn_out (effect_of e' s) = rn_out s @ [e']" "rn_permits (effect_of e' s) = rn_permits s" "rn_active (effect_of e' s) = rn_active s"
  "rn_evo (effect_of e' s) = rn_evo s"
  by (simp_all add: notify_def on_breaker_def book_def log_container_finish_def apply_patch_def effect_of_def split: patch.split)

lemma no_output_frames [simp]:
  "rn_permits (no_output now ri hk out err code s) = rn_permits s" "rn_active (no_output now ri hk out err code s) = rn_active s"
  "\<exists>ns. rn_out (no_output now ri hk out err code s) = rn_out s @ ns \<and> filter is_callback ns = []"
  by (simp_all add: no_output_def Let_def)

lemma run_error_frames [simp]:
  "rn_permits (run_error now ri hk e s) = rn_permits s" "rn_active (run_error now ri hk e s) = rn_active s"
  "rn_out (run_error now ri hk e s) = rn_out s @ (if hk_error hk then [Run_notice (Failure_notice e)] else [])"
  by (simp_all add: run_error_def)

lemma good_reply_effects:
  "good_reply now ri hk out err r s = (s', res) \<Longrightarrow> rn_permits s' = rn_permits s \<and> rn_active s' = rn_active s
     \<and> rn_out s' = rn_out s @ callbacks_for hk (Some r) \<and> (\<forall>x. res = Some x \<longrightarrow> x = Agent_reply r)"
  by (auto simp: good_reply_def Let_def callbacks_for_def split: if_splits)

lemma process_output_effects:
  assumes "process_output load now ri hk out err code s = (s', res)"
  shows "rn_permits s' = rn_permits s \<and> rn_active s' = rn_active s
    \<and> (\<exists>new. rn_out s' = rn_out s @ new \<and> filter is_callback new = callbacks_for hk (reply_of load (Exited out err code)))
    \<and> (\<forall>r. res = Some (Agent_reply r) \<longrightarrow> reply_of load (Exited out err code) = Some r)
    \<and> (res = None \<longrightarrow> reply_of load (Exited out err code) \<noteq> None)"
proof (cases "parse_output out")
  case No_start
  obtain ns where "rn_out (no_output now ri hk out err code s) = rn_out s @ ns" "filter is_callback ns = []"
    using no_output_frames(3) by blast
  then show ?thesis using assms No_start by (auto simp: process_output_def Let_def reply_of_def callbacks_for_def)
next
  case No_end
  then show ?thesis using assms by (auto simp: process_output_def Let_def reply_of_def callbacks_for_def)
next
  case (Body raw)
  show ?thesis
  proof (cases "length raw > MAX_OUTPUT_SIZE")
    case True
    then show ?thesis using assms Body by (auto simp: process_output_def Let_def reply_of_def callbacks_for_def)
  next
    case False
    show ?thesis
    proof (cases "load raw")
      case (Reply r)
      have c: "filter is_callback (callbacks_for hk (Some r)) = callbacks_for hk (Some r)" by (simp add: callbacks_for_def)
      have "good_reply now ri hk out err r s = (s', res)" using assms Body False Reply by (simp add: process_output_def Let_def)
      from good_reply_effects[OF this] c show ?thesis using Body False Reply by (auto simp: reply_of_def)
    qed (use assms Body False in \<open>auto simp: process_output_def Let_def reply_of_def callbacks_for_def\<close>)
  qed
qed

lemma run_body_effects:
  assumes "run_body cfg load now ri hk o' s = (s', res)"
  shows "rn_permits s' = rn_permits s \<and> rn_active s' = rn_active s
    \<and> (\<exists>new. rn_out s' = rn_out s @ new \<and> filter is_callback new = callbacks_for hk (reply_of load o'))
    \<and> (\<forall>r. res = Agent_reply r \<longrightarrow> reply_of load o' = Some r)"
proof (cases o')
  case (Exited out err code)
  obtain t q where p: "process_output load now ri hk out err code s = (t, q)" by fastforce
  note e = process_output_effects[OF p]
  show ?thesis
  proof (cases q)
    case None
    obtain new where "rn_out t = rn_out s @ new" "filter is_callback new = callbacks_for hk (reply_of load (Exited out err code))"
      using e by blast
    then have "rn_out s' = rn_out s @ (new @ (if hk_error hk then [Run_notice (Failure_notice ''callback'')] else []))"
      "filter is_callback (new @ (if hk_error hk then [Run_notice (Failure_notice ''callback'')] else [])) = callbacks_for hk (reply_of load o')"
      using assms Exited p None by (auto simp: run_body_def)
    then show ?thesis using assms Exited p None e by (auto simp: run_body_def)
  next
    case (Some r)
    then show ?thesis using assms Exited p e by (auto simp: run_body_def)
  qed
qed (use assms in \<open>auto simp: run_body_def reply_of_def callbacks_for_def\<close>)


text \<open>
  A reply is judged by its shape only.  When the agent reports its own failure, the messages of the batch
  count as answered, the run counts as a success for the evolution engine, and nobody is told.
\<close>

theorem agent_error_is_success:
  assumes "reply_of load (Exited out err code) = Some r" "\<not> truthy (re_result r)"
    and "hk_success hk = Some False"
    and "(rg_jid (ri_group ri), ri_run ri) \<notin> (\<lambda>r. (r_jid r, r_id r)) ` set (runs (rn_evo s))"
  shows "case run_finish cfg load now ri hk (Exited out err code) s of (s', res) \<Rightarrow>
     rn_out s' = rn_out s @ [Success_called, Container_removed (ri_name ri)] \<and> res = Agent_reply r
     \<and> (\<exists>row. runs (rn_evo s') = runs (rn_evo s) @ [row] \<and> r_success row)
     \<and> docker_fails (rg_folder (ri_group ri)) (rn_breaker s') = 0"
proof -
  obtain raw where p: "parse_output out = Body raw" "length raw \<le> MAX_OUTPUT_SIZE" "load raw = Reply r"
    using assms(1) by (auto simp: reply_of_def split: parsed.splits loaded.splits if_splits)
  let ?w = "good_reply now ri hk out err r s"
  have w: "snd ?w = Some (Agent_reply r)" "rn_out (fst ?w) = rn_out s @ [Success_called]"
    "rn_evo (fst ?w) = record_evolution_run (now div 1000) (rg_jid (ri_group ri)) (ri_run ri) (now - ri_start ri) 0 True (rn_evo s)"
    "docker_fails (rg_folder (ri_group ri)) (rn_breaker (fst ?w)) = 0"
    using assms(2,3) by (simp_all add: good_reply_def Let_def)
      (simp_all add: on_breaker_def effect_of_def record_docker_success_def docker_fails_def)
  have "run_finish cfg load now ri hk (Exited out err code) s = (run_cleanup ri (fst ?w), Agent_reply r)"
    using p w(1) by (cases ?w) (simp add: run_finish_def run_body_def process_output_def Let_def)
  then show ?thesis using w assms(4) by (simp add: run_cleanup_def effect_of_def record_evolution_run_def)
qed

definition new_runner :: "nat \<Rightarrow> runner" where
  "new_runner n = \<lparr>rn_breaker = new_breaker, rn_permits = n, rn_active = [], rn_logs = [], rn_evo = \<lparr>runs = [], genomes = [], elog = []\<rparr>,
     rn_chat = empty_chat_db, rn_mem = empty_mem, rn_out = []\<rparr>"

definition demo_rgroup :: reg_group where
  "demo_rgroup = \<lparr>rg_jid = ''tg:1'', rg_name = ''n'', rg_folder = ''team'', rg_trigger = None, rg_added = 0, rg_config = None,
     rg_requires_trigger = False, rg_main = False\<rparr>"

definition error_reply :: reply where
  "error_reply = \<lparr>re_status = ''error'', re_result = None, re_session = None, re_patch = No_patch\<rparr>"

theorem agent_error_is_success_witness:
  "case run_finish mount_cfg (\<lambda>_. Reply error_reply) 9 \<lparr>ri_group = demo_rgroup, ri_run = ''r'', ri_name = ''c'', ri_start = 0\<rparr>
     \<lparr>hk_success = Some False, hk_output = Some False, hk_error = True\<rparr> (Exited (emit_text ''{}'') [] (Some 0)) (new_runner 1) of
   (s', res) \<Rightarrow> rn_out s' = [Success_called, Container_removed ''c''] \<and> res = Agent_reply error_reply"
proof -
  let ?ri = "\<lparr>ri_group = demo_rgroup, ri_run = ''r'', ri_name = ''c'', ri_start = 0\<rparr>"
  let ?hk = "\<lparr>hk_success = Some False, hk_output = Some False, hk_error = True\<rparr>"
  have "parse_output (emit_text ''{}'') = Body ''{}''" by code_simp
  then have r: "reply_of (\<lambda>_. Reply error_reply) (Exited (emit_text ''{}'') [] (Some 0)) = Some error_reply"
    by (simp add: reply_of_def MAX_OUTPUT_SIZE_def)
  have "\<not> truthy (re_result error_reply)" "hk_success ?hk = Some False" "rn_out (new_runner 1) = []"
    "(rg_jid (ri_group ?ri), ri_run ?ri) \<notin> (\<lambda>r. (r_jid r, r_id r)) ` set (runs (rn_evo (new_runner 1)))"
    by (simp_all add: error_reply_def new_runner_def)
  from agent_error_is_success[OF r this(1,2,4), of mount_cfg 9] this(3) show ?thesis by (auto split: prod.split)
qed

end
