(* ===== verification/ContainerPool.thy ===== *)
theory ContainerPool
  imports ContainerRun
begin

text \<open>
  Several runs of \<open>host/container_runner.py\<close> at once: the permits of the semaphore and the names of the live
  containers over every history of runs that begin and end.
\<close>

section \<open>Permits\<close>

text \<open>The runs under way, and how many calls ended in between without the clean-up.\<close>

record pool =
  pl_runner :: runner
  pl_open :: "run_info list"
  pl_lost :: nat

datatype pool_event =
    Run_begins prep_fault int string reg_group hooks
  | Run_ends nat "string \<Rightarrow> loaded" int hooks outcome

definition pool_step :: "rcfg \<Rightarrow> (path \<Rightarrow> path) \<Rightarrow> pool_event \<Rightarrow> pool \<Rightarrow> pool" where
  "pool_step cfg realpath e p = (case e of
      Run_begins fault now run_id g hk \<Rightarrow> (case run_check hk now g (pl_runner p) of
          (s, Some _) \<Rightarrow> p\<lparr>pl_runner := s\<rparr>
        | (s, None) \<Rightarrow> (case run_acquire s of
            None \<Rightarrow> p\<lparr>pl_runner := s\<rparr>
          | Some s \<Rightarrow> (case run_prepare cfg realpath fault now run_id False None g s of
              (s, None) \<Rightarrow> p\<lparr>pl_runner := s, pl_lost := Suc (pl_lost p)\<rparr>
            | (s, Some ri) \<Rightarrow> p\<lparr>pl_runner := s, pl_open := pl_open p @ [ri]\<rparr>)))
    | Run_ends i load now hk o' \<Rightarrow> (if i < length (pl_open p)
        then p\<lparr>pl_runner := fst (run_finish cfg load now (pl_open p ! i) hk o' (pl_runner p)),
           pl_open := take i (pl_open p) @ drop (Suc i) (pl_open p)\<rparr> else p))"

definition new_pool :: "nat \<Rightarrow> pool" where
  "new_pool n = \<lparr>pl_runner = new_runner n, pl_open = [], pl_lost = 0\<rparr>"

definition permits_add_up :: "nat \<Rightarrow> pool \<Rightarrow> bool" where
  "permits_add_up n p = (rn_permits (pl_runner p) + length (pl_open p) + pl_lost p = n)"

lemma run_check_frame: "run_check hk now g s = (s', r) \<Longrightarrow> rn_permits s' = rn_permits s \<and> rn_active s' = rn_active s"
  by (auto simp: run_check_def Let_def split: prod.splits if_splits)

lemma run_prepare_permits: "run_prepare cfg realpath fault now i sch par g s = (s', r) \<Longrightarrow> rn_permits s' = rn_permits s"
  by (auto simp: run_prepare_def Let_def log_container_start_def split: if_splits)

lemma run_finish_permits: "rn_permits (fst (run_finish cfg load now ri hk o' s)) = Suc (rn_permits s)"
proof -
  obtain t res where b: "run_body cfg load now ri hk o' s = (t, res)" by fastforce
  from run_body_effects[OF b] show ?thesis by (simp add: run_finish_def b run_cleanup_def)
qed

lemma permits_step: "permits_add_up n p \<Longrightarrow> permits_add_up n (pool_step cfg realpath e p)"
proof (cases e)
  case (Run_begins fault now i g hk)
  assume a: "permits_add_up n p"
  obtain s r where c: "run_check hk now g (pl_runner p) = (s, r)" by fastforce
  note f = run_check_frame[OF c]
  show ?thesis
  proof (cases "r = None \<and> rn_permits s \<noteq> 0")
    case True
    then have q: "run_acquire s = Some (s\<lparr>rn_permits := rn_permits s - 1\<rparr>)" by (simp add: run_acquire_def)
    obtain t ri where t: "run_prepare cfg realpath fault now i False None g (s\<lparr>rn_permits := rn_permits s - 1\<rparr>) = (t, ri)" by fastforce
    have "rn_permits t = rn_permits s - 1" using run_prepare_permits[OF t] by simp
    then show ?thesis using a f True Run_begins c q t by (cases ri) (auto simp: pool_step_def permits_add_up_def)
  next
    case False
    then show ?thesis using a f Run_begins c by (cases r) (auto simp: pool_step_def permits_add_up_def run_acquire_def)
  qed
next
  case (Run_ends i load now hk o')
  assume "permits_add_up n p"
  then show ?thesis using Run_ends by (auto simp: pool_step_def permits_add_up_def run_finish_permits)
qed

interpretation pool: preserved "pool_step cfg realpath" "permits_add_up n" for cfg realpath n
  by unfold_locales (rule permits_step)

lemma lost_grows: "pl_lost p \<le> pl_lost (pool_step cfg realpath e p)"
  by (auto simp: pool_step_def split: pool_event.splits prod.splits option.splits)

lemma lost_grows_history: "pl_lost p \<le> pl_lost (fold (pool_step cfg realpath) es p)"
proof (induction es arbitrary: p)
  case (Cons e es)
  from le_trans[OF lost_grows Cons[of "pool_step cfg realpath e p"]] show ?case by simp
qed simp

text \<open>
  C23: A permit that is taken is either held by a run under way or free again, but for those of calls that
  failed between the semaphore and the \<open>try\<close> statement, which never come back: when there have been as
  many of these as there are permits, no container is started any more.
\<close>

theorem permits_lost:
  assumes "p = fold (pool_step cfg realpath) es (new_pool n)"
  shows "rn_permits (pl_runner p) + length (pl_open p) + pl_lost p = n
    \<and> (pl_lost p = n \<longrightarrow> pl_open (fold (pool_step cfg realpath) later p) = []
        \<and> run_acquire (pl_runner (fold (pool_step cfg realpath) later p)) = None)"
proof -
  have "permits_add_up n (new_pool n)" by (simp add: permits_add_up_def new_pool_def new_runner_def)
  then have i: "permits_add_up n p" unfolding assms by (rule pool.history_kept)
  then have j: "permits_add_up n (fold (pool_step cfg realpath) later p)" by (rule pool.history_kept)
  have "pl_lost p \<le> pl_lost (fold (pool_step cfg realpath) later p)" by (rule lost_grows_history)
  then have "length (pl_open (fold (pool_step cfg realpath) later p)) = 0
      \<and> rn_permits (pl_runner (fold (pool_step cfg realpath) later p)) = 0" if "pl_lost p = n"
    using j that unfolding permits_add_up_def by linarith
  then show ?thesis using i by (simp add: permits_add_up_def run_acquire_def)
qed

definition bad_start :: pool_event where
  "bad_start = Run_begins Fault_early 0 ''r'' demo_rgroup \<lparr>hk_success = None, hk_output = None, hk_error = False\<rparr>"

theorem permits_lost_witness:
  "let p = fold (pool_step mount_cfg (\<lambda>p. p)) [bad_start, bad_start] (new_pool 2) in
     pl_lost p = 2 \<and> pl_open (fold (pool_step mount_cfg (\<lambda>p. p)) [Run_begins No_fault 9 ''s'' demo_rgroup \<lparr>hk_success = None, hk_output = None, hk_error = False\<rparr>] p) = []"
proof -
  let ?p = "fold (pool_step mount_cfg (\<lambda>p. p)) [bad_start, bad_start] (new_pool 2)"
  have "pl_lost ?p = 2" by code_simp
  with permits_lost[OF refl, of mount_cfg "\<lambda>p. p" "[bad_start, bad_start]" 2] show ?thesis unfolding Let_def by blast
qed

section \<open>Orphans\<close>

definition names_known :: "pool \<Rightarrow> bool" where
  "names_known p = (set (map ri_name (pl_open p)) \<subseteq> set (dkeys (rn_active (pl_runner p))) \<and> distinct (map ri_name (pl_open p)))"

fun fresh_event :: "pool_event \<Rightarrow> pool \<Rightarrow> bool" where
  "fresh_event (Run_begins _ _ i g _) p = (container_name_of (rg_folder g) i \<notin> ri_name ` set (pl_open p))"
| "fresh_event _ _ = True"

lemma set_dkeys_ddel: "set (dkeys (ddel k d)) = set (dkeys d) - {k}"
  by (auto simp: dkeys_def ddel_def)

lemma run_finish_active: "rn_active (fst (run_finish cfg load now ri hk o' s)) = ddel (ri_name ri) (rn_active s)"
proof -
  obtain t res where b: "run_body cfg load now ri hk o' s = (t, res)" by fastforce
  from run_body_effects[OF b] show ?thesis by (simp add: run_finish_def b run_cleanup_def)
qed

lemma run_prepare_names: "run_prepare cfg realpath fault now i sch par g s = (s', r) \<Longrightarrow>
    set (dkeys (rn_active s)) \<subseteq> set (dkeys (rn_active s'))
    \<and> (\<forall>ri. r = Some ri \<longrightarrow> ri_name ri = container_name_of (rg_folder g) i \<and> ri_name ri \<in> set (dkeys (rn_active s')))"
  by (auto simp: run_prepare_def Let_def log_container_start_def split: if_splits)

lemma names_step: "names_known p \<Longrightarrow> fresh_event e p \<Longrightarrow> names_known (pool_step cfg realpath e p)"
proof (cases e)
  case (Run_begins fault now i g hk)
  assume a: "names_known p" "fresh_event e p"
  obtain s r where c: "run_check hk now g (pl_runner p) = (s, r)" by fastforce
  note f = run_check_frame[OF c]
  show ?thesis
  proof (cases "r = None \<and> rn_permits s \<noteq> 0")
    case True
    then have q: "run_acquire s = Some (s\<lparr>rn_permits := rn_permits s - 1\<rparr>)" by (simp add: run_acquire_def)
    obtain t ri where t: "run_prepare cfg realpath fault now i False None g (s\<lparr>rn_permits := rn_permits s - 1\<rparr>) = (t, ri)" by fastforce
    from run_prepare_names[OF t] show ?thesis using a f True Run_begins c q t
      by (cases ri) (auto simp: pool_step_def names_known_def)
  next
    case False
    then show ?thesis using a f Run_begins c by (cases r) (auto simp: pool_step_def names_known_def run_acquire_def)
  qed
next
  case (Run_ends i load now hk o')
  assume a: "names_known p" "fresh_event e p"
  show ?thesis
  proof (cases "i < length (pl_open p)")
    case True
    let ?l = "take i (pl_open p)" and ?r = "drop (Suc i) (pl_open p)" and ?x = "pl_open p ! i"
    have "pl_open p = ?l @ ?x # ?r" using True by (rule id_take_nth_drop)
    then have d: "distinct (map ri_name (?l @ ?x # ?r))" "set (map ri_name (?l @ ?x # ?r)) \<subseteq> set (dkeys (rn_active (pl_runner p)))"
      using a(1) by (metis names_known_def)+
    have "ri_name ?x \<notin> set (map ri_name (?l @ ?r))" using d(1) by auto
    moreover have "set (map ri_name (?l @ ?r)) \<subseteq> set (map ri_name (?l @ ?x # ?r))" by auto
    ultimately have "set (map ri_name (?l @ ?r)) \<subseteq> set (dkeys (ddel (ri_name ?x) (rn_active (pl_runner p))))"
      using d(2) unfolding set_dkeys_ddel by blast
    moreover have "distinct (map ri_name (?l @ ?r))" using d(1) by simp
    ultimately have "set (map ri_name (?l @ ?r)) \<subseteq> set (dkeys (ddel (ri_name ?x) (rn_active (pl_runner p)))) \<and> distinct (map ri_name (?l @ ?r))"
      by blast
    then show ?thesis using Run_ends True by (simp add: pool_step_def names_known_def run_finish_active)
  qed (use a Run_ends in \<open>simp add: pool_step_def\<close>)
qed

lemma names_history:
  "names_known p \<Longrightarrow> (\<And>i. i < length es \<Longrightarrow> fresh_event (es ! i) (fold (pool_step cfg realpath) (take i es) p)) \<Longrightarrow>
     names_known (fold (pool_step cfg realpath) es p)"
proof (induction es arbitrary: p)
  case (Cons e es)
  have "fresh_event e p" using Cons.prems(2)[of 0] by simp
  then have "names_known (pool_step cfg realpath e p)" using Cons.prems(1) by (rule names_step[rotated])
  moreover have "fresh_event (es ! i) (fold (pool_step cfg realpath) (take i es) (pool_step cfg realpath e p))" if "i < length es" for i
    using Cons.prems(2)[of "Suc i"] that by simp
  ultimately show ?case using Cons.IH by simp
qed simp

lemma orphan_race:
  "map ri_name (pl_open (pool_step mount_cfg (\<lambda>p. p) (Run_begins No_fault 0 ''12345678'' demo_rgroup hk) (new_pool 1)))
     = [''evoclaw-team-12345678'']"
  by code_simp

lemma orphan_unknown: "orphan_ids (live_names (pl_runner (new_pool 1))) [(''id'', ''evoclaw-team-12345678'')] = [''id'']"
  by code_simp

text \<open>
  As long as names differ, the clean-up of orphans never removes the container of a run that was under
  way when it looked up the live names.  But the containers are listed later: a run that begins in between
  is taken for an orphan, and its container is removed while it works.
\<close>

theorem orphans_exact:
  assumes "\<And>i. i < length es \<Longrightarrow> fresh_event (es ! i) (fold (pool_step cfg realpath) (take i es) (new_pool n))"
    and "p = fold (pool_step cfg realpath) es (new_pool n)" "ri \<in> set (pl_open p)" "distinct (map fst listed)" "(cid, ri_name ri) \<in> set listed"
  shows "cid \<notin> set (orphan_ids (live_names (pl_runner p)) listed)
    \<and> (let q = pool_step mount_cfg (\<lambda>p. p) (Run_begins No_fault 0 ''12345678'' demo_rgroup hk) (new_pool 1) in
         map ri_name (pl_open q) = [''evoclaw-team-12345678'']
         \<and> orphan_ids (live_names (pl_runner (new_pool 1))) [(''id'', ''evoclaw-team-12345678'')] = [''id''])"
proof
  have "names_known (new_pool n)" by (simp add: names_known_def new_pool_def)
  then have "names_known p" unfolding assms(2) using assms(1) by (rule names_history)
  then have "ri_name ri \<in> set (live_names (pl_runner p))" using assms(3) by (auto simp: names_known_def live_names_def)
  then show "cid \<notin> set (orphan_ids (live_names (pl_runner p)) listed)"
    using assms(4,5) by (auto simp: orphan_ids_def) (metis eq_key_imp_eq_value)
  show "let q = pool_step mount_cfg (\<lambda>p. p) (Run_begins No_fault 0 ''12345678'' demo_rgroup hk) (new_pool 1) in
         map ri_name (pl_open q) = [''evoclaw-team-12345678'']
         \<and> orphan_ids (live_names (pl_runner (new_pool 1))) [(''id'', ''evoclaw-team-12345678'')] = [''id'']"
    unfolding Let_def orphan_race orphan_unknown by simp
qed

lemma single_element: "length xs = 1 \<Longrightarrow> \<exists>x. xs = [x]"
  by (cases xs) simp_all

theorem orphans_exact_witness:
  "\<exists>ri. pl_open (fold (pool_step mount_cfg (\<lambda>p. p)) [Run_begins No_fault 0 ''12345678'' demo_rgroup \<lparr>hk_success = None, hk_output = None, hk_error = False\<rparr>] (new_pool 1)) = [ri]
     \<and> ''id'' \<notin> set (orphan_ids (live_names (pl_runner (fold (pool_step mount_cfg (\<lambda>p. p))
          [Run_begins No_fault 0 ''12345678'' demo_rgroup \<lparr>hk_success = None, hk_output = None, hk_error = False\<rparr>] (new_pool 1))))
        [(''id'', ri_name ri)])"
proof -
  let ?e = "Run_begins No_fault 0 ''12345678'' demo_rgroup \<lparr>hk_success = None, hk_output = None, hk_error = False\<rparr>"
  let ?p = "fold (pool_step mount_cfg (\<lambda>p. p)) [?e] (new_pool 1)"
  have "fresh_event ?e (new_pool 1)" by (simp add: new_pool_def)
  then have f: "fresh_event ([?e] ! i) (fold (pool_step mount_cfg (\<lambda>p. p)) (take i [?e]) (new_pool 1))" if "i < length [?e]" for i
    using that by (simp only: list.size less_Suc0 One_nat_def add_0 add_Suc nth_Cons_0 take_0 fold_Nil id_apply)
  have "length (pl_open ?p) = 1" by code_simp
  from single_element[OF this] obtain ri where ri: "pl_open ?p = [ri]" by (rule exE)
  have m: "ri \<in> set (pl_open ?p)" unfolding ri by (rule list.set_intros(1))
  have d: "distinct (map fst [(''id'', ri_name ri)])" "(''id'', ri_name ri) \<in> set [(''id'', ri_name ri)]" by simp_all
  from orphans_exact[OF f refl m d] have "''id'' \<notin> set (orphan_ids (live_names (pl_runner ?p)) [(''id'', ri_name ri)])"
    by (rule conjunct1)
  then show ?thesis using ri by blast
qed

end
