(* ===== verification/Identity.thy ===== *)
theory Identity
  imports Container
begin

text \<open>
  Identities: the agents of \<open>host/identity/agent_identity.py\<close> and the registry of bots with its handshakes,
  \<open>host/identity/bot_registry.py\<close>, with the requests of \<open>host/sdk_api.py\<close> that reach it.  A table is a list
  of rows, times are milliseconds; SHA-256, the nonces and the ids of rows are arguments.
\<close>

section \<open>Agents\<close>

definition make_id :: "(string \<Rightarrow> string) \<Rightarrow> string \<Rightarrow> string \<Rightarrow> string \<Rightarrow> string" where
  "make_id sha256 name project channel = take 16 (sha256 (lower name @ '':'' @ lower project @ '':'' @ lower channel))"

text \<open>A profile maps its keys to JSON values, kept as text.\<close>

record agent =
  ag_id :: string
  ag_name :: string
  ag_project :: string
  ag_channel :: string
  ag_skills :: "string list"
  ag_profile :: "(string, string) dict"
  ag_summary :: string
  ag_genome :: string
  ag_active :: int
  ag_created :: int
  ag_count :: nat

type_synonym agents = "agent list"

definition agent_get :: "string \<Rightarrow> agents \<Rightarrow> agent option" where
  "agent_get i t = find (\<lambda>r. ag_id r = i) t"

definition get_or_create :: "(string \<Rightarrow> string) \<Rightarrow> int \<Rightarrow> string \<Rightarrow> string \<Rightarrow> string \<Rightarrow> agents \<Rightarrow> agents \<times> agent" where
  "get_or_create sha256 now name project channel t =
     (let i = make_id sha256 name project channel in
      case agent_get i t of
        Some r \<Rightarrow> (t, r)
      | None \<Rightarrow> (let r = \<lparr>ag_id = i, ag_name = name, ag_project = project, ag_channel = channel, ag_skills = [], ag_profile = [],
            ag_summary = [], ag_genome = [], ag_active = now, ag_created = now, ag_count = 0\<rparr> in (t @ [r], r)))"

definition agent_update :: "string \<Rightarrow> (agent \<Rightarrow> agent) \<Rightarrow> agents \<Rightarrow> agents" where
  "agent_update i f t = map (\<lambda>r. if ag_id r = i then f r else r) t"

definition update_summary :: "int \<Rightarrow> string \<Rightarrow> string \<Rightarrow> agents \<Rightarrow> agents" where
  "update_summary now i s = agent_update i (\<lambda>r. r\<lparr>ag_summary := s, ag_active := now\<rparr>)"

definition add_skill :: "string \<Rightarrow> string \<Rightarrow> agents \<Rightarrow> agents" where
  "add_skill i s = agent_update i (\<lambda>r. if s \<in> set (ag_skills r) then r else r\<lparr>ag_skills := ag_skills r @ [s]\<rparr>)"

definition increment_message_count :: "int \<Rightarrow> string \<Rightarrow> agents \<Rightarrow> agents" where
  "increment_message_count now i = agent_update i (\<lambda>r. r\<lparr>ag_count := Suc (ag_count r), ag_active := now\<rparr>)"

definition update_profile :: "string \<Rightarrow> (string, string) dict \<Rightarrow> agents \<Rightarrow> agents" where
  "update_profile i updates = agent_update i (\<lambda>r. r\<lparr>ag_profile := fold (\<lambda>(k, v). dset k v) updates (ag_profile r)\<rparr>)"

definition list_agents :: "string \<Rightarrow> agents \<Rightarrow> agents" where
  "list_agents project t = sort_key (\<lambda>r. - ag_active r) (if project = [] then t else filter (\<lambda>r. ag_project r = project) t)"

text \<open>What \<open>_process_group_messages\<close> does for every batch.  No group has a channel.\<close>

definition track_group :: "(string \<Rightarrow> string) \<Rightarrow> int \<Rightarrow> string \<Rightarrow> agents \<Rightarrow> agents" where
  "track_group sha256 now folder t =
     (case get_or_create sha256 now folder ''evoclaw'' ''unknown'' t of (t, r) \<Rightarrow> increment_message_count now (ag_id r) t)"

section \<open>Bots\<close>

record bot =
  bt_id :: string
  bt_name :: string
  bt_display :: string
  bt_framework :: string
  bt_channel :: string
  bt_capabilities :: "string list"
  bt_ws :: "string option"
  bt_http :: "string option"
  bt_key :: "string option"
  bt_registered :: int
  bt_seen :: int
  bt_trusted :: bool

datatype shake_status = Pending | Completed | Expired

record handshake =
  hs_initiator :: string
  hs_target :: string
  hs_status :: shake_status
  hs_at :: int
  hs_done :: "int option"
  hs_nonce :: string

record registry =
  bots :: "bot list"
  shakes :: "handshake list"
  waiting_shakes :: "(string, int list) dict"

definition NONCE_TTL :: int where "NONCE_TTL = 300000"

definition register_bot :: "bot \<Rightarrow> registry \<Rightarrow> registry" where
  "register_bot b g = (if find (\<lambda>r. bt_id r = bt_id b) (bots g) = None then g\<lparr>bots := bots g @ [b]\<rparr>
     else g\<lparr>bots := map (\<lambda>r. if bt_id r = bt_id b then r\<lparr>bt_display := bt_display b, bt_ws := bt_ws b, bt_http := bt_http b,
       bt_seen := bt_seen b, bt_capabilities := bt_capabilities b\<rparr> else r) (bots g)\<rparr>)"

definition lookup_bot :: "string \<Rightarrow> registry \<Rightarrow> bot option" where
  "lookup_bot i g = find (\<lambda>r. bt_id r = i) (bots g)"

text \<open>\<open>lower\<close> of SQLite changes ASCII letters only.\<close>

definition sql_lower :: "string \<Rightarrow> string" where
  "sql_lower s = map (\<lambda>c. let n = (of_char c :: nat) in if 65 \<le> n \<and> n \<le> 90 then char_of (n + 32) else c) s"

definition lookup_by_name :: "string \<Rightarrow> registry \<Rightarrow> bot option" where
  "lookup_by_name n g = find (\<lambda>r. sql_lower (bt_name r) = sql_lower n \<or> sql_lower (bt_display r) = sql_lower n) (bots g)"

definition list_bots :: "bool \<Rightarrow> registry \<Rightarrow> bot list" where
  "list_bots trusted_only g = sort_key bt_registered (if trusted_only then filter bt_trusted (bots g) else bots g)"

definition set_trusted :: "string list \<Rightarrow> registry \<Rightarrow> registry" where
  "set_trusted ids g = g\<lparr>bots := map (\<lambda>r. if bt_id r \<in> set ids then r\<lparr>bt_trusted := True\<rparr> else r) (bots g)\<rparr>"

definition trust :: "string \<Rightarrow> registry \<Rightarrow> registry \<times> bool" where
  "trust i g = (set_trusted [i] g, lookup_bot i g \<noteq> None)"

text \<open>\<open>None\<close> is the \<open>RuntimeError\<close> of the rate limit.\<close>

definition initiate_handshake :: "int \<Rightarrow> string \<Rightarrow> string \<Rightarrow> string \<Rightarrow> registry \<Rightarrow> registry \<times> string option" where
  "initiate_handshake now nonce i t g =
     (let recent = filter (\<lambda>a. now - a < NONCE_TTL) (case dget (waiting_shakes g) t of None \<Rightarrow> [] | Some l \<Rightarrow> l) in
      if length recent \<ge> 5 then (g\<lparr>waiting_shakes := dset t recent (waiting_shakes g)\<rparr>, None)
      else (g\<lparr>waiting_shakes := dset t (recent @ [now]) (waiting_shakes g),
              shakes := shakes g @ [\<lparr>hs_initiator = i, hs_target = t, hs_status = Pending, hs_at = now, hs_done = None, hs_nonce = nonce\<rparr>]\<rparr>,
            Some nonce))"

text \<open>The row of a handshake that is pending, by its place in the table.\<close>

fun place_of :: "('a \<Rightarrow> bool) \<Rightarrow> 'a list \<Rightarrow> nat option" where
  "place_of P [] = None"
| "place_of P (x # xs) = (if P x then Some 0 else map_option Suc (place_of P xs))"

definition shake_row :: "string \<Rightarrow> string \<Rightarrow> string \<Rightarrow> registry \<Rightarrow> nat option" where
  "shake_row i t nonce g = place_of (\<lambda>r. hs_initiator r = i \<and> hs_target r = t \<and> hs_nonce r = nonce \<and> hs_status r = Pending) (shakes g)"

definition complete_handshake :: "int \<Rightarrow> string \<Rightarrow> string \<Rightarrow> string \<Rightarrow> registry \<Rightarrow> registry \<times> bool" where
  "complete_handshake now i t nonce g = (case shake_row i t nonce g of
      None \<Rightarrow> (g, False)
    | Some k \<Rightarrow> (let r = shakes g ! k in
        if hs_at r < now - NONCE_TTL then (g\<lparr>shakes := (shakes g)[k := r\<lparr>hs_status := Expired\<rparr>]\<rparr>, False)
        else (set_trusted [i, t] (g\<lparr>shakes := (shakes g)[k := r\<lparr>hs_status := Completed, hs_done := Some now\<rparr>]\<rparr>), True)))"

definition update_last_seen :: "int \<Rightarrow> string \<Rightarrow> registry \<Rightarrow> registry" where
  "update_last_seen now i g = g\<lparr>bots := map (\<lambda>r. if bt_id r = i then r\<lparr>bt_seen := now\<rparr> else r) (bots g)\<rparr>"

definition purge_stale_bots :: "int \<Rightarrow> int \<Rightarrow> registry \<Rightarrow> registry" where
  "purge_stale_bots now max_age g = g\<lparr>bots := filter (\<lambda>r. bt_trusted r \<or> \<not> bt_seen r < now - max_age) (bots g)\<rparr>"

definition purge_stale_handshakes :: "int \<Rightarrow> int \<Rightarrow> registry \<Rightarrow> registry" where
  "purge_stale_handshakes now max_age g =
     g\<lparr>shakes := filter (\<lambda>r. \<not> (hs_at r < now - max_age \<and> hs_status r \<noteq> Pending)) (shakes g),
       waiting_shakes := filter (\<lambda>(_, l). l \<noteq> []) (waiting_shakes g)\<rparr>"

text \<open>The two bots that are known from the start; the first character of their names is not ASCII.\<close>

definition bootstrap_known_bots :: "(string \<Rightarrow> string) \<Rightarrow> int \<Rightarrow> (string \<Rightarrow> string option) \<Rightarrow> string \<Rightarrow> string \<Rightarrow> registry \<Rightarrow> registry" where
  "bootstrap_known_bots sha256 now env bai eve =
     register_bot \<lparr>bt_id = make_id sha256 eve ''evoclaw'' ''discord'', bt_name = eve, bt_display = ''Eve'', bt_framework = ''evoclaw'',
         bt_channel = ''discord'', bt_capabilities = [''memory'', ''evolution'', ''fitness'', ''enterprise''],
         bt_ws = env ''XIAO_EVE_WS_ENDPOINT'', bt_http = Some ''http://localhost:8767'', bt_key = None,
         bt_registered = now, bt_seen = now, bt_trusted = True\<rparr>
     \<circ> register_bot \<lparr>bt_id = make_id sha256 bai ''external'' ''telegram'', bt_name = bai, bt_display = ''Andy'', bt_framework = ''external'',
         bt_channel = ''telegram'', bt_capabilities = [''memory'', ''code'', ''analysis'', ''multi-channel''],
         bt_ws = env ''XIAO_BAI_WS_ENDPOINT'', bt_http = None, bt_key = None, bt_registered = now, bt_seen = now, bt_trusted = True\<rparr>"

section \<open>Agents keep their identity\<close>

lemma agent_get_append: "agent_get i (t @ [r]) = (case agent_get i t of None \<Rightarrow> if ag_id r = i then Some r else None | Some x \<Rightarrow> Some x)"
  by (induction t) (auto simp: agent_get_def)

lemma agent_get_update: "(\<And>r. ag_id (f r) = ag_id r) \<Longrightarrow>
    agent_get i (agent_update j f t) = (if j = i then map_option f (agent_get i t) else agent_get i t)"
  by (induction t) (auto simp: agent_get_def agent_update_def)

datatype agent_event =
    Ev_seen_agent int string string string
  | Ev_summary int string string
  | Ev_skill string string
  | Ev_message int string
  | Ev_profile string "(string, string) dict"

definition agent_step :: "(string \<Rightarrow> string) \<Rightarrow> agent_event \<Rightarrow> agents \<Rightarrow> agents" where
  "agent_step sha256 e t = (case e of
      Ev_seen_agent now n p c \<Rightarrow> fst (get_or_create sha256 now n p c t)
    | Ev_summary now i s \<Rightarrow> update_summary now i s t
    | Ev_skill i s \<Rightarrow> add_skill i s t
    | Ev_message now i \<Rightarrow> increment_message_count now i t
    | Ev_profile i u \<Rightarrow> update_profile i u t)"

definition agents_ok :: "(string \<Rightarrow> string) \<Rightarrow> agents \<Rightarrow> bool" where
  "agents_ok sha256 t = (distinct (map ag_id t)
     \<and> (\<forall>r \<in> set t. ag_id r = make_id sha256 (ag_name r) (ag_project r) (ag_channel r) \<and> distinct (ag_skills r)))"

lemma map_ag_id_update: "(\<And>r. ag_id (f r) = ag_id r) \<Longrightarrow> map ag_id (agent_update i f t) = map ag_id t"
  by (simp add: agent_update_def)

lemma agents_ok_update:
  assumes "agents_ok h t" "\<And>r. ag_id (f r) = ag_id r" "\<And>r. ag_name (f r) = ag_name r" "\<And>r. ag_project (f r) = ag_project r"
    "\<And>r. ag_channel (f r) = ag_channel r" "\<And>r. distinct (ag_skills r) \<Longrightarrow> distinct (ag_skills (f r))"
  shows "agents_ok h (agent_update i f t)"
proof -
  have "distinct (map ag_id (agent_update i f t))" using assms(1) by (simp add: map_ag_id_update assms(2) agents_ok_def)
  moreover have "ag_id r = make_id h (ag_name r) (ag_project r) (ag_channel r) \<and> distinct (ag_skills r)" if "r \<in> set (agent_update i f t)" for r
    using that assms by (auto simp: agents_ok_def agent_update_def split: if_splits)
  ultimately show ?thesis by (simp add: agents_ok_def)
qed

lemma agent_get_None: "agent_get i t = None \<longleftrightarrow> i \<notin> set (map ag_id t)"
  by (auto simp: agent_get_def find_None_iff)

lemma agents_ok_step: "agents_ok h t \<Longrightarrow> agents_ok h (agent_step h e t)"
proof (cases e)
  case (Ev_seen_agent now n p c)
  assume a: "agents_ok h t"
  show ?thesis
  proof (cases "agent_get (make_id h n p c) t")
    case None
    then have "make_id h n p c \<notin> set (map ag_id t)" using agent_get_None by blast
    then show ?thesis using a None Ev_seen_agent by (auto simp: agent_step_def get_or_create_def agents_ok_def Let_def)
  next
    case (Some r)
    then show ?thesis using a Ev_seen_agent by (simp add: agent_step_def get_or_create_def)
  qed
qed (simp_all add: agent_step_def update_summary_def add_skill_def increment_message_count_def update_profile_def agents_ok_update)

interpretation agent_store: preserved "agent_step h" "agents_ok h" for h
  by unfold_locales (rule agents_ok_step)

lemma agent_kept:
  "agent_get i t = Some r \<Longrightarrow> \<exists>r'. agent_get i (agent_step h e t) = Some r' \<and> ag_created r' = ag_created r \<and> ag_count r \<le> ag_count r'
     \<and> set (ag_skills r) \<subseteq> set (ag_skills r')"
proof (cases e)
  case (Ev_seen_agent now n p c)
  assume a: "agent_get i t = Some r"
  then show ?thesis using Ev_seen_agent
    by (cases "agent_get (make_id h n p c) t") (auto simp: agent_step_def get_or_create_def Let_def agent_get_append)
qed (auto simp: agent_step_def update_summary_def add_skill_def increment_message_count_def update_profile_def agent_get_update)

lemma agent_kept_history:
  "agent_get i t = Some r \<Longrightarrow> \<exists>r'. agent_get i (fold (agent_step h) es t) = Some r' \<and> ag_created r' = ag_created r \<and> ag_count r \<le> ag_count r'
     \<and> set (ag_skills r) \<subseteq> set (ag_skills r')"
proof (induction es arbitrary: t r)
  case (Cons e es)
  from agent_kept[OF Cons.prems, of h e] obtain r1 where r1: "agent_get i (agent_step h e t) = Some r1" "ag_created r1 = ag_created r"
    "ag_count r \<le> ag_count r1" "set (ag_skills r) \<subseteq> set (ag_skills r1)" by blast
  from Cons.IH[OF r1(1)] r1 show ?case by (fastforce dest: order_trans)
qed auto

text \<open>
  An agent is found again under its name, project and channel after any history, whatever their case, with
  the time of its creation and all its skills and messages: no operation makes a second row or loses one.
  But the identity that \<open>main.py\<close> keeps for a group is not the one its container is given: they hash
  different texts for every folder name.
\<close>

theorem agent_identity_stable:
  assumes "agents_ok h t" "(t1, r) = get_or_create h now name project channel t" "lower name' = lower name" "lower project' = lower project"
    "lower channel' = lower channel"
  shows "case get_or_create h later name' project' channel' (fold (agent_step h) es t1) of (t2, r2) \<Rightarrow>
      t2 = fold (agent_step h) es t1 \<and> ag_id r2 = ag_id r \<and> ag_created r2 = ag_created r \<and> ag_count r \<le> ag_count r2
      \<and> set (ag_skills r) \<subseteq> set (ag_skills r2) \<and> agents_ok h t2
    \<and> get_agent_id h folder = make_id h folder [] [] \<and> lower folder @ ''::'' \<noteq> lower folder @ '':'' @ lower ''evoclaw'' @ '':'' @ lower ''unknown''"
proof -
  let ?i = "make_id h name project channel"
  have i: "make_id h name' project' channel' = ?i" using assms(3-5) by (simp add: make_id_def)
  have g: "agent_get ?i t1 = Some r \<and> ag_id r = ?i"
  proof (cases "agent_get ?i t")
    case None
    then show ?thesis using assms(2) by (auto simp: get_or_create_def Let_def agent_get_append)
  next
    case (Some x)
    then have "ag_id x = ?i" by (auto simp: agent_get_def find_Some_iff)
    then show ?thesis using assms(2) Some by (simp add: get_or_create_def)
  qed
  obtain r2 where r2: "agent_get ?i (fold (agent_step h) es t1) = Some r2" "ag_created r2 = ag_created r" "ag_count r \<le> ag_count r2"
    "set (ag_skills r) \<subseteq> set (ag_skills r2)" using agent_kept_history[of ?i t1 r] g by blast
  have "ag_id r2 = ?i" using r2(1) by (auto simp: agent_get_def find_Some_iff)
  moreover have "t1 = agent_step h (Ev_seen_agent now name project channel) t" using assms(2) by (metis agent_step_def agent_event.case(1) fst_conv)
  then have "agents_ok h (fold (agent_step h) es t1)" using assms(1) by (metis agents_ok_step agent_store.history_kept)
  moreover have "get_agent_id h folder = make_id h folder [] []" by (simp add: get_agent_id_def make_id_def lower_def)
  moreover have "length (lower ''unknown'') = 7" by (simp add: lower_def)
  then have "lower folder @ ''::'' \<noteq> lower folder @ '':'' @ lower ''evoclaw'' @ '':'' @ lower ''unknown''" by (auto dest: arg_cong[where f = length])
  ultimately show ?thesis using r2 i g by (simp add: get_or_create_def)
qed

theorem agent_identity_stable_witness:
  "case get_or_create (\<lambda>s. s) 9 ''BOT'' ''p'' ''c'' (fold (agent_step (\<lambda>s. s)) [Ev_message 5 ''bot:p:c''] (fst (get_or_create (\<lambda>s. s) 1 ''Bot'' ''p'' ''c'' []))) of
     (t2, r2) \<Rightarrow> ag_created r2 = 1"
proof -
  have "agents_ok (\<lambda>s. s) []" by (simp add: agents_ok_def)
  moreover have "lower ''BOT'' = lower ''Bot''" by code_simp
  ultimately show ?thesis
    using agent_identity_stable[where h = "\<lambda>s. s" and t = "[]" and name = "''Bot''" and name' = "''BOT''" and project = "''p''"
        and project' = "''p''" and channel = "''c''" and channel' = "''c''" and now = 1 and later = 9 and es = "[Ev_message 5 ''bot:p:c'']"]
    by (auto simp: get_or_create_def agent_get_def Let_def split: prod.splits)
qed

section \<open>Trust\<close>

datatype reg_event =
    Ev_register bot
  | Ev_trust string
  | Ev_initiate int string string string
  | Ev_complete int string string string
  | Ev_seen int string
  | Ev_purge_bots int int
  | Ev_purge_shakes int int

definition reg_step :: "reg_event \<Rightarrow> registry \<Rightarrow> registry" where
  "reg_step e g = (case e of
      Ev_register b \<Rightarrow> register_bot b g
    | Ev_trust i \<Rightarrow> fst (trust i g)
    | Ev_initiate now n i t \<Rightarrow> fst (initiate_handshake now n i t g)
    | Ev_complete now i t n \<Rightarrow> fst (complete_handshake now i t n g)
    | Ev_seen now i \<Rightarrow> update_last_seen now i g
    | Ev_purge_bots now age \<Rightarrow> purge_stale_bots now age g
    | Ev_purge_shakes now age \<Rightarrow> purge_stale_handshakes now age g)"

definition new_registry :: registry where
  "new_registry = \<lparr>bots = [], shakes = [], waiting_shakes = []\<rparr>"

definition is_trusted_bot :: "string \<Rightarrow> registry \<Rightarrow> bool" where
  "is_trusted_bot i g = (\<exists>r \<in> set (bots g). bt_id r = i \<and> bt_trusted r)"

lemma place_of_Some: "place_of P xs = Some k \<Longrightarrow> k < length xs \<and> P (xs ! k)"
  by (induction xs arbitrary: k) (auto split: if_splits)

lemma place_of_None: "place_of P xs = None \<longleftrightarrow> (\<forall>x \<in> set xs. \<not> P x)"
  by (induction xs) auto

lemma trusted_map: "(\<And>r. bt_id (f r) = bt_id r) \<Longrightarrow> (\<And>r. bt_trusted (f r) = (bt_trusted r \<or> P r)) \<Longrightarrow>
    is_trusted_bot i (g\<lparr>bots := map f (bots g)\<rparr>) = (\<exists>r \<in> set (bots g). bt_id r = i \<and> (bt_trusted r \<or> P r))"
  by (auto simp: is_trusted_bot_def)

lemma lookup_None: "lookup_bot i g = None \<longleftrightarrow> i \<notin> bt_id ` set (bots g)"
  by (auto simp: lookup_bot_def find_None_iff)

lemma trusted_set: "is_trusted_bot i (set_trusted ids g) = (is_trusted_bot i g \<or> i \<in> set ids \<and> lookup_bot i g \<noteq> None)"
  unfolding set_trusted_def by (subst trusted_map[where P = "\<lambda>r. bt_id r \<in> set ids"]) (auto simp: is_trusted_bot_def lookup_None)

lemma trusted_seen: "is_trusted_bot i (update_last_seen now j g) = is_trusted_bot i g"
  unfolding update_last_seen_def by (subst trusted_map[where P = "\<lambda>_. False"]) (auto simp: is_trusted_bot_def)

lemmas trusted_simps [simp] = trusted_set trusted_seen

lemma trusted_frames [simp]:
  "is_trusted_bot i (g\<lparr>shakes := x\<rparr>) = is_trusted_bot i g" "is_trusted_bot i (g\<lparr>waiting_shakes := y\<rparr>) = is_trusted_bot i g"
  "is_trusted_bot i (g\<lparr>waiting_shakes := y, shakes := x\<rparr>) = is_trusted_bot i g" "is_trusted_bot i (g\<lparr>shakes := x, waiting_shakes := y\<rparr>) = is_trusted_bot i g"
  "lookup_bot i (g\<lparr>shakes := x\<rparr>) = lookup_bot i g" "lookup_bot i (g\<lparr>waiting_shakes := y\<rparr>) = lookup_bot i g"
  "is_trusted_bot i (purge_stale_bots now age g) = is_trusted_bot i g"
  "is_trusted_bot i (purge_stale_handshakes now age g) = is_trusted_bot i g"
  by (auto simp: is_trusted_bot_def lookup_bot_def purge_stale_bots_def purge_stale_handshakes_def)

lemma trusted_register: "is_trusted_bot i (register_bot b g) = (is_trusted_bot i g \<or> lookup_bot (bt_id b) g = None \<and> bt_id b = i \<and> bt_trusted b)"
proof (cases "lookup_bot (bt_id b) g")
  case None
  then show ?thesis by (auto simp: register_bot_def is_trusted_bot_def lookup_bot_def)
next
  case (Some r)
  then have "find (\<lambda>r. bt_id r = bt_id b) (bots g) \<noteq> None" by (simp add: lookup_bot_def)
  then have "register_bot b g = g\<lparr>bots := map (\<lambda>r. if bt_id r = bt_id b then r\<lparr>bt_display := bt_display b, bt_ws := bt_ws b, bt_http := bt_http b,
       bt_seen := bt_seen b, bt_capabilities := bt_capabilities b\<rparr> else r) (bots g)\<rparr>" by (simp only: register_bot_def if_False)
  then show ?thesis using Some by (simp only:) (subst trusted_map[where P = "\<lambda>_. False"], auto simp: is_trusted_bot_def)
qed

lemma trusted_complete: "is_trusted_bot i (fst (complete_handshake now a b n g))
    = (is_trusted_bot i g \<or> snd (complete_handshake now a b n g) \<and> i \<in> {a, b} \<and> lookup_bot i g \<noteq> None)"
  by (auto simp: complete_handshake_def Let_def split: option.splits)

lemma trusted_initiate [simp]: "is_trusted_bot i (fst (initiate_handshake now n a b g)) = is_trusted_bot i g"
  by (simp add: initiate_handshake_def Let_def)

lemma trust_kept: "is_trusted_bot i g \<Longrightarrow> is_trusted_bot i (reg_step e g)"
  by (cases e) (simp_all add: reg_step_def trust_def trusted_register trusted_complete)

interpretation trust_forever: preserved reg_step "is_trusted_bot i" for i
  by unfold_locales (rule trust_kept)

text \<open>Whether an event, after the events \<open>es\<close>, vouches for a bot.\<close>

fun vouches :: "reg_event list \<Rightarrow> reg_event \<Rightarrow> string \<Rightarrow> bool" where
  "vouches es (Ev_register b) i = (bt_id b = i \<and> bt_trusted b)"
| "vouches es (Ev_trust j) i = (j = i)"
| "vouches es (Ev_complete now a b n) i = (i \<in> {a, b} \<and> list_ex (\<lambda>e. case e of Ev_initiate began n' a' b' \<Rightarrow> n' = n \<and> a' = a \<and> b' = b \<and> began \<ge> now - NONCE_TTL | _ \<Rightarrow> False) es)"
| "vouches es _ i = False"

definition shakes_known :: "reg_event list \<Rightarrow> registry \<Rightarrow> bool" where
  "shakes_known es g = (\<forall>h \<in> set (shakes g). Ev_initiate (hs_at h) (hs_nonce h) (hs_initiator h) (hs_target h) \<in> set es)"

lemma shakes_known_step: "shakes_known es g \<Longrightarrow> shakes_known (es @ [e]) (reg_step e g)"
proof (cases e)
  case (Ev_complete now a b n)
  assume s: "shakes_known es g"
  show ?thesis
  proof (cases "shake_row a b n g")
    case (Some k)
    then have k: "k < length (shakes g)" unfolding shake_row_def by (blast dest: place_of_Some)
    have known: "shakes_known (es @ [Ev_complete now a b n]) (g'\<lparr>shakes := (shakes g)[k := r]\<rparr>)"
      if "hs_at r = hs_at (shakes g ! k)" "hs_nonce r = hs_nonce (shakes g ! k)" "hs_initiator r = hs_initiator (shakes g ! k)"
        "hs_target r = hs_target (shakes g ! k)" for r g'
    proof -
      have "shakes g ! k \<in> set (shakes g)" using k by simp
      then show ?thesis using s that set_update_subset_insert[of "shakes g" k r] by (fastforce simp: shakes_known_def)
    qed
    have "set_trusted ids (g\<lparr>shakes := x\<rparr>) = (set_trusted ids g)\<lparr>shakes := x\<rparr>" for ids x by (simp add: set_trusted_def)
    then show ?thesis using Ev_complete Some by (auto simp: reg_step_def complete_handshake_def Let_def intro!: known)
  qed (use s Ev_complete in \<open>auto simp: shakes_known_def reg_step_def complete_handshake_def\<close>)
qed (auto simp: shakes_known_def reg_step_def register_bot_def trust_def set_trusted_def initiate_handshake_def Let_def update_last_seen_def
    purge_stale_bots_def purge_stale_handshakes_def)

lemma shakes_known_history: "shakes_known es (fold reg_step es new_registry)"
proof (induction es rule: rev_induct)
  case (snoc e es)
  from shakes_known_step[OF this, of e] show ?case by simp
qed (simp add: shakes_known_def new_registry_def)

lemma vouched_step:
  assumes "shakes_known es g" "is_trusted_bot i (reg_step e g)" "\<not> is_trusted_bot i g"
  shows "vouches es e i"
proof (cases e)
  case (Ev_complete now a b n)
  then have c: "snd (complete_handshake now a b n g)" "i \<in> {a, b}" using assms(2,3) by (simp_all add: reg_step_def trusted_complete)
  then obtain k where k: "shake_row a b n g = Some k" "\<not> hs_at (shakes g ! k) < now - NONCE_TTL"
    by (auto simp: complete_handshake_def Let_def split: option.splits if_splits)
  then have "k < length (shakes g)" "hs_initiator (shakes g ! k) = a" "hs_target (shakes g ! k) = b" "hs_nonce (shakes g ! k) = n"
    unfolding shake_row_def by (auto dest: place_of_Some)
  then have "Ev_initiate (hs_at (shakes g ! k)) n a b \<in> set es" using assms(1) by (auto simp: shakes_known_def)
  then show ?thesis using c(2) k(2) Ev_complete by (force simp: list_ex_iff)
qed (use assms in \<open>auto simp: reg_step_def trusted_register trust_def\<close>)

text \<open>
  C27: A bot is trusted only because it was first registered as trusted, was declared trusted, or was named in
  a handshake begun at most five minutes before it was completed with its nonce.  Trust is never lost
  again: no operation and no clean-up of the registry takes it back.
\<close>

theorem trust_provenance:
  assumes "is_trusted_bot i (fold reg_step es new_registry)"
  shows "(\<exists>k < length es. vouches (take k es) (es ! k) i) \<and> is_trusted_bot i (fold reg_step (es @ later) new_registry)"
proof
  show "\<exists>k < length es. vouches (take k es) (es ! k) i" using assms
  proof (induction es rule: rev_induct)
    case (snoc e es)
    show ?case
    proof (cases "is_trusted_bot i (fold reg_step es new_registry)")
      case True
      then obtain k where "k < length es" "vouches (take k es) (es ! k) i" using snoc.IH by blast
      then show ?thesis by (intro exI[of _ k]) (simp add: nth_append)
    next
      case False
      then have "vouches es e i" using snoc.prems shakes_known_history by (auto intro: vouched_step)
      then show ?thesis by (intro exI[of _ "length es"]) simp
    qed
  qed (simp add: new_registry_def is_trusted_bot_def)
  show "is_trusted_bot i (fold reg_step (es @ later) new_registry)" using trust_forever.history_kept[OF assms] by simp
qed

definition demo_bot :: "string \<Rightarrow> bot" where
  "demo_bot i = \<lparr>bt_id = i, bt_name = i, bt_display = i, bt_framework = ''external'', bt_channel = ''telegram'', bt_capabilities = [],
     bt_ws = None, bt_http = None, bt_key = None, bt_registered = 0, bt_seen = 0, bt_trusted = False\<rparr>"

theorem trust_provenance_witness:
  "\<exists>k < 3. vouches (take k [Ev_register (demo_bot ''a''), Ev_initiate 5 ''n'' ''a'' ''b'', Ev_complete 9 ''a'' ''b'' ''n''])
     ([Ev_register (demo_bot ''a''), Ev_initiate 5 ''n'' ''a'' ''b'', Ev_complete 9 ''a'' ''b'' ''n''] ! k) ''a''"
proof -
  let ?es = "[Ev_register (demo_bot ''a''), Ev_initiate 5 ''n'' ''a'' ''b'', Ev_complete 9 ''a'' ''b'' ''n'']"
  have t: "is_trusted_bot ''a'' (fold reg_step ?es new_registry)" by code_simp
  have l: "length ?es = 3" by simp
  show ?thesis using trust_provenance[OF t, THEN conjunct1] unfolding l .
qed

section \<open>Handshakes\<close>

lemma shake_row_unique:
  assumes "distinct (map hs_nonce (shakes g))" "k < length (shakes g)" "hs_nonce (shakes g ! k) = n"
    and "hs_initiator (shakes g ! k) = i" "hs_target (shakes g ! k) = t" "hs_status (shakes g ! k) = Pending"
  shows "shake_row i t n g = Some k"
proof (cases "shake_row i t n g")
  case None
  then show ?thesis using assms(2-6) unfolding shake_row_def place_of_None by (metis nth_mem)
next
  case (Some j)
  then have "j < length (shakes g)" "hs_nonce (shakes g ! j) = n" unfolding shake_row_def by (auto dest: place_of_Some)
  then have "j = k" using assms(1,2,3) by (metis distinct_conv_nth length_map nth_map)
  then show ?thesis using Some by simp
qed

lemma complete_once:
  assumes "distinct (map hs_nonce (shakes g))" "snd (complete_handshake now i t n g)"
  shows "\<not> snd (complete_handshake later i' t' n (fst (complete_handshake now i t n g)))"
proof -
  obtain k where k: "shake_row i t n g = Some k" "\<not> hs_at (shakes g ! k) < now - NONCE_TTL"
    using assms(2) by (auto simp: complete_handshake_def Let_def split: option.splits if_splits)
  then have r: "k < length (shakes g)" "hs_nonce (shakes g ! k) = n" unfolding shake_row_def by (auto dest: place_of_Some)
  let ?g = "fst (complete_handshake now i t n g)"
  have s: "shakes ?g = (shakes g)[k := (shakes g ! k)\<lparr>hs_status := Completed, hs_done := Some now\<rparr>]"
    using k by (simp add: complete_handshake_def Let_def set_trusted_def)
  have "hs_status h \<noteq> Pending \<or> hs_nonce h \<noteq> n" if h: "h \<in> set (shakes ?g)" for h
  proof -
    obtain j where j: "j < length (shakes g)" "h = shakes ?g ! j" using h s by (metis in_set_conv_nth length_list_update)
    show ?thesis
    proof (cases "j = k")
      case False
      then have "hs_nonce (shakes g ! j) \<noteq> n" using assms(1) j(1) r by (metis distinct_conv_nth length_map nth_map)
      then show ?thesis using j False s by simp
    qed (use j s r in simp)
  qed
  then have "shake_row i' t' n ?g = None" unfolding shake_row_def place_of_None by blast
  then show ?thesis by (simp add: complete_handshake_def)
qed

text \<open>
  A handshake is completed exactly when its row is pending and at most five minutes old; both bots are then
  trusted, as far as they are registered, and the nonce is of no use any more.  But the target has no part
  in it: whoever begins a handshake between any two registered bots is handed the nonce and completes it.
\<close>

theorem handshake_exact:
  assumes "distinct (map hs_nonce (shakes g))"
  shows "snd (complete_handshake now i t n g)
      = (\<exists>h \<in> set (shakes g). hs_initiator h = i \<and> hs_target h = t \<and> hs_nonce h = n \<and> hs_status h = Pending \<and> now - hs_at h \<le> NONCE_TTL)
    \<and> (snd (complete_handshake now i t n g) \<longrightarrow>
        (\<forall>b \<in> {i, t}. lookup_bot b g \<noteq> None \<longrightarrow> is_trusted_bot b (fst (complete_handshake now i t n g)))
        \<and> \<not> snd (complete_handshake later i t n (fst (complete_handshake now i t n g))))
    \<and> (n \<notin> hs_nonce ` set (shakes g) \<longrightarrow> snd (initiate_handshake now n i t g) \<noteq> None \<longrightarrow>
        snd (initiate_handshake now n i t g) = Some n \<and> snd (complete_handshake now i t n (fst (initiate_handshake now n i t g))))"
proof (intro conjI impI)
  show "snd (complete_handshake now i t n g)
      = (\<exists>h \<in> set (shakes g). hs_initiator h = i \<and> hs_target h = t \<and> hs_nonce h = n \<and> hs_status h = Pending \<and> now - hs_at h \<le> NONCE_TTL)"
  proof
    assume "snd (complete_handshake now i t n g)"
    then obtain k where k: "shake_row i t n g = Some k" "\<not> hs_at (shakes g ! k) < now - NONCE_TTL"
      by (auto simp: complete_handshake_def Let_def split: option.splits if_splits)
    from k(1) show "\<exists>h \<in> set (shakes g). hs_initiator h = i \<and> hs_target h = t \<and> hs_nonce h = n \<and> hs_status h = Pending \<and> now - hs_at h \<le> NONCE_TTL"
      using k(2) unfolding shake_row_def by (intro bexI[of _ "shakes g ! k"]) (auto dest: place_of_Some)
  next
    assume "\<exists>h \<in> set (shakes g). hs_initiator h = i \<and> hs_target h = t \<and> hs_nonce h = n \<and> hs_status h = Pending \<and> now - hs_at h \<le> NONCE_TTL"
    then obtain k where k: "k < length (shakes g)" "hs_initiator (shakes g ! k) = i" "hs_target (shakes g ! k) = t" "hs_nonce (shakes g ! k) = n"
      "hs_status (shakes g ! k) = Pending" "now - hs_at (shakes g ! k) \<le> NONCE_TTL" by (metis in_set_conv_nth)
    then have "shake_row i t n g = Some k" using assms by (auto intro: shake_row_unique)
    then show "snd (complete_handshake now i t n g)" using k(6) by (simp add: complete_handshake_def Let_def)
  qed
next
  assume c: "snd (complete_handshake now i t n g)"
  show "\<forall>b \<in> {i, t}. lookup_bot b g \<noteq> None \<longrightarrow> is_trusted_bot b (fst (complete_handshake now i t n g))"
    using c by (auto simp: trusted_complete)
  show "\<not> snd (complete_handshake later i t n (fst (complete_handshake now i t n g)))" using complete_once[OF assms c] .
next
  assume f: "n \<notin> hs_nonce ` set (shakes g)" "snd (initiate_handshake now n i t g) \<noteq> None"
  let ?g = "fst (initiate_handshake now n i t g)"
  have s: "shakes ?g = shakes g @ [\<lparr>hs_initiator = i, hs_target = t, hs_status = Pending, hs_at = now, hs_done = None, hs_nonce = n\<rparr>]"
    "snd (initiate_handshake now n i t g) = Some n" using f(2) by (simp_all add: initiate_handshake_def Let_def split: if_splits)
  have "shake_row i t n ?g = Some (length (shakes g))"
    by (rule shake_row_unique) (use s(1) f(1) assms in \<open>auto simp: image_iff\<close>)
  then show "snd (initiate_handshake now n i t g) = Some n" "snd (complete_handshake now i t n ?g)"
    using s by (simp_all add: complete_handshake_def Let_def NONCE_TTL_def)
qed

theorem handshake_exact_witness:
  "snd (complete_handshake 9 ''x'' ''y'' ''n'' (fst (initiate_handshake 9 ''n'' ''x'' ''y'' new_registry)))"
proof -
  have "distinct (map hs_nonce (shakes new_registry))" "''n'' \<notin> hs_nonce ` set (shakes new_registry)"
    "snd (initiate_handshake 9 ''n'' ''x'' ''y'' new_registry) \<noteq> None" by (simp_all add: new_registry_def initiate_handshake_def)
  then show ?thesis using handshake_exact[of new_registry 9 "''x''" "''y''" "''n''"] by blast
qed

text \<open>Every list of recent attempts is short, and none is empty, so that the clean-up never drops a target.\<close>

definition attempts_ok :: "registry \<Rightarrow> bool" where
  "attempts_ok g = (\<forall>(t, l) \<in> set (waiting_shakes g). l \<noteq> [] \<and> length l \<le> 5)"

lemma set_dset: "set (dset k v d) \<subseteq> insert (k, v) (set d)"
  by (induction d) (auto split: if_splits)

lemma attempts_step: "attempts_ok g \<Longrightarrow> attempts_ok (reg_step e g)"
proof (cases e)
  case (Ev_initiate now n i t)
  assume a: "attempts_ok g"
  have "\<forall>(t, l) \<in> insert (t, v) (set (waiting_shakes g)). l \<noteq> [] \<and> length l \<le> 5" if "v \<noteq> []" "length v \<le> 5" for v
    using a that by (auto simp: attempts_ok_def)
  then have new: "attempts_ok (g'\<lparr>waiting_shakes := dset t v (waiting_shakes g)\<rparr>)" if "v \<noteq> []" "length v \<le> 5" for v g'
    using that set_dset[of t v "waiting_shakes g"] unfolding attempts_ok_def by (fastforce simp: subset_eq)
  define old where "old = (case dget (waiting_shakes g) t of None \<Rightarrow> [] | Some l \<Rightarrow> l)"
  define recent where "recent = filter (\<lambda>a. now - a < NONCE_TTL) old"
  have "length recent \<le> length old" by (simp add: recent_def)
  moreover have "length old \<le> 5" using a by (auto simp: old_def attempts_ok_def dest: dget_in_set split: option.split)
  ultimately have l: "length recent \<le> 5" by simp
  show ?thesis
  proof (cases "length recent \<ge> 5")
    case True
    then have "reg_step e g = g\<lparr>waiting_shakes := dset t recent (waiting_shakes g)\<rparr>"
      using Ev_initiate by (simp add: reg_step_def initiate_handshake_def recent_def old_def)
    then show ?thesis using new[of recent g] True l by (cases recent) auto
  next
    case False
    then have "\<exists>g'. reg_step e g = g'\<lparr>waiting_shakes := dset t (recent @ [now]) (waiting_shakes g)\<rparr>"
      using Ev_initiate by (intro exI[of _ "reg_step e g"]) (simp add: reg_step_def initiate_handshake_def recent_def[symmetric] old_def[symmetric] Let_def)
    then show ?thesis using new[of "recent @ [now]"] False by auto
  qed
qed (auto simp: reg_step_def attempts_ok_def register_bot_def trust_def set_trusted_def complete_handshake_def Let_def update_last_seen_def
    purge_stale_bots_def purge_stale_handshakes_def split: option.splits)

interpretation attempts: preserved reg_step attempts_ok
  by unfold_locales (rule attempts_step)

text \<open>
  No more than five attempts are ever remembered for a target.  The clean-up, which nothing calls, is
  meant to forget the targets without recent attempts, but it never forgets one, and it leaves every
  handshake that was not completed in its table for good.
\<close>

theorem handshake_clean_up:
  assumes "g = fold reg_step es new_registry"
  shows "(\<forall>t l. dget (waiting_shakes g) t = Some l \<longrightarrow> 0 < length l \<and> length l \<le> 5)
    \<and> waiting_shakes (purge_stale_handshakes now age g) = waiting_shakes g
    \<and> filter (\<lambda>h. hs_status h = Pending) (shakes (purge_stale_handshakes now age g)) = filter (\<lambda>h. hs_status h = Pending) (shakes g)"
proof (intro conjI)
  have "attempts_ok new_registry" by (simp add: attempts_ok_def new_registry_def)
  then have a: "attempts_ok g" unfolding assms by (rule attempts.history_kept)
  show "\<forall>t l. dget (waiting_shakes g) t = Some l \<longrightarrow> 0 < length l \<and> length l \<le> 5"
    using a by (auto simp: attempts_ok_def dest!: dget_in_set)
  have "\<forall>p \<in> set (waiting_shakes g). (\<lambda>(_, l). l \<noteq> []) p" using a by (auto simp: attempts_ok_def)
  then have "filter (\<lambda>(_, l). l \<noteq> []) (waiting_shakes g) = waiting_shakes g" by (rule filter_True)
  then show "waiting_shakes (purge_stale_handshakes now age g) = waiting_shakes g" by (simp add: purge_stale_handshakes_def)
  show "filter (\<lambda>h. hs_status h = Pending) (shakes (purge_stale_handshakes now age g)) = filter (\<lambda>h. hs_status h = Pending) (shakes g)"
    by (simp add: purge_stale_handshakes_def) (metis (mono_tags, lifting) filter_cong)
qed

end
