(* ===== verification/CrossBot.thy ===== *)
theory CrossBot
  imports Identity
begin

text \<open>
  Messages between bots, \<open>host/identity/cross_bot_protocol.py\<close>, and the trust they create at run time,
  \<open>host/channels/crossbot_discovery.py\<close>.  HMAC, the JSON text of a payload (\<open>dumps\<close>), the parser of an
  incoming line and what handlers answer are parameters; a time stamp is a double.
\<close>

section \<open>Doubles\<close>

text \<open>
  A double that is not negative and below \<open>2^53\<close>, as \<open>(m, k)\<close> for \<open>m / 2^k\<close> with 53 significant bits: the
  value nearest to a fraction, to even in the middle.
\<close>

type_synonym double = "nat \<times> nat"

function scale :: "nat \<Rightarrow> nat \<Rightarrow> nat" where
  "scale n d = (if n = 0 \<or> d * 2 ^ 52 \<le> n then 0 else Suc (scale (2 * n) d))"
  by pat_completeness auto
termination by (relation "measure (\<lambda>(n, d). d * 2 ^ 52 - n)") auto

declare scale.simps [simp del]

definition nearest :: "nat \<Rightarrow> nat \<Rightarrow> nat" where
  "nearest n d = (let q = n div d; r = n mod d in if 2 * r < d \<or> (2 * r = d \<and> even q) then q else Suc q)"

definition to_double :: "nat \<Rightarrow> nat \<Rightarrow> double" where
  "to_double n d = (let k = scale n d in (nearest (n * 2 ^ k) d, k))"

text \<open>\<open>ms / 1000.0\<close> and \<open>int(t * 1000)\<close>.\<close>

definition seconds_of :: "nat \<Rightarrow> double" where
  "seconds_of ms = to_double ms 1000"

definition millis_of :: "double \<Rightarrow> nat" where
  "millis_of t = (case t of (m, k) \<Rightarrow> (case to_double (m * 1000) (2 ^ k) of (p, l) \<Rightarrow> p div 2 ^ l))"

section \<open>Messages\<close>

datatype json_value = J_null | J_number double | J_text string | J_other string

type_synonym payload = "(string, json_value) dict"

record bot_message =
  xm_from :: string
  xm_type :: string
  xm_payload :: payload
  xm_to :: "string option"
  xm_id :: string
  xm_at :: double
  xm_protocol :: string
  xm_sig :: "string option"

definition PROTOCOL_VERSION :: string where "PROTOCOL_VERSION = ''crossbot/1.0''"

definition ALLOWED_MSG_TYPES :: "string list" where
  "ALLOWED_MSG_TYPES = [''hello'', ''ack'', ''memory_share'', ''task_delegate'', ''status'', ''ping'', ''pong'']"

definition signing_body :: "(payload \<Rightarrow> string) \<Rightarrow> bot_message \<Rightarrow> string" where
  "signing_body dumps m = xm_id m @ '':'' @ xm_from m @ '':'' @ show_nat (millis_of (xm_at m)) @ '':'' @ dumps (xm_payload m)"

definition sign :: "(string \<Rightarrow> string \<Rightarrow> string) \<Rightarrow> (payload \<Rightarrow> string) \<Rightarrow> string \<Rightarrow> bot_message \<Rightarrow> bot_message" where
  "sign hmac dumps secret m = m\<lparr>xm_sig := Some (hmac secret (signing_body dumps m))\<rparr>"

definition verify :: "(string \<Rightarrow> string \<Rightarrow> string) \<Rightarrow> (payload \<Rightarrow> string) \<Rightarrow> string \<Rightarrow> bot_message \<Rightarrow> bool" where
  "verify hmac dumps secret m = (truthy (xm_sig m) \<and> the (xm_sig m) = hmac secret (signing_body dumps m))"

text \<open>The JSON object on the wire; a field that may be missing is optional.\<close>

record wire =
  wi_protocol :: "string option"
  wi_from :: string
  wi_to :: "string option"
  wi_id :: "string option"
  wi_ms :: "nat option"
  wi_ts :: "double option"
  wi_type :: string
  wi_payload :: "payload option"
  wi_sig :: "string option"

definition to_wire :: "bot_message \<Rightarrow> wire" where
  "to_wire m = \<lparr>wi_protocol = Some (xm_protocol m), wi_from = xm_from m, wi_to = xm_to m, wi_id = Some (xm_id m),
     wi_ms = Some (millis_of (xm_at m)), wi_ts = None, wi_type = xm_type m, wi_payload = Some (xm_payload m), wi_sig = xm_sig m\<rparr>"

definition or_else :: "'a option \<Rightarrow> 'a \<Rightarrow> 'a" where
  "or_else x d = (case x of None \<Rightarrow> d | Some y \<Rightarrow> y)"

definition from_wire :: "double \<Rightarrow> string \<Rightarrow> wire \<Rightarrow> bot_message" where
  "from_wire now uuid w = \<lparr>xm_from = wi_from w, xm_type = wi_type w, xm_payload = or_else (wi_payload w) [], xm_to = wi_to w,
     xm_id = or_else (wi_id w) uuid, xm_at = (case wi_ms w of Some ms \<Rightarrow> seconds_of ms | None \<Rightarrow> or_else (wi_ts w) now),
     xm_protocol = or_else (wi_protocol w) PROTOCOL_VERSION, xm_sig = wi_sig w\<rparr>"

section \<open>The protocol\<close>

record protocol =
  xp_id :: string
  xp_registry :: "registry option"
  xp_secret :: "string option"

definition new_message :: "protocol \<Rightarrow> double \<Rightarrow> string \<Rightarrow> string option \<Rightarrow> string \<Rightarrow> payload \<Rightarrow> bot_message" where
  "new_message p now uuid to_id ty pl = \<lparr>xm_from = xp_id p, xm_type = ty, xm_payload = pl, xm_to = to_id, xm_id = uuid, xm_at = now,
     xm_protocol = PROTOCOL_VERSION, xm_sig = None\<rparr>"

definition opt_text :: "string option \<Rightarrow> json_value" where
  "opt_text x = (case x of None \<Rightarrow> J_null | Some s \<Rightarrow> J_text s)"

definition make_hello :: "protocol \<Rightarrow> double \<Rightarrow> string \<Rightarrow> string option \<Rightarrow> string option \<Rightarrow> bot_message" where
  "make_hello p now uuid to_id nonce =
     new_message p now uuid to_id ''hello'' [(''nonce'', opt_text nonce), (''version'', J_text PROTOCOL_VERSION)]"

definition make_ack :: "protocol \<Rightarrow> double \<Rightarrow> string \<Rightarrow> bot_message \<Rightarrow> bot_message" where
  "make_ack p now uuid m = new_message p now uuid (Some (xm_from m)) ''ack''
     [(''ack_msg_id'', J_text (xm_id m)), (''nonce'', or_else (dget (xm_payload m) ''nonce'') J_null)]"

definition make_memory_share :: "protocol \<Rightarrow> double \<Rightarrow> string \<Rightarrow> string \<Rightarrow> string \<Rightarrow> json_value \<Rightarrow> string \<Rightarrow> bot_message" where
  "make_memory_share p now uuid to_id key v sc =
     new_message p now uuid (Some to_id) ''memory_share'' [(''key'', J_text key), (''value'', v), (''scope'', J_text sc)]"

definition make_task_delegate :: "protocol \<Rightarrow> double \<Rightarrow> string \<Rightarrow> string \<Rightarrow> string \<Rightarrow> json_value \<Rightarrow> bot_message" where
  "make_task_delegate p now uuid to_id task ctxt =
     new_message p now uuid (Some to_id) ''task_delegate'' [(''task'', J_text task), (''context'', ctxt)]"

definition make_ping :: "protocol \<Rightarrow> double \<Rightarrow> string \<Rightarrow> bot_message" where
  "make_ping p now uuid = new_message p now uuid None ''ping'' [(''ts'', J_number now)]"

text \<open>
  \<open>handle\<close> on a line (\<open>None\<close>: it could not be parsed).  The handlers are a table from types to functions;
  the time is given to the registry in milliseconds.
\<close>

definition handle ::
  "(string \<Rightarrow> string \<Rightarrow> string) \<Rightarrow> (payload \<Rightarrow> string) \<Rightarrow> (string \<Rightarrow> (bot_message \<Rightarrow> bot_message option) option) \<Rightarrow> double \<Rightarrow> string
     \<Rightarrow> wire option \<Rightarrow> protocol \<Rightarrow> protocol \<times> bot_message option" where
  "handle hmac dumps handlers now uuid raw p = (case raw of
      None \<Rightarrow> (p, None)
    | Some w \<Rightarrow> (let m = from_wire now uuid w in
        if \<not> prefix ''crossbot/'' (xm_protocol m) then (p, None)
        else if xm_type m \<notin> set ALLOWED_MSG_TYPES then (p, None)
        else if truthy (xp_secret p) \<and> \<not> verify hmac dumps (the (xp_secret p)) m then (p, None)
        else (p\<lparr>xp_registry := map_option (update_last_seen (int (millis_of now)) (xm_from m)) (xp_registry p)\<rparr>,
          case handlers (xm_type m) of
            Some h \<Rightarrow> h m
          | None \<Rightarrow> if xm_type m = ''ping'' then Some (new_message p now uuid (Some (xm_from m)) ''pong'' [(''ts'', J_number now)])
              else if xm_type m = ''hello'' then Some (make_ack p now uuid m) else None)))"

section \<open>Discovery\<close>

record discovery =
  di_trusted :: "string list"
  di_times :: "(string, int list) dict"

definition TRUSTED_SET_MAX :: nat where "TRUSTED_SET_MAX = 1000"
definition HANDSHAKE_RATE_LIMIT :: nat where "HANDSHAKE_RATE_LIMIT = 5"
definition HANDSHAKE_RATE_WINDOW :: int where "HANDSHAKE_RATE_WINDOW = 300000"

definition author_limited :: "int \<Rightarrow> string \<Rightarrow> discovery \<Rightarrow> discovery \<times> bool" where
  "author_limited now a d = (let active = filter (\<lambda>t. now - t < HANDSHAKE_RATE_WINDOW) (or_else (dget (di_times d) a) []) in
     if length active \<ge> HANDSHAKE_RATE_LIMIT then (d\<lparr>di_times := dset a active (di_times d)\<rparr>, True)
     else (d\<lparr>di_times := dset a (active @ [now]) (di_times d)\<rparr>, False))"

definition add_trusted :: "string \<Rightarrow> discovery \<Rightarrow> discovery" where
  "add_trusted a d = (if a \<in> set (di_trusted d) then d
     else d\<lparr>di_trusted := (if length (di_trusted d) \<ge> TRUSTED_SET_MAX then tl (di_trusted d) else di_trusted d) @ [a]\<rparr>)"

definition LINE_PREFIX :: string where "LINE_PREFIX = ''crossbot/1.0 ''"

text \<open>Whether a message passes the guards of \<open>handle_bot_message\<close>.\<close>

definition hello_accepted :: "(string \<Rightarrow> string \<Rightarrow> string) \<Rightarrow> (payload \<Rightarrow> string) \<Rightarrow> protocol \<Rightarrow> bot_message \<Rightarrow> bool" where
  "hello_accepted hmac dumps p m =
     (xm_type m \<in> {''hello'', ''ack''}
      \<and> (truthy (xp_secret p) \<longrightarrow> verify hmac dumps (the (xp_secret p)) m)
      \<and> (case xp_registry p of None \<Rightarrow> True | Some g \<Rightarrow> lookup_bot (xm_from m) g \<noteq> None)
      \<and> xm_from m \<noteq> xp_id p)"

text \<open>The result: the state, whether the line was consumed, and what was sent (\<open>send_ok\<close>: sending does not raise).\<close>

definition handle_bot_message ::
  "(string \<Rightarrow> string \<Rightarrow> string) \<Rightarrow> (payload \<Rightarrow> string) \<Rightarrow> (string \<Rightarrow> wire option) \<Rightarrow> protocol \<Rightarrow> double \<Rightarrow> string \<Rightarrow> bool \<Rightarrow> int \<Rightarrow> string \<Rightarrow> string
     \<Rightarrow> discovery \<Rightarrow> discovery \<times> bool \<times> bot_message list" where
  "handle_bot_message hmac dumps load p now uuid send_ok clock author content d =
     (if \<not> prefix LINE_PREFIX content then (d, False, [])
      else case author_limited clock author d of
        (d, True) \<Rightarrow> (d, True, [])
      | (d, False) \<Rightarrow> (case load (drop (length LINE_PREFIX) content) of
          None \<Rightarrow> (d, True, [])
        | Some w \<Rightarrow> (let m = from_wire now uuid w in
            if \<not> hello_accepted hmac dumps p m then (d, True, [])
            else if xm_type m = ''hello'' then
              (if send_ok then (add_trusted author d, True, [make_ack p now uuid m]) else (d, True, []))
            else (add_trusted author d, True, []))))"

section \<open>Time stamps survive the wire\<close>

lemma scale_eq: "0 < n \<Longrightarrow> d * 2 ^ 52 \<le> n * 2 ^ k \<Longrightarrow> k = 0 \<or> n * 2 ^ (k - 1) < d * 2 ^ 52 \<Longrightarrow> scale n d = k"
proof (induction k arbitrary: n)
  case 0
  then show ?case by (simp add: scale.simps[of n])
next
  case (Suc k)
  have "n * 2 ^ k < d * 2 ^ 52" using Suc.prems(3) by simp
  moreover have "n \<le> n * 2 ^ k" by simp
  ultimately have small: "n < d * 2 ^ 52" by linarith
  have "k = 0 \<or> 2 * n * 2 ^ (k - 1) < d * 2 ^ 52" using Suc.prems(3) by (cases k) (simp_all add: mult.commute mult.left_commute)
  then have "scale (2 * n) d = k" using Suc.prems(1,2) by (intro Suc.IH) (simp_all add: mult.commute mult.left_commute)
  then show ?case using small Suc.prems(1) by (simp add: scale.simps[of n])
qed

lemma nearest_close: "0 < d \<Longrightarrow> 2 * (nearest n d * d) \<le> 2 * n + d \<and> 2 * n \<le> 2 * (nearest n d * d) + d"
proof -
  assume d: "0 < d"
  have n: "n = n div d * d + n mod d" by simp
  have r: "n mod d < d" using d by simp
  show ?thesis
  proof (cases "2 * (n mod d) < d \<or> (2 * (n mod d) = d \<and> even (n div d))")
    case True
    then have e: "nearest n d = n div d" by (simp add: nearest_def Let_def)
    have "2 * (n mod d) \<le> d" using True by auto
    then show ?thesis unfolding e using n by linarith
  next
    case False
    then have e: "nearest n d = Suc (n div d)" by (auto simp: nearest_def Let_def)
    have "d \<le> 2 * (n mod d)" using False by auto
    moreover have "Suc (n div d) * d = n div d * d + d" by simp
    ultimately show ?thesis unfolding e using n r by linarith
  qed
qed

lemma nearest_exact:
  assumes "0 < d" "2 * (q * d) < 2 * n + d" "2 * n < 2 * (q * d) + d"
  shows "nearest n d = q"
proof -
  have c: "2 * (nearest n d * d) \<le> 2 * n + d" "2 * n \<le> 2 * (nearest n d * d) + d" using nearest_close[OF assms(1)] by blast+
  have "nearest n d * d < Suc q * d" using c assms by simp
  moreover have "q * d < Suc (nearest n d) * d" using c assms by simp
  ultimately show ?thesis using assms(1) by (metis less_Suc_eq_le mult_less_cancel2 order_antisym)
qed

text \<open>
  A time in milliseconds that is divided and multiplied again by a thousand is what it was, from November
  2004 to January 2038: the quotient has 22 fractional bits, the product twelve, and the error of the first
  rounding is less than half of the last bit of the second.
\<close>

lemma millis_back:
  assumes "2 ^ 40 < ms" "ms < 2147483648000"
  shows "millis_of (seconds_of ms) = ms"
proof -
  have s: "scale ms 1000 = 22" using assms by (intro scale_eq) simp_all
  let ?m = "nearest (ms * 2 ^ 22) 1000"
  have sec: "seconds_of ms = (?m, 22)" by (simp add: seconds_of_def to_double_def s)
  have c: "2 * (?m * 1000) \<le> 2 * (ms * 2 ^ 22) + 1000" "2 * (ms * 2 ^ 22) \<le> 2 * (?m * 1000) + 1000"
    using nearest_close[of 1000 "ms * 2 ^ 22"] by simp_all
  have "scale (?m * 1000) (2 ^ 22) = 12"
  proof (rule scale_eq)
    have "(2::nat) ^ 22 * 2 ^ 52 = 2 ^ 62 * 2 ^ 12" by simp
    moreover have "2 ^ 62 \<le> ?m * 1000" using c(2) assms(1) by simp
    ultimately show "2 ^ 22 * 2 ^ 52 \<le> ?m * 1000 * 2 ^ 12" by simp
    show "0 < ?m * 1000" using \<open>2 ^ 62 \<le> ?m * 1000\<close> by (rule less_le_trans[rotated]) simp
    have "?m * 1000 * 2 ^ (12 - 1) < 2 ^ 22 * 2 ^ 52" using c(1) assms(2) by simp
    then show "(12::nat) = 0 \<or> ?m * 1000 * 2 ^ (12 - 1) < 2 ^ 22 * 2 ^ 52" by blast
  qed
  moreover have "nearest (?m * 1000 * 2 ^ 12) (2 ^ 22) = ms * 2 ^ 12"
  proof (rule nearest_exact)
    show "2 * (ms * 2 ^ 12 * 2 ^ 22) < 2 * (?m * 1000 * 2 ^ 12) + (2::nat) ^ 22" using c(2) by simp
    show "2 * (?m * 1000 * 2 ^ 12) < 2 * (ms * 2 ^ 12 * 2 ^ 22) + (2::nat) ^ 22" using c(1) by simp
  qed simp
  ultimately show ?thesis by (simp add: sec millis_of_def to_double_def)
qed

lemma millis_lost: "millis_of (seconds_of 2147483648002) = 2147483648001"
proof -
  have a: "scale 2147483648002 1000 = 21" by (rule scale_eq) simp_all
  have b: "scale (4503599627374690 * 1000) (2 ^ 21) = 12" by (rule scale_eq) simp_all
  have c: "nearest (2147483648002 * 2 ^ 21) 1000 = 4503599627374690" "nearest (4503599627374690 * 1000 * 2 ^ 12) (2 ^ 21) = 8796093022216191"
    by (rule nearest_exact; simp)+
  show ?thesis by (simp only: seconds_of_def millis_of_def to_double_def Let_def a b c prod.case) simp
qed

text \<open>
  A signed message that is sent and read again is accepted, whatever fraction of a millisecond its time has,
  from 2004 to January 2038.  After that, doubles of seconds are too coarse: the receiver of a message
  stamped 2147483648002 checks the signature of a text with another time.
\<close>

theorem signature_survives:
  assumes "2 ^ 40 < millis_of (xm_at m)" "millis_of (xm_at m) < 2147483648000" "hmac secret (signing_body dumps m) \<noteq> []"
  shows "verify hmac dumps secret (from_wire now uuid (to_wire (sign hmac dumps secret m)))
    \<and> from_wire now uuid (to_wire (sign hmac dumps secret m)) = (sign hmac dumps secret m)\<lparr>xm_at := seconds_of (millis_of (xm_at m))\<rparr>
    \<and> (millis_of t = 2147483648002 \<longrightarrow>
        millis_of (xm_at (from_wire now uuid (to_wire (sign hmac dumps secret (m\<lparr>xm_at := t\<rparr>))))) = 2147483648001)"
proof -
  have b: "millis_of (seconds_of (millis_of (xm_at m))) = millis_of (xm_at m)" using assms(1,2) by (rule millis_back)
  have w: "from_wire now uuid (to_wire (sign hmac dumps secret m)) = (sign hmac dumps secret m)\<lparr>xm_at := seconds_of (millis_of (xm_at m))\<rparr>"
    by (simp add: from_wire_def to_wire_def sign_def or_else_def)
  have "signing_body dumps ((sign hmac dumps secret m)\<lparr>xm_at := seconds_of (millis_of (xm_at m))\<rparr>) = signing_body dumps m"
    using b by (simp add: signing_body_def sign_def)
  then have "verify hmac dumps secret ((sign hmac dumps secret m)\<lparr>xm_at := seconds_of (millis_of (xm_at m))\<rparr>)"
    using assms(3) by (simp add: verify_def) (simp add: sign_def)
  moreover have "millis_of (xm_at (from_wire now uuid (to_wire (sign hmac dumps secret (m\<lparr>xm_at := t\<rparr>))))) = 2147483648001"
    if "millis_of t = 2147483648002"
    using that millis_lost by (simp add: from_wire_def to_wire_def sign_def)
  ultimately show ?thesis using w by simp
qed

definition demo_message :: bot_message where
  "demo_message = \<lparr>xm_from = ''a1'', xm_type = ''ping'', xm_payload = [], xm_to = None, xm_id = ''m'', xm_at = seconds_of 1763510400500, xm_protocol = PROTOCOL_VERSION, xm_sig = None\<rparr>"

theorem signature_survives_witness:
  "verify (\<lambda>s b. s @ b) (\<lambda>_. ''{}'') ''key'' (from_wire (0, 0) [] (to_wire (sign (\<lambda>s b. s @ b) (\<lambda>_. ''{}'') ''key'' demo_message)))"
proof -
  have "millis_of (xm_at demo_message) = 1763510400500" by (simp add: demo_message_def millis_back)
  then have "2 ^ 40 < millis_of (xm_at demo_message)" "millis_of (xm_at demo_message) < 2147483648000" by simp_all
  then show ?thesis by (rule signature_survives[THEN conjunct1]) simp
qed

section \<open>What a signature covers\<close>

lemma cut_at_colon: "c \<notin> set a \<Longrightarrow> c \<notin> set b \<Longrightarrow> a @ c # x = b @ c # y \<Longrightarrow> a = b \<and> x = y"
proof (induction a arbitrary: b)
  case Nil
  then show ?case by (cases b) auto
next
  case (Cons d a)
  then show ?case by (cases b) auto
qed

lemma show_nat_inj: "show_nat m = show_nat n \<Longrightarrow> m = n"
  using show_nat_spec by (metis of_nat_eq_iff)

lemma show_nat_no_colon: "CHR '':'' \<notin> set (show_nat n)"
proof
  assume "CHR '':'' \<in> set (show_nat n)"
  then have "is_digit CHR '':''" using show_nat_spec[of n] by (auto simp: list_all_iff)
  then show False by (simp add: is_digit_def)
qed

definition plain_ids :: "bot_message \<Rightarrow> bool" where
  "plain_ids m = (CHR '':'' \<notin> set (xm_id m) \<and> CHR '':'' \<notin> set (xm_from m))"

lemma signing_body_inj:
  assumes "signing_body dumps m = signing_body dumps m'" "plain_ids m" "plain_ids m'"
  shows "xm_id m = xm_id m' \<and> xm_from m = xm_from m' \<and> millis_of (xm_at m) = millis_of (xm_at m') \<and> dumps (xm_payload m) = dumps (xm_payload m')"
proof -
  have b: "signing_body dumps x = xm_id x @ CHR '':'' # (xm_from x @ CHR '':'' # (show_nat (millis_of (xm_at x)) @ CHR '':'' # dumps (xm_payload x)))" for x
    by (simp add: signing_body_def)
  note c = cut_at_colon[of "CHR '':''"]
  have i: "xm_id m = xm_id m' \<and> xm_from m @ CHR '':'' # (show_nat (millis_of (xm_at m)) @ CHR '':'' # dumps (xm_payload m))
      = xm_from m' @ CHR '':'' # (show_nat (millis_of (xm_at m')) @ CHR '':'' # dumps (xm_payload m'))"
    using assms unfolding b plain_ids_def by (intro c) auto
  then have f: "xm_from m = xm_from m' \<and> show_nat (millis_of (xm_at m)) @ CHR '':'' # dumps (xm_payload m) = show_nat (millis_of (xm_at m')) @ CHR '':'' # dumps (xm_payload m')"
    using assms unfolding plain_ids_def by (intro c) auto
  then have "show_nat (millis_of (xm_at m)) = show_nat (millis_of (xm_at m')) \<and> dumps (xm_payload m) = dumps (xm_payload m')"
    by (intro c show_nat_no_colon) auto
  then show ?thesis using i f show_nat_inj by blast
qed

text \<open>
  C28: With a shared secret and an HMAC without collisions, a message has an effect only if it repeats the
  identifier, the sender, the time and the payload of the message its signature was made for.  Its type
  and its addressee are not covered: a signed ping is accepted as any other request, by anyone, and again
  as often as it is sent, since neither the time nor the identifier is looked at.
\<close>

theorem signature_covers:
  assumes "xp_secret p = Some secret" "secret \<noteq> []" "handle hmac dumps handlers now uuid (Some w) p \<noteq> (p, None)"
    and "m = from_wire now uuid w" "xm_sig m = Some (hmac secret (signing_body dumps m0))" "inj (hmac secret)" "plain_ids m" "plain_ids m0"
  shows "(xm_id m = xm_id m0 \<and> xm_from m = xm_from m0 \<and> millis_of (xm_at m) = millis_of (xm_at m0) \<and> dumps (xm_payload m) = dumps (xm_payload m0))
    \<and> (ty \<in> set ALLOWED_MSG_TYPES \<longrightarrow> handlers ty = Some h \<longrightarrow> prefix ''crossbot/'' (xm_protocol m) \<longrightarrow> wi_ms w \<noteq> None \<longrightarrow> wi_id w \<noteq> None \<longrightarrow>
        snd (handle hmac dumps handlers later uuid' (Some (w\<lparr>wi_type := ty, wi_to := x\<rparr>)) p) = h (m\<lparr>xm_type := ty, xm_to := x\<rparr>))"
proof
  have v: "verify hmac dumps secret m"
    using assms(1-4) by (auto simp: handle_def Let_def split: if_splits)
  then have "hmac secret (signing_body dumps m0) = hmac secret (signing_body dumps m)" using assms(5) by (simp add: verify_def)
  then have "signing_body dumps m = signing_body dumps m0" using assms(6) by (simp add: inj_eq)
  then show "xm_id m = xm_id m0 \<and> xm_from m = xm_from m0 \<and> millis_of (xm_at m) = millis_of (xm_at m0) \<and> dumps (xm_payload m) = dumps (xm_payload m0)"
    using assms(7,8) by (rule signing_body_inj)
  show "ty \<in> set ALLOWED_MSG_TYPES \<longrightarrow> handlers ty = Some h \<longrightarrow> prefix ''crossbot/'' (xm_protocol m) \<longrightarrow> wi_ms w \<noteq> None \<longrightarrow> wi_id w \<noteq> None \<longrightarrow>
        snd (handle hmac dumps handlers later uuid' (Some (w\<lparr>wi_type := ty, wi_to := x\<rparr>)) p) = h (m\<lparr>xm_type := ty, xm_to := x\<rparr>)"
  proof (intro impI)
    assume a: "ty \<in> set ALLOWED_MSG_TYPES" "handlers ty = Some h" "prefix ''crossbot/'' (xm_protocol m)" "wi_ms w \<noteq> None" "wi_id w \<noteq> None"
    have e: "from_wire later uuid' (w\<lparr>wi_type := ty, wi_to := x\<rparr>) = m\<lparr>xm_type := ty, xm_to := x\<rparr>"
      using a(4,5) assms(4) by (auto simp: from_wire_def or_else_def)
    have "verify hmac dumps secret (m\<lparr>xm_type := ty, xm_to := x\<rparr>)" using v by (simp add: verify_def signing_body_def)
    then show "snd (handle hmac dumps handlers later uuid' (Some (w\<lparr>wi_type := ty, wi_to := x\<rparr>)) p) = h (m\<lparr>xm_type := ty, xm_to := x\<rparr>)"
      using a assms(1,2) by (simp add: handle_def e)
  qed
qed

definition demo_protocol :: protocol where
  "demo_protocol = \<lparr>xp_id = ''me'', xp_registry = None, xp_secret = Some ''key''\<rparr>"

text \<open>A handler that shows that it was called.\<close>

definition demo_wire :: wire where
  "demo_wire = to_wire (sign (\<lambda>s b. s @ b) (\<lambda>_. ''{}'') ''key'' demo_message)"

theorem signature_covers_witness:
  "snd (handle (\<lambda>s b. s @ b) (\<lambda>_. ''{}'') (\<lambda>ty. if ty = ''task_delegate'' then Some Some else None) (1, 0) ''u''
      (Some (demo_wire\<lparr>wi_type := ''task_delegate'', wi_to := None\<rparr>)) demo_protocol) \<noteq> None"
proof -
  let ?h = "\<lambda>s b. s @ b :: string" and ?d = "\<lambda>_ :: payload. ''{}''"
  let ?t = "\<lambda>ty. if ty = ''task_delegate'' then Some (Some :: bot_message \<Rightarrow> bot_message option) else None"
  let ?m = "from_wire (0, 0) [] demo_wire"
  have ms: "millis_of (xm_at demo_message) = 1763510400500" by (simp add: demo_message_def millis_back)
  have at_ms: "millis_of (xm_at ?m) = 1763510400500" by (simp add: demo_wire_def from_wire_def to_wire_def sign_def ms millis_back)
  have me: "?m = (sign ?h ?d ''key'' demo_message)\<lparr>xm_at := seconds_of 1763510400500\<rparr>"
    by (simp add: demo_wire_def from_wire_def to_wire_def sign_def or_else_def ms)
  have s: "xm_sig ?m = Some (?h ''key'' (signing_body ?d demo_message))" by (simp add: me sign_def)
  have "signing_body ?d ?m = signing_body ?d demo_message" using ms at_ms me by (simp add: signing_body_def sign_def)
  then have v: "verify ?h ?d ''key'' ?m" by (simp add: verify_def s)
  have f: "prefix ''crossbot/'' (xm_protocol ?m)" "xm_type ?m = ''ping''" "plain_ids ?m" "plain_ids demo_message"
    by (simp_all add: me sign_def demo_message_def PROTOCOL_VERSION_def plain_ids_def)
  have "handle ?h ?d ?t (0, 0) [] (Some demo_wire) demo_protocol \<noteq> (demo_protocol, None)"
    using v f(1,2) by (simp add: handle_def demo_protocol_def ALLOWED_MSG_TYPES_def)
  from signature_covers[OF _ _ this refl s _ f(3,4), of "''task_delegate''" Some "(1, 0)" "''u''" None] f(1)
  show ?thesis by (simp add: demo_protocol_def inj_def ALLOWED_MSG_TYPES_def demo_wire_def to_wire_def sign_def)
qed

section \<open>Trust at run time\<close>

definition discovery_ok :: "discovery \<Rightarrow> bool" where
  "discovery_ok d = (distinct (di_trusted d) \<and> length (di_trusted d) \<le> TRUSTED_SET_MAX
     \<and> (\<forall>(a, l) \<in> set (di_times d). length l \<le> HANDSHAKE_RATE_LIMIT))"

record bot_line =
  ln_now :: double
  ln_uuid :: string
  ln_send_ok :: bool
  ln_clock :: int
  ln_author :: string
  ln_content :: string

definition line_step :: "(string \<Rightarrow> string \<Rightarrow> string) \<Rightarrow> (payload \<Rightarrow> string) \<Rightarrow> (string \<Rightarrow> wire option) \<Rightarrow> protocol \<Rightarrow> bot_line \<Rightarrow> discovery \<Rightarrow> discovery" where
  "line_step hmac dumps load p l d = fst (handle_bot_message hmac dumps load p (ln_now l) (ln_uuid l) (ln_send_ok l) (ln_clock l) (ln_author l) (ln_content l) d)"

lemma add_trusted_ok: "discovery_ok d \<Longrightarrow> discovery_ok (add_trusted a d)"
proof -
  assume a: "discovery_ok d"
  have "set (tl (di_trusted d)) \<subseteq> set (di_trusted d)" by (cases "di_trusted d") auto
  then show ?thesis using a by (auto simp: discovery_ok_def add_trusted_def distinct_tl TRUSTED_SET_MAX_def)
qed

lemma author_limited_ok:
  assumes "discovery_ok d" "author_limited now a d = (d', r)"
  shows "discovery_ok d' \<and> di_trusted d' = di_trusted d"
proof -
  define old where "old = or_else (dget (di_times d) a) []"
  define act where "act = filter (\<lambda>t. now - t < HANDSHAKE_RATE_WINDOW) old"
  have "length old \<le> HANDSHAKE_RATE_LIMIT"
    using assms(1) by (auto simp: old_def or_else_def discovery_ok_def dest: dget_in_set split: option.split)
  moreover have "length act \<le> length old" by (simp add: act_def)
  ultimately have l: "length act \<le> HANDSHAKE_RATE_LIMIT" by simp
  have "\<exists>v. length v \<le> HANDSHAKE_RATE_LIMIT \<and> d' = d\<lparr>di_times := dset a v (di_times d)\<rparr>"
  proof (cases "length act \<ge> HANDSHAKE_RATE_LIMIT")
    case True
    then show ?thesis using assms(2) l by (intro exI[of _ act]) (simp add: author_limited_def act_def old_def)
  next
    case False
    then show ?thesis using assms(2) l by (intro exI[of _ "act @ [now]"]) (simp add: author_limited_def act_def old_def)
  qed
  then show ?thesis using assms(1) set_dset[of a _ "di_times d"] by (fastforce simp: discovery_ok_def subset_eq)
qed

lemma discovery_step: "discovery_ok d \<Longrightarrow> discovery_ok (line_step hmac dumps load p l d)"
proof -
  assume a: "discovery_ok d"
  obtain d' r where r: "author_limited (ln_clock l) (ln_author l) d = (d', r)" by fastforce
  have "discovery_ok d'" using author_limited_ok[OF a r] by blast
  then show ?thesis using a r
    by (auto simp: line_step_def handle_bot_message_def Let_def add_trusted_ok split: option.split bool.split)
qed

interpretation discovery: preserved "line_step hmac dumps load p" discovery_ok for hmac dumps load p
  by unfold_locales (rule discovery_step)

definition new_discovery :: discovery where
  "new_discovery = \<lparr>di_trusted = [], di_times = []\<rparr>"

lemma accepted_any_time: "wi_ms w \<noteq> None \<Longrightarrow> wi_id w \<noteq> None \<Longrightarrow>
    from_wire now uuid w = from_wire now' uuid' w"
  by (auto simp: from_wire_def or_else_def)

lemma add_trusted_mem: "set (di_trusted (add_trusted a d)) \<subseteq> insert a (set (di_trusted d))" "a \<in> set (di_trusted (add_trusted a d))"
  by (cases "di_trusted d"; auto simp: add_trusted_def)+

text \<open>
  At most a thousand authors are trusted and five attempts kept for each; an author becomes trusted only by
  a line that passes every guard.  But the line is not tied to its author: the same line makes any other
  author trusted too, at any later time, so one recorded hello is enough.
\<close>

theorem discovery_trust:
  assumes "d = fold (line_step hmac dumps load p) ls new_discovery" "a \<in> set (di_trusted (line_step hmac dumps load p l d))" "a \<notin> set (di_trusted d)"
  shows "discovery_ok d \<and> a = ln_author l \<and> prefix LINE_PREFIX (ln_content l)
    \<and> (\<exists>w. load (drop (length LINE_PREFIX) (ln_content l)) = Some w \<and> hello_accepted hmac dumps p (from_wire (ln_now l) (ln_uuid l) w)
        \<and> (wi_ms w \<noteq> None \<longrightarrow> wi_id w \<noteq> None \<longrightarrow> ln_content l' = ln_content l \<longrightarrow> ln_send_ok l' \<longrightarrow> dget (di_times d') (ln_author l') = None \<longrightarrow>
            ln_author l' \<in> set (di_trusted (line_step hmac dumps load p l' d'))))"
proof -
  have "discovery_ok new_discovery" by (simp add: discovery_ok_def new_discovery_def)
  then have ok: "discovery_ok d" unfolding assms(1) by (rule discovery.history_kept)
  obtain d1 r where r: "author_limited (ln_clock l) (ln_author l) d = (d1, r)" by fastforce
  have d1: "di_trusted d1 = di_trusted d" using author_limited_ok[OF ok r] by blast
  have pre: "prefix LINE_PREFIX (ln_content l)" "\<not> r"
    using assms(2,3) r d1 by (auto simp: line_step_def handle_bot_message_def split: if_splits bool.splits)
  obtain w where w: "load (drop (length LINE_PREFIX) (ln_content l)) = Some w"
    using assms(2,3) r d1 pre by (auto simp: line_step_def handle_bot_message_def split: option.splits)
  have acc: "hello_accepted hmac dumps p (from_wire (ln_now l) (ln_uuid l) w)"
    using assms(2,3) r d1 pre w by (auto simp: line_step_def handle_bot_message_def Let_def split: if_splits)
  have "di_trusted (line_step hmac dumps load p l d) = di_trusted d1 \<or> di_trusted (line_step hmac dumps load p l d) = di_trusted (add_trusted (ln_author l) d1)"
    using r pre w acc by (auto simp: line_step_def handle_bot_message_def Let_def)
  then have author: "a = ln_author l" using assms(2,3) d1 add_trusted_mem(1)[of "ln_author l" d1] by auto
  have again: "ln_author l' \<in> set (di_trusted (line_step hmac dumps load p l' d'))"
    if h: "wi_ms w \<noteq> None" "wi_id w \<noteq> None" "ln_content l' = ln_content l" "ln_send_ok l'" "dget (di_times d') (ln_author l') = None"
  proof -
    have e: "from_wire (ln_now l') (ln_uuid l') w = from_wire (ln_now l) (ln_uuid l) w" using h(1,2) by (rule accepted_any_time)
    have f: "\<exists>x. author_limited (ln_clock l') (ln_author l') d' = (x, False)"
      using h(5) by (simp add: author_limited_def or_else_def HANDSHAKE_RATE_LIMIT_def)
    then obtain x where "author_limited (ln_clock l') (ln_author l') d' = (x, False)" by blast
    then show ?thesis using pre(1) w acc e h(3,4) add_trusted_mem(2)
      by (simp add: line_step_def handle_bot_message_def Let_def)
  qed
  show ?thesis by (intro conjI ok author pre(1) exI[of _ w] w acc impI again)
qed

definition hello_line :: "string \<Rightarrow> bot_line" where
  "hello_line a = \<lparr>ln_now = (0, 0), ln_uuid = [], ln_send_ok = True, ln_clock = 0, ln_author = a, ln_content = ''crossbot/1.0 {...}''\<rparr>"

definition hello_wire :: wire where
  "hello_wire = to_wire (demo_message\<lparr>xm_type := ''hello''\<rparr>)"

definition open_protocol :: protocol where
  "open_protocol = \<lparr>xp_id = ''me'', xp_registry = None, xp_secret = None\<rparr>"

theorem discovery_trust_witness:
  "''evil'' \<in> set (di_trusted (line_step (\<lambda>s b. b) (\<lambda>_. []) (\<lambda>_. Some hello_wire) open_protocol (hello_line ''evil'') new_discovery))"
proof -
  let ?step = "line_step (\<lambda>s b. b) (\<lambda>_. []) (\<lambda>_. Some hello_wire) open_protocol"
  have p: "prefix LINE_PREFIX (ln_content (hello_line ''bot''))" by code_simp
  have w: "wi_ms hello_wire \<noteq> None" "wi_id hello_wire \<noteq> None" "xm_type (from_wire t u hello_wire) = ''hello''" "xm_from (from_wire t u hello_wire) = ''a1''" for t u
    by (simp_all add: hello_wire_def to_wire_def from_wire_def demo_message_def)
  have "author_limited 0 a new_discovery = (new_discovery\<lparr>di_times := [(a, [0])]\<rparr>, False)" for a
    by (simp add: author_limited_def new_discovery_def or_else_def HANDSHAKE_RATE_LIMIT_def)
  then have "''bot'' \<in> set (di_trusted (?step (hello_line ''bot'') new_discovery))"
    using p w(3,4) by (simp add: line_step_def handle_bot_message_def hello_line_def hello_accepted_def open_protocol_def add_trusted_def new_discovery_def
        TRUSTED_SET_MAX_def)
  moreover have "''bot'' \<notin> set (di_trusted new_discovery)" by (simp add: new_discovery_def)
  moreover have "new_discovery = fold ?step [] new_discovery" by simp
  ultimately show ?thesis
    using discovery_trust[of new_discovery "\<lambda>s b. b" "\<lambda>_. []" "\<lambda>_. Some hello_wire" open_protocol "[]" "''bot''" "hello_line ''bot''" "hello_line ''evil''" new_discovery] w(1,2)
    by (simp add: hello_line_def new_discovery_def)
qed

end
