(* ===== verification/SdkApi.thy ===== *)
theory SdkApi
  imports Identity
begin

text \<open>
  The websocket interface for outside tools, \<open>host/sdk_api.py\<close>: connections, authentication, the rate limit
  and every request.  A text field that is missing is the empty text; numbers keep the cases Python
  treats differently.  What the memory bus and the task callback answer is an argument (\<open>None\<close>: they raise).
\<close>

section \<open>Requests\<close>

datatype num_field = No_num | Int_num int | Real_num rat | Infinite_num bool | Nan_num | Text_num string | Other_num

record sdk_msg =
  sm_type :: string
  sm_token :: "string option"
  sm_query :: string
  sm_agent :: string
  sm_k :: num_field
  sm_project :: string
  sm_content :: string
  sm_scope :: "string option"
  sm_importance :: num_field
  sm_limit :: num_field
  sm_group :: string
  sm_message :: string
  sm_action :: "string option"
  sm_initiator :: string
  sm_target :: string
  sm_nonce :: string
  sm_bot_id :: string
  sm_name :: string
  sm_display :: string
  sm_framework :: string
  sm_channel :: string
  sm_capabilities :: "string list"
  sm_ws :: "string option"
  sm_http :: "string option"
  sm_trusted_only :: bool

datatype raw_msg = Bad_json | Not_an_object | Msg sdk_msg

record memory_hit =
  mh_id :: string
  mh_content :: string

record memory_write =
  mw_content :: string
  mw_agent :: string
  mw_scope :: string
  mw_project :: string
  mw_importance :: rat

datatype sdk_reply =
    Pong
  | Error_reply string
  | Memory_result string string "memory_hit list"
  | Memory_ack string string
  | Agent_list "agent list" nat nat bool
  | System_status nat nat
  | Task_ack string string
  | Bot_registered string string
  | Bot_identity bot
  | Bot_not_found
  | Bot_list "bot list"
  | Handshake_begun string string string
  | Handshake_result bool

section \<open>State\<close>

record sdk_world =
  sw_agents :: agents
  sw_registry :: "registry option"
  sw_groups :: "reg_group list"
  sw_callback :: bool
  sw_submitted :: "(string \<times> string) list"
  sw_written :: "memory_write list"

text \<open>What the code outside answers, and the fresh values of a request.\<close>

record sdk_env =
  se_sha :: "string \<Rightarrow> string"
  se_float :: "string \<Rightarrow> rat option"
  se_recall :: "string \<Rightarrow> string \<Rightarrow> nat \<Rightarrow> string \<Rightarrow> memory_hit list option"
  se_remember :: "memory_write \<Rightarrow> string option"
  se_submit :: "string \<Rightarrow> string \<Rightarrow> string option"
  se_nonce :: string

section \<open>Numbers\<close>

text \<open>\<open>max(1, min(int(x), hi))\<close>, the default for a value that \<open>int\<close> refuses; \<open>None\<close> is the \<open>OverflowError\<close> of an infinity.\<close>

definition clamp_int :: "nat \<Rightarrow> nat \<Rightarrow> num_field \<Rightarrow> nat option" where
  "clamp_int hi dflt x = (let c = (\<lambda>n :: int. nat (max 1 (min n (int hi)))) in case x of
      No_num \<Rightarrow> Some (c (int dflt))
    | Int_num n \<Rightarrow> Some (c n)
    | Real_num q \<Rightarrow> Some (c (if q < 0 then \<lceil>q\<rceil> else \<lfloor>q\<rfloor>))
    | Infinite_num _ \<Rightarrow> None
    | Nan_num \<Rightarrow> Some dflt
    | Text_num s \<Rightarrow> Some (case py_int s of Some n \<Rightarrow> c n | None \<Rightarrow> dflt)
    | Other_num \<Rightarrow> Some dflt)"

definition FLOAT_LIMIT :: int where "FLOAT_LIMIT = 2 ^ 1024 - 2 ^ 970"

definition clamp_unit :: "(string \<Rightarrow> rat option) \<Rightarrow> num_field \<Rightarrow> rat option" where
  "clamp_unit to_float x = (let c = (\<lambda>q :: rat. max 0 (min 1 q)) in case x of
      No_num \<Rightarrow> Some (1 / 2)
    | Int_num n \<Rightarrow> if \<bar>n\<bar> \<ge> FLOAT_LIMIT then None else Some (c (of_int n))
    | Real_num q \<Rightarrow> Some (c q)
    | Infinite_num pos \<Rightarrow> Some (if pos then 1 else 0)
    | Nan_num \<Rightarrow> Some 1
    | Text_num s \<Rightarrow> Some (case to_float s of Some q \<Rightarrow> c q | None \<Rightarrow> 1 / 2)
    | Other_num \<Rightarrow> Some (1 / 2))"

section \<open>Handlers\<close>

text \<open>A handler gives the world and the answer; no answer is an exception that ends the connection.\<close>

definition MAX_MEMORY_CONTENT :: nat where "MAX_MEMORY_CONTENT = 65536"
definition MAX_TASK_MESSAGE :: nat where "MAX_TASK_MESSAGE = 32768"
definition MAX_AGENT_LIST :: nat where "MAX_AGENT_LIST = 500"
definition VALID_SCOPES :: "string list" where "VALID_SCOPES = [''private'', ''shared'', ''project'']"

definition handle_memory_query :: "sdk_env \<Rightarrow> sdk_msg \<Rightarrow> sdk_world \<Rightarrow> sdk_world \<times> sdk_reply option" where
  "handle_memory_query e m w = (w, case clamp_int 100 5 (sm_k m) of None \<Rightarrow> None
     | Some k \<Rightarrow> Some (if sm_query m = [] \<or> sm_agent m = [] then Error_reply ''missing_params''
         else case se_recall e (sm_query m) (sm_agent m) k (sm_project m) of
           None \<Rightarrow> Error_reply ''memory_error''
         | Some hits \<Rightarrow> Memory_result (sm_query m) (sm_agent m) hits))"

definition handle_memory_write :: "sdk_env \<Rightarrow> sdk_msg \<Rightarrow> sdk_world \<Rightarrow> sdk_world \<times> sdk_reply option" where
  "handle_memory_write e m w = (let sc = (case sm_scope m of None \<Rightarrow> ''shared'' | Some s \<Rightarrow> s) in
     case clamp_unit (se_float e) (sm_importance m) of None \<Rightarrow> (w, None)
     | Some imp \<Rightarrow>
        (if sm_content m = [] \<or> sm_agent m = [] then (w, Some (Error_reply ''missing_params''))
         else if sc \<notin> set VALID_SCOPES then (w, Some (Error_reply ''invalid_scope''))
         else if length (sm_content m) > MAX_MEMORY_CONTENT then (w, Some (Error_reply ''content_too_large''))
         else let r = \<lparr>mw_content = sm_content m, mw_agent = sm_agent m, mw_scope = sc, mw_project = sm_project m, mw_importance = imp\<rparr> in
           case se_remember e r of
             None \<Rightarrow> (w, Some (Error_reply ''memory_error''))
           | Some i \<Rightarrow> (w\<lparr>sw_written := sw_written w @ [r]\<rparr>, Some (Memory_ack i sc))))"

definition handle_agent_list :: "sdk_msg \<Rightarrow> sdk_world \<Rightarrow> sdk_world \<times> sdk_reply option" where
  "handle_agent_list m w = (w, case clamp_int MAX_AGENT_LIST MAX_AGENT_LIST (sm_limit m) of None \<Rightarrow> None
     | Some n \<Rightarrow> (let t = list_agents (sm_project m) (sw_agents w); page = take n t in
         Some (Agent_list page (length page) (length t) (length t > n))))"

definition handle_task_submit :: "sdk_env \<Rightarrow> sdk_msg \<Rightarrow> sdk_world \<Rightarrow> sdk_world \<times> sdk_reply option" where
  "handle_task_submit e m w =
     (if sm_group m = [] \<or> sm_message m = [] then (w, Some (Error_reply ''missing_params''))
      else if length (sm_message m) > MAX_TASK_MESSAGE then (w, Some (Error_reply ''message_too_large''))
      else if sm_group m \<notin> rg_folder ` set (sw_groups w) then (w, Some (Error_reply ''invalid_group''))
      else if \<not> sw_callback w then (w, Some (Error_reply ''not_configured''))
      else case se_submit e (sm_group m) (sm_message m) of
        None \<Rightarrow> (w, Some (Error_reply ''task_error''))
      | Some i \<Rightarrow> (w\<lparr>sw_submitted := sw_submitted w @ [(sm_group m, sm_message m)]\<rparr>, Some (Task_ack i (sm_group m))))"

definition handle_bot_register :: "sdk_env \<Rightarrow> int \<Rightarrow> sdk_msg \<Rightarrow> sdk_world \<Rightarrow> sdk_world \<times> sdk_reply option" where
  "handle_bot_register e now m w = (case sw_registry w of
      None \<Rightarrow> (w, Some (Error_reply ''not_configured''))
    | Some g \<Rightarrow> (if sm_name m = [] \<or> sm_display m = [] \<or> sm_framework m = [] \<or> sm_channel m = [] then (w, Some (Error_reply ''missing_params''))
        else let i = make_id (se_sha e) (sm_name m) (sm_framework m) (sm_channel m);
                 b = \<lparr>bt_id = i, bt_name = sm_name m, bt_display = sm_display m, bt_framework = sm_framework m, bt_channel = sm_channel m,
                   bt_capabilities = sm_capabilities m, bt_ws = sm_ws m, bt_http = sm_http m, bt_key = None, bt_registered = now,
                   bt_seen = now, bt_trusted = False\<rparr> in
          (w\<lparr>sw_registry := Some (register_bot b g)\<rparr>, Some (Bot_registered i (sm_name m)))))"

definition handle_bot_lookup :: "sdk_msg \<Rightarrow> sdk_world \<Rightarrow> sdk_world \<times> sdk_reply option" where
  "handle_bot_lookup m w = (w, Some (case sw_registry w of
      None \<Rightarrow> Error_reply ''not_configured''
    | Some g \<Rightarrow> (if sm_bot_id m = [] \<and> sm_name m = [] then Error_reply ''missing_params''
        else case (if sm_bot_id m \<noteq> [] then lookup_bot (sm_bot_id m) g else lookup_by_name (sm_name m) g) of
          None \<Rightarrow> Bot_not_found | Some b \<Rightarrow> Bot_identity b)))"

definition handle_bot_list :: "sdk_msg \<Rightarrow> sdk_world \<Rightarrow> sdk_world \<times> sdk_reply option" where
  "handle_bot_list m w = (w, Some (case sw_registry w of
      None \<Rightarrow> Error_reply ''not_configured'' | Some g \<Rightarrow> Bot_list (list_bots (sm_trusted_only m) g)))"

definition handle_bot_handshake :: "sdk_env \<Rightarrow> int \<Rightarrow> sdk_msg \<Rightarrow> sdk_world \<Rightarrow> sdk_world \<times> sdk_reply option" where
  "handle_bot_handshake e now m w = (case sw_registry w of
      None \<Rightarrow> (w, Some (Error_reply ''not_configured''))
    | Some g \<Rightarrow> (let act = (case sm_action m of None \<Rightarrow> ''initiate'' | Some a \<Rightarrow> a) in
        if act = ''initiate'' then
          (if sm_initiator m = [] \<or> sm_target m = [] then (w, Some (Error_reply ''missing_params''))
           else case initiate_handshake now (se_nonce e) (sm_initiator m) (sm_target m) g of
             (g, None) \<Rightarrow> (w\<lparr>sw_registry := Some g\<rparr>, Some (Error_reply ''bot_handshake_error''))
           | (g, Some n) \<Rightarrow> (w\<lparr>sw_registry := Some g\<rparr>, Some (Handshake_begun (sm_initiator m) (sm_target m) n)))
        else if act = ''complete'' then
          (if sm_initiator m = [] \<or> sm_target m = [] \<or> sm_nonce m = [] then (w, Some (Error_reply ''missing_params''))
           else case complete_handshake now (sm_initiator m) (sm_target m) (sm_nonce m) g of
             (g, ok) \<Rightarrow> (w\<lparr>sw_registry := Some g\<rparr>, Some (Handshake_result ok)))
        else (w, Some (Error_reply ''unknown_action''))))"

definition dispatch :: "sdk_env \<Rightarrow> int \<Rightarrow> nat \<Rightarrow> sdk_msg \<Rightarrow> sdk_world \<Rightarrow> sdk_world \<times> sdk_reply option" where
  "dispatch e now conns m w = (let t = sm_type m in
     if t = ''ping'' then (w, Some Pong)
     else if t = ''memory_query'' then handle_memory_query e m w
     else if t = ''memory_write'' then handle_memory_write e m w
     else if t = ''agent_list'' then handle_agent_list m w
     else if t = ''bot_register'' then handle_bot_register e now m w
     else if t = ''bot_lookup'' then handle_bot_lookup m w
     else if t = ''bot_list'' then handle_bot_list m w
     else if t = ''bot_handshake'' then handle_bot_handshake e now m w
     else if t = ''system_status'' then (w, Some (System_status (length (sw_agents w)) conns))
     else if t = ''task_submit'' then handle_task_submit e m w
     else (w, Some (Error_reply ''unknown_type'')))"

section \<open>Connections\<close>

record sdk_cfg =
  sc_token :: "string option"
  sc_no_auth :: bool

record conn =
  cn_auth :: bool
  cn_times :: "int list"

definition MAX_CONNECTIONS :: nat where "MAX_CONNECTIONS = 50"
definition MAX_MSG_PER_WINDOW :: nat where "MAX_MSG_PER_WINDOW = 60"
definition RATE_WINDOW :: int where "RATE_WINDOW = 10000"

text \<open>
  One message on a connection, which is closed when the result is \<open>None\<close>.  The last component says whether
  a handler was called.
\<close>

definition rate_ok :: "int \<Rightarrow> conn \<Rightarrow> conn \<times> bool" where
  "rate_ok now c = (let ts = dropWhile (\<lambda>t. now - t > RATE_WINDOW) (cn_times c) in
     if length ts \<ge> MAX_MSG_PER_WINDOW then (c\<lparr>cn_times := ts\<rparr>, False) else (c\<lparr>cn_times := ts @ [now]\<rparr>, True))"

definition receive ::
  "sdk_cfg \<Rightarrow> sdk_env \<Rightarrow> int \<Rightarrow> nat \<Rightarrow> raw_msg \<Rightarrow> conn \<Rightarrow> sdk_world \<Rightarrow> conn option \<times> sdk_world \<times> sdk_reply list \<times> bool" where
  "receive cfg e now conns raw c w = (case raw of
      Bad_json \<Rightarrow> (Some c, w, [Error_reply ''invalid_json''], False)
    | Not_an_object \<Rightarrow> (if \<not> cn_auth c \<or> snd (rate_ok now c) then (None, w, [], False)
        else (Some (fst (rate_ok now c)), w, [Error_reply ''rate_limited''], False))
    | Msg m \<Rightarrow> (if \<not> cn_auth c \<and> sm_token m \<noteq> sc_token cfg then (None, w, [Error_reply ''unauthorized''], False)
        else case rate_ok now (c\<lparr>cn_auth := True\<rparr>) of
          (c, False) \<Rightarrow> (Some c, w, [Error_reply ''rate_limited''], False)
        | (c, True) \<Rightarrow> (case dispatch e now conns m w of
            (w, None) \<Rightarrow> (None, w, [], True) | (w, Some r) \<Rightarrow> (Some c, w, [r], True))))"

text \<open>A new connection when \<open>n\<close> are open: whether it is kept.\<close>

definition accept_connection :: "sdk_cfg \<Rightarrow> nat \<Rightarrow> conn option \<times> sdk_reply list" where
  "accept_connection cfg n =
     (if n \<ge> MAX_CONNECTIONS then (None, [Error_reply ''too_many_connections''])
      else if sc_token cfg = None \<and> \<not> sc_no_auth cfg then (None, [Error_reply ''unauthorized''])
      else (Some \<lparr>cn_auth = (sc_token cfg = None), cn_times = []\<rparr>, []))"

section \<open>Sessions\<close>

text \<open>The messages of one connection in order, each with its time and what the outside answers then.\<close>

type_synonym arrival = "sdk_env \<times> int \<times> nat \<times> raw_msg"

fun arrived_at :: "arrival \<Rightarrow> int" where
  "arrived_at (e, now, conns, raw) = now"

fun arrived_msg :: "arrival \<Rightarrow> raw_msg" where
  "arrived_msg (e, now, conns, raw) = raw"

fun session :: "sdk_cfg \<Rightarrow> arrival list \<Rightarrow> conn \<Rightarrow> sdk_world \<Rightarrow> conn option \<times> sdk_world \<times> sdk_reply list \<times> int list" where
  "session cfg [] c w = (Some c, w, [], [])"
| "session cfg ((e, now, conns, raw) # ms) c w = (case receive cfg e now conns raw c w of
      (None, w, rs, d) \<Rightarrow> (None, w, rs, if d then [now] else [])
    | (Some c, w, rs, d) \<Rightarrow> (case session cfg ms c w of
        (c, w, rs', ds) \<Rightarrow> (c, w, rs @ rs', (if d then [now] else []) @ ds)))"

fun is_error :: "sdk_reply \<Rightarrow> bool" where
  "is_error (Error_reply _) = True"
| "is_error _ = False"

text \<open>The first JSON object of a list of messages.\<close>

fun first_object :: "raw_msg list \<Rightarrow> sdk_msg option" where
  "first_object (Msg m # ms) = Some m"
| "first_object (Bad_json # ms) = first_object ms"
| "first_object _ = None"

lemma rate_ok_auth [simp]: "cn_auth (fst (rate_ok now c)) = cn_auth c"
  by (simp add: rate_ok_def Let_def)

lemma unauthenticated:
  "\<not> cn_auth c \<Longrightarrow> (case first_object (map arrived_msg ms) of None \<Rightarrow> True | Some m \<Rightarrow> sm_token m \<noteq> sc_token cfg) \<Longrightarrow>
     session cfg ms c w = (c', w', rs, ds) \<Longrightarrow> w' = w \<and> ds = [] \<and> list_all is_error rs"
proof (induction ms arbitrary: c' w' rs ds)
  case (Cons x ms)
  obtain e now conns raw where x: "x = (e, now, conns, raw)" by (metis surj_pair)
  show ?case
  proof (cases raw)
    case Bad_json
    obtain c1 w1 rs1 ds1 where s: "session cfg ms c w = (c1, w1, rs1, ds1)" by (metis surj_pair)
    have "w1 = w \<and> ds1 = [] \<and> list_all is_error rs1" using Cons.IH[OF Cons.prems(1) _ s] Cons.prems(2) Bad_json x by simp
    then show ?thesis using Cons.prems(3) s Bad_json x by (auto simp: receive_def)
  next
    case Not_an_object
    then show ?thesis using Cons.prems x by (simp add: receive_def)
  next
    case (Msg m)
    then have "sm_token m \<noteq> sc_token cfg" using Cons.prems(2) x by simp
    then show ?thesis using Cons.prems(1,3) Msg x by (auto simp: receive_def)
  qed
qed simp

text \<open>
  C26: With a token configured, a connection brings about nothing and learns nothing, not even an answer that is
  not an error, unless its first JSON object carries the token.  Without one, connections are refused
  unless that was asked for.  At most fifty are open.
\<close>

theorem sdk_authenticated:
  assumes "accept_connection cfg n = (Some c, rs0)" "session cfg ms c w = (c', w', rs, ds)" "w' \<noteq> w \<or> ds \<noteq> [] \<or> list_ex (\<lambda>r. \<not> is_error r) rs"
  shows "n < MAX_CONNECTIONS \<and> (case sc_token cfg of None \<Rightarrow> sc_no_auth cfg
    | Some t \<Rightarrow> \<exists>m. first_object (map arrived_msg ms) = Some m \<and> sm_token m = Some t)"
proof
  show "n < MAX_CONNECTIONS" using assms(1) by (auto simp: accept_connection_def split: if_splits)
  show "case sc_token cfg of None \<Rightarrow> sc_no_auth cfg
    | Some t \<Rightarrow> \<exists>m. first_object (map arrived_msg ms) = Some m \<and> sm_token m = Some t"
  proof (cases "sc_token cfg")
    case None
    then show ?thesis using assms(1) by (auto simp: accept_connection_def split: if_splits)
  next
    case (Some t)
    then have "\<not> cn_auth c" using assms(1) by (auto simp: accept_connection_def split: if_splits)
    moreover have "\<not> (w' = w \<and> ds = [] \<and> list_all is_error rs)" using assms(3) by (auto simp: list_all_iff list_ex_iff)
    ultimately have "\<not> (case first_object (map arrived_msg ms) of None \<Rightarrow> True | Some m \<Rightarrow> sm_token m \<noteq> sc_token cfg)"
      using unauthenticated[OF _ _ assms(2)] by blast
    then show ?thesis using Some by (auto split: option.splits)
  qed
qed

section \<open>The rate limit\<close>

text \<open>How many of the calls at the times \<open>ds\<close> fall into the ten seconds up to \<open>t\<close>.\<close>

definition calls_within :: "int \<Rightarrow> int list \<Rightarrow> nat" where
  "calls_within t ds = length (filter (\<lambda>d. t - RATE_WINDOW \<le> d \<and> d \<le> t) ds)"

definition remembers :: "int \<Rightarrow> int list \<Rightarrow> conn \<Rightarrow> bool" where
  "remembers now ds c = (\<exists>k. cn_times c = drop k ds \<and> (\<forall>d \<in> set (take k ds). d < now - RATE_WINDOW)
     \<and> (\<forall>d \<in> set ds. d \<le> now) \<and> (\<forall>t. calls_within t ds \<le> MAX_MSG_PER_WINDOW))"

lemma dropWhile_drop: "\<exists>j. dropWhile P xs = drop j xs \<and> (\<forall>x \<in> set (take j xs). P x)"
proof (intro exI conjI)
  show "dropWhile P xs = drop (length (takeWhile P xs)) xs" by (rule dropWhile_eq_drop)
  show "\<forall>x \<in> set (take (length (takeWhile P xs)) xs). P x" by (metis takeWhile_eq_take set_takeWhileD)
qed

lemma rate_ok_remembers:
  assumes r: "remembers now0 ds c" "now0 \<le> now" and c: "rate_ok now c = (c', ok)"
  shows "remembers now (ds @ (if ok then [now] else [])) c'"
proof -
  obtain k where k: "cn_times c = drop k ds" "\<forall>d \<in> set (take k ds). d < now0 - RATE_WINDOW" "\<forall>d \<in> set ds. d \<le> now0"
    "\<forall>t. calls_within t ds \<le> MAX_MSG_PER_WINDOW" using r(1) unfolding remembers_def by blast
  obtain j where j: "dropWhile (\<lambda>t. now - t > RATE_WINDOW) (drop k ds) = drop j (drop k ds)" "\<forall>x \<in> set (take j (drop k ds)). now - x > RATE_WINDOW"
    using dropWhile_drop[of "\<lambda>t. now - t > RATE_WINDOW" "drop k ds"] by blast
  have old: "d < now - RATE_WINDOW" if "d \<in> set (take (k + j) ds)" for d
  proof -
    have "take (k + j) ds = take k ds @ take j (drop k ds)" by (simp add: take_add)
    then show ?thesis using that k(2) j(2) r(2) by force
  qed
  have ts: "dropWhile (\<lambda>t. now - t > RATE_WINDOW) (cn_times c) = drop (k + j) ds" using k(1) j(1) by (simp add: add.commute)
  have past: "\<forall>d \<in> set ds. d \<le> now" using k(3) r(2) by force
  show ?thesis
  proof (cases "length (drop (k + j) ds) \<ge> MAX_MSG_PER_WINDOW")
    case True
    then have "c' = c\<lparr>cn_times := drop (k + j) ds\<rparr>" "\<not> ok" using c ts by (auto simp: rate_ok_def)
    then show ?thesis using old past k(4) unfolding remembers_def by (intro exI[of _ "k + j"]) auto
  next
    case False
    then have c': "cn_times c' = drop (k + j) ds @ [now]" "ok" using c ts by (auto simp: rate_ok_def)
    have "calls_within t (ds @ [now]) \<le> MAX_MSG_PER_WINDOW" for t
    proof (cases "now \<le> t")
      case True
      have "filter (\<lambda>d. t - RATE_WINDOW \<le> d \<and> d \<le> t) (take (k + j) ds) = []" using old True by (force simp: filter_empty_conv)
      moreover have "ds = take (k + j) ds @ drop (k + j) ds" by simp
      ultimately have "filter (\<lambda>d. t - RATE_WINDOW \<le> d \<and> d \<le> t) ds = filter (\<lambda>d. t - RATE_WINDOW \<le> d \<and> d \<le> t) (drop (k + j) ds)"
        by (metis append.left_neutral filter_append)
      then have "calls_within t (ds @ [now]) \<le> Suc (length (drop (k + j) ds))"
        unfolding calls_within_def by (simp add: le_SucI del: length_drop)
      then show ?thesis using False by simp
    next
      case False
      then show ?thesis using k(4) by (simp add: calls_within_def)
    qed
    moreover have "drop (k + j) ds @ [now] = drop (min (k + j) (length ds)) (ds @ [now])" by (simp add: min_def)
    moreover have "take (min (k + j) (length ds)) (ds @ [now]) = take (k + j) ds" by (simp add: min_def)
    ultimately show ?thesis using old past c' unfolding remembers_def by (intro exI[of _ "min (k + j) (length ds)"]) auto
  qed
qed

lemma remembers_auth [simp]: "remembers now ds (c\<lparr>cn_auth := b\<rparr>) = remembers now ds c"
  by (simp add: remembers_def)

lemma remembers_later: "remembers now0 ds c \<Longrightarrow> now0 \<le> now \<Longrightarrow> remembers now ds c"
  unfolding remembers_def by (elim exE conjE, rule_tac x = k in exI) fastforce

lemma receive_remembers:
  assumes "remembers now0 ds c" "now0 \<le> now" "receive cfg e now conns raw c w = (c', w', rs, d)"
  shows "(\<forall>t. calls_within t (ds @ (if d then [now] else [])) \<le> MAX_MSG_PER_WINDOW)
    \<and> (\<forall>c1. c' = Some c1 \<longrightarrow> remembers now (ds @ (if d then [now] else [])) c1)"
proof -
  have bound: "\<forall>t. calls_within t ds \<le> MAX_MSG_PER_WINDOW" using assms(1) unfolding remembers_def by blast
  note later = remembers_later[OF assms(1,2)]
  show ?thesis
  proof (cases raw)
    case Bad_json
    then show ?thesis using assms(3) bound later by (auto simp: receive_def)
  next
    case Not_an_object
    obtain c1 ok where r: "rate_ok now c = (c1, ok)" by fastforce
    from rate_ok_remembers[OF assms(1,2) r] show ?thesis using Not_an_object assms(3) bound r
      by (cases "\<not> cn_auth c \<or> ok") (auto simp: receive_def)
  next
    case (Msg m)
    obtain c1 ok where r: "rate_ok now (c\<lparr>cn_auth := True\<rparr>) = (c1, ok)" by fastforce
    have "remembers now0 ds (c\<lparr>cn_auth := True\<rparr>)" using assms(1) by simp
    from rate_ok_remembers[OF this assms(2) r] have q: "remembers now (ds @ (if ok then [now] else [])) c1" .
    then have "\<forall>t. calls_within t (ds @ (if ok then [now] else [])) \<le> MAX_MSG_PER_WINDOW" unfolding remembers_def by blast
    then show ?thesis using Msg assms(3) bound r q
      by (cases "\<not> cn_auth c \<and> sm_token m \<noteq> sc_token cfg"; cases ok) (auto simp: receive_def split: prod.splits option.splits)
  qed
qed

lemma session_rate:
  "remembers now0 ds0 c \<Longrightarrow> sorted (now0 # map arrived_at ms) \<Longrightarrow> session cfg ms c w = (c', w', rs, ds) \<Longrightarrow>
     calls_within t (ds0 @ ds) \<le> MAX_MSG_PER_WINDOW"
proof (induction ms arbitrary: now0 ds0 c w c' w' rs ds)
  case Nil
  then show ?case by (auto simp: remembers_def)
next
  case (Cons x ms)
  obtain e now conns raw where x: "x = (e, now, conns, raw)" by (metis surj_pair)
  obtain c1 w1 rs1 d where r: "receive cfg e now conns raw c w = (c1, w1, rs1, d)" by (metis surj_pair)
  have le: "now0 \<le> now" "sorted (now # map arrived_at ms)" using Cons.prems(2) x by auto
  note q = receive_remembers[OF Cons.prems(1) le(1) r]
  show ?case
  proof (cases c1)
    case None
    then show ?thesis using Cons.prems(3) x r q by simp
  next
    case (Some c2)
    obtain c3 w3 rs3 ds3 where s: "session cfg ms c2 w1 = (c3, w3, rs3, ds3)" by (metis surj_pair)
    have "calls_within t ((ds0 @ (if d then [now] else [])) @ ds3) \<le> MAX_MSG_PER_WINDOW"
      using Cons.IH[OF _ le(2) s] q Some by blast
    then show ?thesis using Cons.prems(3) x r s Some by auto
  qed
qed

text \<open>
  A connection never has more than sixty requests carried out within any ten seconds, as long as the clock
  does not go back, whatever it sends.
\<close>

theorem sdk_rate_limit:
  assumes "accept_connection cfg n = (Some c, rs0)" "session cfg ms c w = (c', w', rs, ds)" "sorted (map arrived_at ms)"
  shows "calls_within t ds \<le> MAX_MSG_PER_WINDOW"
proof (cases ms)
  case Nil
  then show ?thesis using assms(2) by (auto simp: calls_within_def)
next
  case (Cons x xs)
  obtain e now conns raw where x: "x = (e, now, conns, raw)" by (metis surj_pair)
  have "cn_times c = []" using assms(1) by (auto simp: accept_connection_def split: if_splits)
  then have "remembers now [] c" by (simp add: remembers_def calls_within_def)
  moreover have "sorted (now # map arrived_at ms)" using assms(3) Cons x by simp
  ultimately show ?thesis using session_rate[OF _ _ assms(2), of now "[]" t] by simp
qed

definition blank_msg :: sdk_msg where
  "blank_msg = \<lparr>sm_type = ''ping'', sm_token = None, sm_query = [], sm_agent = [], sm_k = No_num, sm_project = [], sm_content = [], sm_scope = None,
     sm_importance = No_num, sm_limit = No_num, sm_group = [], sm_message = [], sm_action = None, sm_initiator = [], sm_target = [],
     sm_nonce = [], sm_bot_id = [], sm_name = [], sm_display = [], sm_framework = [], sm_channel = [], sm_capabilities = [],
     sm_ws = None, sm_http = None, sm_trusted_only = False\<rparr>"

definition demo_env :: sdk_env where
  "demo_env = \<lparr>se_sha = \<lambda>s. s, se_float = \<lambda>_. None, se_recall = \<lambda>_ _ _ _. None, se_remember = \<lambda>_. None, se_submit = \<lambda>_ _. None, se_nonce = ''n''\<rparr>"

definition empty_world :: sdk_world where
  "empty_world = \<lparr>sw_agents = [], sw_registry = None, sw_groups = [], sw_callback = False, sw_submitted = [], sw_written = []\<rparr>"

definition demo_session :: "arrival list" where
  "demo_session = [(demo_env, 5, 1, Bad_json), (demo_env, 6, 1, Msg (blank_msg\<lparr>sm_token := Some ''t''\<rparr>)), (demo_env, 7, 1, Msg blank_msg)]"

definition demo_sdk :: sdk_cfg where
  "demo_sdk = \<lparr>sc_token = Some ''t'', sc_no_auth = False\<rparr>"

lemma demo_session_runs:
  "accept_connection demo_sdk 0 = (Some \<lparr>cn_auth = False, cn_times = []\<rparr>, [])"
  "session demo_sdk demo_session \<lparr>cn_auth = False, cn_times = []\<rparr> empty_world
     = (Some \<lparr>cn_auth = True, cn_times = [6, 7]\<rparr>, empty_world, [Error_reply ''invalid_json'', Pong, Pong], [6, 7])"
  by (simp_all add: accept_connection_def MAX_CONNECTIONS_def demo_sdk_def demo_session_def receive_def rate_ok_def MAX_MSG_PER_WINDOW_def
      RATE_WINDOW_def blank_msg_def dispatch_def)

theorem sdk_authenticated_witness:
  "\<exists>m. first_object (map arrived_msg demo_session) = Some m \<and> sm_token m = Some ''t''"
  using sdk_authenticated[OF demo_session_runs] by (simp add: demo_sdk_def)

theorem sdk_rate_limit_witness: "calls_within 7 [6, 7] \<le> MAX_MSG_PER_WINDOW"
  using sdk_rate_limit[OF demo_session_runs] by (simp add: demo_session_def)

section \<open>Trust without the other side\<close>

text \<open>
  One client alone makes any two registered bots trusted, with two requests, unless five handshakes with the
  target were begun in the last five minutes.
\<close>

theorem sdk_self_trust:
  assumes "sw_registry w = Some g" "distinct (map hs_nonce (shakes g))" "se_nonce e \<notin> hs_nonce ` set (shakes g)" "se_nonce e \<noteq> []"
    and "snd (initiate_handshake now (se_nonce e) i t g) \<noteq> None" "i \<noteq> []" "t \<noteq> []" "b \<in> {i, t}" "lookup_bot b g \<noteq> None"
    and "(w1, r1) = dispatch e now conns (blank_msg\<lparr>sm_type := ''bot_handshake'', sm_initiator := i, sm_target := t\<rparr>) w"
    and "(w2, r2) = dispatch e now conns (blank_msg\<lparr>sm_type := ''bot_handshake'', sm_action := Some ''complete'', sm_initiator := i, sm_target := t,
          sm_nonce := se_nonce e\<rparr>) w1"
  shows "r1 = Some (Handshake_begun i t (se_nonce e)) \<and> r2 = Some (Handshake_result True)
    \<and> (\<exists>g'. sw_registry w2 = Some g' \<and> is_trusted_bot b g')"
proof -
  let ?n = "se_nonce e"
  note h = handshake_exact[OF assms(2), of now i t ?n now]
  obtain g1 where g1: "initiate_handshake now ?n i t g = (g1, Some ?n)" using h assms(3,5) by (metis prod.collapse)
  have ok: "snd (complete_handshake now i t ?n g1)" using h assms(3,5) g1 by (metis fst_conv)
  have look: "lookup_bot b g1 = lookup_bot b g" using g1 by (auto simp: initiate_handshake_def Let_def lookup_bot_def split: if_splits)
  obtain g2 where g2: "complete_handshake now i t ?n g1 = (g2, True)" using ok by (metis prod.collapse)
  have "is_trusted_bot b g2" using trusted_complete[of b now i t ?n g1] ok look assms(8,9) g2 by auto
  moreover have w1: "w1 = w\<lparr>sw_registry := Some g1\<rparr> \<and> r1 = Some (Handshake_begun i t ?n)"
    using assms(1,6,7,10) g1 by (simp add: dispatch_def handle_bot_handshake_def blank_msg_def)
  moreover have "w2 = w1\<lparr>sw_registry := Some g2\<rparr> \<and> r2 = Some (Handshake_result True)"
    using assms(4,6,7,11) g2 w1 by (simp add: dispatch_def handle_bot_handshake_def blank_msg_def)
  ultimately show ?thesis by simp
qed

text \<open>No request changes the agents, the groups or a bot's trust but through a handshake.\<close>

theorem sdk_requests_confined:
  assumes "dispatch e now conns m w = (w', r)"
  shows "sw_agents w' = sw_agents w \<and> sw_groups w' = sw_groups w
    \<and> (sw_submitted w' = sw_submitted w \<or> sw_submitted w' = sw_submitted w @ [(sm_group m, sm_message m)]
        \<and> sm_group m \<in> rg_folder ` set (sw_groups w) \<and> length (sm_message m) \<le> MAX_TASK_MESSAGE)
    \<and> (\<forall>x \<in> set (sw_written w'). x \<in> set (sw_written w) \<or> mw_scope x \<in> set VALID_SCOPES \<and> length (mw_content x) \<le> MAX_MEMORY_CONTENT
        \<and> 0 \<le> mw_importance x \<and> mw_importance x \<le> 1)
    \<and> (\<forall>g g'. sw_registry w = Some g \<longrightarrow> sw_registry w' = Some g' \<longrightarrow> sm_type m \<noteq> ''bot_handshake'' \<longrightarrow> is_trusted_bot b g' = is_trusted_bot b g)"
proof -
  have clamp: "0 \<le> q \<and> q \<le> 1" if "clamp_unit f x = Some q" for f x q
    using that by (auto simp: clamp_unit_def Let_def split: num_field.splits if_splits option.splits)
  have reg: "is_trusted_bot b (register_bot x g) = is_trusted_bot b g" if "\<not> bt_trusted x" for x g
    using that by (simp add: trusted_register)
  have q: "sw_agents w' = sw_agents w \<and> sw_groups w' = sw_groups w \<and> sw_submitted w' = sw_submitted w \<and> sw_written w' = sw_written w"
    if "handle_bot_handshake e now m w = (w', r)"
    using that by (auto simp: handle_bot_handshake_def Let_def split: option.splits if_splits prod.splits)
  show ?thesis
    using assms q clamp reg
    by (auto simp: dispatch_def Let_def handle_memory_query_def handle_memory_write_def handle_agent_list_def handle_task_submit_def
        handle_bot_register_def handle_bot_lookup_def handle_bot_list_def not_less split: option.splits if_splits)
qed

end
