(* ===== verification/Health.thy ===== *)
theory Health
  imports Container
begin

text \<open>
  The health monitor, \<open>host/health_monitor.py\<close>, with its \<open>db.py\<close> counters and the delivery of its alerts by
  \<open>main.py\<close>.  Times are milliseconds, sizes bytes.  A message is a constructor (without the siren in front
  of it); what the system reports is the record \<open>metrics\<close>, where \<open>None\<close> is a failing query.
\<close>

section \<open>Counters\<close>

definition get_pending_task_count :: "int \<Rightarrow> sched_db \<Rightarrow> nat" where
  "get_pending_task_count now db =
     length (filter (\<lambda>t. t_status t = ''active'' \<and> (case t_next t of None \<Rightarrow> False | Some n \<Rightarrow> n \<le> now)) (tasks db))"

text \<open>Totals and errors of the runs of the last minutes, in seconds.\<close>

definition get_error_stats :: "int \<Rightarrow> int \<Rightarrow> evo_db \<Rightarrow> nat \<times> nat" where
  "get_error_stats now minutes db =
     (let rs = filter (\<lambda>r. r_at r > now - minutes * 60) (runs db) in (length rs, length (filter (\<lambda>r. \<not> r_success r) rs)))"

section \<open>State\<close>

datatype health_note =
    Queue_critical nat
  | Queue_high nat
  | High_error_rate nat nat
  | High_memory nat
  | Large_database nat
  | Group_inactive int string

record health =
  hm_sent :: "(string, int) dict"
  hm_queue :: "(string \<times> health_note) list option"
  hm_warned :: "(string, int) dict"
  hm_live :: "int option"

definition ALERT_COOLDOWN :: int where "ALERT_COOLDOWN = 600000"
definition WARNING_COOLDOWN :: int where "WARNING_COOLDOWN = 300000"
definition CONTAINER_QUEUE_WARNING :: nat where "CONTAINER_QUEUE_WARNING = 10"
definition CONTAINER_QUEUE_CRITICAL :: nat where "CONTAINER_QUEUE_CRITICAL = 50"
definition ERROR_RATE_MIN_SAMPLES :: nat where "ERROR_RATE_MIN_SAMPLES = 5"
definition MEMORY_USAGE_WARNING :: nat where "MEMORY_USAGE_WARNING = 500 * 1024 * 1024"
definition DB_SIZE_WARNING :: nat where "DB_SIZE_WARNING = 100 * 1024 * 1024"
definition GROUP_INACTIVE_DAYS :: int where "GROUP_INACTIVE_DAYS = 7"
definition LIVENESS_STALE :: int where "LIVENESS_STALE = 180000"
definition ALERT_QUEUE_MAX :: nat where "ALERT_QUEUE_MAX = 50"

definition is_monitor_alive :: "int \<Rightarrow> health \<Rightarrow> bool" where
  "is_monitor_alive tick h = (case hm_live h of None \<Rightarrow> False | Some t \<Rightarrow> tick - t < LIVENESS_STALE)"

section \<open>Warnings\<close>

text \<open>The cooldown begins before the queue is asked; a queue that is full or not there loses the alert.\<close>

definition enqueue_alert :: "int \<Rightarrow> string \<Rightarrow> health_note \<Rightarrow> health \<Rightarrow> health" where
  "enqueue_alert now key n h =
     (if now - (case dget (hm_sent h) key of None \<Rightarrow> 0 | Some t \<Rightarrow> t) < ALERT_COOLDOWN then h
      else let h = h\<lparr>hm_sent := dset key now (hm_sent h)\<rparr> in
        (case hm_queue h of
           Some q \<Rightarrow> if length q < ALERT_QUEUE_MAX then h\<lparr>hm_queue := Some (q @ [(key, n)])\<rparr> else h
         | None \<Rightarrow> h))"

definition should_send_warning :: "int \<Rightarrow> string \<Rightarrow> health \<Rightarrow> bool" where
  "should_send_warning now key h = (case dget (hm_warned h) key of None \<Rightarrow> True | Some t \<Rightarrow> now - t \<ge> WARNING_COOLDOWN)"

definition send_warning :: "int \<Rightarrow> health_note \<Rightarrow> string \<Rightarrow> health \<Rightarrow> health" where
  "send_warning now n key h =
     (if should_send_warning now key h
      then (enqueue_alert now key n h)\<lparr>hm_warned := dset key now (hm_warned h)\<rparr> else h)"

section \<open>Checks\<close>

record metrics =
  mt_pending :: "nat option"
  mt_errors :: "(nat \<times> nat) option"
  mt_memory :: "nat option"
  mt_db :: "nat option"
  mt_groups :: "reg_group list option"

definition check_container_queue :: "int \<Rightarrow> metrics \<Rightarrow> health \<Rightarrow> health" where
  "check_container_queue now m h = (case mt_pending m of None \<Rightarrow> h
     | Some n \<Rightarrow> if n \<ge> CONTAINER_QUEUE_CRITICAL then send_warning now (Queue_critical n) ''container_queue'' h
         else if n \<ge> CONTAINER_QUEUE_WARNING then send_warning now (Queue_high n) ''container_queue'' h else h)"

text \<open>The rate is compared with 0.3, as fractions.\<close>

definition check_error_rate :: "int \<Rightarrow> metrics \<Rightarrow> health \<Rightarrow> health" where
  "check_error_rate now m h = (case mt_errors m of None \<Rightarrow> h
     | Some (total', errors) \<Rightarrow> if total' \<ge> ERROR_RATE_MIN_SAMPLES \<and> 10 * errors \<ge> 3 * total'
         then send_warning now (High_error_rate errors total') ''error_rate'' h else h)"

definition check_memory_usage :: "int \<Rightarrow> metrics \<Rightarrow> health \<Rightarrow> health" where
  "check_memory_usage now m h = (case mt_memory m of None \<Rightarrow> h
     | Some b \<Rightarrow> if b \<ge> MEMORY_USAGE_WARNING then send_warning now (High_memory b) ''memory_usage'' h else h)"

definition check_database_size :: "int \<Rightarrow> metrics \<Rightarrow> health \<Rightarrow> health" where
  "check_database_size now m h = (case mt_db m of None \<Rightarrow> h
     | Some b \<Rightarrow> if b \<ge> DB_SIZE_WARNING then send_warning now (Large_database b) ''db_size'' h else h)"

text \<open>
  \<open>last_activity\<close> is what a row holds under that name; the rows of the registry have no such column, and the
  default is zero.
\<close>

definition check_one_group :: "(reg_group \<Rightarrow> int) \<Rightarrow> int \<Rightarrow> reg_group \<Rightarrow> health \<Rightarrow> health" where
  "check_one_group last_activity now g h =
     (let days = (now - last_activity g) div 86400000 in
      if last_activity g > 0 \<and> \<not> days < 0 \<and> days \<ge> GROUP_INACTIVE_DAYS \<and> rg_main g
      then send_warning now (Group_inactive days (rg_jid g)) (''group_inactive_'' @ rg_jid g) h else h)"

definition registry_activity :: "reg_group \<Rightarrow> int" where
  "registry_activity g = 0"

definition check_group_activity :: "int \<Rightarrow> metrics \<Rightarrow> health \<Rightarrow> health" where
  "check_group_activity now m h = (case mt_groups m of None \<Rightarrow> h
     | Some gs \<Rightarrow> fold (check_one_group registry_activity now) gs h)"

definition check_all :: "int \<Rightarrow> metrics \<Rightarrow> health \<Rightarrow> health" where
  "check_all now m h = check_group_activity now m (check_database_size now m (check_memory_usage now m
     (check_error_rate now m (check_container_queue now m h))))"

text \<open>A cycle of the loop; every check catches its exceptions.\<close>

definition health_cycle :: "int \<Rightarrow> int \<Rightarrow> metrics \<Rightarrow> health \<Rightarrow> health" where
  "health_cycle tick now m h = (check_all now m h)\<lparr>hm_live := Some tick\<rparr>"

text \<open>The message loop empties the queue and sends what was in it to the monitor chat, if there is one.\<close>

definition drain_alerts :: "string option \<Rightarrow> health \<Rightarrow> health \<times> (string \<times> health_note) list" where
  "drain_alerts monitor h = (case hm_queue h of None \<Rightarrow> (h, [])
     | Some q \<Rightarrow> (h\<lparr>hm_queue := Some []\<rparr>, map (\<lambda>(k, n). (the monitor, n)) (if truthy monitor then q else [])))"

datatype health_status = Healthy | Degraded "health_note list" | Status_error

definition get_health_status :: "metrics \<Rightarrow> health_status" where
  "get_health_status m = (case (mt_memory m, mt_db m, mt_groups m) of
      (Some b, Some d, Some _) \<Rightarrow> (let ws = (if b \<ge> MEMORY_USAGE_WARNING then [High_memory b] else [])
          @ (if d \<ge> DB_SIZE_WARNING then [Large_database d] else []) in if ws = [] then Healthy else Degraded ws)
    | _ \<Rightarrow> Status_error)"

section \<open>Spacing\<close>

datatype health_event = Monitor_cycle int int metrics | Drain "string option"

definition health_step :: "health_event \<Rightarrow> health \<Rightarrow> health" where
  "health_step e h = (case e of Monitor_cycle tick now m \<Rightarrow> health_cycle tick now m h | Drain j \<Rightarrow> fst (drain_alerts j h))"

definition new_health :: health where
  "new_health = \<lparr>hm_sent = [], hm_queue = Some [], hm_warned = [], hm_live = None\<rparr>"

definition queued :: "health \<Rightarrow> (string \<times> health_note) list" where
  "queued h = (case hm_queue h of None \<Rightarrow> [] | Some q \<Rightarrow> q)"

text \<open>The alerts of a kind that are waiting, and when one was last taken up.\<close>

definition waiting :: "string \<Rightarrow> health \<Rightarrow> nat" where
  "waiting key h = length (filter (\<lambda>(k, _). k = key) (queued h))"

definition taken_up :: "string \<Rightarrow> health \<Rightarrow> int" where
  "taken_up key h = (case dget (hm_sent h) key of None \<Rightarrow> 0 | Some t \<Rightarrow> t)"

text \<open>The times of the cycles that put an alert of a kind into the queue.\<close>

fun alert_times :: "string \<Rightarrow> health_event list \<Rightarrow> health \<Rightarrow> int list" where
  "alert_times key [] h = []"
| "alert_times key (e # es) h = (case e of
      Monitor_cycle tick now m \<Rightarrow> (if waiting key (health_step e h) > waiting key h then [now] else [])
    | Drain _ \<Rightarrow> []) @ alert_times key es (health_step e h)"

text \<open>What anything done at one time may change.\<close>

definition spaced :: "int \<Rightarrow> string \<Rightarrow> health \<Rightarrow> health \<Rightarrow> bool" where
  "spaced now key h h' = ((taken_up key h' = taken_up key h \<and> waiting key h' = waiting key h)
     \<or> (taken_up key h' = now \<and> now - taken_up key h \<ge> ALERT_COOLDOWN \<and> waiting key h' \<le> Suc (waiting key h)))"

definition health_ok :: "health \<Rightarrow> bool" where
  "health_ok h = (length (queued h) \<le> ALERT_QUEUE_MAX \<and> list_all (\<lambda>(_, n). \<not> (\<exists>d j. n = Group_inactive d j)) (queued h))"

lemma spaced_refl [simp]: "spaced now key h h"
  by (simp add: spaced_def)

lemma spaced_trans: "spaced now key h h1 \<Longrightarrow> spaced now key h1 h2 \<Longrightarrow> spaced now key h h2"
  by (auto simp: spaced_def ALERT_COOLDOWN_def)

lemma spaced_warning: "spaced now key h (send_warning now n k h)"
  by (auto simp: spaced_def send_warning_def enqueue_alert_def Let_def taken_up_def waiting_def queued_def split: option.splits)

lemma ok_warning: "health_ok h \<Longrightarrow> \<not> (\<exists>d j. n = Group_inactive d j) \<Longrightarrow> health_ok (send_warning now n k h)"
  by (auto simp: health_ok_def send_warning_def enqueue_alert_def Let_def queued_def split: option.splits)

lemma no_group_warning: "fold (check_one_group registry_activity now) gs h = h"
  by (induction gs) (simp_all add: check_one_group_def registry_activity_def)

lemmas check_defs = check_container_queue_def check_error_rate_def check_memory_usage_def check_database_size_def

lemma spaced_checks:
  "spaced now key h (check_container_queue now m h)" "spaced now key h (check_error_rate now m h)"
  "spaced now key h (check_memory_usage now m h)" "spaced now key h (check_database_size now m h)"
  by (auto simp: check_defs spaced_warning split: option.split)

lemma ok_checks:
  assumes "health_ok h"
  shows "health_ok (check_container_queue now m h)" "health_ok (check_error_rate now m h)"
    "health_ok (check_memory_usage now m h)" "health_ok (check_database_size now m h)"
  using assms by (auto simp: check_defs ok_warning split: option.split)

lemma check_all_kept: "spaced now key h (check_all now m h) \<and> (health_ok h \<longrightarrow> health_ok (check_all now m h))"
proof -
  have g: "check_group_activity now m h' = h'" for h' by (simp add: check_group_activity_def no_group_warning split: option.split)
  show ?thesis unfolding check_all_def g
    by (intro conjI impI ok_checks) (meson spaced_trans spaced_checks)
qed

lemma cycle_kept: "spaced now key h (health_cycle tick now m h) \<and> (health_ok h \<longrightarrow> health_ok (health_cycle tick now m h))"
  using check_all_kept[of now key h m]
  by (simp add: health_cycle_def spaced_def health_ok_def taken_up_def waiting_def queued_def)

lemma health_ok_step: "health_ok h \<Longrightarrow> health_ok (health_step e h)"
  using cycle_kept by (cases e) (auto simp: health_step_def drain_alerts_def health_ok_def queued_def split: option.splits)

interpretation health: preserved health_step health_ok
  by unfold_locales (rule health_ok_step)

lemma drain_taken_up: "taken_up key (fst (drain_alerts j h)) = taken_up key h"
  by (auto simp: drain_alerts_def taken_up_def split: option.split)

lemma alert_times_spaced:
  "sorted_wrt (\<lambda>a b. b - a \<ge> ALERT_COOLDOWN) (alert_times key es h) \<and> (\<forall>t \<in> set (alert_times key es h). t - taken_up key h \<ge> ALERT_COOLDOWN)"
proof (induction es arbitrary: h)
  case (Cons e es)
  note IH = Cons[of "health_step e h"]
  show ?case
  proof (cases e)
    case (Monitor_cycle tick now m)
    have s: "spaced now key h (health_step e h)" using cycle_kept Monitor_cycle by (simp add: health_step_def)
    show ?thesis
    proof (cases "waiting key (health_step e h) > waiting key h")
      case True
      then have "taken_up key (health_step e h) = now" "now - taken_up key h \<ge> ALERT_COOLDOWN" using s by (auto simp: spaced_def)
      moreover have "alert_times key (e # es) h = now # alert_times key es (health_step e h)" using Monitor_cycle True by simp
      ultimately show ?thesis using IH by (auto simp: ALERT_COOLDOWN_def)
    next
      case False
      have "taken_up key h \<le> taken_up key (health_step e h)" using s by (auto simp: spaced_def ALERT_COOLDOWN_def)
      moreover have "alert_times key (e # es) h = alert_times key es (health_step e h)" using Monitor_cycle False by simp
      ultimately show ?thesis using IH by fastforce
    qed
  next
    case (Drain j)
    then show ?thesis using IH drain_taken_up by (simp add: health_step_def)
  qed
qed simp

text \<open>
  Over every history, alerts of one kind are at least ten minutes apart and never more than fifty wait; but no
  group is ever reported as inactive, since no row of the registry has the column that is read.
\<close>

theorem health_alerts:
  "sorted_wrt (\<lambda>a b. b - a \<ge> ALERT_COOLDOWN) (alert_times key es new_health)
    \<and> length (queued (fold health_step es new_health)) \<le> ALERT_QUEUE_MAX
    \<and> (key, Group_inactive d j) \<notin> set (queued (fold health_step es new_health))"
proof -
  have "health_ok new_health" by (simp add: health_ok_def queued_def new_health_def)
  then have "health_ok (fold health_step es new_health)" by (rule health.history_kept)
  then show ?thesis using alert_times_spaced[of key es new_health] by (auto simp: health_ok_def list_all_iff)
qed

text \<open>
  An alert that finds the queue full, or no queue, is lost and silences its kind for ten minutes all the
  same; and a queue that becomes critical within five minutes of the warning that it is long is not
  reported at all, since both have the same key.
\<close>

theorem health_alert_lost:
  assumes "taken_up key h + ALERT_COOLDOWN \<le> now" "hm_queue h = None \<or> length (queued h) \<ge> ALERT_QUEUE_MAX" "now \<le> later" "later < now + ALERT_COOLDOWN"
  shows "queued (enqueue_alert now key n h) = queued h \<and> enqueue_alert later key n' (enqueue_alert now key n h) = enqueue_alert now key n h
    \<and> (10 \<le> a \<longrightarrow> a < 50 \<longrightarrow> should_send_warning now ''container_queue'' g \<longrightarrow> later < now + WARNING_COOLDOWN \<longrightarrow>
        check_container_queue later (m\<lparr>mt_pending := Some b\<rparr>) (check_container_queue now (m\<lparr>mt_pending := Some a\<rparr>) g)
          = check_container_queue now (m\<lparr>mt_pending := Some a\<rparr>) g)"
proof (intro conjI impI)
  have e: "enqueue_alert now key n h = h\<lparr>hm_sent := dset key now (hm_sent h)\<rparr>"
    using assms(1,2) by (auto simp: enqueue_alert_def taken_up_def queued_def Let_def split: option.splits)
  show "queued (enqueue_alert now key n h) = queued h" unfolding e by (simp add: queued_def)
  show "enqueue_alert later key n' (enqueue_alert now key n h) = enqueue_alert now key n h"
    unfolding e using assms(3,4) by (simp add: enqueue_alert_def)
  assume a: "10 \<le> a" "a < 50" "should_send_warning now ''container_queue'' g" "later < now + WARNING_COOLDOWN"
  let ?g = "check_container_queue now (m\<lparr>mt_pending := Some a\<rparr>) g"
  have "hm_warned ?g = dset ''container_queue'' now (hm_warned g)"
    using a(1-3) by (simp add: check_container_queue_def CONTAINER_QUEUE_CRITICAL_def CONTAINER_QUEUE_WARNING_def send_warning_def enqueue_alert_def Let_def
        split: option.split)
  then have "\<not> should_send_warning later ''container_queue'' ?g" using assms(3) a(4) by (simp add: should_send_warning_def)
  then show "check_container_queue later (m\<lparr>mt_pending := Some b\<rparr>) ?g = ?g"
    by (simp add: check_container_queue_def[of later] send_warning_def)
qed

theorem health_alert_lost_witness:
  "queued (enqueue_alert 700000 ''db_size'' (Large_database 1) (new_health\<lparr>hm_queue := None\<rparr>)) = []"
  using health_alert_lost[of "''db_size''" "new_health\<lparr>hm_queue := None\<rparr>" 700000 700001 "Large_database 1"]
  by (simp add: taken_up_def new_health_def ALERT_COOLDOWN_def queued_def)

text \<open>The backlog the monitor looks at is what the scheduler would dispatch now.\<close>

lemma pending_is_due: "get_pending_task_count now db = length (get_due_tasks now db)"
proof -
  have "(t_status t = ''active'' \<and> (case t_next t of None \<Rightarrow> False | Some n \<Rightarrow> n \<le> now)) = is_due now t" for t
    by (auto simp: is_due_def split: option.splits)
  then show ?thesis by (simp add: get_pending_task_count_def get_due_tasks_def)
qed

end
