(* ===== verification/AgentCall.thy ===== *)
theory AgentCall
  imports Container
begin

text \<open>
  One call of a language model by the agent in its container: the pool of keys and the retries of
  \<open>container/agent-runner/_utils.py\<close>, and the consumption of a streamed answer in \<open>_loop_openai.py\<close>.  What
  the provider does with a request is an argument; an exception is its text.
\<close>

section \<open>Keys and retries\<close>

record key_pool =
  kp_keys :: "string list"
  kp_idx :: nat

definition new_pool :: "string \<Rightarrow> key_pool" where
  "new_pool csv = \<lparr>kp_keys = filter (\<lambda>k. k \<noteq> []) (map strip (split_on (CHR '','') csv)), kp_idx = 0\<rparr>"

definition current_key :: "key_pool \<Rightarrow> string" where
  "current_key p = (if kp_keys p = [] then [] else kp_keys p ! (kp_idx p mod length (kp_keys p)))"

definition rotate_key :: "key_pool \<Rightarrow> key_pool \<times> string" where
  "rotate_key p = (if kp_keys p = [] then (p, [])
     else let i = (kp_idx p + 1) mod length (kp_keys p) in (p\<lparr>kp_idx := i\<rparr>, kp_keys p ! i))"

text \<open>The client of a provider: the key in use, and the pool when keys can be exchanged.\<close>

record client =
  cl_key :: string
  cl_pool :: "key_pool option"

definition has_sub :: "string \<Rightarrow> string \<Rightarrow> bool" where
  "has_sub p s = (find_sub p s \<noteq> None)"

definition is_rate_limit :: "string \<Rightarrow> bool" where
  "is_rate_limit e = (has_sub ''429'' e
     \<or> list_ex (\<lambda>k. has_sub k (lower e)) [''rate limit'', ''resource exhausted'', ''too many requests'', ''quota''])"

definition is_retryable :: "string \<Rightarrow> bool" where
  "is_retryable e = (is_rate_limit e \<or> list_ex (\<lambda>c. has_sub c e) [''429'', ''500'', ''502'', ''503'', ''529'']
     \<or> list_ex (\<lambda>k. has_sub k (lower e)) [''overloaded'', ''service unavailable'', ''bad gateway'', ''timeout''])"

definition next_client :: "string \<Rightarrow> client \<Rightarrow> client" where
  "next_client e c = (case cl_pool c of None \<Rightarrow> c
     | Some p \<Rightarrow> if is_rate_limit e \<and> length (kp_keys p) > 1
         then (case rotate_key p of (p, k) \<Rightarrow> \<lparr>cl_key = k, cl_pool = Some p\<rparr>) else c)"

text \<open>
  \<open>_llm_call_with_retry\<close> with the number of attempts; \<open>fn\<close> is the call with the key in use.  \<open>tries\<close> counts
  the calls.
\<close>

fun llm_call :: "nat \<Rightarrow> (string \<Rightarrow> 'w \<Rightarrow> 'w \<times> (string + 'r)) \<Rightarrow> client \<Rightarrow> 'w \<Rightarrow> nat \<times> client \<times> 'w \<times> (string + 'r)" where
  "llm_call 0 fn c w = (0, c, w, Inl [])"
| "llm_call (Suc m) fn c w = (case fn (cl_key c) w of
      (w, Inr r) \<Rightarrow> (1, c, w, Inr r)
    | (w, Inl e) \<Rightarrow> if \<not> is_retryable e \<or> m = 0 then (1, c, w, Inl e)
        else (case llm_call m fn (next_client e c) w of (k, res) \<Rightarrow> (Suc k, res)))"

definition MAX_ATTEMPTS :: nat where "MAX_ATTEMPTS = 3"

section \<open>Answers\<close>

record call =
  ca_id :: string
  ca_name :: string
  ca_args :: string

record response =
  rs_content :: string
  rs_calls :: "call list"
  rs_stop :: "string option"

text \<open>A chunk without choices is \<open>None\<close>; a fragment belongs to the call with its index.\<close>

record frag =
  fr_index :: int
  fr_id :: "string option"
  fr_name :: "string option"
  fr_args :: "string option"

record delta =
  de_content :: "string option"
  de_calls :: "frag list"

type_synonym chunk = "(delta option \<times> string option) option"

record slot =
  sl_id :: string
  sl_name :: string
  sl_args :: string
  sl_trunc :: bool

record acc =
  ac_content :: string
  ac_slots :: "(int, slot) dict"
  ac_stop :: "string option"
  ac_total :: nat

definition STREAM_MAX_TOTAL :: nat where "STREAM_MAX_TOTAL = 1048576"
definition STREAM_MAX_ARGS :: nat where "STREAM_MAX_ARGS = 32768"

definition new_slot :: slot where
  "new_slot = \<lparr>sl_id = [], sl_name = [], sl_args = [], sl_trunc = False\<rparr>"

text \<open>The argument text of a fragment: appended while it fits, cut once when it does not.\<close>

definition take_args :: "string \<Rightarrow> slot \<Rightarrow> slot" where
  "take_args a s =
     (if length (sl_args s) + length a \<le> STREAM_MAX_ARGS then s\<lparr>sl_args := sl_args s @ a\<rparr>
      else if \<not> sl_trunc s then s\<lparr>sl_args := sl_args s @ take (STREAM_MAX_ARGS - length (sl_args s)) a, sl_trunc := True\<rparr>
      else s)"

definition take_frag :: "frag \<Rightarrow> acc \<Rightarrow> acc" where
  "take_frag f a =
     (let s0 = (case dget (ac_slots a) (fr_index f) of None \<Rightarrow> new_slot | Some s \<Rightarrow> s);
          s1 = (if truthy (fr_id f) then s0\<lparr>sl_id := the (fr_id f)\<rparr> else s0);
          s2 = (if truthy (fr_name f) then s1\<lparr>sl_name := the (fr_name f)\<rparr> else s1);
          s3 = (if truthy (fr_args f) then take_args (the (fr_args f)) s2 else s2) in
      a\<lparr>ac_slots := dset (fr_index f) s3 (ac_slots a), ac_total := ac_total a + (length (sl_args s3) - length (sl_args s2))\<rparr>)"

definition take_delta :: "delta \<Rightarrow> acc \<Rightarrow> acc" where
  "take_delta d a = fold take_frag (de_calls d)
     (if truthy (de_content d) then a\<lparr>ac_content := ac_content a @ the (de_content d), ac_total := ac_total a + length (the (de_content d))\<rparr> else a)"

definition take_chunk :: "delta option \<times> string option \<Rightarrow> acc \<Rightarrow> acc" where
  "take_chunk c a = (case c of (d, stop) \<Rightarrow>
     (let a = (case d of None \<Rightarrow> a | Some d \<Rightarrow> take_delta d a) in if truthy stop then a\<lparr>ac_stop := stop\<rparr> else a))"

fun drain :: "chunk list \<Rightarrow> acc \<Rightarrow> acc" where
  "drain [] a = a"
| "drain (None # cs) a = drain cs a"
| "drain (Some c # cs) a = (let a = take_chunk c a in
     if ac_total a > STREAM_MAX_TOTAL then a\<lparr>ac_stop := Some (if truthy (ac_stop a) then the (ac_stop a) else ''length'')\<rparr>
     else drain cs a)"

definition new_acc :: acc where
  "new_acc = \<lparr>ac_content = [], ac_slots = [], ac_stop = None, ac_total = 0\<rparr>"

definition consume_stream :: "chunk list \<Rightarrow> response" where
  "consume_stream cs = (let a = drain cs new_acc in
     \<lparr>rs_content = ac_content a,
      rs_calls = map (\<lambda>(_, s). \<lparr>ca_id = sl_id s, ca_name = sl_name s, ca_args = sl_args s\<rparr>) (sort_key fst (ac_slots a)),
      rs_stop = Some (if truthy (ac_stop a) then the (ac_stop a) else ''stop'')\<rparr>)"


section \<open>Retries are bounded\<close>

text \<open>
  At most three calls are made, the last error is reported, and the first one already when it does not look
  transient; but a number that contains 429 or 500 is enough to look so.
\<close>

lemma llm_call_tries: "0 < m \<Longrightarrow> llm_call m fn c w = (k, c', w', res) \<Longrightarrow> 1 \<le> k \<and> k \<le> m \<and> (k < m \<longrightarrow> (case res of Inl e \<Rightarrow> \<not> is_retryable e | Inr _ \<Rightarrow> True))"
proof (induction m arbitrary: c w k c' w' res)
  case (Suc m)
  show ?case
  proof (cases "fn (cl_key c) w")
    case (Pair v r)
    show ?thesis
    proof (cases r)
      case (Inr x)
      then show ?thesis using Suc.prems Pair by auto
    next
      case (Inl e)
      show ?thesis
      proof (cases "\<not> is_retryable e \<or> m = 0")
        case True
        then show ?thesis using Suc.prems Pair Inl by (auto split: sum.splits)
      next
        case False
        obtain j d u s where j: "llm_call m fn (next_client e c) v = (j, d, u, s)" by (metis prod_cases4)
        then show ?thesis using Suc.IH[OF _ j] Suc.prems Pair Inl False by auto
      qed
    qed
  qed
qed simp

lemma number_looks_transient: "is_retryable ''maximum context length is 15003 tokens''"
  by code_simp

section \<open>A streamed answer is the answer\<close>

text \<open>The parts of an answer as functions of the chunks: what the fragments of a call say, in order.\<close>

definition text_of :: "chunk list \<Rightarrow> string" where
  "text_of cs = concat (map (\<lambda>c. case c of Some (Some d, _) \<Rightarrow> if truthy (de_content d) then the (de_content d) else [] | _ \<Rightarrow> []) cs)"

definition frags_of :: "chunk list \<Rightarrow> frag list" where
  "frags_of cs = concat (map (\<lambda>c. case c of Some (Some d, _) \<Rightarrow> de_calls d | _ \<Rightarrow> []) cs)"

definition latest :: "(frag \<Rightarrow> string option) \<Rightarrow> int \<Rightarrow> frag list \<Rightarrow> string" where
  "latest g i fs = fold (\<lambda>f x. if fr_index f = i \<and> truthy (g f) then the (g f) else x) fs []"

definition args_of :: "int \<Rightarrow> frag list \<Rightarrow> string" where
  "args_of i fs = concat (map (\<lambda>f. if fr_index f = i \<and> truthy (fr_args f) then the (fr_args f) else []) fs)"

definition stop_of :: "chunk list \<Rightarrow> string option" where
  "stop_of cs = fold (\<lambda>c x. case c of Some (_, s) \<Rightarrow> if truthy s then s else x | None \<Rightarrow> x) cs None"

definition indices_of :: "frag list \<Rightarrow> int list" where
  "indices_of fs = sort (remdups (map fr_index fs))"

definition size_of :: "chunk list \<Rightarrow> nat" where
  "size_of cs = length (text_of cs) + (\<Sum>i \<in> set (map fr_index (frags_of cs)). length (take STREAM_MAX_ARGS (args_of i (frags_of cs))))"

definition assemble :: "string \<Rightarrow> chunk list \<Rightarrow> response" where
  "assemble stop cs = (let fs = frags_of cs in
     \<lparr>rs_content = text_of cs,
      rs_calls = map (\<lambda>i. \<lparr>ca_id = latest fr_id i fs, ca_name = latest fr_name i fs, ca_args = take STREAM_MAX_ARGS (args_of i fs)\<rparr>) (indices_of fs),
      rs_stop = Some (case stop_of cs of Some s \<Rightarrow> s | None \<Rightarrow> stop)\<rparr>)"

definition slot_of :: "int \<Rightarrow> frag list \<Rightarrow> slot" where
  "slot_of i fs = \<lparr>sl_id = latest fr_id i fs, sl_name = latest fr_name i fs, sl_args = take STREAM_MAX_ARGS (args_of i fs),
     sl_trunc = (length (args_of i fs) > STREAM_MAX_ARGS)\<rparr>"

definition slots_ok :: "frag list \<Rightarrow> (int, slot) dict \<Rightarrow> bool" where
  "slots_ok fs d = (dict_ok d \<and> (\<forall>i. dget d i = (if i \<in> set (map fr_index fs) then Some (slot_of i fs) else None)))"

lemma latest_snoc: "latest g i (fs @ [f]) = (if fr_index f = i \<and> truthy (g f) then the (g f) else latest g i fs)"
  by (simp add: latest_def)

lemma args_of_snoc: "args_of i (fs @ [f]) = args_of i fs @ (if fr_index f = i \<and> truthy (fr_args f) then the (fr_args f) else [])"
  by (simp add: args_of_def)

lemma fresh_parts: "i \<notin> set (map fr_index fs) \<Longrightarrow> latest g i fs = [] \<and> args_of i fs = []"
  by (induction fs rule: rev_induct) (auto simp: latest_snoc args_of_snoc latest_def args_of_def)

lemma take_args_spec:
  assumes "a \<noteq> []" "sl_args s = take STREAM_MAX_ARGS x" "sl_trunc s = (length x > STREAM_MAX_ARGS)"
  shows "take_args a s = s\<lparr>sl_args := take STREAM_MAX_ARGS (x @ a), sl_trunc := (length (x @ a) > STREAM_MAX_ARGS)\<rparr>"
  using assms by (cases s) (auto simp: take_args_def min_def not_le not_less split: if_splits)

definition old_slot :: "frag \<Rightarrow> (int, slot) dict \<Rightarrow> slot" where
  "old_slot f d = (case dget d (fr_index f) of None \<Rightarrow> new_slot | Some s \<Rightarrow> s)"

lemma take_frag_slot:
  assumes "slots_ok fs (ac_slots a)"
  shows "ac_slots (take_frag f a) = dset (fr_index f) (slot_of (fr_index f) (fs @ [f])) (ac_slots a)"
    "ac_total (take_frag f a) = ac_total a + (length (sl_args (slot_of (fr_index f) (fs @ [f]))) - length (sl_args (old_slot f (ac_slots a))))"
    "ac_content (take_frag f a) = ac_content a" "ac_stop (take_frag f a) = ac_stop a"
proof -
  let ?i = "fr_index f"
  have s: "(case dget (ac_slots a) ?i of None \<Rightarrow> new_slot | Some s \<Rightarrow> s) = slot_of ?i fs"
    using assms fresh_parts[of ?i fs] by (auto simp: slots_ok_def slot_of_def new_slot_def)
  have t: "truthy (fr_args f) \<Longrightarrow> take_args (the (fr_args f)) (slot_of ?i fs\<lparr>sl_id := x, sl_name := y\<rparr>)
      = (slot_of ?i fs)\<lparr>sl_id := x, sl_name := y, sl_args := take STREAM_MAX_ARGS (args_of ?i fs @ the (fr_args f)),
          sl_trunc := length (args_of ?i fs @ the (fr_args f)) > STREAM_MAX_ARGS\<rparr>" for x y
    by (subst take_args_spec[where x = "args_of ?i fs"]) (auto simp: slot_of_def truthy_def split: option.splits)
  have u: "slot_of ?i (fs @ [f]) =
      (if truthy (fr_args f) then take_args (the (fr_args f)) else (\<lambda>s. s)) (slot_of ?i fs\<lparr>sl_id := latest fr_id ?i (fs @ [f]), sl_name := latest fr_name ?i (fs @ [f])\<rparr>)"
    by (cases "truthy (fr_args f)") (simp_all only: t if_True if_False, simp_all add: slot_of_def args_of_snoc)
  show "ac_slots (take_frag f a) = dset ?i (slot_of ?i (fs @ [f])) (ac_slots a)"
    unfolding u take_frag_def s Let_def by (auto simp: latest_snoc slot_of_def intro!: arg_cong[where f = "\<lambda>s. dset ?i s (ac_slots a)"] arg_cong[where f = "take_args _"])
  show "ac_total (take_frag f a) = ac_total a + (length (sl_args (slot_of ?i (fs @ [f]))) - length (sl_args (old_slot f (ac_slots a))))"
    unfolding u old_slot_def s take_frag_def Let_def by (auto simp: latest_snoc slot_of_def)
  show "ac_content (take_frag f a) = ac_content a" "ac_stop (take_frag f a) = ac_stop a" by (simp_all add: take_frag_def Let_def)
qed

abbreviation held :: "int \<Rightarrow> frag list \<Rightarrow> nat" where
  "held i fs \<equiv> length (take STREAM_MAX_ARGS (args_of i fs))"

definition holds :: "frag list \<Rightarrow> string \<Rightarrow> string option \<Rightarrow> acc \<Rightarrow> bool" where
  "holds fs t stop a = (slots_ok fs (ac_slots a) \<and> ac_content a = t \<and> ac_stop a = stop
     \<and> ac_total a = length t + (\<Sum>i \<in> set (map fr_index fs). held i fs))"

lemma held_sum: "(\<Sum>i \<in> set (map fr_index (fs @ [f])). held i (fs @ [f]))
    = (\<Sum>i \<in> set (map fr_index fs). held i fs) + (held (fr_index f) (fs @ [f]) - held (fr_index f) fs)"
proof -
  let ?i = "fr_index f" and ?S = "set (map fr_index fs)"
  have le: "held ?i fs \<le> held ?i (fs @ [f])" by (simp add: args_of_snoc)
  have "(\<Sum>i \<in> set (map fr_index (fs @ [f])). held i (fs @ [f])) = held ?i (fs @ [f]) + (\<Sum>i \<in> ?S - {?i}. held i (fs @ [f]))"
    by (simp add: sum.insert_remove)
  also have "(\<Sum>i \<in> ?S - {?i}. held i (fs @ [f])) = (\<Sum>i \<in> ?S - {?i}. held i fs)"
    by (rule sum.cong) (auto simp: args_of_snoc)
  also have "held ?i (fs @ [f]) + (\<Sum>i \<in> ?S - {?i}. held i fs) = (\<Sum>i \<in> ?S. held i fs) + (held ?i (fs @ [f]) - held ?i fs)"
  proof (cases "?i \<in> ?S")
    case True
    then have "(\<Sum>i \<in> ?S. held i fs) = held ?i fs + (\<Sum>i \<in> ?S - {?i}. held i fs)" by (simp add: sum.remove)
    with le show ?thesis by linarith
  next
    case False
    then show ?thesis using fresh_parts[OF False] by simp
  qed
  finally show ?thesis .
qed

lemma holds_frag: "holds fs t stop a \<Longrightarrow> holds (fs @ [f]) t stop (take_frag f a)"
proof -
  assume h: "holds fs t stop a"
  then have ok: "slots_ok fs (ac_slots a)" by (simp add: holds_def)
  have old: "length (sl_args (old_slot f (ac_slots a))) = held (fr_index f) fs"
    using ok fresh_parts[of "fr_index f" fs] by (auto simp: slots_ok_def old_slot_def slot_of_def new_slot_def)
  have other: "j \<noteq> fr_index f \<Longrightarrow> slot_of j (fs @ [f]) = slot_of j fs" for j
    by (simp add: slot_of_def latest_snoc args_of_snoc)
  note f = take_frag_slot[OF ok, of f]
  have sl: "slots_ok (fs @ [f]) (ac_slots (take_frag f a))" unfolding f(1) using ok other by (auto simp: slots_ok_def)
  have tot: "ac_total (take_frag f a) = length t + (\<Sum>i \<in> set (map fr_index (fs @ [f])). held i (fs @ [f]))"
    unfolding f(2) old held_sum using h by (simp add: holds_def slot_of_def)
  show ?thesis unfolding holds_def using sl tot f(3,4) h by (simp add: holds_def)
qed

lemma holds_frags: "holds fs t stop a \<Longrightarrow> holds (fs @ gs) t stop (fold take_frag gs a)"
proof (induction gs arbitrary: fs a)
  case (Cons g gs)
  from Cons.IH[OF holds_frag[OF Cons.prems, of g]] show ?case by simp
qed simp

lemma parts_snoc:
  "text_of (cs @ [c]) = text_of cs @ text_of [c]" "frags_of (cs @ [c]) = frags_of cs @ frags_of [c]"
  "stop_of (cs @ [Some (d, s)]) = (if truthy s then s else stop_of cs)" "stop_of (cs @ [None]) = stop_of cs"
  by (simp_all add: text_of_def frags_of_def stop_of_def)

lemma holds_chunk:
  assumes "holds (frags_of cs) (text_of cs) (stop_of cs) a"
  shows "holds (frags_of (cs @ [Some c])) (text_of (cs @ [Some c])) (stop_of (cs @ [Some c])) (take_chunk c a)"
proof (cases c)
  case (Pair d s)
  have t: "holds fs (t @ x) stop (a\<lparr>ac_content := ac_content a @ x, ac_total := ac_total a + length x\<rparr>)"
    if "holds fs t stop a" for fs t x stop a
    using that by (simp add: holds_def)
  have s: "holds fs t s' (if truthy s then a\<lparr>ac_stop := s\<rparr> else a)" if "holds fs t stop a" "s' = (if truthy s then s else stop)" for fs t stop s' a
    using that by (auto simp: holds_def)
  show ?thesis
  proof (cases d)
    case None
    then show ?thesis using assms s[OF assms refl] by (simp add: Pair parts_snoc take_chunk_def text_of_def frags_of_def)
  next
    case (Some e)
    show ?thesis unfolding Pair Some take_chunk_def take_delta_def Let_def prod.case option.case parts_snoc
      by (rule s[OF _ refl], rule holds_frags[of _ _ _ _ "de_calls e", THEN back_subst[of "\<lambda>fs. holds fs _ _ _"]],
          use assms t[OF assms] in \<open>auto simp: text_of_def frags_of_def\<close>)
  qed
qed

lemma holds_size: "holds (frags_of cs) (text_of cs) stop a \<Longrightarrow> ac_total a = size_of cs"
  by (simp add: holds_def size_of_def)

lemma stop_truthy: "stop_of cs = Some s \<Longrightarrow> s \<noteq> []"
  by (induction cs rule: rev_induct) (auto simp: stop_of_def truthy_def split: option.splits if_splits)

lemma drain_spec:
  assumes "holds (frags_of ps) (text_of ps) (stop_of ps) a" "size_of ps \<le> STREAM_MAX_TOTAL"
  shows "\<exists>us vs. cs = us @ vs
    \<and> (vs = [] \<and> size_of (ps @ us) \<le> STREAM_MAX_TOTAL \<and> holds (frags_of (ps @ us)) (text_of (ps @ us)) (stop_of (ps @ us)) (drain cs a)
       \<or> STREAM_MAX_TOTAL < size_of (ps @ us) \<and> size_of (butlast (ps @ us)) \<le> STREAM_MAX_TOTAL
         \<and> holds (frags_of (ps @ us)) (text_of (ps @ us)) (Some (case stop_of (ps @ us) of Some s \<Rightarrow> s | None \<Rightarrow> ''length'')) (drain cs a))"
  using assms
proof (induction cs arbitrary: ps a)
  case Nil
  then show ?case by (intro exI[of _ "[]"]) simp
next
  case (Cons c cs)
  show ?case
  proof (cases c)
    case None
    have h: "holds (frags_of (ps @ [c])) (text_of (ps @ [c])) (stop_of (ps @ [c])) a" "size_of (ps @ [c]) = size_of ps"
      using Cons.prems(1) None by (simp_all add: size_of_def text_of_def frags_of_def stop_of_def)
    have le: "size_of (ps @ [c]) \<le> STREAM_MAX_TOTAL" using h(2) Cons.prems(2) by simp
    obtain us vs where u: "cs = us @ vs"
      "vs = [] \<and> size_of ((ps @ [c]) @ us) \<le> STREAM_MAX_TOTAL \<and> holds (frags_of ((ps @ [c]) @ us)) (text_of ((ps @ [c]) @ us)) (stop_of ((ps @ [c]) @ us)) (drain cs a)
       \<or> STREAM_MAX_TOTAL < size_of ((ps @ [c]) @ us) \<and> size_of (butlast ((ps @ [c]) @ us)) \<le> STREAM_MAX_TOTAL
         \<and> holds (frags_of ((ps @ [c]) @ us)) (text_of ((ps @ [c]) @ us)) (Some (case stop_of ((ps @ [c]) @ us) of Some s \<Rightarrow> s | None \<Rightarrow> ''length'')) (drain cs a)"
      using Cons.IH[OF h(1) le] by blast
    from u show ?thesis unfolding None by (intro exI[of _ "None # us"] exI[of _ vs]) simp
  next
    case (Some x)
    let ?b = "take_chunk x a"
    have h: "holds (frags_of (ps @ [c])) (text_of (ps @ [c])) (stop_of (ps @ [c])) ?b"
      using holds_chunk[OF Cons.prems(1)] Some by simp
    have tot: "ac_total ?b = size_of (ps @ [c])" by (rule holds_size[OF h])
    show ?thesis
    proof (cases "size_of (ps @ [c]) \<le> STREAM_MAX_TOTAL")
      case True
      obtain us vs where u: "cs = us @ vs"
        "vs = [] \<and> size_of ((ps @ [c]) @ us) \<le> STREAM_MAX_TOTAL \<and> holds (frags_of ((ps @ [c]) @ us)) (text_of ((ps @ [c]) @ us)) (stop_of ((ps @ [c]) @ us)) (drain cs ?b)
         \<or> STREAM_MAX_TOTAL < size_of ((ps @ [c]) @ us) \<and> size_of (butlast ((ps @ [c]) @ us)) \<le> STREAM_MAX_TOTAL
           \<and> holds (frags_of ((ps @ [c]) @ us)) (text_of ((ps @ [c]) @ us)) (Some (case stop_of ((ps @ [c]) @ us) of Some s \<Rightarrow> s | None \<Rightarrow> ''length'')) (drain cs ?b)"
        using Cons.IH[OF h True] by blast
      have d: "drain (c # cs) a = drain cs ?b" using True tot Some by (simp add: Let_def)
      from u show ?thesis unfolding d by (intro exI[of _ "c # us"] exI[of _ vs]) simp
    next
      case False
      have st: "truthy (ac_stop ?b) = (stop_of (ps @ [c]) \<noteq> None)" "ac_stop ?b = stop_of (ps @ [c])"
        using h stop_truthy[of "ps @ [c]"] by (auto simp: holds_def truthy_def split: option.splits)
      have d: "drain (c # cs) a = ?b\<lparr>ac_stop := Some (case stop_of (ps @ [c]) of Some s \<Rightarrow> s | None \<Rightarrow> ''length'')\<rparr>"
        using False tot Some st by (auto simp: Let_def split: option.splits)
      show ?thesis unfolding d using False h Cons.prems(2)
        by (intro exI[of _ "[c]"] exI[of _ cs]) (auto simp: holds_def)
    qed
  qed
qed

lemma dict_by_keys: "dict_ok d \<Longrightarrow> d = map (\<lambda>k. (k, the (dget d k))) (dkeys d)"
  unfolding dkeys_def map_map comp_def by (rule map_idI[symmetric]) (auto simp: dget_of_member)

lemma sorted_slots:
  assumes "slots_ok fs d"
  shows "sort_key fst d = map (\<lambda>i. (i, slot_of i fs)) (indices_of fs)"
proof -
  have ok: "dict_ok d" and at_key: "\<And>i. dget d i = (if i \<in> set (map fr_index fs) then Some (slot_of i fs) else None)"
    using assms by (auto simp: slots_ok_def)
  have keys: "set (dkeys d) = set (map fr_index fs)" using at_key dget_None_iff[of d] by (metis (full_types) not_Some_eq subsetI subset_antisym)
  have "d = map (\<lambda>k. (k, slot_of k fs)) (dkeys d)"
    by (subst dict_by_keys[OF ok]) (auto simp: at_key keys simp del: set_map)
  then have "sort_key fst d = sort_key fst (map (\<lambda>k. (k, slot_of k fs)) (dkeys d))" by (rule arg_cong)
  then have "sort_key fst d = map (\<lambda>k. (k, slot_of k fs)) (sort (dkeys d))" by (simp add: sort_key_map)
  moreover have "sort (dkeys d) = indices_of fs"
    unfolding indices_of_def using keys ok
    by (intro sorted_distinct_set_unique) (simp_all add: dict_ok_def)
  ultimately show ?thesis by simp
qed

lemma holds_response:
  assumes "holds (frags_of us) (text_of us) stop (drain cs new_acc)"
  shows "consume_stream cs = \<lparr>rs_content = text_of us,
      rs_calls = map (\<lambda>i. \<lparr>ca_id = latest fr_id i (frags_of us), ca_name = latest fr_name i (frags_of us),
        ca_args = take STREAM_MAX_ARGS (args_of i (frags_of us))\<rparr>) (indices_of (frags_of us)),
      rs_stop = Some (if truthy stop then the stop else ''stop'')\<rparr>"
proof -
  have "slots_ok (frags_of us) (ac_slots (drain cs new_acc))" using assms by (simp add: holds_def)
  from sorted_slots[OF this] show ?thesis using assms by (simp add: consume_stream_def Let_def holds_def slot_of_def comp_def)
qed

text \<open>
  C30: The answer read from a stream is the one its chunks describe: the text of all chunks, and for every call,
  in the order of the indices, the last identifier and name and the first 32768 characters of its
  arguments, however they were cut into fragments.  Reading stops at the first chunk that takes the
  total over one megabyte; the answer is then that of the chunks up to there, with the reason \<open>length\<close>.
\<close>

theorem stream_exact:
  "\<exists>us vs. cs = us @ vs
    \<and> (vs = [] \<and> size_of us \<le> STREAM_MAX_TOTAL \<and> consume_stream cs = assemble ''stop'' us
       \<or> STREAM_MAX_TOTAL < size_of us \<and> size_of (butlast us) \<le> STREAM_MAX_TOTAL \<and> consume_stream cs = assemble ''length'' us)"
proof -
  have h: "holds (frags_of []) (text_of []) (stop_of []) new_acc" "size_of [] \<le> STREAM_MAX_TOTAL"
    by (simp_all add: holds_def slots_ok_def new_acc_def text_of_def frags_of_def stop_of_def size_of_def)
  have r: "truthy (stop_of us) \<longleftrightarrow> stop_of us \<noteq> None" for us using stop_truthy[of us] by (auto simp: truthy_def split: option.splits)
  have s: "truthy (Some (case stop_of us of Some s \<Rightarrow> s | None \<Rightarrow> ''length''))" for us
    using stop_truthy[of us] by (auto split: option.splits)
  from drain_spec[OF h, of cs] obtain us vs where u: "cs = us @ vs"
    "vs = [] \<and> size_of us \<le> STREAM_MAX_TOTAL \<and> holds (frags_of us) (text_of us) (stop_of us) (drain cs new_acc)
     \<or> STREAM_MAX_TOTAL < size_of us \<and> size_of (butlast us) \<le> STREAM_MAX_TOTAL
       \<and> holds (frags_of us) (text_of us) (Some (case stop_of us of Some s \<Rightarrow> s | None \<Rightarrow> ''length'')) (drain cs new_acc)"
    by auto
  have a: "holds (frags_of us) (text_of us) (stop_of us) (drain cs new_acc) \<Longrightarrow> consume_stream cs = assemble ''stop'' us"
    using holds_response[of us "stop_of us" cs] r[of us] by (auto simp: assemble_def Let_def split: option.splits)
  have b: "holds (frags_of us) (text_of us) (Some (case stop_of us of Some s \<Rightarrow> s | None \<Rightarrow> ''length'')) (drain cs new_acc)
      \<Longrightarrow> consume_stream cs = assemble ''length'' us"
    using holds_response[of us _ cs] s[of us] by (auto simp: assemble_def Let_def split: option.splits)
  show ?thesis using u a b by blast
qed

end
