(* ===== verification/AgentTurn.thy ===== *)
theory AgentTurn
  imports AgentCall
begin

text \<open>
  What the agent's three loops share (\<open>_loop_openai.py\<close>, \<open>_loop_claude.py\<close>, \<open>_loop_gemini.py\<close> under
  \<open>container/agent-runner\<close>): the counters of a run, the use of a tool with its cut result and its failure
  count, the milestone and reminder notes, the guard against claims without work, and the cut of a history
  that keeps calls and results together (locale \<open>transcript\<close>).  The tools, the regular expressions over
  texts and the hash of an argument are arguments (record \<open>tool_env\<close>); a text of the program that is added to
  the conversation is a constructor of \<open>loop_note\<close>, an answer written by the program one of \<open>answer\<close>.
\<close>

section \<open>State\<close>

datatype loop_note =
    Force_note
  | Exec_note "(string \<times> string) list"
  | Fake_note
  | Claim_note
  | Fabrication_note
  | Milestone_note nat
  | Memory_note
  | Final_note nat nat
  | Retry_note string nat

datatype said = Plain string | Note loop_note

datatype answer = Answer string | Api_failed string | Too_long | No_tools | Blocked | Recited | Nothing_to_say

datatype verdict = Go_on | Done answer | Crash string

record ('w, 'a) tool_env =
  te_tool :: "string \<Rightarrow> 'a \<Rightarrow> 'w \<Rightarrow> 'w \<times> (string + string)"
  te_str :: "'a \<Rightarrow> string"
  te_hash :: "string \<Rightarrow> int"
  te_cross :: "string \<Rightarrow> bool"
  te_tick :: "string \<Rightarrow> bool"
  te_fake :: "string \<Rightarrow> bool"
  te_claim :: "string \<Rightarrow> bool"

text \<open>
  Messages are \<open>'m\<close>, requests \<open>'q\<close>; \<open>lo_sent\<close> records the requests made.  Only the OpenAI loop uses
  \<open>lo_no_tool\<close>, only the Gemini loop \<open>lo_confirms\<close>.
\<close>

record ('w, 'm, 'q) agent_loop =
  lo_history :: "'m list"
  lo_no_tool :: nat
  lo_silent :: nat
  lo_only :: nat
  lo_work :: nat
  lo_memory :: bool
  lo_fails :: "(string \<times> int, nat) dict"
  lo_retry :: "(string \<times> nat) option"
  lo_confirms :: nat
  lo_client :: client
  lo_world :: 'w
  lo_sent :: "'q list"

definition new_loop :: "'m list \<Rightarrow> client \<Rightarrow> 'w \<Rightarrow> ('w, 'm, 'q) agent_loop" where
  "new_loop h c w = \<lparr>lo_history = h, lo_no_tool = 0, lo_silent = 0, lo_only = 0, lo_work = 0, lo_memory = False, lo_fails = [],
     lo_retry = None, lo_confirms = 0, lo_client = c, lo_world = w, lo_sent = []\<rparr>"

definition add_msgs :: "'m list \<Rightarrow> ('w, 'm, 'q) agent_loop \<Rightarrow> ('w, 'm, 'q) agent_loop" where
  "add_msgs ms s = s\<lparr>lo_history := lo_history s @ ms\<rparr>"

definition call_model :: "(string \<Rightarrow> 'w \<Rightarrow> 'w \<times> (string + 'r)) \<Rightarrow> 'q \<Rightarrow> ('w, 'm, 'q) agent_loop \<Rightarrow> ('w, 'm, 'q) agent_loop \<times> (string + 'r)" where
  "call_model fn q s = (case llm_call MAX_ATTEMPTS fn (lo_client s) (lo_world s) of
     (_, c, w, r) \<Rightarrow> (s\<lparr>lo_client := c, lo_world := w, lo_sent := lo_sent s @ [q]\<rparr>, r))"

section \<open>Tools\<close>

definition MAX_HISTORY_MESSAGES :: nat where "MAX_HISTORY_MESSAGES = 20"
definition MAX_TOOL_RESULT_CHARS :: nat where "MAX_TOOL_RESULT_CHARS = 4000"
definition MAX_TOOL_FAILS :: nat where "MAX_TOOL_FAILS = 3"

definition SUBSTANTIVE_TOOLS :: "string list" where
  "SUBSTANTIVE_TOOLS = [''Bash'', ''Read'', ''Write'', ''Edit'', ''Glob'', ''Grep'', ''WebFetch'', ''mcp__evoclaw__run_agent'']"

definition SEND_MESSAGE :: string where "SEND_MESSAGE = ''mcp__evoclaw__send_message''"

definition cut_result :: "string \<Rightarrow> string" where
  "cut_result r = (if length r > MAX_TOOL_RESULT_CHARS
     then take (MAX_TOOL_RESULT_CHARS div 2) r
        @ [CHR 0x0A] @ ''[... '' @ show_nat (length r - MAX_TOOL_RESULT_CHARS) @ '' chars omitted (middle truncated to preserve head+tail) ...]'' @ [CHR 0x0A]
        @ drop (length r - MAX_TOOL_RESULT_CHARS div 2) r
     else r)"

text \<open>A tool's result as text; an exception becomes one too.\<close>

definition run_tool :: "('w, 'a, 'z) tool_env_scheme \<Rightarrow> string \<Rightarrow> 'a \<Rightarrow> 'w \<Rightarrow> 'w \<times> string" where
  "run_tool e name a w = (case te_tool e name a w of
     (w, res) \<Rightarrow> (w, cut_result (case res of Inl x \<Rightarrow> ''[Tool error: '' @ x @ '']'' | Inr r \<Rightarrow> r)))"

definition count_fail :: "('w, 'a, 'z) tool_env_scheme \<Rightarrow> string \<Rightarrow> 'a \<Rightarrow> string \<Rightarrow> ('w, 'm, 'q) agent_loop \<Rightarrow> ('w, 'm, 'q) agent_loop" where
  "count_fail e name a r s = (let key = (name, te_hash e (take 200 (te_str e a))) in
     if te_cross e r \<or> prefix ''[ERROR]'' r \<or> prefix ''Error:'' r then
       (let k = Suc (case dget (lo_fails s) key of None \<Rightarrow> 0 | Some k \<Rightarrow> k) in
        s\<lparr>lo_fails := dset key k (lo_fails s), lo_retry := (if k \<ge> MAX_TOOL_FAILS then Some (name, k) else lo_retry s)\<rparr>)
     else if te_tick e r \<or> prefix ''[OK]'' r then s\<lparr>lo_fails := ddel key (lo_fails s)\<rparr>
     else s)"

definition use_tool :: "('w, 'a, 'z) tool_env_scheme \<Rightarrow> string \<Rightarrow> 'a \<Rightarrow> ('w, 'm, 'q) agent_loop \<Rightarrow> ('w, 'm, 'q) agent_loop \<times> string" where
  "use_tool e name a s = (case run_tool e name a (lo_world s) of (w, r) \<Rightarrow> (count_fail e name a r (s\<lparr>lo_world := w\<rparr>), r))"

section \<open>Notes\<close>

text \<open>The counters after a turn that called the tools \<open>names\<close>, and the note that this calls for.\<close>

definition milestone :: "nat \<Rightarrow> nat \<Rightarrow> string list \<Rightarrow> ('w, 'm, 'q) agent_loop \<Rightarrow> ('w, 'm, 'q) agent_loop \<times> loop_note list" where
  "milestone limit n names s0 =
     (let sent = (SEND_MESSAGE \<in> set names); real = (\<exists>t \<in> set names. t \<in> set SUBSTANTIVE_TOOLS);
          s = (if real then s0\<lparr>lo_work := lo_work s0 + 1\<rparr> else s0) in
      if sent \<and> real then (s\<lparr>lo_silent := 0, lo_only := 0\<rparr>, [])
      else if sent then (let s = s\<lparr>lo_only := lo_only s + 1\<rparr> in
        (s, if lo_only s \<ge> 2 \<and> n + 2 < limit then [Fabrication_note] else []))
      else (let s = s\<lparr>lo_only := 0, lo_silent := lo_silent s + 1\<rparr> in
        if lo_silent s \<ge> 5 \<and> n + 2 < limit then (s\<lparr>lo_silent := 0\<rparr>, [Milestone_note (lo_silent s)]) else (s, [])))"

definition writes_memory :: "string \<Rightarrow> string \<Rightarrow> bool" where
  "writes_memory name args = (name \<in> {''Write'', ''Edit'', ''Bash''} \<and> has_sub ''MEMORY.md'' args)"

text \<open>The reminders of the last turn but one.\<close>

definition reminders :: "nat \<Rightarrow> nat \<Rightarrow> ('w, 'm, 'q) agent_loop \<Rightarrow> ('w, 'm, 'q) agent_loop \<times> loop_note list" where
  "reminders limit n s =
     (let ms = (if \<not> lo_memory s \<and> n + 2 = limit then [Memory_note] else []) in
      if lo_silent s > 0 \<and> n + 2 = limit then (s\<lparr>lo_silent := 0\<rparr>, ms @ [Final_note (n + 1) limit]) else (s, ms))"

text \<open>The guards against a text that only claims work.\<close>

definition claim_guard :: "('w, 'a, 'z) tool_env_scheme \<Rightarrow> nat \<Rightarrow> nat \<Rightarrow> string \<Rightarrow> ('w, 'm, 'q) agent_loop \<Rightarrow> loop_note option" where
  "claim_guard e limit n t s =
     (if te_fake e t \<and> lo_work s = 0 \<and> Suc n < limit then Some Fake_note
      else if lo_work s = 0 \<and> te_claim e t \<and> Suc n < limit then Some Claim_note else None)"

text \<open>The end of a run: an empty text is replaced.\<close>

definition final_answer :: "answer \<Rightarrow> answer" where
  "final_answer a = (case a of Answer t \<Rightarrow> if strip t = [] then Nothing_to_say else a | _ \<Rightarrow> a)"

text \<open>The turns of a run.\<close>

fun agent_turns :: "(nat \<Rightarrow> ('w, 'm, 'q) agent_loop \<Rightarrow> ('w, 'm, 'q) agent_loop \<times> verdict) \<Rightarrow> nat list
    \<Rightarrow> ('w, 'm, 'q) agent_loop \<Rightarrow> ('w, 'm, 'q) agent_loop \<times> (string + answer)" where
  "agent_turns turn [] s = (s, Inr Nothing_to_say)"
| "agent_turns turn (n # ns) s = (case turn n s of
      (s, Go_on) \<Rightarrow> agent_turns turn ns s
    | (s, Done a) \<Rightarrow> (s, Inr (final_answer a))
    | (s, Crash x) \<Rightarrow> (s, Inl x))"

section \<open>The cut of a history\<close>

text \<open>The first \<open>k\<close> messages are kept, and as many of the last ones as fit, but no results without their call.\<close>

definition cut_history :: "('m \<Rightarrow> bool) \<Rightarrow> nat \<Rightarrow> 'm list \<Rightarrow> 'm list" where
  "cut_history orphan k h =
     (if length h > MAX_HISTORY_MESSAGES then take k h @ dropWhile orphan (drop (length h - (MAX_HISTORY_MESSAGES - k)) h) else h)"

lemma length_cut: "k \<le> MAX_HISTORY_MESSAGES \<Longrightarrow> length (cut_history orphan k h) \<le> MAX_HISTORY_MESSAGES"
  by (auto simp: cut_history_def MAX_HISTORY_MESSAGES_def intro: le_trans[OF add_le_mono[OF le_refl length_dropWhile_le]])

text \<open>
  What a provider demands of a conversation, such that any tail of a valid one is valid without the results
  at its beginning.  The first argument of \<open>valid\<close> is what is still owed: a turn that leaves nothing owed
  can be followed by any valid continuation.
\<close>

locale transcript =
  fixes valid :: "'p list \<Rightarrow> 'm list \<Rightarrow> bool" and orphan :: "'m \<Rightarrow> bool"
  assumes valid_append: "valid p ms \<Longrightarrow> valid p (ms @ ns) = valid [] ns"
    and valid_drop: "valid p ms \<Longrightarrow> \<exists>q. valid q (drop n ms)"
    and valid_strip: "valid p ms \<Longrightarrow> valid [] (dropWhile orphan ms)"
begin

lemma valid_tail: "valid p ms \<Longrightarrow> valid [] (dropWhile orphan (drop n ms))"
  using valid_drop valid_strip by blast

lemma valid_cut:
  assumes "length h0 = k" "valid [] t"
  shows "\<exists>t'. cut_history orphan k (h0 @ t) = h0 @ t' \<and> valid [] t'"
proof (cases "length (h0 @ t) > MAX_HISTORY_MESSAGES")
  case True
  have "k \<le> length (h0 @ t) - (MAX_HISTORY_MESSAGES - k)" using True assms(1) by simp
  then obtain j where "drop (length (h0 @ t) - (MAX_HISTORY_MESSAGES - k)) (h0 @ t) = drop j t" using assms(1) by (metis append_Nil drop_all drop_append)
  then show ?thesis using True assms valid_tail[OF assms(2), of j] by (simp add: cut_history_def)
qed (use assms in \<open>simp add: cut_history_def\<close>)

end

section \<open>Frames\<close>

lemma add_msgs_frame [simp]: "lo_history (add_msgs ms s) = lo_history s @ ms" "lo_sent (add_msgs ms s) = lo_sent s"
  "lo_no_tool (add_msgs ms s) = lo_no_tool s" "lo_retry (add_msgs ms s) = lo_retry s" "lo_work (add_msgs ms s) = lo_work s"
  by (simp_all add: add_msgs_def)

lemma call_model_frame:
  assumes "call_model fn q s = (s', r)"
  shows "lo_history s' = lo_history s \<and> lo_sent s' = lo_sent s @ [q] \<and> lo_no_tool s' = lo_no_tool s \<and> lo_work s' = lo_work s"
  using assms by (auto simp: call_model_def split: prod.splits)

lemma llm_call_answer: "llm_call m fn c w = (k, c', w', Inr r) \<Longrightarrow> \<exists>key v v'. fn key v = (v', Inr r)"
  by (induction m arbitrary: c w k) (auto split: prod.splits sum.splits if_splits)

lemma count_fail_frame [simp]: "lo_history (count_fail e t a r s) = lo_history s" "lo_sent (count_fail e t a r s) = lo_sent s"
  by (simp_all add: count_fail_def Let_def)

lemma use_tool_frame: "use_tool e name a s = (s', r) \<Longrightarrow> lo_history s' = lo_history s \<and> lo_sent s' = lo_sent s"
  by (auto simp: use_tool_def split: prod.splits)

lemma milestone_frame: "milestone limit n names s = (s', ns) \<Longrightarrow> lo_history s' = lo_history s \<and> lo_sent s' = lo_sent s"
  by (auto simp: milestone_def Let_def split: if_splits)

lemma reminders_frame: "reminders limit n s = (s', ns) \<Longrightarrow> lo_history s' = lo_history s \<and> lo_sent s' = lo_sent s"
  by (auto simp: reminders_def Let_def split: if_splits)

text \<open>An invariant of the turns holds of all requests of a run.\<close>

lemma agent_turns_invariant:
  assumes "\<And>n s s' v. I s \<Longrightarrow> turn n s = (s', v) \<Longrightarrow> (v = Go_on \<longrightarrow> I s') \<and> (\<exists>qs. lo_sent s' = lo_sent s @ qs \<and> length qs \<le> c \<and> (\<forall>q \<in> set qs. Q q))"
    and "I s" "agent_turns turn ns s = (s', r)"
  shows "\<exists>qs. lo_sent s' = lo_sent s @ qs \<and> length qs \<le> c * length ns \<and> (\<forall>q \<in> set qs. Q q)"
  using assms(2,3)
proof (induction ns arbitrary: s)
  case (Cons n ns)
  obtain s1 v where t: "turn n s = (s1, v)" by fastforce
  obtain qs where q: "lo_sent s1 = lo_sent s @ qs" "length qs \<le> c" "\<forall>q \<in> set qs. Q q" "v = Go_on \<Longrightarrow> I s1"
    using assms(1)[OF Cons.prems(1) t] by blast
  show ?case
  proof (cases v)
    case Go_on
    obtain ps where "lo_sent s' = lo_sent s1 @ ps" "length ps \<le> c * length ns" "\<forall>q \<in> set ps. Q q"
      using Cons.IH[OF q(4)[OF Go_on]] Cons.prems(2) t Go_on by auto
    then show ?thesis using q by (intro exI[of _ "qs @ ps"]) auto
  qed (use q Cons.prems(2) t in \<open>auto intro!: exI[of _ qs]\<close>)
qed auto

lemma agent_turns_answer:
  assumes "\<And>n s s' v. turn n s = (s', v) \<Longrightarrow> v \<noteq> Done a" "agent_turns turn ns s = (s', r)" "a \<noteq> Nothing_to_say" "\<And>t. a \<noteq> Answer t"
  shows "r \<noteq> Inr a"
  using assms(2)
proof (induction ns arbitrary: s)
  case (Cons n ns)
  obtain s1 v where t: "turn n s = (s1, v)" by fastforce
  have "v \<noteq> Done a" by (rule assms(1)[OF t])
  then show ?case using Cons t assms(3,4) by (cases v) (auto simp: final_answer_def split: answer.splits if_splits)
qed (use assms(3) in auto)

end
