(* ===== verification/AgentLoop.thy ===== *)
theory AgentLoop
  imports AgentTurn
begin

text \<open>
  The agent's loop over an OpenAI-compatible model, \<open>run_agent_openai\<close> of
  \<open>container/agent-runner/_loop_openai.py\<close>: the requests with their fall-backs, the guards against answers
  without work, the tool calls and the two cuts of the history.  The model, the parser of JSON, the length
  of a message as JSON and the finding of code blocks are arguments (record \<open>openai_env\<close>).
\<close>

section \<open>Conversations\<close>

datatype chat_msg =
    Say string said
  | Calls string "call list"
  | Result string string

fun is_result :: "chat_msg \<Rightarrow> bool" where
  "is_result (Say r _) = (r = ''tool'')"
| "is_result (Calls _ _) = False"
| "is_result (Result _ _) = True"

record request =
  rq_history :: "chat_msg list"
  rq_stream :: bool
  rq_required :: bool

record ('w, 'a) openai_env = "('w, 'a) tool_env" +
  ae_stream :: "string \<Rightarrow> request \<Rightarrow> 'w \<Rightarrow> 'w \<times> (string + chunk list)"
  ae_whole :: "string \<Rightarrow> request \<Rightarrow> 'w \<Rightarrow> 'w \<times> (string + response)"
  ae_json :: "string \<Rightarrow> string + 'a"
  ae_bash :: "string \<Rightarrow> 'w \<Rightarrow> 'w \<times> (string + string)"
  ae_blocks :: "string \<Rightarrow> string list"
  ae_git_line :: "string \<Rightarrow> bool"
  ae_bare :: "string \<Rightarrow> bool"
  ae_size :: "chat_msg \<Rightarrow> nat"

type_synonym 'w openai_loop = "('w, chat_msg, request) agent_loop"

section \<open>The cut to a budget\<close>

definition HISTORY_BYTE_BUDGET :: nat where "HISTORY_BYTE_BUDGET = 65536"

text \<open>The length of \<open>json.dumps\<close> of a list, given that of its elements: brackets, and a comma and a space in between.\<close>

definition json_size :: "(chat_msg \<Rightarrow> nat) \<Rightarrow> chat_msg list \<Rightarrow> nat" where
  "json_size sz ms = 2 + sum_list (map sz ms) + 2 * (length ms - 1)"

fun keep_last :: "(chat_msg \<Rightarrow> nat) \<Rightarrow> int \<Rightarrow> chat_msg list \<Rightarrow> chat_msg list" where
  "keep_last sz rest [] = []"
| "keep_last sz rest (m # ms) = (if int (sz m) + 1 > rest then [] else m # keep_last sz (rest - (int (sz m) + 1)) ms)"

definition trim_to_budget :: "(chat_msg \<Rightarrow> nat) \<Rightarrow> nat \<Rightarrow> chat_msg list \<Rightarrow> chat_msg list" where
  "trim_to_budget sz budget h =
     (if h = [] \<or> json_size sz h \<le> budget then h
      else take 1 h @ dropWhile is_result (rev (keep_last sz (int budget - int (json_size sz (take 1 h))) (rev (tl h)))))"

section \<open>Asking the model\<close>

text \<open>The conversation that the host sends; a content may be missing.\<close>

definition start_history :: "string \<Rightarrow> (string \<times> string option) list \<Rightarrow> string \<Rightarrow> chat_msg list" where
  "start_history sys turns user = Say ''system'' (Plain sys)
     # concat (map (\<lambda>(r, c). case c of None \<Rightarrow> [] | Some t \<Rightarrow> if strip t = [] then [] else [Say r (Plain t)]) turns)
     @ [Say ''user'' (Plain user)]"

definition is_qwen :: "string \<Rightarrow> bool" where
  "is_qwen model = has_sub ''qwen'' (lower model)"

definition add_note :: "loop_note \<Rightarrow> 'w openai_loop \<Rightarrow> 'w openai_loop" where
  "add_note n = add_msgs [Say ''user'' (Note n)]"

definition choose_tools :: "bool \<Rightarrow> 'w openai_loop \<Rightarrow> 'w openai_loop \<times> bool" where
  "choose_tools qwen s =
     (if lo_no_tool s \<ge> 2 \<and> qwen then ((add_note Force_note s)\<lparr>lo_no_tool := 0\<rparr>, False) else (s, lo_no_tool s > 0))"

definition request_model :: "('w, 'a) openai_env \<Rightarrow> bool \<Rightarrow> bool \<Rightarrow> 'w openai_loop \<Rightarrow> 'w openai_loop \<times> (string + response)" where
  "request_model e streaming required s =
     (let q = \<lparr>rq_history = lo_history s, rq_stream = streaming, rq_required = required\<rparr> in
      call_model (if streaming then (\<lambda>k w. case ae_stream e k q w of (w, Inl x) \<Rightarrow> (w, Inl x) | (w, Inr cs) \<Rightarrow> (w, Inr (consume_stream cs)))
                  else (\<lambda>k w. ae_whole e k q w)) q s)"

text \<open>Streamed, then whole, then with free choice of tools; \<open>Inl\<close> is an answer of the program or an exception.\<close>

definition ask :: "('w, 'a) openai_env \<Rightarrow> bool \<Rightarrow> 'w openai_loop \<Rightarrow> 'w openai_loop \<times> (verdict + response)" where
  "ask e required s = (case request_model e True required s of
      (s, Inr r) \<Rightarrow> (s, Inr r)
    | (s, Inl _) \<Rightarrow> (case request_model e False required s of
        (s, Inr r) \<Rightarrow> (s, Inr r)
      | (s, Inl x) \<Rightarrow>
          if required then (case request_model e True False s of
              (s, Inr r) \<Rightarrow> (s, Inr r) | (s, Inl y) \<Rightarrow> (s, Inl (Done (Api_failed y))))
          else (s, Inl (Crash x))))"

section \<open>A turn without tool calls\<close>

definition runnable :: "('w, 'a) openai_env \<Rightarrow> string \<Rightarrow> string list" where
  "runnable e t = filter (\<lambda>b. b \<noteq> []) (map strip (ae_blocks e t))"

definition SKIPPED_LOG :: string where "SKIPPED_LOG = ''Skipped: this looks like git log output''"
definition SKIPPED_FILE :: string where "SKIPPED_FILE = ''Skipped: this is a filename, not a bash command''"

text \<open>A code block that was only written is executed, unless it looks like a listing or a file name.\<close>

definition auto_exec :: "('w, 'a) openai_env \<Rightarrow> string \<Rightarrow> 'w \<Rightarrow> 'w \<times> (string + string)" where
  "auto_exec e cmd w = (let ls = filter (\<lambda>l. strip l \<noteq> []) (splitlines (strip cmd)) in
     if length ls \<ge> 2 \<and> list_all (ae_git_line e) (take 4 ls) then (w, Inr SKIPPED_LOG)
     else if length ls = 1 \<and> ae_bare e (strip cmd) then (w, Inr SKIPPED_FILE)
     else ae_bash e cmd w)"

fun auto_exec_all :: "('w, 'a) openai_env \<Rightarrow> string list \<Rightarrow> 'w \<Rightarrow> 'w \<times> (string + (string \<times> string) list)" where
  "auto_exec_all e [] w = (w, Inr [])"
| "auto_exec_all e (c # cs) w = (case auto_exec e c w of
      (w, Inl x) \<Rightarrow> (w, Inl x)
    | (w, Inr r) \<Rightarrow> (case auto_exec_all e cs w of (w, Inl x) \<Rightarrow> (w, Inl x) | (w, Inr os) \<Rightarrow> (w, Inr ((take 200 c, r) # os))))"

definition text_turn :: "('w, 'a) openai_env \<Rightarrow> nat \<Rightarrow> nat \<Rightarrow> string \<Rightarrow> 'w openai_loop \<Rightarrow> 'w openai_loop \<times> verdict" where
  "text_turn e limit n t s0 = (let s = s0\<lparr>lo_no_tool := lo_no_tool s0 + 1\<rparr>; bs = runnable e t in
     if lo_no_tool s \<ge> 3 then (s, Done (if strip t \<noteq> [] then Answer (strip t) else No_tools))
     else if bs \<noteq> [] \<and> Suc n < limit then
       (case auto_exec_all e bs (lo_world s) of
          (w, Inl x) \<Rightarrow> (s\<lparr>lo_no_tool := 0, lo_world := w\<rparr>, Crash x)
        | (w, Inr os) \<Rightarrow> (add_note (Exec_note os) (s\<lparr>lo_no_tool := 0, lo_world := w\<rparr>), Go_on))
     else case claim_guard e limit n t s of Some m \<Rightarrow> (add_note m s, Go_on) | None \<Rightarrow> (s, Done (Answer t)))"

section \<open>A turn with tool calls\<close>

text \<open>A comma before a closing bracket is removed, with the space in between.\<close>

function fix_commas :: "string \<Rightarrow> string" where
  "fix_commas [] = []"
| "fix_commas (c # cs) = (let r = dropWhile is_space cs in
     if c = CHR '','' \<and> r \<noteq> [] \<and> hd r \<in> {CHR ''}'', CHR '']''} then hd r # fix_commas (tl r) else c # fix_commas cs)"
  by pat_completeness auto
termination by (relation "measure length") (auto simp: less_Suc_eq_le intro: le_trans[OF diff_le_self length_dropWhile_le])

definition parse_args :: "('w, 'a) openai_env \<Rightarrow> string \<Rightarrow> string + 'a" where
  "parse_args e raw = (case ae_json e raw of
      Inr a \<Rightarrow> Inr a
    | Inl x \<Rightarrow> if strip raw \<noteq> [] \<and> raw \<noteq> ''{}'' then (case ae_json e (fix_commas raw) of Inr a \<Rightarrow> Inr a | Inl _ \<Rightarrow> Inl x) else Inl x)"

definition run_call :: "('w, 'a) openai_env \<Rightarrow> call \<Rightarrow> 'w openai_loop \<Rightarrow> 'w openai_loop" where
  "run_call e c s = (case parse_args e (ca_args c) of
      Inl x \<Rightarrow> add_msgs [Result (ca_id c) (''Error: Failed to parse tool arguments: '' @ x)] s
    | Inr a \<Rightarrow> (case use_tool e (ca_name c) a s of (s, r) \<Rightarrow> add_msgs [Result (ca_id c) r] s))"

text \<open>The notes are added after all results.\<close>

definition tool_turn :: "('w, 'a) openai_env \<Rightarrow> nat \<Rightarrow> nat \<Rightarrow> call list \<Rightarrow> 'w openai_loop \<Rightarrow> 'w openai_loop" where
  "tool_turn e limit n cs s =
     (case milestone limit n (map ca_name cs) (s\<lparr>lo_no_tool := 0\<rparr>) of (s, ns1) \<Rightarrow>
     (case reminders limit n (s\<lparr>lo_memory := (lo_memory s \<or> list_ex (\<lambda>c. writes_memory (ca_name c) (ca_args c)) cs)\<rparr>) of (s, ns2) \<Rightarrow>
       (let s = fold add_note (ns1 @ ns2) (fold (run_call e) cs s);
            s = (case lo_retry s of None \<Rightarrow> s | Some (t, k) \<Rightarrow> (add_note (Retry_note t k) s)\<lparr>lo_retry := None\<rparr>) in
        s\<lparr>lo_history := cut_history is_result 1 (lo_history s)\<rparr>)))"

section \<open>The loop\<close>

definition add_answer :: "response \<Rightarrow> 'w openai_loop \<Rightarrow> 'w openai_loop" where
  "add_answer r = add_msgs [if rs_calls r = [] then Say ''assistant'' (Plain (rs_content r)) else Calls (rs_content r) (rs_calls r)]"

definition too_long :: "string \<Rightarrow> 'w openai_loop \<Rightarrow> 'w openai_loop \<times> verdict" where
  "too_long t s = (let h = lo_history s in
     (s\<lparr>lo_history := take 1 h @ take_last (max 1 (length h div 4)) h\<rparr>, Done (if strip t \<noteq> [] then Answer (strip t) else Too_long)))"

definition agent_turn :: "('w, 'a) openai_env \<Rightarrow> bool \<Rightarrow> nat \<Rightarrow> nat \<Rightarrow> 'w openai_loop \<Rightarrow> 'w openai_loop \<times> verdict" where
  "agent_turn e qwen limit n s =
     (case choose_tools qwen s of (s, required) \<Rightarrow>
     (case ask e required (s\<lparr>lo_history := trim_to_budget (ae_size e) HISTORY_BYTE_BUDGET (lo_history s)\<rparr>) of
        (s, Inl v) \<Rightarrow> (s, v)
      | (s, Inr r) \<Rightarrow> (let s = add_answer r s in
          if rs_stop r = Some ''length'' then too_long (rs_content r) s
          else if rs_calls r = [] then text_turn e limit n (rs_content r) s
          else (tool_turn e limit n (rs_calls r) s, Go_on))))"

definition run_agent_openai ::
  "('w, 'a) openai_env \<Rightarrow> string \<Rightarrow> string \<Rightarrow> (string \<times> string option) list \<Rightarrow> string \<Rightarrow> nat \<Rightarrow> client \<Rightarrow> 'w \<Rightarrow> 'w openai_loop \<times> (string + answer)" where
  "run_agent_openai e model sys turns user limit c w =
     agent_turns (agent_turn e (is_qwen model) limit) [0..<limit] (new_loop (start_history sys turns user) c w)"

section \<open>Well-formed conversations\<close>

text \<open>
  The provider's typing rule for a conversation: every tool result belongs to a call, and the results of an
  assistant's calls follow it at once, one for each call and in their order.  The first argument holds
  the calls whose results are still to come.
\<close>

fun chat_ok :: "string list \<Rightarrow> chat_msg list \<Rightarrow> bool" where
  "chat_ok p [] = (p = [])"
| "chat_ok [] (Say r t # ms) = (r \<noteq> ''tool'' \<and> chat_ok [] ms)"
| "chat_ok [] (Calls t cs # ms) = chat_ok (map ca_id cs) ms"
| "chat_ok (i # p) (Result j t # ms) = (i = j \<and> chat_ok p ms)"
| "chat_ok _ _ = False"

lemma chat_ok_append: "chat_ok p ms \<Longrightarrow> chat_ok p (ms @ ns) = chat_ok [] ns"
  by (induction p ms rule: chat_ok.induct) auto

lemma chat_ok_strip: "chat_ok p ms \<Longrightarrow> chat_ok [] (dropWhile is_result ms)"
  by (induction p ms rule: chat_ok.induct) auto

lemma chat_ok_drop: "chat_ok p ms \<Longrightarrow> \<exists>q. chat_ok q (drop n ms)"
proof (induction p ms arbitrary: n rule: chat_ok.induct)
  case (2 r t ms)
  then show ?case by (cases n) (auto intro: exI[of _ "[]"])
next
  case (3 t cs ms)
  then show ?case by (cases n) (auto intro: exI[of _ "[]"])
next
  case (4 i p j t ms)
  then show ?case by (cases n) (auto intro: exI[of _ "i # p"])
qed auto

interpretation openai: transcript chat_ok is_result
  by unfold_locales (fact chat_ok_append chat_ok_drop chat_ok_strip)+

definition good :: "string \<Rightarrow> chat_msg list \<Rightarrow> bool" where
  "good sys h = (\<exists>t. h = [Say ''system'' (Plain sys)] @ t \<and> chat_ok [] t)"

lemma good_snoc: "good sys h \<Longrightarrow> good sys (h @ ms) = chat_ok [] ms"
  by (auto simp: good_def chat_ok_append)

lemma keep_last_take: "\<exists>k. keep_last sz rest ms = take k ms"
proof (induction sz rest ms rule: keep_last.induct)
  case (2 sz rest m ms)
  show ?case
  proof (cases "int (sz m) + 1 > rest")
    case True
    then show ?thesis by (intro exI[of _ 0]) simp
  next
    case False
    then obtain k where "keep_last sz (rest - (int (sz m) + 1)) ms = take k ms" using 2 by blast
    then show ?thesis using False by (intro exI[of _ "Suc k"]) simp
  qed
qed simp

lemma kept_tail: "\<exists>k. rev (keep_last sz rest (rev ms)) = drop k ms"
  using keep_last_take[of sz rest "rev ms"] by (metis rev_take rev_rev_ident)

lemma good_trim_to_budget: "good sys h \<Longrightarrow> good sys (trim_to_budget sz b h)"
proof -
  assume "good sys h"
  then obtain t where t: "h = Say ''system'' (Plain sys) # t" "chat_ok [] t" by (auto simp: good_def)
  obtain k where "rev (keep_last sz (int b - int (json_size sz (take 1 h))) (rev t)) = drop k t" using kept_tail by blast
  then have "trim_to_budget sz b h = h \<or> trim_to_budget sz b h = Say ''system'' (Plain sys) # dropWhile is_result (drop k t)"
    by (simp add: trim_to_budget_def t(1))
  then show ?thesis using t openai.valid_tail[OF t(2), of k] by (auto simp: good_def)
qed

lemma good_cut: "good sys h \<Longrightarrow> good sys (cut_history is_result 1 h)"
  using openai.valid_cut[of "[Say ''system'' (Plain sys)]" 1] by (auto simp: good_def)

lemma good_start: "\<forall>(r, c) \<in> set turns. r \<noteq> ''tool'' \<Longrightarrow> good sys (start_history sys turns user)"
proof -
  assume r: "\<forall>(r, c) \<in> set turns. r \<noteq> ''tool''"
  have "chat_ok [] (concat (map (\<lambda>(r, c). case c of None \<Rightarrow> [] | Some t \<Rightarrow> if strip t = [] then [] else [Say r (Plain t)]) turns))"
    using r by (induction turns) (auto split: option.splits)
  then show ?thesis by (simp add: good_def start_history_def chat_ok_append)
qed

section \<open>What a turn does to the conversation\<close>

lemma add_note_frame [simp]: "lo_history (add_note n s) = lo_history s @ [Say ''user'' (Note n)]" "lo_sent (add_note n s) = lo_sent s"
  "lo_no_tool (add_note n s) = lo_no_tool s" "lo_retry (add_note n s) = lo_retry s" "lo_work (add_note n s) = lo_work s"
  by (simp_all add: add_note_def)

lemma add_notes: "lo_history (fold add_note ns s) = lo_history s @ map (\<lambda>n. Say ''user'' (Note n)) ns" "lo_sent (fold add_note ns s) = lo_sent s"
  by (induction ns arbitrary: s) simp_all

lemma chat_ok_notes: "chat_ok [] (map (\<lambda>n. Say ''user'' (Note n)) ns)"
  by (induction ns) simp_all

lemma run_call_frame: "\<exists>r. lo_history (run_call e c s) = lo_history s @ [Result (ca_id c) r]" "lo_sent (run_call e c s) = lo_sent s"
  by (auto simp: run_call_def dest!: use_tool_frame split: sum.splits prod.splits)

lemma run_calls_history: "\<exists>rs. lo_history (fold (run_call e) cs s) = lo_history s @ rs \<and> chat_ok (map ca_id cs) rs"
proof (induction cs arbitrary: s)
  case (Cons c cs)
  obtain r where r: "lo_history (run_call e c s) = lo_history s @ [Result (ca_id c) r]" using run_call_frame by blast
  obtain rs where "lo_history (fold (run_call e) cs (run_call e c s)) = lo_history (run_call e c s) @ rs" "chat_ok (map ca_id cs) rs"
    using Cons.IH by blast
  then show ?case using r by (intro exI[of _ "Result (ca_id c) r # rs"]) simp
qed simp

lemma run_calls_sent [simp]: "lo_sent (fold (run_call e) cs s) = lo_sent s"
  by (induction cs arbitrary: s) (simp_all add: run_call_frame)

lemma tool_turn_good:
  assumes "good sys h" "lo_history s = h @ [Calls t cs]"
  shows "good sys (lo_history (tool_turn e limit n cs s))" "lo_sent (tool_turn e limit n cs s) = lo_sent s"
proof -
  obtain s1 ns1 where m: "milestone limit n (map ca_name cs) (s\<lparr>lo_no_tool := 0\<rparr>) = (s1, ns1)" by fastforce
  let ?s1 = "s1\<lparr>lo_memory := lo_memory s1 \<or> list_ex (\<lambda>c. writes_memory (ca_name c) (ca_args c)) cs\<rparr>"
  obtain s2 ns2 where r: "reminders limit n ?s1 = (s2, ns2)" by fastforce
  have h2: "lo_history s2 = h @ [Calls t cs]" "lo_sent s2 = lo_sent s"
    using milestone_frame[OF m] reminders_frame[OF r] assms(2) by simp_all
  obtain rs where rs: "lo_history (fold (run_call e) cs s2) = lo_history s2 @ rs" "chat_ok (map ca_id cs) rs" using run_calls_history by blast
  let ?s3 = "fold add_note (ns1 @ ns2) (fold (run_call e) cs s2)"
  let ?s4 = "case lo_retry ?s3 of None \<Rightarrow> ?s3 | Some (x, k) \<Rightarrow> (add_note (Retry_note x k) ?s3)\<lparr>lo_retry := None\<rparr>"
  have g3: "good sys (lo_history ?s3)"
    using assms(1) rs(2) by (simp only: add_notes rs(1) h2 append_assoc good_snoc append_Cons append_Nil chat_ok.simps chat_ok_append chat_ok_notes)
  have g4: "good sys (lo_history ?s4)" using g3 by (auto simp: good_snoc split: option.splits prod.splits)
  have e: "tool_turn e limit n cs s = ?s4\<lparr>lo_history := cut_history is_result 1 (lo_history ?s4)\<rparr>"
    unfolding tool_turn_def m prod.case r Let_def ..
  show "good sys (lo_history (tool_turn e limit n cs s))" unfolding e using good_cut[OF g4] by simp
  show "lo_sent (tool_turn e limit n cs s) = lo_sent s" unfolding e using h2(2) by (auto simp: add_notes split: option.splits prod.splits)
qed

lemma text_turn_good:
  assumes "good sys (lo_history s)" "text_turn e limit n t s = (s', v)"
  shows "good sys (lo_history s')" "lo_sent s' = lo_sent s"
  using assms by (auto simp: text_turn_def Let_def good_snoc split: if_splits prod.splits sum.splits option.splits)

section \<open>Every request is well formed\<close>

text \<open>What holds of every request: it is the cut of a well-formed conversation.\<close>

definition from_good :: "(chat_msg \<Rightarrow> nat) \<Rightarrow> string \<Rightarrow> request \<Rightarrow> bool" where
  "from_good sz sys q = (\<exists>h. good sys h \<and> rq_history q = trim_to_budget sz HISTORY_BYTE_BUDGET h)"

lemma request_model_frame:
  assumes "request_model e st rq s = (s', r)"
  shows "lo_history s' = lo_history s \<and> lo_sent s' = lo_sent s @ [\<lparr>rq_history = lo_history s, rq_stream = st, rq_required = rq\<rparr>]
    \<and> lo_no_tool s' = lo_no_tool s \<and> lo_work s' = lo_work s"
  using call_model_frame[OF assms[unfolded request_model_def Let_def]] .

text \<open>Asking sends up to three requests with the same conversation, and changes nothing else.\<close>

lemma ask_frame:
  assumes "ask e rq s = (s', r)"
  shows "lo_history s' = lo_history s \<and> lo_no_tool s' = lo_no_tool s \<and> lo_work s' = lo_work s
    \<and> (\<exists>qs. lo_sent s' = lo_sent s @ qs \<and> 1 \<le> length qs \<and> length qs \<le> 3 \<and> (\<forall>q \<in> set qs. rq_history q = lo_history s))
    \<and> r \<noteq> Inl Go_on \<and> r \<noteq> Inl (Done No_tools) \<and> (\<forall>t. r \<noteq> Inl (Done (Answer t)))"
  using assms
  by (auto simp: ask_def dest!: request_model_frame split: prod.splits sum.splits if_splits)

lemma choose_tools_good:
  assumes "good sys (lo_history s)" "choose_tools qwen s = (s', rq)"
  shows "good sys (lo_history s')" "lo_sent s' = lo_sent s"
  using assms by (auto simp: choose_tools_def good_snoc split: if_splits)

lemma add_answer_frame [simp]: "lo_sent (add_answer r s) = lo_sent s" "lo_no_tool (add_answer r s) = lo_no_tool s" "lo_work (add_answer r s) = lo_work s"
  by (simp_all add: add_answer_def)

lemma text_turn_no_tools: "text_turn e limit n t s = (s', Done No_tools) \<Longrightarrow> 2 \<le> lo_no_tool s"
  by (auto simp: text_turn_def Let_def split: if_splits prod.splits sum.splits option.splits)

lemma agent_turn_spec:
  assumes "good sys (lo_history s)" "agent_turn e qwen limit n s = (s', v)"
  shows "(v = Go_on \<longrightarrow> good sys (lo_history s'))
    \<and> (\<exists>qs. lo_sent s' = lo_sent s @ qs \<and> 1 \<le> length qs \<and> length qs \<le> 3 \<and> (\<forall>q \<in> set qs. rq_history q = trim_to_budget (ae_size e) HISTORY_BYTE_BUDGET (lo_history (fst (choose_tools qwen s)))))"
proof -
  obtain s1 rq where c: "choose_tools qwen s = (s1, rq)" by fastforce
  note g = choose_tools_good[OF assms(1) c]
  let ?s1 = "s1\<lparr>lo_history := trim_to_budget (ae_size e) HISTORY_BYTE_BUDGET (lo_history s1)\<rparr>"
  have gt: "good sys (lo_history ?s1)" using good_trim_to_budget[OF g(1)] by simp
  obtain s2 r where a: "ask e rq ?s1 = (s2, r)" by fastforce
  note f = ask_frame[OF a]
  from f obtain qs where q: "lo_sent s2 = lo_sent s @ qs" "1 \<le> length qs" "length qs \<le> 3"
    "\<forall>q \<in> set qs. rq_history q = trim_to_budget (ae_size e) HISTORY_BYTE_BUDGET (lo_history s1)" using g(2) by auto
  have ok: "\<forall>q \<in> set qs. rq_history q = trim_to_budget (ae_size e) HISTORY_BYTE_BUDGET (lo_history (fst (choose_tools qwen s)))" using q(4) by (simp add: c)
  have h2: "lo_history s2 = lo_history ?s1" "lo_no_tool s2 = lo_no_tool s1" using f by simp_all
  show ?thesis
  proof (cases r)
    case (Inl x)
    then have "s' = s2" "v = x" using assms(2) by (simp_all add: agent_turn_def c a)
    then show ?thesis using f Inl q ok by auto
  next
    case (Inr m)
    let ?s3 = "add_answer m s2"
    have turn: "(s', v) = (if rs_stop m = Some ''length'' then too_long (rs_content m) ?s3
        else if rs_calls m = [] then text_turn e limit n (rs_content m) ?s3 else (tool_turn e limit n (rs_calls m) ?s3, Go_on))"
      using assms(2) by (simp add: agent_turn_def c a Inr Let_def)
    have s3: "lo_history ?s3 = lo_history s2 @ [if rs_calls m = [] then Say ''assistant'' (Plain (rs_content m)) else Calls (rs_content m) (rs_calls m)]"
      by (simp add: add_answer_def)
    consider "rs_stop m = Some ''length''" | "rs_stop m \<noteq> Some ''length''" "rs_calls m = []" | "rs_stop m \<noteq> Some ''length''" "rs_calls m \<noteq> []" by blast
    then show ?thesis
    proof cases
      case 1
      then have "s' = fst (too_long (rs_content m) ?s3)" "v = snd (too_long (rs_content m) ?s3)" using turn by (simp_all add: prod_eq_iff)
      then show ?thesis using q ok by (auto simp: too_long_def Let_def)
    next
      case 2
      then have t: "text_turn e limit n (rs_content m) ?s3 = (s', v)" using turn by simp
      have "good sys (lo_history ?s3)" using gt 2(2) by (simp add: s3 h2 good_snoc)
      note tt = text_turn_good[OF this t]
      then show ?thesis using tt q ok by auto
    next
      case 3
      then have t: "s' = tool_turn e limit n (rs_calls m) ?s3" "v = Go_on" using turn by simp_all
      have "lo_history ?s3 = lo_history ?s1 @ [Calls (rs_content m) (rs_calls m)]" using 3(2) by (simp add: s3 h2)
      note tt = tool_turn_good[OF gt this, of e limit n]
      show ?thesis using tt q ok t by auto
    qed
  qed
qed

lemma from_good_turn: "good sys (lo_history s) \<Longrightarrow> rq_history q = trim_to_budget sz HISTORY_BYTE_BUDGET (lo_history (fst (choose_tools qwen s))) \<Longrightarrow> from_good sz sys q"
  using choose_tools_good(1)[of sys s qwen] by (cases "choose_tools qwen s") (auto simp: from_good_def)

lemma agent_turn_invariant:
  assumes "good sys (lo_history s)" "agent_turn e qwen limit n s = (s', v)"
  shows "(v = Go_on \<longrightarrow> good sys (lo_history s')) \<and> (\<exists>qs. lo_sent s' = lo_sent s @ qs \<and> length qs \<le> 3 \<and> (\<forall>q \<in> set qs. from_good (ae_size e) sys q))"
  using agent_turn_spec[OF assms] from_good_turn[OF assms(1), where sz = "ae_size e"] by blast

lemma turns_sent:
  assumes "good sys (lo_history s)" "agent_turns (agent_turn e qwen limit) ns s = (s', r)"
  shows "\<exists>qs. lo_sent s' = lo_sent s @ qs \<and> length qs \<le> 3 * length ns \<and> (\<forall>q \<in> set qs. from_good (ae_size e) sys q)"
  by (rule agent_turns_invariant[where I = "\<lambda>s. good sys (lo_history s)", OF agent_turn_invariant assms])

lemma run_sent:
  assumes "\<forall>(r, c) \<in> set turns. r \<noteq> ''tool''" "run_agent_openai e model sys turns user limit c w = (s, r)"
  shows "\<forall>q \<in> set (lo_sent s). from_good (ae_size e) sys q" "length (lo_sent s) \<le> 3 * limit"
    "0 < limit \<Longrightarrow> lo_sent s \<noteq> [] \<and> rq_history (hd (lo_sent s)) = trim_to_budget (ae_size e) HISTORY_BYTE_BUDGET (start_history sys turns user)"
proof -
  let ?s0 = "new_loop (start_history sys turns user) c w" and ?turn = "agent_turn e (is_qwen model) limit"
  note t = assms(2)[unfolded run_agent_openai_def]
  have g: "good sys (lo_history ?s0)" using good_start[OF assms(1)] by (simp add: new_loop_def)
  from turns_sent[OF g t] show "\<forall>q \<in> set (lo_sent s). from_good (ae_size e) sys q" "length (lo_sent s) \<le> 3 * limit"
    by (auto simp: new_loop_def)
  assume "0 < limit"
  then have up: "[0..<limit] = 0 # [1..<limit]" by (simp add: upt_rec)
  obtain s1 v where t1: "?turn 0 ?s0 = (s1, v)" by fastforce
  have f: "fst (choose_tools q ?s0) = ?s0" for q by (simp add: choose_tools_def new_loop_def)
  from agent_turn_spec[OF g t1] obtain qs where q: "lo_sent s1 = qs" "1 \<le> length qs"
    "\<forall>q \<in> set qs. rq_history q = trim_to_budget (ae_size e) HISTORY_BYTE_BUDGET (start_history sys turns user)" "v = Go_on \<Longrightarrow> good sys (lo_history s1)"
    unfolding f by (auto simp: new_loop_def)
  have "\<exists>ps. lo_sent s = qs @ ps"
  proof (cases v)
    case Go_on
    then have "agent_turns ?turn [1..<limit] s1 = (s, r)" using t t1 by (simp add: up)
    from turns_sent[OF q(4)[OF Go_on] this] show ?thesis using q(1) by auto
  qed (use t t1 q(1) in \<open>auto simp: up\<close>)
  then show "lo_sent s \<noteq> [] \<and> rq_history (hd (lo_sent s)) = trim_to_budget (ae_size e) HISTORY_BYTE_BUDGET (start_history sys turns user)"
    using q(2,3) by (cases qs) auto
qed

text \<open>
  C29: Every request to the model is a conversation its interface accepts: the system instruction first, and the
  results of an assistant's calls directly behind it, one for each call and in order.  That holds over any
  number of turns, whatever the model, the tools and the parser answer, and although both cuts of the
  history drop messages at any place.
\<close>

theorem requests_well_typed:
  assumes "\<forall>(r, c) \<in> set turns. r \<noteq> ''tool''" "run_agent_openai e model sys turns user limit cl w = (s, res)" "q \<in> set (lo_sent s)"
  shows "\<exists>t. rq_history q = Say ''system'' (Plain sys) # t \<and> chat_ok [] t"
  using run_sent(1)[OF assms(1,2)] assms(3) good_trim_to_budget by (fastforce simp: from_good_def good_def)

text \<open>A provider without streaming, and a model that calls a tool once.\<close>

definition demo_agent :: "(unit, unit) openai_env" where
  "demo_agent = \<lparr>te_tool = (\<lambda>t a w. (w, Inr ''a b'')), te_str = (\<lambda>_. []), te_hash = (\<lambda>_. 0), te_cross = (\<lambda>_. False), te_tick = (\<lambda>_. False),
     te_fake = (\<lambda>_. False), te_claim = (\<lambda>_. False), ae_stream = (\<lambda>k q w. (w, Inl ''no stream'')),
     ae_whole = (\<lambda>k q w. (w, Inr (if length (rq_history q) \<le> 2
        then \<lparr>rs_content = [], rs_calls = [\<lparr>ca_id = ''c1'', ca_name = ''Bash'', ca_args = ''{}''\<rparr>], rs_stop = Some ''tool_calls''\<rparr>
        else \<lparr>rs_content = ''two files'', rs_calls = [], rs_stop = Some ''stop''\<rparr>))),
     ae_json = (\<lambda>_. Inr ()), ae_bash = (\<lambda>c w. (w, Inr [])), ae_blocks = (\<lambda>_. []), ae_git_line = (\<lambda>_. False), ae_bare = (\<lambda>_. False),
     ae_size = (\<lambda>_. 10)\<rparr>"

definition demo_client :: client where "demo_client = \<lparr>cl_key = ''k'', cl_pool = None\<rparr>"

lemma demo_strings: "\<not> is_retryable ''no stream''" "\<not> is_qwen ''gpt''" "\<not> has_sub ''MEMORY.md'' ''{}''" "strip ''two files'' = ''two files''"
  by code_simp+

lemma demo_agent_run:
  "(case run_agent_openai demo_agent ''gpt'' ''sys'' [] ''list'' 3 demo_client () of (s, r) \<Rightarrow>
     r = Inr (Answer ''two files'') \<and> rq_history (lo_sent s ! 3)
       = [Say ''system'' (Plain ''sys''), Say ''user'' (Plain ''list''), Calls [] [\<lparr>ca_id = ''c1'', ca_name = ''Bash'', ca_args = ''{}''\<rparr>], Result ''c1'' ''a b''] \<and> length (lo_sent s) = 4)"
  using demo_strings
  by (simp add: run_agent_openai_def new_loop_def start_history_def upt_rec agent_turn_def choose_tools_def ask_def request_model_def
       Let_def MAX_ATTEMPTS_def numeral_3_eq_3 demo_agent_def demo_client_def trim_to_budget_def json_size_def HISTORY_BYTE_BUDGET_def
       add_answer_def too_long_def text_turn_def runnable_def tool_turn_def milestone_def reminders_def SEND_MESSAGE_def SUBSTANTIVE_TOOLS_def
       writes_memory_def run_call_def parse_args_def use_tool_def run_tool_def cut_result_def count_fail_def MAX_TOOL_RESULT_CHARS_def cut_history_def MAX_HISTORY_MESSAGES_def
       call_model_def add_msgs_def claim_guard_def final_answer_def)

theorem requests_well_typed_witness:
  "\<exists>t. rq_history (lo_sent (fst (run_agent_openai demo_agent ''gpt'' ''sys'' [] ''list'' 3 demo_client ())) ! 3) = Say ''system'' (Plain ''sys'') # t \<and> chat_ok [] t"
proof -
  obtain s r where s: "run_agent_openai demo_agent ''gpt'' ''sys'' [] ''list'' 3 demo_client () = (s, r)" by fastforce
  then have "length (lo_sent s) = 4" using demo_agent_run by simp
  then have "lo_sent s ! 3 \<in> set (lo_sent s)" by (intro nth_mem) simp
  from requests_well_typed[OF _ s this] show ?thesis by (simp add: s)
qed

section \<open>Requests are bounded, and may not hold the question\<close>

lemma sum_size: "sum_list (map (\<lambda>m. Suc (sz m)) ms) = sum_list (map sz ms) + length ms"
  by (induction ms) simp_all

lemma keep_last_size: "keep_last sz rest ms = [] \<or> int (sum_list (map (\<lambda>m. Suc (sz m)) (keep_last sz rest ms))) \<le> rest"
proof (induction sz rest ms rule: keep_last.induct)
  case (2 sz rest m ms)
  then show ?case by (cases "keep_last sz (rest - (int (sz m) + 1)) ms = []") auto
qed simp

lemma sum_dropWhile: "sum_list (map f (dropWhile P ms)) \<le> (sum_list (map f ms) :: nat)"
  by (induction ms) auto

lemma trim_size:
  assumes "h = Say ''system'' (Plain sys) # t"
  shows "json_size sz (trim_to_budget sz b h) \<le> b + length (trim_to_budget sz b h) \<or> trim_to_budget sz b h = [Say ''system'' (Plain sys)]"
proof (cases "json_size sz h \<le> b")
  case True
  then show ?thesis by (simp add: trim_to_budget_def)
next
  case False
  let ?rest = "int b - int (json_size sz [hd h])"
  let ?k = "keep_last sz ?rest (rev t)"
  let ?d = "dropWhile is_result (rev ?k)"
  have e: "trim_to_budget sz b h = hd h # ?d" using False assms by (simp add: trim_to_budget_def)
  show ?thesis
  proof (cases "?k = []")
    case True
    then show ?thesis using e assms by simp
  next
    case False
    then have k: "int (sum_list (map (\<lambda>m. Suc (sz m)) ?k)) \<le> ?rest" using keep_last_size by blast
    have "sum_list (map (\<lambda>m. Suc (sz m)) ?d) \<le> sum_list (map (\<lambda>m. Suc (sz m)) (rev ?k))" by (rule sum_dropWhile)
    also have "\<dots> = sum_list (map (\<lambda>m. Suc (sz m)) ?k)" by (metis rev_map sum_list_rev)
    finally have "int (sum_list (map sz ?d) + length ?d) \<le> ?rest" using k by (simp only: sum_size)
    moreover have "json_size sz (hd h # ?d) = json_size sz [hd h] + (sum_list (map sz ?d) + 2 * length ?d)" by (simp add: json_size_def)
    ultimately show ?thesis unfolding e by (simp add: assms)
  qed
qed

lemma question_cut:
  assumes "b \<le> json_size sz [Say ''system'' (Plain sys)] + sz (Say ''user'' (Plain user))"
  shows "trim_to_budget sz b (start_history sys turns user) = [Say ''system'' (Plain sys)]"
proof -
  let ?q = "Say ''user'' (Plain user)"
  obtain xs where h: "start_history sys turns user = Say ''system'' (Plain sys) # xs @ [?q]" by (simp add: start_history_def)
  have "json_size sz (Say ''system'' (Plain sys) # xs @ [?q]) > b" using assms by (simp add: json_size_def)
  then show ?thesis using assms by (simp add: h trim_to_budget_def)
qed

text \<open>
  A run of at most \<open>limit\<close> turns sends at most three requests per turn, and each is at most one byte per
  message over the budget of 64 KB, or nothing but the system instruction.  The question is not spared:
  when it is too large on its own, the model gets a request without it, and the earlier conversation.
\<close>

theorem requests_bounded:
  assumes "\<forall>(r, c) \<in> set turns. r \<noteq> ''tool''" "run_agent_openai e model sys turns user limit cl w = (s, res)"
  shows "length (lo_sent s) \<le> 3 * limit
    \<and> (\<forall>q \<in> set (lo_sent s). json_size (ae_size e) (rq_history q) \<le> HISTORY_BYTE_BUDGET + length (rq_history q)
          \<or> rq_history q = [Say ''system'' (Plain sys)])
    \<and> (0 < limit \<longrightarrow> HISTORY_BYTE_BUDGET \<le> json_size (ae_size e) [Say ''system'' (Plain sys)] + ae_size e (Say ''user'' (Plain user)) \<longrightarrow>
          rq_history (hd (lo_sent s)) = [Say ''system'' (Plain sys)])"
  using run_sent[OF assms] trim_size question_cut by (fastforce simp: from_good_def good_def)

text \<open>A question of 70000 characters.\<close>

theorem requests_bounded_witness:
  "rq_history (hd (lo_sent (fst (run_agent_openai (demo_agent\<lparr>ae_size := \<lambda>_. 70000\<rparr>) ''gpt'' ''sys'' [] ''list'' 3 demo_client ())))) = [Say ''system'' (Plain ''sys'')]"
proof -
  obtain s r where s: "run_agent_openai (demo_agent\<lparr>ae_size := \<lambda>_. 70000\<rparr>) ''gpt'' ''sys'' [] ''list'' 3 demo_client () = (s, r)" by fastforce
  have "HISTORY_BYTE_BUDGET \<le> json_size (\<lambda>_. 70000) [Say ''system'' (Plain ''sys'')] + 70000" by (simp add: HISTORY_BYTE_BUDGET_def)
  then show ?thesis using requests_bounded[OF _ s] by (simp add: s)
qed

section \<open>Giving up\<close>

text \<open>
  A Qwen model is never given up for its refusal to call tools: the counter is set back before the turn in
  which it would reach three.
\<close>

lemma qwen_turn: "agent_turn e True limit n s = (s', v) \<Longrightarrow> v \<noteq> Done No_tools"
proof -
  assume turn: "agent_turn e True limit n s = (s', v)"
  obtain s1 rq where c: "choose_tools True s = (s1, rq)" by fastforce
  then have le: "lo_no_tool s1 \<le> 1" by (auto simp: choose_tools_def split: if_splits)
  obtain s2 r where a: "ask e rq (s1\<lparr>lo_history := trim_to_budget (ae_size e) HISTORY_BYTE_BUDGET (lo_history s1)\<rparr>) = (s2, r)" by fastforce
  note f = ask_frame[OF a]
  show "v \<noteq> Done No_tools"
    using turn f le text_turn_no_tools[of e limit n _ "add_answer _ s2" s']
    by (auto simp: agent_turn_def c a too_long_def Let_def split: sum.splits if_splits)
qed

theorem qwen_never_given_up:
  assumes "run_agent_openai e model sys turns user limit cl w = (s, res)" "is_qwen model"
  shows "res \<noteq> Inr No_tools"
  by (rule agent_turns_answer[OF _ assms(1)[unfolded run_agent_openai_def]]) (use assms(2) in \<open>auto dest: qwen_turn\<close>)

text \<open>A text without code blocks is the answer once a tool has done work, and in the last turn; before, a claim is refused.\<close>

theorem text_is_answer:
  assumes "text_turn e limit n t s = (s', v)" "runnable e t = []" "strip t \<noteq> []"
  shows "if lo_no_tool s < 2 \<and> lo_work s = 0 \<and> Suc n < limit \<and> (te_fake e t \<or> te_claim e t) then v = Go_on
    else v \<in> {Done (Answer t), Done (Answer (strip t))}"
  using assms by (auto simp: text_turn_def claim_guard_def Let_def split: if_splits)

end
