(* ===== verification/AgentClaude.thy ===== *)
theory AgentClaude
  imports AgentTurn
begin

text \<open>
  The agent's loop over Claude, \<open>run_agent_claude\<close> of \<open>container/agent-runner/_loop_claude.py\<close>.  An answer is a
  list of blocks with the reason it ended; results of tools go back in one message.  The model is the
  argument \<open>ce_model\<close>, with the key in use.
\<close>

section \<open>Conversations\<close>

datatype 'a block = Text_block "string option" | Use_block string string 'a | Other_block

datatype 'a claude_msg =
    C_said string said
  | C_blocks "'a block list"
  | C_results "(string \<times> string) list"

fun is_tool_results :: "'a claude_msg \<Rightarrow> bool" where
  "is_tool_results (C_results rs) = (rs \<noteq> [])"
| "is_tool_results _ = False"

record ('w, 'a) claude_env = "('w, 'a) tool_env" +
  ce_model :: "string \<Rightarrow> 'a claude_msg list \<Rightarrow> 'w \<Rightarrow> 'w \<times> (string + 'a block list \<times> string)"

type_synonym ('w, 'a) claude_loop = "('w, 'a claude_msg, 'a claude_msg list) agent_loop"

definition claude_start :: "(string \<times> string option) list \<Rightarrow> string \<Rightarrow> 'a claude_msg list" where
  "claude_start turns user =
     concat (map (\<lambda>(r, c). case c of None \<Rightarrow> [] | Some t \<Rightarrow> if strip t = [] then [] else [C_said r (Plain t)]) turns)
     @ [C_said ''user'' (Plain user)]"

definition uses_of :: "'a block list \<Rightarrow> (string \<times> string \<times> 'a) list" where
  "uses_of bs = concat (map (\<lambda>b. case b of Use_block i n a \<Rightarrow> [(i, n, a)] | _ \<Rightarrow> []) bs)"

definition text_of_blocks :: "'a block list \<Rightarrow> string" where
  "text_of_blocks bs = join '' '' (concat (map (\<lambda>b. case b of Text_block (Some t) \<Rightarrow> [t] | _ \<Rightarrow> []) bs))"

section \<open>A turn\<close>

text \<open>Tools that a cut-off answer asked for are run, but not counted.\<close>

fun run_pending :: "('w, 'a) claude_env \<Rightarrow> (string \<times> string \<times> 'a) list \<Rightarrow> 'w \<Rightarrow> 'w \<times> (string \<times> string) list" where
  "run_pending e [] w = (w, [])"
| "run_pending e ((i, n, a) # us) w = (case run_tool e n a w of (w, r) \<Rightarrow> (case run_pending e us w of (w, rs) \<Rightarrow> (w, (i, r) # rs)))"

fun run_uses :: "('w, 'a) claude_env \<Rightarrow> (string \<times> string \<times> 'a) list \<Rightarrow> ('w, 'a) claude_loop \<Rightarrow> ('w, 'a) claude_loop \<times> (string \<times> string) list" where
  "run_uses e [] s = (s, [])"
| "run_uses e ((i, n, a) # us) s = (case use_tool e n a s of (s, r) \<Rightarrow>
     (case run_uses e us (s\<lparr>lo_memory := (lo_memory s \<or> writes_memory n (te_str e a))\<rparr>) of (s, rs) \<Rightarrow> (s, (i, r) # rs)))"

definition user_notes :: "loop_note list \<Rightarrow> 'a claude_msg list" where
  "user_notes ns = map (\<lambda>n. C_said ''user'' (Note n)) ns"

text \<open>The results, the note of the milestones, the warning about failures; then the cut, then the reminders.\<close>

definition uses_turn :: "('w, 'a) claude_env \<Rightarrow> nat \<Rightarrow> nat \<Rightarrow> (string \<times> string \<times> 'a) list \<Rightarrow> ('w, 'a) claude_loop \<Rightarrow> ('w, 'a) claude_loop \<times> verdict" where
  "uses_turn e limit n us s = (case run_uses e us s of (s, rs) \<Rightarrow>
     if rs = [] then (s, Done (Answer []))
     else case milestone limit n (map (\<lambda>(i, t, a). t) us) s of (s, ns) \<Rightarrow>
       (let s = add_msgs (C_results rs # user_notes ns) s;
            s = (case lo_retry s of None \<Rightarrow> s | Some (t, k) \<Rightarrow> (add_msgs (user_notes [Retry_note t k]) s)\<lparr>lo_retry := None\<rparr>);
            s = s\<lparr>lo_history := cut_history is_tool_results 1 (lo_history s)\<rparr> in
        case reminders limit n s of (s, ns) \<Rightarrow> (add_msgs (user_notes ns) s, Go_on)))"

definition claude_turn :: "('w, 'a) claude_env \<Rightarrow> nat \<Rightarrow> nat \<Rightarrow> ('w, 'a) claude_loop \<Rightarrow> ('w, 'a) claude_loop \<times> verdict" where
  "claude_turn e limit n s = (case call_model (\<lambda>k. ce_model e k (lo_history s)) (lo_history s) s of
      (s, Inl x) \<Rightarrow> (s, Crash x)
    | (s, Inr (bs, stop)) \<Rightarrow> (let s = add_msgs [C_blocks bs] s; t = text_of_blocks bs in
        if stop = ''end_turn'' then
          (case claim_guard e limit n t s of Some m \<Rightarrow> (add_msgs (user_notes [m]) s, Go_on) | None \<Rightarrow> (s, Done (Answer t)))
        else if stop \<noteq> ''tool_use'' then
          (if uses_of bs \<noteq> [] \<and> stop = ''max_tokens''
           then (case run_pending e (uses_of bs) (lo_world s) of (w, rs) \<Rightarrow> (add_msgs [C_results rs] (s\<lparr>lo_world := w\<rparr>), Done (Answer t)))
           else (s, Done (Answer t)))
        else uses_turn e limit n (uses_of bs) s))"

definition run_agent_claude ::
  "('w, 'a) claude_env \<Rightarrow> (string \<times> string option) list \<Rightarrow> string \<Rightarrow> nat \<Rightarrow> client \<Rightarrow> 'w \<Rightarrow> ('w, 'a) claude_loop \<times> (string + answer)" where
  "run_agent_claude e turns user limit c w = agent_turns (claude_turn e limit) [0..<limit] (new_loop (claude_start turns user) c w)"

section \<open>Well-formed conversations\<close>

text \<open>
  The provider's rule: a message with uses of tools is followed at once by one message with their results,
  in order.  The first argument holds the uses whose results are due.
\<close>

fun claude_ok :: "string list \<Rightarrow> 'a claude_msg list \<Rightarrow> bool" where
  "claude_ok p [] = (p = [])"
| "claude_ok [] (C_said r t # ms) = claude_ok [] ms"
| "claude_ok [] (C_blocks bs # ms) = claude_ok (map fst (uses_of bs)) ms"
| "claude_ok (i # p) (C_results rs # ms) = (map fst rs = i # p \<and> claude_ok [] ms)"
| "claude_ok _ _ = False"

lemma claude_ok_append: "claude_ok p ms \<Longrightarrow> claude_ok p (ms @ ns) = claude_ok [] ns"
  by (induction p ms rule: claude_ok.induct) auto

lemma claude_ok_strip: "claude_ok p ms \<Longrightarrow> claude_ok [] (dropWhile is_tool_results ms)"
  by (induction p ms rule: claude_ok.induct) auto

lemma claude_ok_drop: "claude_ok p ms \<Longrightarrow> \<exists>q. claude_ok q (drop n ms)"
proof (induction p ms arbitrary: n rule: claude_ok.induct)
  case (2 r t ms)
  then show ?case by (cases n) (auto intro: exI[of _ "[]"])
next
  case (3 bs ms)
  then show ?case by (cases n) (auto intro: exI[of _ "[]"])
next
  case (4 i p rs ms)
  then show ?case by (cases n) (auto intro: exI[of _ "i # p"])
qed auto

interpretation claude: transcript claude_ok is_tool_results
  by unfold_locales (fact claude_ok_append claude_ok_drop claude_ok_strip)+

definition claude_good :: "'a claude_msg \<Rightarrow> 'a claude_msg list \<Rightarrow> bool" where
  "claude_good m h = (\<exists>t. h = [m] @ t \<and> claude_ok [] t)"

lemma claude_good_snoc: "claude_good m h \<Longrightarrow> claude_good m (h @ ms) = claude_ok [] ms"
  by (auto simp: claude_good_def claude_ok_append)

lemma claude_good_cut: "claude_good m h \<Longrightarrow> claude_good m (cut_history is_tool_results 1 h)"
  using claude.valid_cut[of "[m]" 1] by (auto simp: claude_good_def)

lemma claude_good_start: "claude_good (hd (claude_start turns user)) (claude_start turns user :: 'a claude_msg list)"
proof -
  let ?c = "concat (map (\<lambda>(r, c). case c of None \<Rightarrow> [] | Some t \<Rightarrow> if strip t = [] then [] else [C_said r (Plain t)]) turns) :: 'a claude_msg list"
  have "list_all (\<lambda>m. \<exists>r t. m = C_said r t) ?c" by (induction turns) (auto split: option.splits)
  then have all: "list_all (\<lambda>m. \<exists>r t. m = C_said r t) (claude_start turns user :: 'a claude_msg list)" by (simp add: claude_start_def)
  have "list_all (\<lambda>m. \<exists>r t. m = C_said r t) ms \<Longrightarrow> claude_ok [] ms" for ms :: "'a claude_msg list" by (induction ms) auto
  moreover have "claude_start turns user \<noteq> ([] :: 'a claude_msg list)" by (simp add: claude_start_def)
  then obtain m ms where "claude_start turns user = (m :: 'a claude_msg) # ms" by (meson neq_Nil_conv)
  ultimately show ?thesis using all by (simp add: claude_good_def)
qed

lemma claude_ok_notes: "claude_ok [] (user_notes ns)"
  by (induction ns) (simp_all add: user_notes_def)

lemma run_pending_ids: "run_pending e us w = (w', rs) \<Longrightarrow> map fst rs = map fst us"
  by (induction us arbitrary: w w' rs) (auto split: prod.splits)

lemma run_uses_frame: "run_uses e us s = (s', rs) \<Longrightarrow> map fst rs = map fst us \<and> lo_history s' = lo_history s \<and> lo_sent s' = lo_sent s"
proof (induction us arbitrary: s s' rs)
  case (Cons u us)
  obtain i n a where u: "u = (i, n, a)" by (cases u)
  obtain s1 r where t: "use_tool e n a s = (s1, r)" by fastforce
  obtain s2 rs2 where r: "run_uses e us (s1\<lparr>lo_memory := (lo_memory s1 \<or> writes_memory n (te_str e a))\<rparr>) = (s2, rs2)" by fastforce
  show ?case using Cons.prems Cons.IH[OF r] use_tool_frame[OF t] by (auto simp: u t r)
qed simp

lemma uses_turn_good:
  assumes "claude_good m h" "lo_history s = h @ [C_blocks bs]" "uses_turn e limit n (uses_of bs) s = (s', v)"
  shows "(v = Go_on \<longrightarrow> claude_good m (lo_history s')) \<and> lo_sent s' = lo_sent s"
proof -
  obtain s1 rs where u: "run_uses e (uses_of bs) s = (s1, rs)" by fastforce
  note f = run_uses_frame[OF u]
  obtain s2 ns where m: "milestone limit n (map (\<lambda>(i, t, a). t) (uses_of bs)) s1 = (s2, ns)" by fastforce
  let ?s3 = "add_msgs (C_results rs # user_notes ns) s2"
  let ?s4 = "case lo_retry ?s3 of None \<Rightarrow> ?s3 | Some (t, k) \<Rightarrow> (add_msgs (user_notes [Retry_note t k]) ?s3)\<lparr>lo_retry := None\<rparr>"
  let ?s5 = "?s4\<lparr>lo_history := cut_history is_tool_results 1 (lo_history ?s4)\<rparr>"
  obtain s6 ns6 where r: "reminders limit n ?s5 = (s6, ns6)" by fastforce
  have e: "(s', v) = (if rs = [] then (s1, Done (Answer [])) else (add_msgs (user_notes ns6) s6, Go_on))"
    using assms(3) unfolding uses_turn_def u prod.case m Let_def r by simp
  have h3: "lo_history ?s3 = h @ C_blocks bs # C_results rs # user_notes ns" "lo_sent ?s3 = lo_sent s"
    using milestone_frame[OF m] f assms(2) by simp_all
  have sent: "lo_sent ?s4 = lo_sent s" using h3(2) by (auto split: option.splits prod.splits)
  have "claude_good m (lo_history ?s3)" if ne: "rs \<noteq> []"
  proof -
    obtain i p where p: "map fst rs = i # p" using ne by (cases rs) auto
    moreover have "map fst (uses_of bs) = i # p" using f[THEN conjunct1] unfolding p ..
    ultimately have "claude_ok [] (C_blocks bs # C_results rs # user_notes ns)" by (simp only: claude_ok.simps claude_ok_notes simp_thms)
    then show ?thesis unfolding h3 claude_good_snoc[OF assms(1)] .
  qed
  moreover have "\<exists>ns4. lo_history ?s4 = lo_history ?s3 @ user_notes ns4"
    by (cases "lo_retry ?s3") (auto simp: user_notes_def intro: exI[of _ "[]"] exI[of _ "[_]"] split: prod.splits)
  ultimately have "claude_good m (lo_history ?s4)" if "rs \<noteq> []" using that claude_good_snoc claude_ok_notes by metis
  then have "claude_good m (lo_history ?s5)" if "rs \<noteq> []" using that claude_good_cut by simp
  then have g: "claude_good m (lo_history s6)" if "rs \<noteq> []" using that reminders_frame[OF r] by simp
  show ?thesis
  proof (cases "rs = []")
    case False
    then have "s' = add_msgs (user_notes ns6) s6" using e by simp
    then show ?thesis using g[OF False] sent reminders_frame[OF r] by (simp add: claude_good_snoc claude_ok_notes)
  qed (use e f in simp)
qed

text \<open>What the loop relies on: an answer that ends the turn uses no tools.\<close>

definition turn_ends :: "('w, 'a) claude_env \<Rightarrow> bool" where
  "turn_ends e = (\<forall>k q w w' bs. ce_model e k q w = (w', Inr (bs, ''end_turn'')) \<longrightarrow> uses_of bs = [])"

lemma claude_turn_spec:
  assumes "turn_ends e" "claude_good m (lo_history s)" "claude_turn e limit n s = (s', v)"
  shows "(v = Go_on \<longrightarrow> claude_good m (lo_history s')) \<and> (\<exists>qs. lo_sent s' = lo_sent s @ qs \<and> length qs \<le> 1 \<and> (\<forall>q \<in> set qs. claude_good m q))"
proof -
  obtain s1 r where c: "call_model (\<lambda>k. ce_model e k (lo_history s)) (lo_history s) s = (s1, r)" by fastforce
  note f = call_model_frame[OF c]
  show ?thesis
  proof (cases r)
    case (Inl x)
    then show ?thesis using assms(2,3) f by (auto simp: claude_turn_def c)
  next
    case (Inr a)
    obtain bs stop where a: "a = (bs, stop)" by (cases a)
    have ends: "uses_of bs = []" if "stop = ''end_turn''"
    proof -
      have "\<exists>k w w'. ce_model e k (lo_history s) w = (w', Inr (bs, stop))"
        using c llm_call_answer unfolding Inr a call_model_def by (fastforce split: prod.splits)
      then show ?thesis using assms(1) that unfolding turn_ends_def by blast
    qed
    let ?s2 = "add_msgs [C_blocks bs] s1"
    have h2: "lo_history ?s2 = lo_history s @ [C_blocks bs]" "lo_sent ?s2 = lo_sent s @ [lo_history s]" using f by simp_all
    have turn: "(s', v) = (if stop = ''end_turn'' then
          (case claim_guard e limit n (text_of_blocks bs) ?s2 of Some m \<Rightarrow> (add_msgs (user_notes [m]) ?s2, Go_on) | None \<Rightarrow> (?s2, Done (Answer (text_of_blocks bs))))
        else if stop \<noteq> ''tool_use'' then
          (if uses_of bs \<noteq> [] \<and> stop = ''max_tokens''
           then (case run_pending e (uses_of bs) (lo_world ?s2) of (w, rs) \<Rightarrow> (add_msgs [C_results rs] (?s2\<lparr>lo_world := w\<rparr>), Done (Answer (text_of_blocks bs))))
           else (?s2, Done (Answer (text_of_blocks bs))))
        else uses_turn e limit n (uses_of bs) ?s2)"
      using assms(3) by (simp only: claude_turn_def c Inr a prod.case sum.case Let_def)
    consider "stop = ''end_turn''" | "stop \<noteq> ''end_turn''" "stop \<noteq> ''tool_use''" | "stop \<noteq> ''end_turn''" "stop = ''tool_use''" by blast
    then show ?thesis
    proof cases
      case 1
      have ok: "claude_ok [] (C_blocks bs # user_notes ns)" for ns using ends[OF 1] claude_ok_notes by simp
      then show ?thesis using turn assms(2) h2 1 by (auto simp: claude_good_snoc[OF assms(2)] split: option.splits)
    next
      case 2
      then show ?thesis using turn assms(2) h2 by (auto split: if_splits prod.splits)
    next
      case 3
      then have "uses_turn e limit n (uses_of bs) ?s2 = (s', v)" using turn by simp
      from uses_turn_good[OF assms(2) h2(1) this] show ?thesis using assms(2) h2(2) by simp
    qed
  qed
qed

text \<open>
  Every request to Claude is a conversation its interface accepts: each message that uses tools is followed by
  one message with their results, in order.  The first message of the conversation is kept through all
  cuts; it is the question only where the host sent no earlier turns.
\<close>

theorem claude_well_typed:
  assumes "turn_ends e" "run_agent_claude e turns user limit c w = (s, res)" "q \<in> set (lo_sent s)"
  shows "claude_ok [] (tl q) \<and> q \<noteq> [] \<and> hd q = hd (claude_start turns user) \<and> length (lo_sent s) \<le> limit"
proof -
  let ?m = "hd (claude_start turns user)"
  have g: "claude_good ?m (lo_history (new_loop (claude_start turns user) c w))" using claude_good_start by (simp add: new_loop_def)
  note t = assms(2)[unfolded run_agent_claude_def]
  from agent_turns_invariant[where I = "\<lambda>s. claude_good ?m (lo_history s)" and Q = "claude_good ?m", OF claude_turn_spec[OF assms(1)] g t]
  obtain qs where "lo_sent s = qs" "length qs \<le> limit" "\<forall>q \<in> set qs. claude_good ?m q" by (auto simp: new_loop_def)
  then show ?thesis using assms(3) by (auto simp: claude_good_def)
qed

text \<open>A model that uses a tool once.\<close>

definition demo_claude :: "(unit, unit) claude_env" where
  "demo_claude = \<lparr>te_tool = (\<lambda>t a w. (w, Inr ''a b'')), te_str = (\<lambda>_. []), te_hash = (\<lambda>_. 0), te_cross = (\<lambda>_. False), te_tick = (\<lambda>_. False),
     te_fake = (\<lambda>_. False), te_claim = (\<lambda>_. False),
     ce_model = (\<lambda>k q w. (w, Inr (if length q \<le> 1 then ([Use_block ''u1'' ''Bash'' ()], ''tool_use'') else ([Text_block (Some ''two files'')], ''end_turn''))))\<rparr>"

lemma demo_claude_run:
  "(case run_agent_claude demo_claude [] ''list'' 3 \<lparr>cl_key = ''k'', cl_pool = None\<rparr> () of (s, r) \<Rightarrow> r = Inr (Answer ''two files'')
     \<and> lo_sent s = [[C_said ''user'' (Plain ''list'')],
         [C_said ''user'' (Plain ''list''), C_blocks [Use_block ''u1'' ''Bash'' ()], C_results [(''u1'', ''a b'')]]])"
proof -
  have s: "strip ''two files'' = ''two files''" "\<not> has_sub ''MEMORY.md'' []" by code_simp+
  show ?thesis using s
    by (simp add: run_agent_claude_def new_loop_def claude_start_def upt_rec claude_turn_def call_model_def MAX_ATTEMPTS_def numeral_3_eq_3
       demo_claude_def add_msgs_def uses_turn_def uses_of_def text_of_blocks_def use_tool_def run_tool_def cut_result_def count_fail_def Let_def
       MAX_TOOL_RESULT_CHARS_def writes_memory_def milestone_def SEND_MESSAGE_def SUBSTANTIVE_TOOLS_def user_notes_def cut_history_def
       MAX_HISTORY_MESSAGES_def reminders_def claim_guard_def final_answer_def)
qed

theorem claude_well_typed_witness:
  "claude_ok [] (tl (lo_sent (fst (run_agent_claude demo_claude [] ''list'' 3 \<lparr>cl_key = ''k'', cl_pool = None\<rparr> ())) ! 1))"
proof -
  obtain s r where s: "run_agent_claude demo_claude [] ''list'' 3 \<lparr>cl_key = ''k'', cl_pool = None\<rparr> () = (s, r)" by fastforce
  then have "lo_sent s ! 1 \<in> set (lo_sent s)" using demo_claude_run by simp
  moreover have "turn_ends demo_claude" by (auto simp: turn_ends_def demo_claude_def uses_of_def split: if_splits)
  ultimately show ?thesis using claude_well_typed[OF _ s] by (simp add: s)
qed

end
