(* ===== verification/AgentGemini.thy ===== *)
theory AgentGemini
  imports AgentTurn
begin

text \<open>
  The agent's loop over Gemini, \<open>run_agent\<close> of \<open>container/agent-runner/_loop_gemini.py\<close>: two fixed messages in
  front of the conversation, the reasons to stop, and the break after repeated messages that all is done.
  The model and the reading of a text with an image (\<open>ge_parts\<close>) are arguments.
\<close>

section \<open>Conversations\<close>

datatype 'p said_part = Given 'p | Said loop_note

datatype 'a model_part = M_text "string option" | M_call string 'a

datatype ('p, 'a) gemini_msg =
    G_said string "'p said_part list"
  | G_model "'a model_part list"
  | G_results "(string \<times> string) list"

fun is_function_results :: "('p, 'a) gemini_msg \<Rightarrow> bool" where
  "is_function_results (G_results rs) = (rs \<noteq> [])"
| "is_function_results _ = False"

text \<open>An answer: the reason why it ended (\<open>none\<close> without a candidate), and its parts.\<close>

record ('w, 'p, 'a) gemini_env = "('w, 'a) tool_env" +
  ge_model :: "string \<Rightarrow> ('p, 'a) gemini_msg list \<Rightarrow> 'w \<Rightarrow> 'w \<times> (string + string \<times> 'a model_part list)"
  ge_parts :: "string \<Rightarrow> 'p list"
  ge_confirms :: "'a \<Rightarrow> bool"
  ge_text :: "string \<Rightarrow> 'p"

type_synonym ('w, 'p, 'a) gemini_loop = "('w, ('p, 'a) gemini_msg, ('p, 'a) gemini_msg list) agent_loop"

text \<open>The question is written in Chinese in the source, and so is the answer around the name.\<close>

definition few_shot :: "('w, 'p, 'a) gemini_env \<Rightarrow> string \<Rightarrow> string \<Rightarrow> ('p, 'a) gemini_msg list" where
  "few_shot e who answer = [G_said ''user'' [Given (ge_text e who)], G_said ''model'' [Given (ge_text e answer)]]"

definition said_parts :: "('w, 'p, 'a) gemini_env \<Rightarrow> string \<Rightarrow> string \<Rightarrow> ('p, 'a) gemini_msg list" where
  "said_parts e role t = (if ge_parts e t = [] then [] else [G_said role (map Given (ge_parts e t))])"

definition gemini_turns :: "('w, 'p, 'a) gemini_env \<Rightarrow> (string \<times> string option) list \<Rightarrow> string \<Rightarrow> ('p, 'a) gemini_msg list" where
  "gemini_turns e turns user =
     concat (map (\<lambda>(r, c). let t = (case c of None \<Rightarrow> [] | Some t \<Rightarrow> strip t) in
       if t = [] then [] else said_parts e (if r = ''assistant'' then ''model'' else ''user'') t) turns)
     @ said_parts e ''user'' user"

section \<open>A turn\<close>

text \<open>Reasons that end a run whatever the answer holds.\<close>

definition blocked :: "string \<Rightarrow> answer option" where
  "blocked stop = (let r = lower stop in
     if has_sub ''safety'' r then Some Blocked
     else if has_sub ''recitation'' r then Some Recited
     else if has_sub ''max_tokens'' r \<or> strip stop = ''2'' then Some Too_long
     else None)"

definition calls_of :: "'a model_part list \<Rightarrow> (string \<times> 'a) list" where
  "calls_of ps = concat (map (\<lambda>p. case p of M_call n a \<Rightarrow> [(n, a)] | _ \<Rightarrow> []) ps)"

definition text_of_parts :: "'a model_part list \<Rightarrow> string" where
  "text_of_parts ps = concat (map (\<lambda>p. case p of M_text (Some t) \<Rightarrow> t | _ \<Rightarrow> []) ps)"

fun run_functions :: "('w, 'p, 'a) gemini_env \<Rightarrow> (string \<times> 'a) list \<Rightarrow> ('w, 'p, 'a) gemini_loop \<Rightarrow> ('w, 'p, 'a) gemini_loop \<times> (string \<times> string) list" where
  "run_functions e [] s = (s, [])"
| "run_functions e ((n, a) # cs) s = (case use_tool e n a s of (s, r) \<Rightarrow>
     (let s = s\<lparr>lo_memory := (lo_memory s \<or> writes_memory n (te_str e a)),
                lo_confirms := (if n = SEND_MESSAGE \<and> ge_confirms e a then lo_confirms s + 1 else lo_confirms s)\<rparr> in
      case run_functions e cs s of (s, rs) \<Rightarrow> (s, (n, r) # rs)))"

definition says :: "loop_note list \<Rightarrow> ('p, 'a) gemini_msg list" where
  "says ns = map (\<lambda>n. G_said ''user'' [Said n]) ns"

text \<open>The warning about failures goes into the last message when that is a note already.\<close>

fun add_part :: "loop_note \<Rightarrow> ('p, 'a) gemini_msg \<Rightarrow> ('p, 'a) gemini_msg" where
  "add_part n (G_said r ps) = G_said r (ps @ [Said n])"
| "add_part n m = m"

definition warn :: "bool \<Rightarrow> loop_note \<Rightarrow> ('w, 'p, 'a) gemini_loop \<Rightarrow> ('w, 'p, 'a) gemini_loop" where
  "warn noted n s = (if noted then s\<lparr>lo_history := butlast (lo_history s) @ [add_part n (last (lo_history s))]\<rparr> else add_msgs (says [n]) s)"

definition calls_turn :: "('w, 'p, 'a) gemini_env \<Rightarrow> nat \<Rightarrow> nat \<Rightarrow> (string \<times> 'a) list \<Rightarrow> ('w, 'p, 'a) gemini_loop \<Rightarrow> ('w, 'p, 'a) gemini_loop \<times> verdict" where
  "calls_turn e limit n cs s =
     (case run_functions e cs (s\<lparr>lo_no_tool := 0\<rparr>) of (s, rs) \<Rightarrow>
     (case milestone limit n (map fst cs) s of (s, ns) \<Rightarrow>
       (let s = add_msgs (G_results rs # says ns) s;
            s = (case lo_retry s of None \<Rightarrow> s | Some (t, k) \<Rightarrow> (warn (ns \<noteq> []) (Retry_note t k) s)\<lparr>lo_retry := None\<rparr>) in
        case reminders limit n s of (s, ms) \<Rightarrow>
          (let s = add_msgs (says ms) s; s = s\<lparr>lo_history := cut_history is_function_results 2 (lo_history s)\<rparr> in
           (s, if lo_confirms s \<ge> 2 then Done (Answer []) else Go_on)))))"

definition gemini_turn :: "('w, 'p, 'a) gemini_env \<Rightarrow> nat \<Rightarrow> nat \<Rightarrow> ('w, 'p, 'a) gemini_loop \<Rightarrow> ('w, 'p, 'a) gemini_loop \<times> verdict" where
  "gemini_turn e limit n s = (case call_model (\<lambda>k. ge_model e k (lo_history s)) (lo_history s) s of
      (s, Inl x) \<Rightarrow> (s, Crash x)
    | (s, Inr (stop, ps)) \<Rightarrow> (case blocked stop of
        Some a \<Rightarrow> (s, Done a)
      | None \<Rightarrow> if ps = [] then (s, Done (Answer []))
          else let s = add_msgs [G_model ps] s; t = text_of_parts ps in
            if calls_of ps = [] then
              (let s = s\<lparr>lo_no_tool := lo_no_tool s + 1\<rparr> in
               case claim_guard e limit n t s of Some m \<Rightarrow> (add_msgs (says [m]) s, Go_on) | None \<Rightarrow> (s, Done (Answer t)))
            else calls_turn e limit n (calls_of ps) s))"

definition run_agent_gemini ::
  "('w, 'p, 'a) gemini_env \<Rightarrow> string \<Rightarrow> string \<Rightarrow> (string \<times> string option) list \<Rightarrow> string \<Rightarrow> nat \<Rightarrow> client \<Rightarrow> 'w
    \<Rightarrow> ('w, 'p, 'a) gemini_loop \<times> (string + answer)" where
  "run_agent_gemini e who answer turns user limit c w =
     agent_turns (gemini_turn e limit) [0..<limit] (new_loop (few_shot e who answer @ gemini_turns e turns user) c w)"

section \<open>Well-formed conversations\<close>

text \<open>
  The provider's rule: a model message with calls is followed at once by one message with the responses of the
  called functions, in order.  The first argument holds the calls whose responses are due.
\<close>

fun gemini_ok :: "string list \<Rightarrow> ('p, 'a) gemini_msg list \<Rightarrow> bool" where
  "gemini_ok p [] = (p = [])"
| "gemini_ok [] (G_said r ps # ms) = gemini_ok [] ms"
| "gemini_ok [] (G_model ps # ms) = gemini_ok (map fst (calls_of ps)) ms"
| "gemini_ok (i # p) (G_results rs # ms) = (map fst rs = i # p \<and> gemini_ok [] ms)"
| "gemini_ok _ _ = False"

lemma gemini_ok_append: "gemini_ok p ms \<Longrightarrow> gemini_ok p (ms @ ns) = gemini_ok [] ns"
  by (induction p ms rule: gemini_ok.induct) auto

lemma gemini_ok_strip: "gemini_ok p ms \<Longrightarrow> gemini_ok [] (dropWhile is_function_results ms)"
  by (induction p ms rule: gemini_ok.induct) auto

lemma gemini_ok_drop: "gemini_ok p ms \<Longrightarrow> \<exists>q. gemini_ok q (drop n ms)"
proof (induction p ms arbitrary: n rule: gemini_ok.induct)
  case (2 r ps ms)
  then show ?case by (cases n) (auto intro: exI[of _ "[]"])
next
  case (3 ps ms)
  then show ?case by (cases n) (auto intro: exI[of _ "[]"])
next
  case (4 i p rs ms)
  then show ?case by (cases n) (auto intro: exI[of _ "i # p"])
qed auto

interpretation gemini: transcript gemini_ok is_function_results
  by unfold_locales (fact gemini_ok_append gemini_ok_drop gemini_ok_strip)+

definition gemini_good :: "('p, 'a) gemini_msg list \<Rightarrow> ('p, 'a) gemini_msg list \<Rightarrow> bool" where
  "gemini_good h0 h = (length h0 = 2 \<and> (\<exists>t. h = h0 @ t \<and> gemini_ok [] t))"

lemma gemini_good_snoc: "gemini_good h0 h \<Longrightarrow> gemini_good h0 (h @ ms) = gemini_ok [] ms"
  by (auto simp: gemini_good_def gemini_ok_append)

lemma gemini_good_cut: "gemini_good h0 h \<Longrightarrow> gemini_good h0 (cut_history is_function_results 2 h)"
  using gemini.valid_cut[of h0 2] by (auto simp: gemini_good_def)

lemma gemini_ok_said: "list_all (\<lambda>m. \<exists>r ps. m = G_said r ps) ms \<Longrightarrow> gemini_ok [] ms"
  by (induction ms) auto

lemma gemini_ok_says: "gemini_ok [] (says ns)"
  by (rule gemini_ok_said) (simp add: says_def list_all_iff)

lemma gemini_good_start: "gemini_good (few_shot e who answer) (few_shot e who answer @ gemini_turns e turns user)"
proof -
  have "list_all (\<lambda>m. \<exists>r ps. m = G_said r ps) (gemini_turns e turns user)"
    by (induction turns) (auto simp: gemini_turns_def said_parts_def Let_def split: option.splits)
  then show ?thesis using gemini_ok_said by (simp add: gemini_good_def few_shot_def)
qed

lemma run_functions_frame: "run_functions e cs s = (s', rs) \<Longrightarrow> map fst rs = map fst cs \<and> lo_history s' = lo_history s \<and> lo_sent s' = lo_sent s"
proof (induction cs arbitrary: s s' rs)
  case (Cons c cs)
  obtain n a where c: "c = (n, a)" by (cases c)
  obtain s1 r where t: "use_tool e n a s = (s1, r)" by fastforce
  let ?s = "s1\<lparr>lo_memory := (lo_memory s1 \<or> writes_memory n (te_str e a)),
                lo_confirms := (if n = SEND_MESSAGE \<and> ge_confirms e a then lo_confirms s1 + 1 else lo_confirms s1)\<rparr>"
  obtain s2 rs2 where r: "run_functions e cs ?s = (s2, rs2)" by fastforce
  have "run_functions e (c # cs) s = (s2, (n, r) # rs2)" unfolding c run_functions.simps t prod.case Let_def r ..
  then show ?case using Cons.prems Cons.IH[OF r] use_tool_frame[OF t] by (auto simp: c)
qed simp

lemma calls_turn_good:
  assumes "gemini_good h0 h" "lo_history s = h @ [G_model ps]" "calls_of ps \<noteq> []" "calls_turn e limit n (calls_of ps) s = (s', v)"
  shows "gemini_good h0 (lo_history s') \<and> lo_sent s' = lo_sent s"
proof -
  obtain s1 rs where u: "run_functions e (calls_of ps) (s\<lparr>lo_no_tool := 0\<rparr>) = (s1, rs)" by fastforce
  note f = run_functions_frame[OF u]
  obtain s2 ns where m: "milestone limit n (map fst (calls_of ps)) s1 = (s2, ns)" by fastforce
  let ?s3 = "add_msgs (G_results rs # says ns) s2"
  let ?s4 = "case lo_retry ?s3 of None \<Rightarrow> ?s3 | Some (t, k) \<Rightarrow> (warn (ns \<noteq> []) (Retry_note t k) ?s3)\<lparr>lo_retry := None\<rparr>"
  obtain s5 ms where r: "reminders limit n ?s4 = (s5, ms)" by fastforce
  let ?s6 = "add_msgs (says ms) s5"
  have e: "s' = ?s6\<lparr>lo_history := cut_history is_function_results 2 (lo_history ?s6)\<rparr>"
    using assms(4) unfolding calls_turn_def u prod.case m Let_def r by simp
  have "lo_history s1 = h @ [G_model ps]" "lo_sent s1 = lo_sent s" using f assms(2) by simp_all
  then have h2: "lo_history s2 = h @ [G_model ps]" "lo_sent s2 = lo_sent s" using milestone_frame[OF m] by auto
  then have h3: "lo_history ?s3 = h @ G_model ps # G_results rs # says ns" "lo_sent ?s3 = lo_sent s"
    by simp_all
  have sent: "lo_sent ?s4 = lo_sent s" using h3(2) by (auto simp: warn_def split: option.splits prod.splits)
  obtain i p where ip: "map fst (calls_of ps) = i # p" using assms(3) by (cases "calls_of ps") auto
  have rs: "map fst rs = i # p" using f ip by simp
  have said: "\<exists>ts. lo_history ?s4 = h @ G_model ps # G_results rs # ts \<and> list_all (\<lambda>m. \<exists>r ps. m = G_said r ps) ts"
  proof (cases "lo_retry ?s3")
    case None
    then show ?thesis using h3(1) by (intro exI[of _ "says ns"]) (simp add: says_def list_all_iff)
  next
    case (Some tk)
    then obtain t k where tk: "lo_retry ?s3 = Some (t, k)" by (cases tk) auto
    show ?thesis
    proof (cases "ns = []")
      case True
      then show ?thesis using h3(1) tk by (intro exI[of _ "says [Retry_note t k]"]) (simp add: warn_def says_def)
    next
      case False
      then obtain l m where l: "ns = l @ [m]" by (metis append_butlast_last_id)
      have "lo_history ?s4 = butlast (lo_history ?s3) @ [add_part (Retry_note t k) (last (lo_history ?s3))]" using False tk by (simp add: warn_def)
      also have "\<dots> = h @ G_model ps # G_results rs # says l @ [add_part (Retry_note t k) (G_said ''user'' [Said m])]"
        using h2(1) by (simp add: l says_def butlast_append)
      finally show ?thesis by (intro exI[of _ "says l @ [add_part (Retry_note t k) (G_said ''user'' [Said m])]"]) (simp add: says_def list_all_iff)
    qed
  qed
  then obtain ts where ts: "lo_history ?s4 = h @ G_model ps # G_results rs # ts" "gemini_ok [] ts" using gemini_ok_said by blast
  have "gemini_ok [] (G_model ps # G_results rs # ts)" using ip rs ts(2) by simp
  then have "gemini_good h0 (lo_history ?s4)" unfolding ts(1) gemini_good_snoc[OF assms(1)] .
  then have "gemini_good h0 (lo_history ?s6)" using reminders_frame[OF r] by (simp add: gemini_good_snoc gemini_ok_says)
  then show ?thesis unfolding e using gemini_good_cut sent reminders_frame[OF r] by simp
qed

lemma gemini_turn_spec:
  assumes "gemini_good h0 (lo_history s)" "gemini_turn e limit n s = (s', v)"
  shows "(v = Go_on \<longrightarrow> gemini_good h0 (lo_history s')) \<and> (\<exists>qs. lo_sent s' = lo_sent s @ qs \<and> length qs \<le> 1 \<and> (\<forall>q \<in> set qs. gemini_good h0 q))"
proof -
  obtain s1 r where c: "call_model (\<lambda>k. ge_model e k (lo_history s)) (lo_history s) s = (s1, r)" by fastforce
  note f = call_model_frame[OF c]
  show ?thesis
  proof (cases r)
    case (Inl x)
    then show ?thesis using assms f by (auto simp: gemini_turn_def c)
  next
    case (Inr a)
    obtain stop ps where a: "a = (stop, ps)" by (cases a)
    let ?s2 = "add_msgs [G_model ps] s1"
    have h2: "lo_history ?s2 = lo_history s @ [G_model ps]" "lo_sent ?s2 = lo_sent s @ [lo_history s]" using f by simp_all
    show ?thesis
    proof (cases "blocked stop \<noteq> None \<or> ps = []")
      case True
      then show ?thesis using assms f by (auto simp: gemini_turn_def c Inr a split: option.splits)
    next
      case False
      show ?thesis
      proof (cases "calls_of ps = []")
        case True
        have "gemini_ok [] (G_model ps # says ns)" for ns :: "loop_note list" using True gemini_ok_says by simp
        then show ?thesis using assms h2 False True
          by (auto simp: gemini_turn_def c Inr a Let_def gemini_good_snoc[OF assms(1)] split: option.splits)
      next
        case calls: False
        then have "calls_turn e limit n (calls_of ps) ?s2 = (s', v)" using assms(2) False by (simp add: gemini_turn_def c Inr a Let_def)
        from calls_turn_good[OF assms(1) h2(1) calls this] show ?thesis using assms(1) h2(2) by simp
      qed
    qed
  qed
qed

text \<open>
  Every request to Gemini is a conversation its interface accepts: the two fixed messages, and behind them
  each model message with calls followed by one message with the responses, in order, whatever the model
  and the tools answer, and although warnings are put into earlier messages and the history is cut.
\<close>

theorem gemini_well_typed:
  assumes "run_agent_gemini e who answer turns user limit c w = (s, res)" "q \<in> set (lo_sent s)"
  shows "take 2 q = few_shot e who answer \<and> gemini_ok [] (drop 2 q) \<and> length (lo_sent s) \<le> limit"
proof -
  let ?f = "few_shot e who answer"
  have g: "gemini_good ?f (lo_history (new_loop (?f @ gemini_turns e turns user) c w))" using gemini_good_start by (simp add: new_loop_def)
  note t = assms(1)[unfolded run_agent_gemini_def]
  from agent_turns_invariant[where I = "\<lambda>s. gemini_good ?f (lo_history s)" and Q = "gemini_good ?f", OF gemini_turn_spec g t]
  obtain qs where "lo_sent s = qs" "length qs \<le> limit" "\<forall>q \<in> set qs. gemini_good ?f q" by (auto simp: new_loop_def)
  then show ?thesis using assms(2) by (auto simp: gemini_good_def)
qed

text \<open>A model that calls a function once.\<close>

definition demo_gemini :: "(unit, string, unit) gemini_env" where
  "demo_gemini = \<lparr>te_tool = (\<lambda>t a w. (w, Inr ''a b'')), te_str = (\<lambda>_. []), te_hash = (\<lambda>_. 0), te_cross = (\<lambda>_. False), te_tick = (\<lambda>_. False),
     te_fake = (\<lambda>_. False), te_claim = (\<lambda>_. False),
     ge_model = (\<lambda>k q w. (w, Inr (''STOP'', if length q \<le> 3 then [M_call ''Bash'' ()] else [M_text (Some ''two files'')]))),
     ge_parts = (\<lambda>t. [t]), ge_confirms = (\<lambda>_. False), ge_text = (\<lambda>t. t)\<rparr>"

lemma demo_gemini_run:
  "(case run_agent_gemini demo_gemini ''who'' ''me'' [] ''list'' 3 \<lparr>cl_key = ''k'', cl_pool = None\<rparr> () of (s, r) \<Rightarrow> r = Inr (Answer ''two files'')
     \<and> map (drop 2) (lo_sent s) = [[G_said ''user'' [Given ''list'']],
         [G_said ''user'' [Given ''list''], G_model [M_call ''Bash'' ()], G_results [(''Bash'', ''a b'')]]])"
proof -
  have s: "strip ''two files'' = ''two files''" "\<not> has_sub ''MEMORY.md'' []" "blocked ''STOP'' = None" by code_simp+
  show ?thesis using s
    by (simp add: run_agent_gemini_def few_shot_def gemini_turns_def said_parts_def new_loop_def upt_rec gemini_turn_def call_model_def MAX_ATTEMPTS_def
       numeral_3_eq_3 demo_gemini_def add_msgs_def calls_turn_def calls_of_def text_of_parts_def use_tool_def run_tool_def cut_result_def count_fail_def Let_def
       MAX_TOOL_RESULT_CHARS_def writes_memory_def milestone_def SEND_MESSAGE_def SUBSTANTIVE_TOOLS_def says_def cut_history_def
       MAX_HISTORY_MESSAGES_def reminders_def claim_guard_def final_answer_def)
qed

theorem gemini_well_typed_witness:
  "gemini_ok [] (drop 2 (lo_sent (fst (run_agent_gemini demo_gemini ''who'' ''me'' [] ''list'' 3 \<lparr>cl_key = ''k'', cl_pool = None\<rparr> ())) ! 1))"
proof -
  obtain s r where s: "run_agent_gemini demo_gemini ''who'' ''me'' [] ''list'' 3 \<lparr>cl_key = ''k'', cl_pool = None\<rparr> () = (s, r)" by fastforce
  then have "length (map (drop 2) (lo_sent s)) = 2" using demo_gemini_run by simp
  then have "lo_sent s ! 1 \<in> set (lo_sent s)" by (intro nth_mem) simp
  from gemini_well_typed[OF s this] show ?thesis by (simp add: s)
qed

end
