(* ===== verification/AgentFiles.thy ===== *)
theory AgentFiles
  imports Container Files
begin

text \<open>
  The tools of an agent that work on files, \<open>tool_read\<close>, \<open>tool_write\<close>, \<open>tool_edit\<close>, \<open>tool_glob\<close> and
  \<open>_check_path_allowed\<close> (\<open>container/agent-runner/_tools.py\<close>, \<open>_utils.py\<close>), on a disk with directories and
  symbolic links.  A location is the list of names from the root; a file has its permissions and its bytes.
  Access rights are left out, and so are full disks; the decoder of bytes with replacement characters, the
  working directory and the unique part of a temporary name are arguments.
\<close>

section \<open>A disk\<close>

type_synonym loc = "string list"

datatype node = Folder | Doc nat "nat list" | Link string

type_synonym disk = "(loc, node) dict"

definition node_at :: "disk \<Rightarrow> loc \<Rightarrow> node option" where
  "node_at d l = (if l = [] then Some Folder else dget d l)"

definition folder_at :: "disk \<Rightarrow> loc \<Rightarrow> bool" where
  "folder_at d l = (node_at d l = Some Folder)"

text \<open>
  The location that a path leads to, from the location \<open>a\<close>.  With \<open>strict\<close> this is what the kernel does when the
  path is opened: every step starts in a directory, and only the last name may be missing.  Without it is
  \<open>Path.resolve\<close>.  Links that lead in a circle have no result.  \<open>step_to\<close> is one step: where it leads, and what is to be followed from there.
\<close>

definition step_to :: "disk \<Rightarrow> loc \<Rightarrow> string \<Rightarrow> loc \<times> string list" where
  "step_to d a c =
     (if c = ''..'' then (butlast a, [])
      else case dget d (a @ [c]) of Some (Link t) \<Rightarrow> (if is_abs t then [] else a, parts t) | _ \<Rightarrow> (a @ [c], []))"

partial_function (option) follow :: "bool \<Rightarrow> disk \<Rightarrow> loc \<Rightarrow> string list \<Rightarrow> loc option" where
  "follow strict d a cs =
     (if cs = [] then Some a
      else if strict \<and> \<not> folder_at d a then None
      else follow strict d (fst (step_to d a (hd cs))) (snd (step_to d a (hd cs)) @ tl cs))"

definition real_path :: "disk \<Rightarrow> loc \<Rightarrow> loc option" where
  "real_path d p = follow False d [] p"

definition opened :: "disk \<Rightarrow> loc \<Rightarrow> loc option" where
  "opened d p = follow True d [] p"

text \<open>\<open>p.exists()\<close> with what is there.\<close>

definition stat :: "disk \<Rightarrow> loc \<Rightarrow> node option" where
  "stat d p = (case opened d p of None \<Rightarrow> None | Some q \<Rightarrow> node_at d q)"

text \<open>The entry that a path names, without following it.\<close>

definition entry_of :: "disk \<Rightarrow> loc \<Rightarrow> loc option" where
  "entry_of d p = (if p = [] then None else case opened d (butlast p) of
      None \<Rightarrow> None
    | Some a \<Rightarrow> if folder_at d a \<and> last p \<noteq> ''..'' then Some (a @ [last p]) else None)"

text \<open>\<open>p.mkdir(parents=True, exist_ok=True)\<close>: the disk, and whether it raised.\<close>

definition make_dir :: "disk \<Rightarrow> loc \<Rightarrow> disk option" where
  "make_dir d p = (case entry_of d p of
      None \<Rightarrow> None
    | Some l \<Rightarrow> if dget d l = None then Some (dset l Folder d) else None)"

function make_dirs :: "disk \<Rightarrow> loc \<Rightarrow> disk \<times> bool" where
  "make_dirs d p =
     (if stat d p = Some Folder then (d, True)
      else case make_dir d p of
          Some d \<Rightarrow> (d, True)
        | None \<Rightarrow> if p = [] then (d, False)
            else (case make_dirs d (butlast p) of
                (d, False) \<Rightarrow> (d, False)
              | (d, True) \<Rightarrow> (case make_dir d p of Some d \<Rightarrow> (d, True) | None \<Rightarrow> (d, stat d p = Some Folder))))"
  by pat_completeness auto
termination by (relation "measure (\<lambda>(d, p). length p)") auto

text \<open>Writing bytes to a path, through a link; a new file gets the permissions 644.\<close>

definition put_file :: "loc \<Rightarrow> nat list \<Rightarrow> disk \<Rightarrow> disk option" where
  "put_file p bs d = (case opened d p of
      None \<Rightarrow> None
    | Some q \<Rightarrow> (case node_at d q of
          None \<Rightarrow> Some (dset q (Doc 420 bs) d)
        | Some (Doc m _) \<Rightarrow> Some (dset q (Doc m bs) d)
        | _ \<Rightarrow> None))"

definition change_mode :: "nat \<Rightarrow> loc \<Rightarrow> disk \<Rightarrow> disk" where
  "change_mode m p d = (case opened d p of
      None \<Rightarrow> d
    | Some q \<Rightarrow> (case node_at d q of Some (Doc _ bs) \<Rightarrow> dset q (Doc m bs) d | _ \<Rightarrow> d))"

definition rename_to :: "loc \<Rightarrow> loc \<Rightarrow> disk \<Rightarrow> disk option" where
  "rename_to p q d = (case (entry_of d p, entry_of d q) of
      (Some s, Some t) \<Rightarrow> (case dget d s of
          None \<Rightarrow> None
        | Some n \<Rightarrow> if dget d t = Some Folder then None else if s = t then Some d else Some (dset t n (ddel s d)))
    | _ \<Rightarrow> None)"

section \<open>Text\<close>

text \<open>\<open>bytes.decode("utf-8")\<close> raises nothing.\<close>

fun valid_utf8 :: "nat list \<Rightarrow> bool" where
  "valid_utf8 [] = True"
| "valid_utf8 (a # bs) =
     (if a < 128 then valid_utf8 bs
      else if 194 \<le> a \<and> a \<le> 223 then (case bs of b # bs \<Rightarrow> is_cont b \<and> valid_utf8 bs | _ \<Rightarrow> False)
      else if 224 \<le> a \<and> a \<le> 239 then (case bs of
          b # c # bs \<Rightarrow> is_cont b \<and> is_cont c \<and> (a = 224 \<longrightarrow> b \<ge> 160) \<and> (a = 237 \<longrightarrow> b < 160) \<and> valid_utf8 bs | _ \<Rightarrow> False)
      else if 240 \<le> a \<and> a \<le> 244 then (case bs of
          b # c # e # bs \<Rightarrow> is_cont b \<and> is_cont c \<and> is_cont e \<and> (a = 240 \<longrightarrow> b \<ge> 144) \<and> (a = 244 \<longrightarrow> b < 144) \<and> valid_utf8 bs
        | _ \<Rightarrow> False)
      else False)"

definition is_binary :: "nat list \<Rightarrow> bool" where
  "is_binary bs = (let s = take 512 bs in
     0 \<in> set s \<or> \<not> valid_utf8 s \<and> s \<noteq> [] \<and> 2 * length (filter (\<lambda>b. b > 127) s) > length s)"

text \<open>Line ends of a file opened as text.\<close>

fun unix_lines :: "string \<Rightarrow> string" where
  "unix_lines [] = []"
| "unix_lines [c] = [if c = CHR 0x0D then CHR 0x0A else c]"
| "unix_lines (c # e # es) =
     (if c = CHR 0x0D \<and> e = CHR 0x0A then CHR 0x0A # unix_lines es
      else (if c = CHR 0x0D then CHR 0x0A else c) # unix_lines (e # es))"

text \<open>\<open>s.count(p)\<close> and \<open>s.replace(p, r, 1)\<close>.\<close>

function count_sub :: "string \<Rightarrow> string \<Rightarrow> nat" where
  "count_sub p s =
     (if p = [] then length s + 1
      else if s = [] then 0
      else if prefix p s then 1 + count_sub p (drop (length p) s)
      else count_sub p (tl s))"
  by pat_completeness auto
termination by (relation "measure (\<lambda>(p, s). length s)") auto

definition replace_once :: "string \<Rightarrow> string \<Rightarrow> string \<Rightarrow> string" where
  "replace_once p r s = (case find_sub p s of None \<Rightarrow> s | Some i \<Rightarrow> take i s @ r @ drop (i + length p) s)"

section \<open>The sandbox\<close>

record file_env =
  fe_cwd :: loc
  fe_decode :: "nat list \<Rightarrow> string"
  fe_unique :: string

datatype refusal =
    Empty_path
  | Null_byte
  | Link_loop
  | Outside
  | Outside_parent
  | Binary_file
  | Is_folder
  | Too_big
  | Not_found
  | Ambiguous nat
  | Bad_pattern
  | Too_slow
  | Os_error

datatype tool_reply = Fine string | Refused refusal

definition path_of :: "file_env \<Rightarrow> string \<Rightarrow> loc" where
  "path_of e p = (if is_abs p then parts p else fe_cwd e @ parts p)"

text \<open>\<open>startswith("/workspace/")\<close> of a resolved path.\<close>

definition in_workspace :: "loc \<Rightarrow> bool" where
  "in_workspace q = strict_prefix [''workspace''] q"

definition check_path :: "file_env \<Rightarrow> disk \<Rightarrow> string \<Rightarrow> refusal option" where
  "check_path e d p =
     (if p = [] then Some Empty_path
      else if CHR 0x00 \<in> set p then Some Null_byte
      else case real_path d (path_of e p) of
          None \<Rightarrow> Some Link_loop
        | Some q \<Rightarrow> if in_workspace q then None else Some Outside)"

definition check_parent :: "disk \<Rightarrow> loc \<Rightarrow> refusal option" where
  "check_parent d p = (case real_path d p of
      None \<Rightarrow> Some Link_loop
    | Some q \<Rightarrow> if in_workspace q then None else Some Outside_parent)"

definition nl :: string where "nl = [CHR 0x0A]"

definition READ_LIMIT :: nat where "READ_LIMIT = 524288"
definition WRITE_LIMIT :: nat where "WRITE_LIMIT = 10485760"

definition read_tool :: "file_env \<Rightarrow> disk \<Rightarrow> string \<Rightarrow> tool_reply" where
  "read_tool e d p = (case check_path e d p of
      Some x \<Rightarrow> Refused x
    | None \<Rightarrow> (case stat d (path_of e p) of
          Some (Doc m bs) \<Rightarrow>
            if is_binary bs then Refused Binary_file
            else Fine (''[OK] '' @ p @ nl @ (if length bs > READ_LIMIT
              then fe_decode e (take READ_LIMIT bs) @ nl @ nl @ ''... (file truncated: read '' @ show_nat READ_LIMIT @ '' of '' @ show_nat (length bs) @ '' bytes)''
              else unix_lines (fe_decode e bs)))
        | _ \<Rightarrow> Refused Os_error))"

text \<open>The new contents go to a temporary file beside the path, which then takes its place.\<close>

definition tmp_of :: "file_env \<Rightarrow> loc \<Rightarrow> loc" where
  "tmp_of e p = butlast p @ [''.'' @ last p @ ''.'' @ fe_unique e @ ''.tmp'']"

definition save :: "file_env \<Rightarrow> loc \<Rightarrow> nat option \<Rightarrow> nat list \<Rightarrow> disk \<Rightarrow> disk \<times> bool" where
  "save e p mode bs d = (case put_file (tmp_of e p) bs d of
      None \<Rightarrow> (d, False)
    | Some d \<Rightarrow> (let d = (case mode of None \<Rightarrow> d | Some m \<Rightarrow> change_mode m (tmp_of e p) d) in
        case rename_to (tmp_of e p) p d of None \<Rightarrow> (d, False) | Some d \<Rightarrow> (d, True)))"

definition mode_of :: "node option \<Rightarrow> nat option" where
  "mode_of n = (case n of Some (Doc m _) \<Rightarrow> Some m | _ \<Rightarrow> None)"

definition write_tool :: "file_env \<Rightarrow> string \<Rightarrow> string \<Rightarrow> disk \<Rightarrow> disk \<times> tool_reply" where
  "write_tool e p c d = (case check_path e d p of
      Some x \<Rightarrow> (d, Refused x)
    | None \<Rightarrow>
        if length (utf8 c) > WRITE_LIMIT then (d, Refused Too_big)
        else let q = path_of e p in (case make_dirs d (butlast q) of
            (d, False) \<Rightarrow> (d, Refused Os_error)
          | (d, True) \<Rightarrow> (case check_parent d (butlast q) of
                Some x \<Rightarrow> (d, Refused x)
              | None \<Rightarrow>
                  if stat d q = Some Folder then (d, Refused Is_folder)
                  else (case save e q (mode_of (stat d q)) (utf8 c) d of
                      (d, True) \<Rightarrow> (d, Fine (''[OK] Written: '' @ p))
                    | (d, False) \<Rightarrow> (d, Refused Os_error)))))"

definition edit_tool :: "file_env \<Rightarrow> string \<Rightarrow> string \<Rightarrow> string \<Rightarrow> disk \<Rightarrow> disk \<times> tool_reply" where
  "edit_tool e p old new d = (case check_path e d p of
      Some x \<Rightarrow> (d, Refused x)
    | None \<Rightarrow> (let q = path_of e p in case check_parent d (butlast q) of
          Some x \<Rightarrow> (d, Refused x)
        | None \<Rightarrow> (case stat d q of
              Some (Doc m bs) \<Rightarrow> (let t = unix_lines (fe_decode e bs); n = count_sub old t; t' = replace_once old new t in
                if find_sub old t = None then (d, Refused Not_found)
                else if n > 1 then (d, Refused (Ambiguous n))
                else if length (utf8 t') > WRITE_LIMIT then (d, Refused Too_big)
                else (case save e q (Some m) (utf8 t') d of
                    (d, True) \<Rightarrow> (d, Fine (''[OK] Edited: '' @ p))
                  | (d, False) \<Rightarrow> (d, Refused Os_error)))
            | _ \<Rightarrow> (d, Refused Os_error))))"

text \<open>
  What \<open>glob\<close> finds is an argument (\<open>None\<close> when it takes more than thirty seconds): the paths it yields, which
  begin with the search path or with the pattern, if that is absolute.
\<close>

definition GLOB_MAX :: nat where "GLOB_MAX = 1000"

definition glob_tool :: "file_env \<Rightarrow> disk \<Rightarrow> string list option \<Rightarrow> string \<Rightarrow> string \<Rightarrow> tool_reply" where
  "glob_tool e d found pattern p = (case check_path e d p of
      Some x \<Rightarrow> Refused x
    | None \<Rightarrow>
        if ''..'' \<in> set (split_on CHR ''/'' pattern) \<or> ''..'' \<in> set (split_on CHR ''/'' (map (\<lambda>c. if c = backslash then CHR ''/'' else c) pattern))
        then Refused Bad_pattern
        else (case found of
            None \<Rightarrow> Refused Too_slow
          | Some ms \<Rightarrow> (let ok = sort (filter (\<lambda>m. case real_path d (path_of e m) of None \<Rightarrow> False | Some q \<Rightarrow> in_workspace q) ms) in
              if ok = [] then Fine (''No files found matching: '' @ pattern @ '' in '' @ p)
              else if length ok > GLOB_MAX then
                Fine (join nl (take GLOB_MAX ok) @ nl @ ''... ('' @ show_nat (length ok - GLOB_MAX) @ '' more results not shown)'')
              else Fine (join nl ok))))"

section \<open>Where a path leads\<close>

declare make_dirs.simps [simp del] count_sub.simps [simp del]

lemma follow_Nil [simp]: "follow s d a [] = Some a"
  by (subst follow.simps) simp

lemma follow_Cons: "follow s d a (c # cs) =
    (if s \<and> \<not> folder_at d a then None else follow s d (fst (step_to d a c)) (snd (step_to d a c) @ cs))"
  by (subst follow.simps) simp

declare follow_Nil [code] follow_Cons [code]

lemma follow_induct [consumes 1, case_names Nil Cons]:
  assumes "follow s d a cs = Some q"
    and "\<And>a. P a [] a"
    and "\<And>a c cs q. (s \<longrightarrow> folder_at d a) \<Longrightarrow> follow s d (fst (step_to d a c)) (snd (step_to d a c) @ cs) = Some q \<Longrightarrow>
           P (fst (step_to d a c)) (snd (step_to d a c) @ cs) q \<Longrightarrow> P a (c # cs) q"
  shows "P a cs q"
proof -
  have "s = s \<longrightarrow> d = d \<longrightarrow> P a cs q"
  proof (rule follow.raw_induct[where P = "\<lambda>s' d' a cs q. s' = s \<longrightarrow> d' = d \<longrightarrow> follow s d a cs = Some q \<and> P a cs q", OF _ assms(1), THEN mp, THEN mp, THEN conjunct2, THEN rev_mp])
    fix f s' d' a cs q
    assume IH: "\<And>s' d' a cs q. f s' d' a cs = Some q \<Longrightarrow> s' = s \<longrightarrow> d' = d \<longrightarrow> follow s d a cs = Some q \<and> P a cs q"
      and f: "(if cs = [] then Some a else if s' \<and> \<not> folder_at d' a then None
        else f s' d' (fst (step_to d' a (hd cs))) (snd (step_to d' a (hd cs)) @ tl cs)) = Some q"
    show "s' = s \<longrightarrow> d' = d \<longrightarrow> follow s d a cs = Some q \<and> P a cs q"
    proof (intro impI)
      assume e: "s' = s" "d' = d"
      show "follow s d a cs = Some q \<and> P a cs q"
      proof (cases cs)
        case Nil
        then show ?thesis using f assms(2) by simp
      next
        case (Cons c rest)
        then have "s \<longrightarrow> folder_at d a" "f s d (fst (step_to d a c)) (snd (step_to d a c) @ rest) = Some q"
          using f e by (auto split: if_splits)
        with IH[OF this(2)] show ?thesis using assms(3) Cons by (auto simp: follow_Cons)
      qed
    qed
  qed simp_all
  then show ?thesis by simp
qed

text \<open>What the kernel opens is what was resolved.\<close>

lemma opened_real: "follow True d a cs = Some q \<Longrightarrow> follow False d a cs = Some q"
  by (induction rule: follow_induct) (auto simp: follow_Cons)

lemma follow_append1: "follow s d a (xs @ ys) = Some q \<Longrightarrow> \<exists>b. follow s d a xs = Some b \<and> follow s d b ys = Some q"
proof (induction a "xs @ ys" q arbitrary: xs rule: follow_induct)
  case (Cons a c cs q)
  show ?case
  proof (cases xs)
    case Nil
    then show ?thesis using Cons(1,2,4) by (auto simp: follow_Cons)
  next
    case (Cons x xs')
    then have "x = c" "cs = xs' @ ys" using Cons.hyps(4) by auto
    with Cons.hyps(3)[of "snd (step_to d a c) @ xs'"] Cons.hyps(1) Cons show ?thesis by (auto simp: follow_Cons)
  qed
qed simp

lemma follow_append2: "follow s d a xs = Some b \<Longrightarrow> follow s d a (xs @ ys) = follow s d b ys"
  by (induction rule: follow_induct) (auto simp: follow_Cons)

lemma follow_folder: "follow True d a cs = Some q \<Longrightarrow> cs \<noteq> [] \<Longrightarrow> folder_at d a"
  by (cases cs) (auto simp: follow_Cons split: if_splits)

text \<open>
  A change of the disk at one location that is no directory, nor a link to one, and elsewhere only of files,
  does not change where directories are.
\<close>

definition only_files :: "loc \<Rightarrow> disk \<Rightarrow> disk \<Rightarrow> bool" where
  "only_files L d d' \<longleftrightarrow> folder_at d (butlast L) \<and> L \<noteq> [] \<and> last L \<noteq> ''..''
     \<and> (\<forall>b. follow True d (butlast L) [last L] = Some b \<longrightarrow> \<not> folder_at d b)
     \<and> (\<forall>l. l \<noteq> L \<longrightarrow> (dget d l = Some Folder \<longrightarrow> dget d' l = Some Folder) \<and> (\<forall>t. dget d l = Some (Link t) \<longleftrightarrow> dget d' l = Some (Link t)))"

lemma follow_last: "folder_at d (butlast L) \<Longrightarrow> follow True d (butlast L) [last L] = follow True d (fst (step_to d (butlast L) (last L))) (snd (step_to d (butlast L) (last L)))"
  by (simp add: follow_Cons)

lemma only_files_not_folder:
  assumes "only_files L d d'" shows "\<not> folder_at d L"
proof
  assume f: "folder_at d L"
  have L: "butlast L @ [last L] = L" "L \<noteq> []" "last L \<noteq> ''..''" "folder_at d (butlast L)" using assms by (auto simp: only_files_def)
  then have "dget d L = Some Folder" using f by (simp add: folder_at_def node_at_def)
  then have "step_to d (butlast L) (last L) = (L, [])" using L by (simp add: step_to_def)
  then have "follow True d (butlast L) [last L] = Some L" using L by (simp add: follow_last)
  then show False using assms f by (auto simp: only_files_def)
qed

lemma folder_kept: "only_files L d d' \<Longrightarrow> folder_at d a \<Longrightarrow> folder_at d' a"
  using only_files_not_folder[of L d d'] by (cases "a = L") (auto simp: only_files_def folder_at_def node_at_def split: if_splits)

lemma step_to_eq: "\<forall>t. dget d (a @ [c]) = Some (Link t) \<longleftrightarrow> dget d' (a @ [c]) = Some (Link t) \<Longrightarrow> step_to d' a c = step_to d a c"
  by (cases "dget d (a @ [c])"; cases "dget d' (a @ [c])") (auto simp: step_to_def split: node.splits)

lemma follow_kept:
  assumes "follow True d a cs = Some q" "folder_at d q" "only_files L d d'"
  shows "follow True d' a cs = Some q"
  using assms(1,2)
proof (induction rule: follow_induct)
  case (Cons a c cs q)
  then have a: "folder_at d a" by simp
  have b: "\<exists>b. follow True d (fst (step_to d a c)) (snd (step_to d a c)) = Some b \<and> folder_at d b"
  proof -
    obtain b where "follow True d (fst (step_to d a c)) (snd (step_to d a c)) = Some b" "follow True d b cs = Some q"
      using follow_append1[OF Cons.hyps(2)] by auto
    then show ?thesis using follow_folder[of d b cs q] Cons.prems by (cases "cs = []") auto
  qed
  have "step_to d' a c = step_to d a c"
  proof (cases "c = ''..''")
    case False
    have "a @ [c] \<noteq> L"
    proof
      assume "a @ [c] = L"
      then have "butlast L = a" "last L = c" by auto
      then show False using b a assms(3) follow_last[of d L] by (auto simp: only_files_def)
    qed
    then have "dget d (a @ [c]) = Some (Link t) \<longleftrightarrow> dget d' (a @ [c]) = Some (Link t)" for t using assms(3) by (auto simp: only_files_def)
    then show ?thesis by (intro step_to_eq) blast
  qed (simp add: step_to_def)
  then show ?case using Cons folder_kept[OF assms(3) a] by (simp add: follow_Cons)
qed simp

definition opens_folder :: "disk \<Rightarrow> loc \<Rightarrow> loc \<Rightarrow> bool" where
  "opens_folder d p r \<longleftrightarrow> opened d p = Some r \<and> folder_at d r"

lemma opens_kept: "opens_folder d p r \<Longrightarrow> only_files L d d' \<Longrightarrow> opens_folder d' p r"
  using follow_kept[of d "[]" p r L d'] folder_kept[of L d d' r] by (simp add: opens_folder_def opened_def)

lemma opens_real: "opens_folder d p r \<Longrightarrow> real_path d p = Some r"
  by (auto simp: opens_folder_def opened_def real_path_def intro: opened_real)

lemma opens_snoc: "opens_folder d p r \<Longrightarrow> opened d (p @ [c]) = follow True d (fst (step_to d r c)) (snd (step_to d r c))"
  by (auto simp: opens_folder_def opened_def follow_append2 follow_Cons)

lemma entry_of_Some: "entry_of d p = Some l \<longleftrightarrow> (\<exists>r. p \<noteq> [] \<and> last p \<noteq> ''..'' \<and> opens_folder d (butlast p) r \<and> l = r @ [last p])"
  by (auto simp: entry_of_def opens_folder_def split: option.splits if_splits)

lemma stat_folder: "stat d p = Some Folder \<longleftrightarrow> (\<exists>r. opens_folder d p r)"
  by (auto simp: stat_def opens_folder_def folder_at_def split: option.splits)

text \<open>A new entry in a directory.\<close>

lemma new_entry: "folder_at d r \<Longrightarrow> c \<noteq> ''..'' \<Longrightarrow> dget d (r @ [c]) = None \<Longrightarrow> \<forall>l. l \<noteq> r @ [c] \<longrightarrow> dget d' l = dget d l \<Longrightarrow> only_files (r @ [c]) d d'"
  by (auto simp: only_files_def follow_Cons step_to_def folder_at_def node_at_def)

section \<open>Directories are only added\<close>

definition adds_folders :: "disk \<Rightarrow> disk \<Rightarrow> bool" where
  "adds_folders d d' = (\<forall>l. dget d' l = dget d l \<or> dget d l = None \<and> dget d' l = Some Folder)"

lemma adds_folders_trans: "adds_folders d d' \<Longrightarrow> adds_folders d' d'' \<Longrightarrow> adds_folders d d''"
  unfolding adds_folders_def by (metis option.distinct(1))

lemma make_dir_effect:
  assumes "make_dir d p = Some d'" shows "adds_folders d d' \<and> stat d' p = Some Folder"
proof -
  obtain r where r: "p \<noteq> []" "last p \<noteq> ''..''" "opens_folder d (butlast p) r" "dget d (r @ [last p]) = None" "d' = dset (r @ [last p]) Folder d"
    using assms by (auto simp: make_dir_def entry_of_Some split: option.splits if_splits)
  have "only_files (r @ [last p]) d d'" using r by (intro new_entry) (auto simp: opens_folder_def)
  from opens_kept[OF r(3) this] have o': "opens_folder d' (butlast p) r" .
  have "opened d' (butlast p @ [last p]) = Some (r @ [last p])"
    unfolding opens_snoc[OF o'] using r by (simp add: step_to_def)
  then show ?thesis using r by (auto simp: adds_folders_def stat_def node_at_def)
qed

lemma make_dirs_effect: "make_dirs d p = (d', b) \<Longrightarrow> adds_folders d d' \<and> (b \<longrightarrow> stat d' p = Some Folder)"
proof (induction d p arbitrary: d' b rule: make_dirs.induct)
  case (1 d p)
  note call = 1(2)[unfolded make_dirs.simps[of d p]]
  show ?case
  proof (cases "stat d p = Some Folder \<or> make_dir d p \<noteq> None \<or> p = []")
    case True
    then show ?thesis using call make_dir_effect[of d p] by (auto simp: adds_folders_def split: option.splits if_splits)
  next
    case False
    obtain d1 b1 where m: "make_dirs d (butlast p) = (d1, b1)" by fastforce
    have IH: "adds_folders d d1" using 1(1)[OF _ _ _ m] False by auto
    show ?thesis
    proof (cases b1)
      case False': False
      then show ?thesis using call False m IH by auto
    next
      case True
      show ?thesis
      proof (cases "make_dir d1 p")
        case None
        then show ?thesis using call False m IH True by auto
      next
        case (Some d2)
        then have "d' = d2" using call False m True by auto
        then show ?thesis using make_dir_effect[OF Some] adds_folders_trans[OF IH] by auto
      qed
    qed
  qed
qed

section \<open>Saving a file\<close>

definition tmp_name :: "file_env \<Rightarrow> loc \<Rightarrow> string" where
  "tmp_name e p = ''.'' @ last p @ ''.'' @ fe_unique e @ ''.tmp''"

lemma tmp_name_props: "tmp_name e p \<noteq> ''..''" "tmp_name e p \<noteq> last p" "tmp_of e p = butlast p @ [tmp_name e p]"
proof -
  have "length (tmp_name e p) > length (last p)" "length (tmp_name e p) > 2" by (simp_all add: tmp_name_def)
  then show "tmp_name e p \<noteq> ''..''" "tmp_name e p \<noteq> last p" by auto
qed (simp add: tmp_of_def tmp_name_def)

text \<open>The temporary file in its directory, while only it was changed.\<close>

lemma tmp_opened:
  assumes "opens_folder d q r" "c \<noteq> ''..''" "dget d (r @ [c]) = None" "\<forall>l. l \<noteq> r @ [c] \<longrightarrow> dget d' l = dget d l"
    and "dget d' (r @ [c]) \<noteq> None \<longrightarrow> (\<exists>m bs. dget d' (r @ [c]) = Some (Doc m bs))"
  shows "opens_folder d' q r \<and> opened d' (q @ [c]) = Some (r @ [c])"
proof -
  have o': "opens_folder d' q r" using assms by (intro opens_kept[OF assms(1) new_entry]) (auto simp: opens_folder_def)
  show ?thesis using o' assms(2,5) unfolding opens_snoc[OF o'] by (auto simp: step_to_def split: option.split)
qed

lemma put_file_folder: "put_file (q @ [c]) bs d = Some d' \<Longrightarrow> \<exists>r. opens_folder d q r"
  by (auto simp: put_file_def opened_def opens_folder_def split: option.splits dest!: follow_append1 dest: follow_folder)

text \<open>No file and no link has the name.\<close>

definition unused_name :: "disk \<Rightarrow> string \<Rightarrow> bool" where
  "unused_name d c = (\<forall>l. dget d (l @ [c]) = None \<or> dget d (l @ [c]) = Some Folder)"

lemma save_effect:
  assumes fresh: "unused_name d (tmp_name e p)" and s: "save e p mode bs d = (d', b)"
  shows "d' = d \<and> \<not> b \<or> (\<exists>r. opens_folder d (butlast p) r \<and> (\<forall>l. l \<noteq> r @ [last p] \<and> (l \<noteq> r @ [tmp_name e p] \<or> b) \<longrightarrow> dget d' l = dget d l)
    \<and> (if b then p \<noteq> [] \<and> last p \<noteq> ''..'' \<and> dget d' (r @ [last p]) = Some (Doc (case mode of None \<Rightarrow> 420 | Some m \<Rightarrow> m) bs)
       else dget d' (r @ [last p]) = dget d (r @ [last p])))"
proof (cases "put_file (tmp_of e p) bs d")
  case None
  then show ?thesis using s by (simp add: save_def)
next
  case (Some d1)
  let ?c = "tmp_name e p" and ?q = "butlast p"
  note t = tmp_name_props[of e p]
  obtain r where r: "opens_folder d ?q r" using put_file_folder Some t(3) by metis
  let ?t = "r @ [?c]"
  let ?m = "case mode of None \<Rightarrow> 420 | Some m \<Rightarrow> m"
  have fr: "dget d ?t = None"
  proof (rule ccontr)
    assume "dget d ?t \<noteq> None"
    then have "dget d ?t = Some Folder" using fresh[unfolded unused_name_def, rule_format, of r] by (elim disjE) simp_all
    moreover from this have "opened d (?q @ [?c]) = Some ?t" unfolding opens_snoc[OF r] using t(1) by (simp add: step_to_def)
    ultimately show False using Some by (simp add: put_file_def t(3) node_at_def)
  qed
  have "opened d (?q @ [?c]) = Some ?t" using tmp_opened[OF r t(1) fr] fr by blast
  then have d1: "d1 = dset ?t (Doc 420 bs) d" using Some fr by (simp add: put_file_def t(3) node_at_def)
  have o1: "opened d1 (?q @ [?c]) = Some ?t" using tmp_opened[OF r t(1) fr, of d1] by (simp add: d1)
  let ?d2 = "case mode of None \<Rightarrow> d1 | Some m \<Rightarrow> change_mode m (tmp_of e p) d1"
  have d2: "dget ?d2 ?t = Some (Doc ?m bs)" "\<forall>l. l \<noteq> ?t \<longrightarrow> dget ?d2 l = dget d l"
    using o1 by (auto simp: change_mode_def t(3) node_at_def d1 split: option.split)
  have o2: "opens_folder ?d2 ?q r" using tmp_opened[OF r t(1) fr d2(2)] d2(1) by blast
  have e1: "entry_of ?d2 (tmp_of e p) = Some ?t" using o2 t by (auto simp: entry_of_Some)
  show ?thesis
  proof (cases "p \<noteq> [] \<and> last p \<noteq> ''..'' \<and> dget d (r @ [last p]) \<noteq> Some Folder")
    case True
    then have e2: "entry_of ?d2 p = Some (r @ [last p])" using o2 by (auto simp: entry_of_Some)
    have "dget ?d2 (r @ [last p]) \<noteq> Some Folder" using d2(2) t(2) True by (metis butlast_snoc last_snoc)
    then have "rename_to (tmp_of e p) p ?d2 = Some (dset (r @ [last p]) (Doc ?m bs) (ddel ?t ?d2))"
      using e1 e2 d2(1) t(2) by (simp add: rename_to_def)
    then have "d' = dset (r @ [last p]) (Doc ?m bs) (ddel ?t ?d2)" "b" using s Some by (simp_all add: save_def Let_def)
    then show ?thesis using r d2 t(2) True fr by auto
  next
    case False
    then have "rename_to (tmp_of e p) p ?d2 = None"
    proof (cases "entry_of ?d2 p")
      case (Some l)
      then obtain r' where r': "p \<noteq> []" "last p \<noteq> ''..''" "opens_folder ?d2 ?q r'" "l = r' @ [last p]" by (auto simp: entry_of_Some)
      then have "r' = r" using o2 by (simp add: opens_folder_def)
      then have "dget ?d2 l = Some Folder" using False r' d2(2) t(2) by auto
      then show ?thesis using e1 Some d2(1) by (simp add: rename_to_def)
    qed (simp add: rename_to_def e1)
    then have "d' = ?d2" "\<not> b" using s Some by (simp_all add: save_def Let_def)
    then show ?thesis using r d2 t(2) by auto
  qed
qed

lemma unused_kept:
  assumes "unused_name d c" "adds_folders d d'" shows "unused_name d' c"
  unfolding unused_name_def
proof
  fix l
  show "dget d' (l @ [c]) = None \<or> dget d' (l @ [c]) = Some Folder"
    using assms(1)[unfolded unused_name_def, rule_format, of l] assms(2)[unfolded adds_folders_def, rule_format, of "l @ [c]"] by auto
qed

section \<open>What the tools can reach\<close>

lemma workspace_snoc: "in_workspace r \<Longrightarrow> in_workspace (r @ [c])"
  by (auto simp: in_workspace_def strict_prefix_def)

lemma check_parent_None: "check_parent d p = None \<Longrightarrow> opens_folder d p r \<Longrightarrow> in_workspace r"
  using opens_real[of d p r] by (auto simp: check_parent_def split: if_splits)

lemma save_confined:
  assumes "unused_name d (tmp_name e p)" "check_parent d (butlast p) = None" "save e p mode bs d = (d', b)" "\<not> in_workspace l"
  shows "dget d' l = dget d l"
  using save_effect[OF assms(1,3)]
proof
  assume "\<exists>r. opens_folder d (butlast p) r \<and> (\<forall>l. l \<noteq> r @ [last p] \<and> (l \<noteq> r @ [tmp_name e p] \<or> b) \<longrightarrow> dget d' l = dget d l)
    \<and> (if b then p \<noteq> [] \<and> last p \<noteq> ''..'' \<and> dget d' (r @ [last p]) = Some (Doc (case mode of None \<Rightarrow> 420 | Some m \<Rightarrow> m) bs)
       else dget d' (r @ [last p]) = dget d (r @ [last p]))"
  then obtain r where r: "opens_folder d (butlast p) r" and same: "\<forall>l. l \<noteq> r @ [last p] \<and> (l \<noteq> r @ [tmp_name e p] \<or> b) \<longrightarrow> dget d' l = dget d l" by blast
  have "in_workspace r" by (rule check_parent_None[OF assms(2) r])
  then have "l \<noteq> r @ [last p]" "l \<noteq> r @ [tmp_name e p]" using assms(4) workspace_snoc by auto
  then show ?thesis using same by blast
qed simp

text \<open>The ways a call ends: nothing was done, or only directories were made, or the file was saved.\<close>

lemma write_cases:
  assumes "write_tool e p c d = (d', r)"
  obtains x where "d' = d" "r = Refused x"
  | d1 b where "make_dirs d (butlast (path_of e p)) = (d1, b)" "d' = d1" "\<forall>t. r \<noteq> Fine t"
  | d1 b where "check_path e d p = None" "make_dirs d (butlast (path_of e p)) = (d1, True)" "check_parent d1 (butlast (path_of e p)) = None"
      "stat d1 (path_of e p) \<noteq> Some Folder" "save e (path_of e p) (mode_of (stat d1 (path_of e p))) (utf8 c) d1 = (d', b)"
      "r = (if b then Fine (''[OK] Written: '' @ p) else Refused Os_error)"
proof (cases "check_path e d p = None \<and> length (utf8 c) \<le> WRITE_LIMIT")
  case False
  then show thesis using assms that(1) by (auto simp: write_tool_def split: option.splits if_splits)
next
  case True
  obtain d1 b where m: "make_dirs d (butlast (path_of e p)) = (d1, b)" by fastforce
  obtain d2 b2 where s: "save e (path_of e p) (mode_of (stat d1 (path_of e p))) (utf8 c) d1 = (d2, b2)" by fastforce
  show thesis
  proof (cases "b \<and> check_parent d1 (butlast (path_of e p)) = None \<and> stat d1 (path_of e p) \<noteq> Some Folder")
    case False
    then have "d' = d1" "\<forall>t. r \<noteq> Fine t" using assms True m by (auto simp: write_tool_def Let_def split: option.splits if_splits bool.splits)
    then show thesis using that(2) m by blast
  next
    case True': True
    then have "d' = d2" "r = (if b2 then Fine (''[OK] Written: '' @ p) else Refused Os_error)"
      using assms True m s by (auto simp: write_tool_def Let_def split: if_splits bool.splits)
    then show thesis using True True' m s by (intro that(3)[of d1 b2]) auto
  qed
qed

lemma edit_cases:
  assumes "edit_tool e p old new d = (d', r)"
  obtains x where "d' = d" "r = Refused x"
  | m bs b where "check_path e d p = None" "check_parent d (butlast (path_of e p)) = None" "stat d (path_of e p) = Some (Doc m bs)"
      "find_sub old (unix_lines (fe_decode e bs)) \<noteq> None" "count_sub old (unix_lines (fe_decode e bs)) \<le> 1"
      "save e (path_of e p) (Some m) (utf8 (replace_once old new (unix_lines (fe_decode e bs)))) d = (d', b)"
      "r = (if b then Fine (''[OK] Edited: '' @ p) else Refused Os_error)"
proof (cases "check_path e d p = None \<and> check_parent d (butlast (path_of e p)) = None \<and> (\<exists>m bs. stat d (path_of e p) = Some (Doc m bs))")
  case False
  then have "\<exists>x. edit_tool e p old new d = (d, Refused x)" by (auto simp: edit_tool_def Let_def split: option.split node.split)
  then show thesis using assms that(1) by auto
next
  case True
  then obtain m bs where s: "stat d (path_of e p) = Some (Doc m bs)" by blast
  let ?t = "unix_lines (fe_decode e bs)"
  obtain d2 b where v: "save e (path_of e p) (Some m) (utf8 (replace_once old new ?t)) d = (d2, b)" by fastforce
  have call: "edit_tool e p old new d = (if find_sub old ?t = None then (d, Refused Not_found)
      else if count_sub old ?t > 1 then (d, Refused (Ambiguous (count_sub old ?t)))
      else if length (utf8 (replace_once old new ?t)) > WRITE_LIMIT then (d, Refused Too_big)
      else (d2, if b then Fine (''[OK] Edited: '' @ p) else Refused Os_error))"
    using True s v by (simp add: edit_tool_def Let_def)
  show thesis using assms that(1) that(2)[OF _ _ s] True v unfolding call by (auto split: if_splits)
qed

lemma write_confined:
  assumes "unused_name d (tmp_name e (path_of e p))" "write_tool e p c d = (d', r)" "\<not> in_workspace l"
  shows "dget d' l = dget d l \<or> dget d l = None \<and> dget d' l = Some Folder"
  using assms(2)
proof (cases rule: write_cases)
  case (2 d1 b)
  then show ?thesis using make_dirs_effect[OF 2(1)] by (auto simp: adds_folders_def)
next
  case (3 d1 b)
  then have a: "adds_folders d d1" using make_dirs_effect by blast
  have "dget d' l = dget d1 l" by (rule save_confined[OF unused_kept[OF assms(1) a] 3(3,5) assms(3)])
  then show ?thesis using a by (auto simp: adds_folders_def)
qed simp

lemma edit_confined:
  assumes "unused_name d (tmp_name e (path_of e p))" "edit_tool e p old new d = (d', r)" "\<not> in_workspace l"
  shows "dget d' l = dget d l"
  using assms(2)
proof (cases rule: edit_cases)
  case (2 m bs b)
  show ?thesis by (rule save_confined[OF assms(1) 2(2,6) assms(3)])
qed simp

lemma read_confined:
  assumes "read_tool e d p = Fine t"
  shows "\<exists>q m bs. real_path d (path_of e p) = Some q \<and> in_workspace q \<and> dget d q = Some (Doc m bs)"
proof -
  obtain q where q: "real_path d (path_of e p) = Some q" "in_workspace q"
    using assms by (auto simp: read_tool_def check_path_def split: option.splits if_splits)
  obtain m bs where s: "stat d (path_of e p) = Some (Doc m bs)"
    using assms by (auto simp: read_tool_def split: option.splits node.splits)
  then obtain q' where q': "opened d (path_of e p) = Some q'" "node_at d q' = Some (Doc m bs)" by (auto simp: stat_def split: option.splits)
  then have "q' = q" using opened_real[of d "[]" "path_of e p" q'] q(1) by (simp add: opened_def real_path_def)
  then show ?thesis using q q'(2) by (auto simp: node_at_def split: if_splits)
qed

text \<open>
  Whatever path the model gives, with parent references and through any symbolic links, Read returns only
  what a file in the workspace holds, and Edit changes nothing outside.  Write may leave new directories
  outside, since it makes the parents before it looks where they are, but changes nothing else there.
  (Nothing may carry the name of the temporary file, which is opened through a link.)
\<close>

theorem tools_confined:
  assumes "unused_name d (tmp_name e (path_of e p))"
  shows "(read_tool e d p = Fine t \<longrightarrow> (\<exists>q m bs. real_path d (path_of e p) = Some q \<and> in_workspace q \<and> dget d q = Some (Doc m bs)))
    \<and> (\<not> in_workspace l \<longrightarrow> dget (fst (edit_tool e p old new d)) l = dget d l
        \<and> (dget (fst (write_tool e p c d)) l = dget d l \<or> dget d l = None \<and> dget (fst (write_tool e p c d)) l = Some Folder))"
  using read_confined edit_confined[OF assms, of old new "fst (edit_tool e p old new d)" "snd (edit_tool e p old new d)" l]
    write_confined[OF assms, of c "fst (write_tool e p c d)" "snd (write_tool e p c d)" l] by auto

definition demo_files :: file_env where
  "demo_files = \<lparr>fe_cwd = [''workspace'', ''group''], fe_decode = decode_ignore, fe_unique = ''7.1''\<rparr>"

definition demo_disk :: disk where
  "demo_disk = [([''workspace''], Folder), ([''workspace'', ''group''], Folder), ([''etc''], Folder), ([''etc'', ''passwd''], Doc 420 (utf8 ''root'')),
     ([''workspace'', ''group'', ''evil''], Link ''/etc''), ([''workspace'', ''group'', ''a.sh''], Doc 493 (utf8 ''echo one''))]"

lemma demo_unused: "unused_name demo_disk (tmp_name demo_files p)" if "last p \<noteq> ''x''" for p
proof -
  have "suffix ''.tmp'' (tmp_name demo_files p)" by (simp add: tmp_name_def suffix_def)
  moreover have "\<forall>l \<in> set (dkeys demo_disk). \<not> suffix ''.tmp'' (last l)" by code_simp
  ultimately have "l @ [tmp_name demo_files p] \<notin> set (dkeys demo_disk)" for l by (metis last_snoc)
  then show ?thesis by (simp add: unused_name_def dget_None_iff)
qed

theorem tools_confined_witness:
  "read_tool demo_files demo_disk ''evil/passwd'' = Refused Outside
    \<and> dget (fst (write_tool demo_files ''evil/passwd'' ''x'' demo_disk)) [''etc'', ''passwd''] = Some (Doc 420 (utf8 ''root''))
    \<and> dget (fst (write_tool demo_files ''/tmp/x/../../workspace/group/f'' ''x'' demo_disk)) [''tmp'', ''x''] = Some Folder"
proof -
  have r: "read_tool demo_files demo_disk ''evil/passwd'' = Refused Outside" by code_simp
  have w: "dget (fst (write_tool demo_files ''/tmp/x/../../workspace/group/f'' ''x'' demo_disk)) [''tmp'', ''x''] = Some Folder"
  proof -
    let ?p = "''/tmp/x/../../workspace/group/f''"
    let ?q = "path_of demo_files ?p" and ?w = "\<lambda>d. save demo_files (path_of demo_files ?p) (mode_of (stat d (path_of demo_files ?p))) (utf8 ''x'') d"
    obtain d b where m: "make_dirs demo_disk (butlast ?q) = (d, b)" by fastforce
    have c: "check_path demo_files demo_disk ?p = None" "\<not> length (utf8 ''x'') > WRITE_LIMIT" by (code_simp, simp add: WRITE_LIMIT_def utf8_def utf8_char_def)
    have "(case make_dirs demo_disk (butlast ?q) of (d, b) \<Rightarrow> b \<and> check_parent d (butlast ?q) = None \<and> stat d ?q \<noteq> Some Folder
        \<and> dget (fst (?w d)) [''tmp'', ''x''] = Some Folder \<and> snd (?w d))" by code_simp
    then have "b" "check_parent d (butlast ?q) = None" "stat d ?q \<noteq> Some Folder" "dget (fst (?w d)) [''tmp'', ''x''] = Some Folder" "snd (?w d)"
      by (simp_all add: m)
    then show ?thesis using c m by (cases "?w d") (simp add: write_tool_def Let_def)
  qed
  have "dget demo_disk [''etc'', ''passwd''] = Some (Doc 420 (utf8 ''root''))" "\<not> in_workspace [''etc'', ''passwd'']" by code_simp+
  moreover have "last (path_of demo_files ''evil/passwd'') \<noteq> ''x''" by code_simp
  ultimately show ?thesis using tools_confined[OF demo_unused, of "''evil/passwd''" _ "[''etc'', ''passwd'']"] r w by simp
qed

section \<open>What was written is read\<close>

text \<open>A saved file is found under its path.\<close>

lemma saved:
  assumes "opens_folder d (butlast p) r" "stat d p \<noteq> Some Folder" "unused_name d (tmp_name e p)" "save e p mode bs d = (d', True)"
  shows "opened d' p = Some (r @ [last p]) \<and> entry_of d p = Some (r @ [last p])
    \<and> dget d' (r @ [last p]) = Some (Doc (case mode of None \<Rightarrow> 420 | Some m \<Rightarrow> m) bs) \<and> (\<forall>l. l \<noteq> r @ [last p] \<longrightarrow> dget d' l = dget d l)"
proof -
  let ?L = "r @ [last p]"
  obtain r' where "opens_folder d (butlast p) r'"
    and s: "\<forall>l. l \<noteq> r' @ [last p] \<longrightarrow> dget d' l = dget d l" "p \<noteq> []" "last p \<noteq> ''..''"
      "dget d' (r' @ [last p]) = Some (Doc (case mode of None \<Rightarrow> 420 | Some m \<Rightarrow> m) bs)"
    using save_effect[OF assms(3,4)] by auto
  then have "r' = r" using assms(1) by (simp add: opens_folder_def)
  note s = s[unfolded this]
  have q: "butlast p @ [last p] = p" using s(2) by simp
  have "\<not> folder_at d b" if "follow True d r [last p] = Some b" for b
  proof
    assume "folder_at d b"
    then have "stat d (butlast p @ [last p]) = Some Folder"
      using that assms(1) unfolding stat_def opens_snoc[OF assms(1)] by (simp add: follow_Cons folder_at_def opens_folder_def)
    then show False using assms(2) q by simp
  qed
  then have "only_files ?L d d'" using assms(1) s by (auto simp: only_files_def opens_folder_def)
  then have o': "opens_folder d' (butlast p) r" by (rule opens_kept[OF assms(1)])
  have "opened d' (butlast p @ [last p]) = Some ?L" unfolding opens_snoc[OF o'] using s(3,4) by (simp add: step_to_def)
  then show ?thesis using s q assms(1) by (auto simp: entry_of_Some)
qed

lemma check_path_cong: "check_path e d p = None \<Longrightarrow> real_path d' (path_of e p) = Some q \<Longrightarrow> in_workspace q \<Longrightarrow> check_path e d' p = None"
  by (auto simp: check_path_def split: if_splits)

lemma existing_parent: "stat d q = Some (Doc m bs) \<Longrightarrow> stat d (butlast q) = Some Folder"
proof -
  assume s: "stat d q = Some (Doc m bs)"
  then have "q \<noteq> []" by (auto simp: stat_def opened_def node_at_def)
  then have "opened d (butlast q @ [last q]) \<noteq> None" using s by (auto simp: stat_def split: option.splits)
  then obtain b where "follow True d [] (butlast q) = Some b" "follow True d b [last q] \<noteq> None"
    unfolding opened_def using follow_append1 by fastforce
  then have "opens_folder d (butlast q) b" by (auto simp: opens_folder_def opened_def dest: follow_folder)
  then show ?thesis by (auto simp: stat_folder)
qed

text \<open>
  C31: What Write saved is what Read returns for the same path, in any tree of links, as long as no temporary
  name is taken and the text is no larger than Read shows and not taken for binary; only line ends are
  read as line feeds.  The permissions of a file that was there are kept, and at all other places at
  most missing parents were added.
\<close>

theorem written_is_read:
  assumes "unused_name d (tmp_name e (path_of e p))" "write_tool e p c d = (d', Fine t)"
    and "fe_decode e (utf8 c) = c" "\<not> is_binary (utf8 c)" "length (utf8 c) \<le> READ_LIMIT"
  shows "read_tool e d' p = Fine (''[OK] '' @ p @ nl @ unix_lines c)
    \<and> (\<forall>m bs. stat d (path_of e p) = Some (Doc m bs) \<longrightarrow> stat d' (path_of e p) = Some (Doc m (utf8 c)))
    \<and> (\<exists>l. real_path d' (path_of e p) = Some l \<and> in_workspace l \<and> (\<forall>k. k \<noteq> l \<longrightarrow> dget d' k = dget d k \<or> dget d k = None \<and> dget d' k = Some Folder))"
  using assms(2)
proof (cases rule: write_cases)
  case (3 d1 b)
  let ?q = "path_of e p"
  have a: "adds_folders d d1" "stat d1 (butlast ?q) = Some Folder" using make_dirs_effect[OF 3(2)] by simp_all
  then obtain r where r: "opens_folder d1 (butlast ?q) r" by (auto simp: stat_folder)
  have b using 3(6) by (simp split: if_splits)
  note v = saved[OF r 3(4) unused_kept[OF assms(1) a(1)] 3(5)[unfolded \<open>b\<close>[THEN eqTrueI]]]
  let ?L = "r @ [last ?q]"
  have w: "in_workspace ?L" using check_parent_None[OF 3(3) r] by (rule workspace_snoc)
  have rp: "real_path d' ?q = Some ?L" using v opened_real[of d' "[]" ?q ?L] by (simp add: opened_def real_path_def)
  have m: "stat d' ?q = Some (Doc (case mode_of (stat d1 ?q) of None \<Rightarrow> 420 | Some m \<Rightarrow> m) (utf8 c))"
    using v by (simp add: stat_def node_at_def)
  have "read_tool e d' p = Fine (''[OK] '' @ p @ nl @ unix_lines c)"
    using check_path_cong[OF 3(1) rp w] m assms(3-5) by (simp add: read_tool_def)
  moreover have "stat d' ?q = Some (Doc k (utf8 c))" if "stat d ?q = Some (Doc k bs)" for k bs
  proof -
    have "make_dirs d (butlast ?q) = (d, True)" using existing_parent[OF that] by (simp add: make_dirs.simps[of d "butlast ?q"])
    then have "d1 = d" using 3(2) by simp
    then show ?thesis using m that by (simp add: mode_of_def)
  qed
  moreover have "\<forall>k. k \<noteq> ?L \<longrightarrow> dget d' k = dget d k \<or> dget d k = None \<and> dget d' k = Some Folder"
    using v a(1) by (simp add: adds_folders_def)
  ultimately show ?thesis using rp w by blast
qed (use assms(2) in auto)

theorem written_is_read_witness:
  "read_tool demo_files (fst (write_tool demo_files ''new/b.md'' ''one'' demo_disk)) ''new/b.md'' = Fine (''[OK] new/b.md'' @ nl @ ''one'')
    \<and> stat (fst (write_tool demo_files ''a.sh'' ''one'' demo_disk)) (path_of demo_files ''a.sh'') = Some (Doc 493 (utf8 ''one''))"
proof -
  have ok: "\<exists>t. snd (write_tool demo_files p ''one'' demo_disk) = Fine t"
    if "check_path demo_files demo_disk p = None \<and> (case make_dirs demo_disk (butlast (path_of demo_files p)) of (d, b) \<Rightarrow>
      b \<and> check_parent d (butlast (path_of demo_files p)) = None \<and> stat d (path_of demo_files p) \<noteq> Some Folder
      \<and> snd (save demo_files (path_of demo_files p) (mode_of (stat d (path_of demo_files p))) (utf8 ''one'') d))" for p
  proof -
    have "\<not> length (utf8 ''one'') > WRITE_LIMIT" by (simp add: WRITE_LIMIT_def utf8_def utf8_char_def)
    then show ?thesis using that by (auto simp: write_tool_def Let_def split: prod.splits option.splits bool.splits)
  qed
  have "\<exists>t. snd (write_tool demo_files ''new/b.md'' ''one'' demo_disk) = Fine t" by (rule ok) code_simp
  then obtain t1 where 1: "write_tool demo_files ''new/b.md'' ''one'' demo_disk = (fst (write_tool demo_files ''new/b.md'' ''one'' demo_disk), Fine t1)"
    by (metis prod.collapse)
  have "\<exists>t. snd (write_tool demo_files ''a.sh'' ''one'' demo_disk) = Fine t" by (rule ok) code_simp
  then obtain t2 where 2: "write_tool demo_files ''a.sh'' ''one'' demo_disk = (fst (write_tool demo_files ''a.sh'' ''one'' demo_disk), Fine t2)"
    by (metis prod.collapse)
  have "\<not> is_binary (utf8 ''one'')" "unix_lines ''one'' = ''one''" by code_simp+
  moreover have "length (utf8 ''one'') \<le> READ_LIMIT" by (simp add: READ_LIMIT_def utf8_def utf8_char_def Let_def)
  moreover have "fe_decode demo_files (utf8 ''one'') = ''one''" by (simp only: demo_files_def file_env.simps decode_utf8)
  ultimately have h: "fe_decode demo_files (utf8 ''one'') = ''one''" "\<not> is_binary (utf8 ''one'')" "length (utf8 ''one'') \<le> READ_LIMIT" "unix_lines ''one'' = ''one''"
    by simp_all
  have "last (path_of demo_files ''new/b.md'') \<noteq> ''x''" "last (path_of demo_files ''a.sh'') \<noteq> ''x''"
    and m: "stat demo_disk (path_of demo_files ''a.sh'') = Some (Doc 493 (utf8 ''echo one''))" by code_simp+
  then show ?thesis
    using written_is_read[OF demo_unused 1 h(1-3)] written_is_read[OF demo_unused 2 h(1-3)] h(4) by auto
qed

section \<open>An edit\<close>

lemma find_sub_split: "find_sub p s = Some i \<Longrightarrow> s = take i s @ p @ drop (i + length p) s \<and> i + length p \<le> length s"
proof (induction s arbitrary: i)
  case (Cons c s)
  show ?case
  proof (cases "prefix p (c # s)")
    case True
    then have "i = 0" using Cons.prems by simp
    moreover obtain zs where "c # s = p @ zs" using True by (auto simp: prefix_def)
    moreover from this have "length p \<le> length (c # s)" by simp
    ultimately show ?thesis by simp
  next
    case False
    then obtain j where "find_sub p s = Some j" "i = Suc j" using Cons.prems by auto
    then show ?thesis using Cons.IH by auto
  qed
qed (auto split: if_splits)

lemma count_sub_first: "p \<noteq> [] \<Longrightarrow> count_sub p s = (case find_sub p s of None \<Rightarrow> 0 | Some i \<Rightarrow> Suc (count_sub p (drop (i + length p) s)))"
proof (induction s)
  case (Cons c s)
  then show ?case by (subst count_sub.simps) (auto split: option.split)
qed (simp add: count_sub.simps)

text \<open>
  An edit replaces the first and only occurrence of the old text (another one could only overlap it); the
  permissions and all other files stay.  The rest of the file is kept except that its line ends become
  line feeds; a link is replaced by a file, and what it led to is left as it was.
\<close>

theorem edit_exact:
  assumes "unused_name d (tmp_name e (path_of e p))" "edit_tool e p old new d = (d', Fine t)" "old \<noteq> []"
  shows "\<exists>m bs before after l. stat d (path_of e p) = Some (Doc m bs) \<and> unix_lines (fe_decode e bs) = before @ old @ after
    \<and> find_sub old (before @ old @ after) = Some (length before) \<and> find_sub old after = None
    \<and> stat d' (path_of e p) = Some (Doc m (utf8 (before @ new @ after)))
    \<and> entry_of d (path_of e p) = Some l \<and> in_workspace l \<and> (\<forall>k. k \<noteq> l \<longrightarrow> dget d' k = dget d k)"
  using assms(2)
proof (cases rule: edit_cases)
  case (2 m bs b)
  let ?q = "path_of e p" and ?t = "unix_lines (fe_decode e bs)"
  have b using 2(7) by (simp split: if_splits)
  obtain i where i: "find_sub old ?t = Some i" using 2(4) by blast
  note sp = find_sub_split[OF i]
  have "count_sub old (drop (i + length old) ?t) = 0" using 2(5) i by (simp add: count_sub_first[OF assms(3), of ?t])
  then have after: "find_sub old (drop (i + length old) ?t) = None" by (simp add: count_sub_first[OF assms(3)] split: option.splits)
  obtain r where r: "opens_folder d (butlast ?q) r" using existing_parent[OF 2(3)] by (auto simp: stat_folder)
  note v = saved[OF r _ assms(1) 2(6)[unfolded \<open>b\<close>[THEN eqTrueI]]]
  have "stat d ?q \<noteq> Some Folder" using 2(3) by simp
  note v = v[OF this]
  have "in_workspace (r @ [last ?q])" using check_parent_None[OF 2(2) r] by (rule workspace_snoc)
  moreover have "stat d' ?q = Some (Doc m (utf8 (take i ?t @ new @ drop (i + length old) ?t)))"
    using v i by (simp add: stat_def node_at_def replace_once_def)
  moreover have "length (take i ?t) = i" using sp by simp
  ultimately show ?thesis using 2(3) sp i after v
    by (intro exI[of _ m] exI[of _ bs] exI[of _ "take i ?t"] exI[of _ "drop (i + length old) ?t"] exI[of _ "r @ [last ?q]"]) auto
qed simp

theorem edit_exact_witness:
  "\<exists>l. entry_of demo_disk (path_of demo_files ''a.sh'') = Some l \<and> in_workspace l
    \<and> (\<forall>k. k \<noteq> l \<longrightarrow> dget (fst (edit_tool demo_files ''a.sh'' ''one'' ''two'' demo_disk)) k = dget demo_disk k)"
proof -
  let ?q = "path_of demo_files ''a.sh''"
  have "check_path demo_files demo_disk ''a.sh'' = None \<and> check_parent demo_disk (butlast ?q) = None \<and> stat demo_disk ?q = Some (Doc 493 (utf8 ''echo one''))
    \<and> unix_lines (fe_decode demo_files (utf8 ''echo one'')) = ''echo one'' \<and> find_sub ''one'' ''echo one'' = Some 5 \<and> count_sub ''one'' ''echo one'' = 1
    \<and> replace_once ''one'' ''two'' ''echo one'' = ''echo two'' \<and> snd (save demo_files ?q (Some 493) (utf8 ''echo two'') demo_disk)" by code_simp
  moreover have "\<not> length (utf8 ''echo two'') > WRITE_LIMIT" by (simp add: WRITE_LIMIT_def utf8_def utf8_char_def)
  ultimately have "snd (edit_tool demo_files ''a.sh'' ''one'' ''two'' demo_disk) = Fine ''[OK] Edited: a.sh''"
    by (auto simp: edit_tool_def Let_def split: prod.split bool.split)
  then have e: "edit_tool demo_files ''a.sh'' ''one'' ''two'' demo_disk
      = (fst (edit_tool demo_files ''a.sh'' ''one'' ''two'' demo_disk), Fine ''[OK] Edited: a.sh'')" by (metis prod.collapse)
  have "last ?q \<noteq> ''x''" by code_simp
  from edit_exact[OF demo_unused[OF this] e] show ?thesis by blast
qed

section \<open>Text that is taken for binary\<close>

text \<open>
  The test for binary files cuts the first 512 bytes, which may end inside a character: a text of characters
  of three bytes (Chinese, for instance) that is longer than that is never shown.
\<close>

definition three_bytes :: "nat list \<Rightarrow> bool" where
  "three_bytes u = (\<exists>a b c. u = [a, b, c] \<and> 225 \<le> a \<and> a \<le> 236 \<and> is_cont b \<and> is_cont c)"

lemma valid_three: "list_all three_bytes us \<Longrightarrow> valid_utf8 (concat us @ bs) = valid_utf8 bs"
  by (induction us) (auto simp: three_bytes_def)

lemma length_three: "list_all three_bytes us \<Longrightarrow> length (concat us) = 3 * length us"
  by (induction us) (auto simp: three_bytes_def)

lemma high_three: "list_all three_bytes us \<Longrightarrow> list_all (\<lambda>b. b > 127) (concat us)"
proof (induction us)
  case (Cons u us)
  have "b > 127" if "is_cont b" for b
  proof (rule ccontr)
    assume "\<not> b > 127"
    then have "b div 64 < 2" by (simp add: div_less_iff_less_mult)
    then show False using that by (simp add: is_cont_def)
  qed
  then show ?case using Cons by (auto simp: three_bytes_def)
qed simp

theorem long_text_refused:
  assumes "list_all three_bytes us" "length (concat us) > 512" "check_path e d p = None" "stat d (path_of e p) = Some (Doc m (concat us))"
  shows "read_tool e d p = Refused Binary_file"
proof -
  have n: "length us > 170" using assms(1,2) length_three[of us] by simp
  have "drop (Suc 170) us = drop 171 us" by simp
  then have us: "us = take 170 us @ us ! 170 # drop 171 us" using id_take_nth_drop[OF n] by metis
  have l: "list_all three_bytes (take 170 us)" "three_bytes (us ! 170)" using assms(1) n by (auto simp: list_all_length)
  obtain a b c where u: "us ! 170 = [a, b, c]" "225 \<le> a" "a \<le> 236" "is_cont b" using l(2) by (auto simp: three_bytes_def)
  have "concat us = concat (take 170 us) @ [a, b] @ c # concat (drop 171 us)" by (subst us) (simp add: u)
  moreover have "length (concat (take 170 us)) = 510" using length_three[OF l(1)] n by simp
  ultimately have t: "take 512 (concat us) = concat (take 170 us) @ [a, b]" by simp
  have v: "\<not> valid_utf8 (take 512 (concat us))" unfolding t valid_three[OF l(1)] using u by simp
  have "list_all (\<lambda>b. b > 127) (take 512 (concat us))" using high_three[OF assms(1)] unfolding list_all_iff by (blast dest: in_set_takeD)
  then have "filter (\<lambda>b. b > 127) (take 512 (concat us)) = take 512 (concat us)" by (simp add: filter_id_conv list_all_iff)
  moreover have "length (take 512 (concat us)) = 512" using assms(2) by simp
  moreover from this have "take 512 (concat us) \<noteq> []" by (metis length_0_conv zero_neq_numeral)
  ultimately have "is_binary (concat us)" using v by (simp only: is_binary_def Let_def) simp
  then show ?thesis using assms(3,4) by (simp add: read_tool_def)
qed

text \<open>What an agent is shown is found among the files of the workspace, with a note on the rest.\<close>

theorem glob_confined:
  assumes "glob_tool e d (Some ms) pattern p = Fine t"
  shows "t = ''No files found matching: '' @ pattern @ '' in '' @ p
    \<or> (\<exists>ok. set ok \<subseteq> set ms \<and> sorted ok \<and> length ok \<le> GLOB_MAX \<and> (\<forall>m \<in> set ok. \<exists>q. real_path d (path_of e m) = Some q \<and> in_workspace q)
         \<and> prefix (join nl ok) t)"
proof -
  let ?ok = "sort (filter (\<lambda>m. case real_path d (path_of e m) of None \<Rightarrow> False | Some q \<Rightarrow> in_workspace q) ms)"
  have s: "set ?ok \<subseteq> set ms" "\<forall>m \<in> set ?ok. \<exists>q. real_path d (path_of e m) = Some q \<and> in_workspace q" by (auto split: option.splits)
  consider "t = ''No files found matching: '' @ pattern @ '' in '' @ p" | "prefix (join nl (take GLOB_MAX ?ok)) t"
    using assms by (auto simp: glob_tool_def Let_def split: option.splits if_splits)
  then show ?thesis
  proof cases
    case 2
    have "set (take GLOB_MAX ?ok) \<subseteq> set ?ok" by (rule set_take_subset)
    then show ?thesis using 2 s by (intro disjI2 exI[of _ "take GLOB_MAX ?ok"]) (auto simp: sorted_wrt_take)
  qed simp
qed

end
