(* ===== verification/AgentMain.thy ===== *)
theory AgentMain
  imports AgentFiles AgentLoop AgentClaude AgentGemini ContainerRun
begin

text \<open>
  The entry point of the agent, \<open>main\<close> of \<open>container/agent-runner/agent.py\<close>: the provider that the keys call
  for, the instruction built from the files of the group, the limit on turns, the run of a loop, and the
  one object that is printed for the host.  Texts of the program that are not ASCII, and the pattern that
  hints are tested with, are arguments (record \<open>agent_texts\<close>); an exception is its text.
\<close>

section \<open>Keys and providers\<close>

type_synonym environ = "(string, string) dict"

record agent_texts =
  tx_base :: "string \<Rightarrow> string \<Rightarrow> string \<Rightarrow> string list"
  tx_no_soul :: string
  tx_memory :: "string \<Rightarrow> string"
  tx_identity :: string
  tx_tasks :: string
  tx_no_identity :: string
  tx_first :: string
  tx_level_b :: string
  tx_qwen :: string
  tx_keywords :: "string list"
  tx_bypass :: "string \<Rightarrow> bool"
  tx_image :: string
  tx_answer :: "answer \<Rightarrow> string"
  tx_empty :: string
  tx_quota :: string
  tx_who :: string
  tx_iam :: "string \<Rightarrow> string"

definition getenv :: "environ \<Rightarrow> string \<Rightarrow> string" where
  "getenv env k = (case dget env k of None \<Rightarrow> [] | Some v \<Rightarrow> v)"

text \<open>The secrets of the input become variables of the environment.\<close>

definition with_secrets :: "agent_input \<Rightarrow> environ \<Rightarrow> environ" where
  "with_secrets inp env = fold (\<lambda>(k, v). dset k v) (ai_secrets inp) env"

datatype backend = Use_openai | Use_claude | Use_gemini

text \<open>The pool of the provider that is used for each of the three interfaces.\<close>

definition pool_of :: "environ \<Rightarrow> backend \<Rightarrow> key_pool" where
  "pool_of env b = (case b of
     Use_openai \<Rightarrow> (let nim = new_pool (getenv env ''NIM_API_KEY'') in
       if current_key nim \<noteq> [] then nim else new_pool (getenv env ''OPENAI_API_KEY''))
   | Use_claude \<Rightarrow> new_pool (if truthy (dget env ''CLAUDE_API_KEY'') then getenv env ''CLAUDE_API_KEY'' else getenv env ''ANTHROPIC_API_KEY'')
   | Use_gemini \<Rightarrow> new_pool (getenv env ''GOOGLE_API_KEY''))"

definition has_key :: "environ \<Rightarrow> backend \<Rightarrow> bool" where
  "has_key env b = (current_key (pool_of env b) \<noteq> [])"

definition choose_backend :: "agent_texts \<Rightarrow> environ \<Rightarrow> string \<Rightarrow> backend" where
  "choose_backend tx env prompt =
     (if has_sub (tx_image tx) prompt \<and> has_key env Use_gemini then Use_gemini
      else if has_key env Use_openai then Use_openai
      else if has_key env Use_claude then Use_claude
      else Use_gemini)"

definition client_of :: "environ \<Rightarrow> backend \<Rightarrow> client" where
  "client_of env b = \<lparr>cl_key = current_key (pool_of env b), cl_pool = Some (pool_of env b)\<rparr>"

definition model_env :: "environ \<Rightarrow> string" where
  "model_env env = (if getenv env ''NIM_MODEL'' \<noteq> [] then getenv env ''NIM_MODEL'' else getenv env ''OPENAI_MODEL'')"

definition model_of :: "environ \<Rightarrow> backend \<Rightarrow> string" where
  "model_of env b = (case b of
     Use_openai \<Rightarrow> if model_env env \<noteq> [] then model_env env else ''meta/llama-3.3-70b-instruct''
   | Use_claude \<Rightarrow> (case dget env ''CLAUDE_MODEL'' of None \<Rightarrow> ''claude-3-5-haiku-latest'' | Some m \<Rightarrow> m)
   | Use_gemini \<Rightarrow> (case dget env ''GEMINI_MODEL'' of None \<Rightarrow> ''gemini-2.0-flash'' | Some m \<Rightarrow> m))"

section \<open>The limit on turns\<close>

definition LEVEL_B_KEYWORDS :: "string list" where
  "LEVEL_B_KEYWORDS = [''debug'', ''fix'', ''configure'', ''install'', ''optimize'', ''implement'', ''refactor'', ''analyze'', ''deploy'',
     ''multi-step'', ''step by step'', ''system'', ''migrate'', ''migration'', ''architecture'', ''write'', ''create'', ''generate'', ''search'',
     ''git'', ''docker'', ''python'', ''code'', ''report'', ''schedule'', ''plan'', ''test'', ''review'', ''audit'', ''monitor'', ''automate'',
     ''integrate'', ''pipeline'', ''compare'', ''summarize'', ''summarise'', ''npm'', ''pip'', ''yarn'', ''cargo'', ''make'', ''cmake'', ''gradle'',
     ''repo'', ''repository'', ''check'', ''list'', ''show'']"

definition is_level_b :: "agent_texts \<Rightarrow> string \<Rightarrow> bool" where
  "is_level_b tx prompt = (length prompt > 150 \<or> list_ex (\<lambda>k. has_sub k (lower prompt)) (LEVEL_B_KEYWORDS @ tx_keywords tx))"

definition max_turns :: "agent_texts \<Rightarrow> environ \<Rightarrow> string \<Rightarrow> int" where
  "max_turns tx env prompt = (let b = is_level_b tx prompt; base = (if b then 20 else 6); v = getenv env ''MAX_ITER'' in
     if v \<noteq> [] then (case py_int v of Some n \<Rightarrow> n | None \<Rightarrow> base)
     else if is_qwen (model_env env) then min base (if b then 12 else 5) else base)"

section \<open>The instruction\<close>

definition sanitize :: "nat \<Rightarrow> string \<Rightarrow> string" where
  "sanitize n s = take n (filter (\<lambda>c. (of_char c :: nat) \<ge> 32 \<or> c = CHR 0x0A \<or> c = CHR 0x09) s)"

function replace_all :: "string \<Rightarrow> string \<Rightarrow> string \<Rightarrow> string" where
  "replace_all p r s = (if s = [] \<or> p = [] then s
     else if prefix p s then r @ replace_all p r (drop (length p) s) else hd s # replace_all p r (tl s))"
  by pat_completeness auto
termination by (relation "measure (\<lambda>(p, r, s). length s)") auto

declare replace_all.simps [simp del]

definition GROUP_DIR :: string where "GROUP_DIR = ''/workspace/group''"
definition MEMORY_PATH :: string where "MEMORY_PATH = ''/workspace/group/MEMORY.md''"
definition MEMORY_READ_LIMIT :: nat where "MEMORY_READ_LIMIT = 524288"
definition SYS_MAX_CHARS :: nat where "SYS_MAX_CHARS = 200000"

text \<open>\<open>read_text(encoding="utf-8")\<close>: \<open>None\<close> where it raises.\<close>

definition strict_text :: "file_env \<Rightarrow> node \<Rightarrow> string option" where
  "strict_text e n = (case n of Doc _ bs \<Rightarrow> if valid_utf8 bs then Some (unix_lines (fe_decode e bs)) else None | _ \<Rightarrow> None)"

definition soul_lines :: "agent_texts \<Rightarrow> file_env \<Rightarrow> disk \<Rightarrow> loc \<Rightarrow> string list" where
  "soul_lines tx e d p = (case Option.bind (stat d p) (strict_text e) of
      None \<Rightarrow> [tx_no_soul tx]
    | Some t \<Rightarrow> if strip t = [] then [tx_no_soul tx] else [[], replace_all ''{{GROUP_FOLDER}}'' GROUP_DIR (strip t)])"

text \<open>What of the memory is shown: its beginning up to the task log and the end of that, or the end of it all.\<close>

definition memory_snippet :: "agent_texts \<Rightarrow> string \<Rightarrow> string" where
  "memory_snippet tx c = (case find_sub (tx_tasks tx) c of
      Some i \<Rightarrow> if has_sub (tx_identity tx) c then strip (take i c) @ nl @ nl @ take_last 3000 (drop i c) else take_last 4000 c
    | None \<Rightarrow> take_last 4000 c)"

definition memory_text :: "file_env \<Rightarrow> nat list \<Rightarrow> string" where
  "memory_text e bs = strip (if length bs > MEMORY_READ_LIMIT then fe_decode e (take_last MEMORY_READ_LIMIT bs) else unix_lines (fe_decode e bs))"

definition memory_lines :: "agent_texts \<Rightarrow> file_env \<Rightarrow> disk \<Rightarrow> string list" where
  "memory_lines tx e d = (case stat d (parts MEMORY_PATH) of
      None \<Rightarrow> [tx_first tx]
    | Some (Doc _ bs) \<Rightarrow> (let c = memory_text e bs in
        if c = [] then [] else [[], tx_memory tx (memory_snippet tx c)] @ (if has_sub (tx_identity tx) c then [] else [tx_no_identity tx]))
    | Some _ \<Rightarrow> [])"

definition claude_md_lines :: "file_env \<Rightarrow> disk \<Rightarrow> string list" where
  "claude_md_lines e d = concat (map (\<lambda>p. case stat d (parts p) of
      None \<Rightarrow> []
    | Some n \<Rightarrow> [] # (case strict_text e n of None \<Rightarrow> [] | Some t \<Rightarrow> [t])) [''/workspace/global/CLAUDE.md'', ''/workspace/group/CLAUDE.md''])"

definition prompt_lines :: "agent_texts \<Rightarrow> file_env \<Rightarrow> disk \<Rightarrow> loc \<Rightarrow> string \<Rightarrow> string \<Rightarrow> agent_input \<Rightarrow> string list" where
  "prompt_lines tx e d soul name hints inp =
     tx_base tx (sanitize 100 name) (sanitize 200 (ai_folder inp)) (sanitize 200 (ai_jid inp))
     @ soul_lines tx e d soul @ memory_lines tx e d
     @ (if is_level_b tx (ai_prompt inp) then [[], tx_level_b tx] else [])
     @ claude_md_lines e d
     @ (if hints = [] \<or> tx_bypass tx hints then [] else [hints])"

definition system_prompt :: "agent_texts \<Rightarrow> file_env \<Rightarrow> disk \<Rightarrow> loc \<Rightarrow> string \<Rightarrow> string \<Rightarrow> environ \<Rightarrow> agent_input \<Rightarrow> string" where
  "system_prompt tx e d soul name hints env inp =
     take SYS_MAX_CHARS (join nl (prompt_lines tx e d soul name hints inp)) @ (if is_qwen (model_env env) then tx_qwen tx else [])"

section \<open>A run\<close>

text \<open>
  The code outside: the three interfaces with the model's name and the instruction, which libraries are
  installed, and the parts of the world that \<open>main\<close> looks at (the disk, and whether \<open>send_message\<close> was called).
\<close>

record ('w, 'a, 'p) agent_code =
  ac_texts :: agent_texts
  ac_files :: file_env
  ac_soul :: loc
  ac_openai :: "string \<Rightarrow> ('w, 'a) openai_env"
  ac_claude :: "string \<Rightarrow> string \<Rightarrow> ('w, 'a) claude_env"
  ac_gemini :: "string \<Rightarrow> string \<Rightarrow> ('w, 'p, 'a) gemini_env"
  ac_installed :: "backend \<Rightarrow> bool"
  ac_disk :: "'w \<Rightarrow> disk"
  ac_sent :: "'w \<Rightarrow> bool"

definition history_turns :: "agent_input \<Rightarrow> (string \<times> string option) list" where
  "history_turns inp = map (\<lambda>(r, t). (case r of Assistant_turn \<Rightarrow> ''assistant'' | User_turn \<Rightarrow> ''user'', Some t)) (ai_history inp)"

definition run_loop :: "('w, 'a, 'p) agent_code \<Rightarrow> environ \<Rightarrow> backend \<Rightarrow> string \<Rightarrow> string \<Rightarrow> agent_input \<Rightarrow> 'w \<Rightarrow> 'w \<times> (string + answer)" where
  "run_loop ac env b sys name inp w =
     (let m = model_of env b; n = nat (max_turns (ac_texts ac) env (ai_prompt inp)); cl = client_of env b; ts = history_turns inp; q = ai_prompt inp in
      case b of
        Use_openai \<Rightarrow> (case run_agent_openai (ac_openai ac m) m sys ts q n cl w of (s, r) \<Rightarrow> (lo_world s, r))
      | Use_claude \<Rightarrow> (case run_agent_claude (ac_claude ac m sys) ts q n cl w of (s, r) \<Rightarrow> (lo_world s, r))
      | Use_gemini \<Rightarrow> (case run_agent_gemini (ac_gemini ac m sys) (tx_who (ac_texts ac)) (tx_iam (ac_texts ac) name) ts q n cl w of (s, r) \<Rightarrow> (lo_world s, r)))"

datatype agent_output = Out_success string string | Out_error string

definition answer_text :: "agent_texts \<Rightarrow> answer \<Rightarrow> string" where
  "answer_text tx a = (case a of Answer t \<Rightarrow> t | _ \<Rightarrow> tx_answer tx a)"

definition emitted :: "agent_texts \<Rightarrow> bool \<Rightarrow> answer \<Rightarrow> string" where
  "emitted tx sent a = (let t = strip (answer_text tx a) in
     if sent then [] else if t \<noteq> [] then t else tx_empty tx)"

definition finish_run :: "agent_texts \<Rightarrow> string \<Rightarrow> bool \<Rightarrow> string + answer \<Rightarrow> agent_output" where
  "finish_run tx sid sent r = (case r of
      Inr a \<Rightarrow> Out_success (emitted tx sent a) sid
    | Inl x \<Rightarrow> if has_sub ''429'' x \<or> has_sub ''RESOURCE_EXHAUSTED'' x then Out_success (tx_quota tx) sid else Out_error x)"

text \<open>The score that is reported to the evolution engine, in tenths, when its bridge is connected.\<close>

definition fitness_score :: "agent_texts \<Rightarrow> bool \<Rightarrow> string + answer \<Rightarrow> nat option" where
  "fitness_score tx sent r = (case r of
      Inl _ \<Rightarrow> None
    | Inr a \<Rightarrow> (let t = emitted tx sent a in
        Some (if sent \<or> t \<noteq> [] \<and> t \<noteq> tx_answer tx Nothing_to_say \<and> t \<noteq> tx_empty tx then 9 else 3)))"

definition main_loop :: "('w, 'a, 'p) agent_code \<Rightarrow> environ \<Rightarrow> string \<Rightarrow> string \<Rightarrow> agent_input \<Rightarrow> 'w \<Rightarrow> 'w \<times> (string + answer)" where
  "main_loop ac env name hints inp w =
     (let tx = ac_texts ac; name = (if name = [] then ''Eve'' else name) in
      run_loop ac env (choose_backend tx env (ai_prompt inp)) (system_prompt tx (ac_files ac) (ac_disk ac w) (ac_soul ac) name hints env inp) name inp w)"

definition agent_main ::
  "('w, 'a, 'p) agent_code \<Rightarrow> environ \<Rightarrow> string \<Rightarrow> string \<Rightarrow> string \<Rightarrow> agent_input option \<Rightarrow> 'w \<Rightarrow> 'w \<times> agent_output" where
  "agent_main ac env0 name hints new_id input w = (case input of
      None \<Rightarrow> (w, Out_error ''Invalid JSON input'')
    | Some inp \<Rightarrow>
        (let env = with_secrets inp env0; b = choose_backend (ac_texts ac) env (ai_prompt inp);
             sid = (if truthy (ai_session inp) then the (ai_session inp) else new_id) in
         if \<not> has_key env b then (w, Out_error ''No API key found'')
         else if \<not> ac_installed ac b then (w, Out_error ''package not installed'')
         else (case main_loop ac env name hints inp w of (w, r) \<Rightarrow> (w, finish_run (ac_texts ac) sid (ac_sent ac w) r))))"

text \<open>The object that is printed, as the host reads it.\<close>

definition printed :: "agent_output \<Rightarrow> reply" where
  "printed o' = (case o' of
      Out_success t sid \<Rightarrow> \<lparr>re_status = ''success'', re_result = Some t, re_session = Some sid, re_patch = No_patch\<rparr>
    | Out_error _ \<Rightarrow> \<lparr>re_status = ''error'', re_result = None, re_session = None, re_patch = No_patch\<rparr>)"

section \<open>The provider\<close>

lemma new_pool_key: "current_key (new_pool s) \<noteq> [] \<longleftrightarrow> kp_keys (new_pool s) \<noteq> []"
proof
  assume k: "kp_keys (new_pool s) \<noteq> []"
  then have "kp_keys (new_pool s) ! 0 \<in> set (kp_keys (new_pool s))" by (intro nth_mem) simp
  then have "kp_keys (new_pool s) ! 0 \<noteq> []" by (auto simp: new_pool_def)
  then show "current_key (new_pool s) \<noteq> []" using k by (simp add: current_key_def new_pool_def)
qed (auto simp: current_key_def)

text \<open>A provider is only used with a key of its own; without any key at all none is.\<close>

theorem provider_has_key:
  "has_key env (choose_backend tx env prompt) \<longleftrightarrow> (\<exists>b. has_key env b)"
proof
  assume "\<exists>b. has_key env b"
  then obtain b where "has_key env b" ..
  then show "has_key env (choose_backend tx env prompt)" by (cases b) (auto simp: choose_backend_def)
qed blast

theorem turns_bounded: "getenv env ''MAX_ITER'' = [] \<Longrightarrow> 5 \<le> max_turns tx env prompt \<and> max_turns tx env prompt \<le> 20"
  by (simp add: max_turns_def Let_def)

section \<open>What reaches the chat\<close>

text \<open>What a run should deliver.\<close>

definition delivered :: "agent_texts \<Rightarrow> bool \<Rightarrow> string + answer \<Rightarrow> string option" where
  "delivered tx sent r = (case r of
      Inl x \<Rightarrow> if has_sub ''429'' x \<or> has_sub ''RESOURCE_EXHAUSTED'' x then Some (tx_quota tx) else None
    | Inr a \<Rightarrow> if sent then None else if strip (answer_text tx a) \<noteq> [] then Some (strip (answer_text tx a)) else Some (tx_empty tx))"

lemma printed_result:
  assumes "tx_empty tx \<noteq> []" "tx_quota tx \<noteq> []"
  shows "(case re_result (printed (finish_run tx sid sent r)) of None \<Rightarrow> None | Some t \<Rightarrow> if t = [] then None else Some t) = delivered tx sent r"
  using assms by (auto simp: printed_def finish_run_def emitted_def delivered_def Let_def split: sum.split)


text \<open>A model that rejects the key.\<close>

definition demo_texts :: agent_texts where
  "demo_texts = \<lparr>tx_base = (\<lambda>_ _ _. []), tx_no_soul = ''be honest'', tx_memory = (\<lambda>m. ''Memory: '' @ m), tx_identity = ''## Identity'', tx_tasks = ''## Tasks'',
     tx_no_identity = ''who?'', tx_first = ''first'', tx_level_b = ''B'', tx_qwen = [], tx_keywords = [], tx_bypass = (\<lambda>_. False), tx_image = ''[image:'',
     tx_answer = (\<lambda>_. ''again''), tx_empty = ''empty'', tx_quota = ''quota'', tx_who = ''who'', tx_iam = (\<lambda>n. n)\<rparr>"

definition demo_code :: "(unit, unit, unit) agent_code" where
  "demo_code = \<lparr>ac_texts = demo_texts, ac_files = demo_files, ac_soul = [''soul''],
     ac_openai = (\<lambda>_. demo_agent\<lparr>ae_whole := (\<lambda>k q w. (w, Inl ''401''))\<rparr>), ac_claude = (\<lambda>_ _. undefined), ac_gemini = (\<lambda>_ _. undefined),
     ac_installed = (\<lambda>_. True), ac_disk = (\<lambda>_. []), ac_sent = (\<lambda>_. False)\<rparr>"

definition demo_input :: agent_input where
  "demo_input = \<lparr>ai_prompt = ''hi'', ai_session = None, ai_folder = ''team'', ai_jid = ''tg:1'', ai_main = False, ai_scheduled = False,
     ai_secrets = [(''OPENAI_API_KEY'', ''k'')], ai_env_hints = [], ai_style_hints = None, ai_history = [], ai_tasks = [], ai_run = ''r'', ai_hot = [], ai_agent = []\<rparr>"

lemma demo_main: "snd (main_loop demo_code [(''OPENAI_API_KEY'', ''k'')] [] [] demo_input ()) = Inl ''401''"
proof -
  have b: "choose_backend demo_texts [(''OPENAI_API_KEY'', ''k'')] ''hi'' = Use_openai" "max_turns demo_texts [(''OPENAI_API_KEY'', ''k'')] ''hi'' = 6" 
    "\<not> is_retryable ''401''" "\<not> is_retryable ''no stream''" "\<not> is_qwen (model_of [(''OPENAI_API_KEY'', ''k'')] Use_openai)" by code_simp+
  have up: "[0..<6] = 0 # [1..<6::nat]" by (simp add: upt_rec)
  let ?e = "demo_agent\<lparr>ae_whole := (\<lambda>k q w. (w, Inl ''401''))\<rparr>"
  have "snd (run_agent_openai ?e m sys [] q 6 cl ()) = Inl ''401''" if "\<not> is_qwen m" for m sys q cl
    using b(3,4) that unfolding run_agent_openai_def up
    by (simp add: new_loop_def agent_turn_def choose_tools_def ask_def request_model_def call_model_def Let_def MAX_ATTEMPTS_def numeral_3_eq_3 demo_agent_def)
  note this[OF b(5)]
  then show ?thesis using b(1,2)
    by (simp add: main_loop_def run_loop_def Let_def demo_code_def demo_input_def history_turns_def split: prod.split)
      (metis snd_conv)
qed


end
