(* ===== verification/KnowledgeGraph.thy ===== *)
theory KnowledgeGraph
  imports Prelude Complex_Main
begin

text \<open>
  The facts a group's memory holds about named things (\<open>host/memory/knowledge_graph.py\<close>): triples of a subject,
  a predicate and an object with the time they became and ceased to be valid.  The two tables are lists in the order of
  insertion; the hash is an argument, and \<open>time.time()\<close> an argument of every operation.
\<close>

section \<open>Tables\<close>

record entity =
  en_id :: string
  en_name :: string
  en_type :: string
  en_jid :: string
  en_at :: int

record triple =
  tr_id :: string
  tr_subject :: string
  tr_predicate :: string
  tr_object :: string
  tr_jid :: string
  tr_from :: int
  tr_to :: "int option"
  tr_confidence :: rat
  tr_source :: "string option"

record graph =
  kg_entities :: "entity list"
  kg_triples :: "triple list"

definition HARD_UPDATE_PREDICATES :: "string list" where
  "HARD_UPDATE_PREDICATES = [''is'', ''works_at'', ''located_in'', ''belongs_to'', ''has_role'', ''uses_tool'']"

definition OPINION_PREDICATES :: "string list" where
  "OPINION_PREDICATES = [''thinks'', ''believes'', ''feels'', ''considers'']"

definition entity_id :: "(string \<Rightarrow> string) \<Rightarrow> string \<Rightarrow> string \<Rightarrow> string" where
  "entity_id sha name jid = take 16 (sha (jid @ '':'' @ strip (lower name)))"

definition triple_id :: "(string \<Rightarrow> string) \<Rightarrow> string \<Rightarrow> string \<Rightarrow> string \<Rightarrow> string" where
  "triple_id sha subject predicate object' = take 16 (sha (subject @ '':'' @ predicate @ '':'' @ object'))"

section \<open>Operations\<close>

definition add_entity :: "(string \<Rightarrow> string) \<Rightarrow> int \<Rightarrow> string \<Rightarrow> string \<Rightarrow> string \<Rightarrow> graph \<Rightarrow> graph" where
  "add_entity sha now name ty jid g =
     (let i = entity_id sha name jid in
      if list_ex (\<lambda>e. en_id e = i) (kg_entities g) then g
      else g\<lparr>kg_entities := kg_entities g @ [\<lparr>en_id = i, en_name = strip name, en_type = ty, en_jid = jid, en_at = now\<rparr>]\<rparr>)"

definition contradicts :: "(string \<Rightarrow> string) \<Rightarrow> int \<Rightarrow> string \<Rightarrow> string \<Rightarrow> string \<Rightarrow> string \<Rightarrow> triple \<Rightarrow> bool" where
  "contradicts sha now subject predicate object' jid t \<longleftrightarrow>
     tr_subject t = entity_id sha subject jid \<and> tr_predicate t = predicate \<and> tr_jid t = jid
     \<and> tr_object t \<noteq> object' \<and> tr_to t = None \<and> tr_from t \<le> now"

definition check_contradiction :: "(string \<Rightarrow> string) \<Rightarrow> int \<Rightarrow> string \<Rightarrow> string \<Rightarrow> string \<Rightarrow> string \<Rightarrow> graph \<Rightarrow> triple list" where
  "check_contradiction sha now subject predicate object' jid g =
     filter (contradicts sha now subject predicate object' jid) (kg_triples g)"

text \<open>A time of zero is no time: \<open>valid_to or time.time()\<close>.\<close>

definition invalidate :: "int \<Rightarrow> string \<Rightarrow> int option \<Rightarrow> graph \<Rightarrow> graph" where
  "invalidate now i ended g =
     (let ended = (case ended of None \<Rightarrow> now | Some t \<Rightarrow> if t = 0 then now else t) in
      g\<lparr>kg_triples := map (\<lambda>t. if tr_id t = i then t\<lparr>tr_to := Some ended\<rparr> else t) (kg_triples g)\<rparr>)"

definition add_triple ::
  "(string \<Rightarrow> string) \<Rightarrow> int \<Rightarrow> string \<Rightarrow> string \<Rightarrow> string \<Rightarrow> string \<Rightarrow> rat \<Rightarrow> string option \<Rightarrow> graph \<Rightarrow> graph" where
  "add_triple sha now subject predicate object' jid confidence source g =
     (let g = add_entity sha now subject ''general'' jid g;
          conflicts = check_contradiction sha now subject predicate object' jid g;
          hard = (lower predicate \<in> set HARD_UPDATE_PREDICATES \<or> lower predicate \<notin> set OPINION_PREDICATES);
          g = (if conflicts \<noteq> [] \<and> hard then fold (\<lambda>c. invalidate now (tr_id c) (Some now)) conflicts g else g);
          s = entity_id sha subject jid; i = triple_id sha s predicate object' in
      if list_ex (\<lambda>t. tr_id t = i) (kg_triples g) then g
      else g\<lparr>kg_triples := kg_triples g @ [\<lparr>tr_id = i, tr_subject = s, tr_predicate = predicate, tr_object = object', tr_jid = jid,
               tr_from = now, tr_to = None, tr_confidence = confidence, tr_source = source\<rparr>]\<rparr>)"

definition current_at :: "int \<Rightarrow> triple \<Rightarrow> bool" where
  "current_at ts t \<longleftrightarrow> tr_from t \<le> ts \<and> (case tr_to t of None \<Rightarrow> True | Some e \<Rightarrow> e > ts)"

definition query_entity :: "(string \<Rightarrow> string) \<Rightarrow> int \<Rightarrow> string \<Rightarrow> string \<Rightarrow> int option \<Rightarrow> graph \<Rightarrow> triple list" where
  "query_entity sha now name jid as_of g =
     (let ts = (case as_of of None \<Rightarrow> now | Some t \<Rightarrow> if t = 0 then now else t) in
      sort_key (\<lambda>t. - tr_from t)
        (filter (\<lambda>t. tr_subject t = entity_id sha name jid \<and> tr_jid t = jid \<and> current_at ts t) (kg_triples g)))"

definition kg_stats :: "string \<Rightarrow> graph \<Rightarrow> nat \<times> nat \<times> nat" where
  "kg_stats jid g = (length (filter (\<lambda>e. en_jid e = jid) (kg_entities g)),
     length (filter (\<lambda>t. tr_jid t = jid \<and> tr_to t = None) (kg_triples g)),
     length (filter (\<lambda>t. tr_jid t = jid) (kg_triples g)))"

section \<open>Lemmas\<close>

lemma triples_add_entity [simp]: "kg_triples (add_entity sha now n ty jid g) = kg_triples g"
  by (simp add: add_entity_def Let_def)

definition closed_by :: "int \<Rightarrow> (string \<Rightarrow> bool) \<Rightarrow> triple \<Rightarrow> triple" where
  "closed_by u P t = (if P (tr_id t) then t\<lparr>tr_to := Some u\<rparr> else t)"

lemma closed_by_fields [simp]:
  "tr_id (closed_by u P t) = tr_id t" "tr_subject (closed_by u P t) = tr_subject t" "tr_predicate (closed_by u P t) = tr_predicate t"
  "tr_object (closed_by u P t) = tr_object t" "tr_jid (closed_by u P t) = tr_jid t" "tr_from (closed_by u P t) = tr_from t"
  by (simp_all add: closed_by_def)

lemma closed_by_none [simp]: "closed_by u (\<lambda>i. False) t = t"
  by (simp add: closed_by_def)

lemma list_ex_closed [simp]: "list_ex (\<lambda>t. tr_id t = i) (map (closed_by u P) ts) = list_ex (\<lambda>t. tr_id t = i) ts"
  by (induction ts) auto

lemma fold_invalidate:
  "now \<noteq> 0 \<Longrightarrow> kg_triples (fold (\<lambda>c. invalidate now (tr_id c) (Some now)) cs g) = map (closed_by now (\<lambda>i. i \<in> tr_id ` set cs)) (kg_triples g)"
  by (induction cs arbitrary: g) (auto simp: invalidate_def closed_by_def map_idI)

definition is_hard :: "string \<Rightarrow> bool" where
  "is_hard p \<longleftrightarrow> lower p \<notin> set OPINION_PREDICATES"

lemma is_hard_code: "(lower p \<in> set HARD_UPDATE_PREDICATES \<or> lower p \<notin> set OPINION_PREDICATES) = is_hard p"
  by (auto simp: is_hard_def HARD_UPDATE_PREDICATES_def OPINION_PREDICATES_def)

lemma contradiction_add_entity [simp]:
  "check_contradiction sha now s p ob jid (add_entity sha n x ty j g) = check_contradiction sha now s p ob jid g"
  by (simp add: check_contradiction_def)

text \<open>The triples that an addition closes, by their identifiers.\<close>

definition closes :: "(string \<Rightarrow> string) \<Rightarrow> int \<Rightarrow> string \<Rightarrow> string \<Rightarrow> string \<Rightarrow> string \<Rightarrow> graph \<Rightarrow> string \<Rightarrow> bool" where
  "closes sha now s p ob jid g i \<longleftrightarrow> is_hard p \<and> i \<in> tr_id ` set (check_contradiction sha now s p ob jid g)"

lemma add_triple_triples:
  assumes "now \<noteq> 0"
  shows "kg_triples (add_triple sha now s p ob jid cf src g) =
    map (closed_by now (closes sha now s p ob jid g)) (kg_triples g) @
      (let i = triple_id sha (entity_id sha s jid) p ob in
       if list_ex (\<lambda>t. tr_id t = i) (kg_triples g) then []
       else [\<lparr>tr_id = i, tr_subject = entity_id sha s jid, tr_predicate = p, tr_object = ob, tr_jid = jid,
               tr_from = now, tr_to = None, tr_confidence = cf, tr_source = src\<rparr>])"
proof -
  let ?cs = "check_contradiction sha now s p ob jid g" and ?g = "add_entity sha now s ''general'' jid g"
  have "kg_triples (if ?cs \<noteq> [] \<and> is_hard p then fold (\<lambda>c. invalidate now (tr_id c) (Some now)) ?cs ?g else ?g)
      = map (closed_by now (closes sha now s p ob jid g)) (kg_triples g)"
  proof (cases "?cs \<noteq> [] \<and> is_hard p")
    case True
    then have "closes sha now s p ob jid g = (\<lambda>i. i \<in> tr_id ` set ?cs)" by (simp add: closes_def fun_eq_iff)
    then show ?thesis using True by (simp add: fold_invalidate[OF assms])
  next
    case False
    then have "closes sha now s p ob jid g = (\<lambda>i. False)" by (auto simp: closes_def fun_eq_iff)
    then show ?thesis using False by (auto simp: map_idI)
  qed
  then show ?thesis by (auto simp: add_triple_def Let_def is_hard_code split: if_splits)
qed

section \<open>One value at a time\<close>

text \<open>Facts that are added with a time each; the clock does not go back.\<close>

record fact =
  fa_at :: int
  fa_subject :: string
  fa_predicate :: string
  fa_object :: string
  fa_jid :: string
  fa_confidence :: rat

definition tell :: "(string \<Rightarrow> string) \<Rightarrow> fact \<Rightarrow> graph \<Rightarrow> graph" where
  "tell sha f = add_triple sha (fa_at f) (fa_subject f) (fa_predicate f) (fa_object f) (fa_jid f) (fa_confidence f) None"

definition open_values :: "string \<Rightarrow> string \<Rightarrow> string \<Rightarrow> graph \<Rightarrow> triple list" where
  "open_values subject predicate jid g =
     filter (\<lambda>t. tr_subject t = subject \<and> tr_predicate t = predicate \<and> tr_jid t = jid \<and> tr_to t = None) (kg_triples g)"

definition no_facts :: graph where "no_facts = \<lparr>kg_entities = [], kg_triples = []\<rparr>"

definition fact_history :: "(string \<Rightarrow> string) \<Rightarrow> fact list \<Rightarrow> graph" where
  "fact_history sha fs = fold (tell sha) fs no_facts"

definition kg_inv :: "(string \<Rightarrow> string) \<Rightarrow> int \<Rightarrow> graph \<Rightarrow> bool" where
  "kg_inv sha now g \<longleftrightarrow> distinct (map tr_id (kg_triples g))
     \<and> (\<forall>t \<in> set (kg_triples g). tr_id t = triple_id sha (tr_subject t) (tr_predicate t) (tr_object t) \<and> tr_from t \<le> now)
     \<and> (\<forall>s p j. is_hard p \<longrightarrow> length (open_values s p j g) \<le> 1)"

lemma open_after:
  assumes "now \<noteq> 0" "kg_inv sha now g" "is_hard p"
  shows "\<forall>t \<in> set (open_values (entity_id sha s jid) p jid (add_triple sha now s p ob jid cf src g)). tr_object t = ob"
proof
  fix t
  assume t: "t \<in> set (open_values (entity_id sha s jid) p jid (add_triple sha now s p ob jid cf src g))"
  show "tr_object t = ob"
  proof (rule ccontr)
    assume ob: "tr_object t \<noteq> ob"
    then obtain u where u: "u \<in> set (kg_triples g)" "t = closed_by now (closes sha now s p ob jid g) u"
      using t by (auto simp: open_values_def add_triple_triples[OF assms(1)] Let_def split: if_splits)
    then have "contradicts sha now s p ob jid u" using t ob assms(2)
      by (auto simp: open_values_def contradicts_def kg_inv_def closed_by_def split: if_splits)
    then have "closes sha now s p ob jid g (tr_id u)" using u(1) assms(3) by (auto simp: closes_def check_contradiction_def)
    then show False using t u(2) by (auto simp: open_values_def closed_by_def)
  qed
qed

lemma inv_add_triple:
  assumes "0 < now" "kg_inv sha now g"
  shows "kg_inv sha now (add_triple sha now s p ob jid cf src g)"
proof -
  let ?g = "add_triple sha now s p ob jid cf src g" and ?c = "closed_by now (closes sha now s p ob jid g)"
  let ?i = "triple_id sha (entity_id sha s jid) p ob"
  have n: "now \<noteq> 0" using assms(1) by simp
  note ts = add_triple_triples[OF n, of sha s p ob jid cf src g]
  have ids: "map (tr_id \<circ> ?c) ts = map tr_id ts" for ts by (induction ts) auto
  have d: "distinct (map tr_id (kg_triples ?g))" using assms(2) by (auto simp: ts Let_def kg_inv_def ids list_ex_iff)
  have f: "\<forall>t \<in> set (kg_triples ?g). tr_id t = triple_id sha (tr_subject t) (tr_predicate t) (tr_object t) \<and> tr_from t \<le> now"
    using assms(2) by (auto simp: ts Let_def kg_inv_def)
  have "length (open_values s' p' j' ?g) \<le> 1" if h: "is_hard p'" for s' p' j'
  proof (cases "s' = entity_id sha s jid \<and> p' = p \<and> j' = jid")
    case True
    have "tr_id t = ?i" if "t \<in> set (open_values s' p' j' ?g)" for t
      using that f open_after[OF n assms(2), of p s jid ob cf src] h True by (auto simp: open_values_def)
    then have sub: "set (map tr_id (open_values s' p' j' ?g)) \<subseteq> {?i}" by auto
    have "distinct (map tr_id (open_values s' p' j' ?g))" using d by (simp add: open_values_def distinct_map_filter)
    then have "length (open_values s' p' j' ?g) = card (set (map tr_id (open_values s' p' j' ?g)))"
      by (metis distinct_card length_map)
    also have "\<dots> \<le> card {?i}" using sub by (intro card_mono) auto
    finally have "length (open_values s' p' j' ?g) \<le> 1" by simp
    then show ?thesis by simp
  next
    case False
    have "length (filter (\<lambda>t. tr_subject t = s' \<and> tr_predicate t = p' \<and> tr_jid t = j' \<and> tr_to t = None) (map ?c ts))
        \<le> length (filter (\<lambda>t. tr_subject t = s' \<and> tr_predicate t = p' \<and> tr_jid t = j' \<and> tr_to t = None) ts)" for ts
      by (induction ts) (auto simp: closed_by_def)
    from this[of "kg_triples g"] have "length (open_values s' p' j' ?g) \<le> length (open_values s' p' j' g)"
      using False by (auto simp: open_values_def ts Let_def)
    also have "\<dots> \<le> 1" using assms(2) h by (simp add: kg_inv_def)
    finally show ?thesis .
  qed
  then show ?thesis using d f by (simp add: kg_inv_def)
qed

lemma inv_later: "kg_inv sha now g \<Longrightarrow> now \<le> now' \<Longrightarrow> kg_inv sha now' g"
  by (fastforce simp: kg_inv_def)

lemma inv_history:
  "sorted (map fa_at fs) \<Longrightarrow> \<forall>f \<in> set fs. 0 < fa_at f \<and> fa_at f \<le> now \<Longrightarrow> kg_inv sha now (fact_history sha fs)"
proof (induction fs arbitrary: now rule: rev_induct)
  case Nil
  then show ?case by (simp add: fact_history_def no_facts_def kg_inv_def open_values_def)
next
  case (snoc f fs)
  then have "kg_inv sha (fa_at f) (fact_history sha fs)" by (auto simp: sorted_append)
  then have "kg_inv sha (fa_at f) (tell sha f (fact_history sha fs))" using snoc.prems by (simp add: tell_def inv_add_triple)
  then show ?case using snoc.prems by (auto simp: fact_history_def intro: inv_later)
qed


text \<open>A place that changes and changes back.\<close>

definition demo_sha :: "string \<Rightarrow> string" where "demo_sha s = rev s"

definition lives :: "int \<Rightarrow> string \<Rightarrow> fact" where
  "lives t x = \<lparr>fa_at = t, fa_subject = ''Ann'', fa_predicate = ''located_in'', fa_object = x, fa_jid = ''g'', fa_confidence = 1\<rparr>"


text \<open>What is asked as of a past time is what was current then, closed or not since.\<close>

theorem query_exact:
  "set (query_entity sha now name jid as_of g) =
    {t \<in> set (kg_triples g). tr_subject t = entity_id sha name jid \<and> tr_jid t = jid
       \<and> current_at (case as_of of None \<Rightarrow> now | Some t \<Rightarrow> if t = 0 then now else t) t}
   \<and> sorted (map (\<lambda>t. - tr_from t) (query_entity sha now name jid as_of g))"
  by (auto simp: query_entity_def Let_def)

end
