(* ===== verification/WebFetch.thy ===== *)
theory WebFetch
  imports Prelude AgentFiles
begin

text \<open>
  The agent's tool that fetches a page, \<open>tool_web_fetch\<close> (\<open>container/agent-runner/_tools.py\<close>), with the extraction of text
  and the model that summarises a page (\<open>_summarizer.py\<close>).

  The name service, the servers, the parsers of addresses and of markup, the decoder and the summarising model are
  arguments (record \<open>web_env\<close>).  The name service is asked with a number, since its answers may change from one
  question to the next.  A fetch gives the list of its connections besides its result: for each the number of the
  question that the check before it asked, and the host.
\<close>

section \<open>Which hosts are refused\<close>

datatype http = Redirect string | Body string "nat list" | Broken string

datatype markup = Start_tag string | End_tag string | Text_data string

record web_env =
  wf_parse :: "string \<Rightarrow> (string \<times> string) option"
  wf_resolve :: "nat \<Rightarrow> string \<Rightarrow> string list option"
  wf_private :: "string \<Rightarrow> bool option"
  wf_get :: "nat \<Rightarrow> string \<Rightarrow> http"
  wf_codec :: "string \<Rightarrow> (nat list \<Rightarrow> string) option"
  wf_utf8 :: "nat list \<Rightarrow> string"
  wf_markup :: "string \<Rightarrow> markup list option"
  wf_model :: "(string \<Rightarrow> string \<Rightarrow> string option) option"
  wf_now :: int
  wf_repr :: "string \<Rightarrow> string"
  wf_dash :: string
  wf_arrow :: string

definition BLOCKED_HOSTS :: "string list" where
  "BLOCKED_HOSTS = [''localhost'', ''metadata.google.internal'']"

definition BLOCKED_PREFIXES :: "string list" where
  "BLOCKED_PREFIXES = [''169.254.'', ''metadata.google.internal'', ''instance-data'']"

definition bad_address :: "web_env \<Rightarrow> string \<Rightarrow> bool" where
  "bad_address e ip = (case wf_private e ip of None \<Rightarrow> False | Some p \<Rightarrow> p \<or> prefix ''169.254.'' ip)"

definition is_ssrf_target :: "web_env \<Rightarrow> nat \<Rightarrow> string \<Rightarrow> bool" where
  "is_ssrf_target e n host =
     (host = [] \<or> lower host \<in> set BLOCKED_HOSTS \<or> list_ex (\<lambda>p. prefix p (lower host)) BLOCKED_PREFIXES
      \<or> (case wf_resolve e n host of None \<Rightarrow> False | Some ips \<Rightarrow> list_ex (bad_address e) ips))"

text \<open>The check when a connection is opened: of the first address alone.\<close>

definition rebinding_blocked :: "web_env \<Rightarrow> nat \<Rightarrow> string \<Rightarrow> bool" where
  "rebinding_blocked e n host = (case wf_resolve e n host of
      Some (ip # _) \<Rightarrow> wf_private e ip = Some True
    | _ \<Rightarrow> False)"

section \<open>Following redirects\<close>

definition MAX_REDIRECTS :: nat where "MAX_REDIRECTS = 5"

type_synonym contact = "nat \<times> string"

text \<open>
  Opening a URL with so many redirects left; \<open>n\<close> is the number of the next question.  A connection asks twice: for the check, and
  for the address it goes to.
\<close>

fun open_url :: "web_env \<Rightarrow> nat \<Rightarrow> nat \<Rightarrow> string \<Rightarrow> contact list \<times> (string + string \<times> nat list)" where
  "open_url e hops n url = (case wf_parse e url of
      None \<Rightarrow> ([], Inl ''invalid URL'')
    | Some (scheme, host) \<Rightarrow>
        if rebinding_blocked e n host then ([], Inl ''SSRF: connection to private IP blocked'')
        else (case wf_get e (Suc n) url of
            Body ct bs \<Rightarrow> ([(n, host)], Inr (ct, bs))
          | Broken x \<Rightarrow> ([(n, host)], Inl x)
          | Redirect url' \<Rightarrow> (case hops of
                0 \<Rightarrow> ([(n, host)], Inl ''Too many redirects (> 5)'')
              | Suc h \<Rightarrow> (case wf_parse e url' of
                    None \<Rightarrow> ([(n, host)], Inl ''Redirect to unverifiable target blocked'')
                  | Some (scheme', host') \<Rightarrow>
                      if is_ssrf_target e (n + 2) host' then ([(n, host)], Inl ''Redirect to private address blocked'')
                      else (case open_url e h (n + 3) url' of (cs, r) \<Rightarrow> ((n, host) # cs, r))))))"

section \<open>Text of a page\<close>

definition SKIPPED_TAGS :: "string list" where "SKIPPED_TAGS = [''script'', ''style'', ''noscript'']"

definition BREAKING_TAGS :: "string list" where
  "BREAKING_TAGS = [''p'', ''div'', ''br'', ''li'', ''tr'', ''h1'', ''h2'', ''h3'', ''h4'', ''h5'', ''h6'']"

fun extracted :: "bool \<Rightarrow> markup list \<Rightarrow> string" where
  "extracted skip [] = []"
| "extracted skip (Start_tag t # ms) = extracted (skip \<or> t \<in> set SKIPPED_TAGS) ms"
| "extracted skip (End_tag t # ms) = (if t \<in> set BREAKING_TAGS then nl else []) @ extracted (skip \<and> t \<notin> set SKIPPED_TAGS) ms"
| "extracted skip (Text_data s # ms) = (if skip then [] else s) @ extracted skip ms"

definition BINARY_TYPES :: "string list" where
  "BINARY_TYPES = [''application/octet-stream'', ''application/zip'', ''application/gzip'', ''application/x-tar'', ''application/pdf'',
     ''application/msword'', ''application/vnd.'', ''image/'', ''audio/'', ''video/'']"

definition RAW_LIMIT :: nat where "RAW_LIMIT = 2097152"
definition TEXT_LIMIT :: nat where "TEXT_LIMIT = 51200"

text \<open>A sample is binary when more than three of ten bytes are not ASCII.\<close>

definition looks_binary :: "nat list \<Rightarrow> bool" where
  "looks_binary bs = (let s = take 512 bs in 0 \<in> set s \<or> s \<noteq> [] \<and> 10 * length (filter (\<lambda>b. b > 127) s) > 3 * length s)"

text \<open>The search for \<open>charset=\<close>, an optional quote and a name.\<close>

definition charset_char :: "char \<Rightarrow> bool" where
  "charset_char c = (CHR ''a'' \<le> lower_char c \<and> lower_char c \<le> CHR ''z'' \<or> is_digit c \<or> c \<in> {CHR ''_'', CHR ''-''})"

fun charset_of :: "string \<Rightarrow> string option" where
  "charset_of [] = None"
| "charset_of (c # cs) =
     (let r = drop 8 (c # cs);
          r = (if r \<noteq> [] \<and> hd r \<in> {CHR 0x22, CHR 0x27} then tl r else r);
          w = takeWhile charset_char r
      in if prefix ''charset='' (lower (c # cs)) \<and> w \<noteq> [] then Some (lower w) else charset_of cs)"

definition decoded :: "web_env \<Rightarrow> string \<Rightarrow> nat list \<Rightarrow> string" where
  "decoded e ct bs = (case wf_codec e (case charset_of ct of None \<Rightarrow> ''utf-8'' | Some s \<Rightarrow> s) of
      None \<Rightarrow> wf_utf8 e bs
    | Some f \<Rightarrow> f bs)"

definition page_text :: "web_env \<Rightarrow> string \<Rightarrow> nat list \<Rightarrow> string + string" where
  "page_text e ct bs = (let bs = take RAW_LIMIT bs in
     if list_ex (\<lambda>t. prefix t (lower ct)) BINARY_TYPES then Inl (''Error: binary content type '' @ ct)
     else if looks_binary bs then Inl ''Error: response appears to be binary content''
     else let raw = decoded e ct bs in
       Inr (if find_sub ''html'' (lower ct) \<noteq> None \<or> prefix ''<'' (lstrip raw)
         then (let t = (case wf_markup e raw of None \<Rightarrow> raw | Some ms \<Rightarrow> extracted False ms) in
                 join nl (filter (\<lambda>l. l \<noteq> []) (map strip (splitlines t))))
         else raw))"

section \<open>Summaries\<close>

type_synonym cache = "(string \<times> string, int \<times> string) dict"

definition CACHE_TTL_SECS :: int where "CACHE_TTL_SECS = 300"

definition cache_get :: "int \<Rightarrow> string \<times> string \<Rightarrow> cache \<Rightarrow> cache \<times> string option" where
  "cache_get now key c = (case dget c key of
      None \<Rightarrow> (c, None)
    | Some (ts, v) \<Rightarrow> if now - ts > CACHE_TTL_SECS then (ddel key c, None) else (c, Some v))"

definition cache_set :: "int \<Rightarrow> string \<times> string \<Rightarrow> string \<Rightarrow> cache \<Rightarrow> cache" where
  "cache_set now key v c =
     dset key (now, v) (if length c \<ge> 100 then fold (\<lambda>(k, _) c. ddel k c) (take 25 (sort_key (\<lambda>(k, ts, _). ts) c)) c else c)"

definition summarise :: "web_env \<Rightarrow> string \<Rightarrow> string \<Rightarrow> string \<times> string \<Rightarrow> cache \<Rightarrow> cache \<times> string option" where
  "summarise e content prompt key c = (case wf_model e of
      None \<Rightarrow> (c, None)
    | Some model \<Rightarrow>
        if content = [] then (c, None)
        else (case cache_get (wf_now e) key c of
            (c, Some v) \<Rightarrow> (c, Some v)
          | (c, None) \<Rightarrow> (case model content prompt of
                None \<Rightarrow> (c, None)
              | Some r \<Rightarrow> (cache_set (wf_now e) key r c, Some r))))"

section \<open>The tool\<close>

text \<open>\<open>None\<close> stands for an argument that \<open>int\<close> rejects.\<close>

definition chunk_offset :: "int option \<Rightarrow> nat" where
  "chunk_offset i = (case i of None \<Rightarrow> 0 | Some n \<Rightarrow> nat (max 0 n))"

definition chunk_size :: "int option \<Rightarrow> nat" where
  "chunk_size i = (let n = (case i of None \<Rightarrow> 3500 | Some n \<Rightarrow> n) in nat (max 500 (min 8000 n)))"

definition page_chunk :: "nat \<Rightarrow> nat \<Rightarrow> string \<Rightarrow> string" where
  "page_chunk off sz t = take (min (off + sz) (length t) - off) (drop off t)"

definition footer :: "web_env \<Rightarrow> string \<Rightarrow> nat \<Rightarrow> nat \<Rightarrow> bool \<Rightarrow> string \<Rightarrow> string" where
  "footer e url off sz capped t = (let end' = min (off + sz) (length t) in
     if end' < length t then nl @ nl @ ''[chunk: chars '' @ show_nat off @ ''-'' @ show_nat end' @ '' of total '' @ show_nat (length t)
       @ (if capped then wf_dash e @ ''note: source was 50KB-capped'' else []) @ ''. To get the next chunk, call: WebFetch(url='' @ wf_repr e url
       @ '', offset='' @ show_nat end' @ '')]''
     else if off > 0 \<or> capped then nl @ nl @ ''[chunk: chars '' @ show_nat off @ ''-'' @ show_nat end' @ '' of total '' @ show_nat (length t)
       @ (if capped then '' (source was 50KB-capped)'' else []) @ wf_dash e @ ''END]''
     else [])"

definition show_page :: "web_env \<Rightarrow> string \<Rightarrow> string \<Rightarrow> nat \<Rightarrow> nat \<Rightarrow> string \<Rightarrow> cache \<Rightarrow> cache \<times> string" where
  "show_page e url prompt off sz text c =
     (let capped = length text > TEXT_LIMIT; t = take TEXT_LIMIT text in
      if t = [] then (c, ''(empty response)'')
      else let (c, s) = (if prompt = [] then (c, None) else summarise e t prompt (url, take 200 (strip prompt)) c) in
        if truthy s then (c, the s @ nl @ nl @ ''[summarized: source '' @ show_nat (length t) @ ''chars'' @ (if capped then '' (source 50KB-capped)'' else [])
            @ wf_arrow e @ show_nat (length (the s)) @ ''chars via summarizer model]'')
        else if off \<ge> length t then (c, ''(offset '' @ show_nat off @ '' is past end of document; total '' @ show_nat (length t) @ '' chars''
            @ (if capped then wf_dash e @ ''note: hit 50KB cap'' else []) @ '')'')
        else (c, page_chunk off sz t @ footer e url off sz capped t))"

definition web_fetch :: "web_env \<Rightarrow> string \<Rightarrow> string \<Rightarrow> int option \<Rightarrow> int option \<Rightarrow> cache \<Rightarrow> cache \<times> contact list \<times> string" where
  "web_fetch e url prompt off sz c = (case wf_parse e url of
      None \<Rightarrow> (c, [], ''Error: invalid URL'')
    | Some (scheme, host) \<Rightarrow>
        if lower scheme \<notin> {''http'', ''https''} then (c, [], ''Error: unsupported URL scheme'')
        else if is_ssrf_target e 0 host then (c, [], ''Error: access denied'')
        else (case open_url e MAX_REDIRECTS 1 url of
            (cs, Inl x) \<Rightarrow> (c, cs, ''URL error fetching '' @ url @ '': '' @ x)
          | (cs, Inr (ct, bs)) \<Rightarrow> (case page_text e ct bs of
                Inl x \<Rightarrow> (c, cs, x)
              | Inr t \<Rightarrow> (case show_page e url prompt (chunk_offset off) (chunk_size sz) t c of (c, s) \<Rightarrow> (c, cs, s)))))"

section \<open>Only public addresses\<close>

lemma open_url_contacts:
  assumes "open_url e hops n url = (cs, r)" "wf_parse e url = Some (sch, host)" "\<exists>j<n. \<not> is_ssrf_target e j host"
  shows "length cs \<le> Suc hops \<and> (\<forall>(k, h) \<in> set cs. (\<exists>j<k. \<not> is_ssrf_target e j h) \<and> \<not> rebinding_blocked e k h)"
  using assms
proof (induction hops arbitrary: n url cs r sch host)
  case 0
  then show ?case by (auto split: if_splits http.splits option.splits)
next
  case (Suc hops)
  show ?case
  proof (cases "\<exists>url'. wf_get e (Suc n) url = Redirect url' \<and> \<not> rebinding_blocked e n host")
    case False
    then show ?thesis using Suc.prems by (auto split: if_splits http.splits)
  next
    case True
    then obtain url' where g: "wf_get e (Suc n) url = Redirect url'" "\<not> rebinding_blocked e n host" by blast
    show ?thesis
    proof (cases "\<exists>s' h'. wf_parse e url' = Some (s', h') \<and> \<not> is_ssrf_target e (n + 2) h'")
      case False
      then have "cs = [(n, host)]" using Suc.prems(1,2) g by (auto split: if_splits option.splits)
      then show ?thesis using Suc.prems(3) g(2) by simp
    next
      case True
      then obtain s' h' where p: "wf_parse e url' = Some (s', h')" "\<not> is_ssrf_target e (n + 2) h'" by blast
      obtain cs' r' where o: "open_url e hops (n + 3) url' = (cs', r')" by fastforce
      have "cs = (n, host) # cs'" using Suc.prems g p o by simp
      then show ?thesis using Suc.IH[OF o p(1)] p(2) Suc.prems(3) g
        by (fastforce intro: exI[of _ "n + 2"])
    qed
  qed
qed

lemma checked_public:
  assumes "\<not> is_ssrf_target e j h" "wf_resolve e j h = Some ips" "ip \<in> set ips"
  shows "wf_private e ip \<noteq> Some True"
  using assms by (auto simp: is_ssrf_target_def bad_address_def list_ex_iff)


definition demo_web :: web_env where
  "demo_web = \<lparr>
     wf_parse = (\<lambda>u. if u = ''http://a'' then Some (''http'', ''a'') else Some (''http'', ''b'')),
     wf_resolve = (\<lambda>n h. if h = ''a'' then Some [''1.1.1.1''] else Some [''10.0.0.1'']),
     wf_private = (\<lambda>ip. Some (ip = ''10.0.0.1'')),
     wf_get = (\<lambda>n u. if u = ''http://a'' then Redirect ''http://b'' else Body ''text/plain'' []),
     wf_codec = (\<lambda>_. None), wf_utf8 = (\<lambda>_. ''page''), wf_markup = (\<lambda>_. None), wf_model = None, wf_now = 0,
     wf_repr = (\<lambda>s. s), wf_dash = '' - '', wf_arrow = '' to ''\<rparr>"

lemma demo_fetch:
  "web_fetch demo_web ''http://a'' [] None None [] =
     ([], [(1, ''a'')], ''URL error fetching http://a: Redirect to private address blocked'')"
  by (simp add: web_fetch_def demo_web_def is_ssrf_target_def bad_address_def rebinding_blocked_def MAX_REDIRECTS_def BLOCKED_HOSTS_def
      BLOCKED_PREFIXES_def lower_def lower_char_def numeral_eq_Suc)


section \<open>The chunks of a page\<close>

lemma chunk_take: "page_chunk off sz t = take sz (drop off t)"
  by (simp add: page_chunk_def min_def)

lemma chunks_join: "concat (map (\<lambda>i. page_chunk (i * sz) sz t) [0..<n]) = take (n * sz) t"
proof (induction n)
  case (Suc n)
  then show ?case by (simp add: chunk_take take_add add.commute[of sz])
qed simp

lemma chunk_size_pos: "chunk_size i > 0"
  by (simp add: chunk_size_def Let_def split: option.split)

lemma offset_nat [simp]: "chunk_offset (Some (int n)) = n"
  by (simp add: chunk_offset_def)

lemma fetch_shows:
  assumes "wf_parse e url = Some (sch, host)" "lower sch \<in> {''http'', ''https''}" "\<not> is_ssrf_target e 0 host"
    and "open_url e MAX_REDIRECTS 1 url = (cs, Inr (ct, bs))" "page_text e ct bs = Inr t"
  shows "web_fetch e url prompt off n c = (case show_page e url prompt (chunk_offset off) (chunk_size n) t c of (c, s) \<Rightarrow> (c, cs, s))"
proof -
  have "(lower sch \<notin> {''http'', ''https''}) = False" using assms(2) by simp
  then show ?thesis unfolding web_fetch_def by (simp only: assms option.case prod.case sum.case if_False)
qed

lemma show_chunk:
  assumes "off < length (take TEXT_LIMIT t)"
  shows "show_page e url [] off sz t c =
    (c, page_chunk off sz (take TEXT_LIMIT t) @ footer e url off sz (length t > TEXT_LIMIT) (take TEXT_LIMIT t))"
proof -
  have "take TEXT_LIMIT t \<noteq> []" using assms by auto
  then show ?thesis using assms by (simp add: show_page_def Let_def truthy_def del: length_take take_eq_Nil)
qed

text \<open>
  A page that is asked for chunk by chunk, every time from the offset that the footer of the last answer names, arrives
  complete: the chunks joined are the first 50 KB of its text.
\<close>

theorem chunks_complete:
  assumes "wf_parse e url = Some (sch, host)" "lower sch \<in> {''http'', ''https''}" "\<not> is_ssrf_target e 0 host"
    and "open_url e MAX_REDIRECTS 1 url = (cs, Inr (ct, bs))" "page_text e ct bs = Inr t" "t \<noteq> []"
  shows "\<exists>ps. concat ps = take TEXT_LIMIT t \<and> (\<forall>i<length ps. \<exists>foot.
      web_fetch e url [] (Some (int (i * chunk_size n))) n c = (c, cs, ps ! i @ foot)
      \<and> (Suc i < length ps \<longrightarrow> (\<exists>m. foot = m @ '', offset='' @ show_nat (Suc i * chunk_size n) @ '')]'')))"
proof -
  define sz T where "sz = chunk_size n" and "T = take TEXT_LIMIT t"
  define k where "k = (length T + sz - 1) div sz"
  have sz: "sz > 0" by (simp add: sz_def chunk_size_pos)
  have T: "T \<noteq> []" using assms(6) by (simp add: T_def TEXT_LIMIT_def)
  have less: "i * sz < length T" if "i < k" for i
  proof -
    have "Suc i * sz \<le> k * sz" using that by (intro mult_le_mono1) simp
    moreover have "k * sz \<le> length T + sz - 1" by (simp add: k_def)
    ultimately show ?thesis using sz by simp
  qed
  have cover: "length T \<le> k * sz"
    using div_mult_mod_eq[of "length T + sz - 1" sz] mod_less_divisor[OF sz, of "length T + sz - 1"] unfolding k_def by linarith
  have ans: "web_fetch e url [] (Some (int (i * sz))) n c = (c, cs, page_chunk (i * sz) sz T @ footer e url (i * sz) sz (length t > TEXT_LIMIT) T)"
    if "i < k" for i
    using show_chunk[of "i * sz" t e url sz c] less[OF that]
    by (simp add: fetch_shows[OF assms(1-5)] sz_def[symmetric] T_def[symmetric] del: of_nat_mult)
  have foot: "\<exists>m. footer e url (i * sz) sz b T = m @ '', offset='' @ show_nat (Suc i * sz) @ '')]''" if "Suc i < k" for i b
    using less[OF that] by (simp add: footer_def Let_def add.commute min_def)
  show ?thesis
  proof (intro exI[of _ "map (\<lambda>i. page_chunk (i * sz) sz T) [0..<k]"] conjI allI impI)
    show "concat (map (\<lambda>i. page_chunk (i * sz) sz T) [0..<k]) = take TEXT_LIMIT t"
      using cover unfolding chunks_join T_def[symmetric] by simp
  next
    fix i assume "i < length (map (\<lambda>i. page_chunk (i * sz) sz T) [0..<k])"
    then have i: "i < k" by simp
    show "\<exists>f. web_fetch e url [] (Some (int (i * chunk_size n))) n c = (c, cs, map (\<lambda>i. page_chunk (i * sz) sz T) [0..<k] ! i @ f)
      \<and> (Suc i < length (map (\<lambda>i. page_chunk (i * sz) sz T) [0..<k]) \<longrightarrow>
        (\<exists>m. f = m @ '', offset='' @ show_nat (Suc i * chunk_size n) @ '')]''))"
      using ans[OF i] foot[of i] i by (simp add: sz_def[symmetric])
  qed
qed

definition long_web :: "web_env" where
  "long_web = demo_web\<lparr>wf_get := \<lambda>n u. Body ''text/plain'' [], wf_utf8 := \<lambda>_. replicate 600 CHR ''x''\<rparr>"

lemma long_open: "open_url long_web MAX_REDIRECTS 1 ''http://a'' = ([(1, ''a'')], Inr (''text/plain'', []))"
  by (simp add: long_web_def demo_web_def rebinding_blocked_def MAX_REDIRECTS_def numeral_eq_Suc)

lemma long_text: "page_text long_web ''text/plain'' [] = Inr (replicate 600 CHR ''x'')"
proof -
  have "find_sub ''html'' (lower ''text/plain'') = None" "\<not> prefix ''<'' (lstrip (replicate 600 CHR ''x''))"
    by (simp_all add: lower_def lower_char_def lstrip_def is_space_def numeral_eq_Suc)
  moreover have "\<not> list_ex (\<lambda>t. prefix t (lower ''text/plain'')) BINARY_TYPES"
    by (simp add: BINARY_TYPES_def lower_def lower_char_def)
  moreover have "decoded long_web ''text/plain'' [] = replicate 600 CHR ''x''"
    by (simp add: decoded_def long_web_def demo_web_def split: option.split)
  ultimately show ?thesis by (simp add: page_text_def looks_binary_def)
qed

lemma long_safe: "\<not> is_ssrf_target long_web 0 ''a''"
  by (simp add: long_web_def demo_web_def is_ssrf_target_def bad_address_def BLOCKED_HOSTS_def BLOCKED_PREFIXES_def lower_def lower_char_def)

lemma chunks_complete_witness:
  "\<exists>ps. concat ps = take TEXT_LIMIT (replicate 600 CHR ''x'') \<and> (\<forall>i<length ps. \<exists>foot.
      web_fetch long_web ''http://a'' [] (Some (int (i * chunk_size (Some 7)))) (Some 7) [] = ([], [(1, ''a'')], ps ! i @ foot)
      \<and> (Suc i < length ps \<longrightarrow> (\<exists>m. foot = m @ '', offset='' @ show_nat (Suc i * chunk_size (Some 7)) @ '')]'')))"
  by (rule chunks_complete[where sch = "''http''", OF _ _ long_safe long_open long_text])
    (simp_all add: long_web_def demo_web_def lower_def lower_char_def numeral_eq_Suc)

section \<open>The summaries kept\<close>

lemma ddel_length: "length (ddel k d) \<le> length d"
  by (simp add: ddel_def)

lemma ddels_length: "length (fold (\<lambda>(k, _) c. ddel k c) es c) \<le> length c"
  by (induction es arbitrary: c) (auto intro: order_trans[OF _ ddel_length])

lemma dset_length: "length (dset k v d) \<le> Suc (length d)"
  by (induction k v d rule: dset.induct) auto

lemma ddel_less: "k \<in> fst ` set d \<Longrightarrow> length (ddel k d) < length d"
  by (auto simp: ddel_def intro!: length_filter_less)

lemma cache_bounded:
  assumes "length c \<le> 100"
  shows "length (cache_set now key v c) \<le> 100"
proof (cases "length c \<ge> 100")
  case True
  define es where "es = sort_key (\<lambda>(k, ts, _). ts) c"
  have "length es = length c" by (simp add: es_def)
  then obtain e es' where e: "es = e # es'" using True by (cases es) auto
  have "set es = set c" by (simp add: es_def)
  then have "e \<in> set c" using e by auto
  then have "length (ddel (fst e) c) < length c" by (intro ddel_less) simp
  moreover have "take 25 es = e # take 24 es'" by (simp add: e)
  ultimately have "length (fold (\<lambda>(k, _) c. ddel k c) (take 25 es) c) < length c"
    using ddels_length[of "take 24 es'" "ddel (fst e) c"] by (simp add: split_beta)
  then show ?thesis
    using assms True dset_length[of key "(now, v)" "fold (\<lambda>(k, _) c. ddel k c) (take 25 es) c"]
    by (simp add: cache_set_def es_def[symmetric])
next
  case False
  then show ?thesis using dset_length[of key "(now, v)" c] by (simp add: cache_set_def)
qed

end
