(* ===== verification/MemoryBus.thy ===== *)
theory MemoryBus
  imports Ipc AgentFiles Complex_Main
begin

text \<open>
  The memory that agents share: the stores and the bus of \<open>host/memory/memory_bus.py\<close>, the two levels of
  labels (\<open>palace_store.py\<close>), the archive in \<open>db.py\<close>, the feeding of the vector index
  (\<open>vector_ingestor.py\<close>) and the requests of containers (\<open>_run_memory_recall\<close>, \<open>_run_memory_remember\<close>).

  Tables are lists in the order of insertion.  What full text search and the vector index find, with their ranks and
  distances, is an argument (record \<open>bus_env\<close>), and so are the embedding of a text, the exponential functions that make
  a score of a rank, and which transactions succeed.  Scores are rational numbers.
\<close>

section \<open>Tables\<close>

record mem_row =
  sm_id :: string
  sm_agent :: string
  sm_project :: string
  sm_scope :: string
  sm_content :: string
  sm_importance :: rat
  sm_access :: nat
  sm_ns :: string
  sm_tag :: string
  sm_at :: int

record vec_row =
  vm_id :: string
  vm_agent :: string
  vm_scope :: string
  vm_project :: string
  vm_content :: string
  vm_at :: int

record cold_row =
  cm_jid :: string
  cm_title :: string
  cm_content :: string
  cm_tags :: string
  cm_at :: int

text \<open>What waits for its embedding.\<close>

record pending =
  pe_id :: string
  pe_content :: string
  pe_agent :: string
  pe_scope :: string
  pe_project :: string

record 'e bus =
  mb_rows :: "mem_row list"
  mb_vecs :: "vec_row list"
  mb_index :: "(string \<times> 'e) list"
  mb_pending :: "pending list"
  mb_cold :: "cold_row list"
  mb_warm :: "(nat \<times> warm_row \<times> bool) list"
  mb_files :: "(string, string) dict"

text \<open>
  \<open>be_fts\<close> and \<open>be_bm\<close> give a row its rank (smaller is better), \<open>None\<close> where it does not match or, outside, where the query
  is no query.  \<open>be_near\<close> gives an entry its distance where the index returns it among the \<open>k\<close> nearest.  \<open>be_embed\<close>,
  \<open>be_ok\<close> and \<open>be_clock\<close> are asked by the number of the call within an operation.
\<close>

record 'e bus_env =
  be_digest :: "string \<Rightarrow> string"
  be_clock :: "nat \<Rightarrow> int"
  be_show :: "int \<Rightarrow> string"
  be_ok :: "nat \<Rightarrow> bool"
  be_vector :: bool
  be_embed :: "nat \<Rightarrow> string \<Rightarrow> 'e option"
  be_near :: "'e \<Rightarrow> (string \<times> 'e) list \<Rightarrow> int \<Rightarrow> (string \<times> 'e) \<Rightarrow> rat option"
  be_fts :: "mem_row list \<Rightarrow> string \<Rightarrow> (mem_row \<Rightarrow> rat option) option"
  be_bm_cold :: "cold_row list \<Rightarrow> string \<Rightarrow> (cold_row \<Rightarrow> rat option) option"
  be_bm_warm :: "warm_row list \<Rightarrow> string \<Rightarrow> (warm_row \<Rightarrow> rat option) option"
  be_exp :: "rat \<Rightarrow> rat"
  be_decay :: "int \<Rightarrow> rat"
  be_mark :: string

text \<open>\<open>LIMIT k\<close> of SQL, where a negative number is no limit, and \<open>xs[:k]\<close>.\<close>

definition sql_limit :: "int \<Rightarrow> 'a list \<Rightarrow> 'a list" where
  "sql_limit k xs = (if k < 0 then xs else take (nat k) xs)"

definition py_take :: "int \<Rightarrow> 'a list \<Rightarrow> 'a list" where
  "py_take k xs = (if k < 0 then take (length xs - nat (- k)) xs else take (nat k) xs)"

definition clamp :: "rat \<Rightarrow> rat" where "clamp x = min 1 (max 0 x)"

section \<open>The shared store\<close>

definition shared_write ::
  "'e bus_env \<Rightarrow> string \<Rightarrow> string \<Rightarrow> string \<Rightarrow> string \<Rightarrow> rat \<Rightarrow> string \<Rightarrow> string \<Rightarrow> 'e bus \<Rightarrow> 'e bus \<times> string" where
  "shared_write e content agent scope project importance ns tag b =
     (let i = take 16 (be_digest e (agent @ '':'' @ content @ '':'' @ be_show e (be_clock e 0)));
          r = \<lparr>sm_id = i, sm_agent = agent, sm_project = project, sm_scope = scope, sm_content = content, sm_importance = importance,
               sm_access = 0, sm_ns = ns, sm_tag = tag, sm_at = be_clock e 1\<rparr> in
      (if be_ok e 0 \<and> \<not> list_ex (\<lambda>r. sm_id r = i) (mb_rows b) then b\<lparr>mb_rows := mb_rows b @ [r]\<rparr> else b, i))"

definition row_readable :: "string \<Rightarrow> string \<Rightarrow> mem_row \<Rightarrow> bool" where
  "row_readable agent project r \<longleftrightarrow> sm_scope r = ''shared'' \<or> (sm_scope r = ''private'' \<and> sm_agent r = agent)
     \<or> (sm_scope r = ''project'' \<and> sm_project r = project)"

text \<open>The rows that match and satisfy a condition, by rank and then by importance.\<close>

definition ranked :: "(mem_row \<Rightarrow> rat option) \<Rightarrow> (mem_row \<Rightarrow> bool) \<Rightarrow> mem_row list \<Rightarrow> (mem_row \<times> rat) list" where
  "ranked rank p rows = sort_key snd (sort_key (\<lambda>h. - sm_importance (fst h))
     (List.map_filter (\<lambda>r. case rank r of None \<Rightarrow> None | Some x \<Rightarrow> if p r then Some (r, x) else None) rows))"

definition shared_search :: "'e bus_env \<Rightarrow> string \<Rightarrow> string \<Rightarrow> string \<Rightarrow> int \<Rightarrow> 'e bus \<Rightarrow> 'e bus \<times> (mem_row \<times> rat) list" where
  "shared_search e query agent project k b = (case be_fts e (mb_rows b) query of
      None \<Rightarrow> (b, [])
    | Some rank \<Rightarrow> (let hits = sql_limit k (ranked rank (row_readable agent project) (mb_rows b)) in
        if be_ok e 0
        then (b\<lparr>mb_rows := map (\<lambda>r. if sm_id r \<in> set (map (sm_id \<circ> fst) hits) then r\<lparr>sm_access := sm_access r + 1\<rparr> else r) (mb_rows b)\<rparr>, hits)
        else (b, [])))"

definition shared_delete :: "'e bus_env \<Rightarrow> string \<Rightarrow> string \<Rightarrow> 'e bus \<Rightarrow> 'e bus \<times> bool" where
  "shared_delete e i agent b =
     (if be_ok e 0 then (b\<lparr>mb_rows := filter (\<lambda>r. \<not> (sm_id r = i \<and> sm_agent r = agent)) (mb_rows b)\<rparr>,
        list_ex (\<lambda>r. sm_id r = i \<and> sm_agent r = agent) (mb_rows b))
      else (b, False))"

section \<open>The vector index\<close>

definition put_vector :: "pending \<Rightarrow> int \<Rightarrow> 'e \<Rightarrow> 'e bus \<Rightarrow> 'e bus" where
  "put_vector p now x b =
     b\<lparr>mb_vecs := filter (\<lambda>r. vm_id r \<noteq> pe_id p) (mb_vecs b) @
         [\<lparr>vm_id = pe_id p, vm_agent = pe_agent p, vm_scope = pe_scope p, vm_project = pe_project p, vm_content = pe_content p, vm_at = now\<rparr>],
       mb_index := mb_index b @ [(pe_id p, x)]\<rparr>"

fun retry_items :: "'e bus_env \<Rightarrow> nat \<Rightarrow> pending list \<Rightarrow> 'e bus \<Rightarrow> 'e bus" where
  "retry_items e n [] b = b"
| "retry_items e n (p # ps) b = retry_items e (Suc n) ps (case be_embed e n (pe_content p) of
      None \<Rightarrow> b\<lparr>mb_pending := mb_pending b @ [p]\<rparr>
    | Some x \<Rightarrow> if be_ok e n then put_vector p (be_clock e n) x b else b\<lparr>mb_pending := mb_pending b @ [p]\<rparr>)"

definition retry_pending :: "'e bus_env \<Rightarrow> nat \<Rightarrow> 'e bus \<Rightarrow> 'e bus" where
  "retry_pending e m b = retry_items e m (mb_pending b) (b\<lparr>mb_pending := []\<rparr>)"

definition vector_store :: "'e bus_env \<Rightarrow> nat \<Rightarrow> pending \<Rightarrow> 'e bus \<Rightarrow> 'e bus" where
  "vector_store e m p b =
     (if \<not> be_vector e then b
      else let n = m + length (mb_pending b); b = retry_pending e m b in
        case be_embed e n (pe_content p) of
          None \<Rightarrow> b\<lparr>mb_pending := mb_pending b @ [p]\<rparr>
        | Some x \<Rightarrow> if be_ok e n then put_vector p (be_clock e n) x b else b)"

definition vec_readable :: "string \<Rightarrow> string \<Rightarrow> vec_row \<Rightarrow> bool" where
  "vec_readable agent project r \<longleftrightarrow> vm_scope r = ''shared'' \<or> vm_agent r = agent \<or> (vm_scope r = ''project'' \<and> vm_project r = project)"

definition vector_search :: "'e bus_env \<Rightarrow> string \<Rightarrow> string \<Rightarrow> int \<Rightarrow> string \<Rightarrow> 'e bus \<Rightarrow> (vec_row \<times> rat) list" where
  "vector_search e query agent k project b =
     (if \<not> be_vector e then []
      else case be_embed e 0 query of
        None \<Rightarrow> []
      | Some x \<Rightarrow> if \<not> be_ok e 1 then []
          else sql_limit k (sort_key snd (concat (map (\<lambda>v. case be_near e x (mb_index b) k v of
              None \<Rightarrow> []
            | Some d \<Rightarrow> map (\<lambda>r. (r, d)) (filter (\<lambda>r. vm_id r = fst v \<and> vec_readable agent project r) (mb_vecs b))) (mb_index b)))))"

definition vector_delete :: "'e bus_env \<Rightarrow> nat \<Rightarrow> string \<Rightarrow> 'e bus \<Rightarrow> 'e bus" where
  "vector_delete e n i b = (if \<not> be_ok e n then b else b\<lparr>mb_vecs := filter (\<lambda>r. vm_id r \<noteq> i) (mb_vecs b), mb_index := filter (\<lambda>v. fst v \<noteq> i) (mb_index b)\<rparr>)"

text \<open>
  A pass of the ingestor: the ten oldest logs that are not marked.  They are marked whatever became of the embedding.
\<close>

definition BATCH_SIZE :: nat where "BATCH_SIZE = 10"

definition unvectorized :: "nat \<Rightarrow> 'e bus \<Rightarrow> (nat \<times> warm_row) list" where
  "unvectorized n b = take n (sort_key (\<lambda>(i, r). wl_at r) (List.map_filter (\<lambda>(i, r, done'). if done' then None else Some (i, r)) (mb_warm b)))"

definition mark_vectorized :: "nat \<Rightarrow> 'e bus \<Rightarrow> 'e bus" where
  "mark_vectorized i b = b\<lparr>mb_warm := map (\<lambda>(j, r, done'). (j, r, done' \<or> j = i)) (mb_warm b)\<rparr>"

definition ingest_pending :: "(nat \<Rightarrow> 'e bus_env) \<Rightarrow> 'e bus \<Rightarrow> 'e bus" where
  "ingest_pending es b = (if \<not> be_vector (es 0) then b
     else fold (\<lambda>(n, i, r) b. mark_vectorized i (vector_store (es n) 0
         \<lparr>pe_id = show_nat i, pe_content = wl_content r, pe_agent = wl_jid r, pe_scope = ''private'', pe_project = []\<rparr> b))
       (enumerate 0 (unvectorized BATCH_SIZE b)) b)"

section \<open>The archive\<close>

definition append_cold_memory :: "int \<Rightarrow> string \<Rightarrow> string \<Rightarrow> string \<Rightarrow> string \<Rightarrow> 'e bus \<Rightarrow> 'e bus" where
  "append_cold_memory now jid title content tags b =
     b\<lparr>mb_cold := mb_cold b @ [\<lparr>cm_jid = jid, cm_title = title, cm_content = content, cm_tags = tags, cm_at = now\<rparr>]\<rparr>"

definition delete_cold_memory_before :: "string \<Rightarrow> int \<Rightarrow> 'e bus \<Rightarrow> 'e bus \<times> nat" where
  "delete_cold_memory_before jid cutoff b =
     (b\<lparr>mb_cold := filter (\<lambda>r. \<not> (cm_jid r = jid \<and> cm_at r < cutoff)) (mb_cold b)\<rparr>,
      length (filter (\<lambda>r. cm_jid r = jid \<and> cm_at r < cutoff) (mb_cold b)))"

datatype layer = Warm | Cold

record fts_hit =
  fh_layer :: layer
  fh_date :: string
  fh_content :: string
  fh_at :: int
  fh_score :: rat

text \<open>The rows of one table that match, best first; an error of the query counts as no match.\<close>

definition best :: "('r \<Rightarrow> rat option) option \<Rightarrow> int \<Rightarrow> 'r list \<Rightarrow> ('r \<times> rat) list" where
  "best rank n rows = (case rank of None \<Rightarrow> []
    | Some f \<Rightarrow> sql_limit n (sort_key snd (List.map_filter (\<lambda>r. map_option (\<lambda>x. (r, x)) (f r)) rows)))"

definition memory_fts_search :: "'e bus_env \<Rightarrow> string \<Rightarrow> string \<Rightarrow> int \<Rightarrow> 'e bus \<Rightarrow> fts_hit list" where
  "memory_fts_search e jid query limit b =
     (let warm = filter (\<lambda>r. wl_jid r = jid) (map (fst \<circ> snd) (mb_warm b)); cold = filter (\<lambda>r. cm_jid r = jid) (mb_cold b);
          hits = map (\<lambda>(r, x). \<lparr>fh_layer = Warm, fh_date = wl_date r, fh_content = take 500 (wl_content r), fh_at = wl_at r, fh_score = \<bar>x\<bar>\<rparr>)
                   (best (be_bm_warm e (map (fst \<circ> snd) (mb_warm b)) query) limit warm)
               @ map (\<lambda>(r, x). \<lparr>fh_layer = Cold, fh_date = cm_title r, fh_content = take 500 (cm_content r), fh_at = cm_at r, fh_score = \<bar>x\<bar>\<rparr>)
                   (best (be_bm_cold e (mb_cold b) query) limit cold) in
      py_take limit (sort_key (\<lambda>h. - fh_score h) hits))"

text \<open>\<open>ColdMemoryStore.search\<close>: of the hits in both layers those in the archive, with their decay.\<close>

definition cold_search :: "'e bus_env \<Rightarrow> string \<Rightarrow> string \<Rightarrow> int \<Rightarrow> 'e bus \<Rightarrow> (fts_hit \<times> rat) list" where
  "cold_search e query jid k b =
     py_take k (sort_key (\<lambda>(h, d). - (fh_score h * d))
       (map (\<lambda>h. (h, be_decay e (max 0 (be_clock e 2 - fh_at h))))
         (filter (\<lambda>h. fh_layer h = Cold) (memory_fts_search e jid query (2 * k) b))))"

text \<open>\<open>search.py\<close>: both layers, seven parts of relevance and three of recency.\<close>

definition memory_search :: "'e bus_env \<Rightarrow> (rat \<Rightarrow> rat) \<Rightarrow> string \<Rightarrow> string \<Rightarrow> int \<Rightarrow> 'e bus \<Rightarrow> (fts_hit \<times> rat) list" where
  "memory_search e round' jid query limit b =
     (if strip query = [] then []
      else py_take limit (sort_key (\<lambda>(h, x). - x)
        (map (\<lambda>h. let age = max 0 (of_int (be_clock e 2 - fh_at h) / 86400); recency = max 0 (1 - age / 30); norm = 1 - be_exp e (- fh_score h / 5) in
             (h, round' (norm * 7 / 10 + recency * 3 / 10)))
          (memory_fts_search e jid (strip query) (2 * limit) b))))"

section \<open>Labels\<close>

definition NAMESPACE_KEYWORDS :: "(string \<times> string list) list" where
  "NAMESPACE_KEYWORDS =
     [(''technical'', [''code'', ''bug'', ''error'', ''function'', ''class'', ''api'', ''database'', ''sql'', ''python'', ''git'', ''docker'']),
      (''planning'', [''plan'', ''task'', ''deadline'', ''milestone'', ''sprint'', ''goal'', ''roadmap'', ''priority'']),
      (''personal'', [''prefer'', ''like'', ''dislike'', ''feel'', ''want'', ''need'', ''habit'', ''style'']),
      (''project'', [''project'', ''feature'', ''requirement'', ''deploy'', ''release'', ''version''])]"

definition TOPIC_KEYWORDS :: "(string \<times> string list) list" where
  "TOPIC_KEYWORDS =
     [(''decisions'', [''decided'', ''decision'', ''chose'', ''switched'', ''agreed'', ''will use'']),
      (''preferences'', [''prefer'', ''like'', ''always'', ''usually'', ''typically'', ''favorite'']),
      (''problems'', [''error'', ''bug'', ''issue'', ''broken'', ''fail'', ''problem'', ''crash'']),
      (''facts'', [''is'', ''are'', ''was'', ''means'', ''defined as'', ''equals'']),
      (''milestones'', [''completed'', ''done'', ''finished'', ''shipped'', ''deployed'', ''merged'']),
      (''tasks'', [''todo'', ''need to'', ''should'', ''must'', ''will'', ''going to''])]"

text \<open>The first label of those with the most keywords, or none.\<close>

definition label_of :: "(string \<times> string list) list \<Rightarrow> string \<Rightarrow> string" where
  "label_of table text = (let scores = map (\<lambda>(l, ks). (l, length (filter (\<lambda>k. sublist k text) ks))) table;
       (l, n) = fold (\<lambda>(l, n) (bl, bn). if n > bn then (l, n) else (bl, bn)) scores ([], 0) in l)"

definition classify :: "string \<Rightarrow> string \<times> string" where
  "classify content = (label_of NAMESPACE_KEYWORDS (lower content), label_of TOPIC_KEYWORDS (lower content))"

definition list_topics :: "string \<Rightarrow> 'e bus \<Rightarrow> string list" where
  "list_topics ns b = sort (remdups (map sm_tag (filter (\<lambda>r. (ns = [] \<or> sm_ns r = ns) \<and> sm_tag r \<noteq> []) (mb_rows b))))"

definition topic_summary :: "string \<Rightarrow> string \<Rightarrow> int \<Rightarrow> 'e bus \<Rightarrow> mem_row list" where
  "topic_summary tag ns k b = sql_limit k (sort_key (\<lambda>r. - sm_importance r) (sort_key (\<lambda>r. - sm_at r)
     (filter (\<lambda>r. sm_tag r = tag \<and> (ns = [] \<or> sm_ns r = ns)) (mb_rows b))))"

definition palace_search :: "'e bus_env \<Rightarrow> string \<Rightarrow> string \<Rightarrow> string \<Rightarrow> int \<Rightarrow> 'e bus \<Rightarrow> (mem_row \<times> rat) list" where
  "palace_search e query ns tag k b = (case be_fts e (mb_rows b) query of
      None \<Rightarrow> []
    | Some rank \<Rightarrow> sql_limit k (ranked rank (\<lambda>r. (ns = [] \<or> sm_ns r = ns) \<and> (tag = [] \<or> sm_tag r = tag)) (mb_rows b)))"

section \<open>The bus\<close>

definition remember ::
  "'e bus_env \<Rightarrow> string \<Rightarrow> string \<Rightarrow> string \<Rightarrow> string \<Rightarrow> rat \<Rightarrow> string \<Rightarrow> string \<Rightarrow> 'e bus \<Rightarrow> 'e bus \<times> string" where
  "remember e content agent scope project importance ns tag b =
     (let (ans, atag) = classify content;
          (b, i) = shared_write e content agent scope project importance (if ns = [] then ans else ns) (if tag = [] then atag else tag) b in
      (vector_store e 2 \<lparr>pe_id = i, pe_content = content, pe_agent = agent, pe_scope = scope, pe_project = project\<rparr> b, i))"

datatype source = Hot_memory | Vector_index | Shared_store | Cold_archive

record memory =
  me_id :: string
  me_content :: string
  me_agent :: string
  me_scope :: string
  me_score :: rat
  me_at :: int
  me_source :: source

text \<open>What is added to the results when its identifier is new there.\<close>

definition add_new :: "memory list \<Rightarrow> memory list \<Rightarrow> memory list" where
  "add_new ms rs = fold (\<lambda>m rs. if list_ex (\<lambda>r. me_id r = me_id m) rs then rs else rs @ [m]) ms rs"

text \<open>\<open>Path(agent_id).name == agent_id\<close>, for a name that is not empty.\<close>

definition one_name :: "string \<Rightarrow> bool" where
  "one_name s \<longleftrightarrow> s \<noteq> [] \<and> CHR ''/'' \<notin> set s \<and> s \<noteq> ''.''"

definition hot_memories :: "'e bus_env \<Rightarrow> string \<Rightarrow> 'e bus \<Rightarrow> memory list" where
  "hot_memories e agent b = (if \<not> one_name agent then [] else case map_option unix_lines (dget (mb_files b) agent) of
      None \<Rightarrow> []
    | Some t \<Rightarrow> if strip t = [] then []
        else [\<lparr>me_id = ''hot:'' @ agent, me_content = take 2000 t, me_agent = agent, me_scope = ''private'', me_score = 9 / 10,
               me_at = be_clock e 3, me_source = Hot_memory\<rparr>])"

definition vector_memory :: "vec_row \<times> rat \<Rightarrow> memory" where
  "vector_memory = (\<lambda>(r, d). \<lparr>me_id = vm_id r, me_content = vm_content r, me_agent = vm_agent r, me_scope = vm_scope r,
     me_score = clamp (1 - d), me_at = vm_at r, me_source = Vector_index\<rparr>)"

definition shared_memory :: "'e bus_env \<Rightarrow> mem_row \<times> rat \<Rightarrow> memory" where
  "shared_memory e = (\<lambda>(r, x). \<lparr>me_id = sm_id r, me_content = sm_content r, me_agent = sm_agent r, me_scope = sm_scope r,
     me_score = clamp (1 / (1 + be_exp e ((if x = 0 then -1 else x) / 5))), me_at = sm_at r, me_source = Shared_store\<rparr>)"

definition cold_memory :: "'e bus_env \<Rightarrow> string \<Rightarrow> fts_hit \<times> rat \<Rightarrow> memory" where
  "cold_memory e agent = (\<lambda>(h, d). \<lparr>me_id = ''cold:'' @ fh_date h @ '':'' @ be_show e (fh_at h), me_content = fh_content h, me_agent = agent,
     me_scope = ''private'', me_score = clamp (1 / (1 + be_exp e (- fh_score h / 5)) * d), me_at = fh_at h, me_source = Cold_archive\<rparr>)"

definition gather ::
  "'e bus_env \<Rightarrow> string \<Rightarrow> string \<Rightarrow> int \<Rightarrow> string \<Rightarrow> source set \<Rightarrow> string \<Rightarrow> string \<Rightarrow> 'e bus \<Rightarrow> 'e bus \<times> memory list" where
  "gather e query agent k project sources ns tag b =
     (let rs = (if Hot_memory \<in> sources then hot_memories e agent b else []);
          rs = (if Vector_index \<in> sources then add_new (map vector_memory (vector_search e query agent k project b)) rs else rs);
          rs = (if Shared_store \<in> sources \<and> (ns \<noteq> [] \<or> tag \<noteq> []) then add_new (map (shared_memory e) (palace_search e query ns tag k b)) rs else rs);
          (b, hits) = (if Shared_store \<in> sources then shared_search e query agent project k b else (b, []));
          rs = add_new (map (shared_memory e) hits) rs;
          rs = (if Cold_archive \<in> sources then add_new (map (cold_memory e agent) (cold_search e query agent k b)) rs else rs) in
      (b, rs))"

definition recall ::
  "'e bus_env \<Rightarrow> string \<Rightarrow> string \<Rightarrow> int \<Rightarrow> string \<Rightarrow> source set \<Rightarrow> string \<Rightarrow> string \<Rightarrow> 'e bus \<Rightarrow> 'e bus \<times> memory list" where
  "recall e query agent k project sources ns tag b =
     (case gather e query agent k project sources ns tag b of (b, rs) \<Rightarrow> (b, py_take k (sort_key (\<lambda>m. - me_score m) rs)))"

definition default_sources :: "source set" where "default_sources = {Shared_store, Vector_index}"

definition forget :: "'e bus_env \<Rightarrow> string \<Rightarrow> string \<Rightarrow> 'e bus \<Rightarrow> 'e bus \<times> bool" where
  "forget e i agent b = (case shared_delete e i agent b of (b, r) \<Rightarrow> (vector_delete e 1 i b, r))"

text \<open>\<open>None\<close> where it raises; a file that cannot be written gives \<open>False\<close>.\<close>

definition patch_hot_memory :: "'e bus_env \<Rightarrow> string \<Rightarrow> string \<Rightarrow> nat \<Rightarrow> 'e bus \<Rightarrow> ('e bus \<times> bool) option" where
  "patch_hot_memory e agent patch limit b =
     (if \<not> one_name agent then None
      else if \<not> be_ok e 0 then Some (b, False)
      else let cur = (case dget (mb_files b) agent of None \<Rightarrow> [] | Some t \<Rightarrow> unix_lines t); new = cur @ newline @ patch;
               new = (if length (utf8 new) > limit then safe_truncate new limit else new) in
        Some (b\<lparr>mb_files := dset agent new (mb_files b)\<rparr>, True))"

section \<open>Requests of containers\<close>

definition SUMMARY_CHARS :: nat where "SUMMARY_CHARS = 200"

text \<open>\<open>be_mark\<close> is the character that shows that a summary was cut.\<close>

definition summarize :: "'e bus_env \<Rightarrow> string \<Rightarrow> string" where
  "summarize e t = (if length (strip t) \<le> SUMMARY_CHARS then strip t else take SUMMARY_CHARS (strip t) @ be_mark e)"

record answer_row =
  ar_id :: string
  ar_summary :: string
  ar_length :: nat
  ar_score :: rat
  ar_source :: source
  ar_scope :: string
  ar_at :: int

datatype memory_answer = Memories "answer_row list" | Stored string | Failed

definition answer_row_of :: "'e bus_env \<Rightarrow> memory \<Rightarrow> answer_row" where
  "answer_row_of e m = \<lparr>ar_id = me_id m, ar_summary = summarize e (me_content m), ar_length = length (me_content m), ar_score = me_score m,
     ar_source = me_source m, ar_scope = me_scope m, ar_at = me_at m\<rparr>"

text \<open>What a started job does, and what it writes where; \<open>None\<close> where the path of the answer is refused.\<close>

definition run_memory_recall :: "'e bus_env \<Rightarrow> string \<Rightarrow> int \<Rightarrow> string \<Rightarrow> string \<Rightarrow> 'e bus \<Rightarrow> 'e bus \<times> memory_answer" where
  "run_memory_recall e query k ns agent b = (case recall e query agent k ns default_sources [] [] b of
     (b, ms) \<Rightarrow> (b, Memories (map (answer_row_of e) ms)))"

definition run_memory_remember :: "'e bus_env \<Rightarrow> string \<Rightarrow> rat \<Rightarrow> string \<Rightarrow> string \<Rightarrow> 'e bus \<Rightarrow> 'e bus \<times> memory_answer" where
  "run_memory_remember e content importance ns agent b = (case remember e content agent ''shared'' ns importance [] [] b of
     (b, i) \<Rightarrow> (b, Stored i))"

definition perform :: "'e bus_env \<Rightarrow> env \<Rightarrow> (string \<Rightarrow> rat option) \<Rightarrow> action \<Rightarrow> 'e bus \<Rightarrow> 'e bus \<times> (string list \<times> memory_answer) option" where
  "perform e env float' a b = (case a of
      Recall query k ns tag agent file folder \<Rightarrow>
        (case (case py_int k of None \<Rightarrow> (b, Failed) | Some k \<Rightarrow> run_memory_recall e query k ns agent b) of
           (b, r) \<Rightarrow> (b, map_option (\<lambda>p. (p, r)) (resolve_response_file env file folder)))
    | Remember content importance ns tag agent file folder \<Rightarrow>
        (case (case float' importance of None \<Rightarrow> (b, Failed) | Some x \<Rightarrow> run_memory_remember e content x ns agent b) of
           (b, r) \<Rightarrow> (b, map_option (\<lambda>p. (p, r)) (resolve_response_file env file folder)))
    | _ \<Rightarrow> (b, None))"

section \<open>What a recall can show\<close>

lemma set_sql_limit: "x \<in> set (sql_limit k xs) \<Longrightarrow> x \<in> set xs"
  by (auto simp: sql_limit_def split: if_splits dest: in_set_takeD)

lemma set_py_take: "x \<in> set (py_take k xs) \<Longrightarrow> x \<in> set xs"
  by (auto simp: py_take_def split: if_splits dest: in_set_takeD)

lemma py_take_all: "int (length xs) \<le> k \<Longrightarrow> py_take k xs = xs"
  by (simp add: py_take_def)

lemma sql_limit_all: "int (length xs) \<le> k \<Longrightarrow> sql_limit k xs = xs"
  by (simp add: sql_limit_def)

lemma clamp_unit: "0 \<le> clamp x \<and> clamp x \<le> 1"
  by (simp add: clamp_def)

lemma in_map_filter: "y \<in> set (List.map_filter f xs) \<longleftrightarrow> (\<exists>x \<in> set xs. f x = Some y)"
  by (auto simp: List.map_filter_def image_iff)

lemma set_ranked: "(r, x) \<in> set (ranked rank p rows) \<longleftrightarrow> r \<in> set rows \<and> rank r = Some x \<and> p r"
  by (auto simp: ranked_def in_map_filter split: option.splits if_splits)

lemma length_ranked: "length (ranked rank p rows) \<le> length rows"
  by (simp add: ranked_def List.map_filter_def)

lemma add_new_Cons: "add_new (m # ms) rs = add_new ms (if list_ex (\<lambda>r. me_id r = me_id m) rs then rs else rs @ [m])"
  by (simp add: add_new_def)

lemma add_new_Nil [simp]: "add_new [] rs = rs"
  by (simp add: add_new_def)

lemma add_new_set: "m \<in> set (add_new ms rs) \<Longrightarrow> m \<in> set rs \<or> m \<in> set ms"
  by (induction ms arbitrary: rs) (auto simp: add_new_Cons split: if_splits, fastforce+)

lemma add_new_ids: "me_id ` set (add_new ms rs) = me_id ` (set rs \<union> set ms)"
proof (induction ms arbitrary: rs)
  case (Cons m ms)
  then show ?case by (cases "list_ex (\<lambda>r. me_id r = me_id m) rs") (auto simp: add_new_Cons list_ex_iff intro: rev_image_eqI)
qed simp

lemma add_new_distinct: "distinct (map me_id rs) \<Longrightarrow> distinct (map me_id (add_new ms rs))"
proof (induction ms arbitrary: rs)
  case (Cons m ms)
  show ?case unfolding add_new_Cons using Cons.prems by (intro Cons.IH) (auto simp: list_ex_iff)
qed simp

lemma length_add_new: "length (add_new ms rs) \<le> length rs + length ms"
proof (induction ms arbitrary: rs)
  case (Cons m ms)
  show ?case using Cons.IH[of rs] Cons.IH[of "rs @ [m]"] by (auto simp: add_new_Cons)
qed simp

text \<open>Where a result comes from.\<close>

definition origin :: "string \<Rightarrow> string \<Rightarrow> string \<Rightarrow> string \<Rightarrow> 'e bus \<Rightarrow> memory \<Rightarrow> bool" where
  "origin agent project ns tag b m = (case me_source m of
      Hot_memory \<Rightarrow> one_name agent \<and> me_agent m = agent
        \<and> (\<exists>t. dget (mb_files b) agent = Some t \<and> me_content m = take 2000 (unix_lines t))
    | Vector_index \<Rightarrow> (\<exists>r \<in> set (mb_vecs b). vec_readable agent project r
        \<and> (me_id m, me_content m, me_agent m, me_scope m) = (vm_id r, vm_content r, vm_agent r, vm_scope r))
    | Shared_store \<Rightarrow> (\<exists>r \<in> set (mb_rows b).
        (row_readable agent project r \<or> (ns \<noteq> [] \<or> tag \<noteq> []) \<and> (ns = [] \<or> sm_ns r = ns) \<and> (tag = [] \<or> sm_tag r = tag))
        \<and> (me_id m, me_content m, me_agent m, me_scope m) = (sm_id r, sm_content r, sm_agent r, sm_scope r))
    | Cold_archive \<Rightarrow> (\<exists>r \<in> set (mb_cold b). cm_jid r = agent \<and> me_content m = take 500 (cm_content r)))"

lemma vector_search_origin: "h \<in> set (vector_search e q agent k project b) \<Longrightarrow> fst h \<in> set (mb_vecs b) \<and> vec_readable agent project (fst h)"
  by (auto simp: vector_search_def split: if_splits option.splits dest!: set_sql_limit)

lemma palace_origin: "h \<in> set (palace_search e q ns tag k b) \<Longrightarrow> fst h \<in> set (mb_rows b) \<and> (ns = [] \<or> sm_ns (fst h) = ns) \<and> (tag = [] \<or> sm_tag (fst h) = tag)"
  by (cases h) (auto simp: palace_search_def set_ranked split: option.splits dest!: set_sql_limit)

lemma shared_origin: "h \<in> set (snd (shared_search e q agent project k b)) \<Longrightarrow> fst h \<in> set (mb_rows b) \<and> row_readable agent project (fst h)"
  by (cases h) (auto simp: shared_search_def Let_def set_ranked split: option.splits if_splits dest!: set_sql_limit)

lemma best_origin: "h \<in> set (best rank n rows) \<Longrightarrow> fst h \<in> set rows"
  by (auto simp: best_def in_map_filter split: option.splits dest!: set_sql_limit)

lemma cold_origin:
  assumes "h \<in> set (cold_search e q jid k b)"
  shows "\<exists>r \<in> set (mb_cold b). cm_jid r = jid \<and> fh_content (fst h) = take 500 (cm_content r)"
proof -
  have "fst h \<in> set (memory_fts_search e jid q (2 * k) b) \<and> fh_layer (fst h) = Cold" using assms
    by (auto simp: cold_search_def dest!: set_py_take)
  then show ?thesis
    by (auto simp: memory_fts_search_def Let_def dest!: set_py_take best_origin) blast
qed

definition fine :: "string \<Rightarrow> string \<Rightarrow> string \<Rightarrow> string \<Rightarrow> 'e bus \<Rightarrow> memory \<Rightarrow> bool" where
  "fine agent project ns tag b m \<longleftrightarrow> origin agent project ns tag b m \<and> 0 \<le> me_score m \<and> me_score m \<le> 1"

lemma hot_fine: "m \<in> set (hot_memories e agent b) \<Longrightarrow> fine agent project ns tag b m"
  by (cases "dget (mb_files b) agent") (auto simp: hot_memories_def origin_def fine_def split: if_splits)

lemma vector_fine:
  assumes "m \<in> vector_memory ` set (vector_search e q agent k project b)"
  shows "fine agent project ns tag b m"
proof -
  obtain r d where m: "m = vector_memory (r, d)" "(r, d) \<in> set (vector_search e q agent k project b)" using assms by auto
  then have "r \<in> set (mb_vecs b)" "vec_readable agent project r" using vector_search_origin[OF m(2)] by auto
  then show ?thesis using m(1) by (auto simp: fine_def origin_def vector_memory_def clamp_unit)
qed

lemma shared_fine:
  assumes "m \<in> shared_memory e ` set hs"
    and "\<And>h. h \<in> set hs \<Longrightarrow> fst h \<in> set (mb_rows b) \<and> (row_readable agent project (fst h) \<or>
      (ns \<noteq> [] \<or> tag \<noteq> []) \<and> (ns = [] \<or> sm_ns (fst h) = ns) \<and> (tag = [] \<or> sm_tag (fst h) = tag))"
  shows "fine agent project ns tag b m"
proof -
  obtain r x where m: "m = shared_memory e (r, x)" "(r, x) \<in> set hs" using assms(1) by auto
  with assms(2)[OF m(2)] show ?thesis by (auto simp: fine_def origin_def shared_memory_def clamp_unit)
qed

lemma cold_fine:
  assumes "m \<in> cold_memory e agent ` set (cold_search e q agent k b)"
  shows "fine agent project ns tag b m"
proof -
  obtain h d where m: "m = cold_memory e agent (h, d)" "(h, d) \<in> set (cold_search e q agent k b)" using assms by auto
  with cold_origin[OF m(2)] show ?thesis by (auto simp: fine_def origin_def cold_memory_def clamp_unit)
qed

lemma shared_search_tables:
  "shared_search e q agent project k b = (b', hs) \<Longrightarrow> mb_cold b' = mb_cold b \<and> mb_warm b' = mb_warm b \<and> map sm_id (mb_rows b') = map sm_id (mb_rows b)"
  by (auto simp: shared_search_def Let_def split: option.splits if_splits)

lemma cold_search_cong: "mb_cold b' = mb_cold b \<Longrightarrow> mb_warm b' = mb_warm b \<Longrightarrow> cold_search e q j k b' = cold_search e q j k b"
  by (simp add: cold_search_def memory_fts_search_def)

lemma hot_distinct: "distinct (map me_id (hot_memories e agent b))"
  by (auto simp: hot_memories_def split: option.split)

lemma gather_result:
  assumes "gather e q agent k project srcs ns tag b = (b', rs)"
  shows "(\<forall>m \<in> set rs. fine agent project ns tag b m) \<and> distinct (map me_id rs)"
proof -
  define P where "P rs \<longleftrightarrow> (\<forall>m \<in> set rs. fine agent project ns tag b m) \<and> distinct (map me_id rs)" for rs
  have step: "P rs \<Longrightarrow> (\<And>m. m \<in> set ms \<Longrightarrow> fine agent project ns tag b m) \<Longrightarrow> P (add_new ms rs)" for ms rs
    using add_new_distinct by (auto simp: P_def dest!: add_new_set)
  define r0 where "r0 = (if Hot_memory \<in> srcs then hot_memories e agent b else [])"
  define r1 where "r1 = (if Vector_index \<in> srcs then add_new (map vector_memory (vector_search e q agent k project b)) r0 else r0)"
  define r2 where "r2 = (if Shared_store \<in> srcs \<and> (ns \<noteq> [] \<or> tag \<noteq> []) then add_new (map (shared_memory e) (palace_search e q ns tag k b)) r1 else r1)"
  have 0: "P r0" by (simp add: P_def r0_def hot_distinct hot_fine)
  have "P (add_new (map vector_memory (vector_search e q agent k project b)) r0)"
    by (rule step[OF 0], rule vector_fine[where e = e and q = q and k = k], simp)
  then have 1: "P r1" using 0 by (simp add: r1_def)
  have "P (add_new (map (shared_memory e) (palace_search e q ns tag k b)) r1)" if "ns \<noteq> [] \<or> tag \<noteq> []"
    by (rule step[OF 1], rule shared_fine[where e = e and hs = "palace_search e q ns tag k b"]) (use that palace_origin in \<open>simp, blast\<close>)
  then have 2: "P r2" using 1 by (simp add: r2_def)
  obtain b2 hits where h: "(if Shared_store \<in> srcs then shared_search e q agent project k b else (b, [])) = (b2, hits)" by fastforce
  have c: "cold_search e q agent k b2 = cold_search e q agent k b"
    using h shared_search_tables[of e q agent project k b b2 hits] cold_search_cong[of b2 b] by (auto split: if_splits)
  have "fine agent project ns tag b m" if "m \<in> shared_memory e ` set hits" for m
    using that by (rule shared_fine) (use h shared_origin[of _ e q agent project k b] in \<open>auto split: if_splits\<close>)
  then have 3: "P (add_new (map (shared_memory e) hits) r2)" by (intro step[OF 2]) (simp only: set_map)
  have "rs = (if Cold_archive \<in> srcs then add_new (map (cold_memory e agent) (cold_search e q agent k b)) (add_new (map (shared_memory e) hits) r2)
      else add_new (map (shared_memory e) hits) r2)"
    using assms unfolding gather_def Let_def h r0_def[symmetric] r1_def[symmetric] r2_def[symmetric] prod.case c by simp
  moreover have "P (add_new (map (cold_memory e agent) (cold_search e q agent k b)) (add_new (map (shared_memory e) hits) r2))"
    by (rule step[OF 3], rule cold_fine[where e = e and q = q and k = k], simp)
  ultimately have "P rs" using 3 by simp
  then show ?thesis by (simp add: P_def)
qed

text \<open>
  C38: What a recall shows.  Results have different identifiers, scores between zero and one, the best first, and no
  more than asked for.  Each comes from the agent's own memory file or archive, or is a memory that is shared, its own, or of
  its project, unless the recall names a label: then every memory with that label is shown, the
  private ones of other agents too.
\<close>

theorem recall_confined:
  assumes "recall e query agent k project sources ns tag b = (b', ms)" "0 \<le> k"
  shows "list_all (\<lambda>m. origin agent project ns tag b m \<and> 0 \<le> me_score m \<and> me_score m \<le> 1) ms
    \<and> sorted (map (\<lambda>m. - me_score m) ms) \<and> distinct (map me_id ms) \<and> int (length ms) \<le> k"
proof -
  obtain b1 rs where g: "gather e query agent k project sources ns tag b = (b1, rs)" by fastforce
  then have ms: "ms = take (nat k) (sort_key (\<lambda>m. - me_score m) rs)" using assms by (simp add: recall_def py_take_def)
  have d: "distinct (map me_id rs)" using gather_result[OF g] by blast
  have "distinct (map me_id (sort_key (\<lambda>m. - me_score m) rs))" using d by (simp add: distinct_map)
  then have "distinct (map me_id ms)" unfolding ms take_map[symmetric] by (rule distinct_take)
  moreover have "sorted (map (\<lambda>m. - me_score m) ms)" unfolding ms take_map[symmetric] by (intro sorted_wrt_take) simp
  moreover have "list_all (\<lambda>m. origin agent project ns tag b m \<and> 0 \<le> me_score m \<and> me_score m \<le> 1) ms"
    using gather_result[OF g] unfolding ms by (auto simp: list_all_iff fine_def dest!: in_set_takeD)
  ultimately show ?thesis using assms(2) ms by simp
qed

text \<open>A private memory of one agent, and what another sees without and with a label.\<close>

definition demo_bus :: "nat bus" where
  "demo_bus = \<lparr>mb_rows = [\<lparr>sm_id = ''m1'', sm_agent = ''tg:1'', sm_project = [], sm_scope = ''private'', sm_content = ''the api key'', sm_importance = 1 / 2,
       sm_access = 0, sm_ns = ''technical'', sm_tag = [], sm_at = 1\<rparr>], mb_vecs = [], mb_index = [], mb_pending = [], mb_cold = [], mb_warm = [], mb_files = []\<rparr>"

definition demo_bus_env :: "nat bus_env" where
  "demo_bus_env = \<lparr>be_digest = rev, be_clock = int, be_show = show_int, be_ok = (\<lambda>_. True), be_vector = False, be_embed = (\<lambda>_ _. None),
     be_near = (\<lambda>_ _ _ _. None), be_fts = (\<lambda>_ q. Some (\<lambda>r. if sublist q (sm_content r) then Some (-1) else None)),
     be_bm_cold = (\<lambda>_ _. None), be_bm_warm = (\<lambda>_ _. None), be_exp = (\<lambda>_. 1), be_decay = (\<lambda>_. 1), be_mark = ''..''\<rparr>"

theorem recall_confined_witness:
  "snd (recall demo_bus_env ''key'' ''tg:2'' 5 [] default_sources [] [] demo_bus) = []
    \<and> map (\<lambda>m. (me_agent m, me_scope m, me_content m)) (snd (recall demo_bus_env ''key'' ''tg:2'' 5 [] default_sources ''technical'' [] demo_bus))
        = [(''tg:1'', ''private'', ''the api key'')]
    \<and> list_all (origin ''tg:2'' [] ''technical'' [] demo_bus) (snd (recall demo_bus_env ''key'' ''tg:2'' 5 [] default_sources ''technical'' [] demo_bus))"
proof -
  have 1: "snd (recall demo_bus_env ''key'' ''tg:2'' 5 [] default_sources [] [] demo_bus) = []" by code_simp
  have 2: "map (\<lambda>m. (me_agent m, me_scope m, me_content m)) (snd (recall demo_bus_env ''key'' ''tg:2'' 5 [] default_sources ''technical'' [] demo_bus))
        = [(''tg:1'', ''private'', ''the api key'')]" by code_simp
  obtain b ms where r: "recall demo_bus_env ''key'' ''tg:2'' 5 [] default_sources ''technical'' [] demo_bus = (b, ms)" by fastforce
  have "list_all (origin ''tg:2'' [] ''technical'' [] demo_bus) ms"
    using recall_confined[OF r] by (simp add: list_all_iff)
  then show ?thesis using 1 2 r by simp
qed

section \<open>What containers store\<close>

lemma readable_shared: "sm_scope r = ''shared'' \<Longrightarrow> row_readable agent project r"
  by (simp add: row_readable_def)

lemma gather_shared:
  assumes "Shared_store \<in> srcs" "be_fts e (mb_rows b) q = Some rank" "be_ok e 0" "r \<in> set (mb_rows b)" "rank r = Some x" "row_readable agent project r"
    and "int (length (mb_rows b)) \<le> k" "gather e q agent k project srcs ns tag b = (b', rs)"
  shows "sm_id r \<in> me_id ` set rs"
proof -
  obtain b2 hits where h: "shared_search e q agent project k b = (b2, hits)" by fastforce
  have "int (length (ranked rank (row_readable agent project) (mb_rows b))) \<le> k" using assms(7) length_ranked[of rank "row_readable agent project" "mb_rows b"] by linarith
  then have "hits = ranked rank (row_readable agent project) (mb_rows b)" using h assms(2,3) by (simp add: shared_search_def Let_def sql_limit_all)
  then have "(r, x) \<in> set hits" using assms(4-6) by (simp add: set_ranked)
  then have "sm_id r \<in> me_id ` shared_memory e ` set hits" by (force simp: shared_memory_def)
  then show ?thesis using assms(1,8) h by (auto simp: gather_def Let_def add_new_ids image_Un split: if_splits)
qed

text \<open>What storing changes: one row is added, and the index may be.\<close>

lemma vector_store_rows: "mb_rows (vector_store e m p b) = mb_rows b"
proof -
  have "mb_rows (retry_items e n ps b) = mb_rows b" for n ps b
    by (induction e n ps b rule: retry_items.induct) (auto simp: put_vector_def split: option.splits)
  then show ?thesis by (simp add: vector_store_def Let_def retry_pending_def put_vector_def split: option.split)
qed

lemma remember_rows:
  assumes "remember e content agent scope project imp ns tag b = (b', i)" "be_ok e 0" "\<forall>r \<in> set (mb_rows b). sm_id r \<noteq> i"
  shows "\<exists>r. mb_rows b' = mb_rows b @ [r] \<and> sm_id r = i \<and> sm_content r = content \<and> sm_agent r = agent \<and> sm_scope r = scope \<and> sm_project r = project"
  using assms by (auto simp: remember_def shared_write_def Let_def vector_store_rows list_ex_iff split: prod.splits if_splits)


text \<open>
  Forgetting: only the owner removes the row, but anyone removes the entries of the vector index.
\<close>

theorem forget_exact:
  assumes "\<And>n. be_ok e n"
  shows "case forget e i agent b of (b', r) \<Rightarrow> (r \<longleftrightarrow> (\<exists>x \<in> set (mb_rows b). sm_id x = i \<and> sm_agent x = agent))
    \<and> mb_rows b' = filter (\<lambda>x. \<not> (sm_id x = i \<and> sm_agent x = agent)) (mb_rows b)
    \<and> mb_vecs b' = filter (\<lambda>v. vm_id v \<noteq> i) (mb_vecs b) \<and> mb_index b' = filter (\<lambda>v. fst v \<noteq> i) (mb_index b)"
  using assms by (simp add: forget_def shared_delete_def vector_delete_def list_ex_iff)

text \<open>
  A patch of a memory file keeps it within the limit and leaves other files alone.  When the file is full, the
  patch is lost, and still reported as done.
\<close>

theorem patch_bounded:
  assumes "patch_hot_memory e agent patch limit b = Some (b', r)"
  shows "(r \<longrightarrow> (\<exists>t. dget (mb_files b') agent = Some t \<and> length (utf8 t) \<le> limit))
    \<and> (\<forall>a. a \<noteq> agent \<longrightarrow> dget (mb_files b') a = dget (mb_files b) a)
    \<and> (\<forall>t. dget (mb_files b) agent = Some t \<and> length (utf8 (unix_lines t)) = limit \<and> r \<longrightarrow> dget (mb_files b') agent = Some (unix_lines t))"
proof -
  have l: "length (utf8 (safe_truncate t limit)) \<le> limit" if "length (utf8 t) > limit" for t
    using truncate_exact[OF that] by auto
  have "length (utf8 (u @ newline @ patch)) > limit \<and> safe_truncate (u @ newline @ patch) limit = u" if u: "length (utf8 u) = limit" for u
  proof -
    have n: "length (utf8 t) \<ge> length t" for t
      by (induction t) (auto simp: utf8_char_def Let_def)
    have big: "length (utf8 (u @ newline @ patch)) > limit" using u n[of newline] by (auto simp: newline_def simp flip: length_greater_0_conv)
    then obtain j where j: "safe_truncate (u @ newline @ patch) limit = take j (u @ newline @ patch)"
      "length (utf8 (take j (u @ newline @ patch))) \<le> limit" "length (utf8 (take (Suc j) (u @ newline @ patch))) > limit"
      using truncate_exact[OF big] by blast
    have "\<not> j < length u"
    proof
      assume "j < length u"
      then have t: "take (Suc j) (u @ newline @ patch) = take (Suc j) u" by simp
      have "length (utf8 (take (Suc j) u)) \<le> length (utf8 (take (Suc j) u @ drop (Suc j) u))" unfolding utf8_simps by simp
      then show False using j(3) u unfolding t by simp
    qed
    moreover have "\<not> j > length u"
    proof
      assume g: "j > length u"
      then have t: "take j (u @ newline @ patch) = u @ take (j - length u) (newline @ patch)" by simp
      have "length (take (j - length u) (newline @ patch)) > 0" using g by (simp add: newline_def)
      then have "length (utf8 (take (j - length u) (newline @ patch))) > 0" using n[of "take (j - length u) (newline @ patch)"] by linarith
      then have "length (utf8 (u @ take (j - length u) (newline @ patch))) > limit" unfolding utf8_simps length_append u by simp
      then show False using j(2) unfolding t by simp
    qed
    ultimately show ?thesis using j(1) big by simp
  qed
  then show ?thesis using assms l
    by (auto simp: patch_hot_memory_def Let_def split: if_splits option.splits)
qed


text \<open>
  The vector index.  Where the extension is there and every transaction succeeds, nothing that is stored gets lost: every
  memory is in both of its tables or waits for its embedding.
\<close>

definition indexed :: "'e bus \<Rightarrow> string set" where
  "indexed b = vm_id ` set (mb_vecs b) \<inter> fst ` set (mb_index b)"

lemma put_vector_indexed: "indexed (put_vector p now x b) = insert (pe_id p) (indexed b)"
  by (auto simp: indexed_def put_vector_def image_iff)

lemma retry_kept:
  "(\<And>n. be_ok e n) \<Longrightarrow> indexed b \<union> pe_id ` set (mb_pending b) \<union> pe_id ` set ps \<subseteq> indexed (retry_items e n ps b) \<union> pe_id ` set (mb_pending (retry_items e n ps b))"
proof (induction e n ps b rule: retry_items.induct)
  case (2 e n p ps b)
  let ?b = "case be_embed e n (pe_content p) of None \<Rightarrow> b\<lparr>mb_pending := mb_pending b @ [p]\<rparr>
    | Some x \<Rightarrow> if be_ok e n then put_vector p (be_clock e n) x b else b\<lparr>mb_pending := mb_pending b @ [p]\<rparr>"
  have "indexed b \<union> pe_id ` set (mb_pending b) \<union> {pe_id p} \<subseteq> indexed ?b \<union> pe_id ` set (mb_pending ?b)"
    using 2(2) by (auto simp: put_vector_indexed split: option.split) (auto simp: indexed_def put_vector_def)
  with 2(1)[OF 2(2)] show ?case unfolding retry_items.simps list.set image_insert by blast
qed auto

theorem vectors_kept:
  assumes "\<And>n. be_ok e n" "be_vector e"
  shows "indexed b \<union> pe_id ` set (mb_pending b) \<union> {pe_id p} \<subseteq> indexed (vector_store e m p b) \<union> pe_id ` set (mb_pending (vector_store e m p b))"
proof -
  let ?b = "retry_pending e m b"
  have "indexed b \<union> pe_id ` set (mb_pending b) \<subseteq> indexed ?b \<union> pe_id ` set (mb_pending ?b)"
    using retry_kept[OF assms(1), of "b\<lparr>mb_pending := []\<rparr>" "mb_pending b" m] by (simp add: retry_pending_def indexed_def)
  then show ?thesis using assms
    by (auto simp: vector_store_def Let_def put_vector_indexed split: option.split) (auto simp: indexed_def put_vector_def)
qed

text \<open>Every log that a pass of the ingestor looks at counts as done afterwards, embedded or not.\<close>

theorem ingest_marks:
  assumes "be_vector (es 0)" "(i, r) \<in> set (unvectorized BATCH_SIZE b)"
  shows "\<forall>(j, r, done') \<in> set (mb_warm (ingest_pending es b)). j = i \<longrightarrow> done'"
proof -
  have w: "mb_warm (vector_store e m p b) = mb_warm b" for e m p and b :: "'a bus"
  proof -
    have "mb_warm (retry_items e n ps b) = mb_warm b" for n ps b
      by (induction e n ps b rule: retry_items.induct) (auto simp: put_vector_def split: option.splits)
    then show ?thesis by (simp add: vector_store_def Let_def retry_pending_def put_vector_def split: option.split)
  qed
  let ?f = "\<lambda>(n, i, r) b. mark_vectorized i (vector_store (es n) 0
         \<lparr>pe_id = show_nat i, pe_content = wl_content r, pe_agent = wl_jid r, pe_scope = ''private'', pe_project = []\<rparr> b)"
  have all: "\<forall>(j, r, done') \<in> set (mb_warm (fold ?f xs b)). (j = i \<and> (i \<in> fst ` snd ` set xs \<or> (\<forall>(j, r, done') \<in> set (mb_warm b). j = i \<longrightarrow> done'))) \<longrightarrow> done'" for xs b
  proof (induction xs arbitrary: b)
    case (Cons x xs)
    obtain n k q where x: "x = (n, k, q)" by (cases x) auto
    show ?case
    proof (cases "i \<in> fst ` snd ` set xs")
      case True
      then show ?thesis using Cons[of "?f x b"] by (simp add: x)
    next
      case False
      have "k = i \<or> (\<forall>(j, r, done') \<in> set (mb_warm b). j = i \<longrightarrow> done') \<Longrightarrow> (\<forall>(j, r, done') \<in> set (mb_warm (?f x b)). j = i \<longrightarrow> done')"
        by (auto simp: x mark_vectorized_def w)
      then show ?thesis using Cons[of "?f x b"] False by (auto simp: x)
    qed
  qed auto
  have "i \<in> fst ` snd ` set (enumerate 0 (unvectorized BATCH_SIZE b))"
    using assms(2) by (metis fst_conv image_eqI map_snd_enumerate set_map)
  then show ?thesis using all[of "enumerate 0 (unvectorized BATCH_SIZE b)" b] assms(1) unfolding ingest_pending_def by simp
qed

end
