(* ===== verification/AgentTools.thy ===== *)
theory AgentTools
  imports AgentFiles WebFetch MemoryBus "HOL-Library.Multiset"
begin

text \<open>
  The other tools of an agent and their dispatcher: \<open>container/agent-runner/_tools.py\<close> from \<open>tool_bash\<close> on and
  \<open>_execute_tool_inner\<close> (\<open>_registry.py\<close>).  A tool that asks the host for something writes a JSON file; the
  files are kept by name, with the object that each holds.  That they cannot be written is left out.

  The clock, identifiers, the shell, grep, what the host answers and the tools installed at run time are arguments (record
  \<open>tool_cfg\<close>), most of them indexed by the number of the call.  Signs of the program's texts that are not ASCII are arguments too.
  An exception that a tool does not catch is \<open>Inl\<close>.
\<close>

section \<open>Values\<close>

text \<open>A JSON value: a string, a number or constant with its text and its truth, or a list or object.\<close>

datatype json = Str string | Val string bool | Box string bool

type_synonym args = "(string, json) dict"

fun is_true :: "json \<Rightarrow> bool" where
  "is_true (Str s) = (s \<noteq> [])"
| "is_true (Val _ b) = b"
| "is_true (Box _ b) = b"

fun as_text :: "json \<Rightarrow> string" where
  "as_text (Str s) = s"
| "as_text (Val t _) = t"
| "as_text (Box t _) = t"

definition arg_or :: "json \<Rightarrow> args \<Rightarrow> string \<Rightarrow> json" where
  "arg_or d a k = (case dget a k of None \<Rightarrow> d | Some v \<Rightarrow> v)"

definition str_arg :: "args \<Rightarrow> string \<Rightarrow> string option" where
  "str_arg a k = (case dget a k of Some (Str s) \<Rightarrow> Some s | _ \<Rightarrow> None)"

section \<open>The world of the tools\<close>

record tool_world =
  tw_disk :: disk
  tw_messages :: "(string, args) dict"
  tw_tasks :: "(string, args) dict"
  tw_sent :: nat
  tw_cache :: cache
  tw_tick :: nat

datatype shell_result = Exited int string string | Timed_out | Shell_error string

text \<open>What \<open>grep\<close> writes, in the chunks that are read, what it complains about, and whether it was killed after thirty seconds.\<close>

record grep_run =
  gr_out :: "nat list list"
  gr_err :: "nat list"
  gr_killed :: bool

datatype found = Unreadable string | Object args "args list"

record tool_cfg =
  tc_files :: "nat \<Rightarrow> file_env"
  tc_web :: "nat \<Rightarrow> web_env"
  tc_now :: "nat \<Rightarrow> nat"
  tc_uid :: "nat \<Rightarrow> string"
  tc_uuid :: "nat \<Rightarrow> string"
  tc_pid :: string
  tc_shell :: "nat \<Rightarrow> string \<Rightarrow> disk \<Rightarrow> disk \<times> shell_result"
  tc_found :: "nat \<Rightarrow> string \<Rightarrow> string \<Rightarrow> string list option"
  tc_grep :: "nat \<Rightarrow> string \<Rightarrow> string \<Rightarrow> string \<Rightarrow> string + grep_run"
  tc_answers :: "nat \<Rightarrow> string \<Rightarrow> nat \<Rightarrow> found option"
  tc_scheduled :: "string option"
  tc_jid :: string
  tc_dynamic :: "string \<Rightarrow> (args \<Rightarrow> tool_world \<Rightarrow> tool_world \<times> (string + string)) option"
  tc_refusal :: "refusal \<Rightarrow> string"
  tc_good :: string
  tc_bad :: string
  tc_done :: string
  tc_score :: "json \<Rightarrow> string"

section \<open>Commands that are refused\<close>

text \<open>The patterns of the program, as far as they need regular expressions; case is ignored.\<close>

datatype cls = Lit char | Blank_cls | Letter | Any | Among string

datatype piece = One cls | Many cls | Boundary | Not_ahead string | Options "string list"

definition is_letter :: "char \<Rightarrow> bool" where
  "is_letter c = (CHR ''a'' \<le> lower_char c \<and> lower_char c \<le> CHR ''z'')"

definition word_char :: "char \<Rightarrow> bool" where
  "word_char c = (is_letter c \<or> is_digit c \<or> c = CHR ''_'')"

fun in_class :: "cls \<Rightarrow> char \<Rightarrow> bool" where
  "in_class (Lit d) c = (lower_char c = d)"
| "in_class Blank_cls c = is_space c"
| "in_class Letter c = is_letter c"
| "in_class Any c = True"
| "in_class (Among s) c = (lower_char c \<in> set s)"

definition word_at :: "char option \<Rightarrow> bool" where
  "word_at c = (case c of None \<Rightarrow> False | Some c \<Rightarrow> word_char c)"

definition first_char :: "string \<Rightarrow> char option" where
  "first_char s = (case s of [] \<Rightarrow> None | c # _ \<Rightarrow> Some c)"

text \<open>\<open>p\<close> is the character before the text.\<close>

function matches :: "piece list \<Rightarrow> char option \<Rightarrow> string \<Rightarrow> bool" where
  "matches [] p s = True"
| "matches (One c # rs) p [] = False"
| "matches (One c # rs) p (x # s) = (in_class c x \<and> matches rs (Some x) s)"
| "matches (Many c # rs) p [] = matches rs p []"
| "matches (Many c # rs) p (x # s) = (matches rs p (x # s) \<or> in_class c x \<and> matches (Many c # rs) (Some x) s)"
| "matches (Boundary # rs) p s = (word_at p \<noteq> word_at (first_char s) \<and> matches rs p s)"
| "matches (Not_ahead t # rs) p s = (\<not> prefix t (lower s) \<and> matches rs p s)"
| "matches (Options ts # rs) p s = (\<exists>t \<in> set ts. prefix t (lower s) \<and> matches rs (Some (last t)) (drop (length t) s))"
  by pat_completeness auto
termination by (relation "measure (\<lambda>(rs, p, s). length rs + length s)") auto

fun search_from :: "piece list \<Rightarrow> char option \<Rightarrow> string \<Rightarrow> bool" where
  "search_from rs p [] = matches rs p []"
| "search_from rs p (x # s) = (matches rs p (x # s) \<or> search_from rs (Some x) s)"

definition lit :: "string \<Rightarrow> piece list" where "lit s = map (\<lambda>c. One (Lit c)) s"

definition blanks :: "piece list" where "blanks = [One Blank_cls, Many Blank_cls]"

definition DANGEROUS_PATTERNS :: "piece list list" where
  "DANGEROUS_PATTERNS =
    [[Boundary] @ lit ''rm'' @ blanks @ [Many Any] @ lit ''-'' @ [Many Letter] @ lit ''r'' @ [Many Letter] @ lit ''f'' @ [Many Letter] @ blanks @ [One (Among ''/~'')],
     [Boundary] @ lit ''rm'' @ blanks @ [Many Any] @ lit ''-'' @ [Many Letter] @ lit ''f'' @ [Many Letter] @ lit ''r'' @ [Many Letter] @ blanks @ [One (Among ''/~'')],
     [Boundary] @ lit ''rm'' @ blanks @ [Many Any] @ lit ''--no-preserve-root'',
     [Boundary] @ lit ''dd'' @ [Boundary, Many Any, Boundary] @ lit ''of'' @ [Many Blank_cls] @ lit ''='' @ [Many Blank_cls] @ lit ''/dev/'',
     [Boundary] @ lit ''mkfs'' @ [Boundary],
     lit '':'' @ [Many Blank_cls] @ lit ''('' @ [Many Blank_cls] @ lit '')'' @ [Many Blank_cls] @ lit ''{'' @ [Many Any] @ lit '':|:'' @ [Many Any] @ lit ''}'',
     lit ''>'' @ [Many Blank_cls] @ lit ''/dev/'' @ [One (Among ''sh'')] @ lit ''d'' @ [One Letter],
     lit ''>'' @ [Many Blank_cls] @ lit ''/dev/nvme'',
     [Boundary] @ lit ''chmod'' @ blanks @ [Many Any] @ lit ''777'' @ blanks @ lit ''/'' @ [Not_ahead ''workspace/''],
     [Boundary] @ lit ''chown'' @ blanks @ [Many Any] @ blanks @ lit ''/'' @ [Options [''etc'', ''bin'', ''usr'', ''lib'', ''sbin'', ''var'', ''boot'', ''root'', ''proc'', ''sys'', ''dev''], Boundary],
     [Boundary] @ lit ''shred'' @ blanks @ [Many Any] @ lit ''/dev/'']"

definition dangerous :: "string \<Rightarrow> bool" where
  "dangerous cmd = list_ex (\<lambda>rs. search_from rs None (strip cmd)) DANGEROUS_PATTERNS"

text \<open>A command that is the name of a file: characters without a special meaning, a dot, and an extension.\<close>

definition NAME_STOPS :: string where
  "NAME_STOPS = ''|;&<>$`()[]{}!'' @ [CHR 0x27, CHR 0x22, backslash]"

definition NAME_ENDS :: "string list" where
  "NAME_ENDS = [''.md'', ''.txt'', ''.py'', ''.js'', ''.ts'', ''.sh'', ''.json'', ''.yaml'', ''.yml'', ''.toml'', ''.csv'', ''.log'', ''.conf'', ''.cfg'']"

definition bare_filename :: "string \<Rightarrow> bool" where
  "bare_filename s = (list_all (\<lambda>c. \<not> is_space c \<and> c \<notin> set NAME_STOPS) s
     \<and> list_ex (\<lambda>x. suffix x (lower s) \<and> length s > length x) NAME_ENDS)"

section \<open>Bash and Grep\<close>

definition BASH_LIMIT :: nat where "BASH_LIMIT = 51200"

definition shown_result :: "tool_cfg \<Rightarrow> shell_result \<Rightarrow> string" where
  "shown_result cfg r = (case r of
      Timed_out \<Rightarrow> ''Error: command timed out after 300s''
    | Shell_error x \<Rightarrow> tc_bad cfg @ '' [exit ?] Error: '' @ x
    | Exited c out err \<Rightarrow> (let out = (if err = [] then out else out @ nl @ ''STDERR:'' @ nl @ err);
          out = (if length out > BASH_LIMIT then take BASH_LIMIT out @ nl @ ''... (output truncated at 50KB, total '' @ show_nat (length out) @ '' bytes)'' else out) in
        (if c = 0 then tc_good cfg else tc_bad cfg) @ '' [exit '' @ show_int c @ ''] '' @ (if out = [] then ''(no output)'' else out)))"

definition bash_tool :: "tool_cfg \<Rightarrow> string \<Rightarrow> tool_world \<Rightarrow> tool_world \<times> string" where
  "bash_tool cfg cmd w =
     (if dangerous cmd then (w, ''Error: command blocked'')
      else if bare_filename (strip cmd) then (w, tc_bad cfg @ '' Invalid command'')
      else if CHR 0x00 \<in> set cmd then (w, tc_bad cfg @ '' [exit ?] Error: command must not contain null bytes'')
      else (case tc_shell cfg (tw_tick w) cmd (tw_disk w) of (d, r) \<Rightarrow> (w\<lparr>tw_disk := d\<rparr>, shown_result cfg r)))"

definition GREP_MAX :: nat where "GREP_MAX = 8192"

fun grep_read :: "nat list list \<Rightarrow> nat list \<Rightarrow> nat list \<times> bool" where
  "grep_read [] buf = (buf, False)"
| "grep_read (c # cs) buf = (if c = [] then (buf, False)
     else if length (buf @ c) \<ge> GREP_MAX then (buf @ c, True) else grep_read cs (buf @ c))"

definition refused :: "tool_cfg \<Rightarrow> tool_reply \<Rightarrow> string" where
  "refused cfg r = (case r of Fine t \<Rightarrow> t | Refused x \<Rightarrow> tc_refusal cfg x)"

definition grep_tool :: "tool_cfg \<Rightarrow> string \<Rightarrow> string \<Rightarrow> string \<Rightarrow> tool_world \<Rightarrow> string" where
  "grep_tool cfg pattern path include w = (let n = tw_tick w in case check_path (tc_files cfg n) (tw_disk w) path of
      Some x \<Rightarrow> tc_refusal cfg x
    | None \<Rightarrow>
        if CHR ''/'' \<in> set include \<or> backslash \<in> set include \<or> find_sub ''..'' include \<noteq> None then ''Error: include parameter must be a plain filename glob''
        else (case tc_grep cfg n pattern path include of
            Inl x \<Rightarrow> ''Error: '' @ x
          | Inr g \<Rightarrow> (case grep_read (gr_out g) [] of (buf, full) \<Rightarrow>
              (let buf' = (if buf = [] then take 2048 (gr_err g) else buf) in
               if gr_killed g \<and> \<not> full \<and> buf' = [] then ''Error: grep timed out after 30s''
               else let out = fe_decode (tc_files cfg n) (take GREP_MAX buf') @ (if full then nl @ ''... (truncated at 8 KB)'' else []) in
                 if out = [] then ''(no matches found)'' else out))))"

section \<open>Requests to the host\<close>

definition RESULTS_DIR :: string where "RESULTS_DIR = ''/workspace/ipc/results''"

text \<open>\<open>_write_ipc_file\<close>: the name of a new file.\<close>

definition ipc_name :: "tool_cfg \<Rightarrow> nat \<Rightarrow> string \<Rightarrow> string" where
  "ipc_name cfg n sfx = show_nat (tc_now cfg n) @ ''-'' @ tc_uid cfg n @ (if sfx = [] then [] else ''-'' @ sfx) @ ''.json''"

definition write_message :: "string \<Rightarrow> args \<Rightarrow> tool_world \<Rightarrow> tool_world" where
  "write_message name p w = w\<lparr>tw_messages := dset name p (tw_messages w)\<rparr>"

definition write_task :: "string \<Rightarrow> args \<Rightarrow> tool_world \<Rightarrow> tool_world" where
  "write_task name p w = w\<lparr>tw_tasks := dset name p (tw_tasks w)\<rparr>"

definition request_task :: "tool_cfg \<Rightarrow> string \<Rightarrow> args \<Rightarrow> tool_world \<Rightarrow> tool_world" where
  "request_task cfg sfx p w = write_task (ipc_name cfg (tw_tick w) sfx) p w"

definition MSG_LIMIT :: nat where "MSG_LIMIT = 32768"

definition send_message_tool :: "tool_cfg \<Rightarrow> string \<Rightarrow> string \<Rightarrow> json \<Rightarrow> tool_world \<Rightarrow> tool_world \<times> string" where
  "send_message_tool cfg jid text sender w =
     (if strip text = [] then (w, ''Error: message text cannot be empty'')
      else let text = (if length text > MSG_LIMIT then take MSG_LIMIT text @ nl @ ''... (message truncated at 32KB)'' else text) in
        (write_message (ipc_name cfg (tw_tick w) [])
           ([(''type'', Str ''message''), (''chatJid'', Str jid), (''text'', Str text)] @ (if is_true sender then [(''sender'', sender)] else [])) w,
         ''Message sent''))"

definition schedule_task_tool :: "tool_cfg \<Rightarrow> string \<Rightarrow> string \<Rightarrow> string \<Rightarrow> json \<Rightarrow> string \<Rightarrow> tool_world \<Rightarrow> tool_world \<times> string" where
  "schedule_task_tool cfg prompt stype svalue mode jid w =
     (request_task cfg [] [(''type'', Str ''schedule_task''), (''prompt'', Str prompt), (''schedule_type'', Str stype), (''schedule_value'', Str svalue),
        (''context_mode'', mode), (''chatJid'', Str jid)] w, ''Task scheduled'')"

definition list_tasks_tool :: "tool_cfg \<Rightarrow> string" where
  "list_tasks_tool cfg = (case tc_scheduled cfg of None \<Rightarrow> ''No scheduled tasks found.'' | Some t \<Rightarrow> t)"

text \<open>\<open>tool_cancel_task\<close>, \<open>tool_pause_task\<close> and \<open>tool_resume_task\<close>, which differ in the word.\<close>

definition task_tool :: "tool_cfg \<Rightarrow> string \<Rightarrow> string \<Rightarrow> json \<Rightarrow> tool_world \<Rightarrow> tool_world \<times> string" where
  "task_tool cfg verb noun tid w =
     (if \<not> is_true tid then (w, ''Error: task_id is required.'')
      else (request_task cfg verb [(''type'', Str (verb @ ''_task'')), (''task_id'', tid)] w, ''Task '' @ as_text tid @ '' '' @ noun @ '' request sent.''))"

text \<open>Looking \<open>n\<close> times for an answer, from the \<open>i\<close>-th look on.\<close>

fun poll :: "(nat \<Rightarrow> 'r option) \<Rightarrow> nat \<Rightarrow> nat \<Rightarrow> 'r option" where
  "poll f i 0 = None"
| "poll f i (Suc n) = (case f i of Some r \<Rightarrow> Some r | None \<Rightarrow> poll f (Suc i) n)"

definition SUBAGENT_TIMEOUT :: nat where "SUBAGENT_TIMEOUT = 60"
definition MEMORY_POLLS :: nat where "MEMORY_POLLS = 200"

definition run_agent_tool :: "tool_cfg \<Rightarrow> string \<Rightarrow> json \<Rightarrow> tool_world \<Rightarrow> tool_world \<times> string" where
  "run_agent_tool cfg prompt mode w =
     (let n = tw_tick w; rid = tc_uuid cfg n in
      (request_task cfg ''spawn'' [(''type'', Str ''spawn_agent''), (''requestId'', Str rid), (''prompt'', Str prompt), (''context_mode'', mode)] w,
       (case poll (tc_answers cfg n (RESULTS_DIR @ ''/'' @ rid @ ''.json'')) 0 SUBAGENT_TIMEOUT of
          None \<Rightarrow> ''Error: subagent timed out after 60s''
        | Some (Unreadable x) \<Rightarrow> ''Error reading subagent result: '' @ x
        | Some (Object a _) \<Rightarrow> as_text (arg_or (Str ''(no output)'') a ''output''))))"

definition send_file_tool :: "tool_cfg \<Rightarrow> json \<Rightarrow> string \<Rightarrow> json \<Rightarrow> tool_world \<Rightarrow> tool_world \<times> (string + string)" where
  "send_file_tool cfg jid path caption w =
     (let e = tc_files cfg (tw_tick w); jid = (if is_true jid then jid else Str (tc_jid cfg)) in
      if \<not> is_true jid then (w, Inr ''Error: chat_jid not provided and not available from input'')
      else if path = [] then (w, Inr ''Error: file_path is required'')
      else case check_path e (tw_disk w) path of
          Some x \<Rightarrow> (w, Inr (tc_refusal cfg x))
        | None \<Rightarrow> (case (if path = ''.'' then (tw_disk w, True) else make_dirs (tw_disk w) (butlast (path_of e path))) of
              (d, False) \<Rightarrow> (w\<lparr>tw_disk := d\<rparr>, Inl ''the directory cannot be made'')
            | (d, True) \<Rightarrow>
                (write_message (''file_'' @ show_nat (tc_now cfg (tw_tick w)) @ ''_'' @ tc_pid cfg @ ''.json'')
                   [(''type'', Str ''send_file''), (''chatJid'', jid), (''filePath'', Str path), (''caption'', caption)] (w\<lparr>tw_disk := d\<rparr>),
                 Inr (tc_done cfg @ '' File queued: '' @ last (split_on CHR ''/'' path)))))"

text \<open>\<open>tool_start_remote_control\<close>, \<open>tool_self_update\<close>, \<open>tool_restart_host\<close> and \<open>reset_group\<close>.\<close>

definition chat_or_own :: "tool_cfg \<Rightarrow> json \<Rightarrow> json" where
  "chat_or_own cfg jid = (if is_true jid then jid else Str (tc_jid cfg))"

definition remote_control_tool :: "tool_cfg \<Rightarrow> json \<Rightarrow> json \<Rightarrow> tool_world \<Rightarrow> tool_world \<times> string" where
  "remote_control_tool cfg jid sender w =
     (if \<not> is_true (chat_or_own cfg jid) then (w, ''Error: chat_jid not provided and not available from input'')
      else (request_task cfg ''remote-control'' [(''type'', Str ''start_remote_control''), (''jid'', chat_or_own cfg jid), (''sender'', sender)] w,
        ''Remote control session requested''))"

definition self_update_tool :: "tool_cfg \<Rightarrow> json \<Rightarrow> tool_world \<Rightarrow> tool_world \<times> string" where
  "self_update_tool cfg jid w =
     (request_task cfg ''self-update'' [(''type'', Str ''self_update''), (''jid'', chat_or_own cfg jid)] w, ''Self-update IPC enqueued (NOT yet executed)'')"

definition restart_host_tool :: "tool_cfg \<Rightarrow> json \<Rightarrow> tool_world \<Rightarrow> tool_world \<times> string" where
  "restart_host_tool cfg jid w =
     (request_task cfg ''restart-host'' [(''type'', Str ''restart_host''), (''jid'', chat_or_own cfg jid)] w, ''Restart IPC enqueued (NOT yet executed)'')"

definition reset_group_tool :: "tool_cfg \<Rightarrow> json \<Rightarrow> tool_world \<Rightarrow> tool_world \<times> string" where
  "reset_group_tool cfg jid w =
     (if \<not> is_true jid then (w, ''Error: jid is required'')
      else (write_task (show_nat (tc_now cfg (tw_tick w)) @ ''-reset-'' @ take 8 (tc_uuid cfg (tw_tick w)) @ ''.json'')
              [(''type'', Str ''reset_group''), (''jid'', jid)] w,
            ''reset_group IPC sent for '' @ as_text jid))"

section \<open>Memories\<close>

definition needs :: "string \<Rightarrow> string \<Rightarrow> string" where
  "needs tool k = ''Error: '' @ tool @ '' requires a '' @ [CHR 0x27] @ k @ [CHR 0x27] @ '' string argument''"

definition response_path :: "tool_cfg \<Rightarrow> nat \<Rightarrow> string" where
  "response_path cfg n = RESULTS_DIR @ ''/memory_response/'' @ tc_uuid cfg n @ ''.json''"

definition memory_line :: "tool_cfg \<Rightarrow> nat \<Rightarrow> args \<Rightarrow> string" where
  "memory_line cfg i m =
     (let s = arg_or (Str []) m ''summary''; body = as_text (if is_true s then s else arg_or (Str []) m ''content'');
          note = (case dget m ''length'' of
              Some (Val t _) \<Rightarrow> (case py_int t of Some n \<Rightarrow> if n > int (length body) then '' len='' @ t else [] | None \<Rightarrow> [])
            | _ \<Rightarrow> []) in
      ''['' @ show_nat i @ ''] id='' @ as_text (arg_or (Str ''?'') m ''memory_id'') @ '' score='' @ tc_score cfg (arg_or (Val ''0'' False) m ''score'')
      @ '' source='' @ as_text (arg_or (Str ''?'') m ''source'') @ note @ nl @ ''  '' @ body)"

text \<open>The request, the wait for its answer, and what is made of an object that says \<open>ok\<close>.\<close>

definition memory_tool :: "tool_cfg \<Rightarrow> string \<Rightarrow> args \<Rightarrow> (args list \<Rightarrow> string) \<Rightarrow> tool_world \<Rightarrow> tool_world \<times> string" where
  "memory_tool cfg ty given shown w =
     (let n = tw_tick w; file = response_path cfg n in
      (request_task cfg ty ([(''type'', Str ty)] @ given @ [(''response_file'', Str file)]) w,
       (case poll (tc_answers cfg n file) 0 MEMORY_POLLS of
          None \<Rightarrow> ''Error: '' @ ty @ '' timed out after 10s waiting for host response''
        | Some (Unreadable x) \<Rightarrow> ''Error reading '' @ ty @ '' response: '' @ x
        | Some (Object a ms) \<Rightarrow>
            if \<not> is_true (arg_or (Val ''null'' False) a ''ok'') then ''Error from '' @ ty @ '': '' @ as_text (arg_or (Str ''unknown error'') a ''error'')
            else shown ms)))"

definition recall_tool :: "tool_cfg \<Rightarrow> string \<Rightarrow> json \<Rightarrow> json \<Rightarrow> json \<Rightarrow> tool_world \<Rightarrow> tool_world \<times> string" where
  "recall_tool cfg query k ns tag w =
     (if query = [] then (w, needs ''memory_recall'' ''query'')
      else memory_tool cfg ''memory_recall'' [(''query'', Str query), (''k'', k), (''namespace'', ns), (''topic_tag'', tag)]
        (\<lambda>ms. if ms = [] then ''No memories found.'' else join nl (map (\<lambda>(i, m). memory_line cfg (Suc i) m) (enumerate 0 ms))) w)"

definition remember_tool :: "tool_cfg \<Rightarrow> string \<Rightarrow> json \<Rightarrow> json \<Rightarrow> json \<Rightarrow> tool_world \<Rightarrow> tool_world \<times> string" where
  "remember_tool cfg content importance ns tag w =
     (if content = [] then (w, needs ''memory_remember'' ''content'')
      else memory_tool cfg ''memory_remember'' [(''content'', Str content), (''importance'', importance), (''namespace'', ns), (''topic_tag'', tag)]
        (\<lambda>_. ''Memory stored.'') w)"

section \<open>The dispatcher\<close>

definition GROUP_PATH :: string where "GROUP_PATH = ''/workspace/group''"

text \<open>A path that should be a string: what is empty or false is refused, what else is not a string raises or gives a text.\<close>

definition with_path :: "tool_cfg \<Rightarrow> json \<Rightarrow> (string \<Rightarrow> string + string) \<Rightarrow> string + string" where
  "with_path cfg p f = (case p of
      Str s \<Rightarrow> f s
    | Val t b \<Rightarrow> if b then Inl ''argument is not iterable'' else Inr (tc_refusal cfg Empty_path)
    | Box t b \<Rightarrow> if b then Inr (''Error: cannot resolve path '' @ t) else Inr (tc_refusal cfg Empty_path))"

text \<open>\<open>int\<close> of a value, but for numbers written with an exponent.\<close>

definition number_arg :: "json \<Rightarrow> int option" where
  "number_arg v = (case v of
      Str s \<Rightarrow> py_int s
    | Val t _ \<Rightarrow> if t = ''true'' then Some 1 else if t = ''false'' then Some 0 else py_int (takeWhile (\<lambda>c. c \<noteq> CHR ''.'') t)
    | Box _ _ \<Rightarrow> None)"

definition on_string :: "args \<Rightarrow> string \<Rightarrow> string \<Rightarrow> (string \<Rightarrow> tool_world \<times> (string + string)) \<Rightarrow> tool_world \<Rightarrow> tool_world \<times> (string + string)" where
  "on_string a k tool f w = (case str_arg a k of None \<Rightarrow> (w, Inr (needs tool k)) | Some s \<Rightarrow> f s)"

definition done_with :: "tool_world \<times> string \<Rightarrow> tool_world \<times> (string + string)" where
  "done_with r = (fst r, Inr (snd r))"

definition with_disk :: "tool_world \<Rightarrow> disk \<times> tool_reply \<Rightarrow> tool_cfg \<Rightarrow> tool_world \<times> (string + string)" where
  "with_disk w r cfg = (w\<lparr>tw_disk := fst r\<rparr>, Inr (refused cfg (snd r)))"

definition fetch_tool :: "tool_cfg \<Rightarrow> string \<Rightarrow> args \<Rightarrow> tool_world \<Rightarrow> tool_world \<times> string" where
  "fetch_tool cfg url a w =
     (case web_fetch (tc_web cfg (tw_tick w)) url (case dget a ''prompt'' of Some (Str s) \<Rightarrow> s | _ \<Rightarrow> [])
         (number_arg (arg_or (Val ''0'' False) a ''offset'')) (number_arg (arg_or (Val ''3500'' True) a ''max_chars'')) (tw_cache w) of
       (c, _, r) \<Rightarrow> (w\<lparr>tw_cache := c\<rparr>, r))"

definition dispatch_tool :: "tool_cfg \<Rightarrow> string \<Rightarrow> string \<Rightarrow> args \<Rightarrow> tool_world \<Rightarrow> tool_world \<times> (string + string)" where
  "dispatch_tool cfg jid name a w =
     (let e = tc_files cfg (tw_tick w); d = tw_disk w in
      if name = ''Bash'' then on_string a ''command'' name (\<lambda>c. done_with (bash_tool cfg c w)) w
      else if name = ''Read'' then on_string a ''file_path'' name (\<lambda>p. (w, Inr (refused cfg (read_tool e d p)))) w
      else if name = ''Write'' then on_string a ''file_path'' name (\<lambda>p. on_string a ''content'' name (\<lambda>c. with_disk w (write_tool e p c d) cfg) w) w
      else if name = ''Edit'' then on_string a ''file_path'' name (\<lambda>p. on_string a ''old_string'' name (\<lambda>old.
          on_string a ''new_string'' name (\<lambda>new. with_disk w (edit_tool e p old new d) cfg) w) w) w
      else if name = ''mcp__evoclaw__send_message'' then on_string a ''text'' ''send_message'' (\<lambda>t.
          done_with (send_message_tool cfg jid t (arg_or (Val ''null'' False) a ''sender'') (w\<lparr>tw_sent := Suc (tw_sent w)\<rparr>))) w
      else if name = ''mcp__evoclaw__schedule_task'' then on_string a ''prompt'' ''schedule_task'' (\<lambda>p. on_string a ''schedule_type'' ''schedule_task'' (\<lambda>t.
          on_string a ''schedule_value'' ''schedule_task'' (\<lambda>v.
            done_with (schedule_task_tool cfg p t v (arg_or (Str ''group'') a ''context_mode'') jid w)) w) w) w
      else if name = ''mcp__evoclaw__list_tasks'' then (w, Inr (list_tasks_tool cfg))
      else if name = ''mcp__evoclaw__cancel_task'' then done_with (task_tool cfg ''cancel'' ''cancellation'' (arg_or (Str []) a ''task_id'') w)
      else if name = ''mcp__evoclaw__pause_task'' then done_with (task_tool cfg ''pause'' ''pause'' (arg_or (Str []) a ''task_id'') w)
      else if name = ''mcp__evoclaw__resume_task'' then done_with (task_tool cfg ''resume'' ''resume'' (arg_or (Str []) a ''task_id'') w)
      else if name = ''Glob'' then on_string a ''pattern'' name (\<lambda>p.
          (w, with_path cfg (arg_or (Str GROUP_PATH) a ''path'') (\<lambda>r. Inr (refused cfg (glob_tool e d (tc_found cfg (tw_tick w) p r) p r))))) w
      else if name = ''Grep'' then on_string a ''pattern'' name (\<lambda>p.
          (w, with_path cfg (arg_or (Str GROUP_PATH) a ''path'') (\<lambda>r. case arg_or (Str ''*'') a ''include'' of
               Str i \<Rightarrow> Inr (grep_tool cfg p r i w)
             | _ \<Rightarrow> (case check_path e d r of Some x \<Rightarrow> Inr (tc_refusal cfg x) | None \<Rightarrow> Inl ''argument is not iterable'')))) w
      else if name = ''WebFetch'' then on_string a ''url'' name (\<lambda>u. done_with (fetch_tool cfg u a w)) w
      else if name = ''mcp__evoclaw__run_agent'' then on_string a ''prompt'' ''run_agent'' (\<lambda>p.
          done_with (run_agent_tool cfg p (arg_or (Str ''isolated'') a ''context_mode'') w)) w
      else if name = ''mcp__evoclaw__send_file'' then on_string a ''file_path'' ''send_file'' (\<lambda>p.
          send_file_tool cfg (arg_or (Str jid) a ''chat_jid'') p (arg_or (Str []) a ''caption'') w) w
      else if name = ''mcp__evoclaw__reset_group'' then done_with (reset_group_tool cfg (arg_or (Str []) a ''jid'') w)
      else if name = ''mcp__evoclaw__start_remote_control'' then
          done_with (remote_control_tool cfg (arg_or (Str jid) a ''chat_jid'') (arg_or (Str []) a ''sender'') w)
      else if name = ''mcp__evoclaw__self_update'' then done_with (self_update_tool cfg (arg_or (Str jid) a ''chat_jid'') w)
      else if name = ''mcp__evoclaw__restart_host'' then done_with (restart_host_tool cfg (arg_or (Str jid) a ''chat_jid'') w)
      else if name = ''mcp__evoclaw__memory_recall'' then on_string a ''query'' ''memory_recall'' (\<lambda>q.
          done_with (recall_tool cfg q (arg_or (Val ''5'' True) a ''k'') (arg_or (Str []) a ''namespace'') (arg_or (Str []) a ''topic_tag'') w)) w
      else if name = ''mcp__evoclaw__memory_remember'' then on_string a ''content'' ''memory_remember'' (\<lambda>c.
          done_with (remember_tool cfg c (arg_or (Val ''0.7'' True) a ''importance'') (arg_or (Str []) a ''namespace'') (arg_or (Str []) a ''topic_tag'') w)) w
      else (case tc_dynamic cfg name of
          None \<Rightarrow> (w, Inr (''Unknown tool: '' @ name))
        | Some f \<Rightarrow> (case f a w of
              (w, Inl x) \<Rightarrow> (w, Inr (''Dynamic tool '' @ name @ '' error: '' @ x))
            | (w, Inr r) \<Rightarrow> (w, Inr r))))"

text \<open>\<open>None\<close> stands for arguments that are not an object.  Every call has a number of its own.\<close>

definition execute_tool :: "tool_cfg \<Rightarrow> string \<Rightarrow> string \<Rightarrow> args option \<Rightarrow> tool_world \<Rightarrow> tool_world \<times> (string + string)" where
  "execute_tool cfg jid name a w =
     (case (case a of None \<Rightarrow> (w, Inr ''Error: tool arguments must be a JSON object'') | Some a \<Rightarrow> dispatch_tool cfg jid name a w) of
       (w', r) \<Rightarrow> (w'\<lparr>tw_tick := Suc (tw_tick w)\<rparr>, r))"

section \<open>What the patterns stop\<close>

lemma in_class_eta [simp]: "in_class Blank_cls = is_space" "in_class Letter = is_letter" "in_class Any = (\<lambda>_. True)"
  by (simp_all add: fun_eq_iff)

lemma matches_lit:
  assumes "list_all (\<lambda>c. lower_char c = c) t"
  shows "matches (lit t @ rs) p (t @ s) = matches rs (if t = [] then p else Some (last t)) s"
  using assms by (induction t arbitrary: p) (auto simp: lit_def)

lemma matches_many:
  assumes "list_all (in_class k) t" "matches rs (if t = [] then p else Some (last t)) s"
  shows "matches (Many k # rs) p (t @ s)"
  using assms
proof (induction t arbitrary: p)
  case Nil
  then show ?case by (cases s) auto
next
  case (Cons a t)
  then have "matches (Many k # rs) (Some a) (t @ s)" by (simp split: if_splits)
  then show ?case using Cons.prems(1) by simp
qed

lemma matches_blanks:
  assumes "t \<noteq> []" "list_all is_space t" "matches rs (Some (last t)) s"
  shows "matches (blanks @ rs) p (t @ s)"
proof -
  obtain x t' where t: "t = x # t'" using assms(1) by (cases t) auto
  have "matches (Many Blank_cls # rs) (Some x) (t' @ s)" by (rule matches_many) (use assms(2,3) t in \<open>auto split: if_splits\<close>)
  then show ?thesis using assms(2) t by (simp add: blanks_def)
qed

lemma search_prefix: "matches rs (if pre = [] then p else Some (last pre)) s \<Longrightarrow> search_from rs p (pre @ s)"
proof (induction pre arbitrary: p)
  case Nil
  then show ?case by (cases s) auto
next
  case (Cons a pre)
  then have "search_from rs (Some a) (pre @ s)" by (simp split: if_splits)
  then show ?case by simp
qed

lemma lstrip_core: "\<not> is_space x \<Longrightarrow> \<exists>pre'. lstrip (pre @ x # s) = pre' @ x # s \<and> (pre' = [] \<or> pre \<noteq> [] \<and> last pre' = last pre)"
proof (induction pre)
  case (Cons c pre)
  then show ?case by (cases "is_space c") (auto simp: lstrip_def intro: exI[of _ "c # pre"])
qed (simp add: lstrip_def)

lemma rstrip_core: "\<not> is_space y \<Longrightarrow> \<exists>post'. rstrip (s @ y # post) = s @ y # post'"
proof -
  assume y: "\<not> is_space y"
  have "\<exists>post'. rev (dropWhile is_space (rev post @ y # rev s)) = s @ y # post'"
  proof (induction post rule: rev_induct)
    case (snoc c post)
    then show ?case by (cases "is_space c") auto
  qed (simp add: y)
  then show ?thesis by (simp add: rstrip_def)
qed

lemma strip_core:
  assumes "\<not> is_space x" "\<not> is_space y"
  shows "\<exists>pre' post'. strip (pre @ x # s @ y # post) = pre' @ x # s @ y # post' \<and> (pre' = [] \<or> pre \<noteq> [] \<and> last pre' = last pre)"
proof -
  obtain pre' where p: "lstrip (pre @ x # (s @ y # post)) = pre' @ x # (s @ y # post)" "pre' = [] \<or> pre \<noteq> [] \<and> last pre' = last pre"
    using lstrip_core[OF assms(1)] by blast
  obtain post' where "rstrip ((pre' @ x # s) @ y # post) = (pre' @ x # s) @ y # post'" using rstrip_core[OF assms(2)] by blast
  then show ?thesis using p by (auto simp: strip_def)
qed



text \<open>The same flags apart are not seen, and what is blocked with them may well be a directory of the group.\<close>

lemma patterns_miss: "\<not> dangerous ''rm -r -f /''" "dangerous ''rm -rf /workspace/group/tmp''"
  by code_simp+

section \<open>Where the tools leave the disk alone\<close>

definition keeps :: "tool_world \<Rightarrow> tool_world \<times> 'r \<Rightarrow> bool" where
  "keeps w r = (tw_disk (fst r) = tw_disk w)"

lemma keeps_if [intro!]: "keeps w x \<Longrightarrow> keeps w y \<Longrightarrow> keeps w (if c then x else y)"
  by simp

lemma keeps_fine [intro!]: "keeps w r \<Longrightarrow> keeps w (done_with r)"
  by (simp add: keeps_def done_with_def)

lemma keeps_same [intro!]: "keeps w (w, r)"
  by (simp add: keeps_def)

lemma keeps_string [intro!]: "(\<And>s. keeps w (f s)) \<Longrightarrow> keeps w (on_string a k t f w)"
  by (simp add: keeps_def on_string_def split: option.split)

lemma keeps_requests [intro!]:
  "keeps w (send_message_tool cfg jid t s (w\<lparr>tw_sent := n\<rparr>))" "keeps w (schedule_task_tool cfg p1 t v m jid w)" "keeps w (task_tool cfg verb noun tid w)"
  "keeps w (run_agent_tool cfg t m w)" "keeps w (reset_group_tool cfg j w)" "keeps w (remote_control_tool cfg j s w)"
  "keeps w (self_update_tool cfg j w)" "keeps w (restart_host_tool cfg j w)" "keeps w (recall_tool cfg t k ns tag w)"
  "keeps w (remember_tool cfg t k ns tag w)" "keeps w (fetch_tool cfg u a w)"
  by (simp_all add: keeps_def send_message_tool_def schedule_task_tool_def task_tool_def run_agent_tool_def reset_group_tool_def remote_control_tool_def
      self_update_tool_def restart_host_tool_def recall_tool_def remember_tool_def memory_tool_def request_task_def write_task_def write_message_def
      fetch_tool_def Let_def split: prod.split)

lemma dispatch_keeps:
  assumes "name \<notin> {''Bash'', ''Write'', ''Edit'', ''mcp__evoclaw__send_file''}" "tc_dynamic cfg name = None"
  shows "keeps w (dispatch_tool cfg jid name a w)"
proof -
  have "(name = ''Bash'') = False" "(name = ''Write'') = False" "(name = ''Edit'') = False" "(name = ''mcp__evoclaw__send_file'') = False"
    using assms(1) by simp_all
  then show ?thesis unfolding dispatch_tool_def Let_def by (simp only: if_False assms(2) option.case) (intro keeps_if keeps_same keeps_fine keeps_string keeps_requests)
qed


definition demo_tools :: tool_cfg where
  "demo_tools = \<lparr>tc_files = \<lambda>_. demo_files, tc_web = \<lambda>_. demo_web, tc_now = \<lambda>n. n, tc_uid = \<lambda>_. ''u'', tc_uuid = \<lambda>_. ''id'', tc_pid = ''7'',
     tc_shell = \<lambda>_ _ d. (d, Timed_out), tc_found = \<lambda>_ _ _. None, tc_grep = \<lambda>_ _ _ _. Inl ''no grep'', tc_answers = \<lambda>_ _ _. None, tc_scheduled = None,
     tc_jid = ''g@t'', tc_dynamic = \<lambda>_. None, tc_refusal = \<lambda>_. ''refused'', tc_good = ''+'', tc_bad = ''-'', tc_done = ''ok'', tc_score = as_text\<rparr>"

definition demo_tool_world :: tool_world where
  "demo_tool_world = \<lparr>tw_disk = demo_disk, tw_messages = [], tw_tasks = [], tw_sent = 0, tw_cache = [], tw_tick = 0\<rparr>"

lemma demo_names: "unused_name demo_disk (tmp_name demo_files p)"
proof -
  have "dget demo_disk (l @ [c]) = None \<or> hd c \<noteq> CHR ''.''" for l c
    by (simp add: demo_disk_def dget_def)
  then show ?thesis by (auto simp: unused_name_def tmp_name_def) (metis list.sel(1))
qed


section \<open>Messages on their way to a chat\<close>

text \<open>What the host reads of a file that a tool wrote.\<close>

definition as_request :: "args \<Rightarrow> request" where
  "as_request p = \<lparr>rq_fields = map (\<lambda>(k, v). (k, as_text v)) p, rq_delete_after = False\<rparr>"

definition as_file :: "string \<times> args \<Rightarrow> ipc_file" where
  "as_file f = \<lparr>f_name = fst f, f_content = Request (as_request (snd f))\<rparr>"

fun say_all :: "tool_cfg \<Rightarrow> string \<Rightarrow> string list \<Rightarrow> tool_world \<Rightarrow> tool_world" where
  "say_all cfg jid [] w = w"
| "say_all cfg jid (t # ts) w = say_all cfg jid ts (fst (execute_tool cfg jid ''mcp__evoclaw__send_message'' (Some [(''text'', Str t)]) w))"

definition said_file :: "tool_cfg \<Rightarrow> string \<Rightarrow> nat \<Rightarrow> string \<Rightarrow> string \<times> args" where
  "said_file cfg jid n t = (ipc_name cfg n [], [(''type'', Str ''message''), (''chatJid'', Str jid), (''text'', Str t)])"

lemma less_same [simp]: "(zs @ x < zs @ y) = (x < (y :: string))"
  by (induction zs) simp_all

lemma show_nat_order:
  assumes "m < n" "length (show_nat m) = length (show_nat n)"
  shows "show_nat m @ x < show_nat n @ y"
  using assms
proof (induction n arbitrary: m x y rule: less_induct)
  case (less n)
  have char: "char_of (48 + i) < (char_of (48 + j) :: char)" if "i < j" "j < 10" for i j :: nat
    using that by (simp add: less_char_def)
  have ne: "show_nat k \<noteq> []" for k using show_nat_spec by blast
  have wide: "length (show_nat k) > 1" if "\<not> k < 10" for k using that ne[of "k div 10"] by (subst show_nat.simps) (simp add: Suc_lessI)
  show ?case
  proof (cases "n < 10")
    case True
    then show ?thesis using less.prems char[of m n] by (simp add: show_nat.simps[of n] show_nat.simps[of m])
  next
    case False
    then have m: "\<not> m < 10" using less.prems(2) wide[OF False] by (auto simp: show_nat.simps[of m])
    have l: "length (show_nat (m div 10)) = length (show_nat (n div 10))"
      using less.prems(2) False m by (simp add: show_nat.simps[of n] show_nat.simps[of m])
    show ?thesis
    proof (cases "m div 10 < n div 10")
      case True
      then show ?thesis using less.IH[of "n div 10" "m div 10"] l False m by (subst (1 2) show_nat.simps) simp
    next
      case eq: False
      then have "m div 10 = n div 10" using less.prems(1) div_le_mono[of m n 10] by simp
      moreover from this have "m mod 10 < n mod 10" using less.prems(1) div_mult_mod_eq[of m 10] div_mult_mod_eq[of n 10] by linarith
      ultimately show ?thesis using False m char[of "m mod 10" "n mod 10"] by (subst (1 2) show_nat.simps) simp
    qed
  qed
qed

lemma said_once:
  assumes "strip t \<noteq> []" "length t \<le> MSG_LIMIT"
  shows "fst (execute_tool cfg jid ''mcp__evoclaw__send_message'' (Some [(''text'', Str t)]) w)
    = w\<lparr>tw_messages := dset (fst (said_file cfg jid (tw_tick w) t)) (snd (said_file cfg jid (tw_tick w) t)) (tw_messages w), tw_sent := Suc (tw_sent w), tw_tick := Suc (tw_tick w)\<rparr>"
  using assms by (simp add: execute_tool_def dispatch_tool_def on_string_def str_arg_def arg_or_def dget_def done_with_def send_message_tool_def write_message_def said_file_def)

definition fixed_width :: "tool_cfg \<Rightarrow> nat \<Rightarrow> nat \<Rightarrow> bool" where
  "fixed_width cfg lo hi = (\<forall>i j. lo \<le> i \<longrightarrow> i < j \<longrightarrow> j < hi \<longrightarrow> tc_now cfg i < tc_now cfg j \<and> length (show_nat (tc_now cfg i)) = length (show_nat (tc_now cfg j)))"

lemma names_order: "fixed_width cfg lo hi \<Longrightarrow> lo \<le> i \<Longrightarrow> i < j \<Longrightarrow> j < hi \<Longrightarrow> ipc_name cfg i s < ipc_name cfg j s'"
  unfolding ipc_name_def fixed_width_def using show_nat_order by blast

lemma dset_new: "k \<notin> set (dkeys d) \<Longrightarrow> dset k v d = d @ [(k, v)]"
  by (induction k v d rule: dset.induct) (auto simp: dkeys_def)

lemma said_files:
  assumes "fixed_width cfg lo hi" "\<forall>t \<in> set ts. strip t \<noteq> [] \<and> length t \<le> MSG_LIMIT" "lo \<le> tw_tick w" "tw_tick w + length ts \<le> hi"
    and "\<forall>k. tw_tick w \<le> k \<and> k < hi \<longrightarrow> ipc_name cfg k [] \<notin> set (dkeys (tw_messages w))"
  shows "tw_messages (say_all cfg jid ts w) = tw_messages w @ map (\<lambda>(i, t). said_file cfg jid i t) (enumerate (tw_tick w) ts)"
  using assms(2-5)
proof (induction ts arbitrary: w)
  case (Cons t ts)
  define w1 where "w1 = fst (execute_tool cfg jid ''mcp__evoclaw__send_message'' (Some [(''text'', Str t)]) w)"
  have f: "fst (said_file cfg jid (tw_tick w) t) \<notin> set (dkeys (tw_messages w))" using Cons.prems(3,4) by (simp add: said_file_def)
  have w1: "tw_messages w1 = tw_messages w @ [said_file cfg jid (tw_tick w) t]" "tw_tick w1 = Suc (tw_tick w)"
    using said_once[of t cfg jid w] Cons.prems(1) dset_new[OF f] by (simp_all add: w1_def)
  have "ipc_name cfg k [] \<noteq> ipc_name cfg (tw_tick w) []" if "k > tw_tick w" "k < hi" for k
    using names_order[OF assms(1) Cons.prems(2) that, of "[]" "[]"] by (metis less_irrefl)
  then have "\<forall>k. tw_tick w1 \<le> k \<and> k < hi \<longrightarrow> ipc_name cfg k [] \<notin> set (dkeys (tw_messages w1))"
    using Cons.prems(4) by (auto simp: w1 dkeys_def said_file_def)
  then show ?case using Cons.IH[of w1] Cons.prems(1-3) by (simp add: w1 w1_def[symmetric])
qed simp

lemma said_sorted: "fixed_width cfg lo hi \<Longrightarrow> lo \<le> n \<Longrightarrow> n + length ts \<le> hi \<Longrightarrow> sorted_wrt (<) (map (\<lambda>(i, t). fst (said_file cfg jid i t)) (enumerate n ts))"
proof (induction ts arbitrary: n)
  case (Cons t ts)
  then show ?case by (auto simp: said_file_def in_set_enumerate_eq intro!: names_order[of cfg lo hi])
qed simp

lemma host_delivers:
  assumes "jid \<noteq> []" "\<forall>(n, t) \<in> set nts. t \<noteq> []"
    and "is_main \<or> (\<forall>g. group_of_folder folder (ipc_world s) = Some g \<longrightarrow> rg_jid g = jid)"
  shows "w_out (ipc_world (fold (process_file env folder is_main kind) (map (\<lambda>(n, t). as_file (said_file cfg jid n t)) nts) s))
    = w_out (ipc_world s) @ map (\<lambda>(n, t). Route jid t None) nts"
  using assms(2,3)
proof (induction nts arbitrary: s)
  case (Cons nt nts)
  obtain n t where nt: "nt = (n, t)" by (cases nt)
  define s1 where "s1 = process_file env folder is_main kind (as_file (said_file cfg jid n t)) s"
  have "ipc_message folder is_main (as_request (snd (said_file cfg jid n t))) (ipc_world s) = act (Route jid t None) (ipc_world s)"
    using Cons.prems assms(1) nt by (auto simp: ipc_message_def as_request_def said_file_def fld_def dget_def split: option.split)
  moreover have "dget (rq_fields (as_request (snd (said_file cfg jid n t)))) ''type'' = Some ''message''"
    by (simp add: as_request_def said_file_def dget_def)
  ultimately have w: "ipc_world s1 = act (Route jid t None) (ipc_world s)"
    by (simp add: s1_def process_file_def as_file_def handle_ipc_def)
  have "group_of_folder folder (ipc_world s1) = group_of_folder folder (ipc_world s)"
    by (rule group_of_folder_chat) (simp add: w act_def)
  then have "w_out (ipc_world (fold (process_file env folder is_main kind) (map (\<lambda>(n, t). as_file (said_file cfg jid n t)) nts) s1))
      = w_out (ipc_world s1) @ map (\<lambda>(n, t). Route jid t None) nts"
    using Cons.IH[of s1] Cons.prems by simp
  then show ?case by (simp add: nt s1_def[symmetric] w act_def)
qed simp



section \<open>Memories are never answered\<close>

lemma parts_workspace: "parts (''/workspace/'' @ s) = ''workspace'' # parts s"
  by (simp add: parts_def)

lemma no_response_file:
  assumes "realpath env (data_dir env @ [''ipc'', folder, ''results'']) = Some (r # rs)" "r \<noteq> ''workspace''"
    and "\<forall>p. realpath env (''workspace'' # p) = Some (''workspace'' # p)"
  shows "resolve_response_file env (response_path cfg n) folder = None"
proof -
  have p: "response_path cfg n = ''/workspace/'' @ ''ipc/results/memory_response/'' @ tc_uuid cfg n @ ''.json''"
    by (simp add: response_path_def RESULTS_DIR_def)
  have "path_join [] (response_path cfg n) = ''workspace'' # parts (''ipc/results/memory_response/'' @ tc_uuid cfg n @ ''.json'')"
    unfolding p path_join_def parts_workspace by (simp add: is_abs_def)
  then show ?thesis using assms by (simp add: resolve_response_file_def)
qed



end
