(* ===== verification/DreamTask.thy ===== *)
theory DreamTask
  imports Memory MemoryBus KnowledgeGraph "HOL-Library.Multiset"
begin

text \<open>
  Consolidation of a group's memory while it is idle, \<open>host/memory/dream_task.py\<close>: the types of log entries, the
  prompt of recent activity, the checks on what the model answers, the sections that become shared memories and facts, and the
  scheduler with its dreams as tasks that wait for the model in the middle.

  The module that calls the model is not part of the repository; \<open>dm_llm\<close> is that module, \<open>None\<close> where importing it
  fails.  The fixed texts of the prompt, dates, and what the three patterns for facts find are arguments as well (record \<open>dream_env\<close>).
\<close>

section \<open>Log entries\<close>

definition MIN_MEMORY_BYTES :: nat where "MIN_MEMORY_BYTES = 200"

definition apos :: string where "apos = [CHR 0x27]"

definition TYPE_KEYWORDS :: "(string \<times> string list) list" where
  "TYPE_KEYWORDS =
     [(''decisions'', [''decided'', ''decision'', ''agreed'', ''agreement'', ''chose'', ''choice'', ''will use'', ''going to'', ''we'' @ apos @ ''ll'',
         ''confirmed'', ''resolved to'']),
      (''preferences'', [''prefer'', ''preference'', ''like'', ''dislike'', ''want'', ''don'' @ apos @ ''t want'', ''always'', ''never'', ''favorite'',
         ''favourite'', ''rather'']),
      (''problems'', [''error'', ''bug'', ''issue'', ''problem'', ''fail'', ''broken'', ''crash'', ''exception'', ''not working'', ''wrong'', ''fix'', ''debug'']),
      (''facts'', [''is'', ''are'', ''version'', ''api'', ''endpoint'', ''config'', ''key'', ''token'', ''url'', ''path'', ''port'', ''database'', ''schema'']),
      (''technical'', [''code'', ''function'', ''class'', ''module'', ''import'', ''install'', ''deploy'', ''build'', ''test'', ''commit'', ''branch'', ''docker''])]"

text \<open>\<open>max\<close> takes the first of several greatest.\<close>

definition type_scores :: "string \<Rightarrow> (string \<times> nat) list" where
  "type_scores s = filter (\<lambda>(_, n). n > 0) (map (\<lambda>(t, ks). (t, length (filter (\<lambda>k. sublist k s) ks))) TYPE_KEYWORDS)"

definition type_of_entry :: "string \<Rightarrow> string \<Rightarrow> string \<times> rat" where
  "type_of_entry user_text bot_text = (case type_scores (lower (user_text @ '' '' @ bot_text)) of
      [] \<Rightarrow> (''general'', 3 / 10)
    | s # ss \<Rightarrow> (let b = fold (\<lambda>x b. if snd x > snd b then x else b) ss s in (fst b, min 1 (3 / 10 + of_nat (snd b) / 10))))"

record log_entry =
  le_time :: string
  le_user :: string
  le_bot :: string
  le_type :: string
  le_importance :: rat

fun read_lines :: "string list \<Rightarrow> string \<times> string \<times> string \<Rightarrow> string \<times> string \<times> string" where
  "read_lines [] r = r"
| "read_lines (l # ls) (t, u, b) = (let l = strip l in
     read_lines ls (if prefix ''### '' l then (strip (drop 4 l), u, b)
       else if prefix ''User:'' l then (t, strip (drop 5 l), b)
       else if prefix ''Bot:'' l then (t, u, strip (drop 4 l)) else (t, u, b)))"

definition parse_block :: "string \<Rightarrow> (string \<times> string \<times> string) option" where
  "parse_block block = (if strip block = [] then None
     else case read_lines (splitlines (strip block)) ([], [], []) of
       (t, u, b) \<Rightarrow> if t = [] \<and> u = [] \<and> b = [] then None else Some (t, u, b))"

definition entry_of_row :: "warm_row \<Rightarrow> log_entry" where
  "entry_of_row r = (case (case parse_block (wl_content r) of None \<Rightarrow> ([], take 200 (wl_content r), []) | Some x \<Rightarrow> x) of
     (t, u, b) \<Rightarrow> \<lparr>le_time = t, le_user = u, le_bot = b, le_type = fst (type_of_entry u b), le_importance = snd (type_of_entry u b)\<rparr>)"

record 'e dream_env =
  dm_today :: string
  dm_yesterday :: string
  dm_readable :: "string \<Rightarrow> bool"
  dm_vars :: "string \<Rightarrow> string option"
  dm_llm :: "(string \<Rightarrow> string \<Rightarrow> string \<Rightarrow> string option) option"
  dm_system :: "nat \<Rightarrow> string"
  dm_prompt :: "string \<Rightarrow> string \<Rightarrow> string"
  dm_facts :: "string \<Rightarrow> string \<Rightarrow> (string \<times> string) list"
  dm_kg :: bool
  dm_sha :: "string \<Rightarrow> string"
  dm_store :: "nat \<Rightarrow> 'e bus_env"
  dm_stamp :: "int \<Rightarrow> string"
  dm_archive :: bool

definition parse_warm_entries :: "'e dream_env \<Rightarrow> string \<Rightarrow> int \<Rightarrow> mem \<Rightarrow> log_entry list" where
  "parse_warm_entries e jid days m =
     concat (map (\<lambda>d. if dm_readable e d
        then map entry_of_row (filter (\<lambda>r. wl_content r \<noteq> []) (get_warm_logs_for_date jid d m)) else [])
       (if days \<ge> 2 then [dm_today e, dm_yesterday e] else [dm_today e]))"

text \<open>\<open>str.capitalize\<close> of a word in lower case.\<close>

definition capitalize :: "string \<Rightarrow> string" where
  "capitalize s = upper (take 1 s) @ drop 1 s"

definition DISPLAY_ORDER :: "string list" where
  "DISPLAY_ORDER = [''decisions'', ''preferences'', ''problems'', ''facts'', ''technical'', ''general'']"

definition recent_activity :: "log_entry list \<Rightarrow> string" where
  "recent_activity es = (if es = [] then [] else
     join newline ([''== RECENT ACTIVITY =='']
       @ concat (map (\<lambda>t. let g = filter (\<lambda>x. le_type x = t) es in
           if g = [] then [] else (newline @ ''['' @ capitalize t @ '']'')
             # map (\<lambda>x. (if le_time x = [] then ''- '' else ''- '' @ le_time x @ '': '') @ take 120 (le_user x)) g) DISPLAY_ORDER)
       @ [[]]) @ newline)"

section \<open>Sections of an answer\<close>

text \<open>A header at the start of a line: its name and what comes after it.\<close>

definition header_at :: "string \<Rightarrow> (string \<times> string) option" where
  "header_at s = (case s of
      [] \<Rightarrow> None
    | c # r \<Rightarrow> (let n = takeWhile (\<lambda>c. c \<noteq> CHR '']'') r in
        if c = CHR ''['' \<and> n \<noteq> [] \<and> length n < length r then Some (n, drop (Suc (length n)) r) else None))"

text \<open>The sections in order, with the text between the headers; \<open>cur\<close> is the one that is being read.\<close>

function sections_from :: "(string \<times> string) option \<Rightarrow> bool \<Rightarrow> string \<Rightarrow> (string \<times> string) list" where
  "sections_from cur start s = (let done = (case cur of None \<Rightarrow> [] | Some x \<Rightarrow> [x]) in
     if s = [] then done
     else case (if start then header_at s else None) of
        Some (n, r) \<Rightarrow> done @ sections_from (Some (n, [])) False r
      | None \<Rightarrow> sections_from (map_option (\<lambda>(n, t). (n, t @ [hd s])) cur) (hd s = CHR 0x0A) (tl s))"
  by pat_completeness auto
termination
  by (relation "measure (\<lambda>(cur, start, s). length s)")
    (auto simp: header_at_def Let_def neq_Nil_conv split: if_splits list.splits)

declare sections_from.simps [simp del]

definition parse_typed_sections :: "string \<Rightarrow> (string, string) dict" where
  "parse_typed_sections s = fold (\<lambda>(n, t) d. if strip t = [] then d else dset (lower (strip n)) (strip t) d) (sections_from None True s) []"

text \<open>\<open>str.title\<close>: a letter after what is no letter in upper case.\<close>

fun title_from :: "bool \<Rightarrow> string \<Rightarrow> string" where
  "title_from w [] = []"
| "title_from w (c # cs) = (let l = (CHR ''a'' \<le> lower_char c \<and> lower_char c \<le> CHR ''z'') in
     (if l \<and> \<not> w then upper [c] else [lower_char c]) @ title_from l cs)"

section \<open>One pass\<close>

text \<open>The key is the first of several in the environment.\<close>

definition dream_key :: "'e dream_env \<Rightarrow> string" where
  "dream_key e = (let v = (\<lambda>k. case dm_vars e k of None \<Rightarrow> [] | Some x \<Rightarrow> x); g = strip (hd (split_on CHR '','' (v ''GOOGLE_API_KEY''))) in
     if g \<noteq> [] then g else if v ''CLAUDE_API_KEY'' \<noteq> [] then v ''CLAUDE_API_KEY''
     else if v ''ANTHROPIC_API_KEY'' \<noteq> [] then v ''ANTHROPIC_API_KEY'' else v ''OPENAI_API_KEY'')"

datatype ask_model = Keep | Import_failed | Ask string string string

text \<open>What a pass does up to the call of the model: keep the memory, raise, or ask with a key and two prompts.\<close>

definition pass_begin :: "'e dream_env \<Rightarrow> string \<Rightarrow> string \<Rightarrow> mem \<Rightarrow> ask_model" where
  "pass_begin e jid cur m =
     (if strip cur = [] then Keep
      else if length (utf8 cur) < MIN_MEMORY_BYTES then Keep
      else if dream_key e = [] then Keep
      else case dm_llm e of None \<Rightarrow> Import_failed
        | Some _ \<Rightarrow> Ask (dream_key e) (dm_system e (max 200 (length (utf8 cur) div 10)))
            (dm_prompt e (recent_activity (parse_warm_entries e jid 2 m)) cur))"

text \<open>What it makes of the answer; \<open>None\<close> is a call that raised or gave nothing.\<close>

definition pass_end :: "string \<Rightarrow> string option \<Rightarrow> string" where
  "pass_end cur answer = (case answer of
      None \<Rightarrow> cur
    | Some r \<Rightarrow> (let c = strip r in
        if c = [] then cur
        else if length (utf8 c) < 20 then cur
        else if 2 * length (utf8 c) > 3 * length (utf8 cur) then cur
        else c))"

section \<open>The scheduler\<close>

definition DREAM_COOLDOWN :: int where "DREAM_COOLDOWN = 3600"

text \<open>
  Times are in seconds.  \<open>dr_tasks\<close> are the dreams that are started but have not run yet, \<open>dr_waiting\<close> those that wait for
  the model, with the memory they read and the prompts.
\<close>

record 'e dreams =
  dr_idle :: int
  dr_enabled :: bool
  dr_active :: "(string, int) dict"
  dr_dreaming :: "(string, bool) dict"
  dr_last :: "(string, int) dict"
  dr_tasks :: "string list"
  dr_waiting :: "(string \<times> string \<times> string \<times> string \<times> string) list"
  dr_mem :: mem
  dr_bus :: "'e bus"
  dr_graph :: graph

definition touch :: "int \<Rightarrow> string \<Rightarrow> 'e dreams \<Rightarrow> 'e dreams" where
  "touch now jid s = s\<lparr>dr_active := dset jid now (dr_active s)\<rparr>"

definition is_dreaming :: "string \<Rightarrow> 'e dreams \<Rightarrow> bool" where
  "is_dreaming jid s = (case dget (dr_dreaming s) jid of None \<Rightarrow> False | Some b \<Rightarrow> b)"

definition should_dream :: "int \<Rightarrow> int \<Rightarrow> int \<Rightarrow> bool" where
  "should_dream now last_active idle = (\<not> last_active \<le> 0 \<and> now - last_active \<ge> 60 * idle)"

definition start_dream :: "int \<Rightarrow> string \<times> int \<Rightarrow> 'e dreams \<Rightarrow> 'e dreams" where
  "start_dream now x s = (case x of (jid, last_active) \<Rightarrow>
     if is_dreaming jid s then s
     else if now - (case dget (dr_last s) jid of None \<Rightarrow> 0 | Some t \<Rightarrow> t) < DREAM_COOLDOWN then s
     else if \<not> should_dream now last_active (dr_idle s) then s
     else s\<lparr>dr_dreaming := dset jid True (dr_dreaming s), dr_tasks := dr_tasks s @ [jid]\<rparr>)"

definition tick :: "int \<Rightarrow> 'e dreams \<Rightarrow> 'e dreams" where
  "tick now s = (if \<not> dr_enabled s then s else fold (start_dream now) (dr_active s) s)"

text \<open>The \<open>finally\<close> clause.\<close>

definition wake :: "string \<Rightarrow> 'e dreams \<Rightarrow> 'e dreams" where
  "wake jid s = s\<lparr>dr_dreaming := dset jid False (dr_dreaming s)\<rparr>"

definition write_blocks :: "'e dream_env \<Rightarrow> string \<Rightarrow> (nat \<times> string \<times> string) list \<Rightarrow> 'e bus \<Rightarrow> 'e bus" where
  "write_blocks e jid secs b = fold (\<lambda>(i, n, c) b. fst (shared_write (dm_store e i) (''['' @ title_from False n @ '']'' @ newline @ c) jid ''private'' [] (7 / 10) [] [] b)) secs b"

definition add_facts :: "'e dream_env \<Rightarrow> int \<Rightarrow> string \<Rightarrow> (string \<times> string) list \<Rightarrow> graph \<Rightarrow> graph" where
  "add_facts e now jid secs g =
     (if \<not> dm_kg e then g
      else fold (\<lambda>(p, s, ob) g. let s = take 50 (strip s); ob = take 100 (strip ob) in
          if length s > 2 \<and> length ob > 2 then add_triple (dm_sha e) now s p ob jid (7 / 10) None g else g)
        (concat (map (\<lambda>(n, c). if n \<in> {''key facts'', ''decisions''}
            then concat (map (\<lambda>p. map (\<lambda>(s, ob). (p, s, ob)) (dm_facts e p c)) [''is'', ''uses'', ''prefers'']) else []) secs)) g)"

definition keep_dream :: "'e dream_env \<Rightarrow> int \<Rightarrow> string \<Rightarrow> string \<Rightarrow> 'e dreams \<Rightarrow> 'e dreams" where
  "keep_dream e now jid c s =
     (let secs = parse_typed_sections c;
          b = write_blocks e jid (enumerate 0 secs) (dr_bus s);
          b = (if dm_archive e then append_cold_memory now jid (''dream:'' @ jid @ '':'' @ dm_stamp e now) c ''dream,consolidated'' b else b) in
      s\<lparr>dr_mem := update_hot_memory jid c (dr_mem s), dr_bus := b, dr_graph := add_facts e now jid secs (dr_graph s)\<rparr>)"

text \<open>\<open>_run_dream\<close> up to the call of the model, and from its answer on.\<close>

definition dream_begin :: "'e dream_env \<Rightarrow> int \<Rightarrow> string \<Rightarrow> 'e dreams \<Rightarrow> 'e dreams" where
  "dream_begin e now jid s =
     (if jid \<notin> set (dr_tasks s) then s
      else let s = s\<lparr>dr_tasks := remove1 jid (dr_tasks s)\<rparr>; cur = get_hot_memory jid (dr_mem s) in
        if cur = [] \<or> length (utf8 cur) < MIN_MEMORY_BYTES then wake jid s
        else case pass_begin e jid cur (dr_mem s) of
            Import_failed \<Rightarrow> wake jid s
          | Keep \<Rightarrow> wake jid (s\<lparr>dr_last := dset jid now (dr_last s)\<rparr>)
          | Ask k p q \<Rightarrow> s\<lparr>dr_waiting := dr_waiting s @ [(jid, cur, k, p, q)]\<rparr>)"

definition dream_end :: "'e dream_env \<Rightarrow> int \<Rightarrow> string \<Rightarrow> 'e dreams \<Rightarrow> 'e dreams" where
  "dream_end e now jid s = (case dget (dr_waiting s) jid of
      None \<Rightarrow> s
    | Some (cur, k, p, q) \<Rightarrow>
        (let s = s\<lparr>dr_waiting := filter (\<lambda>(j, _). j \<noteq> jid) (dr_waiting s)\<rparr>;
             c = pass_end cur (case dm_llm e of None \<Rightarrow> None | Some f \<Rightarrow> f k p q);
             s = (if c = cur then s else keep_dream e now jid c s) in
         wake jid (s\<lparr>dr_last := dset jid now (dr_last s)\<rparr>)))"

definition remove_group :: "string \<Rightarrow> 'e dreams \<Rightarrow> 'e dreams" where
  "remove_group jid s = s\<lparr>dr_active := ddel jid (dr_active s), dr_dreaming := ddel jid (dr_dreaming s), dr_last := ddel jid (dr_last s)\<rparr>"

section \<open>Histories\<close>

text \<open>\<open>Elsewhere\<close> is a change of the memory by other parts of the program.\<close>

datatype dream_event = Touched int string | Ticked int | Began int string | Ended int string | Removed string | Elsewhere string string

fun dream_step :: "'e dream_env \<Rightarrow> dream_event \<Rightarrow> 'e dreams \<Rightarrow> 'e dreams" where
  "dream_step e (Touched now jid) s = touch now jid s"
| "dream_step e (Ticked now) s = tick now s"
| "dream_step e (Began now jid) s = dream_begin e now jid s"
| "dream_step e (Ended now jid) s = dream_end e now jid s"
| "dream_step e (Removed jid) s = remove_group jid s"
| "dream_step e (Elsewhere jid c) s = s\<lparr>dr_mem := update_hot_memory jid c (dr_mem s)\<rparr>"

definition running :: "'e dreams \<Rightarrow> string list" where
  "running s = dr_tasks s @ map fst (dr_waiting s)"

definition one_each :: "'e dreams \<Rightarrow> bool" where
  "one_each s \<longleftrightarrow> distinct (running s) \<and> list_all (\<lambda>j. is_dreaming j s) (running s)"

lemma wake_fields [simp]: "dr_tasks (wake j s) = dr_tasks s" "dr_waiting (wake j s) = dr_waiting s" "dr_mem (wake j s) = dr_mem s"
  "dr_bus (wake j s) = dr_bus s" "dr_graph (wake j s) = dr_graph s" "dr_last (wake j s) = dr_last s"
  "is_dreaming i (wake j s) = (if i = j then False else is_dreaming i s)"
  by (simp_all add: wake_def is_dreaming_def)

lemma exclusive_start: "one_each s \<Longrightarrow> one_each (start_dream now x s)"
  by (cases x) (auto simp: start_dream_def one_each_def running_def is_dreaming_def list_all_iff split: if_splits)

lemma exclusive_tick: "one_each s \<Longrightarrow> one_each (tick now s)"
proof -
  have "one_each s \<Longrightarrow> one_each (fold (start_dream now) xs s)" for xs
    by (induction xs arbitrary: s) (simp_all add: exclusive_start)
  then show "one_each s \<Longrightarrow> ?thesis" by (simp add: tick_def)
qed

lemma exclusive_wake:
  assumes "one_each s" "j \<in> set (running s)" "running s' = filter (\<lambda>i. i \<noteq> j) (running s)" "dr_dreaming s' = dr_dreaming s"
  shows "one_each (wake j s')"
  using assms by (auto simp: one_each_def list_all_iff running_def is_dreaming_def wake_def)

lemma exclusive_move:
  assumes "one_each s" "mset (running s') = mset (running s)" "dr_dreaming s' = dr_dreaming s"
  shows "one_each s'"
  using assms mset_eq_setD[OF assms(2)] mset_eq_imp_distinct_iff[OF assms(2)] by (auto simp: one_each_def list_all_iff is_dreaming_def)

lemma keep_dream_fields [simp]: "dr_tasks (keep_dream e now j c s) = dr_tasks s" "dr_waiting (keep_dream e now j c s) = dr_waiting s"
  "dr_dreaming (keep_dream e now j c s) = dr_dreaming s" "dr_last (keep_dream e now j c s) = dr_last s"
  "dr_mem (keep_dream e now j c s) = update_hot_memory j c (dr_mem s)" "dr_active (keep_dream e now j c s) = dr_active s"
  by (simp_all add: keep_dream_def Let_def)

lemma remove1_filter: "distinct xs \<Longrightarrow> remove1 j xs = filter (\<lambda>i. i \<noteq> j) xs"
  by (rule distinct_remove1_removeAll[unfolded removeAll_filter_not_eq, THEN trans]) (auto intro: filter_cong)

lemma exclusive_begin:
  assumes "one_each s"
  shows "one_each (dream_begin e now j s)"
proof (cases "j \<in> set (dr_tasks s)")
  case True
  have d: "distinct (dr_tasks s)" "j \<notin> set (map fst (dr_waiting s))" using assms True by (auto simp: one_each_def running_def)
  have jr: "j \<in> set (running s)" using True by (simp add: running_def)
  have r: "running (s\<lparr>dr_tasks := remove1 j (dr_tasks s)\<rparr>) = filter (\<lambda>i. i \<noteq> j) (running s)"
    "running (s\<lparr>dr_tasks := remove1 j (dr_tasks s), dr_last := l\<rparr>) = filter (\<lambda>i. i \<noteq> j) (running s)" for l
    using d by (auto simp: running_def remove1_filter filter_id_conv intro!: filter_id_conv[THEN iffD2, symmetric])
  have w: "one_each (wake j (s\<lparr>dr_tasks := remove1 j (dr_tasks s)\<rparr>))" "one_each (wake j (s\<lparr>dr_tasks := remove1 j (dr_tasks s), dr_last := l\<rparr>))" for l
    by (rule exclusive_wake[OF assms jr r(1)], simp) (rule exclusive_wake[OF assms jr r(2)], simp)
  have m: "one_each (s\<lparr>dr_tasks := remove1 j (dr_tasks s), dr_waiting := dr_waiting s @ [(j, x)]\<rparr>)" for x
    by (rule exclusive_move[OF assms]) (use True in \<open>simp_all add: running_def\<close>)
  show ?thesis using True w m by (auto simp: dream_begin_def Let_def split: ask_model.split)
qed (simp add: assms dream_begin_def)

lemma exclusive_end:
  assumes "one_each s"
  shows "one_each (dream_end e now j s)"
proof (cases "dget (dr_waiting s) j")
  case (Some x)
  obtain cur k p q where x: "x = (cur, k, p, q)" by (cases x)
  have j: "j \<in> set (map fst (dr_waiting s))" using dget_Some_key[OF Some] by (simp add: dkeys_def)
  then have n: "j \<notin> set (dr_tasks s)" using assms by (auto simp: one_each_def running_def)
  have f: "map fst (filter (\<lambda>(i, _). i \<noteq> j) ws) = filter (\<lambda>i. i \<noteq> j) (map fst ws)" for ws :: "(string \<times> string \<times> string \<times> string \<times> string) list"
    by (induction ws) auto
  have t: "filter (\<lambda>i. i \<noteq> j) (dr_tasks s) = dr_tasks s" using n by (auto simp: filter_id_conv)
  show ?thesis
    unfolding dream_end_def Some x option.case prod.case Let_def
    by (rule exclusive_wake[OF assms]) (use j n in \<open>auto simp: running_def f t\<close>)
qed (simp add: assms dream_end_def)

lemma one_each_step: "one_each s \<Longrightarrow> (\<forall>j. x \<noteq> Removed j) \<Longrightarrow> one_each (dream_step e x s)"
  by (cases x) (simp_all add: exclusive_tick exclusive_begin exclusive_end, simp_all add: one_each_def touch_def running_def is_dreaming_def)

lemma dreams_exclusive: "one_each s \<Longrightarrow> \<forall>x \<in> set xs. \<forall>j. x \<noteq> Removed j \<Longrightarrow> one_each (fold (dream_step e) xs s)"
  by (induction xs arbitrary: s) (simp_all add: one_each_step)

text \<open>The removal of a group forgets that it dreams (and its lock): the next dream runs beside the old one.\<close>

lemma removed_dreams_twice:
  assumes "dr_enabled s" "dr_active s = []" "dr_tasks s = [j]" "dr_idle s = 15" "10000 \<le> now" "0 < t" "t \<le> now - 900"
  shows "dr_tasks (fold (dream_step e) [Removed j, Touched t j, Ticked now] s) = [j, j]"
proof -
  have "dset j t (ddel j []) = [(j, t)]" by (simp add: ddel_def)
  then show ?thesis using assms by (simp add: remove_group_def touch_def tick_def start_dream_def is_dreaming_def should_dream_def DREAM_COOLDOWN_def)
qed

section \<open>What a dream changes\<close>

lemma shared_write_rows: "r \<in> set (mb_rows (fst (shared_write e c j sc pr im ns tag b))) \<Longrightarrow>
    r \<in> set (mb_rows b) \<or> sm_agent r = j \<and> sm_scope r = sc"
  by (auto simp: shared_write_def Let_def split: if_splits)

lemma write_blocks_rows: "r \<in> set (mb_rows (write_blocks e j secs b)) \<Longrightarrow> r \<in> set (mb_rows b) \<or> sm_agent r = j \<and> sm_scope r = ''private''"
proof (induction secs arbitrary: b)
  case (Cons x secs)
  obtain i n c where x: "x = (i, n, c)" by (cases x)
  have "write_blocks e j (x # secs) b
      = write_blocks e j secs (fst (shared_write (dm_store e i) (''['' @ title_from False n @ '']'' @ newline @ c) j ''private'' [] (7 / 10) [] [] b))"
    by (simp add: write_blocks_def x)
  then show ?case using Cons.IH Cons.prems shared_write_rows by metis
qed (simp add: write_blocks_def)

lemma pass_end_cases: "pass_end cur a = cur \<or> 20 \<le> length (utf8 (pass_end cur a)) \<and> 2 * length (utf8 (pass_end cur a)) \<le> 3 * length (utf8 cur)"
  by (auto simp: pass_end_def Let_def split: option.split)

lemma hot_update: "get_hot_memory i (update_hot_memory j c m) = (if i = j then get_hot_memory j (update_hot_memory j c m') else get_hot_memory i m)"
  by (simp add: update_hot_memory_def set_hot_memory_def get_hot_memory_def)

text \<open>
  What a dream leaves behind when the model has answered.  Either nothing but the time of the dream, or the memory of this
  group alone is replaced by an answer of at least twenty bytes and at most one and a half times the memory that the dream began with, whatever
  was written to the memory in the meantime; and new shared memories are private ones of the group.
\<close>

theorem dream_outcome:
  assumes "dget (dr_waiting s) jid = Some (cur, k, p, q)" "dm_llm e = Some f"
  shows "let c = pass_end cur (f k p q); s' = dream_end e now jid s in
    \<not> is_dreaming jid s' \<and> dget (dr_last s') jid = Some now
    \<and> (if c = cur then dr_mem s' = dr_mem s \<and> dr_bus s' = dr_bus s \<and> dr_graph s' = dr_graph s
       else 20 \<le> length (utf8 c) \<and> 2 * length (utf8 c) \<le> 3 * length (utf8 cur)
         \<and> (\<forall>i m. get_hot_memory i (dr_mem s') = (if i = jid then get_hot_memory jid (update_hot_memory jid c m) else get_hot_memory i (dr_mem s)))
         \<and> warm (dr_mem s') = warm (dr_mem s)
         \<and> (\<forall>r \<in> set (mb_rows (dr_bus s')). r \<in> set (mb_rows (dr_bus s)) \<or> sm_agent r = jid \<and> sm_scope r = ''private''))"
proof -
  define c where "c = pass_end cur (f k p q)"
  define s1 where "s1 = s\<lparr>dr_waiting := filter (\<lambda>(j, _). j \<noteq> jid) (dr_waiting s)\<rparr>"
  define s2 where "s2 = (if c = cur then s1 else keep_dream e now jid c s1)"
  have s': "dream_end e now jid s = wake jid (s2\<lparr>dr_last := dset jid now (dr_last s2)\<rparr>)"
    using assms by (simp add: dream_end_def c_def s1_def s2_def)
  have rows: "r \<in> set (mb_rows (dr_bus s)) \<or> sm_agent r = jid \<and> sm_scope r = ''private''" if "r \<in> set (mb_rows (dr_bus (keep_dream e now jid c s1)))" for r
    using that write_blocks_rows[of r e jid "enumerate 0 (parse_typed_sections c)" "dr_bus s"]
    by (auto simp: keep_dream_def Let_def append_cold_memory_def s1_def split: if_splits)
  have hot: "get_hot_memory i (dr_mem (keep_dream e now jid c s1)) = (if i = jid then get_hot_memory jid (update_hot_memory jid c m) else get_hot_memory i (dr_mem s))"
    "warm (dr_mem (keep_dream e now jid c s1)) = warm (dr_mem s)" for i m
    using hot_update[of i jid c "dr_mem s" m] by (simp_all add: s1_def update_hot_memory_def set_hot_memory_def)
  have fit: "c \<noteq> cur \<Longrightarrow> 20 \<le> length (utf8 c) \<and> 2 * length (utf8 c) \<le> 3 * length (utf8 cur)"
    using pass_end_cases[of cur "f k p q"] by (simp add: c_def)
  have last: "\<not> is_dreaming jid (dream_end e now jid s)" "dget (dr_last (dream_end e now jid s)) jid = Some now"
    by (simp_all add: s')
  have same: "dr_mem (dream_end e now jid s) = dr_mem s" "dr_bus (dream_end e now jid s) = dr_bus s" "dr_graph (dream_end e now jid s) = dr_graph s"
    if "c = cur" using that by (simp_all add: s' s2_def s1_def)
  have new: "dr_mem (dream_end e now jid s) = dr_mem (keep_dream e now jid c s1)" "dr_bus (dream_end e now jid s) = dr_bus (keep_dream e now jid c s1)"
    if "c \<noteq> cur" using that by (simp_all add: s' s2_def)
  show ?thesis
  proof (cases "c = cur")
    case True
    then show ?thesis unfolding Let_def c_def[symmetric] using last same by simp
  next
    case False
    have "\<forall>i m. get_hot_memory i (dr_mem (dream_end e now jid s)) = (if i = jid then get_hot_memory jid (update_hot_memory jid c m) else get_hot_memory i (dr_mem s))"
      using hot(1) new(1)[OF False] by metis
    moreover have "warm (dr_mem (dream_end e now jid s)) = warm (dr_mem s)" using hot(2) new(1)[OF False] by metis
    moreover have "\<forall>r \<in> set (mb_rows (dr_bus (dream_end e now jid s))). r \<in> set (mb_rows (dr_bus s)) \<or> sm_agent r = jid \<and> sm_scope r = ''private''"
      using rows new(2)[OF False] by simp
    ultimately show ?thesis unfolding Let_def c_def[symmetric] using last fit[OF False] False by simp
  qed
qed

definition demo_dream :: "nat dream_env" where
  "demo_dream = \<lparr>dm_today = ''d2'', dm_yesterday = ''d1'', dm_readable = \<lambda>_. True, dm_vars = \<lambda>k. if k = ''OPENAI_API_KEY'' then Some ''k'' else None,
     dm_llm = Some (\<lambda>_ _ _. Some ''[Decisions] - use the small model''), dm_system = show_nat, dm_prompt = \<lambda>a m. a @ m, dm_facts = \<lambda>_ _. [], dm_kg = True,
     dm_sha = rev, dm_store = \<lambda>_. demo_bus_env, dm_stamp = show_int, dm_archive = True\<rparr>"

definition demo_dreams :: "nat dreams" where
  "demo_dreams = \<lparr>dr_idle = 15, dr_enabled = True, dr_active = [], dr_dreaming = [(''g'', True)], dr_last = [], dr_tasks = [],
     dr_waiting = [(''g'', replicate 250 CHR ''x'', ''k'', [], [])], dr_mem = \<lparr>hot = [(''g'', ''written since''), (''h'', ''other'')], warm = [], sync = []\<rparr>,
     dr_bus = demo_bus, dr_graph = no_facts\<rparr>"

lemma dream_outcome_witness:
  "get_hot_memory ''g'' (dr_mem (dream_end demo_dream 9000 ''g'' demo_dreams)) = ''[Decisions] - use the small model''
    \<and> get_hot_memory ''h'' (dr_mem (dream_end demo_dream 9000 ''g'' demo_dreams)) = ''other''"
proof -
  have w: "dget (dr_waiting demo_dreams) ''g'' = Some (replicate 250 CHR ''x'', ''k'', [], [])" by (simp add: demo_dreams_def dget_def)
  have m: "dm_llm demo_dream = Some (\<lambda>_ _ _. Some ''[Decisions] - use the small model'')" by (simp add: demo_dream_def)
  have l: "length (utf8 (replicate 250 CHR ''x'')) = 250" by (simp add: utf8_def utf8_char_def length_concat sum_list_replicate)
  have c: "pass_end (replicate 250 CHR ''x'') (Some ''[Decisions] - use the small model'') = ''[Decisions] - use the small model''"
    unfolding pass_end_def l by (simp add: strip_defs utf8_def utf8_char_def)
  have n: "''[Decisions] - use the small model'' \<noteq> replicate 250 CHR ''x''" by (simp add: numeral_eq_Suc)
  have u: "get_hot_memory ''g'' (update_hot_memory ''g'' ''[Decisions] - use the small model'' m) = ''[Decisions] - use the small model''" for m
    by (simp add: get_hot_memory_def update_hot_memory_def set_hot_memory_def utf8_def utf8_char_def HOT_MEMORY_MAX_BYTES_def)
  have a: "\<forall>i m. get_hot_memory i (dr_mem (dream_end demo_dream 9000 ''g'' demo_dreams)) =
      (if i = ''g'' then get_hot_memory ''g'' (update_hot_memory ''g'' ''[Decisions] - use the small model'' m) else get_hot_memory i (dr_mem demo_dreams))"
    using dream_outcome[OF w m, of 9000] unfolding c Let_def if_not_P[OF n] by blast
  have "get_hot_memory ''h'' (dr_mem demo_dreams) = ''other''" by (simp add: demo_dreams_def get_hot_memory_def dget_def)
  then show ?thesis using a[rule_format, of "''g''"] a[rule_format, of "''h''"] u by simp
qed

text \<open>
  With the module that calls the model missing, as it is, no dream ever changes anything; and since only a dream that ends
  normally leaves its time, the group is tried again at every tick.
\<close>

theorem dreams_never_happen:
  assumes "dm_llm e = None" "dream_key e \<noteq> []" "dr_waiting s = []" "\<forall>x \<in> set xs. \<forall>j c. x \<noteq> Elsewhere j c \<and> x \<noteq> Removed j"
    and "\<forall>j. MIN_MEMORY_BYTES \<le> length (utf8 (get_hot_memory j (dr_mem s))) \<longrightarrow> strip (get_hot_memory j (dr_mem s)) \<noteq> []"
  shows "let s' = fold (dream_step e) xs s in dr_mem s' = dr_mem s \<and> dr_bus s' = dr_bus s \<and> dr_graph s' = dr_graph s \<and> dr_last s' = dr_last s"
  using assms(3-5)
proof (induction xs arbitrary: s)
  case (Cons x xs)
  have start: "dr_mem (fold (start_dream now) ys s) = dr_mem s \<and> dr_bus (fold (start_dream now) ys s) = dr_bus s \<and> dr_graph (fold (start_dream now) ys s) = dr_graph s
    \<and> dr_last (fold (start_dream now) ys s) = dr_last s \<and> dr_waiting (fold (start_dream now) ys s) = dr_waiting s" for now ys and s :: "'a dreams"
  proof (induction ys arbitrary: s)
    case (Cons y ys)
    show ?case using Cons.IH[of "start_dream now y s"] by (cases y) (auto simp: start_dream_def split: if_splits)
  qed simp
  have pass: "pass_begin e j (get_hot_memory j (dr_mem s)) (dr_mem s) = Import_failed"
    if "\<not> length (utf8 (get_hot_memory j (dr_mem s))) < MIN_MEMORY_BYTES" for j
    using that assms(1,2) Cons.prems(3) by (simp add: pass_begin_def not_less)
  have "dr_mem (dream_step e x s) = dr_mem s \<and> dr_bus (dream_step e x s) = dr_bus s \<and> dr_graph (dream_step e x s) = dr_graph s
    \<and> dr_last (dream_step e x s) = dr_last s \<and> dr_waiting (dream_step e x s) = []"
  proof (cases x)
    case (Ticked now)
    then show ?thesis using start[of now "dr_active s" s] Cons.prems(1) by (simp add: tick_def)
  next
    case (Began now j)
    then show ?thesis using pass[of j] Cons.prems(1) by (auto simp: dream_begin_def Let_def)
  qed (use Cons.prems in \<open>auto simp: touch_def dream_end_def\<close>)
  then show ?case using Cons.IH[of "dream_step e x s"] Cons.prems by (simp add: Let_def)
qed simp

end
