(* ===== verification/Spec2Isabelle.thy ===== *)
theory Spec2Isabelle
  imports TaskScheduler LeaderElection Evolution Router Pipeline Workflow Ipc SkillReplay SkillLock ContainerPool CrossBot SdkApi Health AgentLoop AgentClaude AgentGemini AgentMain KnowledgeGraph AgentTools DreamTask
begin

text \<open>
  Verification of EvoClaw: its host, the process that sits between messaging channels and the
  containers in which language-model agents run, and the agent runner inside a container.

  \<^bold>\<open>The program.\<close>  A channel hands every incoming message to \<open>_on_message\<close> in \<open>host/main.py\<close>, which
  checks it (allowlist, permissions, two rate limits, a duplicate fence, the immune system), stores it
  in SQLite (\<open>host/db.py\<close>) and wakes the queue of its group (\<open>host/group_queue.py\<close>).  The queue runs
  at most a fixed number of containers, one per group; its runner reads the group's unread messages
  behind a cursor, calls the agent and advances the cursor only on success.  Replies leave through
  \<open>host/router.py\<close>.  Scheduled tasks (\<open>host/task_scheduler.py\<close>) enter the same queue.  Of several host
  processes only the elected leader (\<open>host/leader_election.py\<close>) polls.  Every run leaves a record from
  which \<open>host/evolution\<close> adapts each group's prompt once a day.  \<open>host/enterprise/workflow_engine.py\<close>
  runs graphs of steps for multi-step jobs.  A container asks for messages, tasks, files and more by
  writing JSON files that \<open>host/ipc_watcher.py\<close> checks and carries out; the main group may have skills
  applied to the program itself, by \<open>skills_engine\<close>.

  \<^bold>\<open>Theories.\<close>
    \<^item> \<open>Prelude\<close>: Python dictionaries (insertion-ordered association lists, with the locale
      \<open>keyed_store\<close> for what a store promises), string methods, bounded deques, \<open>int\<close> and \<open>str\<close>;
      the contracts of components driven by events (\<open>preserved\<close>, \<open>refined\<close>, \<open>local_effects\<close>),
      interpreted by the components they fit.
    \<^item> \<open>GroupQueue\<close>: the record \<open>gq\<close> is the \<open>GroupQueue\<close> object, with its spawned runners and timers as
      lists; one definition per method, a runner split at its \<open>await\<close>; \<open>gq_step\<close> and \<open>gq_reach\<close> are the
      possible histories.  Lemmas: the container limit, all bounds, one container per group, back-off,
      fairness of draining, shutdown.
    \<^item> \<open>TaskScheduler\<close>: \<open>compute_next_run\<close>, one run of a task from dispatch to its \<open>finally\<close>, the failure
      streak, crash recovery and the poll, over the tables of \<open>db.py\<close>.
    \<^item> \<open>LeaderElection\<close>: the SQL statements on the one lease row, an instance's turns, and a cluster of
      instances with a common clock as a step relation.
    \<^item> \<open>Immune\<close>: the verdict on a message and the threat counters, every database fault a branch.
    \<^item> \<open>Evolution\<close>: fitness, load, evolution of a genome, the daily pass over the groups, prompt hints.
    \<^item> \<open>Rbac\<close>: grants, role and permission lookups through two caches, refined by the grants table.
    \<^item> \<open>Router\<close>: prompt markup, removal of internal notes, splitting and delivery of replies, files.
    \<^item> \<open>ChatDb\<close>: the chat tables, group registry, folder names (\<open>host/group_folder.py\<close>), allowlist;
      the locale \<open>inbox\<close> is what the message store promises a reader with a cursor.
    \<^item> \<open>Pipeline\<close>: the handlers of \<open>main.py\<close> over the components above: the globals are the record
      \<open>pipe\<close>; what is let in, what a batch holds, when a cursor moves, what a restart restores.
    \<^item> \<open>Workflow\<close>: validation of a graph, the scheduler loop, retries, the registry.
    \<^item> \<open>Ipc\<close>: a pass over the request files of a group and every request type, over the chat and task
      tables and a list of started actions (record \<open>world\<close>); what an ordinary group can bring about.
    \<^item> \<open>Files\<close>: paths as \<open>pathlib\<close> reads them and a file system (a dictionary from paths to contents),
      with the operations and frame lemmas (\<open>same_but\<close>) the skills engine uses.
    \<^item> \<open>SkillFiles\<close>, \<open>SkillState\<close>, \<open>SkillApply\<close>, \<open>SkillReplay\<close>, \<open>SkillLock\<close>: the files of \<open>skills_engine\<close> (file
      operations, backup, renamings and merges; state, manifest and customize sessions; application in
      steps with its rollback; replay, uninstall and rebase; the lock file under interleaving).
      \<open>SkillRollback\<close> holds the proofs about application: a failed one is undone, a successful one recorded.

    \<^item> \<open>Memory\<close>: the hot and warm memory of a group, its bounds, and the selection of sections for a prompt.
    \<^item> \<open>Container\<close>: what the host prepares for a container (circuit breaker, mounts, command, secrets,
      history).  \<open>ContainerRun\<close>: a run (record \<open>runner\<close>) from the breaker to the \<open>finally\<close> clause, with the
      parsing of its output.  \<open>ContainerPool\<close>: histories of several runs, permits and orphans.
    \<^item> \<open>Identity\<close>: agents and the registry of other bots with its handshakes (\<open>host/identity\<close>).  \<open>CrossBot\<close>: the
      signed messages bots exchange and the discovery of bots on a channel.  \<open>SdkApi\<close>: the websocket
      interface over both (\<open>host/sdk_api.py\<close>).  \<open>Health\<close>: the monitor and its alerts.
    \<^item> The agent runner (\<open>container/agent-runner\<close>).  \<open>AgentCall\<close>: the pool of keys, the retries of a call and the
      reading of a streamed answer.  \<open>AgentTurn\<close>: what the loops share (history and its cut, counters, tool
      calls, reminders).  \<open>AgentLoop\<close>, \<open>AgentClaude\<close>, \<open>AgentGemini\<close>: the loop per provider interface.
      \<open>AgentFiles\<close>: Read, Write, Edit and Glob on a disk with links.  \<open>AgentMain\<close>: \<open>main\<close> of \<open>agent.py\<close>, and
      what a run brings to the chat through \<open>ContainerRun\<close>.  \<open>WebFetch\<close>: the fetching of pages, its checks of addresses,
      chunks and summaries.  \<open>AgentTools\<close>: the other tools and the dispatcher, the refused commands as regular expressions
      with their own matcher, and what the host makes of the requests (through \<open>Ipc\<close> and \<open>MemoryBus\<close>).
    \<^item> \<open>MemoryBus\<close>: the memory that agents share (stores, archive, labels, recall; \<open>host/memory\<close>) over tables as lists, and
      the jobs that answer a container's memory requests.  \<open>KnowledgeGraph\<close>: facts with the times they are valid.
      \<open>DreamTask\<close>: the consolidation of an idle group's memory and its scheduler.

  \<^bold>\<open>What the properties show.\<close>  Invariants hold in every reachable state (queue, lease, registry,
  genomes); handlers are characterised on all their branches, errors included; caches and state
  passing are refined by plain specifications (permissions by the grants table, the six gates by tests
  on the state before); loops end (splitting, validation, the scheduler loop, the advance of a
  schedule).  Some properties state, as closed examples or exact characterisations, where the code
  departs from its own documentation: two containers of one group, a lost slot, a recurring task
  paused by a shutdown, messages lost to the shared cursor, ordinary chat that counts as failure, a
  notice that is never sent, a verdict that depends on the order of a set, a memory request that is never answered, a
  fact that cannot become true again.

  \<^bold>\<open>Conventions.\<close>  Python integers are \<open>int\<close>, clocks are integer milliseconds (seconds where the code
  has whole seconds), a value that the code compares but never computes (the configuration, the limit)
  is an argument.  An exception is \<open>None\<close>, a constructor, or a branch that the handler takes.  A
  segment of a coroutine between two \<open>await\<close>s is one step.  Code that is not in the repository is a
  parameter: \<open>croniter\<close>, SHA-256, regular expressions over non-ASCII text, whether a channel's call
  raises, the outcome of an agent or of a workflow step, the order in which a set is walked.

  \<^bold>\<open>Bounds.\<close>  No definition uses fuel: recursions are structural or have a measure.  Splitting a
  text is a partial function, since the code's loop would not end for length zero, and it is proved
  to return for every positive limit; following a path is one, since links can form a circle, which
  the code answers with an error (\<open>None\<close>).

  \<^bold>\<open>Not modelled.\<close>  Channels, dashboard, web portal, MCP server and websocket bridge, connectors,
  self-update and the development engine are glue over libraries, HTTP and subprocesses.  The jobs that
  the IPC watcher starts are actions without a body, but for the memory requests.  The summarizer is
  a call of a model over the tables that are modelled; the hooks are used by nothing; of the agent runner the
  declarations and the loading of tools are left out.
\<close>

end
